(* ===== verification/Prelude.thy ===== *)
theory Prelude
  imports Main "HOL-Library.Char_ord" "HOL-Library.List_Lexorder"
begin

text \<open>
  Shared vocabulary of the development: the result type of fallible Go functions, byte strings
  and the fragment of Go's \<^verbatim>\<open>strings\<close>, \<^verbatim>\<open>bytes\<close> and \<^verbatim>\<open>time\<close> packages the program uses, and the
  list lemmas the component theories share.

  A Go string or byte slice is a \<^typ>\<open>string\<close> (a list of 8-bit characters). A Go function
  returning \<^verbatim>\<open>(T, error)\<close> is a function into \<^typ>\<open>'e + 'a\<close>, \<open>Inl\<close> carrying the error.
  A \<^verbatim>\<open>time.Time\<close> is an \<^typ>\<open>int\<close> number of nanoseconds since Go's zero time, so
  \<^verbatim>\<open>IsZero\<close> is equality with 0; a \<^verbatim>\<open>time.Duration\<close> is an \<^typ>\<open>int\<close> number of
  nanoseconds, and the difference of two instants saturates at the int64 range as
  \<^verbatim>\<open>time.Time.Sub\<close> does.
\<close>

named_theorems go_simps \<open>unfoldings of the modelled standard library\<close>
named_theorems chain_simps \<open>equations of precedence walks\<close>

type_synonym instant = int
type_synonym duration = int
type_synonym bytes = string
type_synonym path = string

subsection \<open>Results\<close>

definition bind_res :: "'e + 'a \<Rightarrow> ('a \<Rightarrow> 'e + 'b) \<Rightarrow> 'e + 'b" where
  "bind_res r f = (case r of Inl e \<Rightarrow> Inl e | Inr a \<Rightarrow> f a)"

lemma bind_res_simps [simp]:
  "bind_res (Inl e) f = Inl e"
  "bind_res (Inr a) f = f a"
  by (simp_all add: bind_res_def)

lemma bind_res_Inr_iff:
  "bind_res r f = Inr b \<longleftrightarrow> (\<exists>a. r = Inr a \<and> f a = Inr b)"
  by (cases r) simp_all

lemma bind_res_Inl_iff:
  "bind_res r f = Inl e \<longleftrightarrow> r = Inl e \<or> (\<exists>a. r = Inr a \<and> f a = Inl e)"
  by (cases r) simp_all

text \<open>Running a fallible step over a list, stopping at the first error.\<close>

fun map_res :: "('a \<Rightarrow> 'e + 'b) \<Rightarrow> 'a list \<Rightarrow> 'e + 'b list" where
  "map_res f [] = Inr []"
| "map_res f (x # xs) =
     (case f x of Inl e \<Rightarrow> Inl e
      | Inr y \<Rightarrow> (case map_res f xs of Inl e \<Rightarrow> Inl e | Inr ys \<Rightarrow> Inr (y # ys)))"

fun fold_res :: "('a \<Rightarrow> 's \<Rightarrow> 'e + 's) \<Rightarrow> 'a list \<Rightarrow> 's \<Rightarrow> 'e + 's" where
  "fold_res f [] s = Inr s"
| "fold_res f (x # xs) s = (case f x s of Inl e \<Rightarrow> Inl e | Inr s' \<Rightarrow> fold_res f xs s')"

lemma map_res_Inr_length: "map_res f xs = Inr ys \<Longrightarrow> length ys = length xs"
  by (induction xs arbitrary: ys) (auto split: sum.splits)

lemma map_res_Inr_nth:
  "map_res f xs = Inr ys \<Longrightarrow> i < length xs \<Longrightarrow> f (xs ! i) = Inr (ys ! i)"
proof (induction xs arbitrary: ys i)
  case (Cons x xs)
  then show ?case by (cases i) (auto split: sum.splits)
qed simp

lemma map_res_Inr_map: "(\<And>x. x \<in> set xs \<Longrightarrow> f x = Inr (g x)) \<Longrightarrow> map_res f xs = Inr (map g xs)"
  by (induction xs) auto

lemma fold_res_append:
  "fold_res f (xs @ ys) s = bind_res (fold_res f xs s) (fold_res f ys)"
  by (induction xs arbitrary: s) (auto split: sum.splits)

text \<open>An invariant of a fold that may fail.\<close>

lemma fold_res_inv:
  assumes "fold_res f xs s = Inr t" and "P s"
    and "\<And>x a b. x \<in> set xs \<Longrightarrow> P a \<Longrightarrow> f x a = Inr b \<Longrightarrow> P b"
  shows "P t"
  using assms
proof (induction xs arbitrary: s)
  case (Cons x xs)
  then obtain s' where s': "f x s = Inr s'" and rest: "fold_res f xs s' = Inr t"
    by (auto split: sum.splits)
  have "P s'" using Cons.prems(2,3) s' by auto
  then show ?case using Cons.IH [OF rest] Cons.prems(3) by auto
qed simp

subsection \<open>Time\<close>

definition max_duration :: duration where "max_duration = 2 ^ 63 - 1"
definition min_duration :: duration where "min_duration = - (2 ^ 63)"

definition time_sub :: "instant \<Rightarrow> instant \<Rightarrow> duration" where
  "time_sub a b = max min_duration (min max_duration (a - b))"

definition time_is_zero :: "instant \<Rightarrow> bool" where
  "time_is_zero t \<longleftrightarrow> t = 0"

lemma time_sub_bounds: "min_duration \<le> time_sub a b" "time_sub a b \<le> max_duration"
  by (auto simp: time_sub_def max_duration_def min_duration_def)

lemma time_sub_mono: "a \<le> b \<Longrightarrow> time_sub a c \<le> time_sub b c"
  by (auto simp: time_sub_def)

lemma time_sub_gt_iff:
  "0 \<le> d \<Longrightarrow> d < max_duration \<Longrightarrow> time_sub a b > d \<longleftrightarrow> a - b > d"
  by (auto simp: time_sub_def max_duration_def min_duration_def)

abbreviation millisecond :: duration where "millisecond \<equiv> 1000000"
abbreviation second :: duration where "second \<equiv> 1000000000"

subsection \<open>Association lists with replacement, Go maps whose keys are enumerated\<close>

fun al_append :: "'k \<Rightarrow> 'v \<Rightarrow> ('k \<times> 'v list) list \<Rightarrow> ('k \<times> 'v list) list" where
  "al_append k v [] = [(k, [v])]"
| "al_append k v ((k', vs) # m) = (if k' = k then (k', vs @ [v]) # m else (k', vs) # al_append k v m)"

lemma al_append_keys: "set (map fst (al_append k v m)) = insert k (set (map fst m))"
  by (induction k v m rule: al_append.induct) auto

lemma al_append_distinct: "distinct (map fst m) \<Longrightarrow> distinct (map fst (al_append k v m))"
proof (induction k v m rule: al_append.induct)
  case (2 k v k' vs m)
  then show ?case using al_append_keys [of k v m] by (auto simp: image_iff)
qed simp

lemma al_append_lookup:
  "map_of (al_append k v m) k' =
     (if k' = k then Some ((case map_of m k of None \<Rightarrow> [] | Some vs \<Rightarrow> vs) @ [v]) else map_of m k')"
  by (induction k v m rule: al_append.induct) auto

text \<open>A finite set of paths kept as the code keeps a \<^verbatim>\<open>map[string]struct{}\<close>.\<close>

lemma map_upds_other: "p \<noteq> q \<Longrightarrow> (m(p \<mapsto> v)) q = m q"
  by simp

end
