(* ===== verification/GoStrings.thy ===== *)
theory GoStrings
  imports Prelude
begin

text \<open>
  The parts of Go's \<^verbatim>\<open>strings\<close>/\<^verbatim>\<open>bytes\<close>, \<^verbatim>\<open>strconv\<close> and \<^verbatim>\<open>net/url\<close> the program calls,
  on byte strings: \<^verbatim>\<open>TrimSpace\<close> (over the UTF-8 encodings of all of Unicode's white space),
  \<^verbatim>\<open>Cut\<close>, \<^verbatim>\<open>Split\<close>, \<^verbatim>\<open>TrimPrefix\<close>, query escaping and \<^verbatim>\<open>url.ParseQuery\<close>, decimal and
  hexadecimal rendering and parsing. They are the language's library, written out because the
  program's behaviour on every byte depends on them.
\<close>

subsection \<open>Prefixes, cuts and splits\<close>

fun has_prefix :: "string \<Rightarrow> string \<Rightarrow> bool" where
  "has_prefix [] s = True"
| "has_prefix (p # ps) [] = False"
| "has_prefix (p # ps) (c # s) = (p = c \<and> has_prefix ps s)"

definition trim_prefix :: "string \<Rightarrow> string \<Rightarrow> string" where
  "trim_prefix p s = (if has_prefix p s then drop (length p) s else s)"

definition trim_suffix :: "string \<Rightarrow> string \<Rightarrow> string" where
  "trim_suffix p s = (if has_prefix (rev p) (rev s) then take (length s - length p) s else s)"

lemma has_prefix_iff: "has_prefix p s \<longleftrightarrow> (\<exists>t. s = p @ t)"
  by (induction p s rule: has_prefix.induct) auto

lemma has_prefix_append [simp]: "has_prefix p (p @ s)"
  by (auto simp: has_prefix_iff)

lemma trim_prefix_append [simp]: "trim_prefix p (p @ s) = s"
  by (simp add: trim_prefix_def)

text \<open>\<^verbatim>\<open>strings.Cut\<close> with a one-byte separator: the text before and after its first occurrence.\<close>

fun cut :: "char \<Rightarrow> string \<Rightarrow> (string \<times> string) option" where
  "cut c [] = None"
| "cut c (x # s) =
     (if x = c then Some ([], s) else map_option (\<lambda>(a, b). (x # a, b)) (cut c s))"

lemma cut_None_iff: "cut c s = None \<longleftrightarrow> c \<notin> set s"
  by (induction s) auto

lemma cut_SomeD: "cut c s = Some (a, b) \<Longrightarrow> s = a @ c # b \<and> c \<notin> set a"
  by (induction s arbitrary: a) (auto split: if_splits)

lemma cut_append: "c \<notin> set a \<Longrightarrow> cut c (a @ c # b) = Some (a, b)"
  by (induction a) auto

lemma cut_notin: "c \<notin> set s \<Longrightarrow> cut c s = None"
  by (simp add: cut_None_iff)

text \<open>\<^verbatim>\<open>strings.Split\<close> with a one-byte separator: always at least one piece.\<close>

fun split_on :: "char \<Rightarrow> string \<Rightarrow> string list" where
  "split_on c [] = [[]]"
| "split_on c (x # s) =
     (if x = c then [] # split_on c s
      else (case split_on c s of [] \<Rightarrow> [[x]] | p # ps \<Rightarrow> (x # p) # ps))"

fun join_with :: "string \<Rightarrow> string list \<Rightarrow> string" where
  "join_with sep [] = []"
| "join_with sep [s] = s"
| "join_with sep (s # t # ts) = s @ sep @ join_with sep (t # ts)"

lemma split_on_not_Nil [simp]: "split_on c s \<noteq> []"
  by (induction c s rule: split_on.induct) (auto split: list.splits)

lemma join_with_Cons: "ts \<noteq> [] \<Longrightarrow> join_with sep (s # ts) = s @ sep @ join_with sep ts"
  by (cases ts) auto

lemma join_split: "join_with [c] (split_on c s) = s"
proof (induction c s rule: split_on.induct)
  case (2 c x s)
  then show ?case
    by (cases "split_on c s"; cases "tl (split_on c s)") (auto simp: join_with_Cons neq_Nil_conv)
qed simp

lemma split_on_parts: "p \<in> set (split_on c s) \<Longrightarrow> c \<notin> set p"
proof (induction c s arbitrary: p rule: split_on.induct)
  case (2 c x s)
  then show ?case by (cases "split_on c s") (auto split: if_splits)
qed simp

lemma split_on_notin: "c \<notin> set s \<Longrightarrow> split_on c s = [s]"
  by (induction s) auto

lemma split_on_append: "c \<notin> set a \<Longrightarrow> split_on c (a @ c # b) = a # split_on c b"
  by (induction a) auto

lemma split_on_join:
  "ps \<noteq> [] \<Longrightarrow> (\<And>p. p \<in> set ps \<Longrightarrow> c \<notin> set p) \<Longrightarrow> split_on c (join_with [c] ps) = ps"
proof (induction ps)
  case (Cons p ps)
  then show ?case
    by (cases ps) (auto simp: split_on_notin split_on_append)
qed simp

text \<open>\<^verbatim>\<open>strings.Index\<close> of a substring, as the text before its first occurrence.\<close>

fun before_sub :: "string \<Rightarrow> string \<Rightarrow> string option" where
  "before_sub p [] = (if p = [] then Some [] else None)"
| "before_sub p (c # s) = (if has_prefix p (c # s) then Some [] else map_option ((#) c) (before_sub p s))"

subsection \<open>White space\<close>

text \<open>
  \<^verbatim>\<open>strings.TrimSpace\<close> removes leading and trailing Unicode white space. The byte sequences
  below are the UTF-8 encodings of exactly those code points.
\<close>

definition space_runes :: "string list" where
  "space_runes =
     [[CHR '' ''], [CHR 0x09], [CHR 0x0A], [CHR 0x0B], [CHR 0x0C], [CHR 0x0D],
      [CHR 0xC2, CHR 0x85], [CHR 0xC2, CHR 0xA0], [CHR 0xE1, CHR 0x9A, CHR 0x80],
      [CHR 0xE2, CHR 0x80, CHR 0x80], [CHR 0xE2, CHR 0x80, CHR 0x81], [CHR 0xE2, CHR 0x80, CHR 0x82],
      [CHR 0xE2, CHR 0x80, CHR 0x83], [CHR 0xE2, CHR 0x80, CHR 0x84], [CHR 0xE2, CHR 0x80, CHR 0x85],
      [CHR 0xE2, CHR 0x80, CHR 0x86], [CHR 0xE2, CHR 0x80, CHR 0x87], [CHR 0xE2, CHR 0x80, CHR 0x88],
      [CHR 0xE2, CHR 0x80, CHR 0x89], [CHR 0xE2, CHR 0x80, CHR 0x8A], [CHR 0xE2, CHR 0x80, CHR 0xA8],
      [CHR 0xE2, CHR 0x80, CHR 0xA9], [CHR 0xE2, CHR 0x80, CHR 0xAF], [CHR 0xE2, CHR 0x81, CHR 0x9F],
      [CHR 0xE3, CHR 0x80, CHR 0x80]]"

fun strip_any :: "string list \<Rightarrow> string \<Rightarrow> string option" where
  "strip_any [] s = None"
| "strip_any (r # rs) s = (if r \<noteq> [] \<and> has_prefix r s then Some (drop (length r) s) else strip_any rs s)"

lemma strip_any_length: "strip_any rs s = Some t \<Longrightarrow> length t < length s"
  by (induction rs) (auto split: if_splits simp: has_prefix_iff)

lemma strip_any_None_iff: "strip_any rs s = None \<longleftrightarrow> (\<forall>r\<in>set rs. r \<noteq> [] \<longrightarrow> \<not> has_prefix r s)"
  by (induction rs) auto

function trim_runes :: "string list \<Rightarrow> string \<Rightarrow> string" where
  "trim_runes rs s = (case strip_any rs s of None \<Rightarrow> s | Some t \<Rightarrow> trim_runes rs t)"
  by pat_completeness auto
termination
  by (relation "measure (\<lambda>(rs, s). length s)") (auto simp: strip_any_length)

declare trim_runes.simps [simp del]

definition trim_space_left :: "string \<Rightarrow> string" where
  "trim_space_left s = trim_runes space_runes s"

definition trim_space_right :: "string \<Rightarrow> string" where
  "trim_space_right s = rev (trim_runes (map rev space_runes) (rev s))"

definition trim_space :: "string \<Rightarrow> string" where
  "trim_space s = trim_space_right (trim_space_left s)"

text \<open>Text that neither starts nor ends in white space is left alone.\<close>

definition trimmed :: "string \<Rightarrow> bool" where
  "trimmed s \<longleftrightarrow> strip_any space_runes s = None \<and> strip_any (map rev space_runes) (rev s) = None"

lemma trim_space_trimmed: "trimmed s \<Longrightarrow> trim_space s = s"
  by (simp add: trimmed_def trim_space_def trim_space_left_def trim_space_right_def trim_runes.simps)

lemma trim_runes_fixed: "strip_any rs (trim_runes rs s) = None"
proof (induction rs s rule: trim_runes.induct)
  case (1 rs s)
  then show ?case by (cases "strip_any rs s") (auto simp: trim_runes.simps [of rs s])
qed

lemma trim_runes_idem: "trim_runes rs (trim_runes rs s) = trim_runes rs s"
  by (subst trim_runes.simps) (simp add: trim_runes_fixed)

lemma strip_any_suffix: "strip_any rs s = Some t \<Longrightarrow> \<exists>u. s = u @ t"
  by (induction rs) (auto split: if_splits simp: has_prefix_iff)

lemma trim_runes_suffix: "\<exists>u. s = u @ trim_runes rs s"
proof (induction rs s rule: trim_runes.induct)
  case (1 rs s)
  show ?case
  proof (cases "strip_any rs s")
    case None
    then show ?thesis by (auto simp: trim_runes.simps [of rs s])
  next
    case (Some t)
    obtain u where u: "s = u @ t" using strip_any_suffix [OF Some] by blast
    obtain v where v: "t = v @ trim_runes rs t" using 1 [OF Some] by blast
    have "s = (u @ v) @ trim_runes rs t" using u v by simp
    moreover have "trim_runes rs s = trim_runes rs t" using Some by (simp add: trim_runes.simps [of rs s])
    ultimately show ?thesis by metis
  qed
qed

lemma trim_space_sublist: "\<exists>u v. s = u @ trim_space s @ v"
proof -
  obtain u where u: "s = u @ trim_space_left s"
    using trim_runes_suffix unfolding trim_space_left_def by blast
  obtain w where w: "rev (trim_space_left s) = w @ trim_runes (map rev space_runes) (rev (trim_space_left s))"
    using trim_runes_suffix by blast
  have "trim_space_left s = trim_space s @ rev w"
    using arg_cong [OF w, of rev] by (simp add: trim_space_def trim_space_right_def)
  with u show ?thesis by (metis append_assoc)
qed

lemma set_trim_space: "set (trim_space s) \<subseteq> set s"
  using trim_space_sublist [of s] by (metis set_append Un_upper1 Un_upper2 order_trans)

subsection \<open>Characters\<close>

definition code :: "char \<Rightarrow> nat" where "code c = of_char c"

definition is_digit :: "char \<Rightarrow> bool" where
  "is_digit c \<longleftrightarrow> 48 \<le> code c \<and> code c \<le> 57"

definition is_alpha :: "char \<Rightarrow> bool" where
  "is_alpha c \<longleftrightarrow> 65 \<le> code c \<and> code c \<le> 90 \<or> 97 \<le> code c \<and> code c \<le> 122"

definition digit_val :: "char \<Rightarrow> nat" where "digit_val c = code c - 48"

text \<open>\<^verbatim>\<open>strings.ToLower\<close> on the ASCII range; other bytes are kept.\<close>

definition lower_char :: "char \<Rightarrow> char" where
  "lower_char c = (if 65 \<le> code c \<and> code c \<le> 90 then char_of (code c + 32) else c)"

definition to_lower :: "string \<Rightarrow> string" where "to_lower = map lower_char"

text \<open>Visible ASCII characters; text that starts and ends with one is trimmed.\<close>

definition graphic :: "char \<Rightarrow> bool" where
  "graphic c \<longleftrightarrow> 33 \<le> code c \<and> code c \<le> 126"

lemma space_runes_edges: "list_all (\<lambda>r. r \<noteq> [] \<and> \<not> graphic (hd r) \<and> \<not> graphic (last r)) space_runes"
  by code_simp

lemma graphic_trimmed:
  assumes "s \<noteq> []" "graphic (hd s)" "graphic (last s)"
  shows "trimmed s"
proof -
  have h: "has_prefix r t \<Longrightarrow> r \<noteq> [] \<Longrightarrow> hd t = hd r" for r t :: string by (auto simp: has_prefix_iff)
  have e: "r \<noteq> [] \<and> \<not> graphic (hd r) \<and> \<not> graphic (last r)" if "r \<in> set space_runes" for r
    using space_runes_edges that by (simp add: list_all_iff)
  have "\<not> has_prefix r s \<and> \<not> has_prefix (rev r) (rev s)" if r: "r \<in> set space_runes" for r
    using e [OF r] h [of r s] h [of "rev r" "rev s"] assms by (auto simp: hd_rev)
  then show ?thesis by (auto simp: trimmed_def strip_any_None_iff)
qed

lemma code_char_of [simp]: "n < 256 \<Longrightarrow> code (char_of n) = n"
  by (simp add: code_def of_char_of)

lemma code_less [simp]: "code c < 256"
  by (simp add: code_def)

lemma char_of_code [simp]: "char_of (code c) = c"
  by (simp add: code_def)

lemma code_inject: "code a = code b \<longleftrightarrow> a = b"
  by (metis char_of_code)

subsection \<open>Query escaping\<close>

definition hex_digit :: "nat \<Rightarrow> char" where
  "hex_digit n = (if n < 10 then char_of (48 + n) else char_of (55 + n))"

definition unhex :: "char \<Rightarrow> nat option" where
  "unhex c = (if is_digit c then Some (code c - 48)
     else if 97 \<le> code c \<and> code c \<le> 102 then Some (code c - 87)
     else if 65 \<le> code c \<and> code c \<le> 70 then Some (code c - 55) else None)"

lemma unhex_hex_digit: "n < 16 \<Longrightarrow> unhex (hex_digit n) = Some n"
  by (auto simp: unhex_def hex_digit_def is_digit_def)

definition query_safe :: "char \<Rightarrow> bool" where
  "query_safe c \<longleftrightarrow> is_alpha c \<or> is_digit c \<or> c = CHR ''-'' \<or> c = CHR ''_'' \<or> c = CHR ''.'' \<or> c = CHR ''~''"

text \<open>\<^verbatim>\<open>url.QueryEscape\<close>.\<close>

definition escape_char :: "char \<Rightarrow> string" where
  "escape_char c = (if query_safe c then [c] else if c = CHR '' '' then ''+''
     else [CHR ''%'', hex_digit (code c div 16), hex_digit (code c mod 16)])"

definition query_escape :: "string \<Rightarrow> string" where
  "query_escape s = concat (map escape_char s)"

text \<open>\<^verbatim>\<open>url.QueryUnescape\<close>: \<open>None\<close> for a percent sign not followed by two hex digits.\<close>

fun query_unescape :: "string \<Rightarrow> string option" where
  "query_unescape [] = Some []"
| "query_unescape (c # s) =
     (if c = CHR ''%'' then
        (case s of a # b # t \<Rightarrow>
           (case (unhex a, unhex b) of
              (Some x, Some y) \<Rightarrow> map_option ((#) (char_of (16 * x + y))) (query_unescape t)
            | _ \<Rightarrow> None)
         | _ \<Rightarrow> None)
      else map_option ((#) (if c = CHR ''+'' then CHR '' '' else c)) (query_unescape s))"

lemma query_safe_plain: "query_safe c \<Longrightarrow> c \<noteq> CHR ''%'' \<and> c \<noteq> CHR ''+'' \<and> c \<noteq> CHR ''&''
     \<and> c \<noteq> CHR ''='' \<and> c \<noteq> CHR '';'' \<and> c \<noteq> CHR ''#'' \<and> c \<noteq> CHR ''?'' \<and> c \<noteq> CHR '',''"
  by (auto simp: query_safe_def is_alpha_def is_digit_def code_def)

lemma query_unescape_escape_char:
  "query_unescape (escape_char c @ s) = map_option ((#) c) (query_unescape s)"
proof (cases "query_safe c")
  case True
  then show ?thesis using query_safe_plain [OF True] by (simp add: escape_char_def)
next
  case False
  have d: "code c div 16 < 16" "code c mod 16 < 16"
    using code_less [of c] by (simp_all add: less_mult_imp_div_less)
  have "16 * (code c div 16) + code c mod 16 = code c" by simp
  then show ?thesis using False d by (auto simp: escape_char_def unhex_hex_digit)
qed

lemma query_unescape_escape: "query_unescape (query_escape s) = Some s"
  by (induction s) (auto simp: query_escape_def query_unescape_escape_char)

lemma hex_digit_range: "n < 16 \<Longrightarrow> query_safe (hex_digit n)"
  by (cases "n < 10") (auto simp: hex_digit_def query_safe_def is_digit_def is_alpha_def)

lemma set_query_escape:
  "x \<in> set (query_escape s) \<Longrightarrow> query_safe x \<or> x = CHR ''%'' \<or> x = CHR ''+''"
proof (induction s)
  case (Cons c s)
  have d: "code c div 16 < 16" "code c mod 16 < 16"
    using code_less [of c] by (simp_all add: less_mult_imp_div_less)
  have "query_escape (c # s) = escape_char c @ query_escape s" by (simp add: query_escape_def)
  then consider "x \<in> set (escape_char c)" | "x \<in> set (query_escape s)" using Cons.prems by auto
  then show ?case
  proof cases
    case 1
    then show ?thesis using d hex_digit_range by (auto simp: escape_char_def split: if_splits)
  next
    case 2
    then show ?thesis by (rule Cons.IH)
  qed
qed (simp add: query_escape_def)

lemma query_escape_no_delims:
  "x \<in> {CHR ''&'', CHR ''='', CHR '';'', CHR ''#'', CHR ''?'', CHR '',''} \<Longrightarrow> x \<notin> set (query_escape s)"
  using set_query_escape [of x s] query_safe_plain [of x] by auto

text \<open>
  \<^verbatim>\<open>url.ParseQuery\<close>: pairs separated by \<open>&\<close>, a semicolon in a pair or a bad escape is an
  error (the error is remembered while parsing goes on; every caller here discards the values
  then), an empty pair is skipped.
\<close>

definition parse_pair :: "string \<Rightarrow> (string \<times> string) option" where
  "parse_pair p = (let (k, v) = (case cut (CHR ''='') p of None \<Rightarrow> (p, []) | Some kv \<Rightarrow> kv)
     in case (query_unescape k, query_unescape v) of (Some k', Some v') \<Rightarrow> Some (k', v') | _ \<Rightarrow> None)"

fun parse_pairs :: "string list \<Rightarrow> (string \<times> string list) list \<Rightarrow> (string \<times> string list) list option" where
  "parse_pairs [] m = Some m"
| "parse_pairs (p # ps) m =
     (if CHR '';'' \<in> set p then None
      else if p = [] then parse_pairs ps m
      else (case parse_pair p of None \<Rightarrow> None | Some (k, v) \<Rightarrow> parse_pairs ps (al_append k v m)))"

definition parse_query :: "string \<Rightarrow> (string \<times> string list) list option" where
  "parse_query q = (if q = [] then Some [] else parse_pairs (split_on (CHR ''&'') q) [])"

text \<open>\<^verbatim>\<open>url.Values.Encode\<close>: keys sorted, one \<open>k=v\<close> per value, joined by \<open>&\<close>.\<close>

definition encode_pairs :: "(string \<times> string list) list \<Rightarrow> string list" where
  "encode_pairs m = concat (map (\<lambda>k. map (\<lambda>v. query_escape k @ ''='' @ query_escape v)
      (case map_of m k of None \<Rightarrow> [] | Some vs \<Rightarrow> vs)) (sort (map fst m)))"

definition values_encode :: "(string \<times> string list) list \<Rightarrow> string" where
  "values_encode m = join_with ''&'' (encode_pairs m)"

lemma parse_pair_encoded: "parse_pair (query_escape k @ ''='' @ query_escape v) = Some (k, v)"
proof -
  have "CHR ''='' \<notin> set (query_escape k)" by (rule query_escape_no_delims) simp
  then have "cut (CHR ''='') (query_escape k @ CHR ''='' # query_escape v) = Some (query_escape k, query_escape v)"
    by (rule cut_append)
  then show ?thesis by (simp add: parse_pair_def query_unescape_escape)
qed

lemma parse_pairs_distinct:
  "parse_pairs ps m = Some m' \<Longrightarrow> distinct (map fst m) \<Longrightarrow> distinct (map fst m')"
  by (induction ps m rule: parse_pairs.induct) (auto split: if_splits option.splits simp: al_append_distinct)

lemma parse_query_distinct: "parse_query q = Some m \<Longrightarrow> distinct (map fst m)"
  by (auto simp: parse_query_def split: if_splits dest: parse_pairs_distinct)

subsection \<open>Decimal and hexadecimal numbers\<close>

fun dec_of_nat :: "nat \<Rightarrow> string" where
  "dec_of_nat n = (if n < 10 then [char_of (48 + n)] else dec_of_nat (n div 10) @ [char_of (48 + n mod 10)])"

declare dec_of_nat.simps [simp del]

definition nat_of_dec :: "string \<Rightarrow> nat" where
  "nat_of_dec s = foldl (\<lambda>a c. 10 * a + digit_val c) 0 s"

fun hex_of_nat :: "nat \<Rightarrow> string" where
  "hex_of_nat n = (let d = (\<lambda>k. if k < 10 then char_of (48 + k) else char_of (87 + k)) in
     if n < 16 then [d n] else hex_of_nat (n div 16) @ [d (n mod 16)])"

declare hex_of_nat.simps [simp del]

lemma dec_of_nat_digits: "c \<in> set (dec_of_nat n) \<Longrightarrow> is_digit c"
proof (induction n rule: dec_of_nat.induct)
  case (1 n)
  then show ?case by (auto simp: dec_of_nat.simps [of n] is_digit_def split: if_splits)
qed

lemma nat_of_dec_dec_of_nat: "nat_of_dec (dec_of_nat n) = n"
proof (induction n rule: dec_of_nat.induct)
  case (1 n)
  show ?case
  proof (cases "n < 10")
    case True
    then show ?thesis by (simp add: dec_of_nat.simps [of n] nat_of_dec_def digit_val_def)
  next
    case False
    have m: "n mod 10 < 10" by simp
    have "nat_of_dec (dec_of_nat (n div 10) @ [char_of (48 + n mod 10)])
        = 10 * nat_of_dec (dec_of_nat (n div 10)) + n mod 10"
      using m by (simp add: nat_of_dec_def digit_val_def)
    also have "\<dots> = n" using 1 [OF False] by simp
    finally show ?thesis using False by (simp add: dec_of_nat.simps [of n])
  qed
qed

lemma dec_of_nat_not_Nil [simp]: "dec_of_nat n \<noteq> []"
  by (subst dec_of_nat.simps) simp

lemma dec_of_nat_hd: "n \<noteq> 0 \<Longrightarrow> hd (dec_of_nat n) \<noteq> CHR ''0''"
proof (induction n rule: dec_of_nat.induct)
  case (1 n)
  show ?case
  proof (cases "n < 10")
    case True
    have "char_of (48 + n) \<noteq> CHR ''0''"
    proof
      assume "char_of (48 + n) = CHR ''0''"
      then have "code (char_of (48 + n)) = code (CHR ''0'')" by simp
      then show False using 1(2) True by (simp add: code_def)
    qed
    then show ?thesis using True by (simp add: dec_of_nat.simps [of n])
  next
    case False
    then show ?thesis using 1(1) [OF False] by (simp add: dec_of_nat.simps [of n])
  qed
qed

lemma dec_of_nat_canonical: "length (dec_of_nat n) > 1 \<Longrightarrow> hd (dec_of_nat n) \<noteq> CHR ''0''"
  by (cases "n = 0") (simp_all add: dec_of_nat_hd dec_of_nat.simps [of 0])

end
