(* ===== verification/Errors.thy ===== *)
theory Errors
  imports GoStrings
begin

text \<open>
  \<^verbatim>\<open>errors.go\<close>: the error values of the program, \<^verbatim>\<open>errors.Is\<close> over their wrapping tree, the
  provider-independent classification \<^verbatim>\<open>ErrorKind\<close> and its inverse \<^verbatim>\<open>SentinelFor\<close>.

  An error is a tree: a sentinel, an opaque leaf produced outside the program, a formatted error
  wrapping the operands of its \<^verbatim>\<open>%w\<close> verbs (\<^verbatim>\<open>errors.Join\<close> is the same shape), or one of
  the program's error structs. The text of a message is kept only as a tag; where the program
  publishes an error's text, the model publishes the error itself.
\<close>

type_synonym Kind = string

definition KindNotFound :: Kind where "KindNotFound = ''not_found''"
definition KindPermissionDenied :: Kind where "KindPermissionDenied = ''permission_denied''"
definition KindUnauthenticated :: Kind where "KindUnauthenticated = ''unauthenticated''"
definition KindUnavailable :: Kind where "KindUnavailable = ''unavailable''"
definition KindRateLimited :: Kind where "KindRateLimited = ''rate_limited''"
definition KindInvalid :: Kind where "KindInvalid = ''invalid''"
definition KindUnknown :: Kind where "KindUnknown = ''unknown''"

lemmas Kind_defs = KindNotFound_def KindPermissionDenied_def KindUnauthenticated_def
  KindUnavailable_def KindRateLimited_def KindInvalid_def KindUnknown_def

lemma Kinds_distinct:
  "distinct [KindNotFound, KindPermissionDenied, KindUnauthenticated, KindUnavailable,
     KindRateLimited, KindInvalid, KindUnknown, []]"
  by code_simp

lemma Kinds_distinct_rev:
  "distinct [[], KindUnknown, KindInvalid, KindRateLimited, KindUnavailable,
     KindUnauthenticated, KindPermissionDenied, KindNotFound]"
  by code_simp

lemmas Kinds_neq [simp] = Kinds_distinct [simplified] Kinds_distinct_rev [simplified]

datatype sentinel =
    ErrNotFound | ErrPermissionDenied | ErrUnauthenticated | ErrUnavailable | ErrRateLimited
  | ErrInvalid | ErrNoSuchSnapshot | errWatcherClosed | ErrReentrantCall | ErrForbidden
  | DeadlineExceeded | Canceled | errNotWatchable

datatype err =
    Sentinel sentinel
  | Opaque string
  | Errorf string "err list"
  | ProviderError string string err
  | ValidationError err
  | DeriveError err
  | StaleError string err
  | PreApplyError err
  | BootstrapStaleError duration duration
  | UnknownSchemeError string

text \<open>The \<^verbatim>\<open>Unwrap\<close> methods.\<close>

fun Unwrap :: "err \<Rightarrow> err list" where
  "Unwrap (Sentinel s) = []"
| "Unwrap (Opaque m) = []"
| "Unwrap (Errorf m es) = es"
| "Unwrap (ProviderError s r e) = [e]"
| "Unwrap (ValidationError e) = [e]"
| "Unwrap (DeriveError e) = [e]"
| "Unwrap (StaleError r e) = [e]"
| "Unwrap (PreApplyError e) = [e]"
| "Unwrap (BootstrapStaleError a m) = [Sentinel ErrUnavailable]"
| "Unwrap (UnknownSchemeError s) = [Sentinel ErrInvalid]"

text \<open>\<^verbatim>\<open>errors.Is\<close> against a sentinel: a depth-first walk of the wrapping tree.\<close>

fun err_is :: "err \<Rightarrow> sentinel \<Rightarrow> bool" where
  "err_is (Sentinel s) t = (s = t)"
| "err_is (Opaque m) t = False"
| "err_is (Errorf m es) t = list_ex (\<lambda>e. err_is e t) es"
| "err_is (ProviderError s r e) t = err_is e t"
| "err_is (ValidationError e) t = err_is e t"
| "err_is (DeriveError e) t = err_is e t"
| "err_is (StaleError r e) t = err_is e t"
| "err_is (PreApplyError e) t = err_is e t"
| "err_is (BootstrapStaleError a m) t = (t = ErrUnavailable)"
| "err_is (UnknownSchemeError s) t = (t = ErrInvalid)"

text \<open>The walk is the one \<^verbatim>\<open>Unwrap\<close> describes.\<close>

lemma err_is_Unwrap: "err_is e t \<longleftrightarrow> e = Sentinel t \<or> list_ex (\<lambda>u. err_is u t) (Unwrap e)"
  by (cases e) auto

definition kindSentinels :: "(Kind \<times> sentinel) list" where
  "kindSentinels =
     [(KindNotFound, ErrNotFound), (KindPermissionDenied, ErrPermissionDenied),
      (KindUnauthenticated, ErrUnauthenticated), (KindUnavailable, ErrUnavailable),
      (KindRateLimited, ErrRateLimited), (KindInvalid, ErrInvalid)]"

fun kind_walk :: "(Kind \<times> sentinel) list \<Rightarrow> err \<Rightarrow> Kind option" where
  "kind_walk [] e = None"
| "kind_walk ((k, s) # ks) e = (if err_is e s then Some k else kind_walk ks e)"

definition ErrorKind :: "err option \<Rightarrow> Kind" where
  "ErrorKind eo = (case eo of None \<Rightarrow> []
     | Some e \<Rightarrow> (case kind_walk kindSentinels e of Some k \<Rightarrow> k
        | None \<Rightarrow> if err_is e DeadlineExceeded then KindUnavailable else KindUnknown))"

fun sentinel_walk :: "(Kind \<times> sentinel) list \<Rightarrow> Kind \<Rightarrow> sentinel option" where
  "sentinel_walk [] k = None"
| "sentinel_walk ((k', s) # ks) k = (if k' = k then Some s else sentinel_walk ks k)"

definition SentinelFor :: "Kind \<Rightarrow> sentinel option" where
  "SentinelFor k = sentinel_walk kindSentinels k"

definition reentrantCallbacks :: "string list" where
  "reentrantCallbacks = [''a PreApply hook'', ''a WithDerive hook'', ''an OnError callback'']"

fun joinCallbackList :: "string list \<Rightarrow> string" where
  "joinCallbackList [] = []"
| "joinCallbackList [a] = a"
| "joinCallbackList [a, b] = a @ '' or '' @ b"
| "joinCallbackList items = join_with '', '' (butlast items) @ '', or '' @ last items"

subsection \<open>Classification\<close>

lemma ErrorKind_None [simp]: "ErrorKind None = []"
  by (simp add: ErrorKind_def)

lemma ErrorKind_Some_not_Nil [simp]: "ErrorKind (Some e) \<noteq> []"
  by (simp add: ErrorKind_def kindSentinels_def)

text \<open>Two errors that carry the same sentinels have the same kind.\<close>

lemma ErrorKind_cong: "(\<And>s. err_is e s = err_is e' s) \<Longrightarrow> ErrorKind (Some e) = ErrorKind (Some e')"
  by (simp add: ErrorKind_def kindSentinels_def)

lemma ErrorKind_wrappers [simp]:
  "ErrorKind (Some (ProviderError s r e)) = ErrorKind (Some e)"
  "ErrorKind (Some (ValidationError e)) = ErrorKind (Some e)"
  "ErrorKind (Some (DeriveError e)) = ErrorKind (Some e)"
  "ErrorKind (Some (StaleError r e)) = ErrorKind (Some e)"
  "ErrorKind (Some (PreApplyError e)) = ErrorKind (Some e)"
  "ErrorKind (Some (Errorf m [e])) = ErrorKind (Some e)"
  by (rule ErrorKind_cong, simp)+

lemma ErrorKind_not_found_iff [simp]: "ErrorKind (Some e) = KindNotFound \<longleftrightarrow> err_is e ErrNotFound"
  by (simp add: ErrorKind_def kindSentinels_def)

text \<open>
  \<^verbatim>\<open>ErrorKind\<close> inverts \<^verbatim>\<open>SentinelFor\<close> through any nesting of the program's own wrappers:
  an error classified under a kind that has a sentinel carries that sentinel, and an error that
  wraps (once) the sentinel of a kind is classified back to that kind.
\<close>

lemma ErrorKind_SentinelFor:
  assumes "SentinelFor k = Some s"
  shows "ErrorKind (Some (Sentinel s)) = k \<and>
         ErrorKind (Some (ProviderError sch r (Errorf m [Sentinel s, Opaque x]))) = k \<and>
         (ErrorKind (Some e) = k \<longrightarrow> err_is e s \<or> (s = ErrUnavailable \<and> err_is e DeadlineExceeded))"
  using assms
  by (auto simp: SentinelFor_def ErrorKind_def kindSentinels_def split: if_splits)

lemma ErrorKind_SentinelFor_witness:
  "SentinelFor KindRateLimited = Some ErrRateLimited \<and> ErrorKind (Some (Sentinel ErrRateLimited)) = KindRateLimited"
proof -
  have h: "SentinelFor KindRateLimited = Some ErrRateLimited"
    by (simp add: SentinelFor_def kindSentinels_def)
  show ?thesis using ErrorKind_SentinelFor [OF h, of "''env''" "''A''" "''x''" "''y''" "Opaque ''z''"] h by simp
qed

text \<open>
  A not-found sentinel anywhere in the tree wins over every other one, which is what makes it the
  only kind that can trigger default handling.
\<close>

lemma ErrorKind_not_found_wins:
  "err_is e ErrNotFound \<Longrightarrow> ErrorKind (Some (Errorf m [e, e'])) = KindNotFound"
  by simp

end
