(* ===== verification/Refs.thy ===== *)
theory Refs
  imports Errors
begin

text \<open>
  \<^verbatim>\<open>ref.go\<close>, \<^verbatim>\<open>refvars.go\<close> and the redaction of \<^verbatim>\<open>status.go\<close>: parsing of \<open>source\<close> tags into
  precedence chains of refs, \<open>${VAR}\<close> expansion, rendering and redaction.

  \<^verbatim>\<open>url.Values\<close> is an association list with distinct keys: the program reads it by key and
  enumerates its keys only sorted.
\<close>

record Ref =
  r_Scheme :: string
  r_Path :: string
  r_Key :: string
  r_Opts :: "(string \<times> string list) list"
  r_Raw :: string

definition ref_suffix :: "Ref \<Rightarrow> string \<Rightarrow> string" where
  "ref_suffix r q = r_Scheme r @ ''://'' @ r_Path r
     @ (if r_Key r \<noteq> [] then CHR ''#'' # r_Key r else [])
     @ q"

definition String_Ref :: "Ref \<Rightarrow> string" where
  "String_Ref r = (if r_Raw r \<noteq> [] then r_Raw r
     else ref_suffix r (if r_Opts r \<noteq> [] then CHR ''?'' # values_encode (r_Opts r) else []))"

definition Opt :: "Ref \<Rightarrow> string \<Rightarrow> string" where
  "Opt r name = (case map_of (r_Opts r) name of Some (v # vs) \<Rightarrow> v | _ \<Rightarrow> [])"

subsection \<open>Parsing\<close>

definition ParseRef :: "string \<Rightarrow> err + Ref" where
  "ParseRef tag0 = (let tag = trim_space tag0 in
     if tag = [] then Inl (Errorf ''mamori: empty source ref'' [])
     else (case cut (CHR '':'') tag of
        None \<Rightarrow> Inl (Errorf ''mamori: source ref missing scheme'' [])
      | Some (scheme, remainder) \<Rightarrow>
         if scheme = [] then Inl (Errorf ''mamori: source ref missing scheme'' [])
         else (let rest = trim_prefix ''//'' remainder;
                   finish = (\<lambda>opts body. (case cut (CHR ''#'') body of
                       None \<Rightarrow> Inr \<lparr>r_Scheme = scheme, r_Path = body, r_Key = [], r_Opts = opts, r_Raw = tag\<rparr>
                     | Some (p, k) \<Rightarrow> Inr \<lparr>r_Scheme = scheme, r_Path = p, r_Key = k, r_Opts = opts, r_Raw = tag\<rparr>))
               in case cut (CHR ''?'') rest of
                    None \<Rightarrow> finish [] rest
                  | Some (body, q) \<Rightarrow> (case parse_query q of
                       None \<Rightarrow> Inl (Errorf ''mamori: source ref bad query'' [Opaque ''url''])
                     | Some opts \<Rightarrow> finish opts body))))"

text \<open>The regular expression \<^verbatim>\<open>^\s*[a-zA-Z][a-zA-Z0-9+.\-]*:\<close>.\<close>

definition re_space :: "char \<Rightarrow> bool" where
  "re_space c \<longleftrightarrow> c \<in> {CHR 0x09, CHR 0x0A, CHR 0x0C, CHR 0x0D, CHR '' ''}"

definition scheme_char :: "char \<Rightarrow> bool" where
  "scheme_char c \<longleftrightarrow> is_alpha c \<or> is_digit c \<or> c = CHR ''+'' \<or> c = CHR ''.'' \<or> c = CHR ''-''"

definition schemeStart :: "string \<Rightarrow> bool" where
  "schemeStart s = (case dropWhile re_space s of [] \<Rightarrow> False
     | c # t \<Rightarrow> is_alpha c \<and> (case dropWhile scheme_char t of [] \<Rightarrow> False | d # _ \<Rightarrow> d = CHR '':''))"

text \<open>The loop of \<^verbatim>\<open>splitChain\<close>: \<open>cur\<close> is the text since the last split point.\<close>

fun splitChain_from :: "string \<Rightarrow> string \<Rightarrow> string list" where
  "splitChain_from cur [] = [cur]"
| "splitChain_from cur (c # s) =
     (if c = CHR '','' \<and> schemeStart s then cur # splitChain_from [] s
      else splitChain_from (cur @ [c]) s)"

definition splitChain :: "string \<Rightarrow> string list" where
  "splitChain tag = splitChain_from [] tag"

definition ParseRefs :: "string \<Rightarrow> err + Ref list" where
  "ParseRefs tag0 = (let tag = trim_space tag0 in
     if tag = [] then Inl (Errorf ''mamori: empty source ref'' [])
     else map_res ParseRef (splitChain tag))"

subsection \<open>Variable expansion\<close>

definition WithRefVars :: "(string \<rightharpoonup> string) \<Rightarrow> (string \<rightharpoonup> string) \<Rightarrow> (string \<rightharpoonup> string)" where
  "WithRefVars vars old = old ++ vars"

definition EnvVars :: "(string \<rightharpoonup> string) \<Rightarrow> string list \<Rightarrow> (string \<rightharpoonup> string)" where
  "EnvVars lookupEnv names = (\<lambda>n. if n \<in> set names then lookupEnv n else None)"

definition res_append :: "string \<Rightarrow> err + string \<Rightarrow> err + string" where
  "res_append s r = (case r of Inl e \<Rightarrow> Inl e | Inr t \<Rightarrow> Inr (s @ t))"

function expand_scan :: "(string \<rightharpoonup> string) \<Rightarrow> string \<Rightarrow> err + string" where
  "expand_scan vars s = (case s of [] \<Rightarrow> Inr []
     | c # t \<Rightarrow>
        if c \<noteq> CHR ''$'' then res_append [c] (expand_scan vars t)
        else (case t of
           [] \<Rightarrow> Inr ''$''
         | d # u \<Rightarrow>
            if d = CHR ''$'' then res_append ''$'' (expand_scan vars u)
            else if d \<noteq> CHR ''{'' then res_append ''$'' (expand_scan vars t)
            else (case cut (CHR ''}'') u of
                None \<Rightarrow> Inl (Errorf ''mamori: source: unterminated ${'' [Sentinel ErrInvalid])
              | Some (name, rest) \<Rightarrow>
                 if name = [] then Inl (Errorf ''mamori: source: empty variable name in ${}'' [Sentinel ErrInvalid])
                 else (case vars name of
                     None \<Rightarrow> Inl (Errorf ''mamori: source: undefined ref variable'' [Sentinel ErrInvalid])
                   | Some v \<Rightarrow> res_append v (expand_scan vars rest)))))"
  by pat_completeness auto
termination
  by (relation "measure (\<lambda>(vars, s). length s)") (auto dest: cut_SomeD)

declare expand_scan.simps [simp del]

definition expandRefVars :: "string \<Rightarrow> (string \<rightharpoonup> string) \<Rightarrow> err + string" where
  "expandRefVars tag vars = (if CHR ''$'' \<notin> set tag then Inr tag else expand_scan vars tag)"

subsection \<open>Redaction\<close>

definition Redacted_const :: string where "Redacted_const = ''[REDACTED]''"

definition sensitiveOptKeys :: "string list" where
  "sensitiveOptKeys =
     [''token'', ''password'', ''secret'', ''key'', ''apikey'', ''api_key'', ''sas'', ''credential'',
      ''client_secret'', ''secret_access_key'', ''access_key'', ''private_key'', ''secret_key'',
      ''pwd'', ''passwd'']"

definition opt_sensitive :: "string \<Rightarrow> bool" where
  "opt_sensitive k \<longleftrightarrow> to_lower k \<in> set sensitiveOptKeys"

text \<open>
  The builder loop of \<^verbatim>\<open>Redacted\<close> writes a separator whenever text is already present; a
  written pair always holds \<open>=\<close>, so the result is the pairs joined by \<open>&\<close>.
\<close>

definition redacted_pairs :: "(string \<times> string list) list \<Rightarrow> string list" where
  "redacted_pairs m = concat (map (\<lambda>k. map (\<lambda>v. query_escape k @ ''='' @
        (if opt_sensitive k then Redacted_const else query_escape v))
      (case map_of m k of None \<Rightarrow> [] | Some vs \<Rightarrow> vs)) (sort (map fst m)))"

definition Redacted :: "Ref \<Rightarrow> string" where
  "Redacted r = (if r_Opts r = [] then (if r_Raw r \<noteq> [] then r_Raw r else String_Ref r)
     else (let b = join_with ''&'' (redacted_pairs (r_Opts r)) in
       ref_suffix r (if b \<noteq> [] then CHR ''?'' # b else [])))"

abbreviation redactRef :: "Ref \<Rightarrow> string" where "redactRef \<equiv> Redacted"


subsection \<open>Chains are split losslessly and maximally\<close>

lemma splitChain_from_not_Nil [simp]: "splitChain_from cur s \<noteq> []"
  by (induction cur s rule: splitChain_from.induct) auto

lemma splitChain_from_join: "join_with '','' (splitChain_from cur s) = cur @ s"
  by (induction cur s rule: splitChain_from.induct) (auto simp: join_with_Cons)

text \<open>Inside a piece no comma is followed by a scheme, read with the text that follows the piece.\<close>

fun no_split :: "string \<Rightarrow> string \<Rightarrow> bool" where
  "no_split [] t = True"
| "no_split (c # s) t = ((c = CHR '','' \<longrightarrow> \<not> schemeStart (s @ t)) \<and> no_split s t)"

fun chain_pieces :: "string list \<Rightarrow> bool" where
  "chain_pieces [] = True"
| "chain_pieces [p] = no_split p []"
| "chain_pieces (p # q # ps) =
     (no_split p (CHR '','' # join_with '','' (q # ps)) \<and> schemeStart (join_with '','' (q # ps)) \<and> chain_pieces (q # ps))"

lemma no_split_snoc:
  "no_split (s @ [c]) t \<longleftrightarrow> no_split s (c # t) \<and> (c = CHR '','' \<longrightarrow> \<not> schemeStart t)"
  by (induction s) auto

lemma chain_pieces_Cons:
  "ps \<noteq> [] \<Longrightarrow> chain_pieces (p # ps) \<longleftrightarrow>
     no_split p (CHR '','' # join_with '','' ps) \<and> schemeStart (join_with '','' ps) \<and> chain_pieces ps"
  by (cases ps) auto

lemma splitChain_from_pieces: "no_split cur s \<Longrightarrow> chain_pieces (splitChain_from cur s)"
proof (induction cur s rule: splitChain_from.induct)
  case (2 cur c s)
  show ?case
  proof (cases "c = CHR '','' \<and> schemeStart s")
    case True
    then show ?thesis using 2(1) [OF True] 2(3)
      by (simp add: chain_pieces_Cons splitChain_from_join)
  next
    case False
    then show ?thesis using 2(2) [OF False] 2(3) by (auto simp: no_split_snoc)
  qed
qed simp

text \<open>
  Splitting a chain loses nothing (joining the pieces with commas gives the tag back), every
  piece after the first starts with a scheme token, and no piece holds a further separator: the
  split is at exactly the commas the grammar calls separators.
\<close>

lemma splitChain_correct:
  "join_with '','' (splitChain tag) = tag \<and> chain_pieces (splitChain tag) \<and> splitChain tag \<noteq> []"
  by (simp add: splitChain_def splitChain_from_join splitChain_from_pieces)

subsection \<open>Parsing inverts rendering\<close>

text \<open>Options as \<^verbatim>\<open>url.ParseQuery\<close> leaves them when the query lists its keys in order.\<close>

definition opts_canonical :: "(string \<times> string list) list \<Rightarrow> bool" where
  "opts_canonical m \<longleftrightarrow> sorted (map fst m) \<and> distinct (map fst m) \<and> (\<forall>(k, vs) \<in> set m. vs \<noteq> [])"

definition pair_text :: "string \<times> string \<Rightarrow> string" where
  "pair_text kv = query_escape (fst kv) @ ''='' @ query_escape (snd kv)"

definition flat_opts :: "(string \<times> string list) list \<Rightarrow> (string \<times> string) list" where
  "flat_opts m = concat (map (\<lambda>(k, vs). map (Pair k) vs) m)"

lemma encode_pairs_flat:
  assumes "opts_canonical m"
  shows "encode_pairs m = map pair_text (flat_opts m)"
proof -
  have s: "sort (map fst m) = map fst m"
    using assms by (simp add: opts_canonical_def sorted_sort_id)
  let ?enc = "\<lambda>k. map (\<lambda>v. query_escape k @ ''='' @ query_escape v)
         (case map_of m k of None \<Rightarrow> [] | Some vs \<Rightarrow> vs)"
  have "?enc (fst kv) = map pair_text (map (Pair (fst kv)) (snd kv))" if "kv \<in> set m" for kv
    using assms that by (cases kv) (simp add: opts_canonical_def pair_text_def)
  then have "map ?enc (map fst m) = map (\<lambda>kv. map pair_text (map (Pair (fst kv)) (snd kv))) m"
    by simp
  then have "concat (map ?enc (map fst m)) = concat (map (\<lambda>kv. map pair_text (map (Pair (fst kv)) (snd kv))) m)"
    by (rule arg_cong)
  then show ?thesis
    by (simp only: encode_pairs_def s flat_opts_def map_concat) (simp add: comp_def split_def)
qed

lemma pair_text_plain: "CHR '';'' \<notin> set (pair_text kv)" "CHR ''&'' \<notin> set (pair_text kv)" "pair_text kv \<noteq> []"
  using query_escape_no_delims by (auto simp: pair_text_def)

lemma parse_pairs_texts:
  "parse_pairs (map pair_text kvs) m = Some (fold (\<lambda>(k, v). al_append k v) kvs m)"
proof (induction kvs arbitrary: m)
  case (Cons kv kvs)
  have "parse_pair (pair_text kv) = Some (fst kv, snd kv)"
    unfolding pair_text_def by (rule parse_pair_encoded)
  then show ?case using Cons pair_text_plain [of kv] by (simp add: split_def)
qed simp

lemma al_append_new: "k \<notin> set (map fst m) \<Longrightarrow> al_append k v m = m @ [(k, [v])]"
  by (induction k v m rule: al_append.induct) auto

lemma al_append_last:
  "k \<notin> set (map fst m) \<Longrightarrow> al_append k v (m @ [(k, vs)]) = m @ [(k, vs @ [v])]"
  by (induction k v m rule: al_append.induct) auto

lemma fold_al_append_last:
  "k \<notin> set (map fst m) \<Longrightarrow>
     fold (\<lambda>(k, v). al_append k v) (map (Pair k) ws) (m @ [(k, vs)]) = m @ [(k, vs @ ws)]"
  by (induction ws arbitrary: vs) (auto simp: al_append_last)

lemma fold_al_append_block:
  assumes "k \<notin> set (map fst m)" and "vs \<noteq> []"
  shows "fold (\<lambda>(k, v). al_append k v) (map (Pair k) vs) m = m @ [(k, vs)]"
proof -
  obtain w ws where "vs = w # ws" using assms(2) by (cases vs) auto
  then show ?thesis using assms(1) fold_al_append_last [OF assms(1), of ws "[w]"] by (simp add: al_append_new)
qed

lemma fold_al_append_flat:
  "distinct (map fst (m @ m')) \<Longrightarrow> (\<forall>(k, vs) \<in> set m'. vs \<noteq> []) \<Longrightarrow>
     fold (\<lambda>(k, v). al_append k v) (flat_opts m') m = m @ m'"
proof (induction m' arbitrary: m)
  case (Cons kvs m')
  obtain k vs where kvs: "kvs = (k, vs)" by (cases kvs)
  have "fold (\<lambda>(k, v). al_append k v) (map (Pair k) vs) m = m @ [(k, vs)]"
    using Cons.prems kvs by (intro fold_al_append_block) auto
  then show ?case using Cons.IH [of "m @ [(k, vs)]"] Cons.prems kvs by (simp add: flat_opts_def)
qed (simp add: flat_opts_def)

lemma parse_query_encode:
  assumes "opts_canonical m"
  shows "parse_query (values_encode m) = Some m"
proof (cases "m = []")
  case True
  then show ?thesis by (simp add: parse_query_def values_encode_def encode_pairs_def)
next
  case False
  let ?ps = "map pair_text (flat_opts m)"
  obtain k vs m' where m: "m = (k, vs) # m'" using False by (cases m) auto
  have "vs \<noteq> []" using assms m by (simp add: opts_canonical_def)
  then have ne: "?ps \<noteq> []" using m by (simp add: flat_opts_def)
  have sp: "split_on (CHR ''&'') (join_with ''&'' ?ps) = ?ps"
    by (rule split_on_join [OF ne]) (auto simp: pair_text_plain)
  have "join_with ''&'' ?ps \<noteq> []"
    using ne pair_text_plain(3) by (cases "flat_opts m"; cases "tl (flat_opts m)") auto
  moreover have "parse_pairs ?ps [] = Some m"
    using fold_al_append_flat [of "[]" m] assms
    by (simp add: parse_pairs_texts opts_canonical_def)
  ultimately show ?thesis
    by (simp add: parse_query_def values_encode_def encode_pairs_flat [OF assms] sp)
qed

definition ref_plain :: "Ref \<Rightarrow> bool" where
  "ref_plain r \<longleftrightarrow> r_Scheme r \<noteq> [] \<and> CHR '':'' \<notin> set (r_Scheme r)
     \<and> CHR ''#'' \<notin> set (r_Path r) \<and> CHR ''?'' \<notin> set (r_Path r)
     \<and> CHR ''?'' \<notin> set (r_Key r) \<and> opts_canonical (r_Opts r)"

lemma cut_body:
  assumes "CHR ''#'' \<notin> set p"
  shows "cut (CHR ''#'') (p @ (if k \<noteq> [] then CHR ''#'' # k else []))
      = (if k \<noteq> [] then Some (p, k) else None)"
  using assms by (simp add: cut_append cut_notin)

text \<open>
  Rendering a ref that carries no raw tag and parsing the text back gives the ref, with the
  rendered text as its raw tag, whenever its parts hold no delimiter of a later part, its options
  are canonical and the text does not begin or end in white space (which parsing trims).
\<close>

lemma ParseRef_String:
  assumes "ref_plain r" and "r_Raw r = []" and "trimmed (String_Ref r)"
  shows "ParseRef (String_Ref r) = Inr (r\<lparr>r_Raw := String_Ref r\<rparr>)"
proof -
  let ?kp = "r_Path r @ (if r_Key r \<noteq> [] then CHR ''#'' # r_Key r else [])"
  let ?q = "if r_Opts r \<noteq> [] then CHR ''?'' # values_encode (r_Opts r) else []"
  have str: "String_Ref r = r_Scheme r @ CHR '':'' # (''//'' @ (?kp @ ?q))"
    using assms(2) by (simp add: String_Ref_def ref_suffix_def)
  have colon: "cut (CHR '':'') (String_Ref r) = Some (r_Scheme r, ''//'' @ (?kp @ ?q))"
    unfolding str using assms(1) by (intro cut_append) (simp add: ref_plain_def)
  have tp: "trim_prefix ''//'' (''//'' @ (?kp @ ?q)) = ?kp @ ?q" by (rule trim_prefix_append)
  have nq: "CHR ''?'' \<notin> set ?kp" using assms(1) by (auto simp: ref_plain_def)
  have qcut: "cut (CHR ''?'') (?kp @ ?q) = (if r_Opts r \<noteq> [] then Some (?kp, values_encode (r_Opts r)) else None)"
    using cut_append [OF nq] cut_notin [OF nq] by simp
  have pq: "parse_query (values_encode (r_Opts r)) = Some (r_Opts r)"
    using assms(1) by (intro parse_query_encode) (simp add: ref_plain_def)
  have body: "cut (CHR ''#'') ?kp = (if r_Key r \<noteq> [] then Some (r_Path r, r_Key r) else None)"
    using assms(1) by (intro cut_body) (simp add: ref_plain_def)
  have tr: "trim_space (String_Ref r) = String_Ref r" by (rule trim_space_trimmed [OF assms(3)])
  have ne: "String_Ref r \<noteq> []" "r_Scheme r \<noteq> []" using assms(1) str by (auto simp: ref_plain_def)
  show ?thesis
    unfolding ParseRef_def Let_def tr colon using ne
    by (simp only: option.case prod.case tp qcut if_False) (simp add: body pq)
qed

lemma ParseRef_String_witness:
  "ParseRef ''vault://kv/data/api#token?decode=base64''
     = Inr \<lparr>r_Scheme = ''vault'', r_Path = ''kv/data/api'', r_Key = ''token'',
            r_Opts = [(''decode'', [''base64''])], r_Raw = ''vault://kv/data/api#token?decode=base64''\<rparr>"
proof -
  let ?r = "\<lparr>r_Scheme = ''vault'', r_Path = ''kv/data/api'', r_Key = ''token'',
            r_Opts = [(''decode'', [''base64''])], r_Raw = []\<rparr>"
  have s: "String_Ref ?r = ''vault://kv/data/api#token?decode=base64''" by code_simp
  have 1: "ref_plain ?r" by code_simp
  have 2: "trimmed (String_Ref ?r)" by code_simp
  show ?thesis using ParseRef_String [OF 1 _ 2] by (simp add: s)
qed

text \<open>
  A parsed ref keeps its tag as \<open>Raw\<close>, so rendering a parsed ref gives the trimmed tag back.
\<close>

lemma ParseRef_Raw: "ParseRef tag = Inr r \<Longrightarrow> r_Raw r = trim_space tag \<and> r_Raw r \<noteq> []"
  by (auto simp: ParseRef_def Let_def split: if_splits option.splits)

lemma ParseRef_distinct_opts: "ParseRef tag = Inr r \<Longrightarrow> distinct (map fst (r_Opts r))"
  using parse_query_distinct by (auto simp: ParseRef_def Let_def split: if_splits option.splits)

subsection \<open>Expansion\<close>

text \<open>
  The template language of \<open>${VAR}\<close> expansion: literal characters and variable references, and
  the tag text that writes one.
\<close>

datatype template = Lit char | VarRef string

fun template_text :: "template list \<Rightarrow> string" where
  "template_text [] = []"
| "template_text (Lit c # ts) = (if c = CHR ''$'' then ''$$'' else [c]) @ template_text ts"
| "template_text (VarRef n # ts) = ''${'' @ n @ ''}'' @ template_text ts"

fun template_value :: "(string \<rightharpoonup> string) \<Rightarrow> template list \<Rightarrow> string option" where
  "template_value vars [] = Some []"
| "template_value vars (Lit c # ts) = map_option ((#) c) (template_value vars ts)"
| "template_value vars (VarRef n # ts) =
     (case (vars n, template_value vars ts) of (Some v, Some s) \<Rightarrow> Some (v @ s) | _ \<Rightarrow> None)"

definition template_ok :: "template list \<Rightarrow> bool" where
  "template_ok ts \<longleftrightarrow> (\<forall>n. VarRef n \<in> set ts \<longrightarrow> n \<noteq> [] \<and> CHR ''}'' \<notin> set n)"

lemma res_append_simps [simp]: "res_append s (Inr t) = Inr (s @ t)" "res_append s (Inl e) = Inl e"
  by (simp_all add: res_append_def)

lemma expand_scan_lit:
  "c \<noteq> CHR ''$'' \<Longrightarrow> expand_scan vars (c # s) = res_append [c] (expand_scan vars s)"
  "expand_scan vars (CHR ''$'' # CHR ''$'' # s) = res_append ''$'' (expand_scan vars s)"
  by (simp_all add: expand_scan.simps [of vars "c # s"] expand_scan.simps [of vars "CHR ''$'' # CHR ''$'' # s"])

lemma expand_scan_var:
  assumes "n \<noteq> []" and "CHR ''}'' \<notin> set n"
  shows "expand_scan vars (''${'' @ n @ ''}'' @ s) =
     (case vars n of None \<Rightarrow> Inl (Errorf ''mamori: source: undefined ref variable'' [Sentinel ErrInvalid])
      | Some v \<Rightarrow> res_append v (expand_scan vars s))"
  using cut_append [OF assms(2), of s] assms(1)
  by (simp add: expand_scan.simps [of vars "CHR ''$'' # CHR ''{'' # n @ CHR ''}'' # s"])

lemma expand_scan_template:
  "template_ok ts \<Longrightarrow>
     (case template_value vars ts of
        Some s \<Rightarrow> expand_scan vars (template_text ts) = Inr s
      | None \<Rightarrow> \<exists>e. expand_scan vars (template_text ts) = Inl e \<and> err_is e ErrInvalid)"
proof (induction vars ts rule: template_value.induct)
  case (1 vars)
  then show ?case by (simp add: expand_scan.simps)
next
  case (2 vars c ts)
  have "template_ok ts" using 2(2) by (auto simp: template_ok_def)
  from 2(1) [OF this] show ?case
    by (cases "template_value vars ts"; cases "c = CHR ''$''") (auto simp: expand_scan_lit)
next
  case (3 vars n ts)
  have ok: "template_ok ts" "n \<noteq> []" "CHR ''}'' \<notin> set n" using 3(2) by (auto simp: template_ok_def)
  from 3(1) [OF ok(1)] show ?case
    using expand_scan_var [OF ok(2,3), of vars "template_text ts"]
    by (cases "vars n"; cases "template_value vars ts") auto
qed

text \<open>
  Expansion computes exactly the template's value: literals are copied (a doubled dollar sign
  is one), each variable is replaced verbatim by its value and never rescanned, and a template
  that names an undefined variable is an \<open>ErrInvalid\<close> error, never a ref with a hole in it.
\<close>

lemma expandRefVars_template:
  assumes "template_ok ts"
  shows "case template_value vars ts of
           Some s \<Rightarrow> expandRefVars (template_text ts) vars = Inr s
         | None \<Rightarrow> \<exists>e. expandRefVars (template_text ts) vars = Inl e \<and> err_is e ErrInvalid"
proof (cases "CHR ''$'' \<in> set (template_text ts)")
  case True
  then have eq: "expandRefVars (template_text ts) vars = expand_scan vars (template_text ts)"
    by (simp add: expandRefVars_def)
  show ?thesis unfolding eq by (rule expand_scan_template [OF assms])
next
  case False
  then have "template_value vars ts = Some (template_text ts)"
    by (induction ts rule: template_text.induct) (auto split: if_splits)
  then show ?thesis using False by (simp add: expandRefVars_def)
qed

lemma expandRefVars_template_witness:
  "expandRefVars ''aws-sm://${ENV}/db$$'' [''ENV'' \<mapsto> ''prod''] = Inr ''aws-sm://prod/db$''"
proof -
  let ?ts = "map Lit ''aws-sm://'' @ [VarRef ''ENV''] @ map Lit ''/db$''"
  have 1: "template_ok ?ts" by (auto simp: template_ok_def)
  have 2: "template_text ?ts = ''aws-sm://${ENV}/db$$''" by simp
  have 3: "template_value [''ENV'' \<mapsto> ''prod''] ?ts = Some ''aws-sm://prod/db$''" by simp
  show ?thesis using expandRefVars_template [OF 1, of "[''ENV'' \<mapsto> ''prod'']"] by (simp add: 2 3)
qed

subsection \<open>Redaction reveals no sensitive option\<close>

text \<open>Two option lists that differ only in the values of sensitive options.\<close>

definition same_public_opts :: "(string \<times> string list) list \<Rightarrow> (string \<times> string list) list \<Rightarrow> bool" where
  "same_public_opts m m' \<longleftrightarrow> map fst m = map fst m' \<and>
     (\<forall>k vs vs'. map_of m k = Some vs \<longrightarrow> map_of m' k = Some vs' \<longrightarrow>
        (if opt_sensitive k then length vs = length vs' else vs = vs'))"

lemma redacted_pairs_cong:
  assumes "same_public_opts m m'"
  shows "redacted_pairs m = redacted_pairs m'"
proof -
  have keys: "map fst m = map fst m'" using assms by (simp add: same_public_opts_def)
  have eq: "map (\<lambda>v. query_escape k @ ''='' @ (if opt_sensitive k then Redacted_const else query_escape v))
          (case map_of m k of None \<Rightarrow> [] | Some vs \<Rightarrow> vs)
      = map (\<lambda>v. query_escape k @ ''='' @ (if opt_sensitive k then Redacted_const else query_escape v))
          (case map_of m' k of None \<Rightarrow> [] | Some vs \<Rightarrow> vs)"
    if k: "k \<in> set (map fst m)" for k
  proof -
    obtain vs where vs: "map_of m k = Some vs" using k by (metis map_of_eq_None_iff list.set_map not_Some_eq)
    obtain vs' where vs': "map_of m' k = Some vs'"
      using k keys by (metis map_of_eq_None_iff list.set_map not_Some_eq)
    show ?thesis
    proof (cases "opt_sensitive k")
      case True
      then have "length vs = length vs'" using assms vs vs' by (auto simp: same_public_opts_def)
      then show ?thesis using True vs vs' by (simp add: map_replicate_const)
    next
      case False
      then have "vs = vs'" using assms vs vs' unfolding same_public_opts_def by metis
      then show ?thesis using vs vs' by simp
    qed
  qed
  show ?thesis unfolding redacted_pairs_def keys [symmetric]
    by (rule arg_cong [where f = concat], rule map_cong [OF refl], rule eq) simp
qed

text \<open>
  Non-interference of redaction: the redacted text of a ref with options does not depend on
  the values of its sensitive options, nor on the raw tag that spells them out. Two refs that
  agree on everything else are rendered identically.
\<close>

lemma Redacted_noninterference:
  assumes "r_Scheme r = r_Scheme r'" and "r_Path r = r_Path r'" and "r_Key r = r_Key r'"
    and "same_public_opts (r_Opts r) (r_Opts r')" and "r_Opts r \<noteq> []"
  shows "Redacted r = Redacted r'"
proof -
  have "r_Opts r' \<noteq> []" using assms(4,5) by (auto simp: same_public_opts_def)
  then show ?thesis using assms redacted_pairs_cong [OF assms(4)]
    by (simp add: Redacted_def ref_suffix_def Let_def)
qed

lemma Redacted_noninterference_witness:
  "Redacted \<lparr>r_Scheme = ''redis'', r_Path = ''cfg'', r_Key = [], r_Opts = [(''Password'', [''hunter2''])], r_Raw = ''redis://cfg?Password=hunter2''\<rparr>
   = Redacted \<lparr>r_Scheme = ''redis'', r_Path = ''cfg'', r_Key = [], r_Opts = [(''Password'', [''x''])], r_Raw = ''redis://cfg?Password=x''\<rparr>"
proof (rule Redacted_noninterference)
  have s: "opt_sensitive ''Password''" by code_simp
  show "same_public_opts (r_Opts \<lparr>r_Scheme = ''redis'', r_Path = ''cfg'', r_Key = [], r_Opts = [(''Password'', [''hunter2''])], r_Raw = ''redis://cfg?Password=hunter2''\<rparr>)
     (r_Opts \<lparr>r_Scheme = ''redis'', r_Path = ''cfg'', r_Key = [], r_Opts = [(''Password'', [''x''])], r_Raw = ''redis://cfg?Password=x''\<rparr>)"
    using s by (simp add: same_public_opts_def)
qed simp_all

end
