(* ===== verification/Values.thy ===== *)
theory Values
  imports Refs "HOL-Library.Word"
begin

text \<open>
  \<^verbatim>\<open>value.go\<close>, \<^verbatim>\<open>provider.go\<close>, \<^verbatim>\<open>registry.go\<close> and the version hash of \<^verbatim>\<open>helpers.go\<close>.

  A provider is represented by the answers it gives at the moment it is asked: its scheme, its
  \<^verbatim>\<open>Resolve\<close> and, when it implements \<^verbatim>\<open>BatchProvider\<close>, its \<^verbatim>\<open>ResolveBatch\<close>. Providers are
  outside the core: every definition that consults one takes it as an argument.
\<close>

unbundle bit_operations_syntax

record Value =
  v_Bytes :: bytes
  v_Version :: string
  v_Sensitive :: bool
  v_NotAfter :: instant
  v_Metadata :: "(string \<times> string) list"

definition zero_Value :: Value where
  "zero_Value = \<lparr>v_Bytes = [], v_Version = [], v_Sensitive = False, v_NotAfter = 0, v_Metadata = []\<rparr>"

definition changed :: "Value \<Rightarrow> Value \<Rightarrow> bool" where
  "changed v w = (if v_Version v \<noteq> [] \<or> v_Version w \<noteq> [] then v_Version v \<noteq> v_Version w
     else v_Bytes v \<noteq> v_Bytes w)"

record Update =
  u_Value :: Value
  u_Err :: "err option"

record provider =
  p_Scheme :: string
  p_Resolve :: "Ref \<Rightarrow> err + Value"
  p_ResolveBatch :: "(Ref list \<Rightarrow> err + (string \<rightharpoonup> Value)) option"

subsection \<open>The registry\<close>

type_synonym registry = "string \<rightharpoonup> provider"

text \<open>\<^verbatim>\<open>Register\<close> panics (\<open>Inl\<close>) on a nil provider, an empty scheme and a duplicate.\<close>

definition Register :: "registry \<Rightarrow> provider option \<Rightarrow> string + registry" where
  "Register reg po = (case po of
     None \<Rightarrow> Inl ''mamori: Register(nil)''
   | Some p \<Rightarrow>
      if p_Scheme p = [] then Inl ''mamori: Register provider with empty scheme''
      else if reg (p_Scheme p) \<noteq> None then Inl ''mamori: Register called twice for scheme''
      else Inr (reg(p_Scheme p \<mapsto> p)))"

definition providerFor :: "registry \<Rightarrow> string \<Rightarrow> provider option" where
  "providerFor reg scheme = reg scheme"

definition RegisteredSchemes :: "string list \<Rightarrow> string list" where
  "RegisteredSchemes keys = sort keys"

definition unregister :: "registry \<Rightarrow> string \<Rightarrow> registry" where
  "unregister reg scheme = reg(scheme := None)"

subsection \<open>Version hashes\<close>

text \<open>FNV-1a over 64 bits, rendered in hexadecimal.\<close>

definition fnv64a :: "bytes \<Rightarrow> 64 word" where
  "fnv64a b = foldl (\<lambda>h c. (h XOR word_of_nat (code c)) * 1099511628211) 14695981039346656037 b"

definition VersionHash :: "bytes \<Rightarrow> string" where
  "VersionHash b = hex_of_nat (unat (fnv64a b))"

lemma hex_of_nat_not_Nil [simp]: "hex_of_nat n \<noteq> []"
  by (subst hex_of_nat.simps) (simp add: Let_def)

lemma VersionHash_not_Nil [simp]: "VersionHash b \<noteq> []"
  by (simp add: VersionHash_def)

subsection \<open>Change detection\<close>

lemma changed_irrefl [simp]: "\<not> changed v v"
  by (simp add: changed_def)

lemma changed_sym: "changed v w = changed w v"
  by (auto simp: changed_def)

lemma unchanged_trans: "\<not> changed u v \<Longrightarrow> \<not> changed v w \<Longrightarrow> \<not> changed u w"
  by (auto simp: changed_def split: if_splits)

lemma unchanged_equivp: "equivp (\<lambda>v w. \<not> changed v w)"
  by (auto simp: equivp_reflp_symp_transp reflp_def symp_def transp_def changed_sym changed_def
      split: if_splits)

text \<open>A registration succeeds exactly for a new, named scheme, and then only that scheme changes.\<close>

lemma Register_iff:
  "Register reg (Some p) = Inr reg' \<longleftrightarrow>
     p_Scheme p \<noteq> [] \<and> reg (p_Scheme p) = None \<and> reg' = reg(p_Scheme p \<mapsto> p)"
  by (auto simp: Register_def)

end
