(* ===== verification/Polling.thy ===== *)
theory Polling
  imports Values
begin

text \<open>
  \<^verbatim>\<open>backoff.go\<close> and \<^verbatim>\<open>poll.go\<close>: the per-ref retry backoff and the canonical polling adapter.

  The polling goroutine is a state machine: its state is the last value it emitted and the
  backoff streak; a step is one \<^verbatim>\<open>Resolve\<close> answer, and between steps it sleeps for a delay that
  the state determines. \<^verbatim>\<open>time.Duration\<close> arithmetic that could overflow is done modulo
  \<open>2 ^ 64\<close>, so that the absence of overflow is a theorem.
\<close>

definition wrap64 :: "int \<Rightarrow> int" where
  "wrap64 x = (x + 2 ^ 63) mod 2 ^ 64 - 2 ^ 63"

lemma wrap64_id: "- (2 ^ 63) \<le> x \<Longrightarrow> x < 2 ^ 63 \<Longrightarrow> wrap64 x = x"
  by (simp add: wrap64_def)

subsection \<open>Backoff\<close>

record backoffState =
  bo_base :: duration
  bo_ceiling :: duration
  bo_failures :: int

definition newBackoff :: "duration \<Rightarrow> duration \<Rightarrow> backoffState" where
  "newBackoff backoffBase backoffMax =
     (if backoffBase \<le> 0 then \<lparr>bo_base = 0, bo_ceiling = 0, bo_failures = 0\<rparr>
      else \<lparr>bo_base = backoffBase,
            bo_ceiling = (if backoffMax < backoffBase then backoffBase else backoffMax),
            bo_failures = 0\<rparr>)"

definition bo_fail :: "backoffState \<Rightarrow> backoffState" where
  "bo_fail b = b\<lparr>bo_failures := wrap64 (bo_failures b + 1)\<rparr>"

definition bo_reset :: "backoffState \<Rightarrow> backoffState" where
  "bo_reset b = b\<lparr>bo_failures := 0\<rparr>"

text \<open>The doubling loop of \<^verbatim>\<open>delay\<close>; the first argument is the number of iterations left.\<close>

fun delay_loop :: "nat \<Rightarrow> duration \<Rightarrow> duration \<Rightarrow> duration" where
  "delay_loop 0 d ceiling = (if d > ceiling then ceiling else d)"
| "delay_loop (Suc n) d ceiling =
     (if d > ceiling div 2 then ceiling else delay_loop n (wrap64 (d * 2)) ceiling)"

definition bo_delay :: "backoffState \<Rightarrow> duration" where
  "bo_delay b = (if bo_base b \<le> 0 \<or> bo_failures b \<le> 0 then 0
     else delay_loop (nat (bo_failures b - 1)) (bo_base b) (bo_ceiling b))"

definition bo_wf :: "backoffState \<Rightarrow> bool" where
  "bo_wf b \<longleftrightarrow> (bo_base b = 0 \<or> 0 < bo_base b \<and> bo_base b \<le> bo_ceiling b) \<and> bo_ceiling b < 2 ^ 63"

lemma newBackoff_wf: "backoffBase < 2 ^ 63 \<Longrightarrow> backoffMax < 2 ^ 63 \<Longrightarrow> bo_wf (newBackoff backoffBase backoffMax)"
  by (auto simp: newBackoff_def bo_wf_def)

lemma bo_fail_wf: "bo_wf b \<Longrightarrow> bo_wf (bo_fail b)"
  and bo_reset_wf: "bo_wf b \<Longrightarrow> bo_wf (bo_reset b)"
  by (simp_all add: bo_wf_def bo_fail_def bo_reset_def)

lemma delay_loop_closed:
  "0 < d \<Longrightarrow> d \<le> c \<Longrightarrow> c < 2 ^ 63 \<Longrightarrow> delay_loop n d c = min (d * 2 ^ n) c"
proof (induction n arbitrary: d)
  case (Suc n)
  show ?case
  proof (cases "d > c div 2")
    case True
    then have "c \<le> d * 2" by presburger
    also have "d * 2 \<le> d * 2 ^ Suc n" using Suc.prems(1) by simp
    finally show ?thesis using True by simp
  next
    case False
    then have le: "d * 2 \<le> c" by presburger
    then have "wrap64 (d * 2) = d * 2" using Suc.prems by (intro wrap64_id) auto
    then show ?thesis using Suc.IH [of "d * 2"] Suc.prems le False by (simp add: mult.assoc)
  qed
qed simp

lemma bo_delay_closed:
  assumes "bo_wf b"
  shows "bo_delay b = (if bo_base b = 0 \<or> bo_failures b \<le> 0 then 0
           else min (bo_base b * 2 ^ nat (bo_failures b - 1)) (bo_ceiling b))"
  using assms delay_loop_closed [of "bo_base b" "bo_ceiling b" "nat (bo_failures b - 1)"]
  by (auto simp: bo_delay_def bo_wf_def)

text \<open>
  The retry delay is the base doubled once per consecutive failure after the first, held at
  the ceiling: the early return of the loop never changes the result, and no doubling overflows
  int64, for any streak length.
\<close>

lemma bo_delay_closed_form:
  assumes "bo_wf b"
  shows "bo_delay b = (if bo_base b = 0 \<or> bo_failures b \<le> 0 then 0
           else min (bo_base b * 2 ^ nat (bo_failures b - 1)) (bo_ceiling b))"
  by (rule bo_delay_closed [OF assms])

lemma bo_delay_closed_form_witness:
  "bo_delay \<lparr>bo_base = 1000, bo_ceiling = 60000, bo_failures = 4\<rparr> = 8000"
proof -
  have w: "bo_wf \<lparr>bo_base = 1000, bo_ceiling = 60000, bo_failures = 4\<rparr>" by (simp add: bo_wf_def)
  show ?thesis using bo_delay_closed_form [OF w] by simp
qed

subsection \<open>Jitter\<close>

text \<open>
  \<^verbatim>\<open>jittered\<close> adds a random offset of at most the fraction \<^verbatim>\<open>frac\<close> of the duration. The draw
  (a float64 product, converted to nanoseconds) is the argument \<open>off\<close>; \<open>frac_pos\<close> says whether the
  configured fraction is positive.
\<close>

definition jittered :: "duration \<Rightarrow> bool \<Rightarrow> duration \<Rightarrow> duration" where
  "jittered d frac_pos off = (if \<not> frac_pos \<or> d \<le> 0 then d
     else (let out = d + off in if out \<le> 0 then d else out))"

lemma jittered_pos: "0 < d \<Longrightarrow> 0 < jittered d fp off"
  by (simp add: jittered_def Let_def)


subsection \<open>The polling loop\<close>

record poll_state =
  ps_last :: "Value option"
  ps_bo :: backoffState

definition poll_init :: "duration \<Rightarrow> duration \<Rightarrow> poll_state" where
  "poll_init backoffBase backoffMax = \<lparr>ps_last = None, ps_bo = newBackoff backoffBase backoffMax\<rparr>"

definition emit_value :: "Value \<Rightarrow> Update" where "emit_value v = \<lparr>u_Value = v, u_Err = None\<rparr>"
definition emit_error :: "err \<Rightarrow> Update" where "emit_error e = \<lparr>u_Value = zero_Value, u_Err = Some e\<rparr>"

text \<open>The baseline resolve issued before the loop.\<close>

definition poll_baseline :: "err + Value \<Rightarrow> poll_state \<Rightarrow> Update option \<times> poll_state" where
  "poll_baseline ans st = (case ans of
     Inl e \<Rightarrow> if \<not> err_is e ErrNotFound then (Some (emit_error e), st\<lparr>ps_bo := bo_fail (ps_bo st)\<rparr>)
              else (None, st)
   | Inr v \<Rightarrow> (Some (emit_value v), st\<lparr>ps_last := Some v\<rparr>))"

text \<open>How long the loop sleeps before its next resolve.\<close>

definition poll_wait :: "duration \<Rightarrow> bool \<Rightarrow> duration \<Rightarrow> instant \<Rightarrow> poll_state \<Rightarrow> duration" where
  "poll_wait interval frac_pos off now st = (let retry = bo_delay (ps_bo st) in
     if retry > 0 then jittered retry frac_pos off
     else (let d = jittered interval frac_pos off in
       case ps_last st of None \<Rightarrow> d
       | Some v \<Rightarrow>
          if time_is_zero (v_NotAfter v) then d
          else (let untilExpiry = time_sub (v_NotAfter v) now in
            if untilExpiry > 0 then
              (let lr = untilExpiry - untilExpiry div 10; lr' = (if lr \<le> 0 then untilExpiry else lr)
               in if lr' < d then lr' else d)
            else d)))"

text \<open>One pass of the loop after the timer fired.\<close>

definition poll_tick :: "err + Value \<Rightarrow> poll_state \<Rightarrow> Update option \<times> poll_state" where
  "poll_tick ans st = (case ans of
     Inl e \<Rightarrow> if err_is e ErrNotFound then (None, st\<lparr>ps_bo := bo_reset (ps_bo st)\<rparr>)
              else (Some (emit_error e), st\<lparr>ps_bo := bo_fail (ps_bo st)\<rparr>)
   | Inr v \<Rightarrow> (let st' = st\<lparr>ps_bo := bo_reset (ps_bo st)\<rparr> in
       if (case ps_last st of None \<Rightarrow> False | Some l \<Rightarrow> \<not> changed l v) then (None, st')
       else (Some (emit_value v), st'\<lparr>ps_last := Some v\<rparr>)))"

definition opt_list :: "'a option \<Rightarrow> 'a list" where
  "opt_list x = (case x of None \<Rightarrow> [] | Some a \<Rightarrow> [a])"

fun poll_ticks :: "(err + Value) list \<Rightarrow> poll_state \<Rightarrow> Update list \<times> poll_state" where
  "poll_ticks [] st = ([], st)"
| "poll_ticks (a # as) st = (let (u, st') = poll_tick a st; (us, st'') = poll_ticks as st'
     in (opt_list u @ us, st''))"

definition pollWatch :: "duration \<Rightarrow> duration \<Rightarrow> (err + Value) list \<Rightarrow> Update list \<times> poll_state" where
  "pollWatch backoffBase backoffMax answers = (case answers of [] \<Rightarrow> ([], poll_init backoffBase backoffMax)
     | a # as \<Rightarrow> (let (u, st) = poll_baseline a (poll_init backoffBase backoffMax); (us, st') = poll_ticks as st
         in (opt_list u @ us, st')))"

subsection \<open>What the adapter delivers\<close>

definition update_values :: "Update list \<Rightarrow> Value list" where
  "update_values us = map u_Value (filter (\<lambda>u. u_Err u = None) us)"

definition update_errors :: "Update list \<Rightarrow> err list" where
  "update_errors us = map (\<lambda>u. the (u_Err u)) (filter (\<lambda>u. u_Err u \<noteq> None) us)"

definition answer_values :: "(err + Value) list \<Rightarrow> Value list" where
  "answer_values as = concat (map (\<lambda>a. case a of Inl e \<Rightarrow> [] | Inr v \<Rightarrow> [v]) as)"

definition answer_failures :: "(err + Value) list \<Rightarrow> err list" where
  "answer_failures as = concat (map (\<lambda>a. case a of Inl e \<Rightarrow> (if err_is e ErrNotFound then [] else [e]) | Inr v \<Rightarrow> []) as)"

text \<open>
  The reference behaviour: of a sequence of observed values keep each one that differs from the
  last one kept.
\<close>

fun dedup_from :: "Value option \<Rightarrow> Value list \<Rightarrow> Value list" where
  "dedup_from l [] = []"
| "dedup_from l (v # vs) = (if (case l of None \<Rightarrow> False | Some w \<Rightarrow> \<not> changed w v) then dedup_from l vs
     else v # dedup_from (Some v) vs)"

lemmas poll_defs = poll_tick_def poll_baseline_def emit_value_def emit_error_def opt_list_def
  update_values_def update_errors_def answer_values_def answer_failures_def

lemma poll_tick_values:
  "poll_tick a st = (u, st') \<Longrightarrow>
     update_values (opt_list u) @ dedup_from (ps_last st') vs = dedup_from (ps_last st) (answer_values [a] @ vs)"
  by (auto simp: poll_defs Let_def split: sum.splits if_splits option.splits)

lemma poll_tick_errors:
  "poll_tick a st = (u, st') \<Longrightarrow> update_errors (opt_list u) = answer_failures [a]"
  by (auto simp: poll_defs Let_def split: sum.splits if_splits option.splits)

lemma update_values_append [simp]: "update_values (us @ us') = update_values us @ update_values us'"
  and update_errors_append [simp]: "update_errors (us @ us') = update_errors us @ update_errors us'"
  by (simp_all add: update_values_def update_errors_def)

lemma poll_ticks_spec:
  "update_values (fst (poll_ticks as st)) = dedup_from (ps_last st) (answer_values as) \<and>
   update_errors (fst (poll_ticks as st)) = answer_failures as"
proof (induction as arbitrary: st)
  case Nil
  then show ?case by (simp add: poll_defs)
next
  case (Cons a as)
  obtain u st' where t: "poll_tick a st = (u, st')" by fastforce
  obtain us st'' where ts: "poll_ticks as st' = (us, st'')" by fastforce
  have "answer_values (a # as) = answer_values [a] @ answer_values as"
    and "answer_failures (a # as) = answer_failures [a] @ answer_failures as"
    by (simp_all add: answer_values_def answer_failures_def)
  then show ?case
    using Cons.IH [of st'] poll_tick_values [OF t, of "answer_values as"] poll_tick_errors [OF t] t ts
    by simp
qed

text \<open>
  The polling adapter is the deduplication of what the provider answered: for any sequence of
  answers (the baseline included) the values delivered are the observed values with every one that
  does not differ from the last delivered one removed, the errors delivered are exactly the
  failures other than not-found, and a not-found delivers nothing.
\<close>

lemma pollWatch_dedup:
  "update_values (fst (pollWatch b m answers)) = dedup_from None (answer_values answers) \<and>
   update_errors (fst (pollWatch b m answers)) = answer_failures answers"
proof (cases answers)
  case Nil
  then show ?thesis by (simp add: pollWatch_def poll_defs)
next
  case (Cons a as)
  obtain u st where t: "poll_baseline a (poll_init b m) = (u, st)" by fastforce
  obtain us st' where ts: "poll_ticks as st = (us, st')" by fastforce
  have r: "fst (pollWatch b m answers) = opt_list u @ us"
    using Cons t ts by (simp add: pollWatch_def)
  have base: "update_values (opt_list u) @ dedup_from (ps_last st) (answer_values as)
        = dedup_from None (answer_values answers)
      \<and> update_errors (opt_list u) @ answer_failures as = answer_failures answers"
    using t Cons by (auto simp: poll_defs poll_init_def split: sum.splits if_splits)
  show ?thesis using base poll_ticks_spec [of as st] ts by (simp add: r)
qed

text \<open>The streak the backoff counts is the run of failures since the last answer.\<close>

fun fail_streak :: "(err + Value) list \<Rightarrow> int \<Rightarrow> int" where
  "fail_streak [] n = n"
| "fail_streak (a # as) n = fail_streak as
     (case a of Inr v \<Rightarrow> 0 | Inl e \<Rightarrow> if err_is e ErrNotFound then 0 else n + 1)"

lemma poll_tick_bo:
  "poll_tick a st = (u, st') \<Longrightarrow> ps_bo st' = (case a of Inr v \<Rightarrow> bo_reset (ps_bo st)
     | Inl e \<Rightarrow> if err_is e ErrNotFound then bo_reset (ps_bo st) else bo_fail (ps_bo st))"
  by (auto simp: poll_tick_def Let_def split: sum.splits if_splits option.splits)

lemma poll_ticks_streak:
  "0 \<le> bo_failures (ps_bo st) \<Longrightarrow> bo_failures (ps_bo st) + int (length as) < 2 ^ 63 \<Longrightarrow>
     bo_failures (ps_bo (snd (poll_ticks as st))) = fail_streak as (bo_failures (ps_bo st))
   \<and> bo_base (ps_bo (snd (poll_ticks as st))) = bo_base (ps_bo st)
   \<and> bo_ceiling (ps_bo (snd (poll_ticks as st))) = bo_ceiling (ps_bo st)"
proof (induction as arbitrary: st)
  case (Cons a as)
  obtain u st' where t: "poll_tick a st = (u, st')" by fastforce
  have "wrap64 (bo_failures (ps_bo st) + 1) = bo_failures (ps_bo st) + 1"
    using Cons.prems by (intro wrap64_id) auto
  then show ?case using Cons.IH [of st'] Cons.prems t poll_tick_bo [OF t]
    by (auto simp: split_def Let_def bo_fail_def bo_reset_def split: sum.splits if_splits)
qed simp

text \<open>
  While a failure streak is open the wait before the next attempt is the (jittered) backoff
  delay and the lease shortcut is ignored; with no open streak the wait is at most the (jittered)
  poll interval, is positive, and ends strictly before a known expiry that lies in the future.
\<close>

lemma poll_wait_policy:
  assumes "bo_wf (ps_bo st)" and "0 < interval"
  shows "(bo_base (ps_bo st) > 0 \<and> bo_failures (ps_bo st) > 0 \<longrightarrow>
            poll_wait interval fp off now st = jittered (bo_delay (ps_bo st)) fp off \<and>
            bo_delay (ps_bo st) \<ge> bo_base (ps_bo st))
       \<and> (bo_failures (ps_bo st) \<le> 0 \<longrightarrow>
            0 < poll_wait interval fp off now st \<and>
            poll_wait interval fp off now st \<le> jittered interval fp off \<and>
            (\<forall>v. ps_last st = Some v \<and> 0 < v_NotAfter v \<and> 10 \<le> v_NotAfter v - now \<longrightarrow>
               now + poll_wait interval fp off now st < v_NotAfter v))"
proof (intro conjI impI)
  assume open_streak: "bo_base (ps_bo st) > 0 \<and> bo_failures (ps_bo st) > 0"
  have "bo_base (ps_bo st) * 1 \<le> bo_base (ps_bo st) * 2 ^ nat (bo_failures (ps_bo st) - 1)"
    using open_streak by (intro mult_left_mono) auto
  then show ge: "bo_delay (ps_bo st) \<ge> bo_base (ps_bo st)"
    using bo_delay_closed [OF assms(1)] open_streak assms(1) by (auto simp: bo_wf_def)
  show "poll_wait interval fp off now st = jittered (bo_delay (ps_bo st)) fp off"
    using ge open_streak by (simp add: poll_wait_def Let_def)
next
  assume idle: "bo_failures (ps_bo st) \<le> 0"
  then have r: "bo_delay (ps_bo st) = 0" by (simp add: bo_delay_def)
  have j: "0 < jittered interval fp off" by (rule jittered_pos [OF assms(2)])
  show "0 < poll_wait interval fp off now st" and "poll_wait interval fp off now st \<le> jittered interval fp off"
    using r j by (auto simp: poll_wait_def Let_def split: option.splits)
  show "\<forall>v. ps_last st = Some v \<and> 0 < v_NotAfter v \<and> 10 \<le> v_NotAfter v - now \<longrightarrow>
          now + poll_wait interval fp off now st < v_NotAfter v"
    using r by (auto simp: poll_wait_def Let_def time_is_zero_def time_sub_def max_duration_def min_duration_def)
qed

lemma poll_wait_policy_witness:
  "poll_wait (30 * second) False 0 100 \<lparr>ps_last = Some (zero_Value\<lparr>v_NotAfter := 1100\<rparr>), ps_bo = newBackoff 0 0\<rparr> \<le> 30 * second"
proof -
  let ?st = "\<lparr>ps_last = Some (zero_Value\<lparr>v_NotAfter := 1100\<rparr>), ps_bo = newBackoff 0 0\<rparr>"
  have w: "bo_wf (ps_bo ?st)" by (simp add: newBackoff_wf)
  have i: "0 < 30 * second" by simp
  have f: "bo_failures (ps_bo ?st) \<le> 0" by (simp add: newBackoff_def)
  show ?thesis using poll_wait_policy [OF w i, of False 0 100] f by (simp add: jittered_def)
qed

end
