(* ===== verification/Chains.thy ===== *)
theory Chains
  imports Values
begin

text \<open>
  Precedence chains. A chain is a list of positions, each of which has an outcome: a value or an
  error, of which not-found is the only one that falls through. The locale \<open>precedence\<close> states
  what a walk of such a chain promises; the live resolve of \<^verbatim>\<open>resolve.go\<close>, the single-ref
  resolve of \<^verbatim>\<open>resolveref.go\<close> and the reconciler's walk over observed states each interpret it.
\<close>

definition absent :: "err + Value \<Rightarrow> bool" where
  "absent r = (case r of Inl e \<Rightarrow> err_is e ErrNotFound | Inr v \<Rightarrow> False)"

lemma absent_simps [simp]: "absent (Inl e) \<longleftrightarrow> err_is e ErrNotFound" "\<not> absent (Inr v)"
  by (simp_all add: absent_def)

locale precedence =
  fixes outcome :: "'p \<Rightarrow> err + Value"
    and walk :: "nat \<Rightarrow> 'p list \<Rightarrow> (nat \<times> (err + Value)) option"
  assumes walk_Nil [chain_simps]: "walk i [] = None"
    and walk_stop [chain_simps]: "\<not> absent (outcome p) \<Longrightarrow> walk i (p # ps) = Some (i, outcome p)"
    and walk_absent [chain_simps]: "absent (outcome p) \<Longrightarrow> walk i (p # ps) = walk (Suc i) ps"
begin

lemma walk_shift: "walk (i + k) ps = map_option (map_prod ((+) k) id) (walk i ps)"
proof (induction ps arbitrary: i)
  case (Cons p ps)
  then show ?case by (cases "absent (outcome p)") (simp_all add: chain_simps flip: add_Suc)
qed (simp add: chain_simps)

text \<open>The winner is the first position that is not absent.\<close>

lemma walk_Some_iff:
  "walk i ps = Some (j, r) \<longleftrightarrow> i \<le> j \<and> j - i < length ps \<and> r = outcome (ps ! (j - i))
     \<and> \<not> absent r \<and> (\<forall>k<j - i. absent (outcome (ps ! k)))"
proof (induction ps arbitrary: i)
  case (Cons p ps)
  show ?case
  proof (cases "absent (outcome p)")
    case True
    have "walk i (p # ps) = Some (j, r) \<longleftrightarrow> Suc i \<le> j \<and> j - Suc i < length ps \<and> r = outcome (ps ! (j - Suc i))
        \<and> \<not> absent r \<and> (\<forall>k<j - Suc i. absent (outcome (ps ! k)))"
      using True Cons.IH by (simp add: chain_simps)
    also have "\<dots> \<longleftrightarrow> i \<le> j \<and> j - i < length (p # ps) \<and> r = outcome ((p # ps) ! (j - i))
        \<and> \<not> absent r \<and> (\<forall>k<j - i. absent (outcome ((p # ps) ! k)))"
    proof (cases "j - i")
      case 0
      then show ?thesis using True by auto
    next
      case (Suc n)
      then have "j - Suc i = n" "Suc i \<le> j" "i \<le> j" by simp_all
      then show ?thesis using Suc True by (auto simp: less_Suc_eq_0_disj)
    qed
    finally show ?thesis .
  next
    case False
    then show ?thesis
    proof (cases "j - i")
      case 0
      then show ?thesis using False by (auto simp: chain_simps)
    next
      case (Suc n)
      then have "\<not> (\<forall>k<j - i. absent (outcome ((p # ps) ! k)))" using False by auto
      moreover have "i \<noteq> j" using Suc by auto
      ultimately show ?thesis using False by (simp add: chain_simps)
    qed
  qed
qed (simp add: chain_simps)

lemma walk_None_iff: "walk i ps = None \<longleftrightarrow> (\<forall>p\<in>set ps. absent (outcome p))"
proof (induction ps arbitrary: i)
  case (Cons p ps)
  then show ?case by (cases "absent (outcome p)") (simp_all add: chain_simps)
qed (simp add: chain_simps)

text \<open>Positions below the one that stops the walk are never consulted.\<close>

lemma walk_append: "walk i (ps @ qs) = (case walk i ps of None \<Rightarrow> walk (i + length ps) qs | Some x \<Rightarrow> Some x)"
proof (induction ps arbitrary: i)
  case (Cons p ps)
  then show ?case by (cases "absent (outcome p)") (simp_all add: chain_simps split: option.splits)
qed (simp add: chain_simps)

lemma walk_outcome_not_absent: "walk i ps = Some (j, r) \<Longrightarrow> \<not> absent r"
  unfolding walk_Some_iff by blast

end

text \<open>Two walks over chains whose positions agree, up to a wrapping of their errors, agree.\<close>

definition err_equiv :: "err + Value \<Rightarrow> err + Value \<Rightarrow> bool" where
  "err_equiv r s = (case (r, s) of (Inr v, Inr w) \<Rightarrow> v = w
     | (Inl e, Inl f) \<Rightarrow> ErrorKind (Some e) = ErrorKind (Some f) | _ \<Rightarrow> False)"

lemma err_equiv_absent: "err_equiv r s \<Longrightarrow> absent r = absent s"
  by (auto simp: err_equiv_def absent_def simp flip: ErrorKind_not_found_iff split: sum.splits)

end
