(* ===== verification/Decoding.thy ===== *)
theory Decoding
  imports Values
begin

text \<open>
  \<^verbatim>\<open>decodeopt.go\<close>, \<^verbatim>\<open>jsonpointer.go\<close> and \<^verbatim>\<open>SelectKey\<close> of \<^verbatim>\<open>helpers.go\<close>: the \<open>?decode=\<close> pipeline
  and fragment selection.

  Base64 and hexadecimal decoding are written out. What \<^verbatim>\<open>compress/gzip\<close> makes of a stream and
  how \<^verbatim>\<open>encoding/json\<close> splits a container into raw members are parameters (\<open>inflate\<close> and the
  record \<open>json_codec\<close>).
\<close>

subsection \<open>Codings\<close>

text \<open>
  \<open>inflate b\<close> is \<open>None\<close> for a bad gzip header, else the bytes the stream yields and whether it
  then ends cleanly.
\<close>

type_synonym inflater = "bytes \<Rightarrow> (bytes \<times> bool) option"

definition b64_std :: "nat \<Rightarrow> char" where
  "b64_std n = char_of (if n < 26 then 65 + n else if n < 52 then 71 + n
     else if n < 62 then n - 4 else if n = 62 then 43 else 47)"

definition b64_url :: "nat \<Rightarrow> char" where
  "b64_url n = (if n = 62 then CHR ''-'' else if n = 63 then CHR ''_'' else b64_std n)"

definition b64_std_val :: "char \<Rightarrow> nat option" where
  "b64_std_val c = (if 65 \<le> code c \<and> code c \<le> 90 then Some (code c - 65)
     else if 97 \<le> code c \<and> code c \<le> 122 then Some (code c - 71)
     else if is_digit c then Some (code c + 4)
     else if c = CHR ''+'' then Some 62 else if c = CHR ''/'' then Some 63 else None)"

definition b64_url_val :: "char \<Rightarrow> nat option" where
  "b64_url_val c = (if c = CHR ''-'' then Some 62 else if c = CHR ''_'' then Some 63
     else if c = CHR ''+'' \<or> c = CHR ''/'' then None else b64_std_val c)"

definition byte :: "nat \<Rightarrow> char" where "byte n = char_of (n mod 256)"

text \<open>Decoding of padded base64 in quanta of four characters; the last quantum may be padded.\<close>

fun b64_quanta :: "(char \<Rightarrow> nat option) \<Rightarrow> string \<Rightarrow> bytes option" where
  "b64_quanta val [] = Some []"
| "b64_quanta val (a # b # c # d # rest) =
     (if d = CHR ''='' then
        (if rest \<noteq> [] then None
         else (case (val a, val b) of
            (Some x, Some y) \<Rightarrow>
              (if c = CHR ''='' then Some [byte (x * 4 + y div 16)]
               else (case val c of None \<Rightarrow> None
                     | Some z \<Rightarrow> Some [byte (x * 4 + y div 16), byte (y * 16 + z div 4)]))
          | _ \<Rightarrow> None))
      else (case (val a, val b, val c, val d) of
          (Some x, Some y, Some z, Some w) \<Rightarrow>
             map_option ((@) [byte (x * 4 + y div 16), byte (y * 16 + z div 4), byte (z * 64 + w)]) (b64_quanta val rest)
        | _ \<Rightarrow> None))"
| "b64_quanta val _ = None"

text \<open>The decoder skips line breaks anywhere in its input.\<close>

definition b64_decode :: "(char \<Rightarrow> nat option) \<Rightarrow> string \<Rightarrow> bytes option" where
  "b64_decode val s = b64_quanta val (filter (\<lambda>c. c \<noteq> CHR 0x0A \<and> c \<noteq> CHR 0x0D) s)"

fun hex_decode :: "string \<Rightarrow> bytes option" where
  "hex_decode [] = Some []"
| "hex_decode (a # b # s) = (case (unhex a, unhex b) of
      (Some x, Some y) \<Rightarrow> map_option ((#) (byte (16 * x + y))) (hex_decode s) | _ \<Rightarrow> None)"
| "hex_decode _ = None"

definition maxGzipDecoded :: nat where "maxGzipDecoded = 16 * 2 ^ 20"

definition gunzip :: "inflater \<Rightarrow> bytes \<Rightarrow> err + bytes" where
  "gunzip inflate b = (case inflate b of
     None \<Rightarrow> Inl (Opaque ''gzip: invalid header'')
   | Some (out, clean) \<Rightarrow>
      if length out > maxGzipDecoded
      then Inl (Errorf ''payload expands past the gzip decompression limit'' [Sentinel ErrInvalid])
      else if \<not> clean then Inl (Opaque ''gzip: corrupt stream'')
      else Inr out)"

definition of_opt :: "string \<Rightarrow> 'a option \<Rightarrow> err + 'a" where
  "of_opt m x = (case x of None \<Rightarrow> Inl (Opaque m) | Some a \<Rightarrow> Inr a)"

definition decodeCodings :: "inflater \<Rightarrow> string \<Rightarrow> (bytes \<Rightarrow> err + bytes) option" where
  "decodeCodings inflate name =
     (if name = ''base64'' then Some (\<lambda>b. of_opt ''base64'' (b64_decode b64_std_val (trim_space b)))
      else if name = ''base64url'' then Some (\<lambda>b. of_opt ''base64'' (b64_decode b64_url_val (trim_space b)))
      else if name = ''hex'' then Some (\<lambda>b. of_opt ''hex'' (hex_decode (trim_space b)))
      else if name = ''gzip'' then Some (gunzip inflate)
      else if name = ''trim'' then Some (\<lambda>b. Inr (trim_space b))
      else None)"

subsection \<open>The pipeline\<close>

record decodeStep =
  ds_name :: string
  ds_fn :: "bytes \<Rightarrow> err + bytes"

definition parse_step :: "inflater \<Rightarrow> string \<Rightarrow> err + decodeStep" where
  "parse_step inflate p = (let name = trim_space p in case decodeCodings inflate name of
      None \<Rightarrow> Inl (Errorf ''mamori: unknown decode coding'' [Sentinel ErrInvalid])
    | Some fn \<Rightarrow> Inr \<lparr>ds_name = name, ds_fn = fn\<rparr>)"

definition parseDecodePipeline :: "inflater \<Rightarrow> string \<Rightarrow> err + decodeStep list" where
  "parseDecodePipeline inflate spec =
     (if spec = [] then Inr [] else map_res (parse_step inflate) (split_on (CHR '','') spec))"

definition run_step :: "decodeStep \<Rightarrow> bytes \<Rightarrow> err + bytes" where
  "run_step s b = (case ds_fn s b of Inr b' \<Rightarrow> Inr b'
     | Inl e \<Rightarrow> if err_is e ErrInvalid then Inl (Errorf ''mamori: ref: decode failed'' [e])
                else Inl (Errorf ''mamori: ref: decode failed'' [Sentinel ErrInvalid, e]))"

definition applyDecode :: "inflater \<Rightarrow> Ref \<Rightarrow> Value \<Rightarrow> err + Value" where
  "applyDecode inflate ref v = (case parseDecodePipeline inflate (Opt ref ''decode'') of
     Inl e \<Rightarrow> Inl (Errorf ''mamori: ref'' [e])
   | Inr steps \<Rightarrow>
      if steps = [] then Inr v
      else (case fold_res run_step steps (v_Bytes v) of Inl e \<Rightarrow> Inl e
            | Inr b \<Rightarrow> Inr (v\<lparr>v_Bytes := b\<rparr>)))"

subsection \<open>Fragment selection\<close>

record json_codec =
  j_object :: "bytes \<Rightarrow> (string \<rightharpoonup> bytes) option"
  j_array :: "bytes \<Rightarrow> bytes list option"
  j_string :: "bytes \<Rightarrow> string option"

fun containerKind :: "bytes \<Rightarrow> char option" where
  "containerKind [] = None"
| "containerKind (c # s) =
     (if c = CHR '' '' \<or> c = CHR 0x09 \<or> c = CHR 0x0A \<or> c = CHR 0x0D then containerKind s else Some c)"

fun unescape_scan :: "string \<Rightarrow> err + string" where
  "unescape_scan [] = Inr []"
| "unescape_scan (c # s) =
     (if c \<noteq> CHR ''~'' then res_append [c] (unescape_scan s)
      else (case s of [] \<Rightarrow> Inl (Errorf ''token ends with an unescaped ~'' [Sentinel ErrInvalid])
        | d # t \<Rightarrow> if d = CHR ''0'' then res_append ''~'' (unescape_scan t)
                   else if d = CHR ''1'' then res_append ''/'' (unescape_scan t)
                   else Inl (Errorf ''token contains invalid escape'' [Sentinel ErrInvalid])))"

definition unescapeToken :: "string \<Rightarrow> err + string" where
  "unescapeToken tok = (if CHR ''~'' \<notin> set tok then Inr tok else unescape_scan tok)"

text \<open>\<^verbatim>\<open>strconv.Atoi\<close> on a string of digits fails exactly beyond int64.\<close>

definition arrayIndex :: "string \<Rightarrow> err + nat" where
  "arrayIndex tok =
     (if tok = ''-'' then Inl (Errorf ''token addresses one past the end'' [Sentinel ErrInvalid])
      else if tok = [] then Inl (Errorf ''empty array index token'' [Sentinel ErrInvalid])
      else if \<not> list_all is_digit tok then Inl (Errorf ''token is not an array index'' [Sentinel ErrInvalid])
      else if length tok > 1 \<and> hd tok = CHR ''0'' then Inl (Errorf ''array index has a leading zero'' [Sentinel ErrInvalid])
      else if nat_of_dec tok \<ge> 2 ^ 63 then Inl (Errorf ''token is not an array index'' [Sentinel ErrInvalid])
      else Inr (nat_of_dec tok))"

definition unquoteJSON :: "json_codec \<Rightarrow> bytes \<Rightarrow> bytes" where
  "unquoteJSON j raw = (case j_string j raw of Some s \<Rightarrow> s | None \<Rightarrow> raw)"

definition descend :: "json_codec \<Rightarrow> bytes \<Rightarrow> string \<Rightarrow> err + bytes" where
  "descend j node tok =
     (if containerKind node = Some (CHR ''{'') then
        (case j_object j node of
           None \<Rightarrow> Inl (Errorf ''mamori: pointer: malformed object'' [Sentinel ErrInvalid, Opaque ''json''])
         | Some obj \<Rightarrow> (case obj tok of
              None \<Rightarrow> Inl (Errorf ''mamori: pointer: key not present'' [Sentinel ErrNotFound])
            | Some v \<Rightarrow> Inr v))
      else if containerKind node = Some (CHR ''['') then
        (case j_array j node of
           None \<Rightarrow> Inl (Errorf ''mamori: pointer: malformed array'' [Sentinel ErrInvalid, Opaque ''json''])
         | Some arr \<Rightarrow> (case arrayIndex tok of
              Inl e \<Rightarrow> Inl (Errorf ''mamori: pointer'' [e])
            | Inr i \<Rightarrow> if i \<ge> length arr then Inl (Errorf ''mamori: pointer: index out of range'' [Sentinel ErrNotFound])
                       else Inr (arr ! i)))
      else Inl (Errorf ''mamori: pointer: cannot descend into a non-container value'' [Sentinel ErrInvalid]))"

fun pointer_walk :: "json_codec \<Rightarrow> string list \<Rightarrow> bytes \<Rightarrow> err + bytes" where
  "pointer_walk j [] cur = Inr cur"
| "pointer_walk j (raw # rest) cur = (case unescapeToken raw of
      Inl e \<Rightarrow> Inl (Errorf ''mamori: pointer'' [e])
    | Inr tok \<Rightarrow> (case descend j cur tok of Inl e \<Rightarrow> Inl e | Inr next \<Rightarrow> pointer_walk j rest next))"

definition selectPointer :: "json_codec \<Rightarrow> bytes \<Rightarrow> string \<Rightarrow> err + bytes" where
  "selectPointer j data ptr = (case pointer_walk j (tl (split_on (CHR ''/'') ptr)) data of
      Inl e \<Rightarrow> Inl e | Inr cur \<Rightarrow> Inr (unquoteJSON j cur))"

definition SelectKey :: "json_codec \<Rightarrow> bytes \<Rightarrow> string \<Rightarrow> err + bytes" where
  "SelectKey j data key =
     (if key = [] then Inr data
      else if has_prefix ''/'' key then selectPointer j data key
      else (case j_object j data of
          None \<Rightarrow> Inl (Errorf ''mamori: cannot select key: payload is not a JSON object'' [Sentinel ErrInvalid, Opaque ''json''])
        | Some obj \<Rightarrow> (case obj key of
             None \<Rightarrow> Inl (Errorf ''mamori: key not present in payload'' [Sentinel ErrNotFound])
           | Some raw \<Rightarrow> Inr (unquoteJSON j raw))))"

subsection \<open>Decoding keeps the metadata and never reports absence\<close>

definition invalid_not_absent :: "err \<Rightarrow> bool" where
  "invalid_not_absent e \<longleftrightarrow> err_is e ErrInvalid \<and> \<not> err_is e ErrNotFound"

lemma decodeCodings_err:
  "decodeCodings inflate name = Some fn \<Longrightarrow> fn b = Inl e \<Longrightarrow> \<not> err_is e ErrNotFound"
  by (auto simp: decodeCodings_def of_opt_def gunzip_def split: if_splits option.splits)

lemma map_res_Inl_iff: "map_res f xs = Inl e \<Longrightarrow> \<exists>x\<in>set xs. f x = Inl e"
  by (induction xs) (auto split: sum.splits)

lemma parseDecodePipeline_err: "parseDecodePipeline inflate spec = Inl e \<Longrightarrow> invalid_not_absent e"
  by (auto simp: parseDecodePipeline_def parse_step_def Let_def invalid_not_absent_def
      split: if_splits option.splits dest!: map_res_Inl_iff)

lemma parseDecodePipeline_steps:
  assumes "parseDecodePipeline inflate spec = Inr steps" and "s \<in> set steps" and "ds_fn s b = Inl e"
  shows "\<not> err_is e ErrNotFound"
proof -
  obtain i where i: "i < length steps" "s = steps ! i" using assms(2) by (auto simp: in_set_conv_nth)
  have r: "map_res (parse_step inflate) (split_on (CHR '','') spec) = Inr steps"
    using assms(1,2) by (auto simp: parseDecodePipeline_def split: if_splits)
  then have "parse_step inflate (split_on (CHR '','') spec ! i) = Inr s"
    using map_res_Inr_nth [OF r] map_res_Inr_length [OF r] i by simp
  then obtain fn where "decodeCodings inflate (trim_space (split_on (CHR '','') spec ! i)) = Some fn" "ds_fn s = fn"
    by (auto simp: parse_step_def Let_def split: option.splits)
  then show ?thesis using decodeCodings_err assms(3) by blast
qed

lemma fold_run_step_err:
  "fold_res run_step steps b = Inl e \<Longrightarrow> (\<And>s b e. s \<in> set steps \<Longrightarrow> ds_fn s b = Inl e \<Longrightarrow> \<not> err_is e ErrNotFound)
     \<Longrightarrow> invalid_not_absent e"
proof (induction steps arbitrary: b)
  case (Cons s steps)
  show ?case
  proof (cases "run_step s b")
    case (Inl e')
    then have "e = e'" using Cons.prems(1) by simp
    moreover obtain e0 where "ds_fn s b = Inl e0" using Inl by (auto simp: run_step_def split: sum.splits)
    moreover have "\<not> err_is e0 ErrNotFound" by (rule Cons.prems(2) [OF _ calculation(2)]) simp
    ultimately show ?thesis using Inl by (auto simp: run_step_def invalid_not_absent_def split: if_splits)
  next
    case (Inr b')
    then have "fold_res run_step steps b' = Inl e" using Cons.prems(1) by simp
    then show ?thesis by (rule Cons.IH) (rule Cons.prems(2), auto)
  qed
qed simp

lemma applyDecode_frame:
  "applyDecode inflate ref v = Inr w \<Longrightarrow> v_Version w = v_Version v \<and> v_Sensitive w = v_Sensitive v
     \<and> v_NotAfter w = v_NotAfter v \<and> v_Metadata w = v_Metadata v"
  by (auto simp: applyDecode_def split: sum.splits if_splits)

lemma applyDecode_err: "applyDecode inflate ref v = Inl e \<Longrightarrow> invalid_not_absent e"
proof (cases "parseDecodePipeline inflate (Opt ref ''decode'')")
  case (Inl e')
  then show "applyDecode inflate ref v = Inl e \<Longrightarrow> invalid_not_absent e"
    using parseDecodePipeline_err [OF Inl] by (auto simp: applyDecode_def invalid_not_absent_def)
next
  case (Inr steps)
  then show "applyDecode inflate ref v = Inl e \<Longrightarrow> invalid_not_absent e"
    using fold_run_step_err [of steps "v_Bytes v"] parseDecodePipeline_steps [OF Inr]
    by (auto simp: applyDecode_def split: if_splits sum.splits)
qed

text \<open>
  Decoding a value changes its bytes only: version, sensitivity, expiry and metadata are those
  of the source, so change detection is unaffected; and every failure is classified invalid and
  never not-found, so a field's default can never mask a wrong encoding.
\<close>

lemma applyDecode_contract:
  "case applyDecode inflate ref v of
     Inr w \<Rightarrow> v_Version w = v_Version v \<and> v_Sensitive w = v_Sensitive v \<and> v_NotAfter w = v_NotAfter v
            \<and> v_Metadata w = v_Metadata v
   | Inl e \<Rightarrow> err_is e ErrInvalid \<and> \<not> err_is e ErrNotFound \<and> ErrorKind (Some e) \<noteq> KindNotFound"
  using applyDecode_frame applyDecode_err by (auto simp: invalid_not_absent_def split: sum.split)

text \<open>A ref without the option decodes to the value itself.\<close>

lemma applyDecode_none: "Opt ref ''decode'' = [] \<Longrightarrow> applyDecode inflate ref v = Inr v"
  by (simp add: applyDecode_def parseDecodePipeline_def)

end
