(* ===== verification/Specs.thy ===== *)
theory Specs
  imports Decoding
begin

text \<open>
  \<^verbatim>\<open>decode.go\<close> and \<^verbatim>\<open>derivedversion.go\<close>: the field specifications read off a config struct, and
  the decoding of raw bytes into its fields.

  A config type is a value of \<^verbatim>\<open>gtype\<close>, the part of \<^verbatim>\<open>reflect.Type\<close> the program inspects; a
  config value is a \<^verbatim>\<open>gval\<close>, whose struct fields are positional. Struct tags are given as the
  key/value pairs \<^verbatim>\<open>reflect.StructTag.Lookup\<close> finds. Promotion through embedded structs is not
  represented. A slice that Go distinguishes from the empty one by being nil is \<open>None\<close>.

  The record \<^verbatim>\<open>rt\<close> collects the library code the decoder calls: gzip, JSON, YAML and TOML
  parsing, \<^verbatim>\<open>time.ParseDuration\<close>, \<^verbatim>\<open>strconv.ParseFloat\<close> with the rounding of the field's width,
  \<^verbatim>\<open>strconv.AppendFloat\<close>, \<^verbatim>\<open>reflect.Type.String\<close> and mapstructure's weakly typed decode.
\<close>

datatype gtype =
    TString | TBool | TInt nat | TUint nat | TFloat nat | TDuration | TByteSlice
  | TSecretString | TSecretBytes | TStruct string "gfield list" | TPtr gtype | TSlice gtype
  | TMap gtype gtype | TIface | TOther string
and gfield = GField (f_Name: string) (f_Exported: bool) (f_Tag: "(string \<times> string) list") (f_Type: gtype)

datatype gval =
    VString string | VBool bool | VInt int | VUint nat | VFloat int | VBytes "bytes option"
  | VSecret "bytes option" | VStruct "gval list" | VPtr "gval option" | VSlice "gval list option"
  | VMap "(gval \<times> gval) list option" | VIface "(gtype \<times> gval) option" | VOther

text \<open>A value held in a \<^verbatim>\<open>map[string]any\<close>.\<close>

datatype any = ANull | ABool bool | ANum string | AString string | AList "any list" | AMap "(string \<times> any) list"

record rt =
  rt_inflate :: inflater
  rt_json :: json_codec
  rt_ParseDuration :: "string \<Rightarrow> int option"
  rt_ParseFloat :: "nat \<Rightarrow> string \<Rightarrow> int option"
  rt_AppendFloat :: "int \<Rightarrow> string"
  rt_typeString :: "gtype \<Rightarrow> string"
  rt_unmarshal :: "string \<Rightarrow> bytes \<Rightarrow> (string \<rightharpoonup> any) option"
  rt_mapDecode :: "gtype \<Rightarrow> gval \<Rightarrow> (string \<rightharpoonup> any) \<Rightarrow> gval option"

datatype onFailPolicy = onFailKeepLast | onFailUseDefault | onFailFail

record fieldSpec =
  sp_Path :: path
  sp_Refs :: "Ref list"
  sp_Default :: string
  sp_HasDefault :: bool
  sp_Flatten :: string
  sp_Optional :: bool
  sp_Index :: "nat list"
  sp_Type :: gtype
  sp_Sensitive :: bool
  sp_OnFail :: onFailPolicy

subsection \<open>Walking the struct\<close>

definition is_secret :: "gtype \<Rightarrow> bool" where
  "is_secret t \<longleftrightarrow> t = TSecretString \<or> t = TSecretBytes"

definition is_struct :: "gtype \<Rightarrow> bool" where
  "is_struct t = (case t of TStruct _ _ \<Rightarrow> True | _ \<Rightarrow> False)"

definition tag_get :: "(string \<times> string) list \<Rightarrow> string \<Rightarrow> string" where
  "tag_get tags k = (case map_of tags k of None \<Rightarrow> [] | Some v \<Rightarrow> v)"

definition field_path :: "path \<Rightarrow> string \<Rightarrow> path" where
  "field_path prefix name = (if prefix \<noteq> [] then prefix @ ''.'' @ name else name)"

definition field_err :: "path \<Rightarrow> err \<Rightarrow> err" where
  "field_err path e = Errorf (''mamori: field '' @ path) [e]"

definition parse_onfail :: "path \<Rightarrow> string option \<Rightarrow> bool \<Rightarrow> err + onFailPolicy" where
  "parse_onfail path tag hasDefault = (case tag of
     None \<Rightarrow> Inr onFailKeepLast
   | Some t \<Rightarrow>
      if t = ''keeplast'' then Inr onFailKeepLast
      else if t = ''default'' then
        (if \<not> hasDefault then Inl (Errorf (''mamori: field '' @ path @ '': onfail default requires a default tag'') [])
         else Inr onFailUseDefault)
      else if t = ''fail'' then Inr onFailFail
      else Inl (Errorf (''mamori: field '' @ path @ '': unknown onfail'') []))"

text \<open>One field with a \<^verbatim>\<open>source\<close> tag; the checks are in the order of the code.\<close>

definition sourced_spec ::
    "rt \<Rightarrow> (string \<rightharpoonup> string) \<Rightarrow> path \<Rightarrow> nat list \<Rightarrow> gfield \<Rightarrow> string \<Rightarrow> err + fieldSpec" where
  "sourced_spec R vars path idx f source =
     (case expandRefVars source vars of Inl e \<Rightarrow> Inl (field_err path e)
      | Inr source' \<Rightarrow>
     (case ParseRefs source' of Inl e \<Rightarrow> Inl (field_err path e)
      | Inr refs \<Rightarrow>
     (case map_res (\<lambda>r. parseDecodePipeline (rt_inflate R) (Opt r ''decode'')) refs of
        Inl e \<Rightarrow> Inl (field_err path e)
      | Inr _ \<Rightarrow>
     (case parse_onfail path (map_of (f_Tag f) ''onfail'') (map_of (f_Tag f) ''default'' \<noteq> None) of
        Inl e \<Rightarrow> Inl e
      | Inr onFail \<Rightarrow>
        if is_struct (f_Type f) \<and> tag_get (f_Tag f) ''flatten'' = []
        then Inl (Errorf (''mamori: field '' @ path @ '' is a struct with a source but no flatten tag'') [])
        else Inr \<lparr>sp_Path = path, sp_Refs = refs, sp_Default = tag_get (f_Tag f) ''default'',
              sp_HasDefault = map_of (f_Tag f) ''default'' \<noteq> None,
              sp_Flatten = tag_get (f_Tag f) ''flatten'',
              sp_Optional = (tag_get (f_Tag f) ''optional'' = ''true''),
              sp_Index = idx, sp_Type = f_Type f, sp_Sensitive = is_secret (f_Type f),
              sp_OnFail = onFail\<rparr>))))"


fun walk_fields ::
    "rt \<Rightarrow> (string \<rightharpoonup> string) \<Rightarrow> path \<Rightarrow> nat list \<Rightarrow> nat \<Rightarrow> gfield list \<Rightarrow> err + fieldSpec list" where
  "walk_fields R vars prefix index i [] = Inr []"
| "walk_fields R vars prefix index i (GField name exported tag ty # fs) =
     (case (if \<not> exported then Inr []
            else (case map_of tag ''source'' of
               None \<Rightarrow> (case ty of
                   TStruct _ sub \<Rightarrow> walk_fields R vars (field_path prefix name) (index @ [i]) 0 sub
                 | _ \<Rightarrow> Inr [])
             | Some source \<Rightarrow> map_sum id (\<lambda>s. [s])
                 (sourced_spec R vars (field_path prefix name) (index @ [i]) (GField name exported tag ty) source))) of
        Inl e \<Rightarrow> Inl e
      | Inr here \<Rightarrow> map_sum id ((@) here) (walk_fields R vars prefix index (Suc i) fs))"

definition walkSpecs :: "rt \<Rightarrow> (string \<rightharpoonup> string) \<Rightarrow> gfield list \<Rightarrow> path \<Rightarrow> nat list \<Rightarrow> err + fieldSpec list" where
  "walkSpecs R vars fs prefix index = walk_fields R vars prefix index 0 fs"

definition fieldSpecs :: "rt \<Rightarrow> gtype \<Rightarrow> (string \<rightharpoonup> string) \<Rightarrow> err + fieldSpec list" where
  "fieldSpecs R t vars = (case t of
     TStruct _ fs \<Rightarrow> walkSpecs R vars fs [] []
   | _ \<Rightarrow> Inl (Errorf ''mamori: config type is not a struct'' []))"

subsection \<open>Scalars\<close>

definition ParseInt64 :: "string \<Rightarrow> int option" where
  "ParseInt64 s =
     (let neg = (s \<noteq> [] \<and> hd s = CHR ''-'');
          ds = (if s \<noteq> [] \<and> (hd s = CHR ''-'' \<or> hd s = CHR ''+'') then tl s else s);
          n = int (nat_of_dec ds)
      in if ds = [] \<or> \<not> list_all is_digit ds then None
         else if neg then (if n \<le> 2 ^ 63 then Some (- n) else None)
         else if n < 2 ^ 63 then Some n else None)"

definition ParseUint64 :: "string \<Rightarrow> nat option" where
  "ParseUint64 s = (if s = [] \<or> \<not> list_all is_digit s \<or> nat_of_dec s \<ge> 2 ^ 64 then None
     else Some (nat_of_dec s))"

definition ParseBool :: "string \<Rightarrow> bool option" where
  "ParseBool s = (if s \<in> set [''1'', ''t'', ''T'', ''TRUE'', ''true'', ''True''] then Some True
     else if s \<in> set [''0'', ''f'', ''F'', ''FALSE'', ''false'', ''False''] then Some False else None)"

text \<open>\<^verbatim>\<open>reflect.Value.SetInt\<close> and \<^verbatim>\<open>SetUint\<close> truncate to the width of the field.\<close>

definition SetInt :: "nat \<Rightarrow> int \<Rightarrow> gval" where
  "SetInt w n = VInt ((n + 2 ^ (w - 1)) mod 2 ^ w - 2 ^ (w - 1))"

definition SetUint :: "nat \<Rightarrow> nat \<Rightarrow> gval" where
  "SetUint w n = VUint (n mod 2 ^ w)"

text \<open>\<^verbatim>\<open>append([]byte(nil), raw...)\<close> is nil when \<open>raw\<close> is empty.\<close>

definition append_nil :: "bytes \<Rightarrow> bytes option" where
  "append_nil raw = (if raw = [] then None else Some raw)"

definition scalar_err :: "fieldSpec \<Rightarrow> string \<Rightarrow> err" where
  "scalar_err spec what = Errorf (''mamori: field '' @ sp_Path spec @ what) [Opaque what]"

definition decodeScalar :: "rt \<Rightarrow> fieldSpec \<Rightarrow> bytes \<Rightarrow> err + gval" where
  "decodeScalar R spec raw =
     (let s = trim_space raw
      in case sp_Type spec of
        TSecretString \<Rightarrow> Inr (VSecret (append_nil raw))
      | TSecretBytes \<Rightarrow> Inr (VSecret (append_nil raw))
      | TByteSlice \<Rightarrow> Inr (VBytes (append_nil raw))
      | TDuration \<Rightarrow> (case rt_ParseDuration R s of None \<Rightarrow> Inl (scalar_err spec '': invalid duration'')
          | Some d \<Rightarrow> Inr (SetInt 64 d))
      | TString \<Rightarrow> Inr (VString raw)
      | TBool \<Rightarrow> (case ParseBool s of None \<Rightarrow> Inl (scalar_err spec '': invalid bool'') | Some b \<Rightarrow> Inr (VBool b))
      | TInt w \<Rightarrow> (case ParseInt64 s of None \<Rightarrow> Inl (scalar_err spec '': invalid int'') | Some n \<Rightarrow> Inr (SetInt w n))
      | TUint w \<Rightarrow> (case ParseUint64 s of None \<Rightarrow> Inl (scalar_err spec '': invalid uint'') | Some n \<Rightarrow> Inr (SetUint w n))
      | TFloat w \<Rightarrow> (case rt_ParseFloat R w s of None \<Rightarrow> Inl (scalar_err spec '': invalid float'') | Some x \<Rightarrow> Inr (VFloat x))
      | _ \<Rightarrow> Inl (Errorf (''mamori: field '' @ sp_Path spec @ '': unsupported type'') []))"

subsection \<open>Flattened payloads\<close>

definition env_line :: "string \<Rightarrow> (string \<rightharpoonup> any) \<Rightarrow> (string \<rightharpoonup> any)" where
  "env_line line0 m = (let line = trim_space line0 in
     if line = [] \<or> has_prefix ''#'' line then m
     else (case cut (CHR ''='') line of None \<Rightarrow> m
           | Some (k, v) \<Rightarrow> m(trim_space k \<mapsto> AString (trim_space v))))"

definition parseEnvPayload :: "bytes \<Rightarrow> (string \<rightharpoonup> any)" where
  "parseEnvPayload raw = fold env_line (split_on (CHR 0x0A) raw) Map.empty"

definition decodeFlatten :: "rt \<Rightarrow> gval \<Rightarrow> fieldSpec \<Rightarrow> bytes \<Rightarrow> err + gval" where
  "decodeFlatten R fv spec raw =
     (case (if sp_Flatten spec = ''json'' \<or> sp_Flatten spec = ''yaml'' \<or> sp_Flatten spec = ''toml'' then
              (case rt_unmarshal R (sp_Flatten spec) raw of
                 None \<Rightarrow> Inl (Errorf (''mamori: field '' @ sp_Path spec @ '': '' @ sp_Flatten spec @ '' flatten'') [Opaque ''unmarshal''])
               | Some m \<Rightarrow> Inr m)
            else if sp_Flatten spec = ''env'' then Inr (parseEnvPayload raw)
            else Inl (Errorf (''mamori: field '' @ sp_Path spec @ '': unknown flatten'') [])) of
        Inl e \<Rightarrow> Inl e
      | Inr m \<Rightarrow> (case rt_mapDecode R (sp_Type spec) fv m of
           None \<Rightarrow> Inl (Errorf (''mamori: field '' @ sp_Path spec @ '': flatten decode'') [Opaque ''decode''])
         | Some v \<Rightarrow> Inr v))"

subsection \<open>Reading and writing fields\<close>

fun get_at :: "gval \<Rightarrow> nat list \<Rightarrow> gval option" where
  "get_at v [] = Some v"
| "get_at (VStruct vs) (i # is) = (if i < length vs then get_at (vs ! i) is else None)"
| "get_at _ (i # is) = None"

fun set_at :: "gval \<Rightarrow> nat list \<Rightarrow> gval \<Rightarrow> gval" where
  "set_at v [] x = x"
| "set_at (VStruct vs) (i # is) x = (if i < length vs then VStruct (vs[i := set_at (vs ! i) is x]) else VStruct vs)"
| "set_at v (i # is) x = v"

text \<open>
  A path that is not addressable in the value panics inside reflect; no specification read off the
  same type has one, and the model gives it the error of the settability check.
\<close>

definition setField :: "rt \<Rightarrow> gval \<Rightarrow> fieldSpec \<Rightarrow> bytes \<Rightarrow> err + gval" where
  "setField R root spec raw = (case get_at root (sp_Index spec) of
     None \<Rightarrow> Inl (Errorf (''mamori: field '' @ sp_Path spec @ '' is not settable'') [])
   | Some fv \<Rightarrow>
      (case (if sp_Flatten spec \<noteq> [] then decodeFlatten R fv spec raw else decodeScalar R spec raw) of
         Inl e \<Rightarrow> Inl e
       | Inr v \<Rightarrow> Inr (set_at root (sp_Index spec) v)))"

fun index_of :: "string \<Rightarrow> gfield list \<Rightarrow> nat option" where
  "index_of n [] = None"
| "index_of n (f # fs) = (if f_Name f = n then Some 0 else map_option Suc (index_of n fs))"

text \<open>The result carries the type, the value and whether \<^verbatim>\<open>Interface\<close> may be called on it.\<close>

fun field_walk :: "string list \<Rightarrow> gtype \<times> gval \<times> bool \<Rightarrow> (gtype \<times> gval \<times> bool) option" where
  "field_walk [] r = Some r"
| "field_walk (part # rest) (TStruct nm fs, VStruct vs, ok) = (case index_of part fs of
      None \<Rightarrow> None
    | Some i \<Rightarrow> if i < length vs then field_walk rest (f_Type (fs ! i), vs ! i, ok \<and> f_Exported (fs ! i)) else None)"
| "field_walk (part # rest) (TSecretString, VSecret b, ok) =
     (if part = ''b'' then field_walk rest (TByteSlice, VBytes b, False) else None)"
| "field_walk (part # rest) (TSecretBytes, VSecret b, ok) =
     (if part = ''b'' then field_walk rest (TByteSlice, VBytes b, False) else None)"
| "field_walk (part # rest) _ = None"

definition fieldByPath :: "gtype \<Rightarrow> gval \<Rightarrow> path \<Rightarrow> (gtype \<times> gval \<times> bool) option" where
  "fieldByPath t root p = field_walk (split_on (CHR ''.'') p) (t, root, True)"


subsection \<open>Well-formed specifications\<close>

fun type_at :: "gtype \<Rightarrow> nat list \<Rightarrow> gtype option" where
  "type_at t [] = Some t"
| "type_at (TStruct nm fs) (i # is) = (if i < length fs then type_at (f_Type (fs ! i)) is else None)"
| "type_at _ (i # is) = None"

text \<open>Two index paths that part at some struct, the first to an earlier field.\<close>

definition diverge :: "nat list \<Rightarrow> nat list \<Rightarrow> bool" where
  "diverge x y \<longleftrightarrow> (\<exists>pre a b xs ys. x = pre @ a # xs \<and> y = pre @ b # ys \<and> a < b)"

definition spec_wf :: "fieldSpec \<Rightarrow> bool" where
  "spec_wf s \<longleftrightarrow> sp_Refs s \<noteq> [] \<and> (sp_OnFail s = onFailUseDefault \<longrightarrow> sp_HasDefault s)
     \<and> sp_Sensitive s = is_secret (sp_Type s)
     \<and> (is_struct (sp_Type s) \<longrightarrow> sp_Flatten s \<noteq> [])"

lemma ParseRefs_not_Nil: "ParseRefs s = Inr rs \<Longrightarrow> rs \<noteq> []"
  using splitChain_from_not_Nil
  by (auto simp: ParseRefs_def Let_def splitChain_def split: if_splits dest!: map_res_Inr_length)

lemma parse_onfail_default: "parse_onfail p t b = Inr onFailUseDefault \<Longrightarrow> b"
  by (auto simp: parse_onfail_def split: option.splits if_splits)

lemma sourced_spec_wf:
  assumes "sourced_spec R vars p idx f src = Inr s"
  shows "spec_wf s \<and> sp_Index s = idx \<and> sp_Type s = f_Type f \<and> sp_Path s = p"
  using assms parse_onfail_default [of p "map_of (f_Tag f) ''onfail''"]
  by (auto simp: sourced_spec_def spec_wf_def dest: ParseRefs_not_Nil split: sum.splits if_splits)

fun path_along :: "path \<Rightarrow> gfield list \<Rightarrow> nat list \<Rightarrow> path" where
  "path_along p fs [] = p"
| "path_along p fs (i # is) = (case f_Type (fs ! i) of
      TStruct _ sub \<Rightarrow> path_along (field_path p (f_Name (fs ! i))) sub is
    | _ \<Rightarrow> field_path p (f_Name (fs ! i)))"

text \<open>What the walk from field \<open>i\<close> on says of one specification it produced.\<close>

definition spec_below :: "path \<Rightarrow> nat list \<Rightarrow> nat \<Rightarrow> gfield list \<Rightarrow> fieldSpec \<Rightarrow> bool" where
  "spec_below prefix index i fs s \<longleftrightarrow> spec_wf s \<and> (\<exists>k is. k < length fs \<and> sp_Index s = index @ (i + k) # is
     \<and> type_at (f_Type (fs ! k)) is = Some (sp_Type s) \<and> sp_Path s = path_along prefix fs (k # is))"

lemma spec_below_Suc:
  assumes "spec_below prefix index (Suc i) fs s"
  shows "spec_below prefix index i (f # fs) s"
proof -
  from assms obtain k "is" where "spec_wf s" "k < length fs" "sp_Index s = index @ (Suc i + k) # is"
    "type_at (f_Type (fs ! k)) is = Some (sp_Type s)" "sp_Path s = path_along prefix fs (k # is)"
    by (auto simp: spec_below_def)
  then show ?thesis unfolding spec_below_def
    by (intro conjI exI [of _ "Suc k"] exI [of _ "is"]) (auto split: gtype.split)
qed

lemma spec_below_sub:
  assumes "spec_below (field_path prefix n) (index @ [i]) 0 sub s"
  shows "spec_below prefix index i (GField n e t (TStruct nm sub) # fs) s"
proof -
  from assms obtain k "is" where "spec_wf s" "k < length sub" "sp_Index s = (index @ [i]) @ k # is"
    "type_at (f_Type (sub ! k)) is = Some (sp_Type s)" "sp_Path s = path_along (field_path prefix n) sub (k # is)"
    by (auto simp: spec_below_def)
  then show ?thesis unfolding spec_below_def
    by (intro conjI exI [of _ 0] exI [of _ "k # is"]) auto
qed

lemma spec_below_leaf:
  assumes "sourced_spec R vars (field_path prefix (f_Name f)) (index @ [i]) f src = Inr s"
  shows "spec_below prefix index i (f # fs) s"
  using sourced_spec_wf [OF assms] unfolding spec_below_def
  by (intro conjI exI [of _ 0] exI [of _ "[]"]) (auto split: gtype.splits)

text \<open>One step of the walk: what the first field contributes.\<close>

lemma walk_fields_Cons:
  assumes "walk_fields R vars prefix index i (f # fs) = Inr specs"
  obtains here rest where "specs = here @ rest"
    "walk_fields R vars prefix index (Suc i) fs = Inr rest"
    "here = [] \<or> (\<exists>s src. here = [s] \<and> sourced_spec R vars (field_path prefix (f_Name f)) (index @ [i]) f src = Inr s)
      \<or> (\<exists>nm sub. f_Type f = TStruct nm sub \<and> walk_fields R vars (field_path prefix (f_Name f)) (index @ [i]) 0 sub = Inr here)"
proof (cases f)
  case (GField name ex tag ty)
  show thesis
    using assms that unfolding GField
    by (auto split: sum.splits if_splits option.splits gtype.splits simp: map_sum_def) 
qed


lemma sub_smaller:
  "f_Type f = TStruct nm sub \<Longrightarrow> size_list size sub < size_list size (f # fs)"
  "size_list size fs < size_list size (f # fs)" for f :: gfield
  by (cases f; simp)+

text \<open>Induction over a successful walk: a field contributes nothing, one specification, or a sub-walk.\<close>

lemma walk_fields_induct [consumes 1, case_names Nil skip leaf sub]:
  assumes "walk_fields R vars prefix index i fs = Inr specs"
    and "\<And>prefix index i. P prefix index i [] []"
    and "\<And>prefix index i f fs rest. P prefix index (Suc i) fs rest \<Longrightarrow> P prefix index i (f # fs) rest"
    and "\<And>prefix index i f fs rest s src. P prefix index (Suc i) fs rest \<Longrightarrow>
       sourced_spec R vars (field_path prefix (f_Name f)) (index @ [i]) f src = Inr s \<Longrightarrow> P prefix index i (f # fs) (s # rest)"
    and "\<And>prefix index i f fs rest here nm sub. P prefix index (Suc i) fs rest \<Longrightarrow> f_Type f = TStruct nm sub \<Longrightarrow>
       P (field_path prefix (f_Name f)) (index @ [i]) 0 sub here \<Longrightarrow> P prefix index i (f # fs) (here @ rest)"
  shows "P prefix index i fs specs"
  using assms(1)
proof (induction fs arbitrary: prefix index i specs rule: measure_induct_rule [where f = "size_list size"])
  case (less fs)
  show ?case
  proof (cases fs)
    case Nil
    then show ?thesis using less.prems assms(2) by simp
  next
    case (Cons f fs')
    obtain here rest where hr: "specs = here @ rest"
      "walk_fields R vars prefix index (Suc i) fs' = Inr rest"
      "here = [] \<or> (\<exists>s src. here = [s] \<and> sourced_spec R vars (field_path prefix (f_Name f)) (index @ [i]) f src = Inr s)
        \<or> (\<exists>nm sub. f_Type f = TStruct nm sub \<and> walk_fields R vars (field_path prefix (f_Name f)) (index @ [i]) 0 sub = Inr here)"
      using less.prems unfolding Cons by (rule walk_fields_Cons)
    have rest: "P prefix index (Suc i) fs' rest"
      using less.IH [OF _ hr(2)] sub_smaller(2) Cons by blast
    show ?thesis using hr(3)
    proof (elim disjE exE conjE)
      assume "here = []"
      then show ?thesis using assms(3) [OF rest] hr(1) Cons by simp
    next
      fix s src
      assume "here = [s]" "sourced_spec R vars (field_path prefix (f_Name f)) (index @ [i]) f src = Inr s"
      then show ?thesis using assms(4) [OF rest] hr(1) Cons by simp
    next
      fix nm sub
      assume sub: "f_Type f = TStruct nm sub" "walk_fields R vars (field_path prefix (f_Name f)) (index @ [i]) 0 sub = Inr here"
      have "P (field_path prefix (f_Name f)) (index @ [i]) 0 sub here"
        using less.IH [OF _ sub(2)] sub_smaller(1) [OF sub(1)] Cons by blast
      then show ?thesis using assms(5) [OF rest sub(1)] hr(1) Cons by simp
    qed
  qed
qed

lemma walk_fields_below:
  "walk_fields R vars prefix index i fs = Inr specs \<Longrightarrow> \<forall>s\<in>set specs. spec_below prefix index i fs s"
proof (induction rule: walk_fields_induct)
  case (leaf prefix index i f fs rest s src)
  then show ?case using spec_below_leaf spec_below_Suc by auto
next
  case (sub prefix index i f fs rest here nm sub)
  then show ?case using spec_below_Suc spec_below_sub by (cases f) auto
qed (auto intro: spec_below_Suc)

lemma diverge_step: "diverge (index @ i # xs) (index @ (Suc i + k) # ys)"
  unfolding diverge_def by (intro exI conjI) (rule refl, rule refl, simp)

lemma walk_fields_diverge:
  "walk_fields R vars prefix index i fs = Inr specs \<Longrightarrow>
     sorted_wrt (\<lambda>s t. diverge (sp_Index s) (sp_Index t)) specs \<and> (\<forall>s\<in>set specs. \<exists>k xs. sp_Index s = index @ (i + k) # xs)"
proof (induction rule: walk_fields_induct)
  case (skip prefix index i f fs rest)
  then show ?case by (metis add_Suc_shift)
next
  case (leaf prefix index i f fs rest s src)
  have "sp_Index s = index @ [i]" using sourced_spec_wf [OF leaf(2)] by simp
  moreover have "\<forall>t\<in>set rest. \<exists>k xs. sp_Index t = index @ (i + k) # xs" using leaf(1) by (metis add_Suc_shift)
  moreover have "\<forall>t\<in>set rest. diverge (index @ [i]) (sp_Index t)" using leaf(1) diverge_step by metis
  ultimately show ?case using leaf(1) by auto
next
  case (sub prefix index i f fs rest here nm sub)
  have h: "\<forall>s\<in>set here. \<exists>xs. sp_Index s = index @ i # xs" using sub.IH(2) by fastforce
  then have "\<forall>s\<in>set here. \<forall>t\<in>set rest. diverge (sp_Index s) (sp_Index t)"
    using sub.IH(1) diverge_step by metis
  moreover have "\<forall>s\<in>set (here @ rest). \<exists>k xs. sp_Index s = index @ (i + k) # xs"
    using h sub.IH(1) by (metis Un_iff add.right_neutral add_Suc_shift set_append)
  ultimately show ?case using sub.IH by (simp add: sorted_wrt_append)
qed simp

subsection \<open>Field paths\<close>

fun names_along :: "gfield list \<Rightarrow> nat list \<Rightarrow> string list" where
  "names_along fs [] = []"
| "names_along fs (i # is) = (if i < length fs
     then f_Name (fs ! i) # (case f_Type (fs ! i) of TStruct _ sub \<Rightarrow> names_along sub is | _ \<Rightarrow> []) else [])"

text \<open>Go identifiers: no two fields of a struct share a name, and a name has no dot.\<close>

fun well_named :: "gfield list \<Rightarrow> bool" where
  "well_named [] = True"
| "well_named (GField n ex tag ty # fs) \<longleftrightarrow> n \<noteq> [] \<and> CHR ''.'' \<notin> set n \<and> n \<notin> set (map f_Name fs)
     \<and> (case ty of TStruct _ sub \<Rightarrow> well_named sub | _ \<Rightarrow> True) \<and> well_named fs"

lemma well_named_distinct: "well_named fs \<Longrightarrow> distinct (map f_Name fs)"
  by (induction fs rule: well_named.induct) auto

lemma well_named_nth:
  "well_named fs \<Longrightarrow> i < length fs \<Longrightarrow> f_Name (fs ! i) \<noteq> [] \<and> CHR ''.'' \<notin> set (f_Name (fs ! i))
     \<and> (\<forall>nm sub. f_Type (fs ! i) = TStruct nm sub \<longrightarrow> well_named sub)"
proof (induction fs arbitrary: i rule: well_named.induct)
  case (2 n ex tag ty fs)
  then show ?case by (cases i) auto
qed simp

definition plain_names :: "string list \<Rightarrow> bool" where
  "plain_names ns \<longleftrightarrow> (\<forall>n\<in>set ns. n \<noteq> [] \<and> CHR ''.'' \<notin> set n)"

lemma names_along_plain: "well_named fs \<Longrightarrow> plain_names (names_along fs is)"
proof (induction fs "is" rule: names_along.induct)
  case (2 fs i "is")
  show ?case
  proof (cases "i < length fs")
    case True
    note wn = well_named_nth [OF 2(2) True]
    show ?thesis using 2(1) [OF True] wn True by (cases "f_Type (fs ! i)") (auto simp: plain_names_def)
  qed (simp add: plain_names_def)
qed (simp add: plain_names_def)

lemma join_plain_inj:
  assumes "plain_names xs" "plain_names ys" "xs \<noteq> []" "ys \<noteq> []" "join_with ''.'' xs = join_with ''.'' ys"
  shows "xs = ys"
proof -
  have "split_on (CHR ''.'') (join_with ''.'' zs) = zs" if "plain_names zs" "zs \<noteq> []" for zs
    using that by (intro split_on_join) (auto simp: plain_names_def)
  then show ?thesis using assms by metis
qed

lemma join_snoc: "xs \<noteq> [] \<Longrightarrow> join_with sep (xs @ [n]) = join_with sep xs @ sep @ n"
  by (induction xs rule: list_nonempty_induct) (auto simp: join_with_Cons)

lemma join_plain_not_Nil: "plain_names ps \<Longrightarrow> ps \<noteq> [] \<Longrightarrow> join_with ''.'' ps \<noteq> []"
  by (cases ps; cases "tl ps = []") (auto simp: plain_names_def join_with_Cons)

lemma field_path_join: "plain_names ps \<Longrightarrow> field_path (join_with ''.'' ps) n = join_with ''.'' (ps @ [n])"
  using join_plain_not_Nil [of ps] join_snoc [of ps "''.''" n] by (cases "ps = []") (auto simp: field_path_def)

lemma path_along_names:
  "well_named fs \<Longrightarrow> plain_names ps \<Longrightarrow> type_at (TStruct nm fs) is \<noteq> None \<Longrightarrow>
     path_along (join_with ''.'' ps) fs is = join_with ''.'' (ps @ names_along fs is)"
proof (induction "is" arbitrary: fs ps nm)
  case (Cons i "is")
  have i: "i < length fs" using Cons.prems(3) by (simp split: if_splits)
  note wn = well_named_nth [OF Cons.prems(1) i]
  have pn: "plain_names (ps @ [f_Name (fs ! i)])" using Cons.prems(2) wn by (auto simp: plain_names_def)
  show ?case
  proof (cases "\<exists>nm' sub. f_Type (fs ! i) = TStruct nm' sub")
    case True
    then obtain nm' sub where t: "f_Type (fs ! i) = TStruct nm' sub" by blast
    show ?thesis using Cons.IH [of sub "ps @ [f_Name (fs ! i)]" nm'] wn pn t i Cons.prems(2,3)
      by (simp add: field_path_join)
  next
    case False
    then show ?thesis using i Cons.prems(2) by (auto simp: field_path_join split: gtype.splits)
  qed
qed simp

lemma names_along_diverge:
  "well_named fs \<Longrightarrow> type_at (TStruct nm fs) (pre @ a # xs) \<noteq> None \<Longrightarrow> type_at (TStruct nm fs) (pre @ b # ys) \<noteq> None \<Longrightarrow>
     a \<noteq> b \<Longrightarrow> names_along fs (pre @ a # xs) \<noteq> names_along fs (pre @ b # ys)"
proof (induction pre arbitrary: fs nm)
  case Nil
  then have "a < length fs" "b < length fs" by (auto split: if_splits)
  then show ?case using Nil(4) well_named_distinct [OF Nil(1)] by (auto simp: distinct_conv_nth)
next
  case (Cons i pre)
  then have i: "i < length fs" and t: "type_at (f_Type (fs ! i)) (pre @ a # xs) \<noteq> None" "type_at (f_Type (fs ! i)) (pre @ b # ys) \<noteq> None"
    by (auto split: if_splits)
  from t(1) obtain nm' sub where s: "f_Type (fs ! i) = TStruct nm' sub" by (cases "f_Type (fs ! i)"; cases pre) auto
  show ?case using Cons.IH [of sub nm'] well_named_nth [OF Cons.prems(1) i] t s i Cons.prems(4) by simp
qed

lemma fieldSpecs_struct:
  assumes "fieldSpecs R t vars = Inr specs"
  obtains nm fs where "t = TStruct nm fs" "walk_fields R vars [] [] 0 fs = Inr specs"
  using assms by (auto simp: fieldSpecs_def walkSpecs_def split: gtype.splits)

lemma fieldSpecs_wf:
  assumes "fieldSpecs R t vars = Inr specs" "s \<in> set specs"
  shows "spec_wf s \<and> sp_Index s \<noteq> [] \<and> type_at t (sp_Index s) = Some (sp_Type s)"
proof -
  obtain nm fs where t: "t = TStruct nm fs" and w: "walk_fields R vars [] [] 0 fs = Inr specs"
    using assms(1) by (rule fieldSpecs_struct)
  show ?thesis using walk_fields_below [OF w] assms(2) t by (auto simp: spec_below_def)
qed

lemma fieldSpecs_diverge:
  "fieldSpecs R t vars = Inr specs \<Longrightarrow> sorted_wrt (\<lambda>s t. diverge (sp_Index s) (sp_Index t)) specs"
  by (erule fieldSpecs_struct) (simp add: walk_fields_diverge)

definition named_type :: "gtype \<Rightarrow> bool" where
  "named_type t = (case t of TStruct _ fs \<Rightarrow> well_named fs | _ \<Rightarrow> True)"

lemma sorted_wrt_distinct_map:
  assumes "sorted_wrt P xs" "\<And>x y. x \<in> set xs \<Longrightarrow> y \<in> set xs \<Longrightarrow> P x y \<Longrightarrow> f x \<noteq> f y"
  shows "distinct (map f xs)"
  using assms by (induction xs) (auto simp: image_iff)

lemma sorted_wrt_either:
  "sorted_wrt P xs \<Longrightarrow> x \<in> set xs \<Longrightarrow> y \<in> set xs \<Longrightarrow> x = y \<or> P x y \<or> P y x"
  by (induction xs) auto

lemma fieldSpecs_distinct_paths:
  assumes "fieldSpecs R t vars = Inr specs" "named_type t"
  shows "distinct (map sp_Path specs)"
proof -
  obtain nm fs where t: "t = TStruct nm fs" and w: "walk_fields R vars [] [] 0 fs = Inr specs"
    using assms(1) by (rule fieldSpecs_struct)
  have wn: "well_named fs" using assms(2) t by (simp add: named_type_def)
  have path: "sp_Path s = join_with ''.'' (names_along fs (sp_Index s)) \<and> names_along fs (sp_Index s) \<noteq> []"
    if s: "s \<in> set specs" for s
  proof -
    have "spec_below [] [] 0 fs s" using walk_fields_below [OF w] s by blast
    then obtain k "is" where k: "k < length fs" "sp_Index s = k # is" "sp_Path s = path_along [] fs (k # is)"
      by (auto simp: spec_below_def)
    moreover have "type_at (TStruct nm fs) (k # is) \<noteq> None"
      using fieldSpecs_wf [OF assms(1) s] k(2) t by (metis option.distinct(1))
    ultimately show ?thesis using path_along_names [OF wn, of "[]" nm "k # is"] by (simp add: plain_names_def)
  qed
  show ?thesis
  proof (rule sorted_wrt_distinct_map [OF fieldSpecs_diverge [OF assms(1)]])
    fix x y assume x: "x \<in> set specs" and y: "y \<in> set specs" and d: "diverge (sp_Index x) (sp_Index y)"
    have "type_at (TStruct nm fs) (sp_Index x) \<noteq> None" "type_at (TStruct nm fs) (sp_Index y) \<noteq> None"
      using fieldSpecs_wf [OF assms(1)] x y t by (metis option.distinct(1))+
    then have "names_along fs (sp_Index x) \<noteq> names_along fs (sp_Index y)"
      using d names_along_diverge [OF wn] by (metis diverge_def nat_neq_iff)
    then show "sp_Path x \<noteq> sp_Path y"
      using path [OF x] path [OF y] join_plain_inj [of "names_along fs (sp_Index x)" "names_along fs (sp_Index y)"]
        names_along_plain [OF wn] by metis
  qed
qed

subsection \<open>Typed values\<close>

fun zero_val :: "gtype \<Rightarrow> gval" and zero_vals :: "gfield list \<Rightarrow> gval list" where
  "zero_val TString = VString []"
| "zero_val TBool = VBool False"
| "zero_val (TInt w) = VInt 0"
| "zero_val (TUint w) = VUint 0"
| "zero_val (TFloat w) = VFloat 0"
| "zero_val TDuration = VInt 0"
| "zero_val TByteSlice = VBytes None"
| "zero_val TSecretString = VSecret None"
| "zero_val TSecretBytes = VSecret None"
| "zero_val (TStruct nm fs) = VStruct (zero_vals fs)"
| "zero_val (TPtr t) = VPtr None"
| "zero_val (TSlice t) = VSlice None"
| "zero_val (TMap k t) = VMap None"
| "zero_val TIface = VIface None"
| "zero_val (TOther k) = VOther"
| "zero_vals [] = []"
| "zero_vals (GField n e tag t # fs) = zero_val t # zero_vals fs"

fun has_type :: "gval \<Rightarrow> gtype \<Rightarrow> bool" and has_types :: "gval list \<Rightarrow> gfield list \<Rightarrow> bool" where
  "has_type (VString s) t = (t = TString)"
| "has_type (VBool b) t = (t = TBool)"
| "has_type (VInt n) t = (case t of TInt w \<Rightarrow> - (2 ^ (w - 1)) \<le> n \<and> n < 2 ^ (w - 1)
      | TDuration \<Rightarrow> - (2 ^ 63) \<le> n \<and> n < 2 ^ 63 | _ \<Rightarrow> False)"
| "has_type (VUint n) t = (case t of TUint w \<Rightarrow> n < 2 ^ w | _ \<Rightarrow> False)"
| "has_type (VFloat x) t = (case t of TFloat w \<Rightarrow> True | _ \<Rightarrow> False)"
| "has_type (VBytes b) t = (t = TByteSlice)"
| "has_type (VSecret b) t = is_secret t"
| "has_type (VStruct vs) t = (case t of TStruct nm fs \<Rightarrow> has_types vs fs | _ \<Rightarrow> False)"
| "has_type (VPtr p) t = (case t of TPtr u \<Rightarrow> (case p of None \<Rightarrow> True | Some v \<Rightarrow> has_type v u) | _ \<Rightarrow> False)"
| "has_type (VSlice p) t = (case t of TSlice u \<Rightarrow> (case p of None \<Rightarrow> True | Some vs \<Rightarrow> \<forall>v\<in>set vs. has_type v u) | _ \<Rightarrow> False)"
| "has_type (VMap p) t = (case t of TMap k u \<Rightarrow>
      (case p of None \<Rightarrow> True | Some kvs \<Rightarrow> \<forall>kv\<in>set kvs. has_type (fst kv) k \<and> has_type (snd kv) u) | _ \<Rightarrow> False)"
| "has_type (VIface p) t = (t = TIface \<and> (case p of None \<Rightarrow> True | Some (u, v) \<Rightarrow> has_type v u))"
| "has_type VOther t = (case t of TOther k \<Rightarrow> True | _ \<Rightarrow> False)"
| "has_types [] fs = (fs = [])"
| "has_types (v # vs) fs = (case fs of [] \<Rightarrow> False | f # fs' \<Rightarrow> has_type v (f_Type f) \<and> has_types vs fs')"

lemma has_types_iff:
  "has_types vs fs \<longleftrightarrow> length vs = length fs \<and> (\<forall>i<length fs. has_type (vs ! i) (f_Type (fs ! i)))"
proof (induction vs arbitrary: fs)
  case (Cons v vs)
  show ?case by (cases fs) (auto simp: Cons.IH nth_Cons split: nat.splits)
qed auto

lemma zero_val_typed: "has_type (zero_val t) t" "has_types (zero_vals fs) fs"
  by (induction t and fs rule: zero_val_zero_vals.induct) (auto simp: is_secret_def)

lemma get_at_typed:
  "has_type v t \<Longrightarrow> type_at t is = Some u \<Longrightarrow> \<exists>w. get_at v is = Some w \<and> has_type w u"
proof (induction "is" arbitrary: v t)
  case (Cons i "is")
  then obtain nm fs where t: "t = TStruct nm fs" "i < length fs" "type_at (f_Type (fs ! i)) is = Some u"
    by (cases t) (auto split: if_splits)
  then obtain vs where v: "v = VStruct vs" "has_types vs fs" using Cons.prems(1) by (cases v) (auto simp: is_secret_def)
  then show ?case using Cons.IH [OF _ t(3)] t(2) by (simp add: has_types_iff)
qed simp

lemma set_at_typed:
  "has_type v t \<Longrightarrow> type_at t is = Some u \<Longrightarrow> has_type x u \<Longrightarrow> has_type (set_at v is x) t"
proof (induction "is" arbitrary: v t)
  case (Cons i "is")
  then obtain nm fs where t: "t = TStruct nm fs" "i < length fs" "type_at (f_Type (fs ! i)) is = Some u"
    by (cases t) (auto split: if_splits)
  then obtain vs where v: "v = VStruct vs" "has_types vs fs" using Cons.prems(1) by (cases v) (auto simp: is_secret_def)
  then show ?case using Cons.IH [OF _ t(3) Cons.prems(3)] t by (simp add: has_types_iff nth_list_update)
qed simp

lemma get_set_same: "get_at v is \<noteq> None \<Longrightarrow> get_at (set_at v is x) is = Some x"
  by (induction v "is" rule: get_at.induct) (auto split: if_splits)

lemma get_set_other:
  "a \<noteq> b \<Longrightarrow> get_at (set_at v (pre @ a # xs) x) (pre @ b # ys) = get_at v (pre @ b # ys)"
proof (induction pre arbitrary: v)
  case Nil
  then show ?case by (cases v) auto
next
  case (Cons i pre)
  then show ?case by (cases v) auto
qed

lemma get_set_diverge:
  "diverge is js \<or> diverge js is \<Longrightarrow> get_at (set_at v is x) js = get_at v js"
  by (auto simp: diverge_def get_set_other)

text \<open>The decoder stores a value of the field's type.\<close>

definition rt_typed :: "rt \<Rightarrow> bool" where
  "rt_typed R \<longleftrightarrow> (\<forall>t v m w. rt_mapDecode R t v m = Some w \<longrightarrow> has_type v t \<longrightarrow> has_type w t)"

lemma SetInt_range: "has_type (SetInt w n) (TInt w)" if "0 < w"
proof -
  have "(2::int) ^ w = 2 * 2 ^ (w - 1)" using that by (cases w) auto
  moreover have "0 \<le> (n + 2 ^ (w - 1)) mod 2 ^ w" "(n + 2 ^ (w - 1)) mod 2 ^ w < 2 ^ w" by simp_all
  ultimately show ?thesis by (simp add: SetInt_def)
qed

lemma SetInt_exact: "SetInt w n = VInt n \<longleftrightarrow> - (2 ^ (w - 1)) \<le> n \<and> n < 2 ^ (w - 1)" if "0 < w"
proof -
  have w: "(2::int) ^ w = 2 * 2 ^ (w - 1)" using that by (cases w) auto
  have "(n + 2 ^ (w - 1)) mod 2 ^ w = n + 2 ^ (w - 1) \<longleftrightarrow> 0 \<le> n + 2 ^ (w - 1) \<and> n + 2 ^ (w - 1) < 2 ^ w"
    by (metis mod_pos_pos_trivial pos_mod_bound pos_mod_sign zero_less_numeral zero_less_power)
  then show ?thesis using w by (auto simp: SetInt_def)
qed

fun int_widths :: "gtype \<Rightarrow> bool" where
  "int_widths (TInt w) = (0 < w)"
| "int_widths _ = True"

lemma decodeScalar_typed:
  assumes "decodeScalar R spec raw = Inr v" "int_widths (sp_Type spec)"
  shows "has_type v (sp_Type spec)"
proof -
  have "has_type (SetInt 64 d) TDuration" for d using SetInt_range [of 64 d] by (simp add: SetInt_def)
  then show ?thesis using assms SetInt_range
    by (cases "sp_Type spec") (auto simp: decodeScalar_def Let_def is_secret_def SetUint_def split: option.splits)
qed

lemma setField_spec:
  assumes "setField R root spec raw = Inr root'"
  shows "\<exists>fv v. get_at root (sp_Index spec) = Some fv \<and> root' = set_at root (sp_Index spec) v
    \<and> (if sp_Flatten spec \<noteq> [] then decodeFlatten R fv spec raw else decodeScalar R spec raw) = Inr v"
  using assms by (auto simp: setField_def split: option.splits sum.splits)

lemma setField_typed:
  assumes "setField R root spec raw = Inr root'" "has_type root t" "type_at t (sp_Index spec) = Some (sp_Type spec)"
    "rt_typed R" "int_widths (sp_Type spec)"
  shows "has_type root' t"
proof -
  obtain fv v where fv: "get_at root (sp_Index spec) = Some fv" and r: "root' = set_at root (sp_Index spec) v"
    and d: "(if sp_Flatten spec \<noteq> [] then decodeFlatten R fv spec raw else decodeScalar R spec raw) = Inr v"
    using setField_spec [OF assms(1)] by blast
  have "has_type fv (sp_Type spec)" using get_at_typed [OF assms(2,3)] fv by auto
  then have "has_type v (sp_Type spec)"
    using d decodeScalar_typed [OF _ assms(5)] assms(4)
    by (auto simp: decodeFlatten_def rt_typed_def split: if_splits sum.splits option.splits)
  then show ?thesis using set_at_typed [OF assms(2,3)] r by simp
qed

subsection \<open>Versions of derived fields\<close>

definition derivedVersionMaxDepth :: nat where "derivedVersionMaxDepth = 32"

definition dec_of_int :: "int \<Rightarrow> string" where
  "dec_of_int n = (if n < 0 then CHR ''-'' # dec_of_nat (nat (- n)) else dec_of_nat (nat n))"

definition appendLenBytes :: "bytes \<Rightarrow> bytes" where
  "appendLenBytes b = dec_of_nat (length b) @ '':'' @ b"

definition slice_bytes :: "bytes option \<Rightarrow> bytes" where
  "slice_bytes b = (case b of None \<Rightarrow> [] | Some x \<Rightarrow> x)"

definition at_depth :: "nat \<Rightarrow> bytes \<Rightarrow> bytes" where
  "at_depth d b = (if d > derivedVersionMaxDepth then ''trunc'' else b)"

definition elem_type :: "gtype \<Rightarrow> gtype" where
  "elem_type t = (case t of TPtr u \<Rightarrow> u | TSlice u \<Rightarrow> u | TMap k u \<Rightarrow> u | _ \<Rightarrow> TIface)"

definition key_type :: "gtype \<Rightarrow> gtype" where
  "key_type t = (case t of TMap k u \<Rightarrow> k | _ \<Rightarrow> TIface)"

definition struct_fields :: "gtype \<Rightarrow> gfield list" where
  "struct_fields t = (case t of TStruct _ fs \<Rightarrow> fs | _ \<Rightarrow> [])"

definition other_kind :: "gtype \<Rightarrow> string" where
  "other_kind t = (case t of TOther k \<Rightarrow> k | _ \<Rightarrow> [])"

text \<open>
  The canonical encoding of a value of a type; \<open>ok\<close> says whether the value may be read through
  \<^verbatim>\<open>Interface\<close>, which decides how a secret is entered. Each clause yields the bytes the code
  appends to its accumulator.
\<close>

type_synonym canonical = "rt \<Rightarrow> nat \<Rightarrow> bool \<Rightarrow> gtype \<Rightarrow> bytes"

fun canonical_fields :: "rt \<Rightarrow> nat \<Rightarrow> bool \<Rightarrow> gfield list \<Rightarrow> canonical list \<Rightarrow> bytes" where
  "canonical_fields R d ok (f # fs) (c # cs) =
     f_Name f @ ''='' @ c R (Suc d) (ok \<and> f_Exported f) (f_Type f) @ '';'' @ canonical_fields R d ok fs cs"
| "canonical_fields R d ok _ _ = []"

primrec appendCanonical :: "gval \<Rightarrow> canonical" where
  "appendCanonical (VSecret b) = (\<lambda>R d ok t. at_depth d (if ok then ''s'' @ appendLenBytes (slice_bytes b)
     else ''{b='' @ at_depth (Suc d) (case b of None \<Rightarrow> ''nil'' | Some x \<Rightarrow> ''b'' @ appendLenBytes x) @ '';}''))"
| "appendCanonical (VPtr p) = (\<lambda>R d ok t. at_depth d (case map_option appendCanonical p of
      None \<Rightarrow> ''nil'' | Some c \<Rightarrow> ''*'' @ c R (Suc d) ok (elem_type t)))"
| "appendCanonical (VIface p) = (\<lambda>R d ok t. at_depth d (case map_option (map_prod id appendCanonical) p of
      None \<Rightarrow> ''nil'' | Some (u, c) \<Rightarrow> ''*'' @ appendLenBytes (rt_typeString R u) @ c R (Suc d) ok u))"
| "appendCanonical (VStruct vs) = (\<lambda>R d ok t. at_depth d
      (''{'' @ canonical_fields R d ok (struct_fields t) (map appendCanonical vs) @ ''}''))"
| "appendCanonical (VBytes b) = (\<lambda>R d ok t. at_depth d (case b of None \<Rightarrow> ''nil'' | Some x \<Rightarrow> ''b'' @ appendLenBytes x))"
| "appendCanonical (VSlice p) = (\<lambda>R d ok t. at_depth d (case map_option (map appendCanonical) p of
      None \<Rightarrow> ''nil''
    | Some cs \<Rightarrow> ''['' @ concat (map (\<lambda>c. c R (Suc d) ok (elem_type t) @ '';'') cs) @ '']''))"
| "appendCanonical (VMap p) = (\<lambda>R d ok t. at_depth d (case map_option (map (map_prod appendCanonical appendCanonical)) p of
      None \<Rightarrow> ''nil''
    | Some cs \<Rightarrow> ''m['' @ concat (map (\<lambda>e. e @ '';'') (sort (map (\<lambda>(a, b).
          a R (Suc d) ok (key_type t) @ ''='' @ b R (Suc d) ok (elem_type t)) cs))) @ '']''))"
| "appendCanonical (VString s) = (\<lambda>R d ok t. at_depth d (''s'' @ appendLenBytes s))"
| "appendCanonical (VBool b) = (\<lambda>R d ok t. at_depth d (if b then ''true'' else ''false''))"
| "appendCanonical (VInt n) = (\<lambda>R d ok t. at_depth d (dec_of_int n))"
| "appendCanonical (VUint n) = (\<lambda>R d ok t. at_depth d (dec_of_nat n))"
| "appendCanonical (VFloat x) = (\<lambda>R d ok t. at_depth d (rt_AppendFloat R x))"
| "appendCanonical VOther = (\<lambda>R d ok t. at_depth d (other_kind t))"

definition canonicalBytes :: "rt \<Rightarrow> gtype \<Rightarrow> gval \<Rightarrow> bytes" where
  "canonicalBytes R t v = (case v of
     VSecret b \<Rightarrow> slice_bytes b
   | VString s \<Rightarrow> s
   | VBytes (Some b) \<Rightarrow> b
   | _ \<Rightarrow> appendCanonical v R 0 True t)"

definition derivedVersion :: "rt \<Rightarrow> gtype \<times> gval \<times> bool \<Rightarrow> string" where
  "derivedVersion R x = (case x of (t, v, ok) \<Rightarrow> if \<not> ok then [] else VersionHash (canonicalBytes R t v))"

subsection \<open>Integers in decimal\<close>

lemma hd_of_nat_digit: "is_digit (hd (dec_of_nat n))" "is_digit (last (dec_of_nat n))"
  by (rule dec_of_nat_digits [of _ n], simp)+

lemma dec_of_int_edges: "graphic (hd (dec_of_int n)) \<and> graphic (last (dec_of_int n)) \<and> dec_of_int n \<noteq> []"
  using hd_of_nat_digit [of "nat n"] hd_of_nat_digit [of "nat (- n)"]
  by (auto simp: dec_of_int_def graphic_def is_digit_def code_def)

lemma trim_dec_of_int: "trim_space (dec_of_int n) = dec_of_int n"
  using dec_of_int_edges [of n] by (intro trim_space_trimmed graphic_trimmed) auto

lemma dec_of_nat_all_digits: "list_all is_digit (dec_of_nat n)"
  by (auto simp: list_all_iff dest: dec_of_nat_digits)

lemma ParseInt64_dec_of_int:
  assumes "- (2 ^ 63) \<le> n" "n < 2 ^ 63"
  shows "ParseInt64 (dec_of_int n) = Some n"
proof (cases "n < 0")
  case True
  then show ?thesis using assms
    by (simp add: ParseInt64_def dec_of_int_def dec_of_nat_all_digits nat_of_dec_dec_of_nat)
next
  case False
  have "hd (dec_of_nat (nat n)) \<noteq> CHR ''-''" "hd (dec_of_nat (nat n)) \<noteq> CHR ''+''"
    using hd_of_nat_digit [of "nat n"] by (auto simp: is_digit_def code_def)
  then show ?thesis using False assms
    by (simp add: ParseInt64_def dec_of_int_def dec_of_nat_all_digits nat_of_dec_dec_of_nat)
qed

subsection \<open>Properties\<close>

text \<open>
  Every specification \<^verbatim>\<open>fieldSpecs\<close> returns is well formed: its chain is not empty,
  \<^verbatim>\<open>onfail:"default"\<close> comes with a default, it is sensitive exactly for secret types, a struct
  with a source has a flatten tag, and its index leads to a field of its type. Specifications come
  in declaration order, no field is written by two of them, and their paths are distinct.
\<close>

lemma fieldSpecs_sound:
  assumes "fieldSpecs R t vars = Inr specs" and "named_type t"
  shows "(\<forall>s\<in>set specs. spec_wf s \<and> type_at t (sp_Index s) = Some (sp_Type s))
    \<and> sorted_wrt (\<lambda>s s'. diverge (sp_Index s) (sp_Index s')) specs \<and> distinct (map sp_Path specs)"
  using fieldSpecs_wf [OF assms(1)] fieldSpecs_diverge [OF assms(1)] fieldSpecs_distinct_paths [OF assms] by blast

definition demo_type :: gtype where
  "demo_type = TStruct ''Config''
     [GField ''Addr'' True [(''source'', ''env:ADDR''), (''default'', ''x'')] TString,
      GField ''cache'' False [] (TOther ''chan''),
      GField ''Redis'' True []
        (TStruct ''Redis'' [GField ''Port'' True [(''source'', ''env:PORT,file:///port''), (''optional'', ''true'')] (TInt 8)])]"


definition demo_rt :: rt where
  "demo_rt = \<lparr>rt_inflate = (\<lambda>b. Some (b, True)),
     rt_json = \<lparr>j_object = (\<lambda>b. None), j_array = (\<lambda>b. None), j_string = (\<lambda>b. None)\<rparr>,
     rt_ParseDuration = (\<lambda>s. None), rt_ParseFloat = (\<lambda>w s. None), rt_AppendFloat = dec_of_int,
     rt_typeString = (\<lambda>t. ''T''), rt_unmarshal = (\<lambda>f b. None), rt_mapDecode = (\<lambda>t v m. None)\<rparr>"

definition demo_specs :: "fieldSpec list" where
  "demo_specs = (case fieldSpecs demo_rt demo_type Map.empty of Inr specs \<Rightarrow> specs | Inl _ \<Rightarrow> [])"

lemma demo_specs_eq: "fieldSpecs demo_rt demo_type Map.empty = Inr demo_specs"
  by code_simp

lemma fieldSpecs_sound_witness:
  "fieldSpecs demo_rt demo_type Map.empty = Inr demo_specs \<and> named_type demo_type \<and> length demo_specs = 2
     \<and> distinct (map sp_Path demo_specs)"
proof -
  have n: "named_type demo_type" by code_simp
  have l: "length demo_specs = 2" by code_simp
  show ?thesis using fieldSpecs_sound [OF demo_specs_eq n] demo_specs_eq n l by blast
qed

text \<open>
  A successful \<^verbatim>\<open>setField\<close> writes the decoded value into its own field, leaves every field
  of another specification as it was, and keeps the config well typed.
\<close>

lemma setField_effect:
  assumes "fieldSpecs R t vars = Inr specs" and "s \<in> set specs" and "has_type root t"
    and "rt_typed R" and "int_widths (sp_Type s)" and "setField R root s raw = Inr root'"
  shows "has_type root' t
    \<and> (sp_Flatten s = [] \<longrightarrow> (\<exists>v. decodeScalar R s raw = Inr v \<and> get_at root' (sp_Index s) = Some v))
    \<and> (\<forall>s'\<in>set specs. s' \<noteq> s \<longrightarrow> get_at root' (sp_Index s') = get_at root (sp_Index s'))"
proof (intro conjI impI ballI)
  note wf = fieldSpecs_wf [OF assms(1,2)]
  show "has_type root' t" using setField_typed [OF assms(6,3) _ assms(4,5)] wf by blast
  obtain fv v where r: "get_at root (sp_Index s) = Some fv" "root' = set_at root (sp_Index s) v"
    "(if sp_Flatten s \<noteq> [] then decodeFlatten R fv s raw else decodeScalar R s raw) = Inr v"
    using setField_spec [OF assms(6)] by blast
  show "\<exists>v. decodeScalar R s raw = Inr v \<and> get_at root' (sp_Index s) = Some v" if "sp_Flatten s = []"
    using r that get_set_same [of root "sp_Index s" v] by simp
  fix s' assume s': "s' \<in> set specs" "s' \<noteq> s"
  have "diverge (sp_Index s) (sp_Index s') \<or> diverge (sp_Index s') (sp_Index s)"
    using sorted_wrt_either [OF fieldSpecs_diverge [OF assms(1)] assms(2) s'(1)] s'(2) by blast
  then show "get_at root' (sp_Index s') = get_at root (sp_Index s')" using r(2) get_set_diverge by blast
qed

lemma setField_effect_witness:
  "\<exists>root'. setField demo_rt (zero_val demo_type) (demo_specs ! 1) '' 42 '' = Inr root'
     \<and> has_type root' demo_type \<and> get_at root' [2, 0] = Some (VInt 42) \<and> get_at root' [0] = Some (VString [])"
proof -
  let ?s = "demo_specs ! 1"
  let ?r = "set_at (zero_val demo_type) [2, 0] (VInt 42)"
  have s: "?s \<in> set demo_specs" by (rule nth_mem) code_simp
  have r: "setField demo_rt (zero_val demo_type) ?s '' 42 '' = Inr ?r" by code_simp
  have i: "int_widths (sp_Type ?s)" by code_simp
  have t: "rt_typed demo_rt" by (simp add: rt_typed_def demo_rt_def)
  have g: "get_at ?r [2, 0] = Some (VInt 42)" "get_at ?r [0] = Some (VString [])" by code_simp+
  show ?thesis using setField_effect [OF demo_specs_eq s zero_val_typed(1) t i r] r g by blast
qed

text \<open>
  A decimal integer in an integer field is accepted whenever it fits 64 bits, whatever the
  width of the field: the stored number is the written one exactly when it fits the field, and its
  residue in the field's range otherwise. An \<^verbatim>\<open>int8\<close> field given 300 holds 44.
\<close>

lemma decodeScalar_int:
  assumes "sp_Type spec = TInt w" and "0 < w" and "- (2 ^ 63) \<le> n" and "n < 2 ^ 63"
  shows "\<exists>m. decodeScalar R spec (dec_of_int n) = Inr (VInt m) \<and> has_type (VInt m) (TInt w)
    \<and> (m - n) mod 2 ^ w = 0 \<and> (m = n \<longleftrightarrow> - (2 ^ (w - 1)) \<le> n \<and> n < 2 ^ (w - 1))"
proof -
  let ?m = "(n + 2 ^ (w - 1)) mod 2 ^ w - 2 ^ (w - 1)"
  have d: "decodeScalar R spec (dec_of_int n) = Inr (SetInt w n)"
    by (simp add: decodeScalar_def assms(1) ParseInt64_dec_of_int [OF assms(3,4)] trim_dec_of_int)
  have "(?m - n) mod 2 ^ w = 0" by (metis (no_types, opaque_lifting) add_diff_cancel_left' diff_diff_eq2 mod_0 mod_diff_left_eq diff_self diff_add_eq diff_diff_eq)
  then show ?thesis using d SetInt_range [OF assms(2), of n] SetInt_exact [OF assms(2), of n]
    by (simp add: SetInt_def)
qed

lemma decodeScalar_int_witness:
  "sp_Type (demo_specs ! 1) = TInt 8 \<and> decodeScalar demo_rt (demo_specs ! 1) ''300'' = Inr (VInt 44)
     \<and> (\<exists>m. decodeScalar demo_rt (demo_specs ! 1) (dec_of_int 300) = Inr (VInt m) \<and> m \<noteq> 300)"
proof -
  have t: "sp_Type (demo_specs ! 1) = TInt 8" by code_simp
  have d: "decodeScalar demo_rt (demo_specs ! 1) ''300'' = Inr (VInt 44)" by code_simp
  show ?thesis using decodeScalar_int [OF t, of 300 demo_rt] t d by force
qed

text \<open>
  The version of a derived byte-slice field does not separate a nil slice from the three bytes
  \<^verbatim>\<open>nil\<close>, so a derived field can change while both its versions are equal.
\<close>

lemma derivedVersion_nil_collision:
  "derivedVersion R (TByteSlice, VBytes None, True) = derivedVersion R (TByteSlice, VBytes (Some ''nil''), True)"
  by (simp add: derivedVersion_def canonicalBytes_def at_depth_def derivedVersionMaxDepth_def)

end
