(* ===== verification/Resolve.thy ===== *)
theory Resolve
  imports Chains Specs
begin

text \<open>
  \<^verbatim>\<open>resolve.go\<close> and \<^verbatim>\<open>resolveref.go\<close>: resolving one ref, a precedence chain, a field with its
  default, optional and onfail policies, every field of a config with batching, and a single ref
  string.

  Providers are looked up through \<open>pv\<close>, the function \<^verbatim>\<open>options.provider\<close> computes from the
  per-call providers and the registry. Go's iteration order over the scheme groups is the
  parameter \<open>order\<close>. Metrics, spans and log lines of a resolve are not represented.
\<close>

type_synonym providers = "string \<Rightarrow> provider option"

definition provider_of :: "registry \<Rightarrow> registry \<Rightarrow> providers" where
  "provider_of explicit reg scheme = (case explicit scheme of Some p \<Rightarrow> Some p | None \<Rightarrow> providerFor reg scheme)"

definition defaultValueVersion :: string where "defaultValueVersion = ''default''"

record resolved =
  rs_spec :: fieldSpec
  rs_value :: Value
  rs_found :: bool
  rs_set :: bool

subsection \<open>One ref and one chain\<close>

definition resolveRef :: "rt \<Rightarrow> providers \<Rightarrow> Ref \<Rightarrow> err + Value" where
  "resolveRef R pv ref = (case pv (r_Scheme ref) of
     None \<Rightarrow> Inl (ProviderError (r_Scheme ref) (redactRef ref) (Sentinel ErrInvalid))
   | Some p \<Rightarrow> (case p_Resolve p ref of
        Inl e \<Rightarrow> Inl (ProviderError (r_Scheme ref) (redactRef ref) e)
      | Inr val \<Rightarrow> (case applyDecode (rt_inflate R) ref val of
           Inl e \<Rightarrow> Inl (ProviderError (r_Scheme ref) (redactRef ref) e)
         | Inr val' \<Rightarrow> Inr val')))"

text \<open>The loop of \<^verbatim>\<open>resolveChain\<close>: the position that stops the walk and its outcome.\<close>

fun resolve_walk :: "rt \<Rightarrow> providers \<Rightarrow> nat \<Rightarrow> Ref list \<Rightarrow> (nat \<times> (err + Value)) option" where
  "resolve_walk R pv i [] = None"
| "resolve_walk R pv i (ref # refs) = (case resolveRef R pv ref of
      Inr val \<Rightarrow> Some (i, Inr val)
    | Inl e \<Rightarrow> if err_is e ErrNotFound then resolve_walk R pv (Suc i) refs else Some (i, Inl e))"

definition not_found_err :: "Ref list \<Rightarrow> err" where
  "not_found_err refs = ProviderError (r_Scheme (hd refs)) (redactRef (hd refs)) (Sentinel ErrNotFound)"

definition resolveChain :: "rt \<Rightarrow> providers \<Rightarrow> Ref list \<Rightarrow> err + (Value \<times> nat)" where
  "resolveChain R pv refs = (case resolve_walk R pv 0 refs of
     Some (i, Inr val) \<Rightarrow> Inr (val, i)
   | Some (i, Inl e) \<Rightarrow> Inl e
   | None \<Rightarrow> Inl (not_found_err refs))"

subsection \<open>One field\<close>

definition default_value :: "fieldSpec \<Rightarrow> Value" where
  "default_value spec = zero_Value\<lparr>v_Bytes := sp_Default spec, v_Sensitive := sp_Sensitive spec,
     v_Version := defaultValueVersion\<rparr>"

definition setResolved :: "resolved \<Rightarrow> Value \<Rightarrow> resolved" where
  "setResolved r val = r\<lparr>rs_value := (if sp_Sensitive (rs_spec r) then val\<lparr>v_Sensitive := True\<rparr> else val),
     rs_found := True, rs_set := True\<rparr>"

definition applyDefault :: "resolved \<Rightarrow> err + resolved" where
  "applyDefault r =
     (if sp_HasDefault (rs_spec r)
      then Inr (r\<lparr>rs_value := default_value (rs_spec r), rs_found := False, rs_set := True\<rparr>)
      else if sp_Optional (rs_spec r) then Inr (r\<lparr>rs_found := False, rs_set := False\<rparr>)
      else Inl (not_found_err (sp_Refs (rs_spec r))))"

definition applyOnFail :: "resolved \<Rightarrow> err \<Rightarrow> err + resolved" where
  "applyOnFail r terminal =
     (if sp_OnFail (rs_spec r) = onFailUseDefault
      then Inr (r\<lparr>rs_value := default_value (rs_spec r), rs_found := False, rs_set := True\<rparr>)
      else Inl terminal)"

definition resolveOne :: "rt \<Rightarrow> providers \<Rightarrow> resolved \<Rightarrow> err + resolved" where
  "resolveOne R pv r = (case resolveChain R pv (sp_Refs (rs_spec r)) of
     Inr (val, _) \<Rightarrow> Inr (setResolved r val)
   | Inl e \<Rightarrow> if err_is e ErrNotFound then applyDefault r else applyOnFail r e)"

subsection \<open>Every field\<close>

text \<open>Replacing one entry of the result slice by what a step makes of it.\<close>

definition at_index :: "('a \<Rightarrow> 'e + 'a) \<Rightarrow> nat \<Rightarrow> 'a list \<Rightarrow> 'e + 'a list" where
  "at_index f i out = (case f (out ! i) of Inl e \<Rightarrow> Inl e | Inr r \<Rightarrow> Inr (out[i := r]))"

definition batch_entry :: "rt \<Rightarrow> string \<Rightarrow> (string \<rightharpoonup> Value) \<Rightarrow> resolved \<Rightarrow> err + resolved" where
  "batch_entry R scheme got r = (let ref = hd (sp_Refs (rs_spec r)) in case got (r_Raw ref) of
     None \<Rightarrow> applyDefault r
   | Some val \<Rightarrow> (case applyDecode (rt_inflate R) ref val of
        Inl e \<Rightarrow> applyOnFail r (ProviderError scheme (redactRef ref) e)
      | Inr dec \<Rightarrow> Inr (setResolved r dec)))"

definition resolveBatchScheme ::
    "rt \<Rightarrow> (Ref list \<Rightarrow> err + (string \<rightharpoonup> Value)) \<Rightarrow> string \<Rightarrow> nat list \<Rightarrow> resolved list \<Rightarrow> err + resolved list" where
  "resolveBatchScheme R bp scheme idxs out =
     (case bp (map (\<lambda>i. hd (sp_Refs (rs_spec (out ! i)))) idxs) of
        Inl e \<Rightarrow> Inl (ProviderError scheme ''batch'' e)
      | Inr got \<Rightarrow> fold_res (at_index (batch_entry R scheme got)) idxs out)"

definition single_of :: "fieldSpec list \<Rightarrow> string \<Rightarrow> nat list" where
  "single_of specs scheme = filter (\<lambda>i. length (sp_Refs (specs ! i)) = 1 \<and> r_Scheme (hd (sp_Refs (specs ! i))) = scheme)
     [0..<length specs]"

definition chained_of :: "fieldSpec list \<Rightarrow> nat list" where
  "chained_of specs = filter (\<lambda>i. length (sp_Refs (specs ! i)) \<noteq> 1) [0..<length specs]"

definition schemes_of :: "fieldSpec list \<Rightarrow> string set" where
  "schemes_of specs = (\<lambda>s. r_Scheme (hd (sp_Refs s))) ` set (filter (\<lambda>s. length (sp_Refs s) = 1) specs)"

definition resolve_scheme :: "rt \<Rightarrow> providers \<Rightarrow> fieldSpec list \<Rightarrow> string \<Rightarrow> resolved list \<Rightarrow> err + resolved list" where
  "resolve_scheme R pv specs scheme out = (case pv scheme of
     None \<Rightarrow> Inl (Errorf ''mamori: no provider registered for scheme'' [])
   | Some p \<Rightarrow> (case p_ResolveBatch p of
        Some bp \<Rightarrow> resolveBatchScheme R bp scheme (single_of specs scheme) out
      | None \<Rightarrow> fold_res (at_index (resolveOne R pv)) (single_of specs scheme) out))"

definition init_resolved :: "fieldSpec \<Rightarrow> resolved" where
  "init_resolved s = \<lparr>rs_spec = s, rs_value = zero_Value, rs_found = False, rs_set = False\<rparr>"

definition resolveAll :: "rt \<Rightarrow> providers \<Rightarrow> string list \<Rightarrow> fieldSpec list \<Rightarrow> err + resolved list" where
  "resolveAll R pv order specs =
     (case fold_res (resolve_scheme R pv specs) order (map init_resolved specs) of
        Inl e \<Rightarrow> Inl e
      | Inr out \<Rightarrow> fold_res (at_index (resolveOne R pv)) (chained_of specs) out)"

subsection \<open>A single ref string\<close>

fun resolve_refs :: "rt \<Rightarrow> providers \<Rightarrow> nat \<Rightarrow> Ref list \<Rightarrow> (nat \<times> (err + Value)) option" where
  "resolve_refs R pv i [] = None"
| "resolve_refs R pv i (r # rs) =
     (if pv (r_Scheme r) = None then Some (i, Inl (UnknownSchemeError (r_Scheme r)))
      else (case resolveRef R pv r of
         Inr val \<Rightarrow> Some (i, Inr val)
       | Inl e \<Rightarrow> if err_is e ErrNotFound then resolve_refs R pv (Suc i) rs else Some (i, Inl e)))"

definition Resolve :: "rt \<Rightarrow> providers \<Rightarrow> err option \<Rightarrow> (string \<rightharpoonup> string) \<Rightarrow> string \<Rightarrow> err + Value" where
  "Resolve R pv ctxErr vars ref = (case ctxErr of
     Some e \<Rightarrow> Inl e
   | None \<Rightarrow> (case expandRefVars ref vars of
        Inl e \<Rightarrow> Inl e
      | Inr expanded \<Rightarrow> (case ParseRefs expanded of
           Inl e \<Rightarrow> Inl e
         | Inr refs \<Rightarrow> (case resolve_refs R pv 0 refs of
              Some (_, r) \<Rightarrow> r
            | None \<Rightarrow> Inl (not_found_err refs)))))"

subsection \<open>The walks are precedence walks\<close>

interpretation rchain: precedence "resolveRef R pv" "resolve_walk R pv" for R pv
  by unfold_locales (auto split: sum.splits)

definition resolve_known :: "rt \<Rightarrow> providers \<Rightarrow> Ref \<Rightarrow> err + Value" where
  "resolve_known R pv r = (if pv (r_Scheme r) = None then Inl (UnknownSchemeError (r_Scheme r)) else resolveRef R pv r)"

interpretation rrefs: precedence "resolve_known R pv" "resolve_refs R pv" for R pv
  by unfold_locales (auto simp: resolve_known_def split: sum.splits if_splits)

subsection \<open>Updating entries independently\<close>

definition upd :: "(nat \<Rightarrow> 'e + 'a) \<Rightarrow> nat set \<Rightarrow> 'a list \<Rightarrow> 'a list \<Rightarrow> bool" where
  "upd f S out out' \<longleftrightarrow> length out' = length out
     \<and> (\<forall>i<length out. if i \<in> S then f i = Inr (out' ! i) else out' ! i = out ! i)"

lemma upd_empty [simp]: "upd f {} out out' \<longleftrightarrow> out' = out"
  by (auto simp: upd_def list_eq_iff_nth_eq)

lemma upd_comp:
  assumes "S \<inter> T = {}"
  shows "(\<exists>mid. upd f S out mid \<and> upd f T mid out') \<longleftrightarrow> upd f (S \<union> T) out out'"
proof
  assume "\<exists>mid. upd f S out mid \<and> upd f T mid out'"
  then obtain mid where m: "upd f S out mid" "upd f T mid out'" by blast
  have "if i \<in> S \<union> T then f i = Inr (out' ! i) else out' ! i = out ! i" if "i < length out" for i
    using m that assms unfolding upd_def by (cases "i \<in> T"; cases "i \<in> S") auto
  then show "upd f (S \<union> T) out out'" using m unfolding upd_def by auto
next
  assume u: "upd f (S \<union> T) out out'"
  let ?mid = "map (\<lambda>i. if i \<in> S then out' ! i else out ! i) [0..<length out]"
  have "upd f S out ?mid" using u by (auto simp: upd_def)
  moreover have "upd f T ?mid out'" using u assms by (auto simp: upd_def)
  ultimately show "\<exists>mid. upd f S out mid \<and> upd f T mid out'" by blast
qed

lemma at_index_upd:
  "i < length out \<Longrightarrow> at_index g i out = Inr out' \<longleftrightarrow> upd (\<lambda>i. g (out ! i)) {i} out out'"
  by (auto simp: at_index_def upd_def nth_list_update list_eq_iff_nth_eq split: sum.splits)

lemma upd_cong: "(\<And>i. i \<in> S \<Longrightarrow> i < length out \<Longrightarrow> f i = g i) \<Longrightarrow> upd f S out out' = upd g S out out'"
  by (auto simp: upd_def)

lemma fold_at_index_upd:
  "distinct is \<Longrightarrow> (\<forall>i\<in>set is. i < length out) \<Longrightarrow> (\<forall>i\<in>set is. g (out ! i) = f i) \<Longrightarrow>
     fold_res (at_index g) is out = Inr out' \<longleftrightarrow> upd f (set is) out out'"
proof (induction "is" arbitrary: out)
  case (Cons i "is")
  have "fold_res (at_index g) (i # is) out = Inr out' \<longleftrightarrow> (\<exists>mid. at_index g i out = Inr mid \<and> fold_res (at_index g) is mid = Inr out')"
    by (auto split: sum.splits)
  also have "\<dots> \<longleftrightarrow> (\<exists>mid. upd f {i} out mid \<and> upd f (set is) mid out')"
  proof (rule ex_cong1)
    fix mid
    have a: "at_index g i out = Inr mid \<longleftrightarrow> upd f {i} out mid"
      using at_index_upd [of i out g mid] upd_cong [of "{i}" out "\<lambda>i. g (out ! i)" f mid] Cons.prems by simp
    have b: "fold_res (at_index g) is mid = Inr out' \<longleftrightarrow> upd f (set is) mid out'" if m: "upd f {i} out mid"
    proof (rule Cons.IH)
      show "\<forall>j\<in>set is. j < length mid" using Cons.prems m by (auto simp: upd_def)
      show "\<forall>j\<in>set is. g (mid ! j) = f j" using Cons.prems m unfolding upd_def by (metis distinct.simps(2) list.set_intros(2) singletonD)
    qed (use Cons.prems in simp)
    show "(at_index g i out = Inr mid \<and> fold_res (at_index g) is mid = Inr out') \<longleftrightarrow> (upd f {i} out mid \<and> upd f (set is) mid out')"
      using a b by blast
  qed
  also have "\<dots> \<longleftrightarrow> upd f (insert i (set is)) out out'"
    using upd_comp [of "{i}" "set is" f out out'] Cons.prems(1) by simp
  finally show ?case by simp
qed auto

subsection \<open>The outcome of a field on its own\<close>

definition group_refs :: "fieldSpec list \<Rightarrow> string \<Rightarrow> Ref list" where
  "group_refs specs scheme = map (\<lambda>i. hd (sp_Refs (specs ! i))) (single_of specs scheme)"

definition field_result :: "rt \<Rightarrow> providers \<Rightarrow> fieldSpec list \<Rightarrow> fieldSpec \<Rightarrow> err + resolved" where
  "field_result R pv specs spec =
     (let scheme = r_Scheme (hd (sp_Refs spec)) in
      if length (sp_Refs spec) \<noteq> 1 then resolveOne R pv (init_resolved spec)
      else (case pv scheme of
         None \<Rightarrow> Inl (Errorf ''mamori: no provider registered for scheme'' [])
       | Some p \<Rightarrow> (case p_ResolveBatch p of
            None \<Rightarrow> resolveOne R pv (init_resolved spec)
          | Some bp \<Rightarrow> (case bp (group_refs specs scheme) of
               Inl e \<Rightarrow> Inl (ProviderError scheme ''batch'' e)
             | Inr got \<Rightarrow> batch_entry R scheme got (init_resolved spec)))))"

lemma single_of_iff:
  "i \<in> set (single_of specs scheme) \<longleftrightarrow> i < length specs \<and> length (sp_Refs (specs ! i)) = 1 \<and> r_Scheme (hd (sp_Refs (specs ! i))) = scheme"
  by (auto simp: single_of_def)

lemma distinct_groups [simp]: "distinct (single_of specs scheme)" "distinct (chained_of specs)"
  by (simp_all add: single_of_def chained_of_def)

lemma upd_fail: "i \<in> S \<Longrightarrow> i < length out \<Longrightarrow> f i = Inl e \<Longrightarrow> \<not> upd f S out out'"
  by (auto simp: upd_def)

lemma resolve_scheme_upd:
  assumes len: "length out = length specs" and sch: "scheme \<in> schemes_of specs"
    and init: "\<forall>i\<in>set (single_of specs scheme). out ! i = init_resolved (specs ! i)"
  shows "resolve_scheme R pv specs scheme out = Inr out'
    \<longleftrightarrow> upd (\<lambda>i. field_result R pv specs (specs ! i)) (set (single_of specs scheme)) out out'"
proof -
  let ?f = "\<lambda>i. field_result R pv specs (specs ! i)"
  obtain i where i: "i \<in> set (single_of specs scheme)"
    using sch unfolding schemes_of_def single_of_iff by (auto simp: in_set_conv_nth [of _ specs])
  have lt: "\<forall>i\<in>set (single_of specs scheme). i < length out" using len by (simp add: single_of_iff)
  have refs: "map (\<lambda>i. hd (sp_Refs (rs_spec (out ! i)))) (single_of specs scheme) = group_refs specs scheme"
    using init by (simp add: group_refs_def init_resolved_def)
  note fold = fold_at_index_upd [OF distinct_groups(1) lt]
  show ?thesis
  proof (cases "pv scheme")
    case None
    then have "?f i = Inl (Errorf ''mamori: no provider registered for scheme'' [])"
      using i by (simp add: field_result_def single_of_iff)
    then have "\<not> upd ?f (set (single_of specs scheme)) out out'" using upd_fail [OF i, of out ?f] i lt by simp
    then show ?thesis using None by (simp add: resolve_scheme_def)
  next
    case (Some p)
    show ?thesis
    proof (cases "p_ResolveBatch p")
      case None
      have "resolveOne R pv (out ! j) = ?f j" if "j \<in> set (single_of specs scheme)" for j
        using that init Some None by (simp add: field_result_def single_of_iff)
      then show ?thesis using fold [of "resolveOne R pv" ?f] Some None by (simp add: resolve_scheme_def)
    next
      case (Some bp)
      show ?thesis
      proof (cases "bp (group_refs specs scheme)")
        case (Inl e)
        then have "?f i = Inl (ProviderError scheme ''batch'' e)"
          using i \<open>pv scheme = Some p\<close> Some by (simp add: field_result_def single_of_iff)
        then have "\<not> upd ?f (set (single_of specs scheme)) out out'" using upd_fail [OF i, of out ?f] i lt by simp
        then show ?thesis using \<open>pv scheme = Some p\<close> Some Inl
          by (simp add: resolve_scheme_def resolveBatchScheme_def refs)
      next
        case (Inr got)
        have "batch_entry R scheme got (out ! j) = ?f j" if "j \<in> set (single_of specs scheme)" for j
          using that init \<open>pv scheme = Some p\<close> Some Inr by (simp add: field_result_def single_of_iff)
        then show ?thesis using fold [of "batch_entry R scheme got" ?f] \<open>pv scheme = Some p\<close> Some Inr
          by (simp add: resolve_scheme_def resolveBatchScheme_def refs)
      qed
    qed
  qed
qed


lemma schemes_of_I:
  "i < length specs \<Longrightarrow> length (sp_Refs (specs ! i)) = 1 \<Longrightarrow> r_Scheme (hd (sp_Refs (specs ! i))) \<in> schemes_of specs"
  by (simp add: schemes_of_def)

lemma fold_schemes_upd:
  assumes "distinct order" "set order \<subseteq> schemes_of specs" "length out = length specs"
    and "\<forall>s\<in>set order. \<forall>i\<in>set (single_of specs s). out ! i = init_resolved (specs ! i)"
  shows "fold_res (resolve_scheme R pv specs) order out = Inr out'
    \<longleftrightarrow> upd (\<lambda>i. field_result R pv specs (specs ! i)) (\<Union>s\<in>set order. set (single_of specs s)) out out'"
  using assms
proof (induction order arbitrary: out)
  case (Cons sch order)
  let ?f = "\<lambda>i. field_result R pv specs (specs ! i)"
  let ?S = "set (single_of specs sch)" and ?T = "\<Union>s\<in>set order. set (single_of specs s)"
  have disj: "?S \<inter> ?T = {}" using Cons.prems(1) by (auto simp: single_of_iff)
  have "fold_res (resolve_scheme R pv specs) (sch # order) out = Inr out'
     \<longleftrightarrow> (\<exists>mid. resolve_scheme R pv specs sch out = Inr mid \<and> fold_res (resolve_scheme R pv specs) order mid = Inr out')"
    by (auto split: sum.splits)
  also have "\<dots> \<longleftrightarrow> (\<exists>mid. upd ?f ?S out mid \<and> upd ?f ?T mid out')"
  proof (rule ex_cong1)
    fix mid
    have a: "resolve_scheme R pv specs sch out = Inr mid \<longleftrightarrow> upd ?f ?S out mid"
      using resolve_scheme_upd [of out specs sch] Cons.prems by simp
    have b: "fold_res (resolve_scheme R pv specs) order mid = Inr out' \<longleftrightarrow> upd ?f ?T mid out'" if m: "upd ?f ?S out mid"
    proof (rule Cons.IH)
      show "length mid = length specs" using m Cons.prems(3) by (simp add: upd_def)
      show "\<forall>s\<in>set order. \<forall>i\<in>set (single_of specs s). mid ! i = init_resolved (specs ! i)"
      proof (intro ballI)
        fix s i assume s: "s \<in> set order" "i \<in> set (single_of specs s)"
        then have "i \<notin> ?S" "i < length out" using disj Cons.prems(3) by (auto simp: single_of_iff)
        then show "mid ! i = init_resolved (specs ! i)" using m Cons.prems(4) s by (auto simp: upd_def)
      qed
    qed (use Cons.prems in auto)
    show "(resolve_scheme R pv specs sch out = Inr mid \<and> fold_res (resolve_scheme R pv specs) order mid = Inr out')
       \<longleftrightarrow> (upd ?f ?S out mid \<and> upd ?f ?T mid out')" using a b by blast
  qed
  also have "\<dots> \<longleftrightarrow> upd ?f (?S \<union> ?T) out out'" by (rule upd_comp [OF disj])
  finally show ?case by simp
qed auto

lemma upd_all: "upd (\<lambda>i. f (xs ! i)) {..<length xs} (map g xs) out' \<longleftrightarrow> map_res f xs = Inr out'"
proof
  assume u: "upd (\<lambda>i. f (xs ! i)) {..<length xs} (map g xs) out'"
  have "map_res f xs = Inr (map (\<lambda>x. case f x of Inr y \<Rightarrow> y | Inl _ \<Rightarrow> undefined) xs)"
    using u by (intro map_res_Inr_map) (auto simp: upd_def in_set_conv_nth)
  moreover have "map (\<lambda>x. case f x of Inr y \<Rightarrow> y | Inl _ \<Rightarrow> undefined) xs = out'"
    using u by (auto simp: upd_def list_eq_iff_nth_eq)
  ultimately show "map_res f xs = Inr out'" by simp
next
  assume m: "map_res f xs = Inr out'"
  show "upd (\<lambda>i. f (xs ! i)) {..<length xs} (map g xs) out'"
    using map_res_Inr_length [OF m] map_res_Inr_nth [OF m] by (simp add: upd_def)
qed

lemma resolveAll_map:
  assumes "distinct order" "set order = schemes_of specs"
  shows "resolveAll R pv order specs = Inr out \<longleftrightarrow> map_res (field_result R pv specs) specs = Inr out"
proof -
  let ?f = "\<lambda>i. field_result R pv specs (specs ! i)"
  let ?S = "\<Union>s\<in>set order. set (single_of specs s)" and ?T = "set (chained_of specs)"
  let ?init = "map init_resolved specs"
  have S: "?S = {i. i < length specs \<and> length (sp_Refs (specs ! i)) = 1}"
    using assms(2) schemes_of_I [of _ specs] by (auto simp: single_of_iff)
  have T: "?T = {i. i < length specs \<and> length (sp_Refs (specs ! i)) \<noteq> 1}" by (auto simp: chained_of_def)
  have "resolveAll R pv order specs = Inr out \<longleftrightarrow> (\<exists>mid. fold_res (resolve_scheme R pv specs) order ?init = Inr mid
      \<and> fold_res (at_index (resolveOne R pv)) (chained_of specs) mid = Inr out)"
    by (auto simp: resolveAll_def split: sum.splits)
  also have "\<dots> \<longleftrightarrow> (\<exists>mid. upd ?f ?S ?init mid \<and> upd ?f ?T mid out)"
  proof (rule ex_cong1)
    fix mid
    have a: "fold_res (resolve_scheme R pv specs) order ?init = Inr mid \<longleftrightarrow> upd ?f ?S ?init mid"
      using fold_schemes_upd [OF assms(1), of specs ?init] assms(2) by (simp add: single_of_iff)
    have b: "fold_res (at_index (resolveOne R pv)) (chained_of specs) mid = Inr out \<longleftrightarrow> upd ?f ?T mid out"
      if m: "upd ?f ?S ?init mid"
    proof (rule fold_at_index_upd)
      show "\<forall>i\<in>set (chained_of specs). i < length mid" using m T by (auto simp: upd_def)
      show "\<forall>i\<in>set (chained_of specs). resolveOne R pv (mid ! i) = ?f i"
      proof
        fix i assume i: "i \<in> set (chained_of specs)"
        then have "i < length specs" "i \<notin> ?S" "length (sp_Refs (specs ! i)) \<noteq> 1" using S T by auto
        then show "resolveOne R pv (mid ! i) = ?f i" using m by (auto simp: upd_def field_result_def)
      qed
    qed simp
    show "(fold_res (resolve_scheme R pv specs) order ?init = Inr mid \<and> fold_res (at_index (resolveOne R pv)) (chained_of specs) mid = Inr out)
      \<longleftrightarrow> (upd ?f ?S ?init mid \<and> upd ?f ?T mid out)" using a b by blast
  qed
  also have "\<dots> \<longleftrightarrow> upd ?f (?S \<union> ?T) ?init out"
    by (rule upd_comp) (use S T in auto)
  also have "?S \<union> ?T = {..<length specs}" using S T by auto
  also have "upd ?f {..<length specs} ?init out \<longleftrightarrow> map_res (field_result R pv specs) specs = Inr out"
    by (rule upd_all)
  finally show ?thesis .
qed

lemma resolveChain_Inr_iff: "resolveChain R pv refs = Inr (v, i) \<longleftrightarrow> resolve_walk R pv 0 refs = Some (i, Inr v)"
  by (auto simp: resolveChain_def split: option.splits sum.splits)

lemma resolveChain_not_found_iff:
  "(\<exists>e. resolveChain R pv refs = Inl e \<and> err_is e ErrNotFound) \<longleftrightarrow> (\<forall>r\<in>set refs. absent (resolveRef R pv r))"
proof (cases "resolve_walk R pv 0 refs")
  case None
  then show ?thesis using rchain.walk_None_iff [of R pv 0 refs] by (simp add: resolveChain_def not_found_err_def)
next
  case (Some x)
  then obtain j r where x: "resolve_walk R pv 0 refs = Some (j, r)" by (cases x) auto
  then show ?thesis using rchain.walk_None_iff [of R pv 0 refs] rchain.walk_outcome_not_absent [OF x]
    by (cases r) (auto simp: resolveChain_def)
qed

lemma map_res_fails_iff: "(\<exists>e. map_res f xs = Inl e) \<longleftrightarrow> (\<exists>x\<in>set xs. \<exists>e. f x = Inl e)"
  by (induction xs) (auto split: sum.splits)

subsection \<open>Properties\<close>

text \<open>
  C20. \<^verbatim>\<open>resolveChain\<close> is precedence, not failover: it yields the value of the first ref that is
  not absent and its position; a ref failing for any reason but absence stops the walk with that
  error whatever follows it; and it reports not-found exactly when every ref is absent.
\<close>

theorem resolveChain_precedence:
  "(resolveChain R pv refs = Inr (v, i) \<longleftrightarrow>
      i < length refs \<and> resolveRef R pv (refs ! i) = Inr v \<and> (\<forall>k<i. absent (resolveRef R pv (refs ! k))))
   \<and> ((\<exists>e. resolveChain R pv refs = Inl e \<and> err_is e ErrNotFound) \<longleftrightarrow> (\<forall>r\<in>set refs. absent (resolveRef R pv r)))
   \<and> ((\<forall>r\<in>set xs. absent (resolveRef R pv r)) \<longrightarrow> resolveRef R pv ref = Inl e \<longrightarrow> \<not> err_is e ErrNotFound
        \<longrightarrow> resolveChain R pv (xs @ ref # ys) = Inl e)"
proof (intro conjI)
  show "resolveChain R pv refs = Inr (v, i) \<longleftrightarrow>
      i < length refs \<and> resolveRef R pv (refs ! i) = Inr v \<and> (\<forall>k<i. absent (resolveRef R pv (refs ! k)))"
    unfolding resolveChain_Inr_iff rchain.walk_Some_iff by auto
  show "(\<exists>e. resolveChain R pv refs = Inl e \<and> err_is e ErrNotFound) \<longleftrightarrow> (\<forall>r\<in>set refs. absent (resolveRef R pv r))"
    by (rule resolveChain_not_found_iff)
  show "(\<forall>r\<in>set xs. absent (resolveRef R pv r)) \<longrightarrow> resolveRef R pv ref = Inl e \<longrightarrow> \<not> err_is e ErrNotFound
        \<longrightarrow> resolveChain R pv (xs @ ref # ys) = Inl e"
    using rchain.walk_None_iff [of R pv 0 xs] by (auto simp: resolveChain_def rchain.walk_append)
qed

theorem resolveChain_precedence_witness:
  "let dead = \<lparr>r_Scheme = ''dead'', r_Path = [], r_Key = [], r_Opts = [], r_Raw = ''dead:''\<rparr>;
       pv = (\<lambda>s. if s = ''dead'' then Some \<lparr>p_Scheme = s, p_Resolve = (\<lambda>_. Inl (Sentinel ErrUnavailable)), p_ResolveBatch = None\<rparr>
                  else Some \<lparr>p_Scheme = s, p_Resolve = (\<lambda>_. Inl (Sentinel ErrNotFound)), p_ResolveBatch = None\<rparr>)
   in resolveChain demo_rt pv ([dead\<lparr>r_Scheme := ''none''\<rparr>] @ dead # [dead\<lparr>r_Scheme := ''none''\<rparr>])
        = Inl (ProviderError ''dead'' ''dead:'' (Sentinel ErrUnavailable))"
  unfolding Let_def
  by (rule resolveChain_precedence [THEN conjunct2, THEN conjunct2, rule_format])
    (auto simp: resolveRef_def Redacted_def)

text \<open>
  What a field gets from \<^verbatim>\<open>resolveOne\<close>: a value marked found is the chain's winner; the
  default stands in only for genuine absence of every ref, or for an error under an explicit
  \<^verbatim>\<open>onfail:"default"\<close>; an unset field is an optional one whose refs are all absent. No other
  error is ever masked.
\<close>

lemma resolveOne_policy:
  assumes "spec_wf spec" and "resolveOne R pv (init_resolved spec) = Inr r"
  shows "rs_spec r = spec
    \<and> (rs_found r \<longleftrightarrow> (\<exists>v i. resolveChain R pv (sp_Refs spec) = Inr (v, i) \<and> v_Bytes (rs_value r) = v_Bytes v
          \<and> v_Version (rs_value r) = v_Version v))
    \<and> (\<not> rs_found r \<and> rs_set r \<longrightarrow> rs_value r = default_value spec \<and> sp_HasDefault spec
          \<and> ((\<forall>ref\<in>set (sp_Refs spec). absent (resolveRef R pv ref)) \<or> sp_OnFail spec = onFailUseDefault))
    \<and> (\<not> rs_set r \<longrightarrow> sp_Optional spec \<and> \<not> sp_HasDefault spec \<and> (\<forall>ref\<in>set (sp_Refs spec). absent (resolveRef R pv ref)))"
proof (cases "resolveChain R pv (sp_Refs spec)")
  case (Inr x)
  obtain v i where x: "x = (v, i)" by (cases x)
  show ?thesis using assms(2) Inr x by (auto simp: resolveOne_def init_resolved_def setResolved_def)
next
  case (Inl e)
  have "(\<forall>ref\<in>set (sp_Refs spec). absent (resolveRef R pv ref))" if "err_is e ErrNotFound"
    using that Inl resolveChain_not_found_iff by blast
  then show ?thesis using assms Inl
    by (auto simp: resolveOne_def init_resolved_def applyDefault_def applyOnFail_def spec_wf_def split: if_splits)
qed

definition demo_spec :: fieldSpec where
  "demo_spec = \<lparr>sp_Path = ''A'', sp_Refs = [\<lparr>r_Scheme = ''env'', r_Path = ''A'', r_Key = [], r_Opts = [], r_Raw = ''env:A''\<rparr>],
     sp_Default = ''d'', sp_HasDefault = True, sp_Flatten = [], sp_Optional = False, sp_Index = [0],
     sp_Type = TString, sp_Sensitive = False, sp_OnFail = onFailKeepLast\<rparr>"

definition demo_pv :: "(Ref \<Rightarrow> err + Value) \<Rightarrow> providers" where
  "demo_pv f s = (if s = ''env'' then Some \<lparr>p_Scheme = s, p_Resolve = f, p_ResolveBatch = None\<rparr> else None)"

lemma resolveOne_policy_witness:
  "\<exists>r. resolveOne demo_rt (demo_pv (\<lambda>_. Inl (Sentinel ErrNotFound))) (init_resolved demo_spec) = Inr r
     \<and> \<not> rs_found r \<and> rs_set r \<and> rs_value r = default_value demo_spec"
proof -
  have w: "spec_wf demo_spec" by code_simp
  define r where "r = \<lparr>rs_spec = demo_spec, rs_value = default_value demo_spec, rs_found = False, rs_set = True\<rparr>"
  have e: "resolveOne demo_rt (demo_pv (\<lambda>_. Inl (Sentinel ErrNotFound))) (init_resolved demo_spec) = Inr r"
    by (simp add: resolveOne_def resolveChain_def resolveRef_def demo_pv_def demo_spec_def init_resolved_def
        not_found_err_def applyDefault_def r_def default_value_def)
  show ?thesis using resolveOne_policy [OF w e] e by (auto simp: r_def)
qed

text \<open>
  \<^verbatim>\<open>resolveAll\<close> is all-or-nothing and independent of Go's map order: whatever order the
  scheme groups are visited in, it returns exactly the list of the fields' own outcomes when every
  one of them succeeds, and fails otherwise.
\<close>

lemma resolveAll_all_or_nothing:
  assumes "distinct order" and "set order = schemes_of specs"
  shows "(\<forall>out. resolveAll R pv order specs = Inr out \<longleftrightarrow> map_res (field_result R pv specs) specs = Inr out)
    \<and> ((\<exists>e. resolveAll R pv order specs = Inl e) \<longleftrightarrow> (\<exists>s\<in>set specs. \<exists>e. field_result R pv specs s = Inl e))"
  using resolveAll_map [OF assms, of R pv] map_res_fails_iff [of "field_result R pv specs" specs]
  by (metis sum.exhaust sum.distinct(1))

lemma resolveAll_all_or_nothing_witness:
  "distinct [''env''] \<and> set [''env''] = schemes_of [demo_spec]
     \<and> (\<exists>e. resolveAll demo_rt (\<lambda>_. None) [''env''] [demo_spec] = Inl e)"
proof -
  have h: "distinct [''env'']" "set [''env''] = schemes_of [demo_spec]"
    by (simp_all add: schemes_of_def demo_spec_def)
  have f: "\<exists>s\<in>set [demo_spec]. \<exists>e. field_result demo_rt (\<lambda>_. None) [demo_spec] s = Inl e"
    by (simp add: field_result_def demo_spec_def)
  show ?thesis using resolveAll_all_or_nothing [OF h, of demo_rt "\<lambda>_. None"] f h by blast
qed

definition batch_agrees :: "provider \<Rightarrow> Ref list \<Rightarrow> bool" where
  "batch_agrees p refs \<longleftrightarrow> (\<forall>bp. p_ResolveBatch p = Some bp \<longrightarrow> (\<exists>got. bp refs = Inr got \<and>
     (\<forall>r\<in>set refs. case p_Resolve p r of Inr v \<Rightarrow> got (r_Raw r) = Some v
        | Inl e \<Rightarrow> err_is e ErrNotFound \<and> got (r_Raw r) = None)))"

lemma field_result_resolveOne:
  assumes "spec \<in> set specs" and "length (sp_Refs spec) = 1" and "pv (r_Scheme (hd (sp_Refs spec))) = Some p"
    and "batch_agrees p (group_refs specs (r_Scheme (hd (sp_Refs spec))))"
  shows "field_result R pv specs spec = resolveOne R pv (init_resolved spec)"
proof (cases "p_ResolveBatch p")
  case None
  then show ?thesis using assms by (simp add: field_result_def)
next
  case (Some bp)
  obtain ref where ref: "sp_Refs spec = [ref]" using assms(2) by (cases "sp_Refs spec") auto
  have mem: "ref \<in> set (group_refs specs (r_Scheme ref))"
    using assms(1) ref by (auto simp: group_refs_def single_of_iff in_set_conv_nth [of spec] image_iff intro!: bexI)
  obtain got where got: "bp (group_refs specs (r_Scheme ref)) = Inr got"
    "case p_Resolve p ref of Inr v \<Rightarrow> got (r_Raw ref) = Some v | Inl e \<Rightarrow> err_is e ErrNotFound \<and> got (r_Raw ref) = None"
    using assms(4) Some mem ref by (auto simp: batch_agrees_def)
  have spec: "rs_spec (init_resolved spec) = spec" by (simp add: init_resolved_def)
  show ?thesis
  proof (cases "p_Resolve p ref")
    case (Inl e)
    then show ?thesis using got assms(3) Some ref
      by (simp add: field_result_def batch_entry_def resolveOne_def resolveChain_def resolveRef_def spec not_found_err_def)
  next
    case (Inr v)
    then show ?thesis using got assms(3) Some ref applyDecode_err [of "rt_inflate R" ref v]
      by (auto simp: field_result_def batch_entry_def resolveOne_def resolveChain_def resolveRef_def spec
          invalid_not_absent_def split: sum.splits)
  qed
qed

text \<open>
  Batching is transparent: where a batch-capable provider's \<^verbatim>\<open>ResolveBatch\<close> answers as its
  \<^verbatim>\<open>Resolve\<close> would, omitting absent refs, a field resolves to exactly what the unbatched walk
  gives it, default, optional and onfail handling included.
\<close>

lemma batch_transparent:
  assumes "spec \<in> set specs" and "length (sp_Refs spec) = 1" and "pv (r_Scheme (hd (sp_Refs spec))) = Some p"
    and "batch_agrees p (group_refs specs (r_Scheme (hd (sp_Refs spec))))"
  shows "field_result R pv specs spec = resolveOne R pv (init_resolved spec)"
  using assms by (rule field_result_resolveOne)

definition demo_batch :: provider where
  "demo_batch = \<lparr>p_Scheme = ''env'', p_Resolve = (\<lambda>r. if r_Raw r = ''env:A'' then Inr (zero_Value\<lparr>v_Bytes := ''a''\<rparr>) else Inl (Sentinel ErrNotFound)),
     p_ResolveBatch = Some (\<lambda>rs. Inr (\<lambda>k. if k = ''env:A'' then Some (zero_Value\<lparr>v_Bytes := ''a''\<rparr>) else None))\<rparr>"

lemma batch_transparent_witness:
  "p_ResolveBatch demo_batch \<noteq> None \<and> batch_agrees demo_batch (group_refs [demo_spec] ''env'')
     \<and> field_result demo_rt (\<lambda>_. Some demo_batch) [demo_spec] demo_spec
         = resolveOne demo_rt (\<lambda>_. Some demo_batch) (init_resolved demo_spec)"
proof -
  have b: "batch_agrees demo_batch refs" for refs by (auto simp: batch_agrees_def demo_batch_def)
  have s: "demo_spec \<in> set [demo_spec]" "length (sp_Refs demo_spec) = 1" by (simp_all add: demo_spec_def)
  show ?thesis
    using batch_transparent [OF s, of "\<lambda>_. Some demo_batch" demo_batch demo_rt] b by (simp add: demo_batch_def)
qed

text \<open>
  \<^verbatim>\<open>Resolve\<close> on a ref string is the chain walk of \<^verbatim>\<open>Load\<close> over the refs the string denotes,
  when each of their schemes has a provider.
\<close>

lemma Resolve_refines_chain:
  assumes "expandRefVars ref vars = Inr expanded" and "ParseRefs expanded = Inr refs"
    and "\<forall>r\<in>set refs. pv (r_Scheme r) \<noteq> None"
  shows "Resolve R pv None vars ref = map_sum id fst (resolveChain R pv refs)"
proof -
  have "\<forall>r\<in>set rs. pv (r_Scheme r) \<noteq> None \<Longrightarrow> resolve_refs R pv i rs = resolve_walk R pv i rs" for i rs
    by (induction rs arbitrary: i) (auto split: sum.splits)
  then have "resolve_refs R pv 0 refs = resolve_walk R pv 0 refs" using assms(3) by blast
  then show ?thesis using assms(1,2)
    by (auto simp: Resolve_def resolveChain_def split: option.splits sum.splits)
qed

lemma Resolve_refines_chain_witness:
  "Resolve demo_rt (demo_pv (\<lambda>r. Inr (zero_Value\<lparr>v_Bytes := r_Path r\<rparr>))) None [''X'' \<mapsto> ''A''] ''env:${X}''
     = Inr (zero_Value\<lparr>v_Bytes := ''A''\<rparr>)"
proof -
  let ?ref = "\<lparr>r_Scheme = ''env'', r_Path = ''A'', r_Key = [], r_Opts = [], r_Raw = ''env:A''\<rparr>"
  let ?pv = "demo_pv (\<lambda>r. Inr (zero_Value\<lparr>v_Bytes := r_Path r\<rparr>))"
  have e: "expandRefVars ''env:${X}'' [''X'' \<mapsto> ''A''] = Inr ''env:A''" by code_simp
  have p: "ParseRefs ''env:A'' = Inr [?ref]" by code_simp
  have c: "resolveChain demo_rt ?pv [?ref] = Inr (zero_Value\<lparr>v_Bytes := ''A''\<rparr>, 0)"
    by (simp add: resolveChain_def resolveRef_def demo_pv_def applyDecode_none Opt_def)
  show ?thesis using Resolve_refines_chain [OF e p, of ?pv demo_rt] c by (simp add: demo_pv_def)
qed

text \<open>
  A ref whose scheme has no provider is not classified the same everywhere: the chain walk and
  \<^verbatim>\<open>Resolve\<close> report it as invalid, while \<^verbatim>\<open>resolveAll\<close> on a single-ref field wraps no sentinel,
  so its error is of unknown kind.
\<close>

lemma unknown_scheme_kinds:
  assumes "sp_Refs spec = [ref]" and "pv (r_Scheme ref) = None"
  shows "(\<exists>e. resolveAll R pv [r_Scheme ref] [spec] = Inl e \<and> ErrorKind (Some e) = KindUnknown)
    \<and> (\<exists>e. resolveChain R pv [ref] = Inl e \<and> ErrorKind (Some e) = KindInvalid)
    \<and> (\<exists>e. resolve_refs R pv 0 [ref] = Some (0, Inl e) \<and> ErrorKind (Some e) = KindInvalid)"
  using assms
  by (simp add: resolveAll_def resolve_scheme_def resolveChain_def resolveRef_def ErrorKind_def kindSentinels_def)

lemma unknown_scheme_kinds_witness:
  "\<exists>e. resolveAll demo_rt (\<lambda>_. None) [''env''] [demo_spec] = Inl e \<and> ErrorKind (Some e) = KindUnknown"
  using unknown_scheme_kinds [of demo_spec "hd (sp_Refs demo_spec)" "\<lambda>_. None" demo_rt]
  by (simp add: demo_spec_def)

end
