(* ===== verification/Bootstrap.thy ===== *)
theory Bootstrap
  imports Resolve "HOL-Library.Multiset"
begin

text \<open>
  \<^verbatim>\<open>bootstrap.go\<close>, \<^verbatim>\<open>bootstrapfile.go\<close>, \<^verbatim>\<open>bootstrapfingerprint.go\<close> and the load side of
  \<^verbatim>\<open>bootstrapstore.go\<close>: the encrypted snapshot a cold start falls back to.

  AES-GCM, SHA-256 and the JSON text of a snapshot are library code, collected in the record
  \<^verbatim>\<open>crypto\<close>; \<open>aead_ok\<close> and \<open>json_ok\<close> state what the program relies on of them. The file system is a map from
  names to a mode and contents; the outcome of each system call of a write is an argument, so
  every point at which it can fail, or the process can die, is covered.
\<close>

subsection \<open>Configuration\<close>

record bootstrapConfig =
  bc_path :: string
  bc_key :: bytes
  bc_maxAge :: duration
  bc_err :: "err option"

definition DefaultBootstrapMaxAge :: duration where "DefaultBootstrapMaxAge = 24 * 3600 * second"

definition BootstrapMaxAge :: "duration \<Rightarrow> bootstrapConfig \<Rightarrow> bootstrapConfig" where
  "BootstrapMaxAge d c = c\<lparr>bc_maxAge := d\<rparr>"

text \<open>\<^verbatim>\<open>newGCM\<close> can fail only on the key's length: AES and GCM accept every 32-byte key.\<close>

definition newGCM :: "bytes \<Rightarrow> err option" where
  "newGCM key = (if length key \<noteq> 32 then Some (Errorf ''mamori: bootstrap cache key'' [Sentinel ErrInvalid]) else None)"

definition WithBootstrapCache :: "string \<Rightarrow> bytes \<Rightarrow> (bootstrapConfig \<Rightarrow> bootstrapConfig) list \<Rightarrow> bootstrapConfig" where
  "WithBootstrapCache path key opts =
     (let c = fold (\<lambda>opt c. opt c) opts \<lparr>bc_path = path, bc_key = key, bc_maxAge = DefaultBootstrapMaxAge, bc_err = None\<rparr>
      in if bc_path c = [] then c\<lparr>bc_err := Some (Errorf ''mamori: WithBootstrapCache path is required'' [Sentinel ErrInvalid])\<rparr>
         else if bc_maxAge c < 0 then c\<lparr>bc_err := Some (Errorf ''mamori: BootstrapMaxAge is negative'' [Sentinel ErrInvalid])\<rparr>
         else (case newGCM (bc_key c) of Some e \<Rightarrow> c\<lparr>bc_err := Some e\<rparr> | None \<Rightarrow> c))"

subsection \<open>The snapshot document\<close>

record snapshotRecord =
  sr_Path :: path
  sr_Ref :: string
  sr_Bytes :: bytes
  sr_ValueVersion :: string
  sr_Sensitive :: bool
  sr_NotAfter :: instant
  sr_Metadata :: "(string \<times> string) list"

record snapshot =
  sn_Version :: nat
  sn_WrittenAt :: instant
  sn_Fingerprint :: string
  sn_Records :: "snapshotRecord list"

record crypto =
  c_seal :: "bytes \<Rightarrow> bytes \<Rightarrow> bytes \<Rightarrow> bytes"
  c_open :: "bytes \<Rightarrow> bytes \<Rightarrow> bytes \<Rightarrow> bytes option"
  c_marshal :: "snapshot \<Rightarrow> bytes option"
  c_unmarshal :: "bytes \<Rightarrow> snapshot option"
  c_sha256 :: "bytes \<Rightarrow> bytes"

definition aead_ok :: "crypto \<Rightarrow> bool" where
  "aead_ok C \<longleftrightarrow> (\<forall>k n p. c_open C k n (c_seal C k n p) = Some p)"

definition json_ok :: "crypto \<Rightarrow> snapshot \<Rightarrow> bool" where
  "json_ok C s \<longleftrightarrow> (\<exists>b. c_marshal C s = Some b \<and> c_unmarshal C b = Some s)"

definition snapshotFormatVersion :: nat where "snapshotFormatVersion = 1"

definition nonceSize :: nat where "nonceSize = 12"

text \<open>\<open>nonce\<close> is what \<^verbatim>\<open>rand.Read\<close> produced, \<open>None\<close> when it failed.\<close>

definition sealSnapshot :: "crypto \<Rightarrow> bytes option \<Rightarrow> snapshot \<Rightarrow> bytes \<Rightarrow> err + bytes" where
  "sealSnapshot C nonce s key = (case c_marshal C s of
     None \<Rightarrow> Inl (Errorf ''mamori: encoding bootstrap snapshot'' [Sentinel ErrInvalid, Opaque ''json''])
   | Some plain \<Rightarrow> (case newGCM key of
        Some e \<Rightarrow> Inl e
      | None \<Rightarrow> (case nonce of
           None \<Rightarrow> Inl (Errorf ''mamori: bootstrap snapshot nonce'' [Sentinel ErrUnavailable, Opaque ''rand''])
         | Some n \<Rightarrow> Inr (n @ c_seal C key n plain))))"

definition openSnapshot :: "crypto \<Rightarrow> bytes \<Rightarrow> bytes \<Rightarrow> err + snapshot" where
  "openSnapshot C b key = (case newGCM key of
     Some e \<Rightarrow> Inl e
   | None \<Rightarrow>
      if length b < nonceSize then Inl (Errorf ''mamori: bootstrap snapshot is truncated'' [Sentinel ErrInvalid])
      else (case c_open C key (take nonceSize b) (drop nonceSize b) of
         None \<Rightarrow> Inl (Errorf ''mamori: bootstrap snapshot did not authenticate'' [Sentinel ErrInvalid])
       | Some plain \<Rightarrow> (case c_unmarshal C plain of
            None \<Rightarrow> Inl (Errorf ''mamori: bootstrap snapshot is not valid JSON'' [Sentinel ErrInvalid, Opaque ''json''])
          | Some s \<Rightarrow>
             if sn_Version s \<noteq> snapshotFormatVersion
             then Inl (Errorf ''mamori: bootstrap snapshot format version'' [Sentinel ErrInvalid])
             else if time_is_zero (sn_WrittenAt s)
             then Inl (Errorf ''mamori: bootstrap snapshot carries no write time'' [Sentinel ErrInvalid])
             else Inr s)))"

subsection \<open>The file\<close>

type_synonym disk = "string \<rightharpoonup> nat \<times> bytes"

datatype write_stage = CreateTemp | Chmod | Write | Sync | CloseFile | Rename

text \<open>
  \<open>writeSnapshotFile\<close> yields its result and every state the disk goes through, the last being the
  one it returns with. \<open>fault\<close> is the call that fails, \<open>tmp\<close> the name \<^verbatim>\<open>os.CreateTemp\<close> chose and
  \<open>n\<close> how much of the data a torn or failing write leaves behind.
\<close>

definition unavailable :: "string \<Rightarrow> err" where
  "unavailable m = Errorf m [Sentinel ErrUnavailable, Opaque m]"

definition writeSnapshotFile ::
    "write_stage option \<Rightarrow> nat \<Rightarrow> string \<Rightarrow> string \<Rightarrow> bytes \<Rightarrow> disk \<Rightarrow> err option \<times> disk list" where
  "writeSnapshotFile fault n tmp path b d0 =
     (let d1 = d0(tmp \<mapsto> (384, []));
          torn = d0(tmp \<mapsto> (384, take n b));
          d2 = d0(tmp \<mapsto> (384, b));
          clean = d0(tmp := None);
          done = d0(tmp := None, path \<mapsto> (384, b))
      in case fault of
           Some CreateTemp \<Rightarrow> (Some (unavailable ''mamori: creating bootstrap snapshot''), [d0])
         | Some Chmod \<Rightarrow> (Some (unavailable ''mamori: securing bootstrap snapshot''), [d0, d1, clean])
         | Some Write \<Rightarrow> (Some (unavailable ''mamori: writing bootstrap snapshot''), [d0, d1, torn, clean])
         | Some Sync \<Rightarrow> (Some (unavailable ''mamori: syncing bootstrap snapshot''), [d0, d1, torn, d2, clean])
         | Some CloseFile \<Rightarrow> (Some (unavailable ''mamori: closing bootstrap snapshot''), [d0, d1, torn, d2, clean])
         | Some Rename \<Rightarrow> (Some (unavailable ''mamori: replacing bootstrap snapshot''), [d0, d1, torn, d2, clean])
         | None \<Rightarrow> (None, [d0, d1, torn, d2, done]))"

subsection \<open>The fingerprint\<close>

definition boolField :: "bool \<Rightarrow> string" where
  "boolField b = (if b then ''1'' else ''0'')"

definition hex_encode :: "bytes \<Rightarrow> string" where
  "hex_encode b = concat (map (\<lambda>c. [hex_digit (code c div 16), hex_digit (code c mod 16)]) b)"

definition fingerprint_line :: "rt \<Rightarrow> fieldSpec \<Rightarrow> string" where
  "fingerprint_line R s = join_with [CHR 0x00] [sp_Path s, join_with '','' (map String_Ref (sp_Refs s)),
     rt_typeString R (sp_Type s), boolField (sp_Sensitive s)]"

definition schemaFingerprint :: "crypto \<Rightarrow> rt \<Rightarrow> fieldSpec list \<Rightarrow> string" where
  "schemaFingerprint C R specs =
     hex_encode (c_sha256 C (concat (map (\<lambda>l. l @ [CHR 0x01]) (sort (map (fingerprint_line R) specs)))))"

subsection \<open>Reading and writing\<close>

record bootstrapOrigin =
  bo_present :: bool
  bo_restored :: bool
  bo_writtenAt :: instant
  bo_resolveErr :: "err option"

definition bootstrapTransient :: "Kind \<Rightarrow> bool" where
  "bootstrapTransient k \<longleftrightarrow> k = KindUnavailable \<or> k = KindRateLimited"

definition bootstrapRecord :: "resolved \<Rightarrow> snapshotRecord" where
  "bootstrapRecord r = \<lparr>sr_Path = sp_Path (rs_spec r),
     sr_Ref = (if sp_Refs (rs_spec r) \<noteq> [] then redactRef (hd (sp_Refs (rs_spec r))) else []),
     sr_Bytes = v_Bytes (rs_value r), sr_ValueVersion = v_Version (rs_value r),
     sr_Sensitive = (v_Sensitive (rs_value r) \<or> sp_Sensitive (rs_spec r)),
     sr_NotAfter = v_NotAfter (rs_value r), sr_Metadata = v_Metadata (rs_value r)\<rparr>"

definition bootstrapRecords :: "resolved list \<Rightarrow> snapshotRecord list" where
  "bootstrapRecords res = map bootstrapRecord (filter rs_set res)"

text \<open>What one attempt to use the disk meets.\<close>

record io =
  io_nonce :: "bytes option"
  io_fault :: "write_stage option"
  io_torn :: nat
  io_tmp :: string
  io_unreadable :: bool

definition snapshot_of :: "crypto \<Rightarrow> rt \<Rightarrow> fieldSpec list \<Rightarrow> resolved list \<Rightarrow> instant \<Rightarrow> snapshot" where
  "snapshot_of C R specs res now = \<lparr>sn_Version = snapshotFormatVersion, sn_WrittenAt = now,
     sn_Fingerprint = schemaFingerprint C R specs, sn_Records = bootstrapRecords res\<rparr>"

definition writeBootstrapSnapshot ::
    "crypto \<Rightarrow> rt \<Rightarrow> io \<Rightarrow> bootstrapConfig \<Rightarrow> fieldSpec list \<Rightarrow> resolved list \<Rightarrow> instant \<Rightarrow> disk \<Rightarrow> err option \<times> disk" where
  "writeBootstrapSnapshot C R w bc specs res now d =
     (case sealSnapshot C (io_nonce w) (snapshot_of C R specs res now) (bc_key bc) of
        Inl e \<Rightarrow> (Some e, d)
      | Inr sealed \<Rightarrow> (case writeSnapshotFile (io_fault w) (io_torn w) (io_tmp w) (bc_path bc) sealed d of
           (e, ds) \<Rightarrow> (e, last ds)))"

text \<open>\<open>persistBootstrap\<close>: the write time, zero on failure; the failure itself, for OnError; the disk.\<close>

definition persistBootstrap ::
    "crypto \<Rightarrow> rt \<Rightarrow> io \<Rightarrow> bootstrapConfig \<Rightarrow> fieldSpec list \<Rightarrow> resolved list \<Rightarrow> instant \<Rightarrow> disk
       \<Rightarrow> instant \<times> err option \<times> disk" where
  "persistBootstrap C R w bc specs res now d =
     (case writeBootstrapSnapshot C R w bc specs res now d of
        (Some e, d') \<Rightarrow> (0, Some e, d')
      | (None, d') \<Rightarrow> (now, None, d'))"

definition readBootstrapSnapshot :: "crypto \<Rightarrow> io \<Rightarrow> bootstrapConfig \<Rightarrow> disk \<Rightarrow> err + snapshot" where
  "readBootstrapSnapshot C w bc d = (case d (bc_path bc) of
     None \<Rightarrow> Inl (Errorf ''mamori: no bootstrap snapshot has been written at the configured path'' [Sentinel ErrUnavailable])
   | Some (mode, b) \<Rightarrow>
      if io_unreadable w
      then Inl (Errorf ''mamori: the bootstrap snapshot exists but could not be read'' [Sentinel ErrUnavailable])
      else openSnapshot C b (bc_key bc))"

text \<open>The record map of a restore; a later record of the same path replaces an earlier one.\<close>

definition by_path :: "snapshotRecord list \<Rightarrow> path \<Rightarrow> snapshotRecord option" where
  "by_path recs = fold (\<lambda>rec m. m(sr_Path rec \<mapsto> rec)) recs Map.empty"

definition lease_expired :: "instant \<Rightarrow> snapshotRecord \<Rightarrow> bool" where
  "lease_expired now rec \<longleftrightarrow> \<not> time_is_zero (sr_NotAfter rec) \<and> \<not> now < sr_NotAfter rec"

definition restore_field :: "(path \<Rightarrow> snapshotRecord option) \<Rightarrow> fieldSpec \<Rightarrow> resolved" where
  "restore_field byPath spec = (case byPath (sp_Path spec) of
     None \<Rightarrow> init_resolved spec
   | Some rec \<Rightarrow> \<lparr>rs_spec = spec,
        rs_value = \<lparr>v_Bytes = sr_Bytes rec, v_Version = sr_ValueVersion rec,
          v_Sensitive = (sr_Sensitive rec \<or> sp_Sensitive spec), v_NotAfter = sr_NotAfter rec, v_Metadata = sr_Metadata rec\<rparr>,
        rs_found = True, rs_set = True\<rparr>)"

definition restoreBootstrap ::
    "crypto \<Rightarrow> rt \<Rightarrow> io \<Rightarrow> bootstrapConfig \<Rightarrow> disk \<Rightarrow> fieldSpec list \<Rightarrow> err \<Rightarrow> instant \<Rightarrow> err + (resolved list \<times> instant)" where
  "restoreBootstrap C R w bc d specs resolveErr now =
     (if \<not> bootstrapTransient (ErrorKind (Some resolveErr))
      then Inl (Errorf ''mamori: the backend answered and refused'' [resolveErr])
      else (case readBootstrapSnapshot C w bc d of
         Inl e \<Rightarrow> Inl (Errorf ''mamori: the bootstrap snapshot is unusable'' [resolveErr, e])
       | Inr s \<Rightarrow>
          if schemaFingerprint C R specs \<noteq> sn_Fingerprint s
          then Inl (Errorf ''mamori: the bootstrap snapshot was written for a different config struct'' [resolveErr, Sentinel ErrInvalid])
          else if list_ex (lease_expired now) (sn_Records s)
          then Inl (Errorf ''mamori: the bootstrap snapshot value expired'' [resolveErr, Sentinel ErrInvalid])
          else Inr (map (restore_field (by_path (sn_Records s))) specs, sn_WrittenAt s)))"

definition bootstrapReplayErr :: "bootstrapOrigin option \<Rightarrow> err \<Rightarrow> err" where
  "bootstrapReplayErr origin e = (case origin of
     None \<Rightarrow> e
   | Some og \<Rightarrow> if \<not> bo_restored og then e
       else Errorf ''mamori: the configuration restored from the bootstrap snapshot was rejected''
              ((case bo_resolveErr og of None \<Rightarrow> [] | Some r \<Rightarrow> [r]) @ [e]))"

subsection \<open>Sealing and opening\<close>

lemma openSnapshot_err: "openSnapshot C b key = Inl e \<Longrightarrow> invalid_not_absent e"
  by (auto simp: openSnapshot_def newGCM_def invalid_not_absent_def split: option.splits if_splits)

lemma open_sealed:
  assumes "aead_ok C" "json_ok C s" "length key = 32" "length n = nonceSize"
    "sn_Version s = snapshotFormatVersion" "sn_WrittenAt s \<noteq> 0"
  shows "\<exists>b. sealSnapshot C (Some n) s key = Inr b \<and> openSnapshot C b key = Inr s"
proof -
  obtain p where p: "c_marshal C s = Some p" "c_unmarshal C p = Some s" using assms(2) by (auto simp: json_ok_def)
  have "sealSnapshot C (Some n) s key = Inr (n @ c_seal C key n p)" using p assms(3) by (simp add: sealSnapshot_def newGCM_def)
  moreover have "openSnapshot C (n @ c_seal C key n p) key = Inr s"
    using p assms by (simp add: openSnapshot_def newGCM_def aead_ok_def time_is_zero_def)
  ultimately show ?thesis by blast
qed

subsection \<open>Atomic replacement\<close>

lemma write_states:
  assumes "writeSnapshotFile fault n tmp path b d0 = (e, ds)" "tmp \<noteq> path" "d0 tmp = None" "d \<in> set ds"
  shows "(d path = d0 path \<or> d path = Some (384, b)) \<and> (\<forall>f. f \<noteq> tmp \<longrightarrow> f \<noteq> path \<longrightarrow> d f = d0 f)"
  using assms
  by (auto simp: writeSnapshotFile_def Let_def split: option.splits write_stage.splits)

lemma write_result:
  assumes "writeSnapshotFile fault n tmp path b d0 = (e, ds)" "tmp \<noteq> path" "d0 tmp = None"
  shows "ds \<noteq> [] \<and> (e = None \<longleftrightarrow> fault = None) \<and> last ds = (if e = None then d0(path \<mapsto> (384, b)) else d0)
    \<and> (\<forall>x. e = Some x \<longrightarrow> err_is x ErrUnavailable)"
  using assms
  by (auto simp: writeSnapshotFile_def Let_def unavailable_def fun_upd_idem fun_upd_twist split: option.splits write_stage.splits)

subsection \<open>Restoring\<close>

lemma by_path_snoc: "by_path (xs @ [x]) = (by_path xs)(sr_Path x \<mapsto> x)"
  by (simp add: by_path_def)

lemma by_path_distinct:
  "distinct (map sr_Path recs) \<Longrightarrow> by_path recs p = find (\<lambda>r. sr_Path r = p) recs"
proof (induction recs rule: rev_induct)
  case (snoc r recs)
  have "find (\<lambda>r. sr_Path r = p) (recs @ [r]) = (if sr_Path r = p then Some r else find (\<lambda>r. sr_Path r = p) recs)"
    using snoc.prems by (induction recs) auto
  then show ?case using snoc by (simp add: by_path_snoc)
qed (simp add: by_path_def)

lemma by_path_records:
  assumes "distinct (map (\<lambda>r. sp_Path (rs_spec r)) res)" "r \<in> set res"
  shows "by_path (bootstrapRecords res) (sp_Path (rs_spec r)) = (if rs_set r then Some (bootstrapRecord r) else None)"
proof -
  have d: "distinct (map sr_Path (bootstrapRecords res))"
    using distinct_map_filter [OF assms(1), of rs_set] by (simp add: bootstrapRecords_def bootstrapRecord_def comp_def)
  have "find (\<lambda>x. sr_Path x = sp_Path (rs_spec r)) (bootstrapRecords res) = (if rs_set r then Some (bootstrapRecord r) else None)"
    using assms
  proof (induction res)
    case (Cons x xs)
    show ?case
    proof (cases "r = x")
      case True
      have "find (\<lambda>y. sr_Path y = sp_Path (rs_spec r)) (bootstrapRecords xs) = None"
        using Cons.prems(1) True by (auto simp: find_None_iff bootstrapRecords_def bootstrapRecord_def image_iff)
      then show ?thesis using True by (simp add: bootstrapRecords_def bootstrapRecord_def)
    next
      case False
      then have "r \<in> set xs" "sp_Path (rs_spec x) \<noteq> sp_Path (rs_spec r)" using Cons.prems by auto
      then show ?thesis using Cons.IH Cons.prems(1) by (simp add: bootstrapRecords_def bootstrapRecord_def)
    qed
  qed simp
  then show ?thesis using by_path_distinct [OF d] by simp
qed

text \<open>What a restore gives back for one entry: its value, with the sensitivity of its field folded in.\<close>

definition restored_of :: "resolved \<Rightarrow> resolved" where
  "restored_of r = (if rs_set r then r\<lparr>rs_value := (rs_value r)\<lparr>v_Sensitive := v_Sensitive (rs_value r) \<or> sp_Sensitive (rs_spec r)\<rparr>, rs_found := True\<rparr>
     else init_resolved (rs_spec r))"

lemma restore_field_record:
  assumes "distinct (map (\<lambda>r. sp_Path (rs_spec r)) res)" "r \<in> set res"
  shows "restore_field (by_path (bootstrapRecords res)) (rs_spec r) = restored_of r"
  using by_path_records [OF assms] by (simp add: restore_field_def restored_of_def bootstrapRecord_def)

subsection \<open>Properties\<close>

text \<open>
  Replacing the snapshot file is atomic: in every state the disk passes through, wherever a
  call fails or the process dies, the path holds either its previous contents or the whole new
  document, and no other file is touched. A failed write reports unavailable and leaves the disk
  as it was; a successful one leaves exactly the new document, mode 0600.
\<close>

lemma writeSnapshotFile_atomic:
  assumes "writeSnapshotFile fault n tmp path b d0 = (e, ds)" and "tmp \<noteq> path" and "d0 tmp = None"
  shows "(\<forall>d\<in>set ds. (d path = d0 path \<or> d path = Some (384, b)) \<and> (\<forall>f. f \<noteq> tmp \<longrightarrow> f \<noteq> path \<longrightarrow> d f = d0 f))
    \<and> ds \<noteq> [] \<and> last ds = (if fault = None then d0(path \<mapsto> (384, b)) else d0)
    \<and> (e = None \<longleftrightarrow> fault = None) \<and> (\<forall>x. e = Some x \<longrightarrow> err_is x ErrUnavailable)"
  using write_states [OF assms] write_result [OF assms] by auto

lemma writeSnapshotFile_atomic_witness:
  "last (snd (writeSnapshotFile (Some Sync) 2 ''t'' ''p'' ''new'' [''p'' \<mapsto> (384, ''old'')])) = [''p'' \<mapsto> (384, ''old'')]"
proof -
  let ?r = "writeSnapshotFile (Some Sync) 2 ''t'' ''p'' ''new'' [''p'' \<mapsto> (384, ''old'')]"
  have "?r = (fst ?r, snd ?r)" "''t'' \<noteq> ''p''" "[''p'' \<mapsto> (384, ''old'')] ''t'' = None" by simp_all
  from writeSnapshotFile_atomic [OF this] show ?thesis by simp
qed

text \<open>
  C21. What is written can be restored: after a successful write of resolved values, a restore for
  the same fields during an outage gives back every set field with its bytes, version, expiry,
  metadata and sensitivity, every unset field unset, and the time of the write, as long as no lease
  in it has run out.
\<close>

theorem snapshot_round_trip:
  assumes "aead_ok C" and "json_ok C (snapshot_of C R specs res now)" and "length (bc_key bc) = 32"
    and "io_nonce w = Some n" and "length n = nonceSize" and "io_fault w = None" and "\<not> io_unreadable w"
    and "now \<noteq> 0" and "map rs_spec res = specs" and "distinct (map sp_Path specs)"
    and "bootstrapTransient (ErrorKind (Some outage))"
    and "\<forall>r\<in>set res. rs_set r \<longrightarrow> v_NotAfter (rs_value r) = 0 \<or> later < v_NotAfter (rs_value r)"
  shows "\<exists>d'. persistBootstrap C R w bc specs res now d = (now, None, d')
    \<and> restoreBootstrap C R w bc d' specs outage later = Inr (map restored_of res, now)"
proof -
  let ?s = "snapshot_of C R specs res now"
  obtain b where b: "sealSnapshot C (Some n) ?s (bc_key bc) = Inr b" "openSnapshot C b (bc_key bc) = Inr ?s"
    using open_sealed [OF assms(1,2,3,5)] assms(8) by (auto simp: snapshot_of_def)
  let ?d' = "d(io_tmp w := None, bc_path bc \<mapsto> (384, b))"
  have p: "persistBootstrap C R w bc specs res now d = (now, None, ?d')"
    using b assms(4,6) by (simp add: persistBootstrap_def writeBootstrapSnapshot_def writeSnapshotFile_def)
  have read: "readBootstrapSnapshot C w bc ?d' = Inr ?s"
    using b assms(7) by (simp add: readBootstrapSnapshot_def)
  have live: "\<not> list_ex (lease_expired later) (sn_Records ?s)"
    using assms(12) by (auto simp: list_ex_iff snapshot_of_def bootstrapRecords_def bootstrapRecord_def lease_expired_def time_is_zero_def)
  have dist: "distinct (map (\<lambda>r. sp_Path (rs_spec r)) res)"
    using assms(9,10) by (simp flip: assms(9) add: comp_def)
  have "map (restore_field (by_path (bootstrapRecords res))) specs = map restored_of res"
    using restore_field_record [OF dist] by (simp flip: assms(9))
  then have "restoreBootstrap C R w bc ?d' specs outage later = Inr (map restored_of res, now)"
    using assms(11) read live by (simp add: restoreBootstrap_def snapshot_of_def)
  then show ?thesis using p by blast
qed

definition demo_crypto :: "rt \<Rightarrow> fieldSpec list \<Rightarrow> resolved list \<Rightarrow> instant \<Rightarrow> crypto" where
  "demo_crypto R specs res now = \<lparr>c_seal = (\<lambda>k n p. rev p), c_open = (\<lambda>k n c. Some (rev c)),
     c_marshal = (\<lambda>s. Some ''doc''),
     c_unmarshal = (\<lambda>b. Some \<lparr>sn_Version = 1, sn_WrittenAt = now, sn_Fingerprint = [], sn_Records = bootstrapRecords res\<rparr>),
     c_sha256 = (\<lambda>b. [])\<rparr>"

definition demo_io :: io where
  "demo_io = \<lparr>io_nonce = Some ''0123456789ab'', io_fault = None, io_torn = 0, io_tmp = ''t'', io_unreadable = False\<rparr>"

definition demo_bc :: bootstrapConfig where
  "demo_bc = WithBootstrapCache ''p'' ''0123456789abcdef0123456789abcdef'' []"

definition demo_resolved :: resolved where
  "demo_resolved = \<lparr>rs_spec = demo_spec, rs_value = zero_Value\<lparr>v_Bytes := ''a'', v_NotAfter := 9\<rparr>, rs_found = True, rs_set = True\<rparr>"

theorem snapshot_round_trip_witness:
  "\<exists>C d'. persistBootstrap C demo_rt demo_io demo_bc [demo_spec] [demo_resolved] 5 Map.empty = (5, None, d')
     \<and> restoreBootstrap C demo_rt demo_io demo_bc d' [demo_spec] (Sentinel ErrUnavailable) 8
         = Inr ([restored_of demo_resolved], 5)"
proof -
  let ?C = "demo_crypto demo_rt [demo_spec] [demo_resolved] 5"
  have a: "aead_ok ?C" by (simp add: aead_ok_def demo_crypto_def)
  have j: "json_ok ?C (snapshot_of ?C demo_rt [demo_spec] [demo_resolved] 5)"
    by (simp add: json_ok_def demo_crypto_def snapshot_of_def schemaFingerprint_def hex_encode_def snapshotFormatVersion_def)
  have k: "length (bc_key demo_bc) = 32" by code_simp
  have n: "io_nonce demo_io = Some ''0123456789ab''" "length ''0123456789ab'' = nonceSize" "io_fault demo_io = None"
    "\<not> io_unreadable demo_io" by (simp_all add: demo_io_def nonceSize_def)
  have r: "map rs_spec [demo_resolved] = [demo_spec]" "distinct (map sp_Path [demo_spec])"
    "\<forall>r\<in>set [demo_resolved]. rs_set r \<longrightarrow> v_NotAfter (rs_value r) = 0 \<or> (8::int) < v_NotAfter (rs_value r)"
    by (simp_all add: demo_resolved_def)
  have o: "bootstrapTransient (ErrorKind (Some (Sentinel ErrUnavailable)))" by code_simp
  show ?thesis using snapshot_round_trip [OF a j k n _ r(1,2) o r(3), of Map.empty] by auto
qed

text \<open>
  A restore never overrides a refusal: values come off disk only when the resolve failed with a
  transient kind, the snapshot opened, it was written for this struct and none of its leases has
  expired; every error it returns instead still carries each sentinel of the resolve failure.
\<close>

lemma restoreBootstrap_guarded:
  "(\<forall>res at. restoreBootstrap C R w bc d specs outage now = Inr (res, at) \<longrightarrow>
       ErrorKind (Some outage) \<in> {KindUnavailable, KindRateLimited} \<and> map rs_spec res = specs
       \<and> (\<exists>s. readBootstrapSnapshot C w bc d = Inr s \<and> at = sn_WrittenAt s \<and> at \<noteq> 0 \<and> sn_Version s = 1
            \<and> sn_Fingerprint s = schemaFingerprint C R specs
            \<and> (\<forall>rec\<in>set (sn_Records s). sr_NotAfter rec = 0 \<or> now < sr_NotAfter rec)))
   \<and> (\<forall>e t. restoreBootstrap C R w bc d specs outage now = Inl e \<longrightarrow> err_is outage t \<longrightarrow> err_is e t)"
proof (intro conjI allI impI)
  fix e t assume "restoreBootstrap C R w bc d specs outage now = Inl e" "err_is outage t"
  then show "err_is e t" by (auto simp: restoreBootstrap_def split: if_splits sum.splits)
next
  fix res at assume r: "restoreBootstrap C R w bc d specs outage now = Inr (res, at)"
  then obtain s where s: "readBootstrapSnapshot C w bc d = Inr s" "at = sn_WrittenAt s"
    "sn_Fingerprint s = schemaFingerprint C R specs" "\<not> list_ex (lease_expired now) (sn_Records s)"
    "res = map (restore_field (by_path (sn_Records s))) specs" "bootstrapTransient (ErrorKind (Some outage))"
    by (auto simp: restoreBootstrap_def split: if_splits sum.splits)
  show "ErrorKind (Some outage) \<in> {KindUnavailable, KindRateLimited}" using s(6) by (simp add: bootstrapTransient_def)
  show "map rs_spec res = specs"
    unfolding s(5) by (auto simp: restore_field_def init_resolved_def comp_def split: option.splits intro!: map_idI)
  have "sn_WrittenAt s \<noteq> 0 \<and> sn_Version s = 1"
    using s(1) by (auto simp: readBootstrapSnapshot_def openSnapshot_def time_is_zero_def snapshotFormatVersion_def
        split: option.splits if_splits prod.splits)
  then show "\<exists>s. readBootstrapSnapshot C w bc d = Inr s \<and> at = sn_WrittenAt s \<and> at \<noteq> 0 \<and> sn_Version s = 1
      \<and> sn_Fingerprint s = schemaFingerprint C R specs \<and> (\<forall>rec\<in>set (sn_Records s). sr_NotAfter rec = 0 \<or> now < sr_NotAfter rec)"
    using s by (auto simp: list_ex_iff lease_expired_def time_is_zero_def)
qed

lemma restoreBootstrap_guarded_witness:
  "\<exists>e. restoreBootstrap (demo_crypto demo_rt [] [] 5) demo_rt demo_io demo_bc Map.empty [demo_spec] (Sentinel ErrPermissionDenied) 8 = Inl e
     \<and> err_is e ErrPermissionDenied"
proof -
  let ?C = "demo_crypto demo_rt [] [] 5"
  obtain e where e: "restoreBootstrap ?C demo_rt demo_io demo_bc Map.empty [demo_spec] (Sentinel ErrPermissionDenied) 8 = Inl e"
    by (simp add: restoreBootstrap_def bootstrapTransient_def ErrorKind_def kindSentinels_def)
  have "err_is (Sentinel ErrPermissionDenied) ErrPermissionDenied" by simp
  then show ?thesis
    using restoreBootstrap_guarded [of ?C demo_rt demo_io demo_bc Map.empty "[demo_spec]" "Sentinel ErrPermissionDenied" 8] e by blast
qed

text \<open>
  The schema fingerprint ignores the order of the fields: a struct whose fields were only
  reordered still accepts its snapshot.
\<close>

lemma schemaFingerprint_order:
  assumes "mset specs = mset specs'"
  shows "schemaFingerprint C R specs = schemaFingerprint C R specs'"
proof -
  have "sort (map (fingerprint_line R) specs) = sort (map (fingerprint_line R) specs')"
    using assms by (intro properties_for_sort) (auto simp: mset_map)
  then show ?thesis by (simp add: schemaFingerprint_def)
qed

lemma schemaFingerprint_order_witness:
  "schemaFingerprint (demo_crypto demo_rt [] [] 5) demo_rt [demo_spec, demo_spec\<lparr>sp_Path := ''B''\<rparr>] = schemaFingerprint (demo_crypto demo_rt [] [] 5) demo_rt [demo_spec\<lparr>sp_Path := ''B''\<rparr>, demo_spec]"
  by (rule schemaFingerprint_order) simp

end
