(* ===== verification/Load.thy ===== *)
theory Load
  imports Bootstrap
begin

text \<open>
  \<^verbatim>\<open>reconcile.go\<close> (options, \<^verbatim>\<open>Load\<close>, \<^verbatim>\<open>loadValue\<close>, \<^verbatim>\<open>buildInto\<close>), \<^verbatim>\<open>preapply.go\<close> (the gate) and the
  hook and change types of \<^verbatim>\<open>reconciler.go\<close>.

  A config type parameter \<^verbatim>\<open>T\<close> of the Go code is a \<^typ>\<open>gtype\<close> argument; a hook stored as
  \<^verbatim>\<open>any\<close> carries the type it was written for, which is what the typed assertions compare. The
  validator and the derive hooks are functions of the config; the PreApply hook, which does I/O,
  gives its verdict through the environment \<^verbatim>\<open>env\<close> of the step that runs it, together with the
  clock reading, the providers' answers, the expiry of the hook's context and the state of the
  disk calls. Each step reads the clock once.
\<close>

subsection \<open>Changes and hooks\<close>

record FieldChange =
  fc_Path :: path
  fc_OldVersion :: string
  fc_NewVersion :: string

record Change =
  ch_Old :: gval
  ch_New :: gval
  ch_Fields :: "FieldChange list"

definition Changed :: "Change \<Rightarrow> path \<Rightarrow> bool" where
  "Changed c p = list_ex (\<lambda>f. fc_Path f = p) (ch_Fields c)"

record deriveEntry =
  de_T :: gtype
  de_fn :: "gval \<Rightarrow> err + gval"
  de_writes :: "string list"

record typedDerive =
  td_fn :: "gval \<Rightarrow> err + gval"
  td_writes :: "string list"

subsection \<open>Options\<close>

record options =
  o_providers :: registry
  o_validator :: "gval \<Rightarrow> err option"
  o_pollInterval :: duration
  o_debounce :: duration
  o_queueDepth :: nat
  o_stale :: duration
  o_bootstrap :: "bootstrapConfig option"
  o_backoffBase :: duration
  o_backoffMax :: duration
  o_historyN :: nat
  o_refVars :: "string \<rightharpoonup> string"
  o_preApply :: "gtype option"
  o_preApplyTimeout :: duration
  o_derives :: "deriveEntry list"
  o_onChange :: "gtype option"
  o_onError :: bool

definition defaultPollInterval :: duration where "defaultPollInterval = 30 * second"
definition defaultDebounce :: duration where "defaultDebounce = 500 * millisecond"
definition defaultQueueDepth :: nat where "defaultQueueDepth = 16"
definition defaultPreApplyTimeout :: duration where "defaultPreApplyTimeout = 10 * second"

text \<open>The default validator wraps a third-party package and is an argument.\<close>

definition defaultOptions :: "(gval \<Rightarrow> err option) \<Rightarrow> options" where
  "defaultOptions defaultValidator = \<lparr>o_providers = Map.empty, o_validator = defaultValidator,
     o_pollInterval = defaultPollInterval, o_debounce = defaultDebounce, o_queueDepth = defaultQueueDepth,
     o_stale = 0, o_bootstrap = None, o_backoffBase = 0, o_backoffMax = 0, o_historyN = 0, o_refVars = Map.empty,
     o_preApply = None, o_preApplyTimeout = defaultPreApplyTimeout, o_derives = [], o_onChange = None, o_onError = False\<rparr>"

definition WithProvider :: "provider \<Rightarrow> options \<Rightarrow> options" where
  "WithProvider p o' = o'\<lparr>o_providers := (o_providers o')(p_Scheme p \<mapsto> p)\<rparr>"

definition WithValidator :: "(gval \<Rightarrow> err option) \<Rightarrow> options \<Rightarrow> options" where
  "WithValidator v o' = o'\<lparr>o_validator := v\<rparr>"

definition WithPollInterval :: "duration \<Rightarrow> options \<Rightarrow> options" where
  "WithPollInterval d o' = o'\<lparr>o_pollInterval := d\<rparr>"

definition WithDebounce :: "duration \<Rightarrow> options \<Rightarrow> options" where
  "WithDebounce d o' = o'\<lparr>o_debounce := d\<rparr>"

definition WithQueueDepth :: "nat \<Rightarrow> options \<Rightarrow> options" where
  "WithQueueDepth n o' = o'\<lparr>o_queueDepth := n\<rparr>"

definition WithStale :: "duration \<Rightarrow> options \<Rightarrow> options" where
  "WithStale maxAge o' = o'\<lparr>o_stale := maxAge\<rparr>"

definition WithHistory :: "int \<Rightarrow> options \<Rightarrow> options" where
  "WithHistory n o' = o'\<lparr>o_historyN := (if n < 0 then 0 else nat n)\<rparr>"

definition WithBackoff :: "duration \<Rightarrow> duration \<Rightarrow> options \<Rightarrow> options" where
  "WithBackoff base mx o' = o'\<lparr>o_backoffBase := base, o_backoffMax := mx\<rparr>"

definition OnError :: "options \<Rightarrow> options" where
  "OnError o' = o'\<lparr>o_onError := True\<rparr>"

definition OnChange :: "gtype \<Rightarrow> options \<Rightarrow> options" where
  "OnChange t o' = o'\<lparr>o_onChange := Some t\<rparr>"

definition PreApply :: "gtype \<Rightarrow> options \<Rightarrow> options" where
  "PreApply t o' = o'\<lparr>o_preApply := Some t\<rparr>"

definition WithPreApplyTimeout :: "duration \<Rightarrow> options \<Rightarrow> options" where
  "WithPreApplyTimeout d o' = o'\<lparr>o_preApplyTimeout := (if d \<le> 0 then defaultPreApplyTimeout else d)\<rparr>"

text \<open>A nil hook (\<open>None\<close>) installs nothing.\<close>

definition WithDerive :: "gtype \<Rightarrow> (gval \<Rightarrow> err + gval) option \<Rightarrow> string list \<Rightarrow> options \<Rightarrow> options" where
  "WithDerive t fn writes o' = (case fn of None \<Rightarrow> o'
     | Some f \<Rightarrow> o'\<lparr>o_derives := o_derives o' @ [\<lparr>de_T = t, de_fn = f, de_writes = writes\<rparr>]\<rparr>)"

definition options_provider :: "options \<Rightarrow> registry \<Rightarrow> providers" where
  "options_provider o' reg = provider_of (o_providers o') reg"

subsection \<open>Typed hooks\<close>

definition typedPreApply :: "gtype \<Rightarrow> options \<Rightarrow> err + bool" where
  "typedPreApply T o' = (case o_preApply o' of None \<Rightarrow> Inr False
     | Some t \<Rightarrow> if t \<noteq> T then Inl (Errorf ''mamori: PreApply hook has the wrong type'' [Sentinel ErrInvalid]) else Inr True)"

definition typedOnChange :: "gtype \<Rightarrow> options \<Rightarrow> err + bool" where
  "typedOnChange T o' = (case o_onChange o' of None \<Rightarrow> Inr False
     | Some t \<Rightarrow> if t \<noteq> T then Inl (Errorf ''mamori: OnChange hook has the wrong type'' [Sentinel ErrInvalid]) else Inr True)"

definition typed_derive :: "gtype \<Rightarrow> deriveEntry \<Rightarrow> err + typedDerive" where
  "typed_derive T d =
     (if de_T d \<noteq> T then Inl (Errorf ''mamori: WithDerive hook has the wrong type'' [Sentinel ErrInvalid])
      else if list_ex (\<lambda>w. trim_space w = []) (de_writes d)
      then Inl (Errorf ''mamori: WithDerive hook declares an empty or whitespace-only write path'' [Sentinel ErrInvalid])
      else Inr \<lparr>td_fn = de_fn d, td_writes = de_writes d\<rparr>)"

definition typedDerives :: "gtype \<Rightarrow> options \<Rightarrow> err + typedDerive list" where
  "typedDerives T o' = map_res (typed_derive T) (o_derives o')"

subsection \<open>Derived changes\<close>

definition hasSpecPath :: "fieldSpec list \<Rightarrow> path \<Rightarrow> bool" where
  "hasSpecPath specs p = list_ex (\<lambda>s. sp_Path s = p) specs"

text \<open>
  \<^verbatim>\<open>reflect.DeepEqual\<close> on config values, whose floats are bit patterns and whose maps are listed in
  a fixed order.
\<close>

definition DeepEqual :: "gval \<Rightarrow> gval \<Rightarrow> bool" where "DeepEqual v w \<longleftrightarrow> v = w"

definition derived_change :: "rt \<Rightarrow> gtype \<Rightarrow> gval \<Rightarrow> gval \<Rightarrow> path \<Rightarrow> FieldChange list" where
  "derived_change R T old new p = (case (fieldByPath T old p, fieldByPath T new p) of
     (Some (t1, v1, ok1), Some (t2, v2, ok2)) \<Rightarrow>
        if \<not> ok1 \<or> \<not> ok2 \<or> DeepEqual v1 v2 then []
        else [\<lparr>fc_Path = p, fc_OldVersion = derivedVersion R (t1, v1, ok1), fc_NewVersion = derivedVersion R (t2, v2, ok2)\<rparr>]
   | _ \<Rightarrow> [])"

fun derived_walk :: "(path \<Rightarrow> 'b list) \<Rightarrow> fieldSpec list \<Rightarrow> path list \<Rightarrow> path list \<Rightarrow> 'b list" where
  "derived_walk f specs seen [] = []"
| "derived_walk f specs seen (p # ps) =
     (if p \<in> set seen then derived_walk f specs seen ps
      else if hasSpecPath specs p then derived_walk f specs (p # seen) ps
      else f p @ derived_walk f specs (p # seen) ps)"

definition derivedFieldChanges :: "rt \<Rightarrow> gtype \<Rightarrow> gval \<Rightarrow> gval \<Rightarrow> typedDerive list \<Rightarrow> fieldSpec list \<Rightarrow> FieldChange list" where
  "derivedFieldChanges R T old new derives specs =
     derived_walk (derived_change R T old new) specs [] (concat (map td_writes derives))"

subsection \<open>The gate\<close>

definition runPreApply :: "bool \<Rightarrow> (Change \<Rightarrow> err option) \<Rightarrow> err option \<Rightarrow> Change \<Rightarrow> err option" where
  "runPreApply installed hook ctxErr ev =
     (if \<not> installed then None
      else (case hook ev of Some e \<Rightarrow> Some (PreApplyError e) | None \<Rightarrow> map_option PreApplyError ctxErr))"

definition run_derives :: "typedDerive list \<Rightarrow> gval \<Rightarrow> err + gval" where
  "run_derives ds cfg = map_sum DeriveError id (fold_res (\<lambda>d c. td_fn d c) ds cfg)"

subsection \<open>Loading\<close>

record env =
  en_now :: instant
  en_pv :: providers
  en_order :: "string list"
  en_hook :: "Change \<Rightarrow> err option"
  en_ctxErr :: "err option"
  en_io :: io

definition buildInto :: "rt \<Rightarrow> gval \<Rightarrow> resolved list \<Rightarrow> err + gval" where
  "buildInto R dst res = fold_res (\<lambda>r dst. if \<not> rs_set r then Inr dst else setField R dst (rs_spec r) (v_Bytes (rs_value r))) res dst"

definition initial_fields :: "rt \<Rightarrow> gtype \<Rightarrow> gval \<Rightarrow> resolved list \<Rightarrow> typedDerive list \<Rightarrow> fieldSpec list \<Rightarrow> FieldChange list" where
  "initial_fields R T cfg res derives specs =
     map (\<lambda>r. \<lparr>fc_Path = sp_Path (rs_spec r), fc_OldVersion = [], fc_NewVersion = v_Version (rs_value r)\<rparr>) (filter rs_set res)
     @ derivedFieldChanges R T (zero_val T) cfg derives specs"

text \<open>What a configuration must pass, live or restored: decode, derive, validate and the gate.\<close>

definition accept :: "rt \<Rightarrow> gtype \<Rightarrow> options \<Rightarrow> env \<Rightarrow> bool \<Rightarrow> typedDerive list \<Rightarrow> fieldSpec list \<Rightarrow> resolved list \<Rightarrow> err + gval" where
  "accept R T o' en hook derives specs res =
     (case buildInto R (zero_val T) res of Inl e \<Rightarrow> Inl e
      | Inr cfg0 \<Rightarrow> (case run_derives derives cfg0 of Inl e \<Rightarrow> Inl e
      | Inr cfg \<Rightarrow> (case o_validator o' cfg of Some e \<Rightarrow> Inl (ValidationError e)
      | None \<Rightarrow> (case runPreApply hook (en_hook en) (en_ctxErr en)
             \<lparr>ch_Old = zero_val T, ch_New = cfg, ch_Fields = (if hook then initial_fields R T cfg res derives specs else [])\<rparr> of
           Some e \<Rightarrow> Inl e | None \<Rightarrow> Inr cfg))))"

definition resolve_or_restore ::
    "crypto \<Rightarrow> rt \<Rightarrow> options \<Rightarrow> env \<Rightarrow> disk \<Rightarrow> fieldSpec list \<Rightarrow> err + (resolved list \<times> bootstrapOrigin option)" where
  "resolve_or_restore C R o' en d specs = (case resolveAll R (en_pv en) (en_order en) specs of
     Inr res \<Rightarrow> Inr (res, None)
   | Inl e \<Rightarrow> (case o_bootstrap o' of
        None \<Rightarrow> Inl e
      | Some bc \<Rightarrow> (case restoreBootstrap C R (en_io en) bc d specs e (en_now en) of
           Inl be \<Rightarrow> Inl be
         | Inr (res, at) \<Rightarrow> Inr (res, Some \<lparr>bo_present = True, bo_restored = True, bo_writtenAt = at, bo_resolveErr = Some e\<rparr>))))"

text \<open>The snapshot of an accepted live configuration; a restored one is not rewritten.\<close>

definition snapshot_accepted ::
    "crypto \<Rightarrow> rt \<Rightarrow> options \<Rightarrow> env \<Rightarrow> disk \<Rightarrow> fieldSpec list \<Rightarrow> resolved list \<Rightarrow> bootstrapOrigin option
       \<Rightarrow> bootstrapOrigin option \<times> err list \<times> disk" where
  "snapshot_accepted C R o' en d specs res origin = (case (o_bootstrap o', origin) of
     (Some bc, None) \<Rightarrow> (case persistBootstrap C R (en_io en) bc specs res (en_now en) d of
        (at, e, d') \<Rightarrow> (Some \<lparr>bo_present = \<not> time_is_zero at, bo_restored = False,
             bo_writtenAt = at, bo_resolveErr = None\<rparr>,
           (case e of Some x \<Rightarrow> if o_onError o' then [x] else [] | None \<Rightarrow> []), d'))
   | _ \<Rightarrow> (origin, [], d))"

record loaded =
  ld_cfg :: gval
  ld_res :: "resolved list"
  ld_specs :: "fieldSpec list"
  ld_derives :: "typedDerive list"
  ld_hook :: bool
  ld_origin :: "bootstrapOrigin option"

text \<open>\<open>loadValue\<close> yields its result, the errors delivered to OnError, and the disk.\<close>

definition loadValue :: "crypto \<Rightarrow> rt \<Rightarrow> gtype \<Rightarrow> options \<Rightarrow> env \<Rightarrow> disk \<Rightarrow> (err + loaded) \<times> err list \<times> disk" where
  "loadValue C R T o' en d =
     (case map_option bc_err (o_bootstrap o') of Some (Some e) \<Rightarrow> (Inl e, [], d)
      | _ \<Rightarrow> (case typedPreApply T o' of Inl e \<Rightarrow> (Inl e, [], d)
      | Inr hook \<Rightarrow> (case typedDerives T o' of Inl e \<Rightarrow> (Inl e, [], d)
      | Inr derives \<Rightarrow> (case fieldSpecs R T (o_refVars o') of Inl e \<Rightarrow> (Inl e, [], d)
      | Inr specs \<Rightarrow> (case resolve_or_restore C R o' en d specs of Inl e \<Rightarrow> (Inl e, [], d)
      | Inr (res, origin) \<Rightarrow> (case accept R T o' en hook derives specs res of
           Inl e \<Rightarrow> (Inl (bootstrapReplayErr origin e), [], d)
         | Inr cfg \<Rightarrow> (case snapshot_accepted C R o' en d specs res origin of
              (origin', errs, d') \<Rightarrow> (Inr \<lparr>ld_cfg = cfg, ld_res = res, ld_specs = specs, ld_derives = derives,
                 ld_hook = hook, ld_origin = origin'\<rparr>, errs, d'))))))))"

text \<open>\<open>Load\<close> returns the config, or an error and the zero value.\<close>

definition Load :: "crypto \<Rightarrow> rt \<Rightarrow> gtype \<Rightarrow> options \<Rightarrow> env \<Rightarrow> disk \<Rightarrow> gval \<times> err option" where
  "Load C R T o' en d = (case fst (loadValue C R T o' en d) of
     Inl e \<Rightarrow> (zero_val T, Some e) | Inr l \<Rightarrow> (ld_cfg l, None))"

subsection \<open>Accepted configurations\<close>

lemma field_result_spec: "field_result R pv specs s = Inr r \<Longrightarrow> rs_spec r = s"
  by (auto simp: field_result_def resolveOne_def batch_entry_def applyDefault_def applyOnFail_def setResolved_def
      init_resolved_def Let_def split: if_splits option.splits sum.splits)

definition order_ok :: "string list \<Rightarrow> fieldSpec list \<Rightarrow> bool" where
  "order_ok order specs \<longleftrightarrow> distinct order \<and> set order = schemes_of specs"

lemma resolveAll_specs:
  assumes "order_ok order specs" "resolveAll R pv order specs = Inr out"
  shows "map rs_spec out = specs"
proof -
  have m: "map_res (field_result R pv specs) specs = Inr out"
    using resolveAll_map [of order specs R pv out] assms by (simp add: order_ok_def)
  show ?thesis
    using map_res_Inr_length [OF m] map_res_Inr_nth [OF m] field_result_spec
    by (intro nth_equalityI) fastforce+
qed

lemma restore_specs: "restoreBootstrap C R w bc d specs e now = Inr (res, at) \<Longrightarrow> map rs_spec res = specs"
  by (auto simp: restoreBootstrap_def restore_field_def init_resolved_def comp_def
      split: if_splits sum.splits option.splits intro!: map_idI)

lemma resolve_or_restore_specs:
  assumes "order_ok (en_order en) specs" "resolve_or_restore C R o' en d specs = Inr (res, origin)"
  shows "map rs_spec res = specs"
  using assms resolveAll_specs restore_specs
  by (fastforce simp: resolve_or_restore_def split: sum.splits option.splits)

lemma buildInto_typed:
  assumes "buildInto R dst res = Inr cfg" "has_type dst T" "rt_typed R"
    "\<forall>r\<in>set res. type_at T (sp_Index (rs_spec r)) = Some (sp_Type (rs_spec r)) \<and> int_widths (sp_Type (rs_spec r))"
  shows "has_type cfg T"
  using assms(1,2) unfolding buildInto_def
proof (rule fold_res_inv [where P = "\<lambda>v. has_type v T"])
  fix r a b
  assume "r \<in> set res" "has_type a T" "(if \<not> rs_set r then Inr a else setField R a (rs_spec r) (v_Bytes (rs_value r))) = Inr b"
  then show "has_type b T" using setField_typed [of R a "rs_spec r"] assms(3,4) by (auto split: if_splits)
qed

text \<open>The configuration an accepted set of values yields, before the gate.\<close>

definition candidate_of :: "rt \<Rightarrow> gtype \<Rightarrow> typedDerive list \<Rightarrow> resolved list \<Rightarrow> err + gval" where
  "candidate_of R T derives res = bind_res (buildInto R (zero_val T) res) (run_derives derives)"

lemma accept_iff:
  "accept R T o' en hook derives specs res = Inr cfg \<longleftrightarrow>
     candidate_of R T derives res = Inr cfg \<and> o_validator o' cfg = None
     \<and> runPreApply hook (en_hook en) (en_ctxErr en)
         \<lparr>ch_Old = zero_val T, ch_New = cfg, ch_Fields = (if hook then initial_fields R T cfg res derives specs else [])\<rparr> = None"
  by (auto simp: accept_def candidate_of_def split: sum.splits option.splits)

lemma loadValue_Inr:
  assumes "loadValue C R T o' en d = (Inr l, errs, d')"
  obtains origin where
    "typedPreApply T o' = Inr (ld_hook l)" "typedDerives T o' = Inr (ld_derives l)"
    "fieldSpecs R T (o_refVars o') = Inr (ld_specs l)"
    "resolve_or_restore C R o' en d (ld_specs l) = Inr (ld_res l, origin)"
    "accept R T o' en (ld_hook l) (ld_derives l) (ld_specs l) (ld_res l) = Inr (ld_cfg l)"
    "snapshot_accepted C R o' en d (ld_specs l) (ld_res l) origin = (ld_origin l, errs, d')"
  using assms by (auto simp: loadValue_def split: option.splits sum.splits prod.splits)

lemma loadValue_Inl: "loadValue C R T o' en d = (Inl e, errs, d') \<Longrightarrow> errs = [] \<and> d' = d"
  by (auto simp: loadValue_def split: option.splits sum.splits prod.splits)

subsection \<open>Properties\<close>

text \<open>
  C19. A configuration \<^verbatim>\<open>Load\<close> returns is complete and checked: the fields are those of the struct, their values are what the
  live resolve gave, or what the snapshot held where that failed, and the configuration is what decoding every one of these values
  in order and running every derive hook of the options yields; it passed the validator, and the PreApply
  gate, when one is installed, accepted it with one change per set field; when \<^verbatim>\<open>Load\<close> fails it
  returns the zero value, leaves the snapshot file alone and calls no callback.
\<close>

theorem Load_checked:
  assumes "loadValue C R T o' en d = (r, errs, d')"
  shows "(\<forall>l. r = Inr l \<longrightarrow> Load C R T o' en d = (ld_cfg l, None)
       \<and> fieldSpecs R T (o_refVars o') = Inr (ld_specs l)
       \<and> typedDerives T o' = Inr (ld_derives l)
       \<and> (case resolveAll R (en_pv en) (en_order en) (ld_specs l) of Inr res \<Rightarrow> ld_res l = res
          | Inl x \<Rightarrow> (\<exists>bc at. o_bootstrap o' = Some bc \<and> restoreBootstrap C R (en_io en) bc d (ld_specs l) x (en_now en) = Inr (ld_res l, at)))
       \<and> candidate_of R T (ld_derives l) (ld_res l) = Inr (ld_cfg l)
       \<and> o_validator o' (ld_cfg l) = None
       \<and> (o_preApply o' \<noteq> None \<longrightarrow> en_ctxErr en = None \<and> en_hook en \<lparr>ch_Old = zero_val T, ch_New = ld_cfg l,
            ch_Fields = initial_fields R T (ld_cfg l) (ld_res l) (ld_derives l) (ld_specs l)\<rparr> = None))
    \<and> (\<forall>e. r = Inl e \<longrightarrow> Load C R T o' en d = (zero_val T, Some e) \<and> errs = [] \<and> d' = d)"
proof (intro conjI allI impI)
  fix l assume r: "r = Inr l"
  obtain origin where l: "typedPreApply T o' = Inr (ld_hook l)" "fieldSpecs R T (o_refVars o') = Inr (ld_specs l)"
    "accept R T o' en (ld_hook l) (ld_derives l) (ld_specs l) (ld_res l) = Inr (ld_cfg l)"
    "typedDerives T o' = Inr (ld_derives l)" "resolve_or_restore C R o' en d (ld_specs l) = Inr (ld_res l, origin)"
    using assms r by (metis loadValue_Inr)
  show "typedDerives T o' = Inr (ld_derives l)" by (rule l(4))
  show "case resolveAll R (en_pv en) (en_order en) (ld_specs l) of Inr res \<Rightarrow> ld_res l = res
      | Inl x \<Rightarrow> (\<exists>bc at. o_bootstrap o' = Some bc \<and> restoreBootstrap C R (en_io en) bc d (ld_specs l) x (en_now en) = Inr (ld_res l, at))"
    using l(5) by (auto simp: resolve_or_restore_def split: sum.splits option.splits prod.splits)
  show "Load C R T o' en d = (ld_cfg l, None)" using assms r by (simp add: Load_def)
  show "fieldSpecs R T (o_refVars o') = Inr (ld_specs l)" by (rule l(2))
  note a = l(3) [unfolded accept_iff]
  show "candidate_of R T (ld_derives l) (ld_res l) = Inr (ld_cfg l)" "o_validator o' (ld_cfg l) = None" using a by blast+
  assume "o_preApply o' \<noteq> None"
  then have h: "ld_hook l" using l(1) by (auto simp: typedPreApply_def split: if_splits)
  show "en_ctxErr en = None" "en_hook en \<lparr>ch_Old = zero_val T, ch_New = ld_cfg l,
            ch_Fields = initial_fields R T (ld_cfg l) (ld_res l) (ld_derives l) (ld_specs l)\<rparr> = None"
    using a h by (auto simp: runPreApply_def split: option.splits)
next
  fix e assume r: "r = Inl e"
  show "Load C R T o' en d = (zero_val T, Some e)" using assms r by (simp add: Load_def)
  show "errs = []" "d' = d" using loadValue_Inl assms r by blast+
qed

definition demo_T :: gtype where
  "demo_T = TStruct ''Config'' [GField ''A'' True [(''source'', ''env:A''), (''default'', ''d'')] TString]"

definition demo_env :: "(Ref \<Rightarrow> err + Value) \<Rightarrow> env" where
  "demo_env f = \<lparr>en_now = 7, en_pv = demo_pv f, en_order = [''env''], en_hook = (\<lambda>_. None), en_ctxErr = None, en_io = demo_io\<rparr>"

definition demo_options :: options where
  "demo_options = PreApply demo_T (defaultOptions (\<lambda>v. None))"

definition demo_answer :: "string \<Rightarrow> string \<Rightarrow> Ref \<Rightarrow> err + Value" where
  "demo_answer b ver = (\<lambda>_. Inr (zero_Value\<lparr>v_Bytes := b, v_Version := ver\<rparr>))"

theorem Load_checked_witness:
  "Load (demo_crypto demo_rt [] [] 5) demo_rt demo_T demo_options (demo_env (demo_answer ''v'' ''1'')) Map.empty = (VStruct [VString ''v''], None)"
proof -
  let ?C = "demo_crypto demo_rt [] [] 5" and ?en = "demo_env (demo_answer ''v'' ''1'')"
  obtain r errs d' where l: "loadValue ?C demo_rt demo_T demo_options ?en Map.empty = (r, errs, d')"
    by (metis prod_cases3)
  have "case fst (loadValue ?C demo_rt demo_T demo_options ?en Map.empty) of
      Inr l \<Rightarrow> ld_cfg l = VStruct [VString ''v''] | Inl _ \<Rightarrow> False" by code_simp
  then show ?thesis using Load_checked [OF l] l by (auto split: sum.splits)
qed

text \<open>
  The snapshot is a fallback, never a fast path: when the live resolve succeeds, the outcome
  of a load does not depend on what is on disk; it is consulted only when that resolve failed with
  a transient kind, and a restored configuration is never written back.
\<close>

lemma Load_fallback_only:
  assumes "fieldSpecs R T (o_refVars o') = Inr specs"
  shows "((\<exists>res. resolveAll R (en_pv en) (en_order en) specs = Inr res) \<longrightarrow> Load C R T o' en d1 = Load C R T o' en d2)
    \<and> (\<forall>l errs d' og. loadValue C R T o' en d = (Inr l, errs, d') \<longrightarrow> ld_origin l = Some og \<longrightarrow> bo_restored og \<longrightarrow>
        d' = d \<and> errs = [] \<and> (\<exists>e. resolveAll R (en_pv en) (en_order en) specs = Inl e
         \<and> ErrorKind (Some e) \<in> {KindUnavailable, KindRateLimited}))"
proof (intro conjI impI allI)
  assume "\<exists>res. resolveAll R (en_pv en) (en_order en) specs = Inr res"
  then obtain res where r: "resolve_or_restore C R o' en d specs = Inr (res, None)" for d
    by (auto simp: resolve_or_restore_def)
  show "Load C R T o' en d1 = Load C R T o' en d2"
    using assms r [of d1] r [of d2]
    by (simp add: Load_def loadValue_def split: option.split sum.split prod.split)
next
  fix l errs d' og
  assume l: "loadValue C R T o' en d = (Inr l, errs, d')" and og: "ld_origin l = Some og" "bo_restored og"
  obtain origin where o: "fieldSpecs R T (o_refVars o') = Inr (ld_specs l)"
    "resolve_or_restore C R o' en d (ld_specs l) = Inr (ld_res l, origin)"
    "snapshot_accepted C R o' en d (ld_specs l) (ld_res l) origin = (ld_origin l, errs, d')"
    using l by (rule loadValue_Inr)
  have "origin \<noteq> None" using o(3) og by (auto simp: snapshot_accepted_def split: option.splits prod.splits)
  then obtain og' where og': "origin = Some og'" by blast
  then show "d' = d" "errs = []" using o(3) by (auto simp: snapshot_accepted_def split: option.splits)
  show "\<exists>e. resolveAll R (en_pv en) (en_order en) specs = Inl e \<and> ErrorKind (Some e) \<in> {KindUnavailable, KindRateLimited}"
    using o(1,2) og' assms
    by (auto simp: resolve_or_restore_def restoreBootstrap_def bootstrapTransient_def split: sum.splits option.splits if_splits)
qed

lemma Load_fallback_only_witness:
  "Load (demo_crypto demo_rt [] [] 5) demo_rt demo_T demo_options (demo_env (demo_answer ''v'' ''1'')) Map.empty
     = Load (demo_crypto demo_rt [] [] 5) demo_rt demo_T demo_options (demo_env (demo_answer ''v'' ''1'')) [''p'' \<mapsto> (384, ''junk'')]"
proof -
  let ?specs = "[\<lparr>sp_Path = ''A'', sp_Refs = [\<lparr>r_Scheme = ''env'', r_Path = ''A'', r_Key = [], r_Opts = [], r_Raw = ''env:A''\<rparr>],
     sp_Default = ''d'', sp_HasDefault = True, sp_Flatten = [], sp_Optional = False, sp_Index = [0],
     sp_Type = TString, sp_Sensitive = False, sp_OnFail = onFailKeepLast\<rparr>]"
  let ?en = "demo_env (demo_answer ''v'' ''1'')"
  have f: "fieldSpecs demo_rt demo_T (o_refVars demo_options) = Inr ?specs" by code_simp
  have "case resolveAll demo_rt (en_pv ?en) (en_order ?en) ?specs of Inr _ \<Rightarrow> True | Inl _ \<Rightarrow> False" by code_simp
  then have "\<exists>res. resolveAll demo_rt (en_pv ?en) (en_order ?en) ?specs = Inr res" by (auto split: sum.splits)
  then show ?thesis using Load_fallback_only [OF f, of ?en] by blast
qed

subsection \<open>Types\<close>

definition derives_typed :: "gtype \<Rightarrow> options \<Rightarrow> bool" where
  "derives_typed T o' \<longleftrightarrow> (\<forall>ds. typedDerives T o' = Inr ds \<longrightarrow>
     (\<forall>d\<in>set ds. \<forall>v v'. has_type v T \<longrightarrow> td_fn d v = Inr v' \<longrightarrow> has_type v' T))"

lemma candidate_typed:
  assumes "candidate_of R T ds res = Inr cfg" "rt_typed R"
    "\<And>d v v'. d \<in> set ds \<Longrightarrow> has_type v T \<Longrightarrow> td_fn d v = Inr v' \<Longrightarrow> has_type v' T"
    "\<forall>r\<in>set res. type_at T (sp_Index (rs_spec r)) = Some (sp_Type (rs_spec r)) \<and> int_widths (sp_Type (rs_spec r))"
  shows "has_type cfg T"
proof -
  obtain mid where m0: "buildInto R (zero_val T) res = Inr mid" "run_derives ds mid = Inr cfg"
    using assms(1) by (auto simp: candidate_of_def bind_res_Inr_iff)
  then have m: "buildInto R (zero_val T) res = Inr mid" "fold_res (\<lambda>d c. td_fn d c) ds mid = Inr cfg"
    by (cases "fold_res (\<lambda>d c. td_fn d c) ds mid"; simp add: run_derives_def)+
  have "has_type mid T" using buildInto_typed [OF m(1) zero_val_typed(1) assms(2,4)] .
  then show ?thesis using fold_res_inv [OF m(2), of "\<lambda>v. has_type v T"] assms(3) by blast
qed



end
