(* ===== verification/Engine.thy ===== *)
theory Engine
  imports Load
begin

text \<open>
  The state and the operations of the reconciler (\<^verbatim>\<open>reconciler.go\<close>, \<^verbatim>\<open>history.go\<close>, \<^verbatim>\<open>status.go\<close>,
  \<^verbatim>\<open>report.go\<close> and the engine side of \<^verbatim>\<open>bootstrapstore.go\<close>).

  The record \<open>engine\<close> holds the fields of \<^verbatim>\<open>engine[T]\<close>, the pointers its watcher publishes
  (\<open>w_\<close>), the local variables of \<^verbatim>\<open>loop\<close> (pending batch, debounce timer), the dispatch queue and
  what was taken from it, and the snapshot file's disk. What an operation tells the outside, an
  error delivered to OnError or a metric, is appended to \<open>e_trace\<close>; log lines are not represented.
  The record \<open>sys\<close> holds what never changes after \<^verbatim>\<open>Watch\<close> returned. A map from paths to versions
  is a function with the empty string for a missing key, the way the code reads it; versions are
  natural numbers.
\<close>

subsection \<open>State\<close>

record srcState =
  ss_seen :: bool
  ss_value :: Value
  ss_err :: "err option"

definition unseen :: srcState where
  "unseen = \<lparr>ss_seen = False, ss_value = zero_Value, ss_err = None\<rparr>"

record Snapshot =
  sh_Version :: nat
  sh_At :: instant
  sh_Config :: gval
  sh_Fields :: "FieldChange list"
  sh_applied :: "path \<Rightarrow> string"

record FieldStatus =
  fs_Path :: path
  fs_Scheme :: string
  fs_Ref :: string
  fs_Version :: string
  fs_LastOK :: instant
  fs_Age :: duration
  fs_Stale :: bool
  fs_LastError :: "err option"
  fs_LastKind :: Kind
  fs_Sensitive :: bool
  fs_Derived :: bool

record BootstrapStatus =
  bs_Present :: bool
  bs_Restored :: bool
  bs_WrittenAt :: instant
  bs_Age :: duration
  bs_FingerprintMatch :: bool
  bs_Problem :: string

datatype ConfigSource = SourceNone | SourceBackend | SourceBootstrapCache

record Report =
  rp_Fields :: "FieldStatus list"
  rp_Snapshot :: nat
  rp_Live :: nat
  rp_Pinned :: bool
  rp_Healthy :: bool
  rp_GeneratedAt :: instant
  rp_Source :: ConfigSource
  rp_Bootstrap :: "BootstrapStatus option"

datatype RejectReason = RejectValidation | RejectPreApply | RejectDerive

datatype event =
    EmitErr err | RecordWatchError string | RecordStale string | RecordRefresh string
  | RecordChangeDropped | RecordApplyRejected RejectReason | RecordBootstrapWriteFailed

record sys =
  sy_C :: crypto
  sy_R :: rt
  sy_T :: gtype
  sy_o :: options
  sy_derives :: "typedDerive list"
  sy_hook :: bool

record engine =
  e_specs :: "fieldSpec list"
  e_observed :: "path \<Rightarrow> Value option"
  e_applied :: "path \<Rightarrow> string"
  e_lastOK :: "path \<Rightarrow> instant option"
  e_lastErr :: "path \<Rightarrow> err option"
  e_lastGood :: gval
  e_version :: nat
  e_sources :: "srcState list list"
  e_blocked :: "path set"
  e_history :: "Snapshot list"
  e_bootstrapPresent :: bool
  e_bootstrapRestored :: bool
  e_bootstrapServing :: bool
  e_bootstrapWrittenAt :: instant
  e_bootstrapUnconfirmed :: "path set option"
  e_pinned :: bool
  e_pinnedVersion :: nat
  e_pinnedConfig :: gval
  e_pinnedApplied :: "path \<Rightarrow> string"
  e_dispatch :: "Change list"
  e_delivered :: "Change list"
  e_pending :: "path set"
  e_timer :: "instant option"
  e_pendingSince :: instant
  e_window :: duration
  e_updatesOpen :: bool
  e_done :: bool
  e_disk :: disk
  e_trace :: "event list"
  w_cfg :: gval
  w_snapshots :: "Snapshot list"
  w_report :: Report

definition record_event :: "event \<Rightarrow> engine \<Rightarrow> engine" where
  "record_event ev e = e\<lparr>e_trace := e_trace e @ [ev]\<rparr>"

definition emitErr :: "sys \<Rightarrow> err \<Rightarrow> engine \<Rightarrow> engine" where
  "emitErr S err e = (if \<not> o_onError (sy_o S) then e else record_event (EmitErr err) e)"

subsection \<open>Bootstrap state\<close>

definition seedBootstrapOrigin :: "bootstrapOrigin \<Rightarrow> resolved list \<Rightarrow> engine \<Rightarrow> engine" where
  "seedBootstrapOrigin origin restored e =
     (let e1 = e\<lparr>e_bootstrapPresent := bo_present origin, e_bootstrapRestored := True, e_bootstrapWrittenAt := bo_writtenAt origin\<rparr>;
          unconfirmed = set (map (\<lambda>r. sp_Path (rs_spec r)) (filter (\<lambda>r. rs_set r \<and> v_Version (rs_value r) \<noteq> defaultValueVersion) restored))
      in if unconfirmed = {} then e1
         else e1\<lparr>e_bootstrapUnconfirmed := Some unconfirmed, e_bootstrapServing := True\<rparr>)"

definition observedAsResolved :: "engine \<Rightarrow> resolved list" where
  "observedAsResolved e = List.map_filter (\<lambda>spec. map_option
     (\<lambda>v. \<lparr>rs_spec = spec, rs_value = v, rs_found = True, rs_set = True\<rparr>) (e_observed e (sp_Path spec))) (e_specs e)"

definition persist_engine :: "sys \<Rightarrow> env \<Rightarrow> engine \<Rightarrow> engine" where
  "persist_engine S en e = (case o_bootstrap (sy_o S) of
     None \<Rightarrow> e
   | Some bc \<Rightarrow> (case persistBootstrap (sy_C S) (sy_R S) (en_io en) bc (e_specs e) (observedAsResolved e) (en_now en) (e_disk e) of
        (at, err, d) \<Rightarrow>
          (let e1 = e\<lparr>e_disk := d\<rparr>;
               e2 = (case err of None \<Rightarrow> e1 | Some x \<Rightarrow> emitErr S x (record_event RecordBootstrapWriteFailed e1))
           in if time_is_zero at then e2 else e2\<lparr>e_bootstrapPresent := True, e_bootstrapWrittenAt := at\<rparr>)))"

definition markBootstrapReconciled :: "sys \<Rightarrow> env \<Rightarrow> path \<Rightarrow> engine \<Rightarrow> engine" where
  "markBootstrapReconciled S en p e = (case e_bootstrapUnconfirmed e of
     None \<Rightarrow> e
   | Some u \<Rightarrow>
      if u - {p} \<noteq> {} then e\<lparr>e_bootstrapUnconfirmed := Some (u - {p})\<rparr>
      else persist_engine S en (e\<lparr>e_bootstrapUnconfirmed := None, e_bootstrapServing := False\<rparr>))"

definition bootstrapStatus :: "sys \<Rightarrow> instant \<Rightarrow> engine \<Rightarrow> BootstrapStatus option" where
  "bootstrapStatus S now e = (case o_bootstrap (sy_o S) of
     None \<Rightarrow> None
   | Some _ \<Rightarrow> Some \<lparr>bs_Present = e_bootstrapPresent e, bs_Restored = e_bootstrapRestored e,
        bs_WrittenAt = e_bootstrapWrittenAt e,
        bs_Age = (if time_is_zero (e_bootstrapWrittenAt e) then 0 else time_sub now (e_bootstrapWrittenAt e)),
        bs_FingerprintMatch = e_bootstrapPresent e,
        bs_Problem = (if e_bootstrapPresent e then [] else ''no snapshot has been written'')\<rparr>)"

definition bootstrapSource :: "sys \<Rightarrow> engine \<Rightarrow> ConfigSource" where
  "bootstrapSource S e = (if o_bootstrap (sy_o S) = None then SourceNone
     else if e_bootstrapServing e then SourceBootstrapCache else SourceBackend)"

subsection \<open>Chains over observed states\<close>

definition recordSourceUpdate :: "sys \<Rightarrow> nat \<Rightarrow> nat \<Rightarrow> Update \<Rightarrow> bool \<Rightarrow> engine \<Rightarrow> engine" where
  "recordSourceUpdate S specIdx pos up sensitive e =
     (let st = (case u_Err up of
          Some err \<Rightarrow> \<lparr>ss_seen = True, ss_value = zero_Value, ss_err = Some err\<rparr>
        | None \<Rightarrow> (case applyDecode (rt_inflate (sy_R S)) (sp_Refs (e_specs e ! specIdx) ! pos) (u_Value up) of
             Inl err \<Rightarrow> \<lparr>ss_seen = True, ss_value = zero_Value, ss_err = Some err\<rparr>
           | Inr dec \<Rightarrow> \<lparr>ss_seen = True, ss_value = (if sensitive then dec\<lparr>v_Sensitive := True\<rparr> else dec), ss_err = None\<rparr>))
      in e\<lparr>e_sources := (e_sources e)[specIdx := (e_sources e ! specIdx)[pos := st]]\<rparr>)"

text \<open>The loop of \<^verbatim>\<open>recomputeWinner\<close> over the states from position \<open>i\<close> on.\<close>

fun winner_walk :: "nat \<Rightarrow> srcState list \<Rightarrow> (nat \<times> (err + Value)) option" where
  "winner_walk i [] = None"
| "winner_walk i (st # sts) =
     (if \<not> ss_seen st then winner_walk (Suc i) sts
      else (case ss_err st of
         Some err \<Rightarrow> if err_is err ErrNotFound then winner_walk (Suc i) sts else Some (i, Inl err)
       | None \<Rightarrow> Some (i, Inr (ss_value st))))"

text \<open>The position is \<open>None\<close> where the code returns -1.\<close>

definition winner_of :: "srcState list \<Rightarrow> (err + Value) \<times> nat option" where
  "winner_of states = (case winner_walk 0 states of
     Some (i, r) \<Rightarrow> (r, Some i)
   | None \<Rightarrow> (case states of
        [st] \<Rightarrow> (case ss_err st of Some err \<Rightarrow> (Inl err, Some 0) | None \<Rightarrow> (Inl (Sentinel ErrNotFound), None))
      | _ \<Rightarrow> (Inl (Sentinel ErrNotFound), None)))"

definition recomputeWinner :: "engine \<Rightarrow> nat \<Rightarrow> (err + Value) \<times> nat option" where
  "recomputeWinner e specIdx = winner_of (e_sources e ! specIdx)"

definition mark_sensitive :: "fieldSpec \<Rightarrow> Value \<Rightarrow> Value" where
  "mark_sensitive spec val = (if sp_Sensitive spec then val\<lparr>v_Sensitive := True\<rparr> else val)"

fun seed_walk :: "rt \<Rightarrow> providers \<Rightarrow> fieldSpec \<Rightarrow> Ref list \<Rightarrow> srcState list" where
  "seed_walk R pv spec [] = []"
| "seed_walk R pv spec (ref # refs) =
     (case pv (r_Scheme ref) of
        None \<Rightarrow> \<lparr>ss_seen = True, ss_value = zero_Value, ss_err = Some (Sentinel ErrInvalid)\<rparr> # map (\<lambda>_. unseen) refs
      | Some p \<Rightarrow>
         (case (case p_Resolve p ref of Inl e \<Rightarrow> Inl e | Inr val \<Rightarrow> applyDecode (rt_inflate R) ref val) of
            Inr val \<Rightarrow> \<lparr>ss_seen = True, ss_value = mark_sensitive spec val, ss_err = None\<rparr> # map (\<lambda>_. unseen) refs
          | Inl err \<Rightarrow> \<lparr>ss_seen = True, ss_value = zero_Value, ss_err = Some err\<rparr>
              # (if err_is err ErrNotFound then seed_walk R pv spec refs else map (\<lambda>_. unseen) refs)))"

definition seedChainSources :: "sys \<Rightarrow> env \<Rightarrow> fieldSpec \<Rightarrow> srcState list" where
  "seedChainSources S en spec = seed_walk (sy_R S) (en_pv en) spec (sp_Refs spec)"

definition isDerivedPath :: "engine \<Rightarrow> path \<Rightarrow> bool" where
  "isDerivedPath e p = (\<not> hasSpecPath (e_specs e) p)"

definition winner_ref :: "engine \<Rightarrow> nat \<Rightarrow> Ref" where
  "winner_ref e i = (case snd (recomputeWinner e i) of
     Some pos \<Rightarrow> sp_Refs (e_specs e ! i) ! pos | None \<Rightarrow> hd (sp_Refs (e_specs e ! i)))"

definition schemeForPath :: "engine \<Rightarrow> path \<Rightarrow> string" where
  "schemeForPath e p = (case filter (\<lambda>i. sp_Path (e_specs e ! i) = p) [0..<length (e_specs e)] of
     [] \<Rightarrow> [] | i # _ \<Rightarrow> r_Scheme (winner_ref e i))"

subsection \<open>Reports\<close>

definition fieldUnhealthy :: "FieldStatus \<Rightarrow> bool" where
  "fieldUnhealthy fs \<longleftrightarrow> fs_LastKind fs \<in> set [KindNotFound, KindPermissionDenied, KindUnauthenticated, KindInvalid] \<or> fs_Stale fs"

definition field_status :: "sys \<Rightarrow> instant \<Rightarrow> engine \<Rightarrow> nat \<Rightarrow> FieldStatus" where
  "field_status S now e i =
     (let spec = e_specs e ! i; ref = winner_ref e i;
          age = (case e_lastOK e (sp_Path spec) of None \<Rightarrow> 0 | Some l \<Rightarrow> time_sub now l)
      in \<lparr>fs_Path = sp_Path spec, fs_Scheme = r_Scheme ref, fs_Ref = redactRef ref,
          fs_Version = (case e_observed e (sp_Path spec) of None \<Rightarrow> [] | Some v \<Rightarrow> v_Version v),
          fs_LastOK = (case e_lastOK e (sp_Path spec) of None \<Rightarrow> 0 | Some l \<Rightarrow> l), fs_Age = age,
          fs_Stale = (e_lastOK e (sp_Path spec) \<noteq> None \<and> o_stale (sy_o S) > 0 \<and> age > o_stale (sy_o S)),
          fs_LastError = e_lastErr e (sp_Path spec), fs_LastKind = ErrorKind (e_lastErr e (sp_Path spec)),
          fs_Sensitive = sp_Sensitive spec, fs_Derived = False\<rparr>)"

definition derived_status :: "sys \<Rightarrow> engine \<Rightarrow> path \<Rightarrow> FieldStatus list" where
  "derived_status S e p = (case fieldByPath (sy_T S) (e_lastGood e) p of
     Some (t, v, True) \<Rightarrow> [\<lparr>fs_Path = p, fs_Scheme = [], fs_Ref = [], fs_Version = derivedVersion (sy_R S) (t, v, True),
        fs_LastOK = 0, fs_Age = 0, fs_Stale = False, fs_LastError = None, fs_LastKind = [],
        fs_Sensitive = is_secret t, fs_Derived = True\<rparr>]
   | _ \<Rightarrow> [])"

definition buildReport :: "sys \<Rightarrow> env \<Rightarrow> engine \<Rightarrow> Report" where
  "buildReport S en e =
     (let now = en_now en; fields = map (field_status S now e) [0..<length (e_specs e)]
      in \<lparr>rp_Fields = fields @ derived_walk (derived_status S e) (e_specs e) [] (concat (map td_writes (sy_derives S))),
          rp_Snapshot = (if e_pinned e then e_pinnedVersion e else e_version e), rp_Live = e_version e,
          rp_Pinned = e_pinned e, rp_Healthy = (\<not> list_ex fieldUnhealthy fields), rp_GeneratedAt = now,
          rp_Source = bootstrapSource S e, rp_Bootstrap = bootstrapStatus S now e\<rparr>)"

definition publish :: "sys \<Rightarrow> env \<Rightarrow> engine \<Rightarrow> engine" where
  "publish S en e = e\<lparr>w_report := buildReport S en e\<rparr>"

end
