(* ===== verification/Apply.thy ===== *)
theory Apply
  imports Engine
begin

text \<open>
  The operations of the reconciler that build, gate, apply and freeze a configuration
  (\<^verbatim>\<open>reconciler.go\<close>: \<^verbatim>\<open>reportTerminalError\<close> to \<^verbatim>\<open>enqueue\<close>; \<^verbatim>\<open>pin.go\<close>; \<^verbatim>\<open>refresh.go\<close>).
\<close>

subsection \<open>Errors of a chain\<close>

definition reportTerminalError :: "sys \<Rightarrow> env \<Rightarrow> fieldSpec \<Rightarrow> Ref \<Rightarrow> err \<Rightarrow> engine \<Rightarrow> engine" where
  "reportTerminalError S en spec ref err e =
     (let e1 = record_event (RecordWatchError (r_Scheme ref)) e;
          stale = o_stale (sy_o S) > 0 \<and> (case e_lastOK e (sp_Path spec) of None \<Rightarrow> False
             | Some l \<Rightarrow> time_sub (en_now en) l > o_stale (sy_o S))
      in if stale
         then emitErr S (StaleError (redactRef ref) err)
           ((record_event (RecordStale (r_Scheme ref)) e1)\<lparr>e_lastErr := (e_lastErr e)(sp_Path spec \<mapsto> StaleError (redactRef ref) err)\<rparr>)
         else emitErr S (ProviderError (r_Scheme ref) (redactRef ref) err)
           (e1\<lparr>e_lastErr := (e_lastErr e)(sp_Path spec \<mapsto> ProviderError (r_Scheme ref) (redactRef ref) err)\<rparr>))"

definition handleChainNotFound :: "sys \<Rightarrow> env \<Rightarrow> fieldSpec \<Rightarrow> err \<Rightarrow> (path \<Rightarrow> engine \<Rightarrow> engine) \<Rightarrow> engine \<Rightarrow> engine" where
  "handleChainNotFound S en spec err unblock e =
     (let e1 = unblock (sp_Path spec) e
      in if err_is err ErrNotFound \<and> (sp_HasDefault spec \<or> sp_Optional spec)
         then markBootstrapReconciled S en (sp_Path spec) (e1\<lparr>e_lastErr := (e_lastErr e1)(sp_Path spec := None)\<rparr>)
         else reportTerminalError S en spec (hd (sp_Refs spec)) err e1)"

subsection \<open>Candidates\<close>

fun build_fields :: "rt \<Rightarrow> (path \<Rightarrow> Value option) \<Rightarrow> fieldSpec list \<Rightarrow> gval \<Rightarrow> err + gval" where
  "build_fields R observed [] dst = Inr dst"
| "build_fields R observed (spec # specs) dst = (case observed (sp_Path spec) of
      None \<Rightarrow> build_fields R observed specs dst
    | Some v \<Rightarrow> (case setField R dst spec (v_Bytes v) of Inl e \<Rightarrow> Inl e | Inr dst' \<Rightarrow> build_fields R observed specs dst'))"

text \<open>The version diff, which advances the applied map as it goes.\<close>

fun diff_observed :: "(path \<Rightarrow> Value option) \<Rightarrow> fieldSpec list \<Rightarrow> (path \<Rightarrow> string) \<Rightarrow> FieldChange list \<times> (path \<Rightarrow> string)" where
  "diff_observed observed [] applied = ([], applied)"
| "diff_observed observed (spec # specs) applied = (case observed (sp_Path spec) of
      None \<Rightarrow> diff_observed observed specs applied
    | Some v \<Rightarrow>
       if applied (sp_Path spec) \<noteq> v_Version v
       then (case diff_observed observed specs (applied(sp_Path spec := v_Version v)) of
          (fcs, applied') \<Rightarrow> (\<lparr>fc_Path = sp_Path spec, fc_OldVersion = applied (sp_Path spec), fc_NewVersion = v_Version v\<rparr> # fcs, applied'))
       else diff_observed observed specs applied)"

fun blocked_walk :: "engine \<Rightarrow> fieldSpec list \<Rightarrow> err option" where
  "blocked_walk e [] = None"
| "blocked_walk e (spec # specs) =
     (if sp_Path spec \<notin> e_blocked e then blocked_walk e specs
      else (case e_lastErr e (sp_Path spec) of
         Some err \<Rightarrow> Some err
       | None \<Rightarrow> Some (Errorf ''mamori: field is failing and its onfail policy rejects every update'' [Sentinel ErrInvalid])))"

definition blockedErr :: "engine \<Rightarrow> err option" where
  "blockedErr e = blocked_walk e (e_specs e)"

text \<open>\<open>Inl\<close> carries the refusal, which is nil (\<open>None\<close>) only if no specification is blocked.\<close>

definition buildCandidate :: "sys \<Rightarrow> engine \<Rightarrow> engine \<times> (err option + gval \<times> FieldChange list)" where
  "buildCandidate S e =
     (if e_blocked e \<noteq> {} then (e, Inl (blockedErr e))
      else (case build_fields (sy_R S) (e_observed e) (e_specs e) (zero_val (sy_T S)) of
         Inl err \<Rightarrow> (emitErr S (ValidationError err) e, Inl (Some (ValidationError err)))
       | Inr cand0 \<Rightarrow> (case run_derives (sy_derives S) cand0 of
            Inl de \<Rightarrow> (emitErr S de (record_event (RecordApplyRejected RejectDerive) e), Inl (Some de))
          | Inr cand \<Rightarrow> (case o_validator (sy_o S) cand of
               Some err \<Rightarrow> (emitErr S (ValidationError err) (record_event (RecordApplyRejected RejectValidation) e),
                            Inl (Some (ValidationError err)))
             | None \<Rightarrow> (case diff_observed (e_observed e) (e_specs e) (e_applied e) of
                  (fcs, applied') \<Rightarrow> (e\<lparr>e_applied := applied'\<rparr>,
                     Inr (cand, fcs @ derivedFieldChanges (sy_R S) (sy_T S) (e_lastGood e) cand (sy_derives S) (e_specs e))))))))"

subsection \<open>Applying\<close>

definition recordSnapshot :: "sys \<Rightarrow> env \<Rightarrow> gval \<Rightarrow> FieldChange list \<Rightarrow> engine \<Rightarrow> engine" where
  "recordSnapshot S en cfg fcs e =
     (let snap = \<lparr>sh_Version = e_version e, sh_At = en_now en, sh_Config = cfg, sh_Fields = fcs, sh_applied = e_applied e\<rparr>;
          h = e_history e @ [snap];
          mx = o_historyN (sy_o S) + 1;
          h' = (if length h > mx then drop (length h - mx) h else h)
      in e\<lparr>e_history := h', w_snapshots := rev h'\<rparr>)"

text \<open>
  Delivery to the bounded queue, dropping the oldest event while it is full. A queue of depth 0 is a
  rendezvous: the loop spins until the dispatch goroutine takes the event.
\<close>

function enqueue :: "nat \<Rightarrow> Change \<Rightarrow> engine \<Rightarrow> engine" where
  "enqueue depth ev e =
     (if length (e_dispatch e) < depth then e\<lparr>e_dispatch := e_dispatch e @ [ev]\<rparr>
      else if e_dispatch e = [] then e\<lparr>e_delivered := e_delivered e @ [ev]\<rparr>
      else enqueue depth ev (record_event RecordChangeDropped (e\<lparr>e_dispatch := tl (e_dispatch e)\<rparr>)))"
  by pat_completeness auto
termination
  by (relation "measure (\<lambda>(d, ev, e). length (e_dispatch e))") (auto simp: record_event_def)

declare enqueue.simps [simp del]

definition record_refreshes :: "FieldChange list \<Rightarrow> engine \<Rightarrow> engine" where
  "record_refreshes fcs e = fold (\<lambda>f e. if isDerivedPath e (fc_Path f) then e
     else record_event (RecordRefresh (schemeForPath e (fc_Path f))) e) fcs e"

definition rollback :: "FieldChange list \<Rightarrow> (path \<Rightarrow> string) \<Rightarrow> (path \<Rightarrow> string)" where
  "rollback fcs applied = fold (\<lambda>f m. m(fc_Path f := fc_OldVersion f)) fcs applied"

definition flush :: "sys \<Rightarrow> env \<Rightarrow> path set \<Rightarrow> engine \<Rightarrow> engine \<times> err option" where
  "flush S en pending e =
     (if pending = {} then (e, None)
      else (case buildCandidate S e of
         (e1, Inl err) \<Rightarrow> (e1, err)
       | (e1, Inr (cand, fcs)) \<Rightarrow>
          if fcs = [] then (e1, None)
          else (case runPreApply (sy_hook S) (en_hook en) (en_ctxErr en) \<lparr>ch_Old = e_lastGood e1, ch_New = cand, ch_Fields = fcs\<rparr> of
             Some err \<Rightarrow> (emitErr S err (record_event (RecordApplyRejected RejectPreApply)
                 (e1\<lparr>e_applied := rollback fcs (e_applied e1)\<rparr>)), Some err)
           | None \<Rightarrow>
              (let e2 = persist_engine S en (recordSnapshot S en cand fcs
                     (e1\<lparr>e_version := e_version e1 + 1, e_lastGood := cand\<rparr>))
               in if e_pinned e2 then (publish S en (record_refreshes fcs e2), None)
                  else (publish S en (enqueue (o_queueDepth (sy_o S)) \<lparr>ch_Old = e_lastGood e1, ch_New = cand, ch_Fields = fcs\<rparr>
                      (record_refreshes fcs (e2\<lparr>w_cfg := cand\<rparr>))), None)))))"

subsection \<open>Refresh\<close>

definition observe :: "path \<Rightarrow> Value \<Rightarrow> engine \<Rightarrow> engine" where
  "observe p val e = (case e_observed e p of
     Some cur \<Rightarrow> if \<not> changed cur val then e else e\<lparr>e_observed := (e_observed e)(p \<mapsto> val)\<rparr>
   | None \<Rightarrow> e\<lparr>e_observed := (e_observed e)(p \<mapsto> val)\<rparr>)"

definition clearBlock :: "path \<Rightarrow> engine \<Rightarrow> engine" where
  "clearBlock p e = e\<lparr>e_blocked := e_blocked e - {p}\<rparr>"

definition merge_sources :: "srcState list \<Rightarrow> srcState list \<Rightarrow> srcState list" where
  "merge_sources fresh old = map2 (\<lambda>f s. if ss_seen f then f else s) fresh old"

definition note_ok :: "env \<Rightarrow> path \<Rightarrow> engine \<Rightarrow> engine" where
  "note_ok en p e = e\<lparr>e_lastOK := (e_lastOK e)(p \<mapsto> en_now en), e_lastErr := (e_lastErr e)(p := None)\<rparr>"

definition failing_ref :: "fieldSpec \<Rightarrow> nat option \<Rightarrow> Ref" where
  "failing_ref spec pos = (case pos of Some i \<Rightarrow> sp_Refs spec ! i | None \<Rightarrow> hd (sp_Refs spec))"

definition refresh_field :: "sys \<Rightarrow> env \<Rightarrow> nat \<Rightarrow> engine \<Rightarrow> engine" where
  "refresh_field S en i e =
     (let spec = e_specs e ! i; p = sp_Path spec;
          e1 = e\<lparr>e_sources := (e_sources e)[i := merge_sources (seedChainSources S en spec) (e_sources e ! i)]\<rparr>
      in case recomputeWinner e1 i of
           (Inr val, _) \<Rightarrow> observe p val (clearBlock p (note_ok en p e1))
         | (Inl cherr, pos) \<Rightarrow>
            if err_is cherr ErrNotFound then handleChainNotFound S en spec cherr clearBlock e1
            else (case sp_OnFail spec of
               onFailUseDefault \<Rightarrow> observe p (default_value spec) (note_ok en p (clearBlock p e1))
             | onFailFail \<Rightarrow> reportTerminalError S en spec (failing_ref spec pos) cherr (e1\<lparr>e_blocked := insert p (e_blocked e1)\<rparr>)
             | onFailKeepLast \<Rightarrow> reportTerminalError S en spec (failing_ref spec pos) cherr (clearBlock p e1)))"

definition refreshNow :: "sys \<Rightarrow> env \<Rightarrow> engine \<Rightarrow> engine \<times> err option" where
  "refreshNow S en e = (let e1 = fold (refresh_field S en) [0..<length (e_specs e)] e
     in flush S en (set (map sp_Path (e_specs e1))) e1)"

subsection \<open>Pins\<close>

datatype pinKind = pinAt | pinCurrent | unpin | refresh

record pinCmd =
  pc_kind :: pinKind
  pc_version :: nat

record pinReply =
  pr_version :: nat
  pr_err :: "err option"

definition findSnapshot :: "engine \<Rightarrow> nat \<Rightarrow> Snapshot option" where
  "findSnapshot e v = find (\<lambda>s. sh_Version s = v) (e_history e)"

definition diffApplied :: "sys \<Rightarrow> engine \<Rightarrow> (path \<Rightarrow> string) \<Rightarrow> (path \<Rightarrow> string) \<Rightarrow> gval \<Rightarrow> gval \<Rightarrow> FieldChange list" where
  "diffApplied S e before after oldCfg newCfg =
     map (\<lambda>s. \<lparr>fc_Path = sp_Path s, fc_OldVersion = before (sp_Path s), fc_NewVersion = after (sp_Path s)\<rparr>)
       (filter (\<lambda>s. before (sp_Path s) \<noteq> after (sp_Path s)) (e_specs e))
     @ derivedFieldChanges (sy_R S) (sy_T S) oldCfg newCfg (sy_derives S) (e_specs e)"

definition handlePin :: "sys \<Rightarrow> env \<Rightarrow> pinCmd \<Rightarrow> engine \<Rightarrow> engine \<times> pinReply" where
  "handlePin S en cmd e =
     (let (e', reply) = (case pc_kind cmd of
        pinCurrent \<Rightarrow>
          (let servedVersion = (if e_pinned e then e_pinnedVersion e else e_version e);
               servedConfig = (if e_pinned e then e_pinnedConfig e else e_lastGood e);
               servedApplied = (if e_pinned e then e_pinnedApplied e else e_applied e)
           in (e\<lparr>e_pinned := True, e_pinnedVersion := servedVersion, e_pinnedConfig := servedConfig,
                 e_pinnedApplied := servedApplied, w_cfg := servedConfig\<rparr>,
               \<lparr>pr_version = servedVersion, pr_err = None\<rparr>))
      | pinAt \<Rightarrow> (case findSnapshot e (pc_version cmd) of
          None \<Rightarrow> (e, \<lparr>pr_version = 0, pr_err = Some (Sentinel ErrNoSuchSnapshot)\<rparr>)
        | Some snap \<Rightarrow> (e\<lparr>e_pinned := True, e_pinnedVersion := pc_version cmd, e_pinnedConfig := sh_Config snap,
             e_pinnedApplied := sh_applied snap, w_cfg := sh_Config snap\<rparr>, \<lparr>pr_version = pc_version cmd, pr_err = None\<rparr>))
      | unpin \<Rightarrow>
          if \<not> e_pinned e then (e, \<lparr>pr_version = 0, pr_err = None\<rparr>)
          else (let e1 = e\<lparr>e_pinned := False, w_cfg := e_lastGood e\<rparr>;
                    fcs = diffApplied S e (e_pinnedApplied e) (e_applied e) (e_pinnedConfig e) (e_lastGood e);
                    e2 = (if fcs \<noteq> [] then enqueue (o_queueDepth (sy_o S))
                            \<lparr>ch_Old = e_pinnedConfig e, ch_New = e_lastGood e, ch_Fields = fcs\<rparr> e1 else e1)
                in (e2\<lparr>e_pinnedApplied := (\<lambda>_. [])\<rparr>, \<lparr>pr_version = 0, pr_err = None\<rparr>))
      | refresh \<Rightarrow> (case refreshNow S en e of (e', err) \<Rightarrow> (e', \<lparr>pr_version = 0, pr_err = err\<rparr>)))
      in (publish S en e', reply))"

end
