(* ===== verification/Reconciler.thy ===== *)
theory Reconciler
  imports Apply
begin

text \<open>
  The reconciliation loop: \<^verbatim>\<open>Watch\<close>, \<^verbatim>\<open>engine.start\<close> and \<^verbatim>\<open>engine.loop\<close> of \<^verbatim>\<open>reconciler.go\<close>, with
  the debounce bookkeeping, as a step function on the engine and the relation of reachable states.

  One step is one case of the loop's select (an update of a source, the closing of the update
  channel, the debounce timer, a control command, cancellation) or the dispatch goroutine taking
  one event. Steps interleave in any order their guards allow, and the clock never runs backwards.
\<close>

subsection \<open>Debounce\<close>

definition refDebounceOverride :: "rt \<Rightarrow> Ref \<Rightarrow> duration option" where
  "refDebounceOverride R ref = (let v = Opt ref ''debounce'' in
     if v = [] then None
     else (case rt_ParseDuration R v of Some d \<Rightarrow> Some d | None \<Rightarrow> if v = ''0'' then Some 0 else None))"

fun debounce_walk :: "rt \<Rightarrow> Ref list \<Rightarrow> duration \<Rightarrow> bool \<Rightarrow> duration" where
  "debounce_walk R [] best has = best"
| "debounce_walk R (ref # refs) best has = (case refDebounceOverride R ref of
      None \<Rightarrow> debounce_walk R refs best has
    | Some d \<Rightarrow> if \<not> has \<or> d < best then debounce_walk R refs d True else debounce_walk R refs best has)"

definition debounceFor :: "sys \<Rightarrow> fieldSpec \<Rightarrow> duration" where
  "debounceFor S spec = debounce_walk (sy_R S) (sp_Refs spec) (o_debounce (sy_o S)) False"

definition disarm :: "engine \<Rightarrow> engine" where
  "disarm e = e\<lparr>e_timer := None\<rparr>"

text \<open>The timer is kept as the instant it fires.\<close>

definition arm :: "env \<Rightarrow> engine \<Rightarrow> engine" where
  "arm en e = (let d = time_sub (e_pendingSince e + e_window e) (en_now en)
     in e\<lparr>e_timer := Some (en_now en + (if d < 0 then 0 else d))\<rparr>)"

definition addPending :: "sys \<Rightarrow> env \<Rightarrow> fieldSpec \<Rightarrow> engine \<Rightarrow> engine" where
  "addPending S en spec e =
     (let w = debounceFor S spec;
          e1 = (if e_pending e = {} then e\<lparr>e_pendingSince := en_now en, e_window := w\<rparr>
                else if w < e_window e then e\<lparr>e_window := w\<rparr> else e)
      in e1\<lparr>e_pending := insert (sp_Path spec) (e_pending e)\<rparr>)"

definition markChanged :: "sys \<Rightarrow> env \<Rightarrow> fieldSpec \<Rightarrow> Value \<Rightarrow> engine \<Rightarrow> engine" where
  "markChanged S en spec val e =
     (if (case e_observed e (sp_Path spec) of Some cur \<Rightarrow> \<not> changed cur val | None \<Rightarrow> False) then e
      else arm en (addPending S en spec (e\<lparr>e_observed := (e_observed e)(sp_Path spec \<mapsto> val)\<rparr>)))"

text \<open>A field whose observed version is not the applied one.\<close>

definition unapplied :: "engine \<Rightarrow> fieldSpec \<Rightarrow> bool" where
  "unapplied e spec = (case e_observed e (sp_Path spec) of None \<Rightarrow> False | Some v \<Rightarrow> e_applied e (sp_Path spec) \<noteq> v_Version v)"

definition unblock :: "sys \<Rightarrow> env \<Rightarrow> path \<Rightarrow> engine \<Rightarrow> engine" where
  "unblock S en p e =
     (if p \<notin> e_blocked e then e
      else (let e1 = e\<lparr>e_blocked := e_blocked e - {p}\<rparr>;
                held = filter (unapplied e1) (e_specs e1);
                e2 = fold (addPending S en) held e1
            in if held \<noteq> [] then arm en e2 else e2))"

subsection \<open>The cases of the select\<close>

definition on_outcome :: "sys \<Rightarrow> env \<Rightarrow> nat \<Rightarrow> engine \<Rightarrow> engine" where
  "on_outcome S en idx e1 =
     (let spec = e_specs e1 ! idx; p = sp_Path spec
      in case recomputeWinner e1 idx of
           (Inr val, _) \<Rightarrow> markChanged S en spec val (markBootstrapReconciled S en p (unblock S en p (note_ok en p e1)))
         | (Inl cherr, wpos) \<Rightarrow>
            if err_is cherr ErrNotFound then handleChainNotFound S en spec cherr (unblock S en) e1
            else (case sp_OnFail spec of
               onFailUseDefault \<Rightarrow> markChanged S en spec (default_value spec)
                  (markBootstrapReconciled S en p (note_ok en p (unblock S en p e1)))
             | onFailFail \<Rightarrow> reportTerminalError S en spec (failing_ref spec wpos) cherr (e1\<lparr>e_blocked := insert p (e_blocked e1)\<rparr>)
             | onFailKeepLast \<Rightarrow> reportTerminalError S en spec (failing_ref spec wpos) cherr (e1\<lparr>e_blocked := e_blocked e1 - {p}\<rparr>)))"

definition on_update :: "sys \<Rightarrow> env \<Rightarrow> nat \<Rightarrow> nat \<Rightarrow> Update \<Rightarrow> engine \<Rightarrow> engine" where
  "on_update S en idx pos up e =
     publish S en (on_outcome S en idx (recordSourceUpdate S idx pos up (sp_Sensitive (e_specs e ! idx)) e))"

definition on_closed :: "engine \<Rightarrow> engine" where
  "on_closed e = (let e1 = e\<lparr>e_updatesOpen := False\<rparr>
     in if e_pending e1 = {} then (disarm e1)\<lparr>e_done := True\<rparr> else e1)"

definition on_timer :: "sys \<Rightarrow> env \<Rightarrow> engine \<Rightarrow> engine" where
  "on_timer S en e =
     (let e1 = fst (flush S en (e_pending e) e);
          e2 = publish S en (disarm (e1\<lparr>e_pending := {}\<rparr>))
      in if \<not> e_updatesOpen e2 then e2\<lparr>e_done := True\<rparr> else e2)"

definition on_cancel :: "engine \<Rightarrow> engine" where
  "on_cancel e = (disarm e)\<lparr>e_done := True\<rparr>"

definition on_dispatch :: "engine \<Rightarrow> engine" where
  "on_dispatch e = e\<lparr>e_dispatch := tl (e_dispatch e), e_delivered := e_delivered e @ [hd (e_dispatch e)]\<rparr>"

datatype input = InUpdate nat nat Update | InClosed | InTimer | InControl pinCmd | InCancel | InDispatch

definition enabled :: "env \<Rightarrow> input \<Rightarrow> engine \<Rightarrow> bool" where
  "enabled en i e = (case i of
     InUpdate idx pos up \<Rightarrow> \<not> e_done e \<and> e_updatesOpen e \<and> idx < length (e_specs e) \<and> pos < length (sp_Refs (e_specs e ! idx))
   | InClosed \<Rightarrow> \<not> e_done e \<and> e_updatesOpen e
   | InTimer \<Rightarrow> \<not> e_done e \<and> (case e_timer e of None \<Rightarrow> False | Some t \<Rightarrow> t \<le> en_now en)
   | InControl cmd \<Rightarrow> \<not> e_done e
   | InCancel \<Rightarrow> \<not> e_done e
   | InDispatch \<Rightarrow> e_dispatch e \<noteq> [])"

definition step :: "sys \<Rightarrow> env \<Rightarrow> input \<Rightarrow> engine \<Rightarrow> engine" where
  "step S en i e = (case i of
     InUpdate idx pos up \<Rightarrow> on_update S en idx pos up e
   | InClosed \<Rightarrow> on_closed e
   | InTimer \<Rightarrow> on_timer S en e
   | InControl cmd \<Rightarrow> fst (handlePin S en cmd e)
   | InCancel \<Rightarrow> on_cancel e
   | InDispatch \<Rightarrow> on_dispatch e)"

subsection \<open>Starting\<close>

definition empty_report :: Report where
  "empty_report = \<lparr>rp_Fields = [], rp_Snapshot = 0, rp_Live = 0, rp_Pinned = False, rp_Healthy = False,
     rp_GeneratedAt = 0, rp_Source = SourceNone, rp_Bootstrap = None\<rparr>"

definition seed_path :: "instant \<Rightarrow> resolved \<Rightarrow> engine \<Rightarrow> engine" where
  "seed_path at r e = (if \<not> rs_set r then e else
     (let p = sp_Path (rs_spec r) in e\<lparr>e_observed := (e_observed e)(p \<mapsto> rs_value r),
        e_applied := (e_applied e)(p := v_Version (rs_value r)), e_lastOK := (e_lastOK e)(p \<mapsto> at)\<rparr>))"

text \<open>The engine \<^verbatim>\<open>Watch\<close> builds from a load, before \<^verbatim>\<open>start\<close>.\<close>

definition fresh_engine :: "loaded \<Rightarrow> disk \<Rightarrow> event list \<Rightarrow> engine" where
  "fresh_engine l d tr = \<lparr>e_specs = map rs_spec (ld_res l), e_observed = Map.empty, e_applied = (\<lambda>_. []), e_lastOK = Map.empty,
     e_lastErr = Map.empty, e_lastGood = ld_cfg l, e_version = 1,
     e_sources = map (\<lambda>r. map (\<lambda>_. unseen) (sp_Refs (rs_spec r))) (ld_res l), e_blocked = {}, e_history = [],
     e_bootstrapPresent = False, e_bootstrapRestored = False, e_bootstrapServing = False, e_bootstrapWrittenAt = 0,
     e_bootstrapUnconfirmed = None, e_pinned = False, e_pinnedVersion = 0, e_pinnedConfig = ld_cfg l,
     e_pinnedApplied = (\<lambda>_. []), e_dispatch = [], e_delivered = [], e_pending = {}, e_timer = None,
     e_pendingSince = 0, e_window = 0, e_updatesOpen = True, e_done = False, e_disk = d, e_trace = tr,
     w_cfg = ld_cfg l, w_snapshots = [], w_report = empty_report\<rparr>"

definition seed_origin :: "loaded \<Rightarrow> engine \<Rightarrow> engine" where
  "seed_origin l e = (case ld_origin l of
     None \<Rightarrow> e
   | Some og \<Rightarrow> if bo_restored og then seedBootstrapOrigin og (ld_res l) e
       else e\<lparr>e_bootstrapPresent := bo_present og, e_bootstrapWrittenAt := bo_writtenAt og\<rparr>)"

definition confirmed_at :: "loaded \<Rightarrow> instant \<Rightarrow> instant" where
  "confirmed_at l now = (case ld_origin l of Some og \<Rightarrow> if bo_restored og then bo_writtenAt og else now | None \<Rightarrow> now)"

definition initial_engine :: "sys \<Rightarrow> env \<Rightarrow> loaded \<Rightarrow> disk \<Rightarrow> event list \<Rightarrow> engine" where
  "initial_engine S en l d tr =
     (let e1 = publish S en (fold (seed_path (confirmed_at l (en_now en))) (ld_res l) (seed_origin l (fresh_engine l d tr)));
          h = [\<lparr>sh_Version = e_version e1, sh_At = en_now en, sh_Config = ld_cfg l, sh_Fields = [], sh_applied = e_applied e1\<rparr>]
      in e1\<lparr>e_history := h, w_snapshots := h\<rparr>)"

definition start :: "sys \<Rightarrow> env \<Rightarrow> engine \<Rightarrow> engine" where
  "start S en e = publish S en (e\<lparr>e_sources := map2 (\<lambda>spec old. if length (sp_Refs spec) > 1 then seedChainSources S en spec else old)
     (e_specs e) (e_sources e)\<rparr>)"

text \<open>
  \<open>Watch\<close> on a load made in environment \<open>en\<close>, started in \<open>en'\<close>. Binding the admin listener is not
  part of the model.
\<close>

definition Watch :: "crypto \<Rightarrow> rt \<Rightarrow> gtype \<Rightarrow> options \<Rightarrow> env \<Rightarrow> env \<Rightarrow> disk \<Rightarrow> err + (sys \<times> engine)" where
  "Watch C R T o' en en' d =
     (case typedPreApply T o' of Inl e \<Rightarrow> Inl e
      | Inr hook \<Rightarrow> (case typedOnChange T o' of Inl e \<Rightarrow> Inl e
      | Inr _ \<Rightarrow> (case typedDerives T o' of Inl e \<Rightarrow> Inl e
      | Inr derives \<Rightarrow> (case loadValue C R T o' en d of
           (Inl e, _, _) \<Rightarrow> Inl e
         | (Inr l, errs, d') \<Rightarrow>
            (let S = \<lparr>sy_C = C, sy_R = R, sy_T = T, sy_o = o', sy_derives = derives, sy_hook = hook\<rparr>
             in Inr (S, start S en' (initial_engine S en' l d' (map EmitErr errs))))))))"

subsection \<open>Reachable states\<close>

inductive reach :: "sys \<Rightarrow> engine \<Rightarrow> instant \<Rightarrow> engine \<Rightarrow> bool" for S e0 where
  reach_start: "reach S e0 t e0"
| reach_step: "reach S e0 t e \<Longrightarrow> t \<le> en_now en \<Longrightarrow> enabled en i e \<Longrightarrow> reach S e0 (en_now en) (step S en i e)"

inductive_cases reach_elim: "reach S e0 t e"

text \<open>What a caller reads.\<close>

definition Get :: "engine \<Rightarrow> gval" where "Get e = w_cfg e"

definition History :: "engine \<Rightarrow> Snapshot list" where "History e = w_snapshots e"

definition Pinned :: "engine \<Rightarrow> nat option" where
  "Pinned e = (if rp_Pinned (w_report e) then Some (rp_Snapshot (w_report e)) else None)"

end
