(* ===== verification/Invariants.thy ===== *)
theory Invariants
  imports Reconciler
begin

text \<open>
  What the reconciler's operations leave alone, and the invariants of the states it can reach.

  The locales \<open>quiet\<close> and \<open>settled\<close> state that a view of the engine does not look at the fields the
  book-keeping operations write; their lemmas then give the frame of each operation once, for
  every view that interprets them.
\<close>

subsection \<open>Frames\<close>

locale quiet =
  fixes view :: "engine \<Rightarrow> 'v"
  assumes view_trace [simp]: "view (e_trace_update f e) = view e"
    and view_disk [simp]: "view (e_disk_update g e) = view e"
    and view_present [simp]: "view (e_bootstrapPresent_update h e) = view e"
    and view_written [simp]: "view (e_bootstrapWrittenAt_update k e) = view e"
    and view_serving [simp]: "view (e_bootstrapServing_update h e) = view e"
    and view_unconfirmed [simp]: "view (e_bootstrapUnconfirmed_update m e) = view e"
    and view_report [simp]: "view (w_report_update n e) = view e"
begin

lemma view_record_event [simp]: "view (record_event ev e) = view e"
  by (simp add: record_event_def)

lemma view_emitErr [simp]: "view (emitErr S x e) = view e"
  by (simp add: emitErr_def)

lemma view_publish [simp]: "view (publish S en e) = view e"
  by (simp add: publish_def)

lemma view_persist [simp]: "view (persist_engine S en e) = view e"
  by (auto simp: persist_engine_def Let_def split: option.splits prod.splits)

lemma view_reconciled [simp]: "view (markBootstrapReconciled S en p e) = view e"
  by (auto simp: markBootstrapReconciled_def split: option.splits)

lemma view_refreshes [simp]: "view (record_refreshes fcs e) = view e"
  unfolding record_refreshes_def by (induction fcs arbitrary: e) auto

end

locale settled = quiet +
  assumes view_sources [simp]: "view (e_sources_update f1 e) = view e"
    and view_lastErr [simp]: "view (e_lastErr_update f2 e) = view e"
    and view_lastOK [simp]: "view (e_lastOK_update f3 e) = view e"
    and view_blocked [simp]: "view (e_blocked_update f4 e) = view e"
    and view_observed [simp]: "view (e_observed_update f5 e) = view e"
    and view_pending [simp]: "view (e_pending_update f6 e) = view e"
    and view_timer [simp]: "view (e_timer_update f7 e) = view e"
    and view_since [simp]: "view (e_pendingSince_update f8 e) = view e"
    and view_window [simp]: "view (e_window_update f9 e) = view e"
begin

lemma view_recordSource [simp]: "view (recordSourceUpdate S i pos up sens e) = view e"
  by (simp add: recordSourceUpdate_def Let_def)

lemma view_terminal [simp]: "view (reportTerminalError S en spec ref err e) = view e"
  by (simp add: reportTerminalError_def Let_def)

lemma view_notFound: "(\<And>p e. view (ub p e) = view e) \<Longrightarrow> view (handleChainNotFound S en spec err ub e) = view e"
  by (simp add: handleChainNotFound_def Let_def)

lemma view_observe [simp]: "view (observe p v e) = view e"
  by (simp add: observe_def split: option.splits)

lemma view_clearBlock [simp]: "view (clearBlock p e) = view e"
  by (simp add: clearBlock_def)

lemma view_note_ok [simp]: "view (note_ok en p e) = view e"
  by (simp add: note_ok_def)

lemma view_disarm [simp]: "view (disarm e) = view e"
  by (simp add: disarm_def)

lemma view_arm [simp]: "view (arm en e) = view e"
  by (simp add: arm_def Let_def)

lemma view_addPending [simp]: "view (addPending S en spec e) = view e"
  by (simp add: addPending_def Let_def)

lemma view_markChanged [simp]: "view (markChanged S en spec v e) = view e"
  by (simp add: markChanged_def split: option.splits)

lemma view_fold_addPending [simp]: "view (fold (addPending S en) specs e) = view e"
  by (induction specs arbitrary: e) auto

lemma view_unblock [simp]: "view (unblock S en p e) = view e"
  by (simp add: unblock_def Let_def)

lemma view_on_outcome [simp]: "view (on_outcome S en i e) = view e"
  by (auto simp: on_outcome_def Let_def view_notFound split: prod.splits sum.splits onFailPolicy.splits)

lemma view_on_update [simp]: "view (on_update S en i pos up e) = view e"
  by (simp add: on_update_def)

lemma view_refresh_field [simp]: "view (refresh_field S en i e) = view e"
  by (auto simp: refresh_field_def Let_def view_notFound split: prod.splits sum.splits onFailPolicy.splits)

lemma view_fold_refresh [simp]: "view (fold (refresh_field S en) is e) = view e"
  by (induction "is" arbitrary: e) auto

end

text \<open>What has been applied, and what is being served.\<close>

definition apply_view where
  "apply_view e = (e_specs e, e_lastGood e, e_version e, e_history e, w_snapshots e, w_cfg e,
     e_pinned e, e_pinnedVersion e, e_pinnedConfig e, e_pinnedApplied e)"

interpretation av: settled apply_view
  by unfold_locales (simp_all add: apply_view_def)

definition queue_view where
  "queue_view e = (e_dispatch e, e_delivered e)"

interpretation qv: settled queue_view
  by unfold_locales (simp_all add: queue_view_def)

lemma queue_view_cfg [simp]: "queue_view (w_cfg_update f e) = queue_view e"
  by (simp add: queue_view_def)

interpretation sv: settled e_specs
  by unfold_locales simp_all

interpretation apv: settled e_applied
  by unfold_locales simp_all

lemma apply_viewD:
  assumes "apply_view e = apply_view e'"
  shows "e_specs e = e_specs e'" "e_lastGood e = e_lastGood e'" "e_version e = e_version e'" "e_history e = e_history e'"
    "w_snapshots e = w_snapshots e'" "w_cfg e = w_cfg e'" "e_pinned e = e_pinned e'" "e_pinnedVersion e = e_pinnedVersion e'"
    "e_pinnedConfig e = e_pinnedConfig e'" "e_pinnedApplied e = e_pinnedApplied e'"
  using assms by (simp_all add: apply_view_def)

subsection \<open>The dispatch queue\<close>

text \<open>
  A bounded queue that keeps the newest entries: what a client of \<^verbatim>\<open>enqueue\<close> may rely on.
\<close>

locale drop_oldest =
  fixes put :: "'a \<Rightarrow> 's \<Rightarrow> 's" and contents :: "'s \<Rightarrow> 'a list" and depth :: nat
  assumes put_contents: "0 < depth \<Longrightarrow> length (contents s) \<le> depth \<Longrightarrow>
      contents (put x s) = drop (Suc (length (contents s)) - depth) (contents s @ [x])"
begin

lemma put_bounded: "0 < depth \<Longrightarrow> length (contents s) \<le> depth \<Longrightarrow> length (contents (put x s)) \<le> depth"
  by (simp add: put_contents)

lemma put_newest: "0 < depth \<Longrightarrow> length (contents s) \<le> depth \<Longrightarrow> contents (put x s) \<noteq> [] \<and> last (contents (put x s)) = x"
  by (simp add: put_contents last_drop)

lemma puts_contents:
  "0 < depth \<Longrightarrow> length (contents s) \<le> depth \<Longrightarrow>
     contents (fold put xs s) = drop (length (contents s) + length xs - depth) (contents s @ xs)"
proof (induction xs arbitrary: s)
  case (Cons x xs)
  have l: "length (contents (put x s)) \<le> depth" by (rule put_bounded [OF Cons.prems])
  have n: "length (contents (put x s)) = Suc (length (contents s)) - (Suc (length (contents s)) - depth)"
    using Cons.prems by (simp add: put_contents)
  have "contents (fold put (x # xs) s) = drop (length (contents (put x s)) + length xs - depth) (contents (put x s) @ xs)"
    using Cons.IH [OF Cons.prems(1) l] by simp
  also have "contents (put x s) @ xs = drop (Suc (length (contents s)) - depth) (contents s @ x # xs)"
    using Cons.prems by (simp add: put_contents)
  finally have "contents (fold put (x # xs) s)
     = drop (length (contents (put x s)) + length xs - depth + (Suc (length (contents s)) - depth)) (contents s @ x # xs)"
    by (simp only: drop_drop)
  moreover have "length (contents (put x s)) + length xs - depth + (Suc (length (contents s)) - depth)
     = length (contents s) + length (x # xs) - depth"
    using n Cons.prems(2) by (cases "Suc (length (contents s)) \<le> depth") simp_all
  ultimately show ?case by simp
qed simp

end

lemma enqueue_room: "length (e_dispatch e) < depth \<Longrightarrow> enqueue depth ev e = e\<lparr>e_dispatch := e_dispatch e @ [ev]\<rparr>"
  by (subst enqueue.simps) simp

lemma enqueue_full:
  "0 < depth \<Longrightarrow> length (e_dispatch e) = depth \<Longrightarrow>
     enqueue depth ev e = (record_event RecordChangeDropped e)\<lparr>e_dispatch := tl (e_dispatch e) @ [ev]\<rparr>"
  by (subst enqueue.simps) (auto simp: enqueue_room record_event_def)

lemma enqueue_contents:
  assumes "0 < depth" "length (e_dispatch e) \<le> depth"
  shows "e_dispatch (enqueue depth ev e) = drop (Suc (length (e_dispatch e)) - depth) (e_dispatch e @ [ev])"
proof (cases "length (e_dispatch e) < depth")
  case True
  then show ?thesis by (simp add: enqueue_room)
next
  case False
  then have "length (e_dispatch e) = depth" "e_dispatch e \<noteq> []" using assms by auto
  then show ?thesis using enqueue_full [OF assms(1)] assms(1) by (simp add: drop_Suc)
qed

interpretation dq: drop_oldest "enqueue depth" e_dispatch depth for depth
  by unfold_locales (rule enqueue_contents)

lemma view_enqueue:
  assumes "\<And>f e. view (e_dispatch_update f e) = view e" "\<And>f e. view (e_delivered_update f e) = view e"
    "\<And>f e. view (e_trace_update f e) = view e"
  shows "view (enqueue depth ev e) = view e"
proof (induction depth ev e rule: enqueue.induct)
  case (1 depth ev e)
  have "view (record_event RecordChangeDropped (e\<lparr>e_dispatch := tl (e_dispatch e)\<rparr>)) = view e"
    by (simp add: record_event_def assms)
  then show ?case using 1 by (subst enqueue.simps) (auto simp: assms(1,2))
qed

lemma apply_view_enqueue [simp]: "apply_view (enqueue depth ev e) = apply_view e"
  by (rule view_enqueue) (simp_all add: apply_view_def)

lemma specs_enqueue [simp]: "e_specs (enqueue depth ev e) = e_specs e"
  by (rule view_enqueue) simp_all

text \<open>Either the event is queued or, with no room to buffer, it is handed over.\<close>

lemma enqueue_one:
  "(\<exists>q. e_dispatch (enqueue depth ev e) = q @ [ev] \<and> (\<exists>k. q = drop k (e_dispatch e)) \<and> e_delivered (enqueue depth ev e) = e_delivered e)
   \<or> (depth = 0 \<and> e_dispatch (enqueue depth ev e) = [] \<and> e_delivered (enqueue depth ev e) = e_delivered e @ [ev])"
proof (induction depth ev e rule: enqueue.induct)
  case (1 depth ev e)
  show ?case
  proof (cases "length (e_dispatch e) < depth \<or> e_dispatch e = []")
    case True
    then show ?thesis by (subst (1 2 3 4) enqueue.simps) (auto intro: exI [of _ 0])
  next
    case False
    let ?e = "record_event RecordChangeDropped (e\<lparr>e_dispatch := tl (e_dispatch e)\<rparr>)"
    have "enqueue depth ev e = enqueue depth ev ?e" using False by (subst enqueue.simps) auto
    moreover have "e_delivered ?e = e_delivered e" "\<And>k. drop k (e_dispatch ?e) = drop (Suc k) (e_dispatch e)"
      by (simp_all add: record_event_def drop_Suc)
    ultimately show ?thesis using 1 False by metis
  qed
qed

subsection \<open>Candidates\<close>

lemma view_buildCandidate:
  assumes "quiet view" "\<And>f e. view (e_applied_update f e) = view e"
  shows "view (fst (buildCandidate S e)) = view e"
  using assms(2) quiet.view_emitErr [OF assms(1)] quiet.view_record_event [OF assms(1)]
  by (auto simp: buildCandidate_def split: sum.splits option.splits prod.splits)

lemma quiet_views: "quiet apply_view" "quiet queue_view" "quiet e_specs"
  using av.quiet_axioms qv.quiet_axioms sv.quiet_axioms by blast+

lemma buildCandidate_views [simp]:
  "apply_view (fst (buildCandidate S e)) = apply_view e"
  "queue_view (fst (buildCandidate S e)) = queue_view e"
  "e_specs (fst (buildCandidate S e)) = e_specs e"
  by (rule view_buildCandidate, simp add: quiet_views, simp add: apply_view_def queue_view_def)+

lemma buildCandidate_Inr:
  assumes "buildCandidate S e = (e1, Inr (cand, fcs))"
  shows "e_blocked e = {} \<and> o_validator (sy_o S) cand = None
    \<and> bind_res (build_fields (sy_R S) (e_observed e) (e_specs e) (zero_val (sy_T S))) (run_derives (sy_derives S)) = Inr cand
    \<and> e1 = e\<lparr>e_applied := snd (diff_observed (e_observed e) (e_specs e) (e_applied e))\<rparr>
    \<and> fcs = fst (diff_observed (e_observed e) (e_specs e) (e_applied e))
        @ derivedFieldChanges (sy_R S) (sy_T S) (e_lastGood e) cand (sy_derives S) (e_specs e)"
  using assms by (auto simp: buildCandidate_def split: if_splits sum.splits option.splits prod.splits)

subsection \<open>What a flush does\<close>

definition gate_event :: "engine \<Rightarrow> gval \<Rightarrow> FieldChange list \<Rightarrow> Change" where
  "gate_event e cand fcs = \<lparr>ch_Old = e_lastGood e, ch_New = cand, ch_Fields = fcs\<rparr>"

definition keep_newest :: "nat \<Rightarrow> 'a list \<Rightarrow> 'a list" where
  "keep_newest n xs = drop (length xs - n) xs"

text \<open>The outcomes of a flush: nothing moves, or exactly one new snapshot is applied.\<close>

definition flush_applied :: "sys \<Rightarrow> env \<Rightarrow> engine \<Rightarrow> engine \<Rightarrow> gval \<Rightarrow> FieldChange list \<Rightarrow> bool" where
  "flush_applied S en e e' cand fcs \<longleftrightarrow>
     (let snap = \<lparr>sh_Version = e_version e + 1, sh_At = en_now en, sh_Config = cand, sh_Fields = fcs,
            sh_applied = snd (diff_observed (e_observed e) (e_specs e) (e_applied e))\<rparr>;
          h = keep_newest (o_historyN (sy_o S) + 1) (e_history e @ [snap])
      in apply_view e' = (e_specs e, cand, e_version e + 1, h, rev h, (if e_pinned e then w_cfg e else cand),
           e_pinned e, e_pinnedVersion e, e_pinnedConfig e, e_pinnedApplied e)
       \<and> (if e_pinned e then queue_view e' = queue_view e
          else queue_view e' = queue_view (enqueue (o_queueDepth (sy_o S)) (gate_event e cand fcs) e)))"

lemma enqueue_queue_view: "queue_view e = queue_view e' \<Longrightarrow> queue_view (enqueue d ev e) = queue_view (enqueue d ev e')"
proof (induction d ev e arbitrary: e' rule: enqueue.induct)
  case (1 d ev e)
  have q: "e_dispatch e' = e_dispatch e" "e_delivered e' = e_delivered e" using 1(2) by (simp_all add: queue_view_def)
  show ?case
  proof (cases "length (e_dispatch e) < d \<or> e_dispatch e = []")
    case True
    then show ?thesis by (subst (1 2) enqueue.simps) (auto simp: q queue_view_def)
  next
    case False
    have "queue_view (enqueue d ev (record_event RecordChangeDropped (e\<lparr>e_dispatch := tl (e_dispatch e)\<rparr>)))
       = queue_view (enqueue d ev (record_event RecordChangeDropped (e'\<lparr>e_dispatch := tl (e_dispatch e')\<rparr>)))"
      using False by (intro 1(1)) (auto simp: q queue_view_def record_event_def)
    then show ?thesis using False by (subst (1 2) enqueue.simps) (auto simp: q)
  qed
qed

lemma flush_refused:
  assumes "P \<noteq> {}" "buildCandidate S e = (e1, Inr (cand, fcs))" "fcs \<noteq> []"
    "runPreApply (sy_hook S) (en_hook en) (en_ctxErr en) (gate_event e cand fcs) = Some x"
  shows "flush S en P e = (emitErr S x (record_event (RecordApplyRejected RejectPreApply)
     (e\<lparr>e_applied := rollback fcs (e_applied e1)\<rparr>)), Some x)"
  using assms buildCandidate_Inr [OF assms(2)] by (simp add: flush_def gate_event_def)

lemma flush_accepted:
  assumes "P \<noteq> {}" "buildCandidate S e = (e1, Inr (cand, fcs))" "fcs \<noteq> []"
    "runPreApply (sy_hook S) (en_hook en) (en_ctxErr en) (gate_event e cand fcs) = None"
  shows "\<exists>e'. flush S en P e = (e', None) \<and> flush_applied S en e e' cand fcs"
proof -
  let ?ev = "gate_event e cand fcs" and ?d = "o_queueDepth (sy_o S)"
  let ?e1 = "recordSnapshot S en cand fcs (e1\<lparr>e_version := e_version e1 + 1, e_lastGood := cand\<rparr>)"
  let ?e2 = "persist_engine S en ?e1"
  let ?e' = "if e_pinned e then publish S en (record_refreshes fcs ?e2)
    else publish S en (enqueue ?d ?ev (record_refreshes fcs (?e2\<lparr>w_cfg := cand\<rparr>)))"
  note bi = buildCandidate_Inr [OF assms(2)]
  have lg: "e_lastGood e1 = e_lastGood e" using bi by simp
  have q1: "queue_view ?e2 = queue_view e"
    using buildCandidate_views(2) [of S e] assms(2) by simp (simp add: recordSnapshot_def Let_def queue_view_def)
  have a1: "apply_view ?e2 = apply_view ?e1" by simp
  have p2: "e_pinned ?e2 = e_pinned e" using apply_viewD(7) [OF a1] bi by (simp add: recordSnapshot_def Let_def)
  have f: "flush S en P e = (?e', None)"
    using assms p2 lg by (simp add: flush_def gate_event_def Let_def)
  have av: "apply_view ?e' = apply_view (if e_pinned e then ?e2 else ?e2\<lparr>w_cfg := cand\<rparr>)" by simp
  have "queue_view (record_refreshes fcs (?e2\<lparr>w_cfg := cand\<rparr>)) = queue_view e" using q1 by simp
  from enqueue_queue_view [OF this, of ?d ?ev]
  have qv: "queue_view ?e' = (if e_pinned e then queue_view e else queue_view (enqueue ?d ?ev e))" using q1 by simp
  have hist: "(if length h > n then drop (length h - n) h else h) = keep_newest n h" for h :: "Snapshot list" and n
    by (simp add: keep_newest_def)
  have "flush_applied S en e ?e' cand fcs"
    using av qv a1 bi unfolding flush_applied_def by (auto simp: apply_view_def recordSnapshot_def Let_def hist)
  then show ?thesis using f by blast
qed

lemma flush_cases:
  assumes "flush S en P e = (e', r)"
  obtains (unmoved) "apply_view e' = apply_view e" "queue_view e' = queue_view e"
  | (applied) e1 cand fcs where "P \<noteq> {}" "buildCandidate S e = (e1, Inr (cand, fcs))" "fcs \<noteq> []" "r = None"
      "runPreApply (sy_hook S) (en_hook en) (en_ctxErr en) (gate_event e cand fcs) = None"
      "flush_applied S en e e' cand fcs"
proof (cases "P = {}")
  case True
  then show ?thesis using assms unmoved by (simp add: flush_def)
next
  case False
  obtain e1 bc where b: "buildCandidate S e = (e1, bc)" by fastforce
  have v: "apply_view e1 = apply_view e" "queue_view e1 = queue_view e" using buildCandidate_views(1,2) [of S e] b by simp_all
  consider err where "bc = Inl err" | cand where "bc = Inr (cand, [])" | cand fcs where "bc = Inr (cand, fcs)" "fcs \<noteq> []"
    by (metis sumE surj_pair)
  then show ?thesis
  proof cases
    case (3 cand fcs)
    note bb = b [unfolded 3(1)]
    show ?thesis
    proof (cases "runPreApply (sy_hook S) (en_hook en) (en_ctxErr en) (gate_event e cand fcs)")
      case (Some x)
      have "apply_view (e\<lparr>e_applied := m\<rparr>) = apply_view e" "queue_view (e\<lparr>e_applied := m\<rparr>) = queue_view e" for m
        by (simp_all add: apply_view_def queue_view_def)
      then show ?thesis using unmoved assms flush_refused [OF False bb 3(2) Some] by auto
    next
      case None
      then show ?thesis using applied assms flush_accepted [OF False bb 3(2) None] False bb 3(2) by auto
    qed
  qed (use assms unmoved v b False in \<open>simp_all add: flush_def\<close>)
qed

subsection \<open>The serving invariant\<close>

definition valid_cfg :: "sys \<Rightarrow> gval \<Rightarrow> bool" where
  "valid_cfg S v \<longleftrightarrow> o_validator (sy_o S) v = None"

text \<open>Retained versions are consecutive and end at the current one.\<close>

definition consecutive :: "nat \<Rightarrow> Snapshot list \<Rightarrow> bool" where
  "consecutive v h \<longleftrightarrow> map sh_Version h = [v + 1 - length h..<v + 1]"

definition history_inv :: "sys \<Rightarrow> engine \<Rightarrow> bool" where
  "history_inv S e \<longleftrightarrow> e_history e \<noteq> [] \<and> length (e_history e) \<le> o_historyN (sy_o S) + 1
     \<and> length (e_history e) \<le> e_version e
     \<and> consecutive (e_version e) (e_history e) \<and> sh_Config (last (e_history e)) = e_lastGood e \<and> w_snapshots e = rev (e_history e)
     \<and> (\<forall>s\<in>set (e_history e). valid_cfg S (sh_Config s))"

definition served_inv :: "sys \<Rightarrow> engine \<Rightarrow> bool" where
  "served_inv S e \<longleftrightarrow> (if e_pinned e
     then w_cfg e = e_pinnedConfig e \<and> valid_cfg S (e_pinnedConfig e) \<and> 0 < e_pinnedVersion e \<and> e_pinnedVersion e \<le> e_version e
     else w_cfg e = e_lastGood e)"

definition serve_inv :: "sys \<Rightarrow> engine \<Rightarrow> bool" where
  "serve_inv S e \<longleftrightarrow> history_inv S e \<and> served_inv S e"

lemma serve_inv_lastGood: "history_inv S e \<Longrightarrow> valid_cfg S (e_lastGood e)"
  by (metis history_inv_def last_in_set)

lemma serve_inv_view: "apply_view e = apply_view e' \<Longrightarrow> serve_inv S e = serve_inv S e'"
  by (simp add: apply_view_def serve_inv_def history_inv_def served_inv_def)

lemma consecutive_snoc:
  assumes "length h \<le> n" "h \<noteq> []" "consecutive n h" "sh_Version x = n + 1"
  shows "consecutive (n + 1) (keep_newest m (h @ [x]))"
proof -
  let ?k = "length h"
  have k: "0 < ?k" "?k \<le> n" using assms(1,2) by simp_all
  have "map sh_Version (h @ [x]) = [n + 1 - ?k..<n + 1] @ [n + 1]" using assms(3,4) by (simp add: consecutive_def)
  also have "\<dots> = [n + 1 - ?k..<n + 2]" by simp
  finally have "drop (Suc ?k - m) (map sh_Version (h @ [x])) = [n + 1 - ?k + (Suc ?k - m)..<n + 2]"
    by (simp only: drop_upt)
  then have "map sh_Version (keep_newest m (h @ [x])) = [n + 1 - ?k + (Suc ?k - m)..<n + 2]"
    by (simp only: keep_newest_def drop_map length_append list.size) simp
  moreover have "n + 1 - ?k + (Suc ?k - m) = n + 1 + 1 - length (keep_newest m (h @ [x]))"
    using k by (simp add: keep_newest_def)
  ultimately show ?thesis unfolding consecutive_def by simp
qed

lemma history_inv_version: "history_inv S e \<Longrightarrow> 0 < e_version e"
  unfolding history_inv_def by (cases "e_history e") auto

lemma flush_applied_inv:
  assumes i: "serve_inv S e" and f: "flush_applied S en e e' cand fcs" and v: "valid_cfg S cand"
  shows "serve_inv S e'"
proof -
  define snap where "snap = \<lparr>sh_Version = e_version e + 1, sh_At = en_now en, sh_Config = cand, sh_Fields = fcs,
            sh_applied = snd (diff_observed (e_observed e) (e_specs e) (e_applied e))\<rparr>"
  define h where "h = keep_newest (o_historyN (sy_o S) + 1) (e_history e @ [snap])"
  have e': "e_lastGood e' = cand" "e_version e' = e_version e + 1" "e_history e' = h" "w_snapshots e' = rev h"
    "w_cfg e' = (if e_pinned e then w_cfg e else cand)" "e_pinned e' = e_pinned e"
    "e_pinnedVersion e' = e_pinnedVersion e" "e_pinnedConfig e' = e_pinnedConfig e"
    using f by (auto simp: flush_applied_def apply_view_def snap_def h_def Let_def)
  have hi: "e_history e \<noteq> []" "length (e_history e) \<le> e_version e"
    "consecutive (e_version e) (e_history e)" "\<forall>s\<in>set (e_history e). valid_cfg S (sh_Config s)" using i by (auto simp: serve_inv_def history_inv_def)
  have hlen: "h \<noteq> []" "length h \<le> o_historyN (sy_o S) + 1" "length h \<le> e_version e + 1" "last h = snap"
    using hi(2) by (auto simp: h_def keep_newest_def last_drop)
  have "set h \<subseteq> set (e_history e @ [snap])" unfolding h_def keep_newest_def by (rule set_drop_subset)
  then have "\<forall>s\<in>set h. valid_cfg S (sh_Config s)" using hi(4) v by (auto simp: snap_def)
  moreover have "consecutive (e_version e + 1) h"
    unfolding h_def by (rule consecutive_snoc [OF hi(2,1,3)]) (simp add: snap_def)
  ultimately have "history_inv S e'" unfolding history_inv_def e' using hlen by (simp add: snap_def)
  moreover have "served_inv S e'" using i e' by (auto simp: serve_inv_def served_inv_def)
  ultimately show ?thesis by (simp add: serve_inv_def)
qed

lemma flush_inv: "serve_inv S e \<Longrightarrow> serve_inv S (fst (flush S en P e))"
proof -
  assume i: "serve_inv S e"
  obtain e' r where f: "flush S en P e = (e', r)" by fastforce
  from f show ?thesis
  proof (cases rule: flush_cases)
    case unmoved
    then show ?thesis using i serve_inv_view [OF unmoved(1)] f by simp
  next
    case (applied e1 cand fcs)
    have "valid_cfg S cand" using buildCandidate_Inr [OF applied(2)] by (simp add: valid_cfg_def)
    then show ?thesis using flush_applied_inv [OF i applied(6)] f by simp
  qed
qed

lemma findSnapshot_Some: "findSnapshot e v = Some s \<Longrightarrow> s \<in> set (e_history e) \<and> sh_Version s = v"
  by (auto simp: findSnapshot_def find_Some_iff)

lemma findSnapshot_inv:
  assumes "history_inv S e" "findSnapshot e v = Some s"
  shows "valid_cfg S (sh_Config s) \<and> 0 < v \<and> v \<le> e_version e"
proof -
  note f = findSnapshot_Some [OF assms(2)]
  have "v \<in> set (map sh_Version (e_history e))" using f by auto
  then have "v \<in> set [e_version e + 1 - length (e_history e)..<e_version e + 1]"
    using assms(1) by (simp only: history_inv_def consecutive_def)
  then show ?thesis using f assms(1) by (auto simp: history_inv_def)
qed

text \<open>A control command that is not a refresh, before the report is published.\<close>

lemma handlePin_refresh: "pc_kind cmd = refresh \<Longrightarrow> fst (handlePin S en cmd e) = publish S en (fst (refreshNow S en e))"
  by (simp add: handlePin_def split: prod.splits)

lemma refreshNow_flush: "refreshNow S en e = flush S en (set (map sp_Path (e_specs e))) (fold (refresh_field S en) [0..<length (e_specs e)] e)"
  by (simp add: refreshNow_def Let_def)

lemma handlePin_inv:
  assumes "serve_inv S e"
  shows "serve_inv S (fst (handlePin S en cmd e))"
proof (cases "pc_kind cmd")
  case refresh
  have "serve_inv S (fold (refresh_field S en) [0..<length (e_specs e)] e)"
    using assms serve_inv_view [OF av.view_fold_refresh] by blast
  then have "serve_inv S (fst (refreshNow S en e))" unfolding refreshNow_flush by (rule flush_inv)
  then show ?thesis using handlePin_refresh [OF refresh] serve_inv_view [OF av.view_publish] by metis
next
  case pinCurrent
  then show ?thesis using assms serve_inv_lastGood [of S e] history_inv_version [of S e]
    by (auto simp: handlePin_def Let_def publish_def serve_inv_def served_inv_def history_inv_def)
next
  case pinAt
  show ?thesis
  proof (cases "findSnapshot e (pc_version cmd)")
    case None
    then show ?thesis using assms pinAt serve_inv_view [OF av.view_publish] by (simp add: handlePin_def)
  next
    case (Some s)
    then show ?thesis using assms pinAt findSnapshot_inv [OF _ Some]
      by (auto simp: handlePin_def publish_def serve_inv_def served_inv_def history_inv_def)
  qed
next
  case unpin
  show ?thesis
  proof (cases "e_pinned e")
    case False
    then show ?thesis using assms unpin serve_inv_view [OF av.view_publish] by (simp add: handlePin_def)
  next
    case True
    obtain e2 where e2: "fst (handlePin S en cmd e) = publish S en (e2\<lparr>e_pinnedApplied := (\<lambda>_. [])\<rparr>)"
      "apply_view e2 = apply_view (e\<lparr>e_pinned := False, w_cfg := e_lastGood e\<rparr>)"
      using unpin True by (auto simp: handlePin_def Let_def)
    have "serve_inv S (e\<lparr>e_pinned := False, w_cfg := e_lastGood e\<rparr>)"
      using assms by (auto simp: serve_inv_def served_inv_def history_inv_def)
    then have "serve_inv S e2" using serve_inv_view [OF e2(2)] by simp
    then show ?thesis unfolding e2(1)
      by (auto simp: publish_def serve_inv_def served_inv_def history_inv_def)
  qed
qed

lemma step_inv:
  assumes "serve_inv S e"
  shows "serve_inv S (step S en i e)"
proof (cases i)
  case (InUpdate idx pos up)
  then show ?thesis using assms serve_inv_view [OF av.view_on_update] by (simp add: step_def)
next
  case InTimer
  have "serve_inv S (fst (flush S en (e_pending e) e))" by (rule flush_inv [OF assms])
  then show ?thesis unfolding step_def InTimer
    by (auto simp: on_timer_def Let_def disarm_def publish_def serve_inv_def served_inv_def history_inv_def)
next
  case (InControl cmd)
  then show ?thesis using handlePin_inv [OF assms] by (simp add: step_def)
qed (use assms in \<open>auto simp: step_def on_closed_def on_cancel_def on_dispatch_def disarm_def Let_def serve_inv_def served_inv_def history_inv_def\<close>)

lemma reach_inv: "reach S e0 t e \<Longrightarrow> serve_inv S e0 \<Longrightarrow> serve_inv S e"
  by (induction rule: reach.induct) (auto intro: step_inv)

end
