(* ===== verification/Progress.thy ===== *)
theory Progress
  imports Invariants
begin

text \<open>
  Two further invariants of the reachable states: a blocked field always has an error to report,
  and a pending batch always has a timer that fires no later than its window allows.
\<close>

subsection \<open>What applying leaves alone\<close>

locale steady = quiet +
  assumes view_applied [simp]: "view (e_applied_update a1 e) = view e"
    and view_version [simp]: "view (e_version_update a2 e) = view e"
    and view_lastGood [simp]: "view (e_lastGood_update a3 e) = view e"
    and view_history [simp]: "view (e_history_update a4 e) = view e"
    and view_snapshots [simp]: "view (w_snapshots_update a5 e) = view e"
    and view_cfg [simp]: "view (w_cfg_update a6 e) = view e"
    and view_dispatch [simp]: "view (e_dispatch_update a7 e) = view e"
    and view_delivered [simp]: "view (e_delivered_update a8 e) = view e"
    and view_pinned [simp]: "view (e_pinned_update a9 e) = view e"
    and view_pinnedVersion [simp]: "view (e_pinnedVersion_update b1 e) = view e"
    and view_pinnedConfig [simp]: "view (e_pinnedConfig_update b2 e) = view e"
    and view_pinnedApplied [simp]: "view (e_pinnedApplied_update b3 e) = view e"
begin

lemma view_recordSnapshot [simp]: "view (recordSnapshot S en cfg fcs e) = view e"
  by (simp add: recordSnapshot_def Let_def)

lemma view_put [simp]: "view (enqueue depth ev e) = view e"
  by (rule view_enqueue) simp_all

lemma view_candidate [simp]: "view (fst (buildCandidate S e)) = view e"
  by (rule view_buildCandidate [OF quiet_axioms]) simp

lemma view_flush [simp]: "view (fst (flush S en P e)) = view e"
proof -
  have "buildCandidate S e = (e1, x) \<Longrightarrow> view e1 = view e" for e1 x
    using view_candidate [of S e] by simp
  then show ?thesis by (auto simp: flush_def Let_def split: prod.splits sum.splits option.splits)
qed

lemma view_pin [simp]: "pc_kind cmd \<noteq> refresh \<Longrightarrow> view (fst (handlePin S en cmd e)) = view e"
  by (cases "pc_kind cmd") (auto simp: handlePin_def Let_def split: option.splits)

lemma view_refreshNow: "view (fst (refreshNow S en e)) = view (fold (refresh_field S en) [0..<length (e_specs e)] e)"
  by (simp add: refreshNow_flush)

end

subsection \<open>Blocked fields\<close>

definition block_view where "block_view e = (e_blocked e, e_lastErr e, e_specs e)"

interpretation bv: quiet block_view
  by unfold_locales (simp_all add: block_view_def)

definition blocking :: "fieldSpec list \<Rightarrow> path set \<Rightarrow> (path \<Rightarrow> err option) \<Rightarrow> bool" where
  "blocking specs B le \<longleftrightarrow> (\<forall>p\<in>B. le p \<noteq> None \<and> (\<exists>spec\<in>set specs. sp_Path spec = p \<and> sp_OnFail spec = onFailFail))"

definition block_inv :: "engine \<Rightarrow> bool" where
  "block_inv e \<longleftrightarrow> blocking (e_specs e) (e_blocked e) (e_lastErr e)"

lemma block_inv_view: "block_view e = block_view e' \<Longrightarrow> block_inv e = block_inv e'"
  by (simp add: block_view_def block_inv_def)

lemma block_view_arm [simp]: "block_view (arm en e) = block_view e"
  by (simp add: arm_def Let_def block_view_def)

lemma block_view_addPending [simp]: "block_view (addPending S en spec e) = block_view e"
  by (simp add: addPending_def Let_def block_view_def)

lemma block_view_fold [simp]: "block_view (fold (addPending S en) specs e) = block_view e"
  by (induction specs arbitrary: e) auto

lemma block_view_markChanged [simp]: "block_view (markChanged S en spec v e) = block_view e"
proof -
  have "block_view (e\<lparr>e_observed := m\<rparr>) = block_view e" for m by (simp add: block_view_def)
  then show ?thesis by (auto simp: markChanged_def split: option.splits)
qed

lemma block_view_observe [simp]: "block_view (observe p v e) = block_view e"
  by (auto simp: observe_def block_view_def split: option.splits)

lemma block_view_sources [simp]: "block_view (e_sources_update f e) = block_view e"
  by (simp add: block_view_def)

lemma block_view_unblock: "block_view (unblock S en p e) = (e_blocked e - {p}, e_lastErr e, e_specs e)"
proof -
  have "block_view (e\<lparr>e_blocked := e_blocked e - {p}\<rparr>) = (e_blocked e - {p}, e_lastErr e, e_specs e)"
    by (simp add: block_view_def)
  moreover have "block_view e = (e_blocked e - {p}, e_lastErr e, e_specs e)" if "p \<notin> e_blocked e"
    using that by (simp add: block_view_def)
  ultimately show ?thesis by (simp add: unblock_def Let_def)
qed

lemma block_view_clearBlock: "block_view (clearBlock p e) = (e_blocked e - {p}, e_lastErr e, e_specs e)"
  by (simp add: clearBlock_def block_view_def)

lemma block_view_note_ok: "block_view (note_ok en p e) = (e_blocked e, (e_lastErr e)(p := None), e_specs e)"
  by (simp add: note_ok_def block_view_def)

lemma block_view_lastErr: "block_view (e\<lparr>e_lastErr := m\<rparr>) = (e_blocked e, m, e_specs e)"
  by (simp add: block_view_def)

lemma blocked_record_event [simp]: "e_blocked (record_event ev e) = e_blocked e"
  by (simp add: record_event_def)

lemma block_view_terminal:
  "\<exists>x. block_view (reportTerminalError S en spec ref err e) = (e_blocked e, (e_lastErr e)(sp_Path spec \<mapsto> x), e_specs e)"
  unfolding reportTerminalError_def Let_def
  by (simp add: block_view_lastErr) blast

lemma blocking_clear: "blocking specs B le \<Longrightarrow> blocking specs (B - {p}) (le(p := x))"
  by (auto simp: blocking_def)

lemma blocking_shrink: "blocking specs B le \<Longrightarrow> blocking specs (B - {p}) le"
  by (auto simp: blocking_def)

lemma blocking_set: "blocking specs B le \<Longrightarrow> blocking specs B (le(p \<mapsto> x))"
  by (auto simp: blocking_def)

lemma block_inv_terminal:
  "blocking (e_specs e) (e_blocked e - {sp_Path spec}) (e_lastErr e) \<Longrightarrow> spec \<in> set (e_specs e) \<Longrightarrow>
     sp_Path spec \<notin> e_blocked e \<or> sp_OnFail spec = onFailFail \<Longrightarrow>
     block_inv (reportTerminalError S en spec ref err e)"
proof -
  assume a: "blocking (e_specs e) (e_blocked e - {sp_Path spec}) (e_lastErr e)" "spec \<in> set (e_specs e)"
    "sp_Path spec \<notin> e_blocked e \<or> sp_OnFail spec = onFailFail"
  obtain x where "block_view (reportTerminalError S en spec ref err e) = (e_blocked e, (e_lastErr e)(sp_Path spec \<mapsto> x), e_specs e)"
    using block_view_terminal by blast
  then show ?thesis using a by (auto simp: block_inv_def block_view_def blocking_def)
qed

definition removes_block :: "(path \<Rightarrow> engine \<Rightarrow> engine) \<Rightarrow> bool" where
  "removes_block ub \<longleftrightarrow> (\<forall>p e. block_view (ub p e) = (e_blocked e - {p}, e_lastErr e, e_specs e))"

lemma removes_block_both: "removes_block (unblock S en)" "removes_block clearBlock"
  by (simp_all add: removes_block_def block_view_unblock block_view_clearBlock)

lemma block_inv_notFound:
  assumes "removes_block ub" "block_inv e" "spec \<in> set (e_specs e)"
  shows "block_inv (handleChainNotFound S en spec err ub e)"
proof -
  let ?e1 = "ub (sp_Path spec) e"
  have v: "e_blocked ?e1 = e_blocked e - {sp_Path spec}" "e_lastErr ?e1 = e_lastErr e" "e_specs ?e1 = e_specs e"
    using assms(1) by (auto simp: removes_block_def block_view_def)
  have "block_inv (?e1\<lparr>e_lastErr := (e_lastErr ?e1)(sp_Path spec := None)\<rparr>)"
    using assms(2) blocking_clear by (simp add: block_inv_def v)
  moreover have "block_inv (reportTerminalError S en spec ref err ?e1)" for ref
    using assms(2,3) blocking_shrink by (intro block_inv_terminal) (auto simp: v block_inv_def)
  ultimately show ?thesis
    using block_inv_view [OF bv.view_reconciled] by (simp add: handleChainNotFound_def Let_def)
qed

lemma block_inv_via: "block_view e' = (B, le, specs) \<Longrightarrow> blocking specs B le \<Longrightarrow> block_inv e'"
  by (simp add: block_inv_def block_view_def)

lemma on_outcome_block:
  assumes "block_inv e" "idx < length (e_specs e)"
  shows "block_inv (on_outcome S en idx e)"
proof -
  let ?spec = "e_specs e ! idx" let ?p = "sp_Path ?spec"
  have mem: "?spec \<in> set (e_specs e)" using assms(2) by simp
  have b: "blocking (e_specs e) (e_blocked e) (e_lastErr e)" using assms(1) by (simp add: block_inv_def)
  have n: "e_blocked (note_ok en ?p e') = e_blocked e'" "e_lastErr (note_ok en ?p e') = (e_lastErr e')(?p := None)"
    "e_specs (note_ok en ?p e') = e_specs e'" for e' by (simp_all add: note_ok_def)
  have u: "e_blocked (unblock S en ?p e') = e_blocked e' - {?p}" "e_lastErr (unblock S en ?p e') = e_lastErr e'"
    "e_specs (unblock S en ?p e') = e_specs e'" for e' using block_view_unblock [of S en ?p e'] by (simp_all add: block_view_def)
  have ok1: "block_inv (markChanged S en ?spec v (markBootstrapReconciled S en ?p (unblock S en ?p (note_ok en ?p e))))" for v
    by (rule block_inv_via [of _ "e_blocked e - {?p}" "(e_lastErr e)(?p := None)" "e_specs e"])
      (use blocking_clear [OF b] in \<open>simp_all add: block_view_unblock n\<close>)
  have ok2: "block_inv (markChanged S en ?spec v (markBootstrapReconciled S en ?p (note_ok en ?p (unblock S en ?p e))))" for v
    by (rule block_inv_via [of _ "e_blocked e - {?p}" "(e_lastErr e)(?p := None)" "e_specs e"])
      (use blocking_clear [OF b] in \<open>simp_all add: block_view_note_ok u\<close>)
  have t1: "block_inv (reportTerminalError S en ?spec ref err (e\<lparr>e_blocked := insert ?p (e_blocked e)\<rparr>))"
    if "sp_OnFail ?spec = onFailFail" for ref err
    using that b mem by (intro block_inv_terminal) (auto simp: blocking_def)
  have t2: "block_inv (reportTerminalError S en ?spec ref err (e\<lparr>e_blocked := e_blocked e - {?p}\<rparr>))" for ref err
    using b mem by (intro block_inv_terminal) (auto simp: blocking_def)
  show ?thesis unfolding on_outcome_def Let_def
    using ok1 ok2 t1 t2 block_inv_notFound [OF removes_block_both(1) assms(1) mem]
    by (auto split: prod.splits sum.splits onFailPolicy.splits)
qed

lemma block_view_recordSource [simp]: "block_view (recordSourceUpdate S i pos up sens e) = block_view e"
  by (simp add: recordSourceUpdate_def Let_def)

lemma refresh_field_block:
  assumes "block_inv e" "idx < length (e_specs e)"
  shows "block_inv (refresh_field S en idx e)"
proof -
  define e1 where "e1 = e\<lparr>e_sources := (e_sources e)[idx := merge_sources (seedChainSources S en (e_specs e ! idx)) (e_sources e ! idx)]\<rparr>"
  let ?spec = "e_specs e ! idx" let ?p = "sp_Path ?spec"
  have mem: "?spec \<in> set (e_specs e1)" using assms(2) by (simp add: e1_def)
  have bi: "block_inv e1" using assms(1) by (simp add: e1_def block_inv_def)
  then have b: "blocking (e_specs e1) (e_blocked e1) (e_lastErr e1)" by (simp add: block_inv_def)
  have ok1: "block_inv (observe ?p v (clearBlock ?p (note_ok en ?p e1)))" for v
    by (rule block_inv_via [of _ "e_blocked e1 - {?p}" "(e_lastErr e1)(?p := None)" "e_specs e1"])
      (use blocking_clear [OF b] in \<open>simp_all add: block_view_clearBlock note_ok_def\<close>)
  have ok2: "block_inv (observe ?p v (note_ok en ?p (clearBlock ?p e1)))" for v
    by (rule block_inv_via [of _ "e_blocked e1 - {?p}" "(e_lastErr e1)(?p := None)" "e_specs e1"])
      (use blocking_clear [OF b] in \<open>simp_all add: block_view_note_ok clearBlock_def\<close>)
  have t1: "block_inv (reportTerminalError S en ?spec ref err (e1\<lparr>e_blocked := insert ?p (e_blocked e1)\<rparr>))"
    if "sp_OnFail ?spec = onFailFail" for ref err
    using that b mem by (intro block_inv_terminal) (auto simp: blocking_def)
  have t2: "block_inv (reportTerminalError S en ?spec ref err (clearBlock ?p e1))" for ref err
    using b mem by (intro block_inv_terminal) (auto simp: blocking_def clearBlock_def)
  show ?thesis unfolding refresh_field_def Let_def e1_def [symmetric]
    using ok1 ok2 t1 t2 block_inv_notFound [OF removes_block_both(2) bi mem]
    by (auto split: prod.splits sum.splits onFailPolicy.splits)
qed

lemma fold_refresh_block:
  "block_inv e \<Longrightarrow> (\<forall>i\<in>set is. i < length (e_specs e)) \<Longrightarrow> block_inv (fold (refresh_field S en) is e)"
proof (induction "is" arbitrary: e)
  case (Cons i "is")
  have "block_inv (refresh_field S en i e)" using Cons.prems by (auto intro: refresh_field_block)
  then show ?case using Cons.IH [of "refresh_field S en i e"] Cons.prems by simp
qed simp

interpretation bs: steady block_view
  by unfold_locales (simp_all add: block_view_def)

lemma handlePin_block:
  assumes "block_inv e"
  shows "block_inv (fst (handlePin S en cmd e))"
proof (cases "pc_kind cmd = refresh")
  case True
  have "block_inv (fold (refresh_field S en) [0..<length (e_specs e)] e)" by (rule fold_refresh_block [OF assms]) simp
  then have "block_inv (fst (refreshNow S en e))" using block_inv_view [OF bs.view_refreshNow] by blast
  then show ?thesis using handlePin_refresh [OF True] block_inv_view [OF bv.view_publish] by metis
next
  case False
  then show ?thesis using assms block_inv_view [OF bs.view_pin] by blast
qed

lemma step_block:
  assumes "block_inv e" "enabled en i e"
  shows "block_inv (step S en i e)"
proof (cases i)
  case (InUpdate idx pos up)
  let ?e1 = "recordSourceUpdate S idx pos up (sp_Sensitive (e_specs e ! idx)) e"
  have "block_inv ?e1" using assms(1) block_inv_view [OF block_view_recordSource] by blast
  moreover have "idx < length (e_specs ?e1)" using assms(2) InUpdate by (simp add: enabled_def)
  ultimately have "block_inv (on_outcome S en idx ?e1)" by (rule on_outcome_block)
  then show ?thesis using block_inv_view [OF bv.view_publish] InUpdate by (simp add: step_def on_update_def)
next
  case InTimer
  have "block_inv (fst (flush S en (e_pending e) e))" using assms(1) block_inv_view [OF bs.view_flush] by blast
  then show ?thesis unfolding step_def InTimer
    by (auto simp: on_timer_def Let_def disarm_def publish_def block_inv_def)
next
  case (InControl cmd)
  then show ?thesis using handlePin_block [OF assms(1)] by (simp add: step_def)
qed (use assms in \<open>auto simp: step_def on_closed_def on_cancel_def on_dispatch_def disarm_def Let_def block_inv_def\<close>)

lemma reach_block: "reach S e0 t e \<Longrightarrow> block_inv e0 \<Longrightarrow> block_inv e"
  by (induction rule: reach.induct) (auto intro: step_block)

lemma blocked_walk_Some:
  "(\<exists>spec\<in>set specs. sp_Path spec \<in> e_blocked e) \<Longrightarrow> blocked_walk e specs \<noteq> None"
  by (induction specs) (auto split: option.splits)

lemma blockedErr_Some: "block_inv e \<Longrightarrow> e_blocked e \<noteq> {} \<Longrightarrow> blockedErr e \<noteq> None"
  unfolding blockedErr_def block_inv_def blocking_def by (intro blocked_walk_Some) fastforce

subsection \<open>The debounce timer\<close>

definition timer_view where
  "timer_view e = (e_pending e, e_timer e, e_pendingSince e, e_window e, e_done e, e_updatesOpen e)"

interpretation tv: steady timer_view
  by unfold_locales (simp_all add: timer_view_def)

definition timer_inv :: "instant \<Rightarrow> engine \<Rightarrow> bool" where
  "timer_inv t e \<longleftrightarrow> (\<not> e_done e \<longrightarrow> (e_pending e = {} \<longleftrightarrow> e_timer e = None))
     \<and> (\<forall>f. e_timer e = Some f \<longrightarrow> f \<le> max t (e_pendingSince e + e_window e))"

lemma timer_inv_view: "timer_view e = timer_view e' \<Longrightarrow> timer_inv t e = timer_inv t e'"
  by (simp add: timer_view_def timer_inv_def)

lemma timer_inv_later: "timer_inv t e \<Longrightarrow> t \<le> t' \<Longrightarrow> timer_inv t' e"
  by (auto simp: timer_inv_def)

lemma timer_inv_arm: "e_pending e \<noteq> {} \<Longrightarrow> timer_inv (en_now en) (arm en e)"
  by (auto simp: timer_inv_def arm_def Let_def time_sub_def min_duration_def max_duration_def)

lemma pending_addPending [simp]: "e_pending (addPending S en spec e) = insert (sp_Path spec) (e_pending e)"
  by (simp add: addPending_def Let_def)

lemma timer_markChanged: "timer_inv (en_now en) e \<Longrightarrow> timer_inv (en_now en) (markChanged S en spec v e)"
  by (auto simp: markChanged_def intro!: timer_inv_arm split: option.splits)

lemma pending_fold: "specs \<noteq> [] \<Longrightarrow> e_pending (fold (addPending S en) specs e) \<noteq> {}"
proof (induction specs arbitrary: e)
  case (Cons s specs)
  then show ?case by (cases "specs = []") auto
qed simp

lemma timer_unblock: "timer_inv (en_now en) e \<Longrightarrow> timer_inv (en_now en) (unblock S en p e)"
proof -
  assume t: "timer_inv (en_now en) e"
  have "timer_inv (en_now en) (e\<lparr>e_blocked := B\<rparr>)" for B using t by (simp add: timer_inv_def)
  then show ?thesis using t by (auto simp: unblock_def Let_def intro!: timer_inv_arm pending_fold)
qed

lemma timer_view_misc [simp]:
  "timer_view (e_sources_update f e) = timer_view e" "timer_view (e_blocked_update g e) = timer_view e"
  "timer_view (e_lastErr_update h e) = timer_view e" "timer_view (note_ok en p e) = timer_view e"
  by (simp_all add: timer_view_def note_ok_def)

lemma timer_view_terminal [simp]: "timer_view (reportTerminalError S en spec ref err e) = timer_view e"
  by (simp add: reportTerminalError_def Let_def)

lemmas timer_frames = timer_inv_view [OF tv.view_reconciled] timer_inv_view [OF timer_view_terminal]
  timer_inv_view [OF timer_view_misc(4)] timer_inv_view [OF timer_view_misc(2)] timer_inv_view [OF timer_view_misc(3)]
  timer_inv_view [OF timer_view_misc(1)] timer_inv_view [OF tv.view_publish]

lemma timer_on_outcome: "timer_inv (en_now en) e \<Longrightarrow> timer_inv (en_now en) (on_outcome S en idx e)"
  unfolding on_outcome_def Let_def handleChainNotFound_def
  by (auto simp: timer_frames timer_markChanged timer_unblock split: prod.splits sum.splits onFailPolicy.splits)

lemma timer_view_observe [simp]: "timer_view (observe p v e) = timer_view e"
  by (auto simp: observe_def timer_view_def split: option.splits)

lemma timer_view_clearBlock [simp]: "timer_view (clearBlock p e) = timer_view e"
  by (simp add: clearBlock_def)

lemma timer_view_refresh [simp]: "timer_view (refresh_field S en i e) = timer_view e"
  by (auto simp: refresh_field_def Let_def handleChainNotFound_def
      split: prod.splits sum.splits onFailPolicy.splits)

lemma timer_view_fold_refresh [simp]: "timer_view (fold (refresh_field S en) is e) = timer_view e"
  by (induction "is" arbitrary: e) auto

lemma timer_view_handlePin: "timer_view (fst (handlePin S en cmd e)) = timer_view e"
  by (cases "pc_kind cmd = refresh") (simp_all add: handlePin_refresh tv.view_refreshNow)

lemma timer_view_recordSource [simp]: "timer_view (recordSourceUpdate S i pos up sens e) = timer_view e"
  by (simp add: recordSourceUpdate_def Let_def)

lemma step_timer:
  assumes "timer_inv t e" "t \<le> en_now en" "enabled en i e"
  shows "timer_inv (en_now en) (step S en i e)"
proof -
  note later = timer_inv_later [OF assms(1,2)]
  show ?thesis
  proof (cases i)
    case (InUpdate idx pos up)
    have "timer_inv (en_now en) (recordSourceUpdate S idx pos up (sp_Sensitive (e_specs e ! idx)) e)"
      using later timer_inv_view [OF timer_view_recordSource] by blast
    then show ?thesis using timer_on_outcome InUpdate by (simp add: step_def on_update_def timer_frames)
  next
    case (InControl cmd)
    then show ?thesis using later timer_inv_view [OF timer_view_handlePin] by (simp add: step_def)
  next
    case InTimer
    then show ?thesis
      by (simp add: step_def on_timer_def Let_def disarm_def publish_def timer_inv_def)
  qed (use later assms(3) in \<open>auto simp: step_def on_closed_def on_cancel_def on_dispatch_def disarm_def Let_def timer_inv_def enabled_def\<close>)
qed

lemma reach_timer: "reach S e0 t e \<Longrightarrow> (\<And>t. timer_inv t e0) \<Longrightarrow> timer_inv t e"
  by (induction rule: reach.induct) (auto intro: step_timer)

subsection \<open>The window of a batch\<close>

text \<open>Every pending path belongs to a field whose own window is no shorter than the batch's.\<close>

definition window_inv :: "sys \<Rightarrow> engine \<Rightarrow> bool" where
  "window_inv S e \<longleftrightarrow> (\<forall>p\<in>e_pending e. \<exists>spec\<in>set (e_specs e). sp_Path spec = p \<and> e_window e \<le> debounceFor S spec)"

definition window_view where "window_view e = (e_pending e, e_window e, e_specs e)"

interpretation wv: steady window_view
  by unfold_locales (simp_all add: window_view_def)

lemma window_inv_view: "window_view e = window_view e' \<Longrightarrow> window_inv S e = window_inv S e'"
  by (simp add: window_view_def window_inv_def)

lemma window_addPending: "window_inv S e \<Longrightarrow> spec \<in> set (e_specs e) \<Longrightarrow> window_inv S (addPending S en spec e)"
  by (auto simp: window_inv_def addPending_def Let_def) (meson order.strict_implies_order order_trans linorder_not_less)+

lemma window_view_arm [simp]: "window_view (arm en e) = window_view e"
  by (simp add: arm_def Let_def window_view_def)

lemma window_view_misc [simp]:
  "window_view (e_sources_update f e) = window_view e" "window_view (e_blocked_update g e) = window_view e"
  "window_view (e_lastErr_update h e) = window_view e" "window_view (note_ok en p e) = window_view e"
  "window_view (e_observed_update k e) = window_view e"
  by (simp_all add: window_view_def note_ok_def)

lemma window_view_terminal [simp]: "window_view (reportTerminalError S en spec ref err e) = window_view e"
  by (simp add: reportTerminalError_def Let_def)

lemmas window_frames = window_inv_view [OF wv.view_reconciled] window_inv_view [OF window_view_terminal]
  window_inv_view [OF window_view_misc(4)] window_inv_view [OF window_view_misc(2)] window_inv_view [OF window_view_misc(3)]
  window_inv_view [OF window_view_misc(1)] window_inv_view [OF window_view_misc(5)] window_inv_view [OF wv.view_publish]
  window_inv_view [OF window_view_arm]

lemma window_markChanged: "window_inv S e \<Longrightarrow> spec \<in> set (e_specs e) \<Longrightarrow> window_inv S (markChanged S en spec v e)"
  by (auto simp: markChanged_def window_frames intro!: window_addPending split: option.splits)

lemma window_fold: "window_inv S e \<Longrightarrow> set specs \<subseteq> set (e_specs e) \<Longrightarrow> window_inv S (fold (addPending S en) specs e)"
proof (induction specs arbitrary: e)
  case (Cons s specs)
  have "window_inv S (addPending S en s e)" using Cons.prems by (intro window_addPending) auto
  then show ?case using Cons.IH [of "addPending S en s e"] Cons.prems by simp
qed simp

lemma window_unblock: "window_inv S e \<Longrightarrow> window_inv S (unblock S en p e)"
  by (auto simp: unblock_def Let_def window_frames intro!: window_fold)

lemma window_on_outcome:
  assumes "window_inv S e" "idx < length (e_specs e)"
  shows "window_inv S (on_outcome S en idx e)"
proof -
  have "e_specs e ! idx \<in> set (e_specs e)" using assms(2) by simp
  then show ?thesis using assms(1) unfolding on_outcome_def Let_def handleChainNotFound_def
    by (auto simp: window_frames window_unblock intro!: window_markChanged split: prod.splits sum.splits onFailPolicy.splits)
qed

lemma window_view_observe [simp]: "window_view (observe p v e) = window_view e"
  by (auto simp: observe_def split: option.splits)

lemma window_view_refresh [simp]: "window_view (refresh_field S en i e) = window_view e"
  by (auto simp: refresh_field_def Let_def handleChainNotFound_def clearBlock_def
      split: prod.splits sum.splits onFailPolicy.splits)

lemma window_view_fold_refresh [simp]: "window_view (fold (refresh_field S en) is e) = window_view e"
  by (induction "is" arbitrary: e) auto

lemma window_view_handlePin: "window_view (fst (handlePin S en cmd e)) = window_view e"
  by (cases "pc_kind cmd = refresh") (simp_all add: handlePin_refresh wv.view_refreshNow)

lemma step_window:
  assumes "window_inv S e" "enabled en i e"
  shows "window_inv S (step S en i e)"
proof (cases i)
  case (InUpdate idx pos up)
  let ?e1 = "recordSourceUpdate S idx pos up (sp_Sensitive (e_specs e ! idx)) e"
  have "window_inv S ?e1" using assms(1) by (simp add: recordSourceUpdate_def Let_def window_frames)
  then have "window_inv S (on_outcome S en idx ?e1)" using assms(2) InUpdate by (intro window_on_outcome) (auto simp: enabled_def)
  then show ?thesis using InUpdate by (simp add: step_def on_update_def window_frames)
next
  case (InControl cmd)
  then show ?thesis using assms(1) window_inv_view [OF window_view_handlePin] by (simp add: step_def)
next
  case InTimer
  then show ?thesis by (simp add: step_def on_timer_def Let_def disarm_def publish_def window_inv_def)
qed (use assms in \<open>auto simp: step_def on_closed_def on_cancel_def on_dispatch_def disarm_def Let_def window_inv_def\<close>)

lemma reach_window: "reach S e0 t e \<Longrightarrow> window_inv S e0 \<Longrightarrow> window_inv S e"
  by (induction rule: reach.induct) (auto intro: step_window)

subsection \<open>Where the engine starts\<close>

text \<open>The fold of \<open>seed_path\<close> writes only observed values, applied versions and confirmation times.\<close>

lemma seed_path_view [simp]:
  "apply_view (seed_path at r e) = apply_view e" "queue_view (seed_path at r e) = queue_view e"
  "block_view (seed_path at r e) = block_view e" "timer_view (seed_path at r e) = timer_view e"
  "window_view (seed_path at r e) = window_view e" "e_sources (seed_path at r e) = e_sources e"
  by (auto simp: seed_path_def Let_def apply_view_def queue_view_def block_view_def timer_view_def window_view_def)

lemma fold_seed_view [simp]:
  "apply_view (fold (seed_path at) rs e) = apply_view e" "queue_view (fold (seed_path at) rs e) = queue_view e"
  "block_view (fold (seed_path at) rs e) = block_view e" "timer_view (fold (seed_path at) rs e) = timer_view e"
  "window_view (fold (seed_path at) rs e) = window_view e" "e_sources (fold (seed_path at) rs e) = e_sources e"
  by (induction rs arbitrary: e) auto

lemma seed_origin_view [simp]:
  "apply_view (seed_origin l e) = apply_view e" "queue_view (seed_origin l e) = queue_view e"
  "block_view (seed_origin l e) = block_view e" "timer_view (seed_origin l e) = timer_view e"
  "window_view (seed_origin l e) = window_view e"
  by (auto simp: seed_origin_def seedBootstrapOrigin_def Let_def apply_view_def queue_view_def block_view_def
      timer_view_def window_view_def split: option.splits)

lemma initial_engine_state:
  fixes S en en' l d tr
  defines "e \<equiv> start S en' (initial_engine S en l d tr)"
  shows "e_specs e = map rs_spec (ld_res l)" "e_lastGood e = ld_cfg l" "e_version e = 1" "w_cfg e = ld_cfg l" "\<not> e_pinned e"
    "\<exists>m. e_history e = [\<lparr>sh_Version = 1, sh_At = en_now en, sh_Config = ld_cfg l, sh_Fields = [], sh_applied = m\<rparr>] \<and> w_snapshots e = e_history e"
    "e_blocked e = {}" "e_pending e = {}" "e_timer e = None" "e_dispatch e = []" "e_delivered e = []"
proof -
  define e1 where "e1 = fold (seed_path (confirmed_at l (en_now en))) (ld_res l) (seed_origin l (fresh_engine l d tr))"
  have v: "apply_view e1 = apply_view (fresh_engine l d tr)" "queue_view e1 = queue_view (fresh_engine l d tr)"
    "block_view e1 = block_view (fresh_engine l d tr)" "timer_view e1 = timer_view (fresh_engine l d tr)"
    by (simp_all add: e1_def)
  then show "e_specs e = map rs_spec (ld_res l)" "e_lastGood e = ld_cfg l" "e_version e = 1" "w_cfg e = ld_cfg l" "\<not> e_pinned e"
    "\<exists>m. e_history e = [\<lparr>sh_Version = 1, sh_At = en_now en, sh_Config = ld_cfg l, sh_Fields = [], sh_applied = m\<rparr>] \<and> w_snapshots e = e_history e"
    "e_blocked e = {}" "e_pending e = {}" "e_timer e = None" "e_dispatch e = []" "e_delivered e = []"
    unfolding e_def initial_engine_def e1_def [symmetric] Let_def start_def publish_def
    by (auto simp: fresh_engine_def apply_view_def queue_view_def block_view_def timer_view_def)
qed

lemma Watch_Inr:
  assumes "Watch C R T o' en en' d = Inr (S, e0)"
  obtains l errs d' where "loadValue C R T o' en d = (Inr l, errs, d')"
    "e0 = start S en' (initial_engine S en' l d' (map EmitErr errs))"
    "S = \<lparr>sy_C = C, sy_R = R, sy_T = T, sy_o = o', sy_derives = ld_derives l, sy_hook = ld_hook l\<rparr>"
  using assms by (auto simp: Watch_def Let_def split: sum.splits prod.splits elim: loadValue_Inr)

lemma Watch_inv:
  assumes "Watch C R T o' en en' d = Inr (S, e0)"
  shows "serve_inv S e0" "block_inv e0" "timer_inv t e0" "window_inv S e0"
proof -
  obtain l errs d' where l: "loadValue C R T o' en d = (Inr l, errs, d')"
    "e0 = start S en' (initial_engine S en' l d' (map EmitErr errs))"
    "S = \<lparr>sy_C = C, sy_R = R, sy_T = T, sy_o = o', sy_derives = ld_derives l, sy_hook = ld_hook l\<rparr>"
    using assms by (rule Watch_Inr)
  have v: "valid_cfg S (ld_cfg l)"
    using l(1,3) by (auto elim!: loadValue_Inr simp: accept_iff valid_cfg_def)
  note i = initial_engine_state [of S en' en' l d' "map EmitErr errs", folded l(2)]
  show "serve_inv S e0"
    using i(2,3,4,5,6) v by (auto simp: serve_inv_def history_inv_def served_inv_def consecutive_def)
  show "block_inv e0" "timer_inv t e0" "window_inv S e0"
    using i(7,8,9) by (simp_all add: block_inv_def blocking_def timer_inv_def window_inv_def)
qed

end
