(* ===== verification/Runs.thy ===== *)
theory Runs
  imports Progress
begin

text \<open>
  Runs of the reconciler: what every run keeps (the specifications of the fields, the report of the
  pin state, the bound of the dispatch queue), scripts of inputs that make a run, and the example
  run the concrete instances of the guarantees use.
\<close>

subsection \<open>What every step keeps\<close>

interpretation spv: steady e_specs
  by unfold_locales simp_all

lemma step_specs [simp]: "e_specs (step S en i e) = e_specs e"
proof (cases i)
  case (InControl cmd)
  show ?thesis
  proof (cases "pc_kind cmd = refresh")
    case True
    then show ?thesis using InControl by (simp add: step_def handlePin_refresh spv.view_refreshNow)
  qed (use InControl in \<open>simp add: step_def\<close>)
next
  case InTimer
  have "e_specs (fst (flush S en P e')) = e_specs e'" for P e' by simp
  then show ?thesis using InTimer by (simp add: step_def on_timer_def Let_def)
qed (auto simp: step_def on_closed_def on_cancel_def on_dispatch_def Let_def)

lemma reach_specs: "reach S e0 t e \<Longrightarrow> e_specs e = e_specs e0"
  by (induction rule: reach.induct) auto

text \<open>
  A start from a struct whose field names are Go identifiers, the scheme groups being visited once
  each.
\<close>

definition started :: "crypto \<Rightarrow> rt \<Rightarrow> gtype \<Rightarrow> options \<Rightarrow> env \<Rightarrow> env \<Rightarrow> disk \<Rightarrow> sys \<Rightarrow> engine \<Rightarrow> bool" where
  "started C R T o' en en' d S e0 \<longleftrightarrow> Watch C R T o' en en' d = Inr (S, e0) \<and> named_type T
     \<and> (case fieldSpecs R T (o_refVars o') of Inr specs \<Rightarrow> order_ok (en_order en) specs | Inl _ \<Rightarrow> False)"

lemma started_specs:
  assumes "started C R T o' en en' d S e0"
  shows "fieldSpecs R T (o_refVars o') = Inr (e_specs e0)"
proof -
  obtain l errs d' where l: "loadValue C R T o' en d = (Inr l, errs, d')"
    "e0 = start S en' (initial_engine S en' l d' (map EmitErr errs))"
    using assms unfolding started_def by (blast elim: Watch_Inr)
  from l(1) obtain origin where fs: "fieldSpecs R T (o_refVars o') = Inr (ld_specs l)"
    and rr: "resolve_or_restore C R o' en d (ld_specs l) = Inr (ld_res l, origin)"
    by (rule loadValue_Inr)
  have "map rs_spec (ld_res l) = ld_specs l"
    using assms fs by (intro resolve_or_restore_specs [OF _ rr]) (simp add: started_def)
  then show ?thesis using fs initial_engine_state(1) [of S en' en' l d' "map EmitErr errs", folded l(2)] by simp
qed

lemma reach_distinct_paths:
  assumes "started C R T o' en en' d S e0" and "reach S e0 t e"
  shows "distinct (map sp_Path (e_specs e))"
  using fieldSpecs_distinct_paths [OF started_specs [OF assms(1)]] assms by (simp add: started_def reach_specs [OF assms(2)])

subsection \<open>The published pin state\<close>

definition report_inv :: "engine \<Rightarrow> bool" where
  "report_inv e \<longleftrightarrow> rp_Pinned (w_report e) = e_pinned e \<and> rp_Live (w_report e) = e_version e
     \<and> rp_Snapshot (w_report e) = (if e_pinned e then e_pinnedVersion e else e_version e)"

lemma report_inv_publish [simp]: "report_inv (publish S en e)"
  by (simp add: report_inv_def publish_def buildReport_def Let_def)

lemma report_inv_frame:
  "report_inv e \<Longrightarrow> w_report e' = w_report e \<Longrightarrow> apply_view e' = apply_view e \<Longrightarrow> report_inv e'"
  by (simp add: report_inv_def apply_view_def)

lemma report_inv_done [simp]: "report_inv (e_done_update f e) = report_inv e"
  by (simp add: report_inv_def)

lemma step_report: "report_inv e \<Longrightarrow> report_inv (step S en i e)"
  by (cases i)
    (auto simp: step_def on_update_def on_timer_def handlePin_def on_closed_def on_cancel_def on_dispatch_def disarm_def Let_def
      split: prod.splits elim!: report_inv_frame simp: apply_view_def)

lemma Watch_report: "Watch C R T o' en en' d = Inr (S, e0) \<Longrightarrow> report_inv e0"
  by (auto elim!: Watch_Inr simp: start_def)

lemma reach_report: "reach S e0 t e \<Longrightarrow> report_inv e0 \<Longrightarrow> report_inv e"
  by (induction rule: reach.induct) (auto intro: step_report)

lemma Pinned_eq: "report_inv e \<Longrightarrow> Pinned e = (if e_pinned e then Some (e_pinnedVersion e) else None)"
  by (simp add: Pinned_def report_inv_def)

subsection \<open>Scripts\<close>

definition run :: "sys \<Rightarrow> (env \<times> input) list \<Rightarrow> engine \<Rightarrow> engine" where
  "run S script = fold (\<lambda>(en, i). step S en i) script"

fun run_ok :: "sys \<Rightarrow> instant \<Rightarrow> (env \<times> input) list \<Rightarrow> engine \<Rightarrow> bool" where
  "run_ok S t [] e = True"
| "run_ok S t ((en, i) # script) e = (t \<le> en_now en \<and> enabled en i e \<and> run_ok S (en_now en) script (step S en i e))"

lemma run_reach: "reach S e0 t e \<Longrightarrow> run_ok S t script e \<Longrightarrow> \<exists>t'. reach S e0 t' (run S script e)"
proof (induction script arbitrary: t e)
  case (Cons a script)
  obtain en i where a: "a = (en, i)" by (cases a)
  have "reach S e0 (en_now en) (step S en i e)" using Cons.prems a by (auto intro: reach_step)
  then show ?case using Cons.IH Cons.prems(2) a by (simp add: run_def)
qed (auto simp: run_def)

subsection \<open>An example run\<close>

text \<open>Two fields: one that blocks on failure and a chain of two refs with a default.\<close>

definition app_T :: gtype where
  "app_T = TStruct ''App'' [GField ''A'' True [(''source'', ''env:A''), (''onfail'', ''fail'')] TString,
     GField ''B'' True [(''source'', ''env:B,env:C''), (''default'', ''d'')] TString]"

definition app_options :: options where
  "app_options = WithHistory 2 (PreApply app_T (defaultOptions (\<lambda>v. None)))"

definition app_env :: "instant \<Rightarrow> env" where
  "app_env t = (demo_env (demo_answer ''v'' ''1''))\<lparr>en_now := t\<rparr>"

definition app_watch :: "err + (sys \<times> engine)" where
  "app_watch = Watch (demo_crypto demo_rt [] [] 5) demo_rt app_T app_options (app_env 7) (app_env 7) Map.empty"

definition app_sys :: sys where
  "app_sys = (case app_watch of Inr (S, _) \<Rightarrow> S | Inl _ \<Rightarrow> undefined)"

definition app_engine :: engine where
  "app_engine = (case app_watch of Inr (_, e) \<Rightarrow> e | Inl _ \<Rightarrow> undefined)"

lemma app_watch_eq: "app_watch = Inr (app_sys, app_engine)"
proof -
  have "\<not> isl app_watch" by code_simp
  then obtain x where x: "app_watch = Inr x" using sum.collapse(2) by metis
  show ?thesis unfolding app_sys_def app_engine_def x by (cases x) simp
qed

lemmas app_Watch = app_watch_eq [unfolded app_watch_def]

lemma app_started: "started (demo_crypto demo_rt [] [] 5) demo_rt app_T app_options (app_env 7) (app_env 7) Map.empty app_sys app_engine"
proof -
  have "named_type app_T" by code_simp
  moreover have "case fieldSpecs demo_rt app_T (o_refVars app_options) of Inr specs \<Rightarrow> order_ok (en_order (app_env 7)) specs | Inl _ \<Rightarrow> False"
    by code_simp
  ultimately show ?thesis using app_Watch by (simp add: started_def)
qed

definition app_update :: "nat \<Rightarrow> nat \<Rightarrow> string \<Rightarrow> string \<Rightarrow> input" where
  "app_update i pos b v = InUpdate i pos \<lparr>u_Value = zero_Value\<lparr>v_Bytes := b, v_Version := v\<rparr>, u_Err = None\<rparr>"

definition app_failure :: "nat \<Rightarrow> nat \<Rightarrow> sentinel \<Rightarrow> input" where
  "app_failure i pos s = InUpdate i pos \<lparr>u_Value = zero_Value, u_Err = Some (Sentinel s)\<rparr>"

definition app_at :: "(env \<times> input) list \<Rightarrow> engine" where
  "app_at script = run app_sys script app_engine"

lemma app_reach: "run_ok app_sys 0 script app_engine \<Longrightarrow> \<exists>t. reach app_sys app_engine t (app_at script)"
  unfolding app_at_def by (rule run_reach [OF reach_start])

text \<open>A change of the first field, its flush, and a failure of the first field.\<close>

definition app_change :: "(env \<times> input) list" where
  "app_change = [(app_env 8, app_update 0 0 ''w'' ''2'')]"

definition app_flush :: "(env \<times> input) list" where
  "app_flush = app_change @ [(app_env 600000000, InTimer)]"

definition app_block :: "(env \<times> input) list" where
  "app_block = [(app_env 8, app_failure 0 0 ErrUnavailable)]"

lemma app_scripts: "run_ok app_sys 0 app_change app_engine" "run_ok app_sys 0 app_flush app_engine" "run_ok app_sys 0 app_block app_engine"
  by code_simp+

end
