(* ===== verification/Safety.thy ===== *)
theory Safety
  imports Runs
begin

text \<open>
  The guarantees of the reconciler: what \<^verbatim>\<open>Get\<close> and \<^verbatim>\<open>History\<close> return in every reachable state, what
  a flush may change, what pinning freezes, and how observed chain states relate to a live resolve.
\<close>

subsection \<open>What is served\<close>

text \<open>
  C1. In every state the reconciler can reach, by any interleaving of updates, timers, pins,
  refreshes and shutdown, \<^verbatim>\<open>Get\<close> returns a configuration that passed validation; while unpinned it
  is the newest applied one.
\<close>

theorem Get_always_valid:
  assumes "Watch C R T o' en en' d = Inr (S, e0)" and "reach S e0 t e"
  shows "o_validator o' (Get e) = None \<and> (\<not> e_pinned e \<longrightarrow> History e \<noteq> [] \<and> Get e = sh_Config (hd (History e)))"
proof -
  have o: "sy_o S = o'" using assms(1) by (auto elim: Watch_Inr)
  have i: "serve_inv S e" by (rule reach_inv [OF assms(2) Watch_inv(1) [OF assms(1)]])
  then have "valid_cfg S (w_cfg e)"
    using serve_inv_lastGood [of S e] by (auto simp: serve_inv_def served_inv_def split: if_splits)
  moreover have "\<not> e_pinned e \<longrightarrow> w_snapshots e \<noteq> [] \<and> w_cfg e = sh_Config (hd (w_snapshots e))"
    using i by (auto simp: serve_inv_def served_inv_def history_inv_def hd_rev)
  ultimately show ?thesis by (simp add: Get_def History_def valid_cfg_def o)
qed

theorem Get_always_valid_witness:
  "Get (app_at app_flush) = VStruct [VString ''w'', VString ''v''] \<and> o_validator app_options (Get (app_at app_flush)) = None"
proof -
  obtain t where r: "reach app_sys app_engine t (app_at app_flush)" using app_reach [OF app_scripts(2)] by blast
  have "Get (app_at app_flush) = VStruct [VString ''w'', VString ''v'']" by code_simp
  then show ?thesis using Get_always_valid [OF app_Watch r] by simp
qed

text \<open>
  C2. \<^verbatim>\<open>History\<close> in every reachable state: newest first, never empty, never more than the configured
  number of snapshots beyond the current one, with consecutive versions ending at the live one, all
  of them validated; the version never falls below one.
\<close>

theorem History_bounded:
  assumes "Watch C R T o' en en' d = Inr (S, e0)" and "reach S e0 t e"
  shows "History e \<noteq> [] \<and> length (History e) \<le> o_historyN o' + 1 \<and> sh_Version (hd (History e)) = e_version e \<and> 1 \<le> e_version e
    \<and> map sh_Version (rev (History e)) = [e_version e + 1 - length (History e)..<e_version e + 1]
    \<and> (\<forall>s\<in>set (History e). o_validator o' (sh_Config s) = None)"
proof -
  have o: "sy_o S = o'" using assms(1) by (auto elim: Watch_Inr)
  have i: "history_inv S e" using reach_inv [OF assms(2) Watch_inv(1) [OF assms(1)]] by (simp add: serve_inv_def)
  let ?h = "e_history e"
  have h: "?h \<noteq> []" "w_snapshots e = rev ?h" "map sh_Version ?h = [e_version e + 1 - length ?h..<e_version e + 1]"
    using i by (auto simp: history_inv_def consecutive_def)
  have "sh_Version (last ?h) = last (map sh_Version ?h)" using h(1) by (simp add: last_map)
  also have "\<dots> = e_version e" using h(1) unfolding h(3) by (cases ?h) auto
  finally have "sh_Version (last ?h) = e_version e" .
  then show ?thesis using i h history_inv_version [OF i]
    by (auto simp: History_def history_inv_def hd_rev valid_cfg_def o)
qed

theorem History_bounded_witness:
  "map sh_Version (rev (History (app_at app_flush))) = [1, 2] \<and> e_version (app_at app_flush) = 2"
proof -
  obtain t where r: "reach app_sys app_engine t (app_at app_flush)" using app_reach [OF app_scripts(2)] by blast
  have l: "length (History (app_at app_flush)) = 2" "e_version (app_at app_flush) = 2" by code_simp+
  show ?thesis using History_bounded [OF app_Watch r] l by (simp add: upt_rec)
qed

subsection \<open>What a flush may change\<close>

lemma view_apply_blocked: "flush S en P e = (e', r) \<Longrightarrow> e_blocked e \<noteq> {} \<Longrightarrow> P \<noteq> {} \<Longrightarrow> e' = e \<and> r = blockedErr e"
  by (auto simp: flush_def buildCandidate_def)

text \<open>
  \<^verbatim>\<open>onfail:"fail"\<close>: in a reachable state with a blocked field, no flush moves anything, for any
  field, and the caller is told why: the refusal is never reported as success.
\<close>

lemma blocked_refuses_all:
  assumes "Watch C R T o' en en' d = Inr (S, e0)" and "reach S e0 t e" and "e_blocked e \<noteq> {}" and "P \<noteq> {}"
  shows "\<exists>x. flush S now P e = (e, Some x)"
proof -
  have "blockedErr e \<noteq> None" using blockedErr_Some [OF reach_block [OF assms(2) Watch_inv(2) [OF assms(1)]] assms(3)] .
  then show ?thesis using view_apply_blocked [of S now P e] assms(3,4) by (metis option.exhaust surj_pair)
qed

lemma blocked_refuses_all_witness:
  "e_blocked (app_at app_block) = {''A''}
   \<and> (\<exists>x. flush app_sys (app_env 9) {''B''} (app_at app_block) = (app_at app_block, Some x))"
proof -
  obtain t where r: "reach app_sys app_engine t (app_at app_block)" using app_reach [OF app_scripts(3)] by blast
  have b: "e_blocked (app_at app_block) = {''A''}" by code_simp
  then show ?thesis using blocked_refuses_all [OF app_Watch r, of "{''B''}" "app_env 9"] by simp
qed

text \<open>What the version diff finds: the fields observed at another version than the applied one.\<close>

definition newer :: "(path \<Rightarrow> Value option) \<Rightarrow> (path \<Rightarrow> string) \<Rightarrow> fieldSpec \<Rightarrow> bool" where
  "newer observed applied spec = (case observed (sp_Path spec) of None \<Rightarrow> False | Some v \<Rightarrow> applied (sp_Path spec) \<noteq> v_Version v)"

definition version_change :: "(path \<Rightarrow> Value option) \<Rightarrow> (path \<Rightarrow> string) \<Rightarrow> fieldSpec \<Rightarrow> FieldChange" where
  "version_change observed applied spec = \<lparr>fc_Path = sp_Path spec, fc_OldVersion = applied (sp_Path spec),
     fc_NewVersion = v_Version (the (observed (sp_Path spec)))\<rparr>"

lemma unapplied_newer: "unapplied e = newer (e_observed e) (e_applied e)"
  by (simp add: fun_eq_iff unapplied_def newer_def)

lemma diff_observed_changes:
  "distinct (map sp_Path specs) \<Longrightarrow> fst (diff_observed observed specs applied) =
     map (version_change observed applied) (filter (newer observed applied) specs)"
proof (induction specs arbitrary: applied)
  case (Cons s specs)
  have "\<forall>t\<in>set specs. sp_Path t \<noteq> sp_Path s" using Cons.prems by (metis distinct.simps(2) image_eqI list.map(2) list.set_map)
  then have "newer observed (applied(sp_Path s := x)) t = newer observed applied t"
      "version_change observed (applied(sp_Path s := x)) t = version_change observed applied t" if "t \<in> set specs" for x t
    using that by (auto simp: newer_def version_change_def split: option.splits)
  then have "map (version_change observed (applied(sp_Path s := x))) (filter (newer observed (applied(sp_Path s := x))) specs)
      = map (version_change observed applied) (filter (newer observed applied) specs)" for x
    by (auto intro!: map_cong filter_cong)
  moreover note newer_def [of observed applied s] version_change_def [of observed applied s]
  ultimately show ?case using Cons by (cases "observed (sp_Path s)") (simp_all add: case_prod_beta)
qed simp

lemma diff_observed_applied:
  "snd (diff_observed observed specs applied) p =
     (if p \<in> sp_Path ` set specs then case_option (applied p) v_Version (observed p) else applied p)"
  by (induction specs arbitrary: applied) (auto simp: case_prod_beta split: option.splits)

lemma derived_walk_paths:
  assumes "\<And>p c. c \<in> set (f p) \<Longrightarrow> g c = p"
  shows "c \<in> set (derived_walk f specs seen ps) \<Longrightarrow> g c \<notin> sp_Path ` set specs"
  using assms by (induction ps arbitrary: seen) (auto simp: hasSpecPath_def list_ex_iff split: if_splits)

lemma derived_paths:
  "c \<in> set (derivedFieldChanges R T old new derives specs) \<Longrightarrow> fc_Path c \<notin> sp_Path ` set specs"
  unfolding derivedFieldChanges_def
  by (rule derived_walk_paths) (auto simp: derived_change_def split: option.splits if_splits)

lemma derived_changes_only:
  "filter (\<lambda>c. hasSpecPath specs (fc_Path c)) (derivedFieldChanges R T old new derives specs) = []"
  by (rule filter_False) (simp add: hasSpecPath_def list_ex_iff, metis derived_paths imageI)

lemma rollback_fresh: "p \<notin> fc_Path ` set fcs \<Longrightarrow> rollback fcs m p = m p"
  unfolding rollback_def by (induction fcs arbitrary: m) auto

lemma rollback_append: "rollback (xs @ ys) m = rollback ys (rollback xs m)"
  by (simp add: rollback_def)

lemma rollback_changes:
  "distinct (map sp_Path specs) \<Longrightarrow> rollback (map (version_change observed applied) specs) m p =
     (if p \<in> sp_Path ` set specs then applied p else m p)"
proof (induction specs arbitrary: m)
  case (Cons s specs)
  have "rollback (map (version_change observed applied) (s # specs)) m
      = rollback (map (version_change observed applied) specs) (m(sp_Path s := applied (sp_Path s)))"
    by (simp add: rollback_def version_change_def)
  then show ?case using Cons by auto
qed (simp add: rollback_def)

text \<open>After a refusal the applied versions of the fields are those from before the attempt.\<close>

lemma refusal_applied:
  assumes "buildCandidate S e = (e1, Inr (cand, fcs))" and "distinct (map sp_Path (e_specs e))" and "p \<in> sp_Path ` set (e_specs e)"
  shows "rollback fcs (e_applied e1) p = e_applied e p"
proof -
  let ?ch = "map (version_change (e_observed e) (e_applied e)) (filter (newer (e_observed e) (e_applied e)) (e_specs e))"
  let ?dv = "derivedFieldChanges (sy_R S) (sy_T S) (e_lastGood e) cand (sy_derives S) (e_specs e)"
  note b = buildCandidate_Inr [OF assms(1)]
  have f: "fcs = ?ch @ ?dv" using b diff_observed_changes [OF assms(2)] by simp
  have "p \<notin> fc_Path ` set ?dv" using derived_paths assms(3) by blast
  then have "rollback fcs (e_applied e1) p = rollback ?ch (e_applied e1) p" by (simp add: f rollback_append rollback_fresh)
  also have "\<dots> = (if p \<in> sp_Path ` set (filter (newer (e_observed e) (e_applied e)) (e_specs e)) then e_applied e p else e_applied e1 p)"
    by (rule rollback_changes) (rule distinct_map_filter [OF assms(2)])
  also have "\<dots> = e_applied e p"
    using b assms(3) by (auto simp: diff_observed_applied newer_def split: option.splits)
  finally show ?thesis .
qed

lemma diff_observed_cong:
  assumes "distinct (map sp_Path specs)" "\<And>p. p \<in> sp_Path ` set specs \<Longrightarrow> applied p = applied' p"
  shows "fst (diff_observed observed specs applied) = fst (diff_observed observed specs applied')"
proof -
  have "newer observed applied t = newer observed applied' t" "version_change observed applied t = version_change observed applied' t"
    if "t \<in> set specs" for t using assms(2) that by (auto simp: newer_def version_change_def split: option.splits)
  then show ?thesis unfolding diff_observed_changes [OF assms(1)] by (auto intro!: map_cong filter_cong)
qed

interpretation obv: steady e_observed
  by unfold_locales simp_all

lemma blocked_flush [simp]: "e_blocked (fst (flush S en P e)) = e_blocked e"
  using bs.view_flush [of S en P e] by (simp add: block_view_def)

lemma buildCandidate_again:
  assumes "buildCandidate S e = (e1, Inr (cand, fcs))" and "distinct (map sp_Path (e_specs e))"
    and "e_blocked e' = {}" "e_observed e' = e_observed e" "e_specs e' = e_specs e" "e_lastGood e' = e_lastGood e"
    and "\<And>p. p \<in> sp_Path ` set (e_specs e) \<Longrightarrow> e_applied e' p = e_applied e p"
  shows "snd (buildCandidate S e') = Inr (cand, fcs)"
  using buildCandidate_Inr [OF assms(1)] diff_observed_cong [OF assms(2), of "e_applied e'" "e_applied e"] assms(3-7)
  by (auto simp: buildCandidate_def bind_res_def case_prod_beta split: sum.splits)

text \<open>
  C4. A refusal by PreApply leaves nothing behind and is not forgotten: what is served, the history
  and the queue are as they were, every field keeps its applied version, the caller gets the hook's
  error, and the next flush offers the very same candidate and changes to the hook again.
\<close>

theorem preapply_rollback:
  assumes "started C R T o' en en' d S e0" and "reach S e0 t e" and "P \<noteq> {}"
    and "buildCandidate S e = (e1, Inr (cand, fcs))" and "fcs \<noteq> []"
    and "runPreApply (sy_hook S) (en_hook now) (en_ctxErr now) (gate_event e cand fcs) = Some x"
  shows "\<exists>e'. flush S now P e = (e', Some x) \<and> Get e' = Get e \<and> History e' = History e \<and> queue_view e' = queue_view e
    \<and> (\<forall>s\<in>set (e_specs e). e_applied e' (sp_Path s) = e_applied e (sp_Path s))
    \<and> snd (buildCandidate S e') = Inr (cand, fcs)"
proof -
  define e' where "e' = emitErr S x (record_event (RecordApplyRejected RejectPreApply) (e\<lparr>e_applied := rollback fcs (e_applied e1)\<rparr>))"
  have f: "flush S now P e = (e', Some x)" unfolding e'_def by (rule flush_refused [OF assms(3-6)])
  note dp = reach_distinct_paths [OF assms(1,2)]
  have v: "apply_view e' = apply_view e" "queue_view e' = queue_view e"
    by (simp_all add: e'_def) (simp_all add: apply_view_def queue_view_def)
  have a: "e_applied e' = rollback fcs (e_applied e1)" by (simp add: e'_def)
  have o: "e_observed e' = e_observed e" "e_blocked e' = {}"
    using obv.view_flush [of S now P e] blocked_flush [of S now P e] buildCandidate_Inr [OF assms(4)] f by simp_all
  have "snd (buildCandidate S e') = Inr (cand, fcs)"
    using refusal_applied [OF assms(4) dp] o v by (intro buildCandidate_again [OF assms(4) dp]) (auto simp: a apply_view_def)
  then show ?thesis using f v a refusal_applied [OF assms(4) dp] by (auto simp: Get_def History_def apply_view_def)
qed

definition app_refusing :: env where
  "app_refusing = (app_env 600000000)\<lparr>en_hook := (\<lambda>_. Some (Opaque ''no''))\<rparr>"

definition app_cand :: gval where "app_cand = VStruct [VString ''w'', VString ''v'']"

definition app_fcs :: "FieldChange list" where "app_fcs = [\<lparr>fc_Path = ''A'', fc_OldVersion = ''1'', fc_NewVersion = ''2''\<rparr>]"

lemma app_candidate: "snd (buildCandidate app_sys (app_at app_change)) = Inr (app_cand, app_fcs)"
  by code_simp

theorem preapply_rollback_witness:
  "\<exists>e'. flush app_sys app_refusing {''A''} (app_at app_change) = (e', Some (PreApplyError (Opaque ''no'')))
     \<and> Get e' = VStruct [VString ''v'', VString ''v''] \<and> e_applied e' ''A'' = ''1''
     \<and> snd (buildCandidate app_sys e') = snd (buildCandidate app_sys (app_at app_change))"
proof -
  obtain t where r: "reach app_sys app_engine t (app_at app_change)" using app_reach [OF app_scripts(1)] by blast
  have b: "buildCandidate app_sys (app_at app_change) = (fst (buildCandidate app_sys (app_at app_change)), Inr (app_cand, app_fcs))"
    using app_candidate by (metis prod.collapse)
  have g: "runPreApply (sy_hook app_sys) (en_hook app_refusing) (en_ctxErr app_refusing)
     (gate_event (app_at app_change) app_cand app_fcs) = Some (PreApplyError (Opaque ''no''))" by code_simp
  have s: "\<exists>s\<in>set (e_specs (app_at app_change)). sp_Path s = ''A''" "e_applied (app_at app_change) ''A'' = ''1''"
    "Get (app_at app_change) = VStruct [VString ''v'', VString ''v'']" by code_simp+
  show ?thesis using preapply_rollback [OF app_started r _ b _ g, of "{''A''}"] s app_candidate by (auto simp: app_fcs_def)
qed

lemma recordSnapshot_frame [simp]:
  "e_applied (recordSnapshot S en cfg fcs e) = e_applied e" "e_pinned (recordSnapshot S en cfg fcs e) = e_pinned e"
  by (simp_all add: recordSnapshot_def Let_def)

lemma enqueue_applied [simp]: "e_applied (enqueue depth ev e) = e_applied e"
  by (rule view_enqueue) simp_all

lemma flush_success:
  assumes "flush S en P e = (e', None)" "P \<noteq> {}" "e_blocked e \<noteq> {} \<Longrightarrow> blockedErr e \<noteq> None"
  obtains e1 cand fcs where "buildCandidate S e = (e1, Inr (cand, fcs))" "e_applied e' = e_applied e1" "fcs = [] \<Longrightarrow> e' = e1"
proof -
  obtain e1 x where b: "buildCandidate S e = (e1, x)" by fastforce
  have "x \<noteq> Inl None" using b assms(3) by (auto simp: buildCandidate_def split: if_splits sum.splits option.splits prod.splits)
  then obtain cand fcs where x: "x = Inr (cand, fcs)" using assms(1,2) b by (cases x) (auto simp: flush_def)
  have "e_applied e' = e_applied e1" "fcs = [] \<Longrightarrow> e' = e1" using assms(1,2) b
    by (auto simp: flush_def x Let_def split: if_splits option.splits)
  then show ?thesis using that b x by blast
qed

lemma flush_all_applied:
  assumes "flush S en P e = (e', None)" "P \<noteq> {}" "e_blocked e \<noteq> {} \<Longrightarrow> blockedErr e \<noteq> None" "s \<in> set (e_specs e)"
  shows "\<not> unapplied e' s"
proof -
  obtain e1 cand fcs where b: "buildCandidate S e = (e1, Inr (cand, fcs))" "e_applied e' = e_applied e1"
    using flush_success [OF assms(1-3)] by blast
  have "e_observed e' = e_observed e" using obv.view_flush [of S en P e] assms(1) by simp
  then show ?thesis using buildCandidate_Inr [OF b(1)] b(2) assms(4)
    by (auto simp: unapplied_def diff_observed_applied split: option.splits)
qed

lemma candidate_paths:
  assumes "buildCandidate S e = (e1, Inr (cand, fcs))" and "distinct (map sp_Path (e_specs e))"
  shows "map fc_Path (filter (\<lambda>c. hasSpecPath (e_specs e) (fc_Path c)) fcs) = map sp_Path (filter (unapplied e) (e_specs e))"
proof -
  have "filter (\<lambda>c. hasSpecPath (e_specs e) (fc_Path c)) (map (version_change ob ap) (filter q (e_specs e)))
      = map (version_change ob ap) (filter q (e_specs e))" for ob ap q
    by (rule filter_True) (auto simp: version_change_def hasSpecPath_def list_ex_iff)
  then show ?thesis
    using buildCandidate_Inr [OF assms(1)] diff_observed_changes [OF assms(2)]
    by (simp add: derived_changes_only unapplied_newer version_change_def comp_def)
qed

text \<open>One version further, told once: the effect of an accepted candidate on what callers see.\<close>

definition flush_moved :: "sys \<Rightarrow> engine \<Rightarrow> engine \<Rightarrow> gval \<Rightarrow> FieldChange list \<Rightarrow> bool" where
  "flush_moved S e e' cand fcs \<longleftrightarrow> e_version e' = e_version e + 1 \<and> sh_Config (hd (History e')) = cand \<and> sh_Fields (hd (History e')) = fcs
     \<and> (if e_pinned e then Get e' = Get e \<and> queue_view e' = queue_view e
        else Get e' = cand \<and> queue_view e' = queue_view (enqueue (o_queueDepth (sy_o S)) (gate_event e cand fcs) e))"

lemma flush_moves:
  assumes "P \<noteq> {}" "buildCandidate S e = (e1, Inr (cand, fcs))" "fcs \<noteq> []" "flush S en P e = (e', None)"
  shows "flush_moved S e e' cand fcs"
proof -
  have "runPreApply (sy_hook S) (en_hook en) (en_ctxErr en) (gate_event e cand fcs) = None"
    using flush_refused [OF assms(1-3)] assms(4) by (cases "runPreApply (sy_hook S) (en_hook en) (en_ctxErr en) (gate_event e cand fcs)") auto
  from flush_accepted [OF assms(1-3) this] have "flush_applied S en e e' cand fcs" using assms(4) by auto
  moreover have "hd (rev (keep_newest (n + 1) (h @ [x]))) = x" for n h and x :: Snapshot
    by (simp add: keep_newest_def hd_rev last_drop)
  ultimately show ?thesis
    by (auto simp: flush_moved_def flush_applied_def Let_def apply_view_def Get_def History_def)
qed

text \<open>
  C3. A flush that reports success has converged: every field's applied version is its observed one,
  and the accepted candidate is what the observed values decode, derive and validate to. Either it
  found no change and moved nothing, or it took exactly one new version with one event that tells
  the old and the new configuration and the changed fields; while pinned the served configuration
  and the queue stay put.
\<close>

theorem flush_converges:
  assumes "started C R T o' en en' d S e0" and "reach S e0 t e" and "P \<noteq> {}" and "flush S now P e = (e', None)"
  shows "(\<forall>s\<in>set (e_specs e'). \<not> unapplied e' s)
    \<and> (\<exists>cand fcs. snd (buildCandidate S e) = Inr (cand, fcs)
       \<and> map fc_Path (filter (\<lambda>c. hasSpecPath (e_specs e) (fc_Path c)) fcs) = map sp_Path (filter (unapplied e) (e_specs e))
       \<and> (if fcs = [] then apply_view e' = apply_view e \<and> queue_view e' = queue_view e
          else flush_moved S e e' cand fcs))"
proof -
  have bl: "e_blocked e \<noteq> {} \<Longrightarrow> blockedErr e \<noteq> None"
    using assms(1) reach_block [OF assms(2) Watch_inv(2)] blockedErr_Some unfolding started_def by blast
  obtain e1 cand fcs where b: "buildCandidate S e = (e1, Inr (cand, fcs))" and nil: "fcs = [] \<Longrightarrow> e' = e1"
    using flush_success [OF assms(4,3) bl] by blast
  note dp = reach_distinct_paths [OF assms(1,2)]
  have fr: "e_specs e' = e_specs e" using spv.view_flush [of S now P e] assms(4) by simp
  have "\<forall>s\<in>set (e_specs e'). \<not> unapplied e' s"
    using flush_all_applied [OF assms(4,3) bl] by (simp add: fr)
  moreover have "map fc_Path (filter (\<lambda>c. hasSpecPath (e_specs e) (fc_Path c)) fcs) = map sp_Path (filter (unapplied e) (e_specs e))"
    by (rule candidate_paths [OF b dp])
  moreover have "if fcs = [] then apply_view e' = apply_view e \<and> queue_view e' = queue_view e else flush_moved S e e' cand fcs"
    using flush_moves [OF assms(3) b _ assms(4)] buildCandidate_views [of S e] nil b by auto
  ultimately show ?thesis using b by auto
qed

theorem flush_converges_witness:
  "\<exists>e'. flush app_sys (app_env 600000000) {''A''} (app_at app_change) = (e', None)
     \<and> (\<forall>s\<in>set (e_specs e'). \<not> unapplied e' s) \<and> flush_moved app_sys (app_at app_change) e' app_cand app_fcs"
proof -
  obtain t where r: "reach app_sys app_engine t (app_at app_change)" using app_reach [OF app_scripts(1)] by blast
  let ?f = "flush app_sys (app_env 600000000) {''A''} (app_at app_change)"
  have "snd ?f = None" by code_simp
  then have f: "?f = (fst ?f, None)" by (metis prod.collapse)
  show ?thesis using flush_converges [OF app_started r _ f] app_candidate f by (auto simp: app_fcs_def)
qed

end
