(* ===== verification/Pins.thy ===== *)
theory Pins
  imports Safety
begin

text \<open>
  Guarantees of pinning (\<^verbatim>\<open>pin.go\<close> and \<^verbatim>\<open>handlePin\<close>): what a pin freezes, which versions can be pinned,
  and how an unpin catches up.
\<close>

subsection \<open>Frozen while pinned\<close>

text \<open>Every event ever handed to the dispatch queue and not dropped, oldest first.\<close>

definition events :: "engine \<Rightarrow> Change list" where
  "events e = e_delivered e @ e_dispatch e"

lemma events_queue_view: "queue_view e = queue_view e' \<Longrightarrow> events e = events e'"
  by (simp add: events_def queue_view_def)

definition pin_view where
  "pin_view e = (w_cfg e, e_pinned e, e_pinnedVersion e, e_pinnedConfig e, e_pinnedApplied e)"

lemma pin_view_apply: "apply_view e = apply_view e' \<Longrightarrow> pin_view e = pin_view e'"
  by (simp add: pin_view_def apply_view_def)

lemma flush_pinned:
  assumes "e_pinned e"
  shows "pin_view (fst (flush S en P e)) = pin_view e \<and> queue_view (fst (flush S en P e)) = queue_view e"
proof -
  obtain e' r where f: "flush S en P e = (e', r)" by fastforce
  from f show ?thesis
  proof (cases rule: flush_cases)
    case unmoved
    then show ?thesis using f pin_view_apply by simp
  next
    case (applied e1 cand fcs)
    then show ?thesis using f assms by (auto simp: flush_applied_def Let_def apply_view_def pin_view_def)
  qed
qed

definition repins :: "input \<Rightarrow> bool" where
  "repins i = (case i of InControl cmd \<Rightarrow> pc_kind cmd = pinAt \<or> pc_kind cmd = unpin | _ \<Rightarrow> False)"

lemma pin_view_quiet [simp]:
  "pin_view (publish S en e) = pin_view e" "pin_view (e_done_update f e) = pin_view e" "pin_view (e_pending_update g e) = pin_view e"
  "pin_view (disarm e) = pin_view e" "queue_view (e_done_update f e) = queue_view e"
  by (simp_all add: pin_view_def publish_def disarm_def queue_view_def)

lemma step_pinned:
  assumes "e_pinned e" "served_inv S e" "\<not> repins i" "enabled en i e"
  shows "pin_view (step S en i e) = pin_view e \<and> events (step S en i e) = events e"
proof (cases i)
  case (InUpdate idx pos up)
  have "apply_view (step S en i e) = apply_view e" "queue_view (step S en i e) = queue_view e"
    using InUpdate by (simp_all add: step_def)
  then show ?thesis using pin_view_apply events_queue_view by blast
next
  case InTimer
  have "queue_view (step S en i e) = queue_view e" "pin_view (step S en i e) = pin_view e"
    using InTimer flush_pinned [OF assms(1), of S en "e_pending e"] by (simp_all add: step_def on_timer_def Let_def)
  then show ?thesis using events_queue_view by blast
next
  case (InControl cmd)
  show ?thesis
  proof (cases "pc_kind cmd")
    case refresh
    let ?e = "fold (refresh_field S en) [0..<length (e_specs e)] e"
    have v: "apply_view ?e = apply_view e" "queue_view ?e = queue_view e" by simp_all
    have "e_pinned ?e" using assms(1) v(1) by (simp add: apply_view_def)
    note f = flush_pinned [OF this, of S en "set (map sp_Path (e_specs e))"]
    have st: "step S en i e = publish S en (fst (flush S en (set (map sp_Path (e_specs e))) ?e))"
      using InControl refresh by (simp add: step_def handlePin_refresh refreshNow_flush)
    have "queue_view (step S en i e) = queue_view e" unfolding st qv.view_publish using f v(2) by simp
    moreover have "pin_view (step S en i e) = pin_view e" unfolding st pin_view_quiet(1) using f pin_view_apply [OF v(1)] by simp
    ultimately show ?thesis using events_queue_view by blast
  next
    case pinCurrent
    then show ?thesis using InControl assms(1,2)
      by (auto simp: step_def handlePin_def Let_def publish_def pin_view_def events_def served_inv_def)
  qed (use InControl assms(3) in \<open>auto simp: repins_def\<close>)
next
  case InDispatch
  then show ?thesis using assms(4) by (simp add: step_def on_dispatch_def pin_view_def events_def enabled_def)
qed (auto simp: step_def on_closed_def on_cancel_def Let_def disarm_def pin_view_def events_def)

lemma step_served:
  assumes "Watch C R T o' en en' d = Inr (S, e0)" and "reach S e0 t e"
  shows "serve_inv S e" "report_inv e"
  using reach_inv [OF assms(2) Watch_inv(1) [OF assms(1)]] reach_report [OF assms(2) Watch_report [OF assms(1)]] by blast+

text \<open>
  C5. While a version is pinned, nothing but another pin or an unpin changes what \<^verbatim>\<open>Get\<close> and
  \<^verbatim>\<open>Pinned\<close> return, and no event reaches OnChange: updates, flushes, refreshes and timers work on
  in the background.
\<close>

theorem pinned_frozen:
  assumes "Watch C R T o' en en' d = Inr (S, e0)" and "reach S e0 t e" and "Pinned e = Some v"
    and "enabled now i e" and "\<not> repins i"
  shows "Get (step S now i e) = Get e \<and> Pinned (step S now i e) = Some v \<and> events (step S now i e) = events e"
proof -
  note inv = step_served [OF assms(1,2)]
  have p: "e_pinned e" "e_pinnedVersion e = v" using assms(3) Pinned_eq [OF inv(2)] by (auto split: if_splits)
  have "pin_view (step S now i e) = pin_view e \<and> events (step S now i e) = events e"
    using inv(1) by (intro step_pinned [OF p(1) _ assms(5,4)]) (simp add: serve_inv_def)
  then show ?thesis using p Pinned_eq [OF step_report [OF inv(2)], of S now i]
    by (simp add: pin_view_def Get_def)
qed

subsection \<open>Pinning a version\<close>

lemma findSnapshot_iff: "findSnapshot e v \<noteq> None \<longleftrightarrow> v \<in> sh_Version ` set (e_history e)"
  by (auto simp: findSnapshot_def find_None_iff)

lemma history_versions:
  "history_inv S e \<Longrightarrow> v \<in> sh_Version ` set (e_history e) \<longleftrightarrow> e_version e < v + length (e_history e) \<and> v \<le> e_version e"
proof -
  assume i: "history_inv S e"
  then have "sh_Version ` set (e_history e) = {e_version e + 1 - length (e_history e)..<e_version e + 1}"
    unfolding history_inv_def consecutive_def by (metis list.set_map set_upt)
  then show ?thesis using i by (auto simp: history_inv_def)
qed

lemma handlePin_pinAt:
  "pc_kind cmd = pinAt \<Longrightarrow> handlePin S en cmd e = (case findSnapshot e (pc_version cmd) of
     None \<Rightarrow> (publish S en e, \<lparr>pr_version = 0, pr_err = Some (Sentinel ErrNoSuchSnapshot)\<rparr>)
   | Some snap \<Rightarrow> (publish S en (e\<lparr>e_pinned := True, e_pinnedVersion := pc_version cmd, e_pinnedConfig := sh_Config snap,
        e_pinnedApplied := sh_applied snap, w_cfg := sh_Config snap\<rparr>), \<lparr>pr_version = pc_version cmd, pr_err = None\<rparr>))"
  by (simp add: handlePin_def Let_def split: option.splits)

text \<open>
  A version can be pinned exactly when it is one of the retained ones, that is one of the last
  as many as \<^verbatim>\<open>History\<close> holds. Then \<^verbatim>\<open>Get\<close> serves that snapshot's configuration; otherwise the caller
  gets \<open>ErrNoSuchSnapshot\<close> and what is served and pinned stays as it was. Neither sends an event.
\<close>

lemma Pin_iff_retained:
  assumes "Watch C R T o' en en' d = Inr (S, e0)" and "reach S e0 t e"
    and "handlePin S now \<lparr>pc_kind = pinAt, pc_version = v\<rparr> e = (e', reply)"
  shows "(pr_err reply = None \<longleftrightarrow> e_version e < v + length (History e) \<and> v \<le> e_version e)
    \<and> (pr_err reply = None \<longrightarrow> pr_version reply = v \<and> Pinned e' = Some v \<and> (\<exists>s\<in>set (History e). sh_Version s = v \<and> Get e' = sh_Config s))
    \<and> (pr_err reply \<noteq> None \<longrightarrow> pr_err reply = Some (Sentinel ErrNoSuchSnapshot) \<and> Get e' = Get e \<and> Pinned e' = Pinned e)
    \<and> History e' = History e \<and> events e' = events e"
proof -
  note inv = step_served [OF assms(1,2)]
  have h: "history_inv S e" "w_snapshots e = rev (e_history e)" using inv(1) by (auto simp: serve_inv_def history_inv_def)
  note pin = handlePin_pinAt [of "\<lparr>pc_kind = pinAt, pc_version = v\<rparr>" S now e]
  show ?thesis
  proof (cases "findSnapshot e v")
    case None
    then have e': "e' = publish S now e" "pr_err reply = Some (Sentinel ErrNoSuchSnapshot)" using assms(3) pin by auto
    moreover have "\<not> (e_version e < v + length (e_history e) \<and> v \<le> e_version e)"
      using None findSnapshot_iff history_versions [OF h(1)] by blast
    ultimately show ?thesis using h(2) Pinned_eq [OF inv(2)] Pinned_eq [OF report_inv_publish [of S now e]]
      by (auto simp: History_def Get_def publish_def events_def)
  next
    case (Some s)
    let ?e = "e\<lparr>e_pinned := True, e_pinnedVersion := v, e_pinnedConfig := sh_Config s, e_pinnedApplied := sh_applied s, w_cfg := sh_Config s\<rparr>"
    have e': "e' = publish S now ?e" "reply = \<lparr>pr_version = v, pr_err = None\<rparr>" using assms(3) pin Some by auto
    have "e_version e < v + length (e_history e) \<and> v \<le> e_version e"
      using Some findSnapshot_iff [of e v] history_versions [OF h(1)] by simp
    moreover have "s \<in> set (e_history e)" "sh_Version s = v" using findSnapshot_Some [OF Some] by simp_all
    ultimately show ?thesis using e' h(2) Pinned_eq [OF report_inv_publish [of S now ?e]]
      by (auto simp: History_def Get_def publish_def events_def)
  qed
qed

subsection \<open>Unpinning\<close>

lemma handlePin_unpin:
  fixes S e en cmd
  assumes "pc_kind cmd = unpin" "e_pinned e"
  defines "fcs \<equiv> diffApplied S e (e_pinnedApplied e) (e_applied e) (e_pinnedConfig e) (e_lastGood e)"
  shows "handlePin S en cmd e = (publish S en ((if fcs \<noteq> [] then enqueue (o_queueDepth (sy_o S))
      \<lparr>ch_Old = e_pinnedConfig e, ch_New = e_lastGood e, ch_Fields = fcs\<rparr> (e\<lparr>e_pinned := False, w_cfg := e_lastGood e\<rparr>)
      else e\<lparr>e_pinned := False, w_cfg := e_lastGood e\<rparr>)\<lparr>e_pinnedApplied := (\<lambda>_. [])\<rparr>), \<lparr>pr_version = 0, pr_err = None\<rparr>)"
  using assms by (simp add: handlePin_def Let_def)

text \<open>
  What was applied with a version: the version is the one a state of the run served as its newest, with
  that configuration and those versions of the fields. The state is looked up in the run itself, not in
  what the engine keeps of it.
\<close>

definition same_applied :: "fieldSpec list \<Rightarrow> (path \<Rightarrow> string) \<Rightarrow> (path \<Rightarrow> string) \<Rightarrow> bool" where
  "same_applied specs a b \<longleftrightarrow> (\<forall>s\<in>set specs. a (sp_Path s) = b (sp_Path s))"

definition applied_as :: "sys \<Rightarrow> engine \<Rightarrow> instant \<Rightarrow> engine \<Rightarrow> nat \<Rightarrow> gval \<Rightarrow> (path \<Rightarrow> string) \<Rightarrow> bool" where
  "applied_as S e0 t e v cfg m \<longleftrightarrow> (\<exists>t1 e1. reach S e0 t1 e1 \<and> reach S e1 t e
     \<and> e_version e1 = v \<and> e_lastGood e1 = cfg \<and> same_applied (e_specs e0) (e_applied e1) m)"

lemma applied_as_step:
  "applied_as S e0 t e v cfg m \<Longrightarrow> t \<le> en_now en \<Longrightarrow> enabled en i e \<Longrightarrow> applied_as S e0 (en_now en) (step S en i e) v cfg m"
  unfolding applied_as_def by (blast intro: reach_step)

definition applied_inv :: "engine \<Rightarrow> bool" where
  "applied_inv e \<longleftrightarrow> same_applied (e_specs e) (e_applied e) (sh_applied (last (e_history e)))"

lemma applied_inv_view: "apply_view e = apply_view e' \<Longrightarrow> e_applied e = e_applied e' \<Longrightarrow> applied_inv e = applied_inv e'"
  by (simp add: applied_inv_def apply_view_def)

lemma diff_none: "fst (diff_observed ob specs m) = [] \<Longrightarrow> snd (diff_observed ob specs m) = m"
  by (induction specs arbitrary: m) (auto simp: case_prod_beta split: option.splits if_splits)

text \<open>A flush that moves nothing leaves the applied versions of the fields; one that moves records them with its snapshot.\<close>

lemma flush_records:
  assumes "distinct (map sp_Path (e_specs e))"
  shows "(apply_view (fst (flush S en P e)) = apply_view e \<and> same_applied (e_specs e) (e_applied (fst (flush S en P e))) (e_applied e))
    \<or> (\<exists>cand fcs. flush_applied S en e (fst (flush S en P e)) cand fcs
          \<and> e_applied (fst (flush S en P e)) = snd (diff_observed (e_observed e) (e_specs e) (e_applied e)))"
proof (cases "P = {}")
  case True
  then show ?thesis by (simp add: flush_def same_applied_def)
next
  case P: False
  obtain e1 bc where b: "buildCandidate S e = (e1, bc)" by fastforce
  show ?thesis
  proof (cases bc)
    case (Inl x)
    have "apply_view e1 = apply_view e" using buildCandidate_views(1) [of S e] b by simp
    moreover have "e_applied e1 = e_applied e"
      using b Inl by (auto simp: buildCandidate_def split: if_splits sum.splits option.splits prod.splits)
    ultimately show ?thesis using b Inl P by (simp add: flush_def same_applied_def)
  next
    case (Inr r)
    obtain cand fcs where r: "bc = Inr (cand, fcs)" using Inr by (cases r) simp
    note bb = b [unfolded r]
    note bi = buildCandidate_Inr [OF bb]
    show ?thesis
    proof (cases "fcs = []")
      case True
      then have "e1 = e" using bi diff_none by (auto simp: diff_none)
      then show ?thesis using bb True P by (simp add: flush_def same_applied_def)
    next
      case False
      show ?thesis
      proof (cases "runPreApply (sy_hook S) (en_hook en) (en_ctxErr en) (gate_event e cand fcs)")
        case (Some x)
        have "apply_view (e\<lparr>e_applied := m\<rparr>) = apply_view e" for m by (simp add: apply_view_def)
        then show ?thesis using flush_refused [OF P bb False Some] refusal_applied [OF bb assms]
          by (auto simp: same_applied_def)
      next
        case None
        obtain e' where e': "flush S en P e = (e', None)" "flush_applied S en e e' cand fcs"
          using flush_accepted [OF P bb False None] by blast
        have "e_applied e' = e_applied e1" using flush_success [OF e'(1) P] bi bb by (metis prod.inject)
        then show ?thesis using e' bi by auto
      qed
    qed
  qed
qed

lemma flush_applied_last:
  assumes "flush_applied S en e e' cand fcs"
  shows "sh_applied (last (e_history e')) = snd (diff_observed (e_observed e) (e_specs e) (e_applied e))"
    and "set (e_history e') \<subseteq> insert (last (e_history e')) (set (e_history e))" and "e_specs e' = e_specs e" and "e_history e' \<noteq> []"
    and "e_pinned e' = e_pinned e" "e_pinnedVersion e' = e_pinnedVersion e" "e_pinnedConfig e' = e_pinnedConfig e" "e_pinnedApplied e' = e_pinnedApplied e"
  using assms set_drop_subset [of _ "e_history e"]
  by (auto simp: flush_applied_def Let_def apply_view_def keep_newest_def last_drop)

text \<open>What a step may do to the snapshots and to the pin.\<close>

definition pin_source :: "engine \<Rightarrow> engine \<Rightarrow> bool" where
  "pin_source e e' \<longleftrightarrow> e_pinned e' \<longrightarrow>
     (e_pinned e \<and> e_pinnedVersion e' = e_pinnedVersion e \<and> e_pinnedConfig e' = e_pinnedConfig e \<and> e_pinnedApplied e' = e_pinnedApplied e)
   \<or> (e_pinnedVersion e' = e_version e \<and> e_pinnedConfig e' = e_lastGood e \<and> e_pinnedApplied e' = e_applied e)
   \<or> (\<exists>s\<in>set (e_history e). e_pinnedVersion e' = sh_Version s \<and> e_pinnedConfig e' = sh_Config s \<and> e_pinnedApplied e' = sh_applied s)"

definition records_step :: "engine \<Rightarrow> engine \<Rightarrow> bool" where
  "records_step e e' \<longleftrightarrow> applied_inv e' \<and> set (e_history e') \<subseteq> insert (last (e_history e')) (set (e_history e)) \<and> pin_source e e'"

lemma records_quiet: "apply_view e' = apply_view e \<Longrightarrow> e_applied e' = e_applied e \<Longrightarrow> applied_inv e \<Longrightarrow> records_step e e'"
  using applied_inv_view [of e' e] by (auto simp: records_step_def pin_source_def apply_view_def)

lemma records_after:
  "records_step e e' \<Longrightarrow> apply_view e'' = apply_view e' \<Longrightarrow> e_applied e'' = e_applied e' \<Longrightarrow> records_step e e''"
  using applied_inv_view [of e'' e'] by (auto simp: records_step_def pin_source_def apply_view_def)

lemma records_before:
  "records_step e1 e' \<Longrightarrow> apply_view e1 = apply_view e \<Longrightarrow> e_applied e1 = e_applied e \<Longrightarrow> records_step e e'"
  by (simp add: records_step_def pin_source_def apply_view_def)

lemma records_flush:
  assumes "distinct (map sp_Path (e_specs e))" "applied_inv e"
  shows "records_step e (fst (flush S en P e))"
  using flush_records [OF assms(1), of S en P]
proof
  assume "apply_view (fst (flush S en P e)) = apply_view e \<and> same_applied (e_specs e) (e_applied (fst (flush S en P e))) (e_applied e)"
  then show ?thesis using assms(2) by (auto simp: records_step_def applied_inv_def pin_source_def apply_view_def same_applied_def)
next
  assume "\<exists>cand fcs. flush_applied S en e (fst (flush S en P e)) cand fcs
          \<and> e_applied (fst (flush S en P e)) = snd (diff_observed (e_observed e) (e_specs e) (e_applied e))"
  then show ?thesis using flush_applied_last by (fastforce simp: records_step_def applied_inv_def pin_source_def same_applied_def)
qed

lemma records_pin:
  assumes "applied_inv e" "pc_kind cmd \<noteq> refresh"
  shows "records_step e (fst (handlePin S en cmd e))"
proof (cases "pc_kind cmd")
  case pinCurrent
  then show ?thesis using assms(1) by (auto simp: handlePin_def Let_def publish_def records_step_def applied_inv_def pin_source_def)
next
  case pinAt
  note h = handlePin_pinAt [OF pinAt, of S en e]
  show ?thesis
  proof (cases "findSnapshot e (pc_version cmd)")
    case None
    then show ?thesis using h assms(1) by (simp add: records_quiet)
  next
    case (Some s)
    then have "pin_source e (fst (handlePin S en cmd e))" using h findSnapshot_Some [OF Some]
      unfolding pin_source_def by (intro impI disjI2 bexI [of _ s]) (simp_all add: publish_def)
    then show ?thesis using Some h assms(1) by (auto simp: publish_def records_step_def applied_inv_def)
  qed
next
  case unpin
  show ?thesis
  proof (cases "e_pinned e")
    case False
    then show ?thesis using unpin assms(1) by (simp add: handlePin_def records_quiet)
  next
    case True
    obtain e2 where e2: "fst (handlePin S en cmd e) = publish S en (e2\<lparr>e_pinnedApplied := (\<lambda>_. [])\<rparr>)" "e_applied e2 = e_applied e"
      "apply_view e2 = apply_view (e\<lparr>e_pinned := False, w_cfg := e_lastGood e\<rparr>)"
      using handlePin_unpin [OF unpin True, of S en] by (cases "diffApplied S e (e_pinnedApplied e) (e_applied e) (e_pinnedConfig e) (e_lastGood e) = []") auto
    then show ?thesis using assms(1)
      by (auto simp: publish_def records_step_def applied_inv_def pin_source_def apply_view_def)
  qed
qed (use assms(2) in simp)

lemma records_refresh:
  assumes "distinct (map sp_Path (e_specs e))" "applied_inv e"
  shows "records_step e (fst (refreshNow S en e))"
proof -
  define e1 where "e1 = fold (refresh_field S en) [0..<length (e_specs e)] e"
  have v: "apply_view e1 = apply_view e" "e_applied e1 = e_applied e" "e_specs e1 = e_specs e" by (simp_all add: e1_def)
  have "records_step e1 (fst (flush S en (set (map sp_Path (e_specs e))) e1))"
    using assms v applied_inv_view [OF v(1,2)] by (intro records_flush) simp_all
  then show ?thesis using records_before v by (simp add: refreshNow_flush flip: e1_def)
qed

lemma records_every_step:
  assumes "distinct (map sp_Path (e_specs e))" "applied_inv e"
  shows "records_step e (step S en i e)"
proof (cases i)
  case (InUpdate idx pos up)
  then show ?thesis using assms(2) by (simp add: step_def records_quiet)
next
  case InTimer
  have r: "records_step e (fst (flush S en (e_pending e) e))" by (rule records_flush [OF assms])
  show ?thesis unfolding step_def InTimer
    by (rule records_after [OF r]) (auto simp: on_timer_def Let_def apply_view_def disarm_def publish_def)
next
  case (InControl cmd)
  show ?thesis
  proof (cases "pc_kind cmd = refresh")
    case True
    show ?thesis using InControl handlePin_refresh [OF True, of S en e] records_after [OF records_refresh [OF assms]]
      by (simp add: step_def)
  next
    case False
    then show ?thesis using InControl records_pin [OF assms(2) False] by (simp add: step_def)
  qed
qed (use assms(2) in \<open>auto simp: step_def on_closed_def on_cancel_def on_dispatch_def Let_def disarm_def apply_view_def intro!: records_quiet\<close>)

text \<open>Every retained snapshot, and a pin, is what some earlier state of the run had applied.\<close>

definition recorded :: "sys \<Rightarrow> engine \<Rightarrow> instant \<Rightarrow> engine \<Rightarrow> bool" where
  "recorded S e0 t e \<longleftrightarrow> applied_inv e \<and> serve_inv S e
     \<and> (\<forall>s\<in>set (e_history e). applied_as S e0 t e (sh_Version s) (sh_Config s) (sh_applied s))
     \<and> (e_pinned e \<longrightarrow> applied_as S e0 t e (e_pinnedVersion e) (e_pinnedConfig e) (e_pinnedApplied e))"

lemma newest_applied_as:
  assumes "reach S e0 t e" "applied_inv e" "serve_inv S e"
  shows "applied_as S e0 t e (e_version e) (e_lastGood e) (e_applied e)"
    and "applied_as S e0 t e (sh_Version (last (e_history e))) (sh_Config (last (e_history e))) (sh_applied (last (e_history e)))"
proof -
  have "sh_Version (last (e_history e)) = e_version e"
    using assms(3) by (metis history_inv_def consecutive_def serve_inv_def last_map last_upt diff_add_inverse2 less_add_one
        list.map_disc_iff upt_conv_Nil not_le)
  moreover have "sh_Config (last (e_history e)) = e_lastGood e" using assms(3) by (simp add: serve_inv_def history_inv_def)
  moreover have "same_applied (e_specs e0) (e_applied e) (sh_applied (last (e_history e)))"
    using assms(2) by (simp add: applied_inv_def reach_specs [OF assms(1)])
  ultimately show "applied_as S e0 t e (e_version e) (e_lastGood e) (e_applied e)"
    and "applied_as S e0 t e (sh_Version (last (e_history e))) (sh_Config (last (e_history e))) (sh_applied (last (e_history e)))"
    using assms(1) unfolding applied_as_def by (force intro: reach_start simp: same_applied_def)+
qed

lemma recorded_step:
  assumes "reach S e0 t e" "recorded S e0 t e" "t \<le> en_now en" "enabled en i e" "distinct (map sp_Path (e_specs e))"
  shows "recorded S e0 (en_now en) (step S en i e)"
proof -
  have old: "applied_inv e" "serve_inv S e" using assms(2) by (simp_all add: recorded_def)
  have r: "records_step e (step S en i e)" by (rule records_every_step [OF assms(5) old(1)])
  have new: "applied_inv (step S en i e)" "serve_inv S (step S en i e)" using r step_inv [OF old(2)] by (simp_all add: records_step_def)
  note keep = applied_as_step [OF _ assms(3,4)]
  note here = newest_applied_as [OF reach_step [OF assms(1,3,4)] new]
  have "applied_as S e0 (en_now en) (step S en i e) (sh_Version s) (sh_Config s) (sh_applied s)" if "s \<in> set (e_history (step S en i e))" for s
    using that r here(2) keep assms(2) unfolding recorded_def records_step_def by blast
  moreover have "applied_as S e0 (en_now en) (step S en i e) (e_pinnedVersion (step S en i e)) (e_pinnedConfig (step S en i e)) (e_pinnedApplied (step S en i e))"
    if p: "e_pinned (step S en i e)"
  proof -
    have "pin_source e (step S en i e)" using r by (simp add: records_step_def)
    then show ?thesis using p assms(2) keep [OF newest_applied_as(1) [OF assms(1) old]] keep
      unfolding pin_source_def recorded_def by metis
  qed
  ultimately show ?thesis using new by (simp add: recorded_def)
qed

lemma reach_recorded:
  assumes "reach S e0 t e" "\<And>t. recorded S e0 t e0" "distinct (map sp_Path (e_specs e0))"
  shows "recorded S e0 t e"
  using assms
proof (induction rule: reach.induct)
  case (reach_step t e en i)
  then show ?case using recorded_step [OF reach_step(1)] by (simp add: reach_specs [OF reach_step(1)])
qed

lemma Watch_recorded:
  assumes "Watch C R T o' en en' d = Inr (S, e0)"
  shows "recorded S e0 t e0"
proof -
  obtain l errs d' where l: "e0 = start S en' (initial_engine S en' l d' (map EmitErr errs))" using assms by (rule Watch_Inr)
  have "applied_inv e0" unfolding l by (simp add: applied_inv_def start_def initial_engine_def Let_def publish_def same_applied_def)
  moreover have "\<not> e_pinned e0" "length (e_history e0) = 1" using initial_engine_state(5,6) [of S en' en' l d' "map EmitErr errs", folded l] by auto
  moreover from this(2) have "set (e_history e0) = {last (e_history e0)}" by (cases "e_history e0") auto
  ultimately show ?thesis using newest_applied_as [OF reach_start _ Watch_inv(1) [OF assms]] Watch_inv(1) [OF assms]
    by (simp add: recorded_def)
qed

lemma diffApplied_cong:
  assumes "same_applied (e_specs e) m m'"
  shows "diffApplied S e m' after old new = diffApplied S e m after old new"
proof -
  have "filter (\<lambda>s. m' (sp_Path s) \<noteq> after (sp_Path s)) (e_specs e) = filter (\<lambda>s. m (sp_Path s) \<noteq> after (sp_Path s)) (e_specs e)"
    using assms by (intro filter_cong) (auto simp: same_applied_def)
  then show ?thesis using assms by (auto simp: diffApplied_def same_applied_def)
qed

lemma unpin_view:
  assumes "handlePin S now \<lparr>pc_kind = unpin, pc_version = k\<rparr> e = (e', reply)" and p: "e_pinned e"
  shows "pr_err reply = None" "Get e' = e_lastGood e" "History e' = History e" "Pinned e' = None"
    and "let fcs = diffApplied S e (e_pinnedApplied e) (e_applied e) (e_pinnedConfig e) (e_lastGood e)
      in queue_view e' = (if fcs = [] then queue_view e
           else queue_view (enqueue (o_queueDepth (sy_o S)) \<lparr>ch_Old = e_pinnedConfig e, ch_New = e_lastGood e, ch_Fields = fcs\<rparr> e))"
proof -
  define fcs where "fcs = diffApplied S e (e_pinnedApplied e) (e_applied e) (e_pinnedConfig e) (e_lastGood e)"
  define ev where "ev = \<lparr>ch_Old = e_pinnedConfig e, ch_New = e_lastGood e, ch_Fields = fcs\<rparr>"
  define e1 where "e1 = e\<lparr>e_pinned := False, w_cfg := e_lastGood e\<rparr>"
  define e2 where "e2 = (if fcs \<noteq> [] then enqueue (o_queueDepth (sy_o S)) ev e1 else e1)"
  have e': "e' = publish S now (e2\<lparr>e_pinnedApplied := (\<lambda>_. [])\<rparr>)" "pr_err reply = None"
    using assms(1) handlePin_unpin [of "\<lparr>pc_kind = unpin, pc_version = k\<rparr>" e S now] p
    by (auto simp: fcs_def ev_def e1_def e2_def)
  have a2: "apply_view e2 = apply_view e1" by (simp add: e2_def)
  have q1: "queue_view e1 = queue_view e" by (simp add: e1_def queue_view_def)
  have "queue_view e' = queue_view e2" unfolding e'(1) qv.view_publish by (simp add: queue_view_def)
  then have q: "queue_view e' = (if fcs = [] then queue_view e else queue_view (enqueue (o_queueDepth (sy_o S)) ev e))"
    using q1 enqueue_queue_view [OF q1] by (simp add: e2_def)
  have s: "Get e' = e_lastGood e" "History e' = History e" "\<not> e_pinned e'"
    using a2 by (auto simp: e'(1) publish_def Get_def History_def apply_view_def e1_def)
  have "report_inv e'" using e'(1) by simp
  then show "Pinned e' = None" using s(3) by (simp add: Pinned_eq)
  show "pr_err reply = None" "Get e' = e_lastGood e" "History e' = History e" using s e'(2) by simp_all
  show "let fcs = diffApplied S e (e_pinnedApplied e) (e_applied e) (e_pinnedConfig e) (e_lastGood e)
      in queue_view e' = (if fcs = [] then queue_view e
           else queue_view (enqueue (o_queueDepth (sy_o S)) \<lparr>ch_Old = e_pinnedConfig e, ch_New = e_lastGood e, ch_Fields = fcs\<rparr> e))"
    using q by (simp add: fcs_def ev_def)
qed

text \<open>
  C6. An unpin catches up in one go: \<^verbatim>\<open>Get\<close> returns the newest applied configuration at once, and at
  most one event goes to the queue, from the pinned configuration to the live one. The event names exactly
  the fields whose version now differs from the one they had when the pinned version was the newest applied
  one (and derived fields), whatever number of versions was applied before the pin and since: there is a state of the run
  that had the pinned version as its newest, served then what \<^verbatim>\<open>Get\<close> returned while pinned, and its field
  versions are what the event compares with.
\<close>

theorem unpin_coalesced:
  assumes "started C R T o' en en' d S e0" and "reach S e0 t e" and "Pinned e = Some v"
    and "handlePin S now \<lparr>pc_kind = unpin, pc_version = k\<rparr> e = (e', reply)"
  shows "pr_err reply = None \<and> Pinned e' = None \<and> Get e' = sh_Config (hd (History e')) \<and> History e' = History e
    \<and> (\<exists>t1 e1. reach S e0 t1 e1 \<and> reach S e1 t e \<and> e_version e1 = v \<and> Get e = e_lastGood e1
       \<and> (let fcs = map (\<lambda>s. \<lparr>fc_Path = sp_Path s, fc_OldVersion = e_applied e1 (sp_Path s), fc_NewVersion = e_applied e (sp_Path s)\<rparr>)
                (filter (\<lambda>s. e_applied e1 (sp_Path s) \<noteq> e_applied e (sp_Path s)) (e_specs e))
              @ derivedFieldChanges (sy_R S) (sy_T S) (Get e) (Get e') (sy_derives S) (e_specs e)
          in queue_view e' = (if fcs = [] then queue_view e
            else queue_view (enqueue (o_queueDepth (sy_o S)) \<lparr>ch_Old = Get e, ch_New = Get e', ch_Fields = fcs\<rparr> e))))"
proof -
  have w: "Watch C R T o' en en' d = Inr (S, e0)" using assms(1) by (simp add: started_def)
  note inv = step_served [OF w assms(2)]
  have p: "e_pinned e" "e_pinnedVersion e = v" using assms(3) Pinned_eq [OF inv(2)] by (auto split: if_splits)
  have g: "Get e = e_pinnedConfig e" "sh_Config (hd (History e)) = e_lastGood e"
    using inv(1) p by (auto simp: serve_inv_def served_inv_def history_inv_def Get_def History_def hd_rev)
  note u = unpin_view [OF assms(4) p(1)]
  have "recorded S e0 t e" using reach_recorded [OF assms(2) Watch_recorded [OF w] reach_distinct_paths [OF assms(1) reach_start]] .
  then obtain t1 e1 where e1: "reach S e0 t1 e1" "reach S e1 t e" "e_version e1 = v" "e_lastGood e1 = Get e"
    "same_applied (e_specs e) (e_applied e1) (e_pinnedApplied e)"
    using p by (auto simp: recorded_def applied_as_def g(1) reach_specs [OF assms(2)])
  have "let fcs = diffApplied S e (e_applied e1) (e_applied e) (Get e) (Get e')
      in queue_view e' = (if fcs = [] then queue_view e
           else queue_view (enqueue (o_queueDepth (sy_o S)) \<lparr>ch_Old = Get e, ch_New = Get e', ch_Fields = fcs\<rparr> e))"
    using u(5) unfolding diffApplied_cong [OF e1(5)] g(1) u(2) .
  note q = this [unfolded diffApplied_def]
  show ?thesis
    by (intro conjI exI [of _ t1] exI [of _ e1] q e1(1,2,3)) (simp_all add: u(1-4) g(2) e1(4))
qed

subsection \<open>A pinned run\<close>

definition app_pin :: "pinKind \<Rightarrow> nat \<Rightarrow> input" where
  "app_pin k v = InControl \<lparr>pc_kind = k, pc_version = v\<rparr>"

definition app_pinned :: "(env \<times> input) list" where
  "app_pinned = app_flush @ [(app_env 600000001, app_pin pinAt 1)]"

text \<open>Two more versions are applied while the first is pinned.\<close>

definition app_behind :: "(env \<times> input) list" where
  "app_behind = app_pinned @ [(app_env 600000002, app_update 1 0 ''x'' ''5''), (app_env 1200000000, InTimer)]"

lemma app_pin_scripts: "run_ok app_sys 0 app_pinned app_engine" "run_ok app_sys 0 app_behind app_engine"
  by code_simp+

theorem pinned_frozen_witness:
  "Get (step app_sys (app_env 600000002) (app_update 1 0 ''x'' ''5'') (app_at app_pinned)) = VStruct [VString ''v'', VString ''v'']"
proof -
  obtain t where r: "reach app_sys app_engine t (app_at app_pinned)" using app_reach [OF app_pin_scripts(1)] by blast
  have p: "Pinned (app_at app_pinned) = Some 1" "enabled (app_env 600000002) (app_update 1 0 ''x'' ''5'') (app_at app_pinned)"
    "\<not> repins (app_update 1 0 ''x'' ''5'')" "Get (app_at app_pinned) = VStruct [VString ''v'', VString ''v'']" by code_simp+
  show ?thesis using pinned_frozen [OF app_Watch r p(1,2,3)] p(4) by simp
qed

lemma Pin_iff_retained_witness:
  "\<exists>e' reply. handlePin app_sys (app_env 600000001) \<lparr>pc_kind = pinAt, pc_version = 1\<rparr> (app_at app_flush) = (e', reply)
     \<and> pr_err reply = None \<and> Pinned e' = Some 1"
proof -
  obtain t where r: "reach app_sys app_engine t (app_at app_flush)" using app_reach [OF app_scripts(2)] by blast
  obtain e' reply where h: "handlePin app_sys (app_env 600000001) \<lparr>pc_kind = pinAt, pc_version = 1\<rparr> (app_at app_flush) = (e', reply)"
    by fastforce
  have "length (History (app_at app_flush)) = 2" "e_version (app_at app_flush) = 2" by code_simp+
  then show ?thesis using Pin_iff_retained [OF app_Watch r h] h by simp
qed

theorem unpin_coalesced_witness:
  "\<exists>e' reply (e1 :: engine). handlePin app_sys (app_env 1200000001) \<lparr>pc_kind = unpin, pc_version = 0\<rparr> (app_at app_behind) = (e', reply)
     \<and> Get e' = VStruct [VString ''w'', VString ''x''] \<and> Pinned e' = None
     \<and> e_version e1 = 1 \<and> e_lastGood e1 = VStruct [VString ''v'', VString ''v'']"
proof -
  obtain t where r: "reach app_sys app_engine t (app_at app_behind)" using app_reach [OF app_pin_scripts(2)] by blast
  obtain e' reply where h: "handlePin app_sys (app_env 1200000001) \<lparr>pc_kind = unpin, pc_version = 0\<rparr> (app_at app_behind) = (e', reply)"
    by fastforce
  have p: "Pinned (app_at app_behind) = Some 1" "sh_Config (hd (History (app_at app_behind))) = VStruct [VString ''w'', VString ''x'']"
    "Get (app_at app_behind) = VStruct [VString ''v'', VString ''v'']"
    by code_simp+
  note u = unpin_coalesced [OF app_started r p(1) h]
  from u obtain e1 :: engine where e1: "e_version e1 = 1" "Get (app_at app_behind) = e_lastGood e1" by blast
  have "Get e' = VStruct [VString ''w'', VString ''x'']" "Pinned e' = None" using u p(2) by auto
  then show ?thesis using h e1 p(3) by auto
qed

end
