(* ===== verification/Observed.thy ===== *)
theory Observed
  imports Pins
begin

text \<open>
  The reconciler's view of a chain, kept per position and updated by watches, against the live
  resolve of the same chain; and what the observed values become.
\<close>

subsection \<open>Observed states form a precedence chain\<close>

text \<open>A position that has not reported counts as absent.\<close>

definition src_outcome :: "srcState \<Rightarrow> err + Value" where
  "src_outcome st = (if \<not> ss_seen st then Inl (Sentinel ErrNotFound)
     else (case ss_err st of Some err \<Rightarrow> Inl err | None \<Rightarrow> Inr (ss_value st)))"

interpretation obs: precedence src_outcome winner_walk
  by unfold_locales (auto simp: src_outcome_def split: option.splits if_splits)

fun unwrapped :: "err \<Rightarrow> err" where
  "unwrapped (ProviderError s r e) = e"
| "unwrapped e = e"

lemma seed_walk_winner:
  "winner_walk i (seed_walk R pv spec refs)
     = map_option (map_prod id (map_sum unwrapped (mark_sensitive spec))) (resolve_walk R pv i refs)"
  by (induction refs arbitrary: i) (auto simp: resolveRef_def split: option.splits sum.splits)

lemma seed_walk_length [simp]: "length (seed_walk R pv spec refs) = length refs"
  by (induction refs) (auto split: option.splits sum.splits)

lemma resolve_walk_ge: "resolve_walk R pv i refs = Some (j, r) \<Longrightarrow> i \<le> j \<and> j < i + length refs"
  using rchain.walk_Some_iff [of R pv i refs j r] by auto

lemma resolve_walk_Inl: "resolve_walk R pv i refs = Some (j, Inl e) \<Longrightarrow> \<exists>s r e'. e = ProviderError s r e'"
  by (auto simp: rchain.walk_Some_iff resolveRef_def split: option.splits sum.splits)

text \<open>
  The walk that seeds a chain marks every position down to the deciding one and no other.
\<close>

lemma seed_walk_seen:
  "k < length refs \<Longrightarrow> ss_seen (seed_walk R pv spec refs ! k) \<longleftrightarrow> (case resolve_walk R pv i refs of None \<Rightarrow> True | Some (j, _) \<Rightarrow> i + k \<le> j)"
proof (induction refs arbitrary: i k)
  case (Cons ref refs)
  show ?case
  proof (cases k)
    case 0
    then show ?thesis using resolve_walk_ge [of R pv i "ref # refs"] by (auto split: option.splits sum.splits prod.splits)
  next
    case (Suc n)
    then show ?thesis using Cons.IH [of n "Suc i"] Cons.prems
      by (auto simp: resolveRef_def unseen_def split: option.splits sum.splits)
  qed
qed simp

lemma seed_walk_first: "refs \<noteq> [] \<Longrightarrow> ss_seen (seed_walk R pv spec refs ! 0)"
  using seed_walk_seen [of 0 refs R pv spec 0] by (auto split: option.splits)

lemma merge_sources_nth:
  "length fresh = length old \<Longrightarrow> k < length old \<Longrightarrow> merge_sources fresh old ! k = (if ss_seen (fresh ! k) then fresh ! k else old ! k)"
  by (simp add: merge_sources_def)

lemma merge_sources_length [simp]: "length (merge_sources fresh old) = min (length fresh) (length old)"
  by (simp add: merge_sources_def)

text \<open>Merging freshly walked states over older ones gives the winner of the fresh walk.\<close>

lemma merge_winner:
  assumes "length old = length refs"
  shows "winner_walk 0 (merge_sources (seed_walk R pv spec refs) old) = winner_walk 0 (seed_walk R pv spec refs)"
proof (cases "winner_walk 0 (seed_walk R pv spec refs)")
  let ?s = "seed_walk R pv spec refs"
  case None
  then have "ss_seen (?s ! k)" if "k < length refs" for k
    using seed_walk_seen [OF that, of R pv spec 0] seed_walk_winner [of 0 R pv spec refs] by (simp split: option.splits)
  then have "merge_sources ?s old = ?s" using assms by (intro nth_equalityI) (auto simp: merge_sources_nth)
  then show ?thesis by simp
next
  let ?s = "seed_walk R pv spec refs"
  case (Some x)
  obtain j r where x: "x = (j, r)" by (cases x)
  note w = Some [unfolded x obs.walk_Some_iff]
  have "ss_seen (?s ! k)" if "k \<le> j" "k < length refs" for k
    using seed_walk_seen [OF that(2), of R pv spec 0] seed_walk_winner [of 0 R pv spec refs] Some x that(1)
    by (auto split: option.splits)
  then have "merge_sources ?s old ! k = ?s ! k" if "k \<le> j" for k
    using that w assms by (simp add: merge_sources_nth)
  then show ?thesis using w assms by (auto simp: Some x obs.walk_Some_iff)
qed

lemma winner_of_long:
  "length sts > 1 \<Longrightarrow> winner_of sts = (case winner_walk 0 sts of
     Some (i, r) \<Rightarrow> (r, Some i) | None \<Rightarrow> (Inl (Sentinel ErrNotFound), None))"
  by (cases sts; cases "tl sts") (auto simp: winner_of_def simp del: winner_walk.simps split: option.splits)

lemma merge_winner_of:
  assumes "length old = length refs"
  shows "winner_of (merge_sources (seed_walk R pv spec refs) old) = winner_of (seed_walk R pv spec refs)"
proof (cases "length refs > 1")
  case True
  then show ?thesis using assms by (simp add: winner_of_long merge_winner)
next
  case False
  then have "merge_sources (seed_walk R pv spec refs) old = seed_walk R pv spec refs"
    using assms seed_walk_first [of refs R pv spec] by (intro nth_equalityI) (auto simp: merge_sources_nth, metis less_one
      linorder_neqE_nat list.size(3) not_less_zero order.strict_trans One_nat_def Suc_lessI)
  then show ?thesis by simp
qed

text \<open>
  C11. The reconciler's own view of a chain agrees with a live resolve of it: after the seeding of
  \<^verbatim>\<open>start\<close>, and after a refresh has merged a fresh walk over whatever states the chain had,
  \<^verbatim>\<open>recomputeWinner\<close> yields the value \<^verbatim>\<open>resolveChain\<close> yields, at the same position, or an error of
  the same kind; and a refresh keeps what was known of the positions below the deciding one, so
  the chain's fallbacks stay armed.
\<close>

theorem refresh_refines_resolveChain:
  assumes "sp_Refs spec \<noteq> []" and "length old = length (sp_Refs spec)"
    and "seed = seedChainSources S en spec"
  shows "winner_of (merge_sources seed old) = winner_of seed
    \<and> (case resolveChain (sy_R S) (en_pv en) (sp_Refs spec) of
         Inr (v, i) \<Rightarrow> winner_of seed = (Inr (mark_sensitive spec v), Some i)
           \<and> (\<forall>k. i < k \<and> k < length old \<longrightarrow> merge_sources seed old ! k = old ! k)
       | Inl e \<Rightarrow> (\<exists>e' pos. winner_of seed = (Inl e', pos) \<and> ErrorKind (Some e') = ErrorKind (Some e)))"
proof -
  let ?refs = "sp_Refs spec"
  have seed: "seed = seed_walk (sy_R S) (en_pv en) spec ?refs" by (simp add: assms(3) seedChainSources_def)
  note ww = seed_walk_winner [of 0 "sy_R S" "en_pv en" spec ?refs, folded seed]
  show ?thesis
  proof (cases "resolve_walk (sy_R S) (en_pv en) 0 ?refs")
    case None
    then have nf: "winner_walk 0 seed = None" using ww by simp
    have "\<exists>e' pos. winner_of seed = (Inl e', pos) \<and> ErrorKind (Some e') = KindNotFound"
    proof (cases "\<exists>st err. seed = [st] \<and> ss_err st = Some err")
      case True
      then show ?thesis using nf seed_walk_first [OF assms(1), of "sy_R S" "en_pv en" spec, folded seed]
        by (auto simp: winner_of_def split: if_splits)
    qed (use nf in \<open>auto simp: winner_of_def split: list.splits option.splits\<close>)
    then obtain e' pos where "winner_of seed = (Inl e', pos)" "ErrorKind (Some e') = KindNotFound" by blast
    moreover have "ErrorKind (Some (not_found_err ?refs)) = KindNotFound" by (simp add: not_found_err_def)
    ultimately have "\<exists>e' pos. winner_of seed = (Inl e', pos) \<and> ErrorKind (Some e') = ErrorKind (Some (not_found_err ?refs))"
      by (metis (no_types))
    then show ?thesis using None merge_winner_of [OF assms(2)] seed by (simp add: resolveChain_def)
  next
    case (Some x)
    obtain j r where x: "x = (j, r)" by (cases x)
    have w: "winner_of seed = (map_sum unwrapped (mark_sensitive spec) r, Some j)" using ww Some x by (simp add: winner_of_def)
    have "merge_sources seed old ! k = old ! k" if "j < k" "k < length old" for k
      using seed_walk_seen [of k ?refs "sy_R S" "en_pv en" spec 0] Some x that assms(2) by (simp add: seed merge_sources_nth)
    moreover have "ErrorKind (Some (unwrapped e)) = ErrorKind (Some e)" if "r = Inl e" for e
      using resolve_walk_Inl [of "sy_R S" "en_pv en" 0 ?refs j e] Some x that by auto
    ultimately show ?thesis using w Some x merge_winner_of [OF assms(2)] seed
      by (cases r) (auto simp: resolveChain_def)
  qed
qed

theorem refresh_refines_resolveChain_witness:
  "winner_of (merge_sources (seedChainSources app_sys (app_env 9) (e_specs app_engine ! 1)) [unseen, unseen])
     = (Inr (zero_Value\<lparr>v_Bytes := ''v'', v_Version := ''1''\<rparr>), Some 0)"
proof -
  let ?spec = "e_specs app_engine ! 1" and ?seed = "seedChainSources app_sys (app_env 9) (e_specs app_engine ! 1)"
  have s: "sp_Refs ?spec \<noteq> []" "length [unseen, unseen] = length (sp_Refs ?spec)"
    "resolveChain (sy_R app_sys) (en_pv (app_env 9)) (sp_Refs ?spec) = Inr (zero_Value\<lparr>v_Bytes := ''v'', v_Version := ''1''\<rparr>, 0)"
    "\<not> sp_Sensitive ?spec"
    by code_simp+
  show ?thesis using refresh_refines_resolveChain [OF s(1,2) refl, of app_sys "app_env 9"] s(3,4)
    by (simp add: mark_sensitive_def)
qed

subsection \<open>Values without a version\<close>

text \<open>
  A provider that gives its values no version can have its changes detected but never applied:
  \<^verbatim>\<open>markChanged\<close> sees that the bytes differ, stores them and schedules a flush, but the flush compares
  versions only, finds none changed, reports success and leaves the old configuration in place.
\<close>

lemma versionless_change_unapplied:
  assumes "distinct (map sp_Path (e_specs e))" and "spec \<in> set (e_specs e)" and "sy_derives S = []" and "e_blocked e = {}"
    and "\<forall>s\<in>set (e_specs e). \<not> unapplied e s" and "e_observed e (sp_Path spec) = Some cur"
    and "v_Version cur = []" and "v_Version val = []" and "v_Bytes val \<noteq> v_Bytes cur"
    and "snd (buildCandidate S (markChanged S en spec val e)) = Inr (cand, fcs)" and "P \<noteq> {}"
  shows "sp_Path spec \<in> e_pending (markChanged S en spec val e)
    \<and> e_observed (markChanged S en spec val e) (sp_Path spec) = Some val
    \<and> (\<exists>e'. flush S now P (markChanged S en spec val e) = (e', None) \<and> Get e' = Get e \<and> History e' = History e
         \<and> (\<forall>s\<in>set (e_specs e'). \<not> unapplied e' s))"
proof -
  let ?e = "markChanged S en spec val e"
  have m: "?e = arm en (addPending S en spec (e\<lparr>e_observed := (e_observed e)(sp_Path spec \<mapsto> val)\<rparr>))"
    using assms(6-9) by (simp add: markChanged_def changed_def)
  have ob: "e_observed ?e = (e_observed e)(sp_Path spec \<mapsto> val)" by (simp add: m arm_def addPending_def Let_def)
  have v: "e_specs ?e = e_specs e" "e_applied ?e = e_applied e" "apply_view ?e = apply_view e" by simp_all
  have n: "\<forall>s\<in>set (e_specs e). \<not> unapplied ?e s"
    using assms(5-8) by (auto simp: unapplied_def ob v(2) split: option.splits if_splits)
  obtain e1 where b: "buildCandidate S ?e = (e1, Inr (cand, fcs))" using assms(10) by (metis prod.collapse)
  note bi = buildCandidate_Inr [OF b]
  have "fcs = []" using bi n assms(1,3)
    by (simp add: diff_observed_changes v(1) unapplied_newer derivedFieldChanges_def)
  then have f: "flush S now P ?e = (e1, None)" using b assms(11) by (simp add: flush_def)
  have "apply_view e1 = apply_view e" using buildCandidate_views(1) [of S ?e] b v(3) by simp
  moreover have "\<forall>s\<in>set (e_specs e1). \<not> unapplied e1 s"
    using bi n v(1) by (auto simp: unapplied_def diff_observed_applied split: option.splits)
  moreover have "sp_Path spec \<in> e_pending ?e" by (simp add: m) (simp add: arm_def Let_def)
  ultimately show ?thesis using f ob by (auto simp: Get_def History_def apply_view_def)
qed

definition app_plain :: "(env \<times> input) list" where
  "app_plain = [(app_env 8, app_update 0 0 ''w'' []), (app_env 600000000, InTimer)]"

definition plain_value :: "string \<Rightarrow> Value" where
  "plain_value b = zero_Value\<lparr>v_Bytes := b\<rparr>"

lemma versionless_change_unapplied_witness:
  "\<exists>e'. flush app_sys (app_env 1200000000) {''A''}
       (markChanged app_sys (app_env 600000001) (e_specs app_engine ! 0) (plain_value ''x'') (app_at app_plain)) = (e', None)
     \<and> Get e' = VStruct [VString ''w'', VString ''v'']"
proof -
  let ?e = "app_at app_plain" and ?spec = "e_specs app_engine ! 0"
  have a: "distinct (map sp_Path (e_specs ?e))" "?spec \<in> set (e_specs ?e)" "sy_derives app_sys = []" "e_blocked ?e = {}"
    "\<forall>s\<in>set (e_specs ?e). \<not> unapplied ?e s" "e_observed ?e (sp_Path ?spec) = Some (plain_value ''w'')"
    "v_Version (plain_value ''w'') = []" "v_Version (plain_value ''x'') = []"
    "v_Bytes (plain_value ''x'') \<noteq> v_Bytes (plain_value ''w'')"
    "snd (buildCandidate app_sys (markChanged app_sys (app_env 600000001) ?spec (plain_value ''x'') ?e))
       = Inr (VStruct [VString ''x'', VString ''v''], [])"
    "Get ?e = VStruct [VString ''w'', VString ''v'']"
    by code_simp+
  show ?thesis using versionless_change_unapplied [OF a(1-10), of "{''A''}" "app_env 1200000000"] a(11) by auto
qed

subsection \<open>Values restored at boot\<close>

lemma refresh_unconfirmed:
  "recomputeWinner (e\<lparr>e_sources := (e_sources e)[i := merge_sources (seedChainSources S en (e_specs e ! i)) (e_sources e ! i)]\<rparr>) i
     = (Inr val, pos) \<Longrightarrow> e_bootstrapUnconfirmed (refresh_field S en i e) = e_bootstrapUnconfirmed e"
  by (auto simp: refresh_field_def Let_def observe_def clearBlock_def note_ok_def split: option.splits)

lemma unconfirmed_pending [simp]:
  "e_bootstrapUnconfirmed (arm en e) = e_bootstrapUnconfirmed e"
  "e_bootstrapUnconfirmed (addPending S en spec e) = e_bootstrapUnconfirmed e"
  "e_bootstrapUnconfirmed (note_ok en p e) = e_bootstrapUnconfirmed e"
  by (simp_all add: arm_def addPending_def note_ok_def Let_def)

lemma unconfirmed_fold [simp]: "e_bootstrapUnconfirmed (fold (addPending S en) specs e) = e_bootstrapUnconfirmed e"
  by (induction specs arbitrary: e) simp_all

lemma unconfirmed_watch [simp]:
  "e_bootstrapUnconfirmed (unblock S en p e) = e_bootstrapUnconfirmed e"
  "e_bootstrapUnconfirmed (markChanged S en spec val e) = e_bootstrapUnconfirmed e"
  by (simp_all add: unblock_def markChanged_def Let_def)

lemma unconfirmed_persist [simp]: "e_bootstrapUnconfirmed (persist_engine S en e) = e_bootstrapUnconfirmed e"
  by (auto simp: persist_engine_def emitErr_def record_event_def Let_def split: option.splits prod.splits)

lemma unconfirmed_reconciled:
  "e_bootstrapUnconfirmed (markBootstrapReconciled S en p e) = Some u \<Longrightarrow> p \<notin> u"
  by (auto simp: markBootstrapReconciled_def split: option.splits if_splits)

text \<open>
  A field restored from the bootstrap snapshot is confirmed by a value that arrives through its
  watch, but not by the same value fetched by a refresh: after a refresh that resolved the field it
  still counts as unconfirmed, so the watcher keeps reporting the snapshot as its source.
\<close>

lemma refresh_leaves_unconfirmed:
  assumes "e_bootstrapUnconfirmed e = Some u" and "sp_Path (e_specs e ! i) \<in> u"
    and "e1 = e\<lparr>e_sources := (e_sources e)[i := merge_sources (seedChainSources S en (e_specs e ! i)) (e_sources e ! i)]\<rparr>"
    and "recomputeWinner e1 i = (Inr val, pos)"
  shows "e_bootstrapUnconfirmed (refresh_field S en i e) = Some u
    \<and> (\<forall>u'. e_bootstrapUnconfirmed (on_outcome S en i e1) = Some u' \<longrightarrow> sp_Path (e_specs e ! i) \<notin> u')"
proof -
  have "e_bootstrapUnconfirmed (refresh_field S en i e) = Some u"
    using refresh_unconfirmed [of e i S en val pos] assms(1,3,4) by simp
  moreover have "p \<notin> u'" if "e_bootstrapUnconfirmed (on_outcome S en i e1) = Some u'" "p = sp_Path (e_specs e1 ! i)" for u' p
    using that assms(4) unconfirmed_reconciled by (simp add: on_outcome_def Let_def)
  moreover have "e_specs e1 = e_specs e" by (simp add: assms(3))
  ultimately show ?thesis by simp
qed

lemma refresh_leaves_unconfirmed_witness:
  "e_bootstrapUnconfirmed (refresh_field app_sys (app_env 9) 0 (app_engine\<lparr>e_bootstrapUnconfirmed := Some {''A''}\<rparr>)) = Some {''A''}"
proof -
  let ?e = "app_engine\<lparr>e_bootstrapUnconfirmed := Some {''A''}\<rparr>"
  let ?e1 = "?e\<lparr>e_sources := (e_sources ?e)[0 := merge_sources (seedChainSources app_sys (app_env 9) (e_specs ?e ! 0)) (e_sources ?e ! 0)]\<rparr>"
  have a: "e_bootstrapUnconfirmed ?e = Some {''A''}" by simp
  have b: "sp_Path (e_specs ?e ! 0) \<in> {''A''}" "recomputeWinner ?e1 0 = (Inr (zero_Value\<lparr>v_Bytes := ''v'', v_Version := ''1''\<rparr>), Some 0)"
    by code_simp+
  show ?thesis using refresh_leaves_unconfirmed [OF a b(1) refl b(2)] by simp
qed

end
