(* ===== verification/Timing.thy ===== *)
theory Timing
  imports Observed
begin

text \<open>
  Progress of the debounced reconciler: a pending batch is flushed in time, a flush that succeeds
  leaves nothing behind, and a field that comes unblocked takes with it whatever the block held up.
\<close>

lemma on_timer_pending: "e_pending (on_timer S en e) = {}"
  by (simp add: on_timer_def Let_def publish_def disarm_def)

lemma on_timer_unapplied: "unapplied (on_timer S en e) = unapplied (fst (flush S en (e_pending e) e))"
  by (simp add: on_timer_def unapplied_newer Let_def publish_def disarm_def)

text \<open>
  A pending change does not wait for ever: once the batch's window has passed since its first
  change (or at once, if it already has), the timer case of the loop is enabled, the window being no
  longer than the debounce of any field in the batch; taking it empties the batch, and when the
  flush is not refused every field is then applied at its observed version.
\<close>

lemma debounce_fires:
  assumes "started C R T o' en en' d S e0" and "reach S e0 t e" and "p \<in> e_pending e" and "\<not> e_done e"
    and "t \<le> en_now now" and "e_pendingSince e + e_window e \<le> en_now now"
  shows "enabled now InTimer e \<and> e_pending (step S now InTimer e) = {}
    \<and> (\<exists>spec\<in>set (e_specs e). sp_Path spec = p \<and> e_window e \<le> debounceFor S spec)
    \<and> (snd (flush S now (e_pending e) e) = None \<longrightarrow> (\<forall>s\<in>set (e_specs e). \<not> unapplied (step S now InTimer e) s))"
proof -
  have w: "Watch C R T o' en en' d = Inr (S, e0)" using assms(1) by (simp add: started_def)
  have ti: "timer_inv t e" by (rule reach_timer [OF assms(2)]) (rule Watch_inv(3) [OF w])
  then obtain f where f: "e_timer e = Some f" "f \<le> max t (e_pendingSince e + e_window e)"
    using assms(3,4) by (cases "e_timer e") (auto simp: timer_inv_def)
  have "enabled now InTimer e" using f assms(4-6) by (simp add: enabled_def)
  moreover have "\<exists>spec\<in>set (e_specs e). sp_Path spec = p \<and> e_window e \<le> debounceFor S spec"
    using reach_window [OF assms(2) Watch_inv(4) [OF w]] assms(3) by (simp add: window_inv_def)
  moreover have "\<not> unapplied (step S now InTimer e) s" if fl: "snd (flush S now (e_pending e) e) = None" and s: "s \<in> set (e_specs e)" for s
  proof -
    let ?e' = "fst (flush S now (e_pending e) e)"
    have f: "flush S now (e_pending e) e = (?e', None)" using fl by (metis prod.collapse)
    have bl: "e_blocked e \<noteq> {} \<Longrightarrow> blockedErr e \<noteq> None"
      using reach_block [OF assms(2) Watch_inv(2) [OF w]] blockedErr_Some by blast
    have "\<not> unapplied ?e' s" using flush_all_applied [OF f _ bl s] assms(3) by blast
    then show ?thesis by (simp add: step_def on_timer_unapplied)
  qed
  ultimately show ?thesis by (simp add: step_def on_timer_pending)
qed

lemma debounce_fires_witness:
  "enabled (app_env 600000000) InTimer (app_at app_change)
   \<and> \<not> unapplied (step app_sys (app_env 600000000) InTimer (app_at app_change)) (e_specs app_engine ! 0)"
proof -
  have r: "reach app_sys app_engine 8 (app_at app_change)"
  proof -
    have "reach app_sys app_engine (en_now (app_env 8)) (step app_sys (app_env 8) (app_update 0 0 ''w'' ''2'') app_engine)"
      using app_scripts(1) by (intro reach_step [OF reach_start [where t = 0]]) (simp_all add: app_change_def app_env_def)
    then show ?thesis by (simp add: app_at_def app_change_def run_def app_env_def)
  qed
  have a: "''A'' \<in> e_pending (app_at app_change)" "\<not> e_done (app_at app_change)" "8 \<le> en_now (app_env 600000000)"
    "e_pendingSince (app_at app_change) + e_window (app_at app_change) \<le> en_now (app_env 600000000)"
    "snd (flush app_sys (app_env 600000000) (e_pending (app_at app_change)) (app_at app_change)) = None"
    "e_specs app_engine ! 0 \<in> set (e_specs (app_at app_change))" by code_simp+
  show ?thesis using debounce_fires [OF app_started r a(1-4)] a(5,6) by simp
qed

subsection \<open>Unblocking\<close>

lemma held_pending:
  "e_pending (fold (addPending S en) specs e) = e_pending e \<union> set (map sp_Path specs)"
  by (induction specs arbitrary: e) auto

text \<open>
  When a blocked field recovers, everything its block had held up is scheduled again: each field
  observed at another version than the applied one joins the batch, and the timer is armed, so no
  change that arrived during the block waits for another one.
\<close>

lemma unblock_rearms:
  assumes "p \<in> e_blocked e"
  shows "e_blocked (unblock S en p e) = e_blocked e - {p}
    \<and> e_pending (unblock S en p e) = e_pending e \<union> sp_Path ` {s \<in> set (e_specs e). unapplied e s}
    \<and> ((\<exists>s\<in>set (e_specs e). unapplied e s) \<longrightarrow> e_timer (unblock S en p e) \<noteq> None)"
proof -
  define e1 where "e1 = e\<lparr>e_blocked := e_blocked e - {p}\<rparr>"
  define held where "held = filter (unapplied e1) (e_specs e1)"
  have u: "unapplied e1 = unapplied e" "e_specs e1 = e_specs e" by (simp_all add: unapplied_newer e1_def)
  have ub: "unblock S en p e = (if held \<noteq> [] then arm en (fold (addPending S en) held e1) else e1)"
    using assms by (simp add: unblock_def Let_def e1_def held_def)
  have "e_blocked (fold (addPending S en) held e1) = e_blocked e1"
    using block_view_fold [of S en held e1] by (simp add: block_view_def)
  then have "e_blocked (unblock S en p e) = e_blocked e - {p}" by (simp add: ub arm_def Let_def e1_def)
  moreover have "e_pending (unblock S en p e) = e_pending e1 \<union> set (map sp_Path held)"
    by (simp add: ub arm_def Let_def held_pending)
  moreover have "set (map sp_Path held) = sp_Path ` {s \<in> set (e_specs e). unapplied e s}" "e_pending e1 = e_pending e"
    by (simp_all add: held_def u) (simp add: e1_def)
  moreover have "e_timer (unblock S en p e) \<noteq> None" if "\<exists>s\<in>set (e_specs e). unapplied e s"
  proof -
    have "held \<noteq> []" using that by (auto simp: held_def u filter_empty_conv)
    then show ?thesis by (simp add: ub arm_def Let_def)
  qed
  ultimately show ?thesis by simp
qed

end
