(* ===== verification/Reports.thy ===== *)
theory Reports
  imports Timing
begin

text \<open>
  \<^verbatim>\<open>report.go\<close>: what \<^verbatim>\<open>Status\<close> and \<^verbatim>\<open>Health\<close> make of the report the reconciler published last, and
  what they say of the reconciler's own state.
\<close>

subsection \<open>Reading a report\<close>

definition restamp :: "duration \<Rightarrow> instant \<Rightarrow> FieldStatus \<Rightarrow> FieldStatus" where
  "restamp stale now f = (if time_is_zero (fs_LastOK f) then f
     else f\<lparr>fs_Age := time_sub now (fs_LastOK f), fs_Stale := (stale > 0 \<and> time_sub now (fs_LastOK f) > stale)\<rparr>)"

definition bootstrapExpired :: "Report \<Rightarrow> duration \<Rightarrow> bool" where
  "bootstrapExpired rep maxAge = (case rp_Bootstrap rep of None \<Rightarrow> False
     | Some bs \<Rightarrow> rp_Source rep = SourceBootstrapCache \<and> maxAge > 0 \<and> bs_Age bs > maxAge)"

definition bootstrap_max_age :: "sys \<Rightarrow> duration" where
  "bootstrap_max_age S = (case o_bootstrap (sy_o S) of None \<Rightarrow> 0 | Some bc \<Rightarrow> bc_maxAge bc)"

definition Status :: "sys \<Rightarrow> instant \<Rightarrow> engine \<Rightarrow> Report" where
  "Status S now e =
     (let rep = w_report e;
          out = rep\<lparr>rp_Fields := map (restamp (o_stale (sy_o S)) now) (rp_Fields rep), rp_GeneratedAt := now\<rparr>;
          out1 = out\<lparr>rp_Healthy := \<not> list_ex fieldUnhealthy (rp_Fields out)\<rparr>
      in case rp_Bootstrap rep of
           None \<Rightarrow> out1
         | Some bs \<Rightarrow>
            (let bs' = (if time_is_zero (bs_WrittenAt bs) then bs else bs\<lparr>bs_Age := time_sub now (bs_WrittenAt bs)\<rparr>);
                 out2 = out1\<lparr>rp_Bootstrap := Some bs'\<rparr>
             in if bootstrapExpired out2 (bootstrap_max_age S) then out2\<lparr>rp_Healthy := False\<rparr> else out2))"

text \<open>The errors \<^verbatim>\<open>Health\<close> joins; none is nil.\<close>

datatype healthProblem = HealthError "FieldStatus list" | BootstrapStale duration duration

definition Health :: "sys \<Rightarrow> instant \<Rightarrow> engine \<Rightarrow> healthProblem list" where
  "Health S now e =
     (let rep = Status S now e;
          bad = filter fieldUnhealthy (rp_Fields rep)
      in (if bad \<noteq> [] then [HealthError bad] else [])
         @ (if bootstrapExpired rep (bootstrap_max_age S)
            then [BootstrapStale (case rp_Bootstrap rep of Some bs \<Rightarrow> bs_Age bs | None \<Rightarrow> 0) (bootstrap_max_age S)] else []))"

subsection \<open>The published report is never behind\<close>

text \<open>Every step that touches what a report tells publishes a new one.\<close>

definition report_fresh :: "sys \<Rightarrow> engine \<Rightarrow> bool" where
  "report_fresh S e \<longleftrightarrow> (\<exists>en. w_report e = buildReport S en e)"

definition report_view where
  "report_view e = ((e_specs e, e_sources e, e_observed e, e_lastOK e, e_lastErr e, e_lastGood e),
     (e_version e, e_pinned e, e_pinnedVersion e),
     (e_bootstrapPresent e, e_bootstrapRestored e, e_bootstrapServing e, e_bootstrapWrittenAt e))"

lemma report_viewD:
  assumes "report_view e = report_view e'"
  shows "e_specs e = e_specs e'" "e_sources e = e_sources e'" "e_observed e = e_observed e'" "e_lastOK e = e_lastOK e'"
    "e_lastErr e = e_lastErr e'" "e_lastGood e = e_lastGood e'" "e_version e = e_version e'" "e_pinned e = e_pinned e'"
    "e_pinnedVersion e = e_pinnedVersion e'" "e_bootstrapPresent e = e_bootstrapPresent e'"
    "e_bootstrapRestored e = e_bootstrapRestored e'" "e_bootstrapServing e = e_bootstrapServing e'"
    "e_bootstrapWrittenAt e = e_bootstrapWrittenAt e'"
  using assms by (simp_all add: report_view_def)

lemma buildReport_view:
  assumes "report_view e = report_view e'"
  shows "buildReport S en e = buildReport S en e'"
proof -
  note v = report_viewD [OF assms]
  have w: "winner_ref e = winner_ref e'" by (rule ext) (simp only: winner_ref_def recomputeWinner_def v)
  have f: "field_status S t e = field_status S t e'" for t by (rule ext) (simp only: field_status_def w v)
  have d: "derived_status S e = derived_status S e'" by (rule ext) (simp only: derived_status_def v)
  have b: "bootstrapSource S e = bootstrapSource S e'" "bootstrapStatus S t e = bootstrapStatus S t e'" for t
    by (simp_all only: bootstrapSource_def bootstrapStatus_def v)
  show ?thesis by (simp only: buildReport_def f d b v)
qed

lemma report_fresh_publish [simp]: "report_fresh S (publish S en e)"
proof -
  have "report_view (publish S en e) = report_view e" by (simp add: publish_def report_view_def)
  from buildReport_view [OF this] show ?thesis unfolding report_fresh_def by (auto simp: publish_def)
qed

lemma report_fresh_frame:
  "report_fresh S e \<Longrightarrow> report_view e' = report_view e \<Longrightarrow> w_report e' = w_report e \<Longrightarrow> report_fresh S e'"
  using buildReport_view [of e' e] by (auto simp: report_fresh_def)

lemma step_report_fresh:
  assumes "report_fresh S e"
  shows "report_fresh S (step S en i e)"
proof (cases i)
  case (InUpdate idx pos up)
  then show ?thesis by (simp add: step_def on_update_def)
next
  case (InControl cmd)
  then show ?thesis by (simp add: step_def handlePin_def case_prod_beta Let_def)
next
  case InTimer
  define e1 where "e1 = publish S en (disarm ((fst (flush S en (e_pending e) e))\<lparr>e_pending := {}\<rparr>))"
  have "report_fresh S e1" by (simp add: e1_def)
  then have "report_fresh S (e1\<lparr>e_done := True\<rparr>)" by (rule report_fresh_frame) (simp_all add: report_view_def)
  then show ?thesis using InTimer \<open>report_fresh S e1\<close> by (simp add: step_def on_timer_def Let_def e1_def)
qed (use assms in \<open>auto simp: step_def on_closed_def on_cancel_def on_dispatch_def disarm_def Let_def
      elim!: report_fresh_frame simp: report_view_def\<close>)

lemma reach_report_fresh:
  assumes "Watch C R T o' en en' d = Inr (S, e0)" and "reach S e0 t e"
  shows "report_fresh S e"
  using assms(2) by (induction rule: reach.induct) (use assms(1) in \<open>auto simp: start_def elim!: Watch_Inr intro: step_report_fresh\<close>)

subsection \<open>Health\<close>

text \<open>A field that needs attention: a terminal error, or no confirmation for too long.\<close>

definition failing :: "sys \<Rightarrow> instant \<Rightarrow> engine \<Rightarrow> fieldSpec \<Rightarrow> bool" where
  "failing S now e spec \<longleftrightarrow>
     (\<exists>err. e_lastErr e (sp_Path spec) = Some err
        \<and> ErrorKind (Some err) \<in> {KindNotFound, KindPermissionDenied, KindUnauthenticated, KindInvalid})
   \<or> (\<exists>l. e_lastOK e (sp_Path spec) = Some l \<and> 0 < o_stale (sy_o S) \<and> o_stale (sy_o S) < time_sub now l)"

lemma restamp_field:
  assumes "e_lastOK e (sp_Path (e_specs e ! i)) \<noteq> Some 0"
  shows "fieldUnhealthy (restamp (o_stale (sy_o S)) now (field_status S t e i)) \<longleftrightarrow> failing S now e (e_specs e ! i)"
  using assms
  by (cases "e_lastErr e (sp_Path (e_specs e ! i))"; cases "e_lastOK e (sp_Path (e_specs e ! i))")
    (auto simp: fieldUnhealthy_def restamp_def field_status_def failing_def Let_def time_is_zero_def)

lemma derived_walk_all:
  "(\<And>p c. c \<in> set (f p) \<Longrightarrow> P c) \<Longrightarrow> c \<in> set (derived_walk f specs seen ps) \<Longrightarrow> P c"
  by (induction ps arbitrary: seen) (auto split: if_splits)

lemma restamp_derived:
  "c \<in> set (derived_walk (derived_status S e) specs seen ps) \<Longrightarrow> \<not> fieldUnhealthy (restamp stale now c)"
  by (erule derived_walk_all [rotated])
    (auto simp: derived_status_def fieldUnhealthy_def restamp_def time_is_zero_def split: option.splits bool.splits)

definition snapshot_expired :: "sys \<Rightarrow> instant \<Rightarrow> engine \<Rightarrow> bool" where
  "snapshot_expired S now e \<longleftrightarrow> e_bootstrapServing e \<and> e_bootstrapWrittenAt e \<noteq> 0
     \<and> (\<exists>bc. o_bootstrap (sy_o S) = Some bc \<and> 0 < bc_maxAge bc \<and> bc_maxAge bc < time_sub now (e_bootstrapWrittenAt e))"

lemma Status_fields: "rp_Fields (Status S now e) = map (restamp (o_stale (sy_o S)) now) (rp_Fields (w_report e))"
  by (simp add: Status_def Let_def split: option.splits)

lemma Status_bootstrap:
  assumes "w_report e = buildReport S en e"
  shows "bootstrapExpired (Status S now e) (bootstrap_max_age S) \<longleftrightarrow> snapshot_expired S now e"
  using assms
  by (cases "o_bootstrap (sy_o S)")
    (auto simp: Status_def Let_def bootstrapExpired_def snapshot_expired_def buildReport_def bootstrapStatus_def
      bootstrapSource_def bootstrap_max_age_def time_is_zero_def)

lemma Status_failing:
  assumes "w_report e = buildReport S en e" and "\<forall>s\<in>set (e_specs e). e_lastOK e (sp_Path s) \<noteq> Some 0"
  shows "map fs_Path (filter fieldUnhealthy (rp_Fields (Status S now e))) = map sp_Path (filter (failing S now e) (e_specs e))"
proof -
  let ?r = "restamp (o_stale (sy_o S)) now" and ?n = "length (e_specs e)"
  let ?own = "map (field_status S (en_now en) e) [0..<?n]"
  let ?der = "derived_walk (derived_status S e) (e_specs e) [] (concat (map td_writes (sy_derives S)))"
  have "filter fieldUnhealthy (map ?r ?der) = []" using restamp_derived by (auto simp: filter_empty_conv)
  moreover have "rp_Fields (Status S now e) = map ?r ?own @ map ?r ?der"
    by (simp add: Status_fields assms(1) buildReport_def Let_def)
  moreover have "map fs_Path (filter fieldUnhealthy (map ?r ?own)) = map (\<lambda>i. sp_Path (e_specs e ! i)) (filter (\<lambda>i. failing S now e (e_specs e ! i)) [0..<?n])"
  proof -
    have "fieldUnhealthy (?r (field_status S (en_now en) e i)) = failing S now e (e_specs e ! i)" if "i < ?n" for i
      using that assms(2) by (intro restamp_field) (metis nth_mem)
    moreover have "fs_Path (?r (field_status S (en_now en) e i)) = sp_Path (e_specs e ! i)" for i
      by (simp add: restamp_def field_status_def Let_def)
    ultimately show ?thesis by (simp add: filter_map comp_def) (intro arg_cong [where f = "map _"] filter_cong, auto)
  qed
  moreover have "map (\<lambda>i. sp_Path (e_specs e ! i)) (filter (\<lambda>i. failing S now e (e_specs e ! i)) [0..<?n])
      = map sp_Path (filter (failing S now e) (map ((!) (e_specs e)) [0..<?n]))"
    by (simp add: filter_map comp_def)
  ultimately show ?thesis by (simp add: map_nth)
qed

text \<open>
  \<^verbatim>\<open>Health\<close> is nil exactly when no field has a terminal error or has gone unconfirmed for longer
  than the stale bound, at the moment of the call and not of the last report, and the process is not
  living on a bootstrap snapshot older than its maximal age; otherwise it names exactly those
  fields. Derived fields never count, and \<^verbatim>\<open>Status\<close> says healthy exactly when \<^verbatim>\<open>Health\<close> is nil.
\<close>

lemma Health_iff:
  assumes "Watch C R T o' en en' d = Inr (S, e0)" and "reach S e0 t e"
    and "\<forall>s\<in>set (e_specs e). e_lastOK e (sp_Path s) \<noteq> Some 0"
  shows "(Health S now e = [] \<longleftrightarrow> (\<forall>s\<in>set (e_specs e). \<not> failing S now e s) \<and> \<not> snapshot_expired S now e)
    \<and> (\<forall>bad. HealthError bad \<in> set (Health S now e) \<longrightarrow> map fs_Path bad = map sp_Path (filter (failing S now e) (e_specs e)))
    \<and> (rp_Healthy (Status S now e) \<longleftrightarrow> Health S now e = [])"
proof -
  obtain en1 where r: "w_report e = buildReport S en1 e"
    using reach_report_fresh [OF assms(1,2)] by (auto simp: report_fresh_def)
  note f = Status_failing [OF r assms(3), of now]
  note b = Status_bootstrap [OF r, of now]
  have nil: "filter fieldUnhealthy (rp_Fields (Status S now e)) = [] \<longleftrightarrow> (\<forall>s\<in>set (e_specs e). \<not> failing S now e s)"
    using f by (metis (no_types, lifting) filter_empty_conv map_is_Nil_conv)
  have "rp_Healthy (Status S now e) \<longleftrightarrow> \<not> list_ex fieldUnhealthy (rp_Fields (Status S now e)) \<and> \<not> snapshot_expired S now e"
    using b by (auto simp: Status_def Let_def bootstrapExpired_def split: option.splits)
  moreover have "list_ex fieldUnhealthy xs \<longleftrightarrow> filter fieldUnhealthy xs \<noteq> []" for xs
    by (auto simp: list_ex_iff filter_empty_conv)
  ultimately show ?thesis using f b nil by (auto simp: Health_def Let_def)
qed

lemma Health_iff_witness:
  "Health app_sys 9 (app_at app_block) = [] \<and> e_lastErr (app_at app_block) ''A'' \<noteq> None"
proof -
  obtain t where r: "reach app_sys app_engine t (app_at app_block)" using app_reach [OF app_scripts(3)] by blast
  have l: "\<forall>s\<in>set (e_specs (app_at app_block)). e_lastOK (app_at app_block) (sp_Path s) \<noteq> Some 0" by code_simp
  have n: "e_lastErr (app_at app_block) ''A'' \<noteq> None" by code_simp
  have p: "map sp_Path (e_specs (app_at app_block)) = [''A'', ''B'']" by code_simp
  have o: "o_stale (sy_o app_sys) = 0" "o_bootstrap (sy_o app_sys) = None" by code_simp+
  have k: "ErrorKind (e_lastErr (app_at app_block) ''A'') = KindUnavailable" "e_lastErr (app_at app_block) ''B'' = None" by code_simp+
  have "\<not> failing app_sys 9 (app_at app_block) s" if "s \<in> set (e_specs (app_at app_block))" for s
  proof -
    have "sp_Path s \<in> set [''A'', ''B'']" using that p by (metis imageI list.set_map)
    then show ?thesis using k by (auto simp: failing_def o simp del: ErrorKind_not_found_iff)
  qed
  then show ?thesis using Health_iff [OF app_Watch r l, of 9] n by (simp add: snapshot_expired_def o)
qed

end
