(* ===== verification/Secrets.thy ===== *)
theory Secrets
  imports Prelude
begin

text \<open>
  \<^verbatim>\<open>secret/secret.go\<close>. A secret is a struct holding a slice, so copies of it share one backing array.
  The model keeps the arrays in an explicit store: a secret is the address of its array (\<open>None\<close> for
  the nil slice), an array is owned whole by the slices that point at it, and \<^verbatim>\<open>Zero\<close> writes through
  the address. \<^verbatim>\<open>secret.Bytes\<close> has the same operations on the same representation.
\<close>

record store =
  st_next :: nat
  st_mem :: "nat \<Rightarrow> bytes"

type_synonym secret = "nat option"

definition Redacted_text :: string where "Redacted_text = ''[REDACTED]''"

definition alloc :: "bytes \<Rightarrow> store \<Rightarrow> nat \<times> store" where
  "alloc b m = (st_next m, m\<lparr>st_next := st_next m + 1, st_mem := (st_mem m)(st_next m := b)\<rparr>)"

definition NewString :: "string \<Rightarrow> store \<Rightarrow> secret \<times> store" where
  "NewString s m = (case alloc s m of (a, m') \<Rightarrow> (Some a, m'))"

definition NewStringBytes :: "nat \<Rightarrow> secret" where
  "NewStringBytes a = Some a"

definition RevealBytes :: "store \<Rightarrow> secret \<Rightarrow> bytes" where
  "RevealBytes m s = (case s of None \<Rightarrow> [] | Some a \<Rightarrow> st_mem m a)"

definition Reveal :: "store \<Rightarrow> secret \<Rightarrow> string" where
  "Reveal m s = RevealBytes m s"

definition String_secret :: "secret \<Rightarrow> string" where "String_secret s = Redacted_text"

definition GoString :: "secret \<Rightarrow> string" where "GoString s = Redacted_text"

definition MarshalJSON :: "secret \<Rightarrow> bytes" where "MarshalJSON s = [CHR 0x22] @ Redacted_text @ [CHR 0x22]"

definition LogValue :: "secret \<Rightarrow> string" where "LogValue s = Redacted_text"

definition IsZero :: "store \<Rightarrow> secret \<Rightarrow> bool" where
  "IsZero m s \<longleftrightarrow> RevealBytes m s = []"

definition Clone :: "secret \<Rightarrow> store \<Rightarrow> secret \<times> store" where
  "Clone s m = (if IsZero m s then (None, m) else (case alloc (RevealBytes m s) m of (a, m') \<Rightarrow> (Some a, m')))"

text \<open>The bytes are overwritten in place, then the receiver's own slice becomes nil.\<close>

definition Zero :: "secret \<Rightarrow> store \<Rightarrow> secret \<times> store" where
  "Zero s m = (case s of None \<Rightarrow> (None, m)
     | Some a \<Rightarrow> (None, m\<lparr>st_mem := (st_mem m)(a := replicate (length (st_mem m a)) (CHR 0x00))\<rparr>))"

subsection \<open>Sharing\<close>

definition allocated :: "store \<Rightarrow> secret \<Rightarrow> bool" where
  "allocated m s = (case s of None \<Rightarrow> True | Some a \<Rightarrow> a < st_next m)"

lemma Clone_fresh:
  assumes "Clone s m = (c, m')"
  shows "RevealBytes m' c = RevealBytes m s" "allocated m t \<Longrightarrow> RevealBytes m' t = RevealBytes m t"
    "allocated m t \<Longrightarrow> allocated m' t \<and> (c = None \<or> c \<noteq> t)"
  using assms by (auto simp: Clone_def alloc_def RevealBytes_def IsZero_def allocated_def split: if_splits option.splits)

lemma Zero_only: "Zero c m = (c', m') \<Longrightarrow> c = None \<or> c \<noteq> t \<Longrightarrow> RevealBytes m' t = RevealBytes m t"
  by (auto simp: Zero_def RevealBytes_def split: option.splits if_splits)

text \<open>
  Wiping a secret is safe on a clone and on nothing less: zeroing a clone empties the clone and
  leaves every secret that existed before readable as it was, while zeroing a secret wipes every
  copy that shares its bytes, the live configuration's included.
\<close>

lemma Clone_before_Zero:
  assumes "allocated m s" and "Clone s m = (c, m1)" and "Zero c m1 = (c', m2)" and "Zero s m = (s', m3)"
  shows "Reveal m1 c = Reveal m s \<and> IsZero m2 c' \<and> (\<forall>t. allocated m t \<longrightarrow> Reveal m2 t = Reveal m t)
    \<and> Reveal m3 s = replicate (length (Reveal m s)) (CHR 0x00)"
proof -
  have "RevealBytes m2 t = RevealBytes m t" if "allocated m t" for t
    using Clone_fresh(2,3) [OF assms(2) that] Zero_only [OF assms(3)] by metis
  moreover have "IsZero m2 c'" using assms(3) by (auto simp: Zero_def IsZero_def RevealBytes_def split: option.splits)
  moreover have "RevealBytes m3 s = replicate (length (RevealBytes m s)) (CHR 0x00)"
    using assms(4) by (auto simp: Zero_def RevealBytes_def split: option.splits)
  ultimately show ?thesis using Clone_fresh(1) [OF assms(2)] by (simp add: Reveal_def)
qed

definition demo_store :: store where
  "demo_store = snd (NewString ''pw'' \<lparr>st_next = 0, st_mem = (\<lambda>_. [])\<rparr>)"

lemma Clone_before_Zero_witness:
  "\<exists>c m1 c' m2. Clone (Some 0) demo_store = (c, m1) \<and> Zero c m1 = (c', m2) \<and> Reveal m2 (Some 0) = ''pw''"
proof -
  obtain c m1 c' m2 s' m3 where z: "Clone (Some 0) demo_store = (c, m1)" "Zero c m1 = (c', m2)" "Zero (Some 0) demo_store = (s', m3)"
    by (metis surj_pair)
  have a: "allocated demo_store (Some 0)" "Reveal demo_store (Some 0) = ''pw''" by code_simp+
  show ?thesis using Clone_before_Zero [OF a(1) z] a z by auto
qed

end
