(* ===== verification/Auth.thy ===== *)
theory Auth
  imports Specs
begin

text \<open>
  \<^verbatim>\<open>auth.go\<close>, \<^verbatim>\<open>authschemes.go\<close> and \<^verbatim>\<open>authpeercred.go\<close>: who a request comes from.

  A request is what an Authenticator reads of it: its headers (\<^verbatim>\<open>Header.Get\<close>, the empty string for a
  missing one), the verified client certificates of its TLS connection, and the peer credentials the
  listener put into its context. A scheme whose credential is read on every request takes the current
  credential, revealed, as an argument; the zero secret is the empty string.
\<close>

subsection \<open>Requests and identities\<close>

record cert =
  ct_CommonName :: string
  ct_DNSNames :: "string list"

record Ucred =
  uc_UID :: int
  uc_GID :: int
  uc_PID :: int

record request =
  rq_Header :: "string \<Rightarrow> string"
  rq_TLS :: "cert list option"
  rq_PeerCred :: "Ucred option"

record Identity =
  id_Subject :: string
  id_Attrs :: "(string \<times> string list) list"

definition zero_Identity :: Identity where
  "zero_Identity = \<lparr>id_Subject = [], id_Attrs = []\<rparr>"

definition subject :: "string \<Rightarrow> Identity" where
  "subject s = \<lparr>id_Subject = s, id_Attrs = []\<rparr>"

record Authenticator =
  au_Authenticate :: "request \<Rightarrow> err + Identity"
  au_Challenge :: "string option"

subsection \<open>Shared secrets\<close>

text \<open>
  \<^verbatim>\<open>subtle.ConstantTimeCompare\<close> is 1 for equal contents and 0 otherwise; timing is not part of the model.
\<close>

definition ConstantTimeCompare :: "bytes \<Rightarrow> bytes \<Rightarrow> nat" where
  "ConstantTimeCompare x y = (if x = y then 1 else 0)"

text \<open>\<^verbatim>\<open>Request.BasicAuth\<close> of the standard library.\<close>

definition BasicAuth_of :: "request \<Rightarrow> (string \<times> string) option" where
  "BasicAuth_of r = (let auth = rq_Header r ''Authorization''
     in if to_lower (take 6 auth) \<noteq> ''basic '' then None
        else Option.bind (b64_decode b64_std_val (drop 6 auth)) (cut CHR '':''))"

definition basicAuth :: "string \<times> string \<Rightarrow> request \<Rightarrow> err + Identity" where
  "basicAuth want r = (case want of (wantUser, wantPass) \<Rightarrow>
     if wantPass = [] then Inl (Opaque ''mamori: basic auth not configured'')
     else (case BasicAuth_of r of
        None \<Rightarrow> Inl (Opaque ''mamori: missing basic credentials'')
      | Some (gotUser, gotPass) \<Rightarrow>
         (let userOK = ConstantTimeCompare gotUser wantUser = 1;
              passOK = ConstantTimeCompare gotPass wantPass = 1
          in if \<not> userOK \<or> \<not> passOK then Inl (Opaque ''mamori: invalid basic credentials'')
             else Inr (subject wantUser))))"

definition bearerPrefix :: string where "bearerPrefix = ''Bearer ''"

definition bearerToken :: "string \<Rightarrow> request \<Rightarrow> err + Identity" where
  "bearerToken want r =
     (if want = [] then Inl (Opaque ''mamori: bearer token not configured'')
      else (let header = rq_Header r ''Authorization'' in
        if \<not> has_prefix bearerPrefix header then Inl (Opaque ''mamori: missing bearer token'')
        else (let presented = trim_prefix bearerPrefix header in
          if ConstantTimeCompare presented want \<noteq> 1 then Inl (Opaque ''mamori: invalid bearer token'')
          else Inr (subject ''bearer''))))"

definition apiKey :: "string \<Rightarrow> string \<Rightarrow> request \<Rightarrow> err + Identity" where
  "apiKey header want r =
     (if want = [] then Inl (Opaque ''mamori: api key not configured'')
      else (let got = rq_Header r header in
        if got = [] then Inl (Opaque ''mamori: missing api key'')
        else if ConstantTimeCompare got want \<noteq> 1 then Inl (Opaque ''mamori: invalid api key'')
        else Inr (subject ''apikey'')))"

definition BasicAuth :: "string \<Rightarrow> string \<Rightarrow> Authenticator" where
  "BasicAuth user pass = \<lparr>au_Authenticate = basicAuth (user, pass), au_Challenge = Some ''Basic realm=\"mamori\"''\<rparr>"

definition BearerToken :: "string \<Rightarrow> Authenticator" where
  "BearerToken token = \<lparr>au_Authenticate = bearerToken token, au_Challenge = Some ''Bearer''\<rparr>"

definition APIKey :: "string \<Rightarrow> string \<Rightarrow> Authenticator" where
  "APIKey header key = \<lparr>au_Authenticate = apiKey header key, au_Challenge = None\<rparr>"

subsection \<open>Certificates and peers\<close>

record MTLSOptions =
  mo_AllowedCNs :: "string list"
  mo_AllowedDNSNames :: "string list"

definition mtls :: "MTLSOptions \<Rightarrow> request \<Rightarrow> err + Identity" where
  "mtls opts r = (case rq_TLS r of
     None \<Rightarrow> Inl (Opaque ''mamori: no client certificate presented'')
   | Some [] \<Rightarrow> Inl (Opaque ''mamori: no client certificate presented'')
   | Some (leaf # _) \<Rightarrow>
      if mo_AllowedCNs opts = [] \<and> mo_AllowedDNSNames opts = [] then Inr (subject (ct_CommonName leaf))
      else if list_ex (\<lambda>cn. cn = ct_CommonName leaf) (mo_AllowedCNs opts) then Inr (subject (ct_CommonName leaf))
      else if list_ex (\<lambda>allowed. list_ex (\<lambda>dns. allowed = dns) (ct_DNSNames leaf)) (mo_AllowedDNSNames opts)
        then Inr (subject (ct_CommonName leaf))
      else Inl (Opaque ''mamori: client certificate not permitted''))"

definition MTLS :: "MTLSOptions \<Rightarrow> Authenticator" where
  "MTLS opts = \<lparr>au_Authenticate = mtls opts, au_Challenge = None\<rparr>"

record PeerCredOptions =
  po_UIDs :: "int list"
  po_GIDs :: "int list"

definition peerCred :: "PeerCredOptions \<Rightarrow> request \<Rightarrow> err + Identity" where
  "peerCred opts r = (case rq_PeerCred r of
     None \<Rightarrow> Inl (Opaque ''mamori: no peer credentials on request'')
   | Some cred \<Rightarrow>
      if (po_UIDs opts \<noteq> [] \<or> po_GIDs opts \<noteq> [])
          \<and> \<not> (list_ex (\<lambda>uid. uid = uc_UID cred) (po_UIDs opts) \<or> list_ex (\<lambda>gid. gid = uc_GID cred) (po_GIDs opts))
      then Inl (Opaque ''mamori: peer not permitted'')
      else Inr \<lparr>id_Subject = ''uid:'' @ dec_of_int (uc_UID cred),
             id_Attrs = [(''uid'', [dec_of_int (uc_UID cred)]), (''gid'', [dec_of_int (uc_GID cred)]), (''pid'', [dec_of_int (uc_PID cred)])]\<rparr>)"

definition PeerCred :: "PeerCredOptions \<Rightarrow> Authenticator" where
  "PeerCred opts = \<lparr>au_Authenticate = peerCred opts, au_Challenge = None\<rparr>"

subsection \<open>Composition\<close>

text \<open>The loop of \<^verbatim>\<open>anyOf.Authenticate\<close> visits every member; the pair is the first success and the first failure.\<close>

definition any_visit :: "err + Identity \<Rightarrow> Identity option \<times> err option \<Rightarrow> Identity option \<times> err option" where
  "any_visit res acc = (case (res, acc) of
     (Inr who, Some i, fe) \<Rightarrow> (Some i, fe)
   | (Inr who, None, fe) \<Rightarrow> (Some who, fe)
   | (Inl e, ok, None) \<Rightarrow> (ok, Some e)
   | (Inl e, ok, Some fe) \<Rightarrow> (ok, Some fe))"

definition anyOf :: "Authenticator list \<Rightarrow> request \<Rightarrow> err + Identity" where
  "anyOf as r = (case fold (\<lambda>m. any_visit (au_Authenticate m r)) as (None, None) of
     (Some who, _) \<Rightarrow> Inr who
   | (None, Some e) \<Rightarrow> Inl e
   | (None, None) \<Rightarrow> Inl (Opaque ''mamori: no configured scheme allowed the request''))"

definition AnyOf :: "Authenticator list \<Rightarrow> Authenticator" where
  "AnyOf as = \<lparr>au_Authenticate = anyOf as,
     au_Challenge = (case List.map_filter au_Challenge as of [] \<Rightarrow> None | c # _ \<Rightarrow> Some c)\<rparr>"

fun all_visit :: "Authenticator list \<Rightarrow> request \<Rightarrow> err option" where
  "all_visit [] r = None"
| "all_visit (m # ms) r = (case au_Authenticate m r of Inl e \<Rightarrow> Some e | Inr _ \<Rightarrow> all_visit ms r)"

definition allOf :: "Authenticator list \<Rightarrow> request \<Rightarrow> err + Identity" where
  "allOf as r = (case as of
     [] \<Rightarrow> Inr zero_Identity
   | m # ms \<Rightarrow> (case au_Authenticate m r of
        Inl e \<Rightarrow> Inl e
      | Inr who \<Rightarrow> (case all_visit ms r of Some e \<Rightarrow> Inl e | None \<Rightarrow> Inr who)))"

definition AllOf :: "Authenticator list \<Rightarrow> Authenticator" where
  "AllOf as = \<lparr>au_Authenticate = allOf as, au_Challenge = None\<rparr>"

subsection \<open>What a shared-secret scheme promises\<close>

text \<open>A request presents at most one credential and is accepted for exactly that one, if it is set.\<close>

locale shared_secret =
  fixes check :: "string \<Rightarrow> request \<Rightarrow> err + Identity"
    and presented :: "request \<Rightarrow> string option"
  assumes accept_iff: "(\<exists>i. check cred r = Inr i) \<longleftrightarrow> cred \<noteq> [] \<and> presented r = Some cred"
begin

lemma unset_denies: "\<exists>e. check [] r = Inl e"
  using accept_iff [of "[]" r] by (metis sumE)

lemma rotation_denies: "check cred r = Inr i \<Longrightarrow> cred' \<noteq> cred \<Longrightarrow> \<exists>e. check cred' r = Inl e"
  using accept_iff [of cred r] accept_iff [of cred' r] by (metis option.inject sumE)

end

definition basic_presented :: "string \<Rightarrow> request \<Rightarrow> string option" where
  "basic_presented user r = (case BasicAuth_of r of Some (u, p) \<Rightarrow> if u = user then Some p else None | None \<Rightarrow> None)"

definition bearer_presented :: "request \<Rightarrow> string option" where
  "bearer_presented r = (if has_prefix bearerPrefix (rq_Header r ''Authorization'')
     then Some (drop (length bearerPrefix) (rq_Header r ''Authorization'')) else None)"

definition key_presented :: "string \<Rightarrow> request \<Rightarrow> string option" where
  "key_presented header r = (if rq_Header r header = [] then None else Some (rq_Header r header))"

interpretation basic: shared_secret "\<lambda>pass. basicAuth (user, pass)" "basic_presented user" for user
  by unfold_locales (auto simp: basicAuth_def basic_presented_def ConstantTimeCompare_def Let_def split: option.splits)

interpretation bearer: shared_secret bearerToken bearer_presented
  by unfold_locales (auto simp: bearerToken_def bearer_presented_def ConstantTimeCompare_def trim_prefix_def Let_def)

interpretation key: shared_secret "apiKey header" "key_presented header" for header
  by unfold_locales (auto simp: apiKey_def key_presented_def ConstantTimeCompare_def Let_def)

text \<open>
  The shared-secret schemes are exact and fail closed: a request is accepted exactly when the
  configured secret is set and is the one the request presents, so an unset secret denies everyone
  and a rotation denies every request that carries the old secret.
\<close>

lemma shared_secrets_exact:
  "((\<exists>i. au_Authenticate (BasicAuth user pass) r = Inr i) \<longleftrightarrow> pass \<noteq> [] \<and> BasicAuth_of r = Some (user, pass))
   \<and> ((\<exists>i. au_Authenticate (BearerToken token) r = Inr i) \<longleftrightarrow> token \<noteq> [] \<and> rq_Header r ''Authorization'' = ''Bearer '' @ token)
   \<and> ((\<exists>i. au_Authenticate (APIKey header key) r = Inr i) \<longleftrightarrow> key \<noteq> [] \<and> rq_Header r header = key)"
proof -
  have "basic_presented user r = Some pass \<longleftrightarrow> BasicAuth_of r = Some (user, pass)"
    by (auto simp: basic_presented_def split: option.splits if_splits)
  moreover have "bearer_presented r = Some token \<longleftrightarrow> rq_Header r ''Authorization'' = ''Bearer '' @ token"
    by (auto simp: bearer_presented_def bearerPrefix_def has_prefix_iff)
  moreover have "key \<noteq> [] \<and> key_presented header r = Some key \<longleftrightarrow> key \<noteq> [] \<and> rq_Header r header = key"
    by (auto simp: key_presented_def)
  ultimately show ?thesis
    by (simp add: BasicAuth_def BearerToken_def APIKey_def basic.accept_iff bearer.accept_iff key.accept_iff)
qed

subsection \<open>Composed schemes\<close>

definition accepts :: "Authenticator \<Rightarrow> request \<Rightarrow> bool" where
  "accepts a r \<longleftrightarrow> (\<exists>i. au_Authenticate a r = Inr i)"

lemma accepts_iff: "accepts a r \<longleftrightarrow> \<not> isl (au_Authenticate a r)"
  by (cases "au_Authenticate a r") (auto simp: accepts_def)

lemma any_fold:
  "fold (\<lambda>m. any_visit (au_Authenticate m r)) as (ok, fe) =
     ((case ok of Some i \<Rightarrow> Some i | None \<Rightarrow> map_option (\<lambda>m. projr (au_Authenticate m r)) (find (\<lambda>m. accepts m r) as)),
      (case fe of Some e \<Rightarrow> Some e | None \<Rightarrow> map_option (\<lambda>m. projl (au_Authenticate m r)) (find (\<lambda>m. \<not> accepts m r) as)))"
proof (induction as arbitrary: ok fe)
  case (Cons m as)
  then show ?case
    by (cases "au_Authenticate m r"; cases ok; cases fe) (simp_all add: any_visit_def accepts_iff)
qed (simp split: option.splits)

lemma all_visit_find: "all_visit ms r = map_option (\<lambda>m. projl (au_Authenticate m r)) (find (\<lambda>m. \<not> accepts m r) ms)"
  by (induction ms) (auto simp: accepts_iff split: sum.splits)

lemma find_accepts: "find (\<lambda>m. accepts m r) as = Some m \<Longrightarrow> Inr (projr (au_Authenticate m r)) = au_Authenticate m r"
  by (auto simp: find_Some_iff accepts_def)

lemma find_denies: "find (\<lambda>m. \<not> accepts m r) as = Some m \<Longrightarrow> Inl (projl (au_Authenticate m r)) = au_Authenticate m r"
  by (auto simp: find_Some_iff accepts_iff)

lemma AnyOf_find:
  "au_Authenticate (AnyOf as) r = (case find (\<lambda>m. accepts m r) as of
     Some m \<Rightarrow> au_Authenticate m r
   | None \<Rightarrow> (case as of m # _ \<Rightarrow> au_Authenticate m r
        | [] \<Rightarrow> Inl (Opaque ''mamori: no configured scheme allowed the request'')))"
proof (cases "find (\<lambda>m. accepts m r) as")
  case None
  have "find (\<lambda>m. \<not> accepts m r) as = (case as of [] \<Rightarrow> None | m # _ \<Rightarrow> Some m)"
    using None by (cases as) (auto split: if_splits)
  then show ?thesis using None find_denies [of r as]
    by (simp add: AnyOf_def anyOf_def any_fold) (simp split: list.splits)
next
  case (Some m)
  then show ?thesis using find_accepts [OF Some] by (simp add: AnyOf_def anyOf_def any_fold)
qed

lemma AllOf_find:
  "au_Authenticate (AllOf as) r = (case find (\<lambda>m. \<not> accepts m r) as of
     Some m \<Rightarrow> au_Authenticate m r
   | None \<Rightarrow> (case as of m # _ \<Rightarrow> au_Authenticate m r | [] \<Rightarrow> Inr zero_Identity))"
proof (cases as)
  case (Cons m ms)
  then show ?thesis using find_denies [of r ms]
    by (cases "au_Authenticate m r"; cases "find (\<lambda>m. \<not> accepts m r) ms")
      (simp_all add: AllOf_def allOf_def all_visit_find accepts_def [of m])
qed (simp add: AllOf_def allOf_def)

lemma AnyOf_accepts: "accepts (AnyOf as) r \<longleftrightarrow> (\<exists>m\<in>set as. accepts m r)"
proof (cases "find (\<lambda>m. accepts m r) as")
  case None
  then have n: "\<forall>m\<in>set as. \<not> accepts m r" by (auto simp: find_None_iff)
  then have "\<not> accepts (AnyOf as) r"
    using AnyOf_find [of as r] None by (cases as) (simp_all add: accepts_def)
  then show ?thesis using n by blast
next
  case (Some m)
  then have "m \<in> set as" "accepts m r" by (auto simp: find_Some_iff)
  then show ?thesis using AnyOf_find [of as r] Some by (auto simp: accepts_def)
qed

lemma AllOf_accepts: "accepts (AllOf as) r \<longleftrightarrow> (\<forall>m\<in>set as. accepts m r)"
proof (cases "find (\<lambda>m. \<not> accepts m r) as")
  case None
  then have n: "\<forall>m\<in>set as. accepts m r" by (auto simp: find_None_iff)
  then have "accepts (AllOf as) r"
    using AllOf_find [of as r] None by (cases as) (simp_all add: accepts_def)
  then show ?thesis using n by blast
next
  case (Some m)
  then have "m \<in> set as" "\<not> accepts m r" by (auto simp: find_Some_iff)
  then show ?thesis using AllOf_find [of as r] Some by (auto simp: accepts_def)
qed

text \<open>
  \<^verbatim>\<open>AnyOf\<close> answers as the first member that accepts, and when none does as the first member; with
  no members it denies. \<^verbatim>\<open>AllOf\<close> answers as the first member that denies, and when none does as the
  first member; with no members it accepts every request, anonymously. So \<^verbatim>\<open>AnyOf\<close> accepts exactly
  when some member does and \<^verbatim>\<open>AllOf\<close> exactly when all do.
\<close>

lemma AnyOf_AllOf:
  "au_Authenticate (AnyOf as) r = (case find (\<lambda>m. accepts m r) as of
       Some m \<Rightarrow> au_Authenticate m r
     | None \<Rightarrow> (case as of m # _ \<Rightarrow> au_Authenticate m r
          | [] \<Rightarrow> Inl (Opaque ''mamori: no configured scheme allowed the request'')))
   \<and> au_Authenticate (AllOf as) r = (case find (\<lambda>m. \<not> accepts m r) as of
       Some m \<Rightarrow> au_Authenticate m r
     | None \<Rightarrow> (case as of m # _ \<Rightarrow> au_Authenticate m r | [] \<Rightarrow> Inr zero_Identity))
   \<and> accepts (AnyOf as) r = list_ex (\<lambda>m. accepts m r) as \<and> accepts (AllOf as) r = list_all (\<lambda>m. accepts m r) as"
  by (simp add: AnyOf_find AllOf_find AnyOf_accepts AllOf_accepts list_ex_iff list_all_iff)

end
