(* ===== verification/Policies.thy ===== *)
theory Policies
  imports Auth
begin

text \<open>
  \<^verbatim>\<open>server/policy.go\<close>: who may read which binding, with the \<^verbatim>\<open>path.Match\<close> of the standard library its
  globs are written in. Patterns and names are ASCII, so a rune is a character. \<open>None\<close> is the error
  for a malformed pattern.
\<close>

subsection \<open>Globs\<close>

definition getEsc :: "string \<Rightarrow> (char \<times> string) option" where
  "getEsc chunk = (case chunk of
     [] \<Rightarrow> None
   | c # rest \<Rightarrow>
      if c = CHR ''-'' \<or> c = CHR '']'' then None
      else (case (if c = CHR 0x5C then rest else chunk) of
         [] \<Rightarrow> None
       | r # nchunk \<Rightarrow> if nchunk = [] then None else Some (r, nchunk)))"

lemma getEsc_shorter: "getEsc chunk = Some (r, rest) \<Longrightarrow> length rest < length chunk"
  by (auto simp: getEsc_def split: list.splits if_splits)

text \<open>The ranges of a character class, up to its closing bracket: whether one of them holds \<open>r\<close>.\<close>

function class_ranges :: "bool \<Rightarrow> char \<Rightarrow> bool \<Rightarrow> string \<Rightarrow> (bool \<times> string) option" where
  "class_ranges seen r found chunk =
     (if seen \<and> chunk \<noteq> [] \<and> hd chunk = CHR '']'' then Some (found, tl chunk)
      else (case getEsc chunk of
         None \<Rightarrow> None
       | Some (lo, chunk1) \<Rightarrow>
          if hd chunk1 = CHR ''-'' then (case getEsc (tl chunk1) of
               None \<Rightarrow> None
             | Some (hi, chunk2) \<Rightarrow> class_ranges True r (found \<or> (code lo \<le> code r \<and> code r \<le> code hi)) chunk2)
          else class_ranges True r (found \<or> lo = r) chunk1))"
  by pat_completeness auto
termination
  by (relation "measure (\<lambda>(_, _, _, chunk). length chunk)") (auto dest!: getEsc_shorter)

declare class_ranges.simps [simp del]

lemma class_ranges_shorter: "class_ranges seen r found chunk = Some (b, rest) \<Longrightarrow> length rest < length chunk"
proof (induction seen r found chunk rule: class_ranges.induct)
  case (1 seen r found chunk)
  show ?case
  proof (cases "seen \<and> chunk \<noteq> [] \<and> hd chunk = CHR '']''")
    case True
    then show ?thesis using "1.prems" by (subst (asm) class_ranges.simps) (cases chunk, auto)
  next
    case False
    then obtain lo chunk1 where lo: "getEsc chunk = Some (lo, chunk1)"
      using "1.prems" by (subst (asm) class_ranges.simps) (auto split: option.splits)
    show ?thesis
    proof (cases "hd chunk1 = CHR ''-''")
      case True
      then obtain hi chunk2 where hi: "getEsc (tl chunk1) = Some (hi, chunk2)"
        using "1.prems" False lo by (subst (asm) class_ranges.simps) (auto split: option.splits)
      have "length rest < length chunk2"
        using "1.IH"(1) [OF False lo refl True hi refl] "1.prems" False lo True hi
        by (subst (asm) (2) class_ranges.simps) simp
      then show ?thesis using getEsc_shorter [OF lo] getEsc_shorter [OF hi] by simp
    next
      case noRange: False
      have "length rest < length chunk1"
        using "1.IH"(2) [OF False lo refl noRange] "1.prems" False lo noRange
        by (subst (asm) (2) class_ranges.simps) simp
      then show ?thesis using getEsc_shorter [OF lo] by simp
    qed
  qed
qed

text \<open>The rest of the name is \<open>None\<close> once the match has failed; the chunk is still checked to its end.\<close>

function matchChunk :: "string \<Rightarrow> string option \<Rightarrow> string option option" where
  "matchChunk [] s = Some s"
| "matchChunk (c # chunk) s0 =
     (let s = (if s0 = Some [] then None else s0) in
      if c = CHR ''['' then
        (let r = (case s of Some (x # _) \<Rightarrow> x | _ \<Rightarrow> CHR 0x00);
             s1 = map_option tl s;
             negated = (chunk \<noteq> [] \<and> hd chunk = CHR ''^'')
         in case class_ranges False r False (if negated then tl chunk else chunk) of
              None \<Rightarrow> None
            | Some (found, chunk') \<Rightarrow> matchChunk chunk' (if found = negated then None else s1))
      else if c = CHR ''?'' then
        matchChunk chunk (case s of Some (x # s') \<Rightarrow> if x = CHR ''/'' then None else Some s' | _ \<Rightarrow> None)
      else if c = CHR 0x5C then
        (case chunk of [] \<Rightarrow> None
         | d # chunk' \<Rightarrow> matchChunk chunk' (case s of Some (x # s') \<Rightarrow> if d \<noteq> x then None else Some s' | _ \<Rightarrow> None))
      else matchChunk chunk (case s of Some (x # s') \<Rightarrow> if c \<noteq> x then None else Some s' | _ \<Rightarrow> None))"
  by pat_completeness auto
termination
  by (relation "measure (\<lambda>(chunk, _). length chunk)") (auto dest!: class_ranges_shorter split: if_splits)

declare matchChunk.simps(2) [simp del]

text \<open>\<^verbatim>\<open>scanChunk\<close>: the stars in front, then everything up to the next star outside a class.\<close>

fun scan_plain :: "bool \<Rightarrow> string \<Rightarrow> string \<times> string" where
  "scan_plain inrange [] = ([], [])"
| "scan_plain inrange (c # p) =
     (if c = CHR 0x5C then (case p of [] \<Rightarrow> ([c], []) | d # p' \<Rightarrow> (case scan_plain inrange p' of (a, b) \<Rightarrow> (c # d # a, b)))
      else if c = CHR ''*'' \<and> \<not> inrange then ([], c # p)
      else (case scan_plain (if c = CHR ''['' then True else if c = CHR '']'' then False else inrange) p of (a, b) \<Rightarrow> (c # a, b)))"

definition scanChunk :: "string \<Rightarrow> bool \<times> string \<times> string" where
  "scanChunk pattern = (pattern \<noteq> [] \<and> hd pattern = CHR ''*'', scan_plain False (dropWhile (\<lambda>c. c = CHR ''*'') pattern))"

lemma scan_plain_length: "scan_plain i p = (a, b) \<Longrightarrow> length a + length b = length p"
  by (induction i p arbitrary: a b rule: scan_plain.induct) (auto split: if_splits list.splits prod.splits)

lemma scan_plain_nonempty:
  assumes "c \<noteq> CHR ''*''"
  shows "fst (scan_plain i (c # p)) \<noteq> []"
  using assms by (simp add: case_prod_unfold split: list.split)

declare scan_plain.simps(2) [simp del]

lemma scanChunk_shorter:
  assumes "scanChunk pattern = (star, chunk, rest)" "pattern \<noteq> []"
  shows "length rest < length pattern"
proof -
  obtain c p where p: "pattern = c # p" using assms(2) by (cases pattern) auto
  let ?q = "dropWhile (\<lambda>c. c = CHR ''*'') pattern"
  have scan: "scan_plain False ?q = (chunk, rest)" using assms(1) by (simp add: scanChunk_def)
  note len = scan_plain_length [OF scan]
  show ?thesis
  proof (cases "c = CHR ''*''")
    case True
    then have "length ?q \<le> length p" using p by (simp add: length_dropWhile_le)
    then show ?thesis using len p by simp
  next
    case False
    then have "?q = c # p" using p by simp
    moreover have "chunk \<noteq> []" using scan_plain_nonempty [OF False, of False p] scan \<open>?q = c # p\<close> by simp
    ultimately show ?thesis using len p by (cases chunk) auto
  qed
qed

text \<open>The remainders a star may leave: behind each prefix without a separator.\<close>

primrec star_try :: "string \<Rightarrow> bool \<Rightarrow> string \<Rightarrow> string option option" where
  "star_try chunk final [] = Some None"
| "star_try chunk final (x # name) =
     (if x = CHR ''/'' then Some None
      else (case matchChunk chunk (Some name) of
         None \<Rightarrow> None
       | Some (Some t) \<Rightarrow> if final \<and> t \<noteq> [] then star_try chunk final name else Some (Some t)
       | Some None \<Rightarrow> star_try chunk final name))"

function well_formed_rest :: "string \<Rightarrow> bool" where
  "well_formed_rest pattern = (if pattern = [] then True
     else (case scanChunk pattern of (_, chunk, rest) \<Rightarrow> matchChunk chunk (Some []) \<noteq> None \<and> well_formed_rest rest))"
  by pat_completeness auto
termination
  by (relation "measure length") (auto dest: scanChunk_shorter [OF sym])

function path_match :: "string \<Rightarrow> string \<Rightarrow> bool option" where
  "path_match pattern name =
     (if pattern = [] then Some (name = [])
      else (case scanChunk pattern of (star, chunk, rest) \<Rightarrow>
        if star \<and> chunk = [] then Some (CHR ''/'' \<notin> set name)
        else (case matchChunk chunk (Some name) of
           None \<Rightarrow> None
         | Some mt \<Rightarrow>
            if mt = Some [] \<or> (mt \<noteq> None \<and> rest \<noteq> []) then path_match rest (the mt)
            else (case (if star then star_try chunk (rest = []) name else Some None) of
               None \<Rightarrow> None
             | Some (Some t) \<Rightarrow> path_match rest t
             | Some None \<Rightarrow> if well_formed_rest rest then Some False else None))))"
  by pat_completeness auto
termination
  by (relation "measure (\<lambda>(pattern, _). length pattern)") (auto dest: scanChunk_shorter [OF sym])

declare well_formed_rest.simps [simp del] path_match.simps [simp del]

subsection \<open>What a glob of literals and one star matches\<close>

definition plain_char :: "char \<Rightarrow> bool" where
  "plain_char c = (c \<noteq> CHR ''*'' \<and> c \<noteq> CHR ''?'' \<and> c \<noteq> CHR ''['' \<and> c \<noteq> CHR 0x5C)"

lemma plain_charD:
  "plain_char c \<Longrightarrow> c \<noteq> CHR ''*'' \<and> c \<noteq> CHR ''?'' \<and> c \<noteq> CHR ''['' \<and> c \<noteq> CHR 0x5C"
  by (simp add: plain_char_def)

primrec strip_lit :: "string \<Rightarrow> string \<Rightarrow> string option" where
  "strip_lit [] s = Some s"
| "strip_lit (c # lit) s = (case s of [] \<Rightarrow> None | x # s' \<Rightarrow> if c = x then strip_lit lit s' else None)"

lemma strip_lit_Some: "strip_lit lit s = Some t \<longleftrightarrow> s = lit @ t"
  by (induction lit arbitrary: s) (auto split: list.splits)

lemma strip_lit_None: "strip_lit lit s = None \<longleftrightarrow> (\<forall>t. s \<noteq> lit @ t)"
  using strip_lit_Some [of lit s] by (cases "strip_lit lit s") auto

lemma matchChunk_failed: "list_all plain_char lit \<Longrightarrow> matchChunk lit None = Some None"
  by (induction lit) (auto simp: matchChunk.simps(2) dest!: plain_charD)

lemma matchChunk_lit: "list_all plain_char lit \<Longrightarrow> matchChunk lit (Some s) = Some (strip_lit lit s)"
proof (induction lit arbitrary: s)
  case (Cons c lit)
  then show ?case
    by (cases s) (auto simp: matchChunk.simps(2) matchChunk_failed dest!: plain_charD)
qed simp

lemma scan_plain_lit:
  assumes "list_all plain_char lit" "rest = [] \<or> hd rest = CHR ''*''"
  shows "scan_plain i (lit @ rest) = (lit, rest) \<or> i"
  using assms
proof (induction lit arbitrary: i)
  case Nil
  then show ?case by (cases rest) (auto simp: scan_plain.simps(2))
next
  case (Cons c lit)
  then have "scan_plain False (lit @ rest) = (lit, rest)" by fastforce
  with Cons.prems show ?case by (auto simp: scan_plain.simps(2) dest!: plain_charD)
qed

lemma scanChunk_lit:
  assumes "list_all plain_char lit" "lit \<noteq> []" "rest = [] \<or> hd rest = CHR ''*''"
  shows "scanChunk (lit @ rest) = (False, lit, rest)"
    and "scanChunk (CHR ''*'' # lit @ rest) = (True, lit, rest)"
  using scan_plain_lit [OF assms(1, 3), of False] assms(1, 2)
  by (cases lit; auto simp: scanChunk_def dest!: plain_charD)+

lemma path_match_end: "path_match [] name = Some (name = [])"
  by (simp add: path_match.simps)

lemma path_match_star: "path_match ''*'' name = Some (CHR ''/'' \<notin> set name)"
  by (simp add: path_match.simps scanChunk_def)

lemma well_formed_end: "well_formed_rest []"
  by (simp add: well_formed_rest.simps)

lemma well_formed_star_lit:
  assumes "list_all plain_char lit"
  shows "well_formed_rest (CHR ''*'' # lit)"
proof (cases "lit = []")
  case True
  then show ?thesis by (simp add: well_formed_rest.simps [of "''*''"] well_formed_end scanChunk_def)
next
  case False
  then show ?thesis using scanChunk_lit(2) [OF assms False, of "[]"] assms
    by (subst well_formed_rest.simps) (simp add: well_formed_end matchChunk_lit)
qed

lemma star_try_lit:
  assumes "list_all plain_char lit"
  shows "star_try lit True name =
    Some (if \<exists>m. m \<noteq> [] \<and> CHR ''/'' \<notin> set m \<and> name = m @ lit then Some [] else None)"
proof (induction name)
  case (Cons x name)
  have split: "(\<exists>m. m \<noteq> [] \<and> CHR ''/'' \<notin> set m \<and> x # name = m @ lit) \<longleftrightarrow>
      x \<noteq> CHR ''/'' \<and> (name = lit \<or> (\<exists>m. m \<noteq> [] \<and> CHR ''/'' \<notin> set m \<and> name = m @ lit))" (is "?l = ?r")
  proof
    assume ?l
    then obtain m where m: "m \<noteq> []" "CHR ''/'' \<notin> set m" "x # name = m @ lit" by blast
    then obtain m' where "m = x # m'" by (cases m) auto
    with m show ?r by (cases "m' = []") auto
  next
    assume ?r
    then consider "x \<noteq> CHR ''/''" "name = lit" | m where "x \<noteq> CHR ''/''" "CHR ''/'' \<notin> set m" "name = m @ lit" by blast
    then show ?l
    proof cases
      case 1
      then show ?thesis by (intro exI [of _ "[x]"]) simp
    next
      case (2 m)
      then show ?thesis by (intro exI [of _ "x # m"]) simp
    qed
  qed
  show ?case
    unfolding split using Cons strip_lit_Some [of lit name]
    by (cases "strip_lit lit name") (auto simp: matchChunk_lit [OF assms])
qed simp

lemma path_match_star_lit:
  assumes "list_all plain_char lit"
  shows "path_match (CHR ''*'' # lit) name = Some (\<exists>m. CHR ''/'' \<notin> set m \<and> name = m @ lit)"
proof (cases "lit = []")
  case False
  have unfold: "path_match (CHR ''*'' # lit) name =
      (if strip_lit lit name = Some [] then path_match [] []
       else (case star_try lit True name of None \<Rightarrow> None | Some (Some t) \<Rightarrow> path_match [] t
             | Some None \<Rightarrow> if well_formed_rest [] then Some False else None))"
    using scanChunk_lit(2) [OF assms False, of "[]"] False
    by (subst path_match.simps) (simp add: matchChunk_lit [OF assms])
  have "(\<exists>m. CHR ''/'' \<notin> set m \<and> name = m @ lit) \<longleftrightarrow>
      name = lit \<or> (\<exists>m. m \<noteq> [] \<and> CHR ''/'' \<notin> set m \<and> name = m @ lit)"
    by (metis append_Nil empty_iff list.set(1))
  then show ?thesis
    by (simp add: unfold star_try_lit [OF assms] strip_lit_Some path_match_end well_formed_end)
qed (simp add: path_match_star)

lemma path_match_lit:
  assumes "list_all plain_char lit"
  shows "path_match lit name = Some (name = lit)"
proof (cases "lit = []")
  case False
  have "scanChunk lit = (False, lit, [])" using scanChunk_lit(1) [OF assms False, of "[]"] by simp
  then show ?thesis using False strip_lit_Some [of lit name]
    by (subst path_match.simps) (cases "strip_lit lit name", auto simp: matchChunk_lit [OF assms] path_match_end well_formed_end)
qed (simp add: path_match_end)

lemma path_match_lit_star_lit:
  assumes "list_all plain_char pre" "list_all plain_char post"
  shows "path_match (pre @ CHR ''*'' # post) name =
    Some (\<exists>m. CHR ''/'' \<notin> set m \<and> name = pre @ m @ post)"
proof (cases "pre = []")
  case False
  have "scanChunk (pre @ CHR ''*'' # post) = (False, pre, CHR ''*'' # post)"
    using scanChunk_lit(1) [OF assms(1) False, of "CHR ''*'' # post"] by simp
  then have "path_match (pre @ CHR ''*'' # post) name =
      (case strip_lit pre name of Some t \<Rightarrow> path_match (CHR ''*'' # post) t | None \<Rightarrow> Some False)"
    using False by (subst path_match.simps)
      (auto simp: matchChunk_lit [OF assms(1)] well_formed_star_lit [OF assms(2)] split: option.splits)
  then show ?thesis
    by (cases "strip_lit pre name") (auto simp: path_match_star_lit [OF assms(2)] strip_lit_Some strip_lit_None)
qed (simp add: path_match_star_lit [OF assms(2)])

subsection \<open>Policies\<close>

text \<open>\<open>None\<close> allows; a denial is always the same error.\<close>

type_synonym Policy = "Identity \<Rightarrow> string \<Rightarrow> err option"

definition ErrDenied :: err where "ErrDenied = Sentinel ErrPermissionDenied"

definition AllowAll :: Policy where "AllowAll who name = None"

definition PrefixPolicy :: "(string \<rightharpoonup> string list) \<Rightarrow> Policy" where
  "PrefixPolicy rules who name = (case rules (id_Subject who) of
     None \<Rightarrow> Some ErrDenied
   | Some globs \<Rightarrow> if list_ex (\<lambda>g. path_match g name = Some True) globs then None else Some ErrDenied)"

text \<open>
  \<^verbatim>\<open>PrefixPolicy\<close> fails closed and grants what its globs say: it answers with no error or always the
  same one, so a denial tells nothing of the name or the subject; a subject without rules is denied
  every name; a rule of plain characters grants exactly that name, and one with a single star
  exactly the names that fill the star without a separator, whatever the length of the filling.\<close>

lemma PrefixPolicy_grants:
  assumes "list_all plain_char pre" and "list_all plain_char post"
  shows "PrefixPolicy rules who name \<in> {None, Some ErrDenied}
    \<and> (rules (id_Subject who) = None \<longrightarrow> PrefixPolicy rules who name = Some ErrDenied)
    \<and> PrefixPolicy (rules(id_Subject who \<mapsto> [pre])) who name = (if name = pre then None else Some ErrDenied)
    \<and> (PrefixPolicy (rules(id_Subject who \<mapsto> [pre @ CHR ''*'' # post])) who name = None \<longleftrightarrow>
         (\<exists>m. CHR ''/'' \<notin> set m \<and> name = pre @ m @ post))"
  using assms by (auto simp: PrefixPolicy_def path_match_lit path_match_lit_star_lit split: option.splits)

lemma PrefixPolicy_grants_witness:
  "PrefixPolicy [''web'' \<mapsto> [''db-*-ro'']] \<lparr>id_Subject = ''web'', id_Attrs = []\<rparr> ''db-eu-ro'' = None
   \<and> PrefixPolicy [''web'' \<mapsto> [''db-*-ro'']] \<lparr>id_Subject = ''ops'', id_Attrs = []\<rparr> ''db-eu-ro'' = Some ErrDenied"
proof -
  have lits: "list_all plain_char ''db-''" "list_all plain_char ''-ro''" by code_simp+
  have "''db-eu-ro'' = ''db-'' @ ''eu'' @ ''-ro'' \<and> CHR ''/'' \<notin> set ''eu''" by simp
  then show ?thesis
    using PrefixPolicy_grants [OF lits, of Map.empty "\<lparr>id_Subject = ''web'', id_Attrs = []\<rparr>" "''db-eu-ro''"]
      PrefixPolicy_grants [OF lits, of "[''web'' \<mapsto> [''db-*-ro'']]" "\<lparr>id_Subject = ''ops'', id_Attrs = []\<rparr>" "''db-eu-ro''"]
    by auto
qed

end
