(* ===== verification/Bindings.thy ===== *)
theory Bindings
  imports Policies
begin

text \<open>
  \<^verbatim>\<open>server/bindings.go\<close> and \<^verbatim>\<open>server/server.go\<close>: the table of bindings a config server is built
  with, its options, and the gates \<^verbatim>\<open>New\<close> enforces. A Go map read from a bind file is an association
  list with distinct keys in an arbitrary order; reading the file and parsing its YAML are parameters.
  A TLS configuration is only ever tested for presence.
\<close>

record rawBinding =
  rb_name :: string
  rb_ref :: string

record Binding =
  b_Name :: string
  b_Ref :: Ref

record unixSpec =
  us_path :: string
  us_mode :: nat

record tcpSpec =
  ts_addr :: string
  ts_tlsConfig :: bool
  ts_insecureNoTLS :: bool

record Server =
  sv_bindings :: "string \<rightharpoonup> Binding"
  sv_policy :: "Policy option"
  sv_auth :: "Authenticator option"
  sv_noAuth :: bool
  sv_audit :: bool
  sv_allowExec :: bool
  sv_allowChaining :: bool
  sv_hasTCP :: bool
  sv_rawBindings :: "rawBinding list"
  sv_bindFiles :: "string list"
  sv_providers :: "string \<rightharpoonup> provider"
  sv_unixSpecs :: "unixSpec list"
  sv_tcpSpecs :: "tcpSpec list"
  sv_nodeID :: string
  sv_drainGrace :: duration

definition zero_Server :: Server where
  "zero_Server = \<lparr>sv_bindings = Map.empty, sv_policy = None, sv_auth = None, sv_noAuth = False, sv_audit = False,
     sv_allowExec = False, sv_allowChaining = False, sv_hasTCP = False, sv_rawBindings = [], sv_bindFiles = [],
     sv_providers = Map.empty, sv_unixSpecs = [], sv_tcpSpecs = [], sv_nodeID = [], sv_drainGrace = 0\<rparr>"

subsection \<open>Options\<close>

type_synonym Option = "Server \<Rightarrow> Server"

definition Bind :: "string \<Rightarrow> string \<Rightarrow> Option" where
  "Bind name ref s = s\<lparr>sv_rawBindings := sv_rawBindings s @ [\<lparr>rb_name = name, rb_ref = ref\<rparr>]\<rparr>"

definition BindFile :: "string \<Rightarrow> Option" where
  "BindFile path s = s\<lparr>sv_bindFiles := sv_bindFiles s @ [path]\<rparr>"

definition server_WithAuth :: "Authenticator \<Rightarrow> Option" where
  "server_WithAuth a s = s\<lparr>sv_auth := Some a\<rparr>"

definition NoAuth :: Option where "NoAuth s = s\<lparr>sv_noAuth := True\<rparr>"

definition WithPolicy :: "Policy \<Rightarrow> Option" where "WithPolicy p s = s\<lparr>sv_policy := Some p\<rparr>"

definition server_WithProvider :: "provider \<Rightarrow> Option" where
  "server_WithProvider p s = s\<lparr>sv_providers := (sv_providers s)(p_Scheme p \<mapsto> p)\<rparr>"

definition WithAudit :: Option where "WithAudit s = s\<lparr>sv_audit := True\<rparr>"

definition AllowExec :: Option where "AllowExec s = s\<lparr>sv_allowExec := True\<rparr>"

definition AllowChaining :: Option where "AllowChaining s = s\<lparr>sv_allowChaining := True\<rparr>"

definition NodeID :: "string \<Rightarrow> Option" where "NodeID n s = s\<lparr>sv_nodeID := n\<rparr>"

definition DrainGrace :: "duration \<Rightarrow> Option" where "DrainGrace d s = s\<lparr>sv_drainGrace := d\<rparr>"

definition TLS :: "tcpSpec \<Rightarrow> tcpSpec" where "TLS t = t\<lparr>ts_tlsConfig := True\<rparr>"

definition InsecureNoTLS :: "tcpSpec \<Rightarrow> tcpSpec" where "InsecureNoTLS t = t\<lparr>ts_insecureNoTLS := True\<rparr>"

definition Unix :: "string \<Rightarrow> nat \<Rightarrow> Option" where
  "Unix path mode s = s\<lparr>sv_unixSpecs := sv_unixSpecs s @ [\<lparr>us_path = path, us_mode = mode\<rparr>]\<rparr>"

definition TCP :: "string \<Rightarrow> (tcpSpec \<Rightarrow> tcpSpec) list \<Rightarrow> Option" where
  "TCP addr opts s = s\<lparr>
     sv_tcpSpecs := sv_tcpSpecs s @ [foldl (\<lambda>t f. f t) \<lparr>ts_addr = addr, ts_tlsConfig = False, ts_insecureNoTLS = False\<rparr> opts],
     sv_hasTCP := True\<rparr>"

subsection \<open>The table of bindings\<close>

record bind_io =
  bio_ReadFile :: "string \<Rightarrow> err + bytes"
  bio_Unmarshal :: "bytes \<Rightarrow> err + (string \<times> string) list"
  bio_Hostname :: "string option"

definition loadBindFile :: "bind_io \<Rightarrow> string \<Rightarrow> err + rawBinding list" where
  "loadBindFile io path = (case bio_ReadFile io path of
     Inl e \<Rightarrow> Inl (Errorf ''mamori/server: bind file'' [e])
   | Inr data \<Rightarrow> (case bio_Unmarshal io data of
        Inl e \<Rightarrow> Inl (Errorf ''mamori/server: bind file'' [e])
      | Inr bf \<Rightarrow> Inr (map (\<lambda>name. \<lparr>rb_name = name, rb_ref = the (map_of bf name)\<rparr>) (sort (map fst bf)))))"

text \<open>The scheme of an accepted ref is stored in lower case; its raw tag is kept.\<close>

definition parse_binding :: "bool \<Rightarrow> bool \<Rightarrow> rawBinding \<Rightarrow> err + Binding" where
  "parse_binding allowExec allowChaining rb = (case ParseRef (rb_ref rb) of
     Inl e \<Rightarrow> Inl (Errorf ''mamori/server: binding'' [e])
   | Inr ref0 \<Rightarrow>
      let ref = ref0\<lparr>r_Scheme := to_lower (r_Scheme ref0)\<rparr> in
      if r_Scheme ref = ''exec'' \<and> \<not> allowExec then Inl (Errorf ''mamori/server: binding: exec: scheme is rejected unless AllowExec() is set'' [])
      else if r_Scheme ref = ''mamori'' \<and> \<not> allowChaining then Inl (Errorf ''mamori/server: binding: mamori: scheme is rejected unless AllowChaining() is set'' [])
      else if ''decode'' \<in> set (map fst (r_Opts ref)) then Inl (Errorf ''mamori/server: binding: ?decode= is applied by the consuming client'' [])
      else Inr \<lparr>b_Name = rb_name rb, b_Ref = ref\<rparr>)"

definition add_binding :: "bool \<Rightarrow> bool \<Rightarrow> rawBinding \<Rightarrow> (string \<rightharpoonup> Binding) \<Rightarrow> err + (string \<rightharpoonup> Binding)" where
  "add_binding allowExec allowChaining rb out =
     (if out (rb_name rb) \<noteq> None then Inl (Errorf ''mamori/server: duplicate binding name'' [])
      else (case parse_binding allowExec allowChaining rb of
         Inl e \<Rightarrow> Inl e
       | Inr b \<Rightarrow> Inr (out(rb_name rb \<mapsto> b))))"

definition declared :: "bind_io \<Rightarrow> rawBinding list \<Rightarrow> string list \<Rightarrow> err + rawBinding list" where
  "declared io direct files = (case map_res (loadBindFile io) files of Inl e \<Rightarrow> Inl e | Inr fbs \<Rightarrow> Inr (direct @ concat fbs))"

definition resolveBindings :: "bind_io \<Rightarrow> rawBinding list \<Rightarrow> string list \<Rightarrow> bool \<Rightarrow> bool \<Rightarrow> err + (string \<rightharpoonup> Binding)" where
  "resolveBindings io direct files allowExec allowChaining = (case declared io direct files of
     Inl e \<Rightarrow> Inl e
   | Inr all \<Rightarrow> fold_res (add_binding allowExec allowChaining) all Map.empty)"

subsection \<open>Construction\<close>

definition errNoPolicy :: err where "errNoPolicy = Opaque ''mamori/server: no Policy configured''"
definition errNoAuth :: err where "errNoAuth = Opaque ''mamori/server: no Authenticator configured''"
definition errNoAuthOnTCP :: err where "errNoAuthOnTCP = Opaque ''mamori/server: NoAuth() is refused on a TCP listener''"
definition errTCPRequiresTLS :: err where "errTCPRequiresTLS = Opaque ''mamori/server: TCP(...) without TLS(...) is refused''"

definition New :: "bind_io \<Rightarrow> Option list \<Rightarrow> err + Server" where
  "New io opts = (let s = foldl (\<lambda>s opt. opt s) zero_Server opts in
     case resolveBindings io (sv_rawBindings s) (sv_bindFiles s) (sv_allowExec s) (sv_allowChaining s) of
       Inl e \<Rightarrow> Inl e
     | Inr bs \<Rightarrow>
        if sv_policy s = None then Inl errNoPolicy
        else if sv_auth s = None \<and> \<not> sv_noAuth s then Inl errNoAuth
        else if sv_noAuth s \<and> sv_hasTCP s then Inl errNoAuthOnTCP
        else if list_ex (\<lambda>t. \<not> ts_tlsConfig t \<and> \<not> ts_insecureNoTLS t) (sv_tcpSpecs s) then Inl errTCPRequiresTLS
        else Inr (s\<lparr>sv_bindings := bs, sv_rawBindings := [], sv_bindFiles := [],
               sv_nodeID := (if sv_nodeID s = [] then (case bio_Hostname io of Some h \<Rightarrow> h | None \<Rightarrow> []) else sv_nodeID s)\<rparr>))"

subsection \<open>What a server can be built of\<close>

text \<open>The table the declarations denote: each name bound once, to the ref its declaration parses to.\<close>

definition bindable :: "bool \<Rightarrow> bool \<Rightarrow> rawBinding \<Rightarrow> bool" where
  "bindable allowExec allowChaining rb = (\<not> isl (parse_binding allowExec allowChaining rb))"

definition binding_table :: "bool \<Rightarrow> bool \<Rightarrow> rawBinding list \<Rightarrow> (string \<rightharpoonup> Binding)" where
  "binding_table ae ac all = map_of (map (\<lambda>rb. (rb_name rb, projr (parse_binding ae ac rb))) all)"

lemma add_binding_Inr:
  "add_binding ae ac rb out = Inr out' \<longleftrightarrow>
     out (rb_name rb) = None \<and> bindable ae ac rb \<and> out' = out(rb_name rb \<mapsto> projr (parse_binding ae ac rb))"
  by (cases "parse_binding ae ac rb") (auto simp: add_binding_def bindable_def)

lemma fold_res_Cons_Inr: "fold_res f (x # xs) s = Inr t \<longleftrightarrow> (\<exists>s'. f x s = Inr s' \<and> fold_res f xs s' = Inr t)"
  by (auto split: sum.splits)

lemma binding_table_simps:
  "binding_table ae ac [] = Map.empty"
  "binding_table ae ac (rb # all) = (binding_table ae ac all)(rb_name rb \<mapsto> projr (parse_binding ae ac rb))"
  by (simp_all add: binding_table_def)

lemma dom_binding_table: "dom (binding_table ae ac all) = rb_name ` set all"
  by (simp add: binding_table_def dom_map_of_conv_image_fst image_image)

lemma fold_add_binding:
  "fold_res (add_binding ae ac) all out = Inr bs \<longleftrightarrow>
     distinct (map rb_name all) \<and> (\<forall>rb\<in>set all. out (rb_name rb) = None) \<and> list_all (bindable ae ac) all
     \<and> bs = out ++ binding_table ae ac all"
proof (induction all arbitrary: out)
  case (Cons rb all)
  let ?n = "rb_name rb" and ?b = "projr (parse_binding ae ac rb)"
  have "fold_res (add_binding ae ac) (rb # all) out = Inr bs \<longleftrightarrow>
      out ?n = None \<and> bindable ae ac rb \<and> fold_res (add_binding ae ac) all (out(?n \<mapsto> ?b)) = Inr bs"
    by (auto simp: fold_res_Cons_Inr add_binding_Inr simp del: fold_res.simps)
  also have "\<dots> \<longleftrightarrow> out ?n = None \<and> bindable ae ac rb \<and> distinct (map rb_name all) \<and> ?n \<notin> rb_name ` set all
      \<and> (\<forall>rb\<in>set all. out (rb_name rb) = None) \<and> list_all (bindable ae ac) all \<and> bs = out(?n \<mapsto> ?b) ++ binding_table ae ac all"
    unfolding Cons.IH by (auto simp: image_iff)
  finally have "fold_res (add_binding ae ac) (rb # all) out = Inr bs \<longleftrightarrow> out ?n = None \<and> bindable ae ac rb \<and> distinct (map rb_name all)
      \<and> ?n \<notin> rb_name ` set all \<and> (\<forall>rb\<in>set all. out (rb_name rb) = None) \<and> list_all (bindable ae ac) all
      \<and> bs = out(?n \<mapsto> ?b) ++ binding_table ae ac all" .
  moreover have "?n \<notin> rb_name ` set all \<Longrightarrow> out(?n \<mapsto> ?b) ++ binding_table ae ac all = out ++ binding_table ae ac (rb # all)"
    using map_add_upd_left [of ?n "binding_table ae ac all" out ?b] by (simp add: dom_binding_table binding_table_simps)
  ultimately show ?case by auto
qed (auto simp: binding_table_simps)

lemma resolveBindings_Inr:
  "resolveBindings io direct files ae ac = Inr bs \<longleftrightarrow>
     (\<exists>all. declared io direct files = Inr all \<and> distinct (map rb_name all) \<and> list_all (bindable ae ac) all
        \<and> bs = binding_table ae ac all)"
  by (auto simp: resolveBindings_def fold_add_binding split: sum.splits)

text \<open>A binding that came through the gates.\<close>

definition gated :: "Server \<Rightarrow> string \<Rightarrow> Binding \<Rightarrow> bool" where
  "gated s n b = (b_Name b = n \<and> to_lower (r_Scheme (b_Ref b)) = r_Scheme (b_Ref b)
     \<and> (r_Scheme (b_Ref b) = ''exec'' \<longrightarrow> sv_allowExec s)
     \<and> (r_Scheme (b_Ref b) = ''mamori'' \<longrightarrow> sv_allowChaining s)
     \<and> ''decode'' \<notin> set (map fst (r_Opts (b_Ref b))))"

lemma to_lower_idem: "to_lower (to_lower x) = to_lower x"
proof -
  have "lower_char (lower_char c) = lower_char c" for c
    by (auto simp: lower_char_def code_def)
  then show ?thesis by (simp add: to_lower_def)
qed

lemma parse_binding_gated:
  assumes "parse_binding (sv_allowExec s) (sv_allowChaining s) rb = Inr b"
  shows "gated s (rb_name rb) b"
  using assms by (auto simp: parse_binding_def gated_def to_lower_idem Let_def split: sum.splits if_splits)

lemma binding_table_gated:
  assumes "list_all (bindable (sv_allowExec s) (sv_allowChaining s)) all"
    and "binding_table (sv_allowExec s) (sv_allowChaining s) all n = Some b"
  shows "gated s n b"
proof -
  from assms(2) obtain rb where rb: "rb \<in> set all" "n = rb_name rb" "b = projr (parse_binding (sv_allowExec s) (sv_allowChaining s) rb)"
    by (auto simp: binding_table_def dest!: map_of_SomeD)
  with assms(1) have "parse_binding (sv_allowExec s) (sv_allowChaining s) rb = Inr b"
    by (simp add: list_all_iff bindable_def)
  then show ?thesis using parse_binding_gated rb(2) by simp
qed

definition configured :: "Option list \<Rightarrow> Server" where
  "configured opts = foldl (\<lambda>s opt. opt s) zero_Server opts"

definition bindings_ok :: "bind_io \<Rightarrow> Server \<Rightarrow> bool" where
  "bindings_ok io s = (case declared io (sv_rawBindings s) (sv_bindFiles s) of
     Inl _ \<Rightarrow> False
   | Inr all \<Rightarrow> distinct (map rb_name all) \<and> list_all (bindable (sv_allowExec s) (sv_allowChaining s)) all)"

definition server_gates :: "Server \<Rightarrow> bool" where
  "server_gates s = (sv_policy s \<noteq> None \<and> (sv_auth s \<noteq> None \<or> sv_noAuth s) \<and> \<not> (sv_noAuth s \<and> sv_hasTCP s)
     \<and> list_all (\<lambda>t. ts_tlsConfig t \<or> ts_insecureNoTLS t) (sv_tcpSpecs s))"

definition admissible :: "bind_io \<Rightarrow> Server \<Rightarrow> bool" where
  "admissible io s = (bindings_ok io s \<and> server_gates s)"

definition node_name :: "bind_io \<Rightarrow> Server \<Rightarrow> string" where
  "node_name io s = (if sv_nodeID s = [] then (case bio_Hostname io of Some h \<Rightarrow> h | None \<Rightarrow> []) else sv_nodeID s)"

lemma New_Inr:
  "New io opts = Inr s' \<longleftrightarrow>
     (\<exists>bs. resolveBindings io (sv_rawBindings (configured opts)) (sv_bindFiles (configured opts))
              (sv_allowExec (configured opts)) (sv_allowChaining (configured opts)) = Inr bs
       \<and> server_gates (configured opts)
       \<and> s' = (configured opts)\<lparr>sv_bindings := bs, sv_rawBindings := [], sv_bindFiles := [], sv_nodeID := node_name io (configured opts)\<rparr>)"
proof -
  have ex: "list_ex (\<lambda>t. \<not> ts_tlsConfig t \<and> \<not> ts_insecureNoTLS t) ts \<longleftrightarrow> \<not> list_all (\<lambda>t. ts_tlsConfig t \<or> ts_insecureNoTLS t) ts" for ts
    by (auto simp: list_all_iff list_ex_iff)
  show ?thesis
    unfolding New_def Let_def configured_def [symmetric] node_name_def [symmetric] server_gates_def ex
    by (auto split: sum.split)
qed

text \<open>
  C14. The gates of \<^verbatim>\<open>New\<close> are structural: a server comes out exactly when its bind files load, no name is
  declared twice, every declared ref parses and passes the scheme and decode gates, there is a policy,
  there is an authenticator or authentication was switched off and no TCP listener asked for, and
  every TCP listener has TLS or an explicit opt-out. The options are read after all of them were applied, so an
  \<^verbatim>\<open>AllowExec\<close> counts wherever it stands. The table of the server then binds exactly the declared
  names, each to a ref whose scheme is in lower case, that runs a command or chains to another server
  only if allowed and carries no decode option.\<close>

theorem New_gates:
  "case New io opts of
     Inl _ \<Rightarrow> \<not> admissible io (configured opts)
   | Inr s' \<Rightarrow> admissible io (configured opts)
       \<and> dom (sv_bindings s') = rb_name ` set (projr (declared io (sv_rawBindings (configured opts)) (sv_bindFiles (configured opts))))
       \<and> (\<forall>n b. sv_bindings s' n = Some b \<longrightarrow> gated s' n b)
       \<and> (sv_policy s', sv_auth s', sv_noAuth s', sv_hasTCP s') =
           (sv_policy (configured opts), sv_auth (configured opts), sv_noAuth (configured opts), sv_hasTCP (configured opts))"
proof (cases "New io opts")
  case (Inl e)
  then have "\<not> admissible io (configured opts)"
    using New_Inr [of io opts] by (force simp: admissible_def bindings_ok_def resolveBindings_Inr split: sum.splits)
  then show ?thesis using Inl by simp
next
  case (Inr s')
  let ?s = "configured opts"
  from Inr obtain all where all: "declared io (sv_rawBindings ?s) (sv_bindFiles ?s) = Inr all" "distinct (map rb_name all)"
      "list_all (bindable (sv_allowExec ?s) (sv_allowChaining ?s)) all"
    and s': "s' = ?s\<lparr>sv_bindings := binding_table (sv_allowExec ?s) (sv_allowChaining ?s) all, sv_rawBindings := [], sv_bindFiles := [], sv_nodeID := node_name io ?s\<rparr>"
    and gates: "server_gates ?s"
    unfolding New_Inr resolveBindings_Inr by blast
  have "gated s' n b" if "sv_bindings s' n = Some b" for n b
    using binding_table_gated [OF all(3), of n b] that unfolding s' gated_def by simp
  moreover have "admissible io ?s" using all gates by (simp add: admissible_def bindings_ok_def)
  ultimately show ?thesis using Inr all(1) by (simp add: s' dom_binding_table)
qed

text \<open>A server with one secret behind a bearer token, over a Unix socket.\<close>

definition demo_bind_io :: bind_io where
  "demo_bind_io = \<lparr>bio_ReadFile = (\<lambda>_. Inr []), bio_Unmarshal = (\<lambda>_. Inr [(''tls'', ''FILE:/tls.pem''), (''db'', ''env:DB'')]), bio_Hostname = Some ''host''\<rparr>"

definition demo_server_options :: "Option list" where
  "demo_server_options = [Bind ''job'' ''EXEC:date'', BindFile ''b.yaml'', server_WithAuth (BearerToken ''t''),
     WithPolicy (PrefixPolicy [''bearer'' \<mapsto> [''d*'']]), Unix ''/s'' 384, AllowExec]"

theorem New_gates_witness:
  "\<not> isl (New demo_bind_io demo_server_options)
   \<and> r_Scheme (b_Ref (the (sv_bindings (projr (New demo_bind_io demo_server_options)) ''job''))) = ''exec''
   \<and> sv_allowExec (projr (New demo_bind_io demo_server_options))
   \<and> isl (New demo_bind_io (butlast demo_server_options))"
proof -
  have built: "\<not> isl (New demo_bind_io demo_server_options)"
    and job: "map_option b_Ref (sv_bindings (projr (New demo_bind_io demo_server_options)) ''job'')
      = Some \<lparr>r_Scheme = ''exec'', r_Path = ''date'', r_Key = [], r_Opts = [], r_Raw = ''EXEC:date''\<rparr>"
    by code_simp+
  then obtain s' b where s': "New demo_bind_io demo_server_options = Inr s'" "sv_bindings s' ''job'' = Some b" "r_Scheme (b_Ref b) = ''exec''"
    by (cases "New demo_bind_io demo_server_options") auto
  have "\<not> admissible demo_bind_io (configured (butlast demo_server_options))" by code_simp
  then show ?thesis using s' New_gates [of demo_bind_io demo_server_options] New_gates [of demo_bind_io "butlast demo_server_options"]
    by (auto simp: gated_def split: sum.splits)
qed

end
