(* ===== verification/Admin.thy ===== *)
theory Admin
  imports Auth Reports
begin

text \<open>
  \<^verbatim>\<open>handler.go\<close>: the admin endpoint of a watcher. A handler is a function from requests to responses.
  The router of the standard library is modelled on cleaned paths, for the two patterns the code
  registers; a GET pattern also takes HEAD. JSON encoding is not modelled: a body is the value encoded.
\<close>

record http_request = request +
  hr_Method :: string
  hr_Path :: string

datatype body = BodyReport Report | BodyError string | BodyHealthz string "FieldStatus list" | BodyRouter

record response =
  hs_Status :: nat
  hs_Challenge :: "string option"
  hs_Body :: body

record handlerOptions =
  ho_prefix :: string
  ho_auth :: "Authenticator option"
  ho_middleware :: "((http_request \<Rightarrow> response) \<Rightarrow> http_request \<Rightarrow> response) list"

definition no_handlerOptions :: handlerOptions where
  "no_handlerOptions = \<lparr>ho_prefix = [], ho_auth = None, ho_middleware = []\<rparr>"

definition HandlerPrefix :: "string \<Rightarrow> handlerOptions \<Rightarrow> handlerOptions" where
  "HandlerPrefix prefix o' = o'\<lparr>ho_prefix := trim_suffix ''/'' prefix\<rparr>"

text \<open>\<open>None\<close> is the panic on a second \<^verbatim>\<open>WithAuth\<close>.\<close>

definition WithAuth :: "Authenticator \<Rightarrow> handlerOptions \<Rightarrow> handlerOptions option" where
  "WithAuth a o' = (if ho_auth o' \<noteq> None then None else Some (o'\<lparr>ho_auth := Some a\<rparr>))"

definition HandlerMiddleware :: "((http_request \<Rightarrow> response) \<Rightarrow> http_request \<Rightarrow> response) \<Rightarrow> handlerOptions \<Rightarrow> handlerOptions" where
  "HandlerMiddleware mw o' = o'\<lparr>ho_middleware := ho_middleware o' @ [mw]\<rparr>"

definition writeJSON :: "nat \<Rightarrow> body \<Rightarrow> response" where
  "writeJSON status b = \<lparr>hs_Status = status, hs_Challenge = None, hs_Body = b\<rparr>"

text \<open>\<open>None\<close> lets the request through.\<close>

definition authOK :: "handlerOptions \<Rightarrow> http_request \<Rightarrow> response option" where
  "authOK o' r = (case ho_auth o' of
     None \<Rightarrow> None
   | Some a \<Rightarrow> (case au_Authenticate a (request.truncate r) of
        Inr _ \<Rightarrow> None
      | Inl err \<Rightarrow>
         if err_is err ErrForbidden then Some (writeJSON 403 (BodyError ''forbidden''))
         else Some ((writeJSON 401 (BodyError ''unauthorized''))\<lparr>hs_Challenge := au_Challenge a\<rparr>)))"

definition health_fields :: "healthProblem list \<Rightarrow> FieldStatus list" where
  "health_fields ps = (case List.map_filter (\<lambda>p. case p of HealthError fs \<Rightarrow> Some fs | _ \<Rightarrow> None) ps of [] \<Rightarrow> [] | fs # _ \<Rightarrow> fs)"

definition serveHealthz :: "sys \<Rightarrow> instant \<Rightarrow> engine \<Rightarrow> handlerOptions \<Rightarrow> http_request \<Rightarrow> response" where
  "serveHealthz S now e o' r =
     (let err = Health S now e;
          authed = (case ho_auth o' of None \<Rightarrow> True | Some a \<Rightarrow> \<not> isl (au_Authenticate a (request.truncate r)))
      in if err = [] then writeJSON 200 (BodyHealthz ''ok'' [])
         else writeJSON 503 (BodyHealthz ''unhealthy'' (if authed then health_fields err else [])))"

definition admin_mux :: "sys \<Rightarrow> instant \<Rightarrow> engine \<Rightarrow> handlerOptions \<Rightarrow> http_request \<Rightarrow> response" where
  "admin_mux S now e o' r =
     (let get = hr_Method r \<in> {''GET'', ''HEAD''}
      in if hr_Path r = [] then writeJSON 301 BodyRouter
         else if hr_Path r = ''/'' then
           (if \<not> get then writeJSON 405 BodyRouter
            else (case authOK o' r of Some resp \<Rightarrow> resp | None \<Rightarrow> writeJSON 200 (BodyReport (Status S now e))))
         else if hr_Path r = ''/healthz'' then (if \<not> get then writeJSON 405 BodyRouter else serveHealthz S now e o' r)
         else writeJSON 404 BodyRouter)"

text \<open>\<^verbatim>\<open>http.StripPrefix\<close>.\<close>

definition StripPrefix :: "string \<Rightarrow> (http_request \<Rightarrow> response) \<Rightarrow> http_request \<Rightarrow> response" where
  "StripPrefix prefix h r = (if has_prefix prefix (hr_Path r) then h (r\<lparr>hr_Path := drop (length prefix) (hr_Path r)\<rparr>)
     else writeJSON 404 BodyRouter)"

definition Handler :: "sys \<Rightarrow> instant \<Rightarrow> engine \<Rightarrow> handlerOptions \<Rightarrow> http_request \<Rightarrow> response" where
  "Handler S now e o' =
     (let mux = admin_mux S now e o';
          h = (if ho_prefix o' \<noteq> [] then StripPrefix (ho_prefix o') mux else mux)
      in foldr (\<lambda>mw h. mw h) (ho_middleware o') h)"

subsection \<open>What the endpoint tells whom\<close>

definition discloses :: "response \<Rightarrow> bool" where
  "discloses resp = (case hs_Body resp of BodyReport _ \<Rightarrow> True | BodyHealthz _ fs \<Rightarrow> fs \<noteq> [] | _ \<Rightarrow> False)"

lemma denied_mux:
  assumes "ho_auth o' = Some a" and "au_Authenticate a (request.truncate r) = Inl err"
    and "Health S1 now e1 = [] \<longleftrightarrow> Health S2 now e2 = []"
  shows "admin_mux S1 now e1 o' r = admin_mux S2 now e2 o' r" "\<not> discloses (admin_mux S1 now e1 o' r)"
  using assms by (auto simp: admin_mux_def authOK_def serveHealthz_def discloses_def writeJSON_def Let_def)

text \<open>
  C18. A request the configured scheme denies learns one bit: whatever its path, its response carries no
  report and no field, and two watchers whose health agrees answer it identically, however they
  differ in configuration, fields and errors. A denied read of the report is a 401 or a 403.
\<close>

theorem admin_denied_learns_health_only:
  assumes "ho_auth o' = Some a" and "au_Authenticate a (request.truncate r) = Inl err" and "ho_middleware o' = []"
    and "Health S1 now e1 = [] \<longleftrightarrow> Health S2 now e2 = []"
  shows "Handler S1 now e1 o' r = Handler S2 now e2 o' r \<and> \<not> discloses (Handler S1 now e1 o' r)
    \<and> (ho_prefix o' = [] \<longrightarrow> hr_Path r = ''/'' \<longrightarrow> hr_Method r = ''GET'' \<longrightarrow>
         hs_Status (Handler S1 now e1 o' r) = (if err_is err ErrForbidden then 403 else 401))"
proof -
  have "au_Authenticate a (request.truncate (r\<lparr>hr_Path := p\<rparr>)) = Inl err" for p
    using assms(2) by (simp add: request.truncate_def)
  note strip = denied_mux [OF assms(1) this assms(4)] and plain = denied_mux [OF assms(1,2,4)]
  have "Handler S1 now e1 o' r = Handler S2 now e2 o' r" "\<not> discloses (Handler S1 now e1 o' r)"
    using strip plain by (auto simp: Handler_def assms(3) StripPrefix_def Let_def) (auto simp: discloses_def writeJSON_def)
  moreover have "hs_Status (Handler S1 now e1 o' r) = (if err_is err ErrForbidden then 403 else 401)"
    if "ho_prefix o' = []" "hr_Path r = ''/''" "hr_Method r = ''GET''"
    using that assms(1-3) by (simp add: Handler_def admin_mux_def authOK_def writeJSON_def)
  ultimately show ?thesis by blast
qed

definition demo_request :: "string \<Rightarrow> http_request" where
  "demo_request p = \<lparr>rq_Header = (\<lambda>_. []), rq_TLS = None, rq_PeerCred = None, hr_Method = ''GET'', hr_Path = p\<rparr>"

definition demo_admin :: handlerOptions where
  "demo_admin = no_handlerOptions\<lparr>ho_auth := Some (BearerToken ''t'')\<rparr>"

theorem admin_denied_learns_health_only_witness:
  "hs_Status (Handler app_sys 9 app_engine demo_admin (demo_request ''/'')) = 401
   \<and> Handler app_sys 9 app_engine demo_admin (demo_request ''/'') = Handler app_sys 9 (app_at app_flush) demo_admin (demo_request ''/'')"
proof -
  let ?r = "demo_request ''/''"
  have o: "ho_auth demo_admin = Some (BearerToken ''t'')" "ho_middleware demo_admin = []" "ho_prefix demo_admin = []"
    by (simp_all add: demo_admin_def no_handlerOptions_def)
  have a: "au_Authenticate (BearerToken ''t'') (request.truncate ?r) = Inl (Opaque ''mamori: missing bearer token'')"
    "Health app_sys 9 app_engine = [] \<longleftrightarrow> Health app_sys 9 (app_at app_flush) = []"
    "\<not> err_is (Opaque ''mamori: missing bearer token'') ErrForbidden" "hr_Path ?r = ''/''" "hr_Method ?r = ''GET''" by code_simp+
  show ?thesis using admin_denied_learns_health_only [OF o(1) a(1) o(2) a(2)] o(3) a(3-5) by auto
qed

end
