(* ===== verification/Serving.thy ===== *)
theory Serving
  imports Bindings Admin
begin

text \<open>
  \<^verbatim>\<open>server/resolve.go\<close>, \<^verbatim>\<open>server/wire.go\<close> and \<^verbatim>\<open>server/handler.go\<close>: what a config server keeps of
  every binding, and what it answers. An upstream watch is the sequence of its updates. A handler maps a
  request to a response and the audit records it logs; latencies are not modelled, and JSON bodies are the values
  encoded (decoding the batch request is a parameter). Paths carry no percent escapes and are cleaned.
  \<^verbatim>\<open>the\<close> stands where the code would dereference a nil authenticator or policy, which \<^verbatim>\<open>New\<close> excludes.
\<close>

subsection \<open>Snapshots\<close>

record bindingSnapshot =
  bs_hasValue :: bool
  bs_value :: Value
  bs_err :: "err option"
  bs_kind :: Kind
  bs_resolvedAt :: instant
  bs_settled :: bool

definition zero_snapshot :: bindingSnapshot where
  "zero_snapshot = \<lparr>bs_hasValue = False, bs_value = zero_Value, bs_err = None, bs_kind = [], bs_resolvedAt = 0, bs_settled = False\<rparr>"

definition apply_update :: "instant \<Rightarrow> Update \<Rightarrow> bindingSnapshot option \<Rightarrow> bindingSnapshot" where
  "apply_update now up prev = (case u_Err up of
     None \<Rightarrow> zero_snapshot\<lparr>bs_hasValue := True, bs_value := u_Value up, bs_resolvedAt := now, bs_settled := True\<rparr>
   | Some e \<Rightarrow>
      let next = zero_snapshot\<lparr>bs_err := Some e, bs_kind := ErrorKind (Some e), bs_settled := True\<rparr>
      in case prev of
           Some p \<Rightarrow> if bs_hasValue p then next\<lparr>bs_hasValue := True, bs_value := bs_value p, bs_resolvedAt := bs_resolvedAt p\<rparr> else next
         | None \<Rightarrow> next)"

definition errNoProvider :: "string \<Rightarrow> err" where
  "errNoProvider scheme = Opaque (''mamori/server: no provider registered for scheme '' @ scheme)"

definition errPendingResolve :: err where "errPendingResolve = Opaque ''mamori/server: binding not yet resolved''"
definition errAlreadyStarted :: err where "errAlreadyStarted = Opaque ''mamori/server: start called more than once''"
definition errClosed :: err where "errClosed = Opaque ''mamori/server: server is closed''"

record resolverState =
  rs_binding :: Binding
  rs_snapshot :: "bindingSnapshot option"

text \<open>A server with its runtime state. The order in which the map of bindings was visited is the order of \<open>rt_resolved\<close>.\<close>

record rserver = Server +
  rt_resolved :: "(string \<times> resolverState) list"
  rt_started :: bool
  rt_closed :: bool
  rt_draining :: bool

definition start_binding :: "Server \<Rightarrow> Binding \<Rightarrow> resolverState" where
  "start_binding s b = (case sv_providers s (r_Scheme (b_Ref b)) of
     Some _ \<Rightarrow> \<lparr>rs_binding = b, rs_snapshot = Some (zero_snapshot\<lparr>bs_err := Some errPendingResolve, bs_kind := ErrorKind (Some errPendingResolve)\<rparr>)\<rparr>
   | None \<Rightarrow> \<lparr>rs_binding = b, rs_snapshot = Some (zero_snapshot\<lparr>bs_err := Some (errNoProvider (r_Scheme (b_Ref b))),
       bs_kind := ErrorKind (Some (errNoProvider (r_Scheme (b_Ref b)))), bs_settled := True\<rparr>)\<rparr>)"

definition start :: "string list \<Rightarrow> rserver \<Rightarrow> err + rserver" where
  "start names s =
     (if rt_closed s then Inl errClosed
      else if rt_started s then Inl errAlreadyStarted
      else Inr (s\<lparr>rt_started := True,
             rt_resolved := map (\<lambda>n. (n, start_binding (Server.truncate s) (the (sv_bindings s n)))) names\<rparr>))"

text \<open>One update of the watch goroutine of a binding. A binding without a provider has no watch.\<close>

definition deliver :: "instant \<Rightarrow> string \<Rightarrow> Update \<Rightarrow> rserver \<Rightarrow> rserver" where
  "deliver now n up s = s\<lparr>rt_resolved := map (\<lambda>(m, rs). (m,
     if m = n \<and> sv_providers s (r_Scheme (b_Ref (rs_binding rs))) \<noteq> None
     then rs\<lparr>rs_snapshot := Some (apply_update now up (rs_snapshot rs))\<rparr> else rs)) (rt_resolved s)\<rparr>"

subsection \<open>Reading a binding\<close>

record freshness =
  fr_resolvedAt :: instant
  fr_stale :: bool

definition no_freshness :: freshness where "no_freshness = \<lparr>fr_resolvedAt = 0, fr_stale = False\<rparr>"

definition lookupFresh :: "rserver \<Rightarrow> string \<Rightarrow> Value \<times> freshness \<times> Kind \<times> bool \<times> bool" where
  "lookupFresh s name = (case map_of (rt_resolved s) name of
     None \<Rightarrow> (zero_Value, no_freshness, [], False, False)
   | Some rs \<Rightarrow> (case rs_snapshot rs of
        None \<Rightarrow> (zero_Value, no_freshness, ErrorKind (Some errPendingResolve), False, True)
      | Some snap \<Rightarrow>
         if \<not> bs_hasValue snap then (zero_Value, no_freshness, bs_kind snap, False, True)
         else (bs_value snap, \<lparr>fr_resolvedAt = bs_resolvedAt snap, fr_stale = (bs_err snap \<noteq> None)\<rparr>, bs_kind snap, True, True)))"

definition lookup_binding :: "rserver \<Rightarrow> string \<Rightarrow> Value \<times> Kind \<times> bool \<times> bool" where
  "lookup_binding s name = (case lookupFresh s name of (v, _, k, has, ok) \<Rightarrow> (v, k, has, ok))"

definition readiness :: "rserver \<Rightarrow> string \<times> bool" where
  "readiness s =
     (if rt_draining s then (''draining'', False)
      else if list_ex (\<lambda>(_, rs). case rs_snapshot rs of None \<Rightarrow> True | Some snap \<Rightarrow> \<not> bs_settled snap) (rt_resolved s)
      then (''priming'', False)
      else (''ready'', True))"

subsection \<open>The wire\<close>

record errorDetail =
  ed_Kind :: string
  ed_Message :: string

record valueBody =
  vb_Name :: string
  vb_Bytes :: bytes
  vb_Version :: string
  vb_Sensitive :: bool
  vb_NotAfter :: "instant option"
  vb_Metadata :: "(string \<times> string) list option"
  vb_Kind :: string
  vb_Error :: "errorDetail option"
  vb_ResolvedAt :: "instant option"
  vb_Stale :: bool

definition newValueBody :: "string \<Rightarrow> Value \<Rightarrow> Kind \<Rightarrow> freshness \<Rightarrow> valueBody" where
  "newValueBody name v kind f = \<lparr>vb_Name = name, vb_Bytes = v_Bytes v, vb_Version = v_Version v, vb_Sensitive = v_Sensitive v,
     vb_NotAfter = (if time_is_zero (v_NotAfter v) then None else Some (v_NotAfter v)),
     vb_Metadata = Some (v_Metadata v), vb_Kind = kind, vb_Error = None,
     vb_ResolvedAt = (if time_is_zero (fr_resolvedAt f) then None else Some (fr_resolvedAt f)), vb_Stale = fr_stale f\<rparr>"

definition newErrorValueBody :: "string \<Rightarrow> Kind \<Rightarrow> string \<Rightarrow> valueBody" where
  "newErrorValueBody name kind message = \<lparr>vb_Name = name, vb_Bytes = [], vb_Version = [], vb_Sensitive = False, vb_NotAfter = None,
     vb_Metadata = None, vb_Kind = [], vb_Error = Some \<lparr>ed_Kind = kind, ed_Message = message\<rparr>, vb_ResolvedAt = None, vb_Stale = False\<rparr>"

definition statusForKind :: "Kind \<Rightarrow> nat" where
  "statusForKind kind =
     (if kind = KindNotFound then 404 else if kind = KindInvalid then 400 else if kind = KindUnauthenticated then 401
      else if kind = KindPermissionDenied then 403 else if kind = KindRateLimited then 429
      else if kind = KindUnavailable then 503 else 500)"

definition snapshotChanged :: "Value \<Rightarrow> Kind \<Rightarrow> bool \<Rightarrow> Value \<Rightarrow> Kind \<Rightarrow> bool \<Rightarrow> bool" where
  "snapshotChanged prevValue prevKind prevFound v kind found =
     (if prevFound \<noteq> found \<or> prevKind \<noteq> kind then True
      else if v_Version v \<noteq> [] \<or> v_Version prevValue \<noteq> [] then v_Version v \<noteq> v_Version prevValue
      else v_Bytes v \<noteq> v_Bytes prevValue)"

datatype frame = Heartbeat | SSEUpdate valueBody | SSEError valueBody

definition watchFrame :: "string \<Rightarrow> Value \<Rightarrow> Kind \<Rightarrow> bool \<Rightarrow> bool \<Rightarrow> freshness \<Rightarrow> frame" where
  "watchFrame name v kind hasValue found f =
     (if \<not> found then SSEError (newErrorValueBody name KindNotFound ''binding not found'')
      else if kind \<noteq> [] \<and> \<not> hasValue then SSEError (newErrorValueBody name kind ''binding resolve failed'')
      else SSEUpdate (newValueBody name v kind f))"

datatype wire_body =
    ErrorBody errorDetail | ValueBody valueBody | BatchBody "valueBody list" | StatusBody string
  | Stream "frame list" | RouterBody

record wire_response =
  wr_Status :: nat
  wr_Challenge :: "string option"
  wr_NoStore :: bool
  wr_Body :: wire_body

definition server_writeJSON :: "nat \<Rightarrow> wire_body \<Rightarrow> wire_response" where
  "server_writeJSON status b = \<lparr>wr_Status = status, wr_Challenge = None, wr_NoStore = False, wr_Body = b\<rparr>"

definition writeError :: "nat \<Rightarrow> Kind \<Rightarrow> string \<Rightarrow> wire_response" where
  "writeError status kind message = server_writeJSON status (ErrorBody \<lparr>ed_Kind = kind, ed_Message = message\<rparr>)"

definition no_store :: "wire_response \<Rightarrow> wire_response" where
  "no_store w = w\<lparr>wr_NoStore := True\<rparr>"

subsection \<open>Handlers\<close>

record server_request = http_request +
  sr_Query :: "(string \<times> string list) list"
  sr_Body :: bytes
  sr_CanFlush :: bool

record requestOutcome =
  ro_subject :: string
  ro_name :: string
  ro_decision :: string
  ro_kind :: Kind
  ro_status :: nat
  ro_method :: string
  ro_path :: string

text \<open>The node is left out when it has no name; without an audit logger nothing is recorded.\<close>

definition logAudit :: "rserver \<Rightarrow> requestOutcome \<Rightarrow> (string option \<times> requestOutcome) list" where
  "logAudit s oc = (if sv_audit s then [(if sv_nodeID s = [] then None else Some (sv_nodeID s), oc)] else [])"

definition outcome :: "server_request \<Rightarrow> string \<Rightarrow> string \<Rightarrow> string \<Rightarrow> Kind \<Rightarrow> nat \<Rightarrow> requestOutcome" where
  "outcome r subj name decision kind status = \<lparr>ro_subject = subj, ro_name = name, ro_decision = decision,
     ro_kind = kind, ro_status = status, ro_method = hr_Method r, ro_path = hr_Path r\<rparr>"

definition authenticate :: "rserver \<Rightarrow> server_request \<Rightarrow> wire_response \<times> Kind \<times> nat + Identity" where
  "authenticate s r =
     (if sv_noAuth s then Inr zero_Identity
      else (let a = the (sv_auth s) in case au_Authenticate a (request.truncate r) of
         Inr i \<Rightarrow> Inr i
       | Inl e \<Rightarrow>
          if err_is e ErrForbidden then Inl (writeError 403 KindPermissionDenied ''forbidden'', KindPermissionDenied, 403)
          else Inl ((writeError 401 KindUnauthenticated ''unauthenticated'')\<lparr>wr_Challenge := au_Challenge a\<rparr>, KindUnauthenticated, 401)))"

definition allows :: "rserver \<Rightarrow> Identity \<Rightarrow> string \<Rightarrow> bool" where
  "allows s i name = (the (sv_policy s) i name = None)"

definition authorize :: "rserver \<Rightarrow> Identity \<Rightarrow> string \<Rightarrow> wire_response option" where
  "authorize s i name = (if \<not> allows s i name then Some (writeError 403 KindPermissionDenied ''permission denied'') else None)"

definition handleValue :: "rserver \<Rightarrow> server_request \<Rightarrow> string \<Rightarrow> wire_response \<times> (string option \<times> requestOutcome) list" where
  "handleValue s r name = (case authenticate s r of
     Inl (w, kind, status) \<Rightarrow> (no_store w, logAudit s (outcome r [] name ''deny'' kind status))
   | Inr i \<Rightarrow> (case authorize s i name of
        Some w \<Rightarrow> (no_store w, logAudit s (outcome r (id_Subject i) name ''deny'' KindPermissionDenied 403))
      | None \<Rightarrow> (case lookupFresh s name of (v, f, k, hasValue, found) \<Rightarrow>
          if \<not> found then (no_store (writeError 404 KindNotFound ''binding not found''),
                            logAudit s (outcome r (id_Subject i) name ''allow'' KindNotFound 404))
          else if k \<noteq> [] \<and> \<not> hasValue then (no_store (writeError (statusForKind k) k ''binding resolve failed''),
                            logAudit s (outcome r (id_Subject i) name ''allow'' k (statusForKind k)))
          else (no_store (server_writeJSON 200 (ValueBody (newValueBody name v k f))),
                logAudit s (outcome r (id_Subject i) name ''allow'' k 200)))))"

definition maxBatchBodyBytes :: nat where "maxBatchBodyBytes = 1048576"

definition value_entry :: "rserver \<Rightarrow> server_request \<Rightarrow> Identity \<Rightarrow> string \<Rightarrow> valueBody \<times> (string option \<times> requestOutcome) list" where
  "value_entry s r i name =
     (if \<not> allows s i name then (newErrorValueBody name KindPermissionDenied ''permission denied'',
                                 logAudit s (outcome r (id_Subject i) name ''deny'' KindPermissionDenied 403))
      else (case lookupFresh s name of (v, f, k, hasValue, found) \<Rightarrow>
          if \<not> found then (newErrorValueBody name KindNotFound ''binding not found'',
                            logAudit s (outcome r (id_Subject i) name ''allow'' KindNotFound 404))
          else if k \<noteq> [] \<and> \<not> hasValue then (newErrorValueBody name k ''binding resolve failed'',
                            logAudit s (outcome r (id_Subject i) name ''allow'' k (statusForKind k)))
          else (newValueBody name v k f, logAudit s (outcome r (id_Subject i) name ''allow'' k 200))))"

definition handleBatch :: "(bytes \<Rightarrow> string list option) \<Rightarrow> rserver \<Rightarrow> server_request \<Rightarrow> wire_response \<times> (string option \<times> requestOutcome) list" where
  "handleBatch decode s r = (case authenticate s r of
     Inl (w, kind, status) \<Rightarrow> (no_store w, logAudit s (outcome r [] [] ''deny'' kind status))
   | Inr i \<Rightarrow> (case decode (take maxBatchBodyBytes (sr_Body r)) of
        None \<Rightarrow> (no_store (writeError 400 KindInvalid ''malformed request body''),
                  logAudit s (outcome r (id_Subject i) [] ''deny'' KindInvalid 400))
      | Some names \<Rightarrow> (no_store (server_writeJSON 200 (BatchBody (map (\<lambda>n. fst (value_entry s r i n)) names))),
                        concat (map (\<lambda>n. snd (value_entry s r i n)) names))))"

subsubsection \<open>The watch stream\<close>

text \<open>
  A connection takes a number of frames before its writes fail. What the loop meets are ticks, each with the
  server as it is then, until the request is over.
\<close>

record watched =
  w_name :: string
  w_value :: Value
  w_kind :: Kind
  w_found :: bool

datatype watch_event = PollTick rserver | HeartbeatTick

type_synonym conn = "frame list \<times> nat"

definition write_frame :: "frame \<Rightarrow> conn \<Rightarrow> conn \<times> bool" where
  "write_frame f c = (case c of (fs, n) \<Rightarrow> if n = 0 then ((fs, 0), False) else ((fs @ [f], n - 1), True))"

fun subscribe :: "rserver \<Rightarrow> server_request \<Rightarrow> Identity \<Rightarrow> string list \<Rightarrow> conn \<Rightarrow> watched list \<times> conn \<times> (string option \<times> requestOutcome) list" where
  "subscribe s r i [] c = ([], c, [])"
| "subscribe s r i (name # names) c =
     (if \<not> allows s i name then
        (case subscribe s r i names (fst (write_frame (SSEError (newErrorValueBody name KindPermissionDenied ''permission denied'')) c)) of
           (ws, c', as) \<Rightarrow> (ws, c', logAudit s (outcome r (id_Subject i) name ''deny'' KindPermissionDenied 403) @ as))
      else (case lookupFresh s name of (v, f, k, hasValue, found) \<Rightarrow>
        (case subscribe s r i names (fst (write_frame (watchFrame name v k hasValue found f) c)) of
           (ws, c', as) \<Rightarrow> (\<lparr>w_name = name, w_value = v, w_kind = k, w_found = found\<rparr> # ws, c',
              logAudit s (if \<not> found then outcome r (id_Subject i) name ''allow'' KindNotFound 404
                          else if k \<noteq> [] \<and> \<not> hasValue then outcome r (id_Subject i) name ''allow'' k (statusForKind k)
                          else outcome r (id_Subject i) name ''allow'' k 200) @ as))))"

fun poll_subs :: "rserver \<Rightarrow> watched list \<Rightarrow> conn \<Rightarrow> watched list \<times> conn \<times> bool" where
  "poll_subs s [] c = ([], c, True)"
| "poll_subs s (w # ws) c = (case lookupFresh s (w_name w) of (v, f, k, hasValue, found) \<Rightarrow>
     if \<not> snapshotChanged (w_value w) (w_kind w) (w_found w) v k found
     then (case poll_subs s ws c of (ws', c', ok) \<Rightarrow> (w # ws', c', ok))
     else (let w' = w\<lparr>w_value := v, w_kind := k, w_found := found\<rparr>
           in case write_frame (watchFrame (w_name w) v k hasValue found f) c of (c', ok) \<Rightarrow>
                if \<not> ok then (w' # ws, c', False)
                else (case poll_subs s ws c' of (ws', c'', ok') \<Rightarrow> (w' # ws', c'', ok'))))"

fun watch_loop :: "watch_event list \<Rightarrow> watched list \<Rightarrow> conn \<Rightarrow> conn" where
  "watch_loop [] ws c = c"
| "watch_loop (HeartbeatTick # evs) ws c = (case write_frame Heartbeat c of (c', ok) \<Rightarrow> if ok then watch_loop evs ws c' else c')"
| "watch_loop (PollTick s # evs) ws c = (case poll_subs s ws c of (ws', c', ok) \<Rightarrow> if ok then watch_loop evs ws' c' else c')"

definition handleWatch :: "rserver \<Rightarrow> server_request \<Rightarrow> nat \<Rightarrow> watch_event list \<Rightarrow> wire_response \<times> (string option \<times> requestOutcome) list" where
  "handleWatch s r n evs = (case authenticate s r of
     Inl (w, kind, status) \<Rightarrow> (no_store w, logAudit s (outcome r [] [] ''deny'' kind status))
   | Inr i \<Rightarrow>
      let names = (case map_of (sr_Query r) ''name'' of Some ns \<Rightarrow> ns | None \<Rightarrow> []) in
      if names = [] then (no_store (writeError 400 KindInvalid ''at least one name query parameter is required''),
                          logAudit s (outcome r (id_Subject i) [] ''deny'' KindInvalid 400))
      else if \<not> sr_CanFlush r then (no_store (writeError 500 KindUnknown ''streaming unsupported''),
                          logAudit s (outcome r (id_Subject i) [] ''deny'' KindUnknown 500))
      else (case subscribe s r i names ([], n) of (subs, c, as) \<Rightarrow>
        (no_store (server_writeJSON 200 (Stream (fst (if subs = [] then c else watch_loop evs subs c)))), as)))"

subsubsection \<open>Probes and routing\<close>

definition handleHealthz :: wire_response where
  "handleHealthz = server_writeJSON 200 (StatusBody ''ok'')"

definition handleReadyz :: "rserver \<Rightarrow> wire_response" where
  "handleReadyz s = (case readiness s of (state, ready) \<Rightarrow>
     no_store (server_writeJSON (if ready then 200 else 503) (StatusBody state)))"

definition valuesPrefix :: string where "valuesPrefix = ''/v1/values/''"

definition server_Handler :: "(bytes \<Rightarrow> string list option) \<Rightarrow> nat \<Rightarrow> watch_event list \<Rightarrow> rserver \<Rightarrow> server_request \<Rightarrow> wire_response \<times> (string option \<times> requestOutcome) list" where
  "server_Handler decode n evs s r =
     (let get = hr_Method r \<in> {''GET'', ''HEAD''}; name = drop (length valuesPrefix) (hr_Path r);
          only = (\<lambda>ok h. if ok then h else (server_writeJSON 405 RouterBody, []))
      in if has_prefix valuesPrefix (hr_Path r) \<and> name \<noteq> [] \<and> CHR ''/'' \<notin> set name then only get (handleValue s r name)
         else if hr_Path r = ''/v1/values'' then only (hr_Method r = ''POST'') (handleBatch decode s r)
         else if hr_Path r = ''/v1/watch'' then only get (handleWatch s r n evs)
         else if hr_Path r = ''/v1/healthz'' then only get (handleHealthz, [])
         else if hr_Path r = ''/v1/readyz'' then only get (handleReadyz s, [])
         else (server_writeJSON 404 RouterBody, []))"

end
