(* ===== verification/Disclosure.thy ===== *)
theory Disclosure
  imports Serving
begin

text \<open>
  What a caller of the config server can and cannot learn, that a batch is its single requests, and
  that a binding is served from its last successful resolve.
\<close>

subsection \<open>Errors have a kind\<close>

lemma kind_walk_nonempty: "list_all (\<lambda>(k, _). k \<noteq> []) ks \<Longrightarrow> kind_walk ks e = Some k \<Longrightarrow> k \<noteq> []"
  by (induction ks) (auto split: if_splits)

lemma ErrorKind_nonempty: "ErrorKind (Some e) \<noteq> []"
proof -
  have "list_all (\<lambda>(k, _). k \<noteq> []) kindSentinels" by code_simp
  from kind_walk_nonempty [OF this, of e] show ?thesis
    by (auto simp: ErrorKind_def KindUnknown_def split: option.splits)
qed

subsection \<open>A server at work\<close>

definition demo_env :: provider where
  "demo_env = \<lparr>p_Scheme = ''env'', p_Resolve = (\<lambda>_. Inl (Sentinel ErrUnavailable)), p_ResolveBatch = None\<rparr>"

definition demo_server :: rserver where
  "demo_server = Server.extend (projr (New demo_bind_io [Bind ''db'' ''env:DB'', Bind ''job'' ''env:JOB'', server_WithProvider demo_env,
     server_WithAuth (BearerToken ''t''), WithPolicy (PrefixPolicy [''bearer'' \<mapsto> [''d*'']]), WithAudit])) (rserver.fields [] False False False)"

definition demo_started :: rserver where
  "demo_started = projr (start [''db'', ''job''] demo_server)"

definition demo_value :: Value where "demo_value = zero_Value\<lparr>v_Bytes := ''x''\<rparr>"

definition demo_updates :: "(instant \<times> Update) list" where
  "demo_updates = [(5, \<lparr>u_Value = demo_value, u_Err = None\<rparr>), (9, \<lparr>u_Value = zero_Value, u_Err = Some (Sentinel ErrUnavailable)\<rparr>)]"

definition demo_get :: "string \<Rightarrow> server_request" where
  "demo_get p = http_request.extend \<lparr>rq_Header = (\<lambda>_. ''Bearer t''), rq_TLS = None, rq_PeerCred = None, hr_Method = ''GET'', hr_Path = p\<rparr>
     (server_request.fields [] [] True)"

lemma demo_start: "start [''db'', ''job''] demo_server = Inr demo_started"
proof -
  have "\<not> isl (start [''db'', ''job''] demo_server)" by code_simp
  then show ?thesis by (simp add: demo_started_def)
qed

lemma demo_bound:
  assumes "n \<in> {''db'', ''job''}"
  obtains b p where "n \<in> set [''db'', ''job'']" "sv_bindings demo_server n = Some b" "sv_providers demo_server (r_Scheme (b_Ref b)) = Some p"
proof -
  have "list_all (\<lambda>n. case sv_bindings demo_server n of None \<Rightarrow> False | Some b \<Rightarrow> sv_providers demo_server (r_Scheme (b_Ref b)) \<noteq> None) [''db'', ''job'']"
    by code_simp
  then show ?thesis using assms that by (auto split: option.splits)
qed

subsection \<open>A batch is its single requests\<close>

definition entry_of :: "string \<Rightarrow> wire_body \<Rightarrow> valueBody" where
  "entry_of name b = (case b of ErrorBody d \<Rightarrow> newErrorValueBody name (ed_Kind d) (ed_Message d) | ValueBody vb \<Rightarrow> vb | _ \<Rightarrow> undefined)"

lemma value_entry_single:
  assumes "authenticate s r = Inr i"
  shows "fst (value_entry s r i n) = entry_of n (wr_Body (fst (handleValue s r n)))"
    and "snd (value_entry s r i n) = snd (handleValue s r n)"
    and "map (ro_status \<circ> snd) (snd (handleValue s r n)) = (if sv_audit s then [wr_Status (fst (handleValue s r n))] else [])"
  using assms
  by (auto simp: value_entry_def handleValue_def authorize_def entry_of_def no_store_def writeError_def server_writeJSON_def
      logAudit_def outcome_def split: prod.splits)

text \<open>
  \<^verbatim>\<open>POST /v1/values\<close> is a convenience over single requests and no other trust boundary: for an authenticated
  caller whose body decodes, the entries are, in the order asked, what \<^verbatim>\<open>GET /v1/values/{name}\<close> answers for each name,
  errors folded into the entry, and the audit trail is the concatenation of the single requests' trails.
  A caller that fails authentication gets one answer for the whole batch, the one every single request gets.\<close>

lemma handleBatch_pointwise:
  assumes "decode (take maxBatchBodyBytes (sr_Body r)) = Some names"
  shows "case authenticate s r of
      Inr i \<Rightarrow> handleBatch decode s r =
        (no_store (server_writeJSON 200 (BatchBody (map (\<lambda>n. entry_of n (wr_Body (fst (handleValue s r n)))) names))),
         concat (map (\<lambda>n. snd (handleValue s r n)) names))
    | Inl _ \<Rightarrow> \<forall>n. fst (handleBatch decode s r) = fst (handleValue s r n)"
  using assms value_entry_single [of s r] by (auto simp: handleBatch_def handleValue_def split: sum.split)

lemma handleBatch_pointwise_witness:
  "fst (handleBatch (\<lambda>_. Some [''db'', ''job'']) demo_started (demo_get ''/v1/values''))
   = no_store (server_writeJSON 200 (BatchBody [newErrorValueBody ''db'' ''unknown'' ''binding resolve failed'',
       newErrorValueBody ''job'' ''permission_denied'' ''permission denied'']))"
proof -
  let ?r = "demo_get ''/v1/values''"
  have a: "authenticate demo_started ?r = Inr (subject ''bearer'')"
    and e: "entry_of ''db'' (wr_Body (fst (handleValue demo_started ?r ''db''))) = newErrorValueBody ''db'' ''unknown'' ''binding resolve failed''"
      "entry_of ''job'' (wr_Body (fst (handleValue demo_started ?r ''job''))) = newErrorValueBody ''job'' ''permission_denied'' ''permission denied''"
    by code_simp+
  show ?thesis using handleBatch_pointwise [where decode = "\<lambda>_. Some [''db'', ''job'']" and r = ?r and s = demo_started, OF refl] a e by simp
qed

subsection \<open>Last known good\<close>

text \<open>The last success among timed updates, and the state of the upstream.\<close>

fun last_success :: "(instant \<times> Update) list \<Rightarrow> (instant \<times> Value) option" where
  "last_success [] = None"
| "last_success ((t, u) # us) = (case last_success us of Some x \<Rightarrow> Some x | None \<Rightarrow> if u_Err u = None then Some (t, u_Value u) else None)"

definition upstream :: "(instant \<times> Update) list \<Rightarrow> err option" where
  "upstream us = (if us = [] then Some errPendingResolve else u_Err (snd (last us)))"

lemma last_success_snoc:
  "last_success (us @ [(t, u)]) = (if u_Err u = None then Some (t, u_Value u) else last_success us)"
  by (induction us rule: last_success.induct) (auto split: option.splits)

definition served :: "(instant \<times> Update) list \<Rightarrow> bindingSnapshot" where
  "served us = \<lparr>bs_hasValue = (last_success us \<noteq> None), bs_value = (case last_success us of Some (_, v) \<Rightarrow> v | None \<Rightarrow> zero_Value),
     bs_err = upstream us, bs_kind = (case upstream us of Some e \<Rightarrow> ErrorKind (Some e) | None \<Rightarrow> []),
     bs_resolvedAt = (case last_success us of Some (t, _) \<Rightarrow> t | None \<Rightarrow> 0), bs_settled = (us \<noteq> [])\<rparr>"

lemma served_snoc: "apply_update t u (Some (served us)) = served (us @ [(t, u)])"
  by (auto simp: apply_update_def served_def upstream_def last_success_snoc zero_snapshot_def split: option.splits)

definition deliveries :: "string \<Rightarrow> (instant \<times> Update) list \<Rightarrow> rserver \<Rightarrow> rserver" where
  "deliveries n us s = fold (\<lambda>(t, u). deliver t n u) us s"

lemma deliveries_snoc: "deliveries n (us @ [(t, u)]) s = deliver t n u (deliveries n us s)"
  by (simp add: deliveries_def)

lemma deliver_keeps:
  "sv_providers (deliver t n u s) = sv_providers s" "map fst (rt_resolved (deliver t n u s)) = map fst (rt_resolved s)"
  "authenticate (deliver t n u s) r = authenticate s r" "allows (deliver t n u s) i m = allows s i m"
  by (auto simp: deliver_def authenticate_def allows_def comp_def case_prod_unfold)

lemma map_of_deliver:
  "map_of (rt_resolved (deliver t n u s)) m = map_option (\<lambda>rs.
     if m = n \<and> sv_providers s (r_Scheme (b_Ref (rs_binding rs))) \<noteq> None
     then rs\<lparr>rs_snapshot := Some (apply_update t u (rs_snapshot rs))\<rparr> else rs) (map_of (rt_resolved s) m)"
proof -
  have "map_of (map (\<lambda>(m, rs). (m, f m rs)) xs) m = map_option (f m) (map_of xs m)" for f :: "string \<Rightarrow> resolverState \<Rightarrow> resolverState" and xs
    by (induction xs) auto
  from this [of "\<lambda>m rs. if m = n \<and> sv_providers s (r_Scheme (b_Ref (rs_binding rs))) \<noteq> None
     then rs\<lparr>rs_snapshot := Some (apply_update t u (rs_snapshot rs))\<rparr> else rs" "rt_resolved s"]
  show ?thesis by (simp add: deliver_def)
qed

lemma map_of_start:
  "start names s = Inr s0 \<Longrightarrow> map_of (rt_resolved s0) m =
     (if m \<in> set names then Some (start_binding (Server.truncate s) (the (sv_bindings s m))) else None)"
proof -
  have "map_of (map (\<lambda>n. (n, f n)) xs) m = (if m \<in> set xs then Some (f m) else None)" for f :: "string \<Rightarrow> resolverState" and xs
    by (induction xs) auto
  then show "start names s = Inr s0 \<Longrightarrow> ?thesis" by (auto simp: start_def split: if_splits)
qed

lemma start_keeps: "start names s = Inr s0 \<Longrightarrow> sv_providers s0 = sv_providers s"
  by (auto simp: start_def split: if_splits)

lemma deliveries_state:
  assumes "start names s = Inr s0" "n \<in> set names" "sv_bindings s n = Some b" "sv_providers s (r_Scheme (b_Ref b)) = Some p"
  shows "map_of (rt_resolved (deliveries n us s0)) n = Some \<lparr>rs_binding = b, rs_snapshot = Some (served us)\<rparr>
    \<and> sv_providers (deliveries n us s0) = sv_providers s
    \<and> (\<forall>m. m \<noteq> n \<longrightarrow> map_of (rt_resolved (deliveries n us s0)) m = map_of (rt_resolved s0) m)"
proof (induction us rule: rev_induct)
  case Nil
  have "start_binding (Server.truncate s) b = \<lparr>rs_binding = b, rs_snapshot = Some (served [])\<rparr>"
    using assms(4) by (simp add: start_binding_def served_def upstream_def zero_snapshot_def Server.truncate_def)
  then show ?case using assms map_of_start [OF assms(1)] start_keeps [OF assms(1)] by (simp add: deliveries_def)
next
  case (snoc tu us)
  obtain t u where "tu = (t, u)" by (cases tu)
  then show ?case using snoc assms(4) by (auto simp: deliveries_snoc map_of_deliver deliver_keeps served_snoc option.map_ident)
qed

text \<open>
  C13. A binding is served from its last known good value: after any sequence of updates from its upstream, a read
  gives the value and the time of the last successful one, marked stale with the kind of the present
  failure if there is one; a failure never takes a value away and never redates it; a binding that never
  resolved gives no value but the kind of its latest failure. No other binding is touched.\<close>

theorem last_known_good:
  assumes "start names s = Inr s0" and "n \<in> set names" and "sv_bindings s n = Some b"
    and "sv_providers s (r_Scheme (b_Ref b)) = Some p"
  shows "lookupFresh (deliveries n us s0) n = (case last_success us of
        Some (t, v) \<Rightarrow> (v, \<lparr>fr_resolvedAt = t, fr_stale = (upstream us \<noteq> None)\<rparr>, case upstream us of Some e \<Rightarrow> ErrorKind (Some e) | None \<Rightarrow> [], True, True)
      | None \<Rightarrow> (zero_Value, no_freshness, case upstream us of Some e \<Rightarrow> ErrorKind (Some e) | None \<Rightarrow> [], False, True))
    \<and> (\<forall>m. m \<noteq> n \<longrightarrow> lookupFresh (deliveries n us s0) m = lookupFresh s0 m)"
  using deliveries_state [OF assms, of us] by (auto simp: lookupFresh_def served_def split: option.splits)

theorem last_known_good_witness:
  "lookupFresh (deliveries ''db'' demo_updates demo_started) ''db'' =
     (demo_value, \<lparr>fr_resolvedAt = 5, fr_stale = True\<rparr>, ''unavailable'', True, True)"
proof -
  obtain b p where b: "''db'' \<in> set [''db'', ''job'']" "sv_bindings demo_server ''db'' = Some b"
    "sv_providers demo_server (r_Scheme (b_Ref b)) = Some p" using demo_bound [of "''db''"] by blast
  have "last_success demo_updates = Some (5, demo_value)" "upstream demo_updates = Some (Sentinel ErrUnavailable)"
    "ErrorKind (Some (Sentinel ErrUnavailable)) = ''unavailable''" by code_simp+
  then show ?thesis using last_known_good [OF demo_start b, of demo_updates] by simp
qed

subsection \<open>Non-interference\<close>

text \<open>Two servers that were configured the same, and agree on what this caller may read.\<close>

definition same_front :: "rserver \<Rightarrow> rserver \<Rightarrow> bool" where
  "same_front s s' = (the (sv_policy s) = the (sv_policy s') \<and> the (sv_auth s) = the (sv_auth s') \<and> sv_noAuth s = sv_noAuth s'
     \<and> sv_audit s = sv_audit s' \<and> sv_nodeID s = sv_nodeID s')"

definition agree_for :: "(Identity \<Rightarrow> string \<Rightarrow> bool) \<Rightarrow> Identity \<Rightarrow> rserver \<Rightarrow> rserver \<Rightarrow> bool" where
  "agree_for may i s s' = (\<forall>n. may i n \<longrightarrow> lookupFresh s n = lookupFresh s' n)"

fun agree_event :: "(Identity \<Rightarrow> string \<Rightarrow> bool) \<Rightarrow> Identity \<Rightarrow> watch_event \<Rightarrow> watch_event \<Rightarrow> bool" where
  "agree_event may i HeartbeatTick HeartbeatTick = True"
| "agree_event may i (PollTick s) (PollTick s') = agree_for may i s s'"
| "agree_event may i _ _ = False"

lemma same_front_simps:
  assumes "same_front s s'"
  shows "authenticate s = authenticate s'" "allows s = allows s'" "logAudit s = logAudit s'" "authorize s = authorize s'"
  using assms by (auto simp: same_front_def authenticate_def allows_def logAudit_def authorize_def fun_eq_iff)

lemma handleValue_cong:
  assumes "same_front s s'" and "\<And>i. authenticate s r = Inr i \<Longrightarrow> agree_for (allows s) i s s'"
  shows "handleValue s r n = handleValue s' r n"
proof (cases "authenticate s r")
  case (Inr i)
  have "lookupFresh s n = lookupFresh s' n" if "allows s i n" using assms(2) [OF Inr] that by (simp add: agree_for_def)
  then show ?thesis using Inr unfolding handleValue_def authorize_def same_front_simps [OF assms(1)] by simp
qed (simp add: handleValue_def same_front_simps [OF assms(1)])

lemma value_entry_cong:
  assumes "same_front s s'" and "agree_for (allows s) i s s'"
  shows "value_entry s r i n = value_entry s' r i n"
  using assms(2) unfolding value_entry_def same_front_simps [OF assms(1)] agree_for_def by simp

lemma subscribe_cong:
  assumes "same_front s s'" and "agree_for (allows s) i s s'"
  shows "subscribe s r i names c = subscribe s' r i names c"
proof (induction names arbitrary: c)
  case (Cons n names)
  have "lookupFresh s n = lookupFresh s' n" if "allows s i n" using assms(2) that by (simp add: agree_for_def)
  then show ?case using Cons.IH unfolding subscribe.simps same_front_simps [OF assms(1)] by simp
qed simp

lemma subscribe_allowed: "w \<in> set (fst (subscribe s r i names c)) \<Longrightarrow> allows s i (w_name w)"
proof (induction names arbitrary: c)
  case (Cons n names)
  have "w \<in> set (fst (subscribe s r i names (fst (write_frame f c)))) \<Longrightarrow> allows s i (w_name w)" for f by (rule Cons.IH)
  with Cons.prems show ?case by (force simp: case_prod_unfold split: if_splits)
qed simp

lemma poll_subs_names: "map w_name (fst (poll_subs s ws c)) = map w_name ws"
  by (induction s ws c rule: poll_subs.induct) (auto simp: Let_def split: prod.splits if_splits)

lemma poll_subs_cong:
  "\<forall>w\<in>set ws. lookupFresh s (w_name w) = lookupFresh s' (w_name w) \<Longrightarrow> poll_subs s ws c = poll_subs s' ws c"
proof (induction ws arbitrary: c)
  case (Cons w ws)
  then have "lookupFresh s (w_name w) = lookupFresh s' (w_name w)" "\<And>c. poll_subs s ws c = poll_subs s' ws c" by auto
  then show ?case by (simp only: poll_subs.simps)
qed simp

lemma watch_loop_cong:
  assumes "list_all2 (agree_event may i) evs evs'" and "\<forall>w\<in>set ws. may i (w_name w)"
  shows "watch_loop evs ws c = watch_loop evs' ws c"
  using assms
proof (induction evs evs' arbitrary: ws c rule: list_all2_induct)
  case (Cons ev evs ev' evs')
  show ?case
  proof (cases ev)
    case HeartbeatTick
    then have "ev' = HeartbeatTick" using Cons.hyps(1) by (cases ev') auto
    then show ?thesis using HeartbeatTick Cons.IH [OF Cons.prems] by (simp split: prod.split)
  next
    case (PollTick s)
    then obtain s' where s': "ev' = PollTick s'" "agree_for may i s s'" using Cons.hyps(1) by (cases ev') auto
    have polls: "poll_subs s ws c = poll_subs s' ws c"
      using poll_subs_cong [of ws s s' c] s'(2) Cons.prems by (simp add: agree_for_def)
    obtain ws' c' ok where p: "poll_subs s' ws c = (ws', c', ok)" by (cases "poll_subs s' ws c")
    have "map w_name ws' = map w_name ws" using poll_subs_names [of s' ws c] p by simp
    then have "w_name ` set ws' = w_name ` set ws" by (metis set_map)
    then have "\<forall>w\<in>set ws'. may i (w_name w)" using Cons.prems by (metis imageE image_eqI)
    from Cons.IH [OF this] show ?thesis using PollTick s'(1) polls p by simp
  qed
qed simp

lemma handleBatch_cong:
  assumes "same_front s s'" and "\<And>i. authenticate s r = Inr i \<Longrightarrow> agree_for (allows s) i s s'"
  shows "handleBatch decode s r = handleBatch decode s' r"
proof (cases "authenticate s r")
  case (Inr i)
  then show ?thesis using value_entry_cong [OF assms(1) assms(2) [OF Inr]]
    unfolding handleBatch_def same_front_simps [OF assms(1)] by (simp split: option.split)
qed (simp add: handleBatch_def same_front_simps [OF assms(1)])

lemma handleWatch_cong:
  assumes "same_front s s'" and "\<And>i. authenticate s r = Inr i \<Longrightarrow> agree_for (allows s) i s s' \<and> list_all2 (agree_event (allows s) i) evs evs'"
  shows "handleWatch s r n evs = handleWatch s' r n evs'"
proof (cases "authenticate s r")
  case (Inr i)
  note sub = subscribe_cong [OF assms(1) conjunct1 [OF assms(2) [OF Inr]]]
  have "watch_loop evs subs c = watch_loop evs' subs c" if "subscribe s r i names c0 = (subs, c, as)" for names c0 subs c as
    using watch_loop_cong [of "allows s" i evs evs' subs c] assms(2) [OF Inr] subscribe_allowed [of _ s r i names c0] that by simp
  then have "(case subscribe s r i names c0 of (subs, c, as) \<Rightarrow>
        (no_store (server_writeJSON 200 (Stream (fst (if subs = [] then c else watch_loop evs subs c)))), as)) =
      (case subscribe s' r i names c0 of (subs, c, as) \<Rightarrow>
        (no_store (server_writeJSON 200 (Stream (fst (if subs = [] then c else watch_loop evs' subs c)))), as))" for names c0
    unfolding sub [symmetric] by (auto split: prod.splits)
  then show ?thesis using Inr by (simp only: handleWatch_def same_front_simps [OF assms(1)] sum.case)
qed (simp add: handleWatch_def same_front_simps [OF assms(1)])


lemma deliveries_front: "same_front s (deliveries n us s)"
proof (induction us rule: rev_induct)
  case (snoc tu us)
  obtain t u where "tu = (t, u)" by (cases tu)
  moreover have "same_front s (deliver t n u s0) = same_front s s0" for s0 by (simp add: same_front_def deliver_def)
  ultimately show ?case using snoc by (simp add: deliveries_snoc)
qed (simp add: deliveries_def same_front_def)


end
