(* ===== verification/Lifecycle.thy ===== *)
theory Lifecycle
  imports Prelude
begin

text \<open>
  \<^verbatim>\<open>Serve\<close> and \<^verbatim>\<open>Close\<close> of a config server as concurrent threads (\<^verbatim>\<open>server/resolve.go\<close>,
  \<^verbatim>\<open>server/transport.go\<close>). Every action is one critical section or one call of the code, and actions of
  different threads interleave freely: one call of \<^verbatim>\<open>Serve\<close>, any number of calls of \<^verbatim>\<open>Close\<close> (the one \<^verbatim>\<open>Serve\<close> makes
  when its context ends among them), the goroutines of the watches and of the listeners, and the request handlers. A watch goroutine ends
  when its upstream does or when the context of the watches is cancelled, a listener's when it fails or when its listener is closed, a handler when its client is served or leaves or
  when the serving context, from which every request's context derives, is cancelled; the context given to \<^verbatim>\<open>Serve\<close> may cancel both at any time. A wait group is its counter; waiting on it is an action that is enabled at zero.
  The goroutines that \<^verbatim>\<open>WatchRef\<close> and the providers start for a watch are in no wait group of the server and are not part of the state. \<open>W\<close> is the
  number of bindings with a watch, \<open>N\<close> the number of configured listeners.
\<close>

subsection \<open>Threads\<close>

text \<open>The places of \<^verbatim>\<open>teardown\<close>; the flag is whether it read a cancel function of the watches.\<close>

datatype tear_pc =
    TRead | TServing bool | TEntries bool | TShutdown bool nat | TDrain bool nat | TListenWait bool | TResolve bool | TResolveWait | TDone

datatype serve_result = RRefused | RBindFailed | RClosed | RServed

datatype serve_pc = SIdle | SBinding nat | SServing | STear tear_pc | SReturned serve_result

datatype close_pc = CIdle | CDrain | CTear tear_pc | CWait | CReturned

record life =
  lf_closed :: bool
  lf_closeDone :: bool
  lf_started :: bool
  lf_draining :: bool
  lf_servingCancelled :: bool
  lf_resolveCancelled :: bool
  lf_resolveWG :: nat
  lf_listenWG :: nat
  lf_streams :: nat
  lf_entries :: "bool list"
  lf_serve :: serve_pc
  lf_closer :: "nat \<Rightarrow> close_pc"

definition new_life :: life where
  "new_life = \<lparr>lf_closed = False, lf_closeDone = False, lf_started = False, lf_draining = False, lf_servingCancelled = False,
     lf_resolveCancelled = False, lf_resolveWG = 0, lf_listenWG = 0, lf_streams = 0, lf_entries = [], lf_serve = SIdle, lf_closer = (\<lambda>_. CIdle)\<rparr>"

subsection \<open>Actions\<close>

text \<open>
  One action of \<^verbatim>\<open>teardown\<close>; an entry of the list is whether that listener is open. The snapshot taken by
  \<^verbatim>\<open>closeTransports\<close> is the prefix of the entries that were there, since entries are only appended. \<^verbatim>\<open>Shutdown\<close> closes at once the listeners that
  are being served and then waits until no handler is left (or its grace is over, below); after it every listener is closed directly.
\<close>

definition listening :: "life \<Rightarrow> bool" where
  "listening st = (lf_serve st = SServing \<or> lf_serve st = SReturned RServed)"

definition close_listeners :: "nat \<Rightarrow> life \<Rightarrow> life" where
  "close_listeners n st = st\<lparr>lf_entries := replicate n False @ drop n (lf_entries st)\<rparr>"

fun teardown :: "tear_pc \<Rightarrow> life \<Rightarrow> (tear_pc \<times> life) option" where
  "teardown TRead st = Some (TServing (lf_started st), st)"
| "teardown (TServing b) st = Some (TEntries b, st\<lparr>lf_servingCancelled := (b \<or> lf_servingCancelled st)\<rparr>)"
| "teardown (TEntries b) st = Some (if lf_entries st = [] then TResolve b else TShutdown b (length (lf_entries st)), st)"
| "teardown (TShutdown b n) st = Some (TDrain b n, if listening st then close_listeners n st else st)"
| "teardown (TDrain b n) st = (if lf_streams st = 0 then Some (TListenWait b, close_listeners n st) else None)"
| "teardown (TListenWait b) st = (if lf_listenWG st = 0 then Some (TResolve b, st) else None)"
| "teardown (TResolve b) st = (if b then Some (TResolveWait, st\<lparr>lf_resolveCancelled := True\<rparr>) else Some (TDone, st))"
| "teardown TResolveWait st = (if lf_resolveWG st = 0 then Some (TDone, st) else None)"
| "teardown TDone st = None"

definition start_life :: "nat \<Rightarrow> life \<Rightarrow> life" where
  "start_life W st =
     (if lf_closed st then st\<lparr>lf_serve := SReturned RRefused\<rparr>
      else if lf_started st then st\<lparr>lf_serve := SReturned RRefused\<rparr>
      else st\<lparr>lf_started := True, lf_resolveWG := lf_resolveWG st + W, lf_serve := SBinding 0\<rparr>)"

definition beginListening :: "life \<Rightarrow> life" where
  "beginListening st =
     (if lf_closed st then st\<lparr>lf_serve := STear TRead\<rparr>
      else st\<lparr>lf_listenWG := lf_listenWG st + length (lf_entries st), lf_serve := SServing\<rparr>)"

definition Close_enter :: "nat \<Rightarrow> life \<Rightarrow> life" where
  "Close_enter c st =
     (if lf_closed st then st\<lparr>lf_closer := (lf_closer st)(c := CWait)\<rparr>
      else st\<lparr>lf_closed := True, lf_closer := (lf_closer st)(c := CDrain)\<rparr>)"

text \<open>
  The actions: those of the threads, the grace of a \<^verbatim>\<open>Close\<close> running out, goroutines and handlers that end because they were told to, and what happens by itself: an upstream or a listener that ends,
  a request that comes or is over, the end of the context given to \<^verbatim>\<open>Serve\<close>.
\<close>

datatype lact =
    ServeStep bool | CloseStep nat | GraceOver nat | WatchExit | ListenerExit | StreamExit
  | WatchEnd | ListenerFail nat | StreamOpen | StreamEnd | CtxDone

text \<open>What \<^verbatim>\<open>Serve\<close> does next. The flag is whether the call made there succeeds: a bind, or a listener that ended.\<close>

definition Serve_step :: "nat \<Rightarrow> nat \<Rightarrow> bool \<Rightarrow> life \<Rightarrow> life option" where
  "Serve_step W N ok st = (case lf_serve st of
     SIdle \<Rightarrow> Some (start_life W st)
   | SBinding k \<Rightarrow>
      if k < N then
        (if ok then Some (st\<lparr>lf_entries := lf_entries st @ [True], lf_serve := SBinding (Suc k)\<rparr>)
         else Some (st\<lparr>lf_serve := SReturned RBindFailed\<rparr>))
      else Some (beginListening st)
   | SServing \<Rightarrow> if lf_listenWG st = 0 \<or> \<not> ok \<and> lf_listenWG st < length (lf_entries st) then Some (st\<lparr>lf_serve := SReturned RServed\<rparr>) else None
   | STear t \<Rightarrow> if t = TDone then Some (st\<lparr>lf_serve := SReturned RClosed\<rparr>)
       else (case teardown t st of None \<Rightarrow> None | Some (t', st') \<Rightarrow> Some (st'\<lparr>lf_serve := STear t'\<rparr>))
   | SReturned _ \<Rightarrow> None)"

definition Close_step :: "nat \<Rightarrow> life \<Rightarrow> life option" where
  "Close_step c st = (case lf_closer st c of
     CIdle \<Rightarrow> Some (Close_enter c st)
   | CDrain \<Rightarrow> Some (st\<lparr>lf_draining := True, lf_closer := (lf_closer st)(c := CTear TRead)\<rparr>)
   | CTear t \<Rightarrow> if t = TDone then Some (st\<lparr>lf_closeDone := True, lf_closer := (lf_closer st)(c := CReturned)\<rparr>)
       else (case teardown t st of None \<Rightarrow> None | Some (t', st') \<Rightarrow> Some (st'\<lparr>lf_closer := (lf_closer st')(c := CTear t')\<rparr>))
   | CWait \<Rightarrow> if lf_closeDone st then Some (st\<lparr>lf_closer := (lf_closer st)(c := CReturned)\<rparr>) else None
   | CReturned \<Rightarrow> None)"

text \<open>The deadline that \<^verbatim>\<open>closeTransports\<close> gives \<^verbatim>\<open>Shutdown\<close> passes while a call of \<^verbatim>\<open>Close\<close> waits for the handlers.\<close>

definition grace_over :: "nat \<Rightarrow> life \<Rightarrow> life option" where
  "grace_over c st = (case lf_closer st c of
     CTear (TDrain b n) \<Rightarrow> Some ((close_listeners n st)\<lparr>lf_closer := (lf_closer st)(c := CTear (TListenWait b))\<rparr>)
   | _ \<Rightarrow> None)"

definition fire :: "nat \<Rightarrow> nat \<Rightarrow> lact \<Rightarrow> life \<Rightarrow> life option" where
  "fire W N a st = (case a of
     ServeStep ok \<Rightarrow> Serve_step W N ok st
   | CloseStep c \<Rightarrow> Close_step c st
   | GraceOver c \<Rightarrow> grace_over c st
   | WatchExit \<Rightarrow> if lf_resolveCancelled st \<and> lf_resolveWG st > 0 then Some (st\<lparr>lf_resolveWG := lf_resolveWG st - 1\<rparr>) else None
   | ListenerExit \<Rightarrow> if lf_listenWG st > count_list (lf_entries st) True then Some (st\<lparr>lf_listenWG := lf_listenWG st - 1\<rparr>) else None
   | StreamExit \<Rightarrow> if lf_servingCancelled st \<and> lf_streams st > 0 then Some (st\<lparr>lf_streams := lf_streams st - 1\<rparr>) else None
   | WatchEnd \<Rightarrow> if lf_resolveWG st > 0 then Some (st\<lparr>lf_resolveWG := lf_resolveWG st - 1\<rparr>) else None
   | ListenerFail k \<Rightarrow> if listening st \<and> lf_listenWG st > 0 \<and> k < length (lf_entries st) \<and> lf_entries st ! k
       then Some (st\<lparr>lf_entries := (lf_entries st)[k := False], lf_listenWG := lf_listenWG st - 1\<rparr>) else None
   | StreamOpen \<Rightarrow> if listening st \<and> True \<in> set (lf_entries st) then Some (st\<lparr>lf_streams := lf_streams st + 1\<rparr>) else None
   | StreamEnd \<Rightarrow> if lf_streams st > 0 then Some (st\<lparr>lf_streams := lf_streams st - 1\<rparr>) else None
   | CtxDone \<Rightarrow> if lf_started st then Some (st\<lparr>lf_servingCancelled := True, lf_resolveCancelled := True\<rparr>) else None)"

inductive lreach :: "nat \<Rightarrow> nat \<Rightarrow> life \<Rightarrow> life \<Rightarrow> bool" for W N s0 where
  init: "lreach W N s0 s0"
| step: "lreach W N s0 st \<Longrightarrow> fire W N a st = Some st' \<Longrightarrow> lreach W N s0 st'"

fun lrun :: "nat \<Rightarrow> nat \<Rightarrow> lact list \<Rightarrow> life \<Rightarrow> life option" where
  "lrun W N [] st = Some st"
| "lrun W N (a # as) st = (case fire W N a st of None \<Rightarrow> None | Some st' \<Rightarrow> lrun W N as st')"

lemma lrun_lreach: "lrun W N as st = Some st' \<Longrightarrow> lreach W N s0 st \<Longrightarrow> lreach W N s0 st'"
  by (induction as arbitrary: st) (auto intro: lreach.step split: option.splits)

subsection \<open>Once closed\<close>

definition all_closed :: "life \<Rightarrow> bool" where "all_closed st = list_all Not (lf_entries st)"

definition evolves :: "life \<Rightarrow> life \<Rightarrow> bool" where
  "evolves st st' = (lf_closed st' \<and> lf_started st' = lf_started st \<and> (lf_closeDone st \<longrightarrow> lf_closeDone st')
     \<and> (0 < lf_streams st' \<longrightarrow> 0 < lf_streams st \<or> lf_started st)
     \<and> (lf_servingCancelled st \<longrightarrow> lf_servingCancelled st') \<and> (lf_resolveCancelled st \<longrightarrow> lf_resolveCancelled st')
     \<and> lf_resolveWG st' \<le> lf_resolveWG st \<and> lf_listenWG st' \<le> lf_listenWG st
     \<and> length (lf_entries st) \<le> length (lf_entries st')
     \<and> (length (lf_entries st') = length (lf_entries st) \<longrightarrow> all_closed st \<longrightarrow> all_closed st')
     \<and> (listening st' \<longrightarrow> listening st \<and> length (lf_entries st') = length (lf_entries st)))"

text \<open>A snapshot never names more entries than there are.\<close>

fun tear_bounded :: "tear_pc \<Rightarrow> life \<Rightarrow> bool" where
  "tear_bounded (TShutdown b n) st = (n \<le> length (lf_entries st))"
| "tear_bounded (TDrain b n) st = (n \<le> length (lf_entries st))"
| "tear_bounded _ st = True"

lemma close_listeners_frame [simp]:
  "lf_serve (close_listeners n st) = lf_serve st" "lf_closer (close_listeners n st) = lf_closer st" "lf_closeDone (close_listeners n st) = lf_closeDone st"
  "lf_closed (close_listeners n st) = lf_closed st" "lf_started (close_listeners n st) = lf_started st" "lf_resolveWG (close_listeners n st) = lf_resolveWG st"
  "lf_listenWG (close_listeners n st) = lf_listenWG st" "lf_streams (close_listeners n st) = lf_streams st"
  "lf_servingCancelled (close_listeners n st) = lf_servingCancelled st" "lf_resolveCancelled (close_listeners n st) = lf_resolveCancelled st"
  "listening (close_listeners n st) = listening st"
  by (simp_all add: close_listeners_def listening_def)

lemma close_listeners_entries:
  assumes "n \<le> length (lf_entries st)"
  shows "length (lf_entries (close_listeners n st)) = length (lf_entries st)"
    and "all_closed st \<Longrightarrow> all_closed (close_listeners n st)"
  using assms by (auto simp: close_listeners_def all_closed_def list_all_iff dest: in_set_dropD)

lemma close_listeners_all: "n = length (lf_entries st) \<Longrightarrow> all_closed (close_listeners n st)"
  by (simp add: close_listeners_def all_closed_def list_all_iff)

lemma teardown_frame:
  assumes "teardown t st = Some (t', st')"
  shows "lf_serve st' = lf_serve st" "lf_closer st' = lf_closer st" "lf_closeDone st' = lf_closeDone st"
    "lf_closed st' = lf_closed st" "lf_started st' = lf_started st" "lf_resolveWG st' = lf_resolveWG st" "lf_listenWG st' = lf_listenWG st"
    "lf_streams st' = lf_streams st" "listening st' = listening st"
    "lf_servingCancelled st \<Longrightarrow> lf_servingCancelled st'" "lf_resolveCancelled st \<Longrightarrow> lf_resolveCancelled st'"
  using assms by (cases t; auto simp: listening_def split: if_splits)+

lemma teardown_entries:
  assumes "teardown t st = Some (t', st')" and "tear_bounded t st"
  shows "length (lf_entries st') = length (lf_entries st)" "all_closed st \<Longrightarrow> all_closed st'"
proof -
  consider "lf_entries st' = lf_entries st" | n where "st' = close_listeners n st" "n \<le> length (lf_entries st)"
    using assms by (cases t) (auto split: if_splits)
  then have "length (lf_entries st') = length (lf_entries st) \<and> (all_closed st \<longrightarrow> all_closed st')"
  proof cases
    case (2 n)
    then show ?thesis using close_listeners_entries [OF 2(2)] by simp
  qed (simp add: all_closed_def)
  then show "length (lf_entries st') = length (lf_entries st)" "all_closed st \<Longrightarrow> all_closed st'" by blast+
qed

lemma teardown_evolves:
  assumes "teardown t st = Some (t', st')" and "tear_bounded t st" and "lf_closed st"
  shows "evolves st st'"
  using teardown_frame [OF assms(1)] teardown_entries [OF assms(1,2)] assms(3) by (simp add: evolves_def)

lemma evolves_refl: "lf_closed st \<Longrightarrow> evolves st st"
  by (simp add: evolves_def)

lemma evolves_upd:
  assumes "evolves st st'"
  shows "evolves st (st'\<lparr>lf_closer := f\<rparr>)"
    and "(listening (st'\<lparr>lf_serve := x\<rparr>) \<longrightarrow> listening st') \<Longrightarrow> evolves st (st'\<lparr>lf_serve := x\<rparr>)"
proof -
  have "listening (st'\<lparr>lf_closer := f\<rparr>) = listening st'" "all_closed (st'\<lparr>lf_closer := f\<rparr>) = all_closed st'" "all_closed (st'\<lparr>lf_serve := x\<rparr>) = all_closed st'"
    by (simp_all add: listening_def all_closed_def)
  then show "evolves st (st'\<lparr>lf_closer := f\<rparr>)"
    and "(listening (st'\<lparr>lf_serve := x\<rparr>) \<longrightarrow> listening st') \<Longrightarrow> evolves st (st'\<lparr>lf_serve := x\<rparr>)"
    using assms by (simp_all add: evolves_def)
qed

subsection \<open>The invariant\<close>

text \<open>What a thread in \<^verbatim>\<open>teardown\<close> has achieved, where \<open>f\<close> says that its snapshot is of all the entries.\<close>

definition released :: "bool \<Rightarrow> life \<Rightarrow> bool" where
  "released f st = (f \<longrightarrow> all_closed st \<and> lf_listenWG st = 0)"

definition told :: "life \<Rightarrow> bool" where
  "told st = (lf_started st \<longrightarrow> lf_servingCancelled st)"

definition all_told :: "life \<Rightarrow> bool" where
  "all_told st = (lf_started st \<longrightarrow> lf_servingCancelled st \<and> lf_resolveCancelled st)"

fun tear_inv :: "bool \<Rightarrow> tear_pc \<Rightarrow> life \<Rightarrow> bool" where
  "tear_inv f TRead st = lf_closed st"
| "tear_inv f (TServing b) st = (lf_closed st \<and> b = lf_started st)"
| "tear_inv f (TEntries b) st = (lf_closed st \<and> b = lf_started st \<and> told st)"
| "tear_inv f (TShutdown b n) st = (lf_closed st \<and> b = lf_started st \<and> told st \<and> n \<le> length (lf_entries st) \<and> (f \<longrightarrow> n = length (lf_entries st)))"
| "tear_inv f (TDrain b n) st = (lf_closed st \<and> b = lf_started st \<and> told st \<and> n \<le> length (lf_entries st) \<and> (f \<longrightarrow> n = length (lf_entries st)))"
| "tear_inv f (TListenWait b) st = (lf_closed st \<and> b = lf_started st \<and> told st \<and> (f \<longrightarrow> all_closed st))"
| "tear_inv f (TResolve b) st = (lf_closed st \<and> b = lf_started st \<and> told st \<and> released f st)"
| "tear_inv f TResolveWait st = (lf_closed st \<and> lf_resolveCancelled st \<and> told st \<and> released f st)"
| "tear_inv f TDone st = (lf_closed st \<and> lf_resolveWG st = 0 \<and> all_told st \<and> released f st)"

lemma tear_inv_closed: "tear_inv f t st \<Longrightarrow> lf_closed st \<and> tear_bounded t st"
  by (cases t) auto

lemma tear_inv_mono:
  assumes "tear_inv f t st" and "evolves st st'" and "f' \<Longrightarrow> f \<and> length (lf_entries st') = length (lf_entries st)"
  shows "tear_inv f' t st'"
  using assms by (cases t) (auto simp: evolves_def released_def told_def all_told_def)

lemma tear_inv_step:
  assumes "tear_inv f t st" and "teardown t st = Some (t', st')"
    and "lf_listenWG st \<le> length (lf_entries st)" and "\<not> lf_started st \<Longrightarrow> lf_resolveWG st = 0"
  shows "tear_inv f t' st'"
  using assms close_listeners_entries close_listeners_all
  by (cases t) (auto simp: released_def all_closed_def told_def all_told_def split: if_splits)

lemma tear_inv_upd [simp]:
  "tear_inv f t (st\<lparr>lf_closer := g\<rparr>) = tear_inv f t st" "tear_inv f t (st\<lparr>lf_serve := x\<rparr>) = tear_inv f t st"
  "tear_inv f t (st\<lparr>lf_draining := d\<rparr>) = tear_inv f t st" "tear_inv f t (st\<lparr>lf_closeDone := d\<rparr>) = tear_inv f t st"
  by (cases t; simp add: released_def all_closed_def told_def all_told_def)+

definition fresh :: "life \<Rightarrow> bool" where
  "fresh st = (\<not> lf_started st \<and> lf_entries st = [] \<and> lf_listenWG st = 0 \<and> lf_resolveWG st = 0)"

fun serve_inv :: "nat \<Rightarrow> serve_pc \<Rightarrow> life \<Rightarrow> bool" where
  "serve_inv N SIdle st = fresh st"
| "serve_inv N (SBinding k) st = (lf_started st \<and> lf_listenWG st = 0 \<and> length (lf_entries st) = k \<and> k \<le> N)"
| "serve_inv N SServing st = lf_started st"
| "serve_inv N (STear t) st = (lf_started st \<and> lf_listenWG st = 0 \<and> tear_inv True t st)"
| "serve_inv N (SReturned r) st = (case r of RRefused \<Rightarrow> fresh st | RServed \<Rightarrow> lf_started st
     | RBindFailed \<Rightarrow> lf_started st \<and> lf_listenWG st = 0
     | RClosed \<Rightarrow> lf_started st \<and> lf_closed st \<and> lf_resolveWG st = 0 \<and> released True st)"

fun close_inv :: "close_pc \<Rightarrow> life \<Rightarrow> bool" where
  "close_inv CIdle st = True"
| "close_inv CDrain st = lf_closed st"
| "close_inv (CTear t) st = tear_inv (listening st) t st"
| "close_inv CWait st = lf_closed st"
| "close_inv CReturned st = lf_closeDone st"

definition life_inv :: "nat \<Rightarrow> life \<Rightarrow> bool" where
  "life_inv N st = (serve_inv N (lf_serve st) st \<and> (\<forall>c. close_inv (lf_closer st c) st)
     \<and> (lf_closeDone st \<longrightarrow> lf_closed st \<and> lf_resolveWG st = 0 \<and> all_told st \<and> released (listening st) st)
     \<and> lf_listenWG st \<le> length (lf_entries st) \<and> (0 < lf_streams st \<longrightarrow> lf_started st))"

lemma life_inv_idle: "life_inv N st \<Longrightarrow> \<not> lf_started st \<Longrightarrow> lf_resolveWG st = 0"
  by (cases "lf_serve st") (auto simp: life_inv_def fresh_def split: serve_result.splits)

lemma serve_inv_mono:
  assumes "serve_inv N pc st" and "evolves st st'" and "length (lf_entries st') = length (lf_entries st)"
  shows "serve_inv N pc st'"
  using assms tear_inv_mono [of True _ st st' True]
  by (cases pc) (auto simp: fresh_def evolves_def released_def split: serve_result.splits)

lemma close_inv_mono:
  assumes "close_inv pc st" and "evolves st st'"
  shows "close_inv pc st'"
  using assms tear_inv_mono [of "listening st" _ st st' "listening st'"]
  by (cases pc) (auto simp: evolves_def)

lemma close_inv_open: "close_inv pc st \<Longrightarrow> \<not> lf_closed st \<Longrightarrow> \<not> lf_closeDone st \<Longrightarrow> pc = CIdle"
  by (cases pc) (auto dest: tear_inv_closed)

lemma life_inv_evolves:
  assumes "life_inv N st" and "evolves st st'" and "serve_inv N (lf_serve st') st'"
    and "\<And>c. lf_closer st' c \<noteq> lf_closer st c \<Longrightarrow> close_inv (lf_closer st' c) st'"
    and "lf_closeDone st' \<Longrightarrow> lf_closeDone st \<or> lf_resolveWG st' = 0 \<and> all_told st' \<and> released (listening st') st'"
  shows "life_inv N st'"
proof -
  have "close_inv (lf_closer st' c) st'" for c
    using assms(1,2,4) close_inv_mono [of "lf_closer st c" st st'] by (cases "lf_closer st' c = lf_closer st c") (auto simp: life_inv_def)
  moreover have "lf_closed st' \<and> lf_resolveWG st' = 0 \<and> all_told st' \<and> released (listening st') st'" if "lf_closeDone st'"
    using assms(1,2) assms(5) [OF that] by (auto simp: life_inv_def evolves_def released_def all_told_def)
  ultimately show ?thesis using assms(1,2,3) by (auto simp: life_inv_def evolves_def)
qed

lemma life_inv_open:
  assumes "life_inv N st" and "\<not> lf_closed st"
  shows "lf_closer st = (\<lambda>_. CIdle)" and "\<not> lf_closeDone st" and "\<And>t. lf_serve st \<noteq> STear t"
proof -
  show "\<not> lf_closeDone st" using assms by (auto simp: life_inv_def)
  then show "lf_closer st = (\<lambda>_. CIdle)" using assms close_inv_open by (auto simp: life_inv_def)
  show "lf_serve st \<noteq> STear t" for t using assms tear_inv_closed by (auto simp: life_inv_def)
qed

text \<open>What happens outside the threads lowers counters, closes listeners, cancels, or brings a request.\<close>

lemma life_inv_outside:
  assumes "life_inv N st"
    and "lf_serve st' = lf_serve st" "lf_closer st' = lf_closer st" "lf_closeDone st' = lf_closeDone st" "lf_closed st' = lf_closed st" "lf_started st' = lf_started st"
    and "lf_resolveWG st' \<le> lf_resolveWG st" "lf_listenWG st' \<le> lf_listenWG st" "length (lf_entries st') = length (lf_entries st)" "all_closed st \<Longrightarrow> all_closed st'"
    and "lf_servingCancelled st \<Longrightarrow> lf_servingCancelled st'" "lf_resolveCancelled st \<Longrightarrow> lf_resolveCancelled st'"
    and "0 < lf_streams st' \<Longrightarrow> 0 < lf_streams st \<or> lf_started st"
  shows "life_inv N st'"
proof -
  have l: "listening st' = listening st" by (simp add: listening_def assms(2))
  show ?thesis
  proof (cases "lf_closed st")
    case True
    then have ev: "evolves st st'" using assms l by (auto simp: evolves_def)
    have "serve_inv N (lf_serve st') st'" using serve_inv_mono [OF _ ev assms(9)] assms(1,2) by (auto simp: life_inv_def)
    then show ?thesis using assms(3,4) by (intro life_inv_evolves [OF assms(1) ev]) auto
  next
    case False
    note op = life_inv_open [OF assms(1) this]
    have "serve_inv N (lf_serve st') st'"
      using assms op(3) by (cases "lf_serve st") (auto simp: life_inv_def fresh_def released_def all_closed_def split: serve_result.splits)
    then show ?thesis using assms op False by (auto simp: life_inv_def)
  qed
qed

lemma life_inv_closer:
  assumes "life_inv N st" and "evolves st st'" and "lf_serve st' = lf_serve st" and "length (lf_entries st') = length (lf_entries st)"
    and "lf_closer st' = (lf_closer st)(c := pc)" and "close_inv pc st'"
    and "lf_closeDone st' \<Longrightarrow> lf_closeDone st \<or> lf_resolveWG st' = 0 \<and> all_told st' \<and> released (listening st') st'"
  shows "life_inv N st'"
proof (rule life_inv_evolves [OF assms(1,2) _ _ assms(7)])
  show "serve_inv N (lf_serve st') st'" using assms(1,3) serve_inv_mono [OF _ assms(2,4)] by (auto simp: life_inv_def)
  show "close_inv (lf_closer st' d) st'" if "lf_closer st' d \<noteq> lf_closer st d" for d
    using that assms(5,6) by (auto split: if_splits)
qed

lemma life_inv_close:
  assumes "life_inv N st" and "Close_step c st = Some st'"
  shows "life_inv N st'"
proof -
  have here: "close_inv (lf_closer st c) st" and wg: "lf_listenWG st \<le> length (lf_entries st)" using assms(1) by (auto simp: life_inv_def)
  show ?thesis
  proof (cases "lf_closer st c")
    case CIdle
    then have st': "st' = Close_enter c st" using assms(2) by (simp add: Close_step_def)
    show ?thesis
      by (rule life_inv_closer [OF assms(1), where c = c and pc = "lf_closer st' c"])
        (auto simp: st' Close_enter_def evolves_def listening_def all_closed_def)
  next
    case CDrain
    then have "lf_closed st" and st': "st' = st\<lparr>lf_draining := True, lf_closer := (lf_closer st)(c := CTear TRead)\<rparr>"
      using here assms(2) by (auto simp: Close_step_def)
    then show ?thesis
      by (intro life_inv_closer [OF assms(1), where c = c and pc = "CTear TRead"]) (auto simp: evolves_def listening_def all_closed_def)
  next
    case (CTear t)
    then have inv: "tear_inv (listening st) t st" using here by simp
    show ?thesis
    proof (cases "t = TDone")
      case True
      then have st': "st' = st\<lparr>lf_closeDone := True, lf_closer := (lf_closer st)(c := CReturned)\<rparr>"
        using assms(2) CTear by (simp add: Close_step_def)
      show ?thesis using inv True
        by (intro life_inv_closer [OF assms(1), where c = c and pc = CReturned])
          (auto simp: st' evolves_def listening_def all_closed_def released_def all_told_def)
    next
      case False
      then obtain t' st1 where t': "teardown t st = Some (t', st1)" and st': "st' = st1\<lparr>lf_closer := (lf_closer st1)(c := CTear t')\<rparr>"
        using assms(2) CTear by (auto simp: Close_step_def split: option.splits)
      have b: "tear_bounded t st" "lf_closed st" using tear_inv_closed [OF inv] by auto
      note fr = teardown_frame [OF t'] teardown_entries(1) [OF t' b(1)]
      have "listening st' = listening st" using fr(1) by (simp add: st' listening_def)
      moreover have "tear_inv (listening st) t' st1" using tear_inv_step [OF inv t' wg] life_inv_idle [OF assms(1)] by blast
      ultimately show ?thesis
        using evolves_upd(1) [OF teardown_evolves [OF t' b], of "(lf_closer st1)(c := CTear t')"] fr
        by (intro life_inv_closer [OF assms(1), where c = c and pc = "CTear t'"]) (auto simp: st')
    qed
  next
    case CWait
    then have st': "st' = st\<lparr>lf_closer := (lf_closer st)(c := CReturned)\<rparr>" "lf_closeDone st" "lf_closed st"
      using assms(2) here by (auto simp: Close_step_def split: if_splits)
    then show ?thesis
      by (intro life_inv_closer [OF assms(1), where c = c and pc = CReturned]) (auto simp: evolves_def listening_def all_closed_def)
  qed (use assms(2) in \<open>simp add: Close_step_def\<close>)
qed

lemma life_inv_server:
  assumes "life_inv N st" and "lf_closed st \<Longrightarrow> evolves st st'" and "serve_inv N (lf_serve st') st'"
    and "lf_closer st' = lf_closer st" and "lf_closeDone st' = lf_closeDone st" and "lf_listenWG st' \<le> length (lf_entries st')"
    and "lf_streams st' = lf_streams st" and "lf_started st \<Longrightarrow> lf_started st'"
  shows "life_inv N st'"
proof (cases "lf_closed st")
  case True
  show ?thesis using life_inv_evolves [OF assms(1) assms(2) [OF True] assms(3)] assms(4,5) by simp
next
  case False
  then show ?thesis using life_inv_open [OF assms(1) False] assms(1,3-8) by (auto simp: life_inv_def)
qed

lemma life_inv_serve:
  assumes "life_inv N st" and "Serve_step W N ok st = Some st'"
  shows "life_inv N st'"
proof -
  have here: "serve_inv N (lf_serve st) st" and wg: "lf_listenWG st \<le> length (lf_entries st)" using assms(1) by (auto simp: life_inv_def)
  show ?thesis
  proof (cases "lf_serve st")
    case SIdle
    then have "st' = start_life W st" "fresh st" using assms(2) here by (auto simp: Serve_step_def)
    then show ?thesis
      by (intro life_inv_server [OF assms(1)]) (auto simp: start_life_def fresh_def evolves_def listening_def all_closed_def)
  next
    case (SBinding k)
    then have k: "lf_started st" "lf_listenWG st = 0" "length (lf_entries st) = k" "k \<le> N" using here by auto
    consider "k < N" "st' = st\<lparr>lf_entries := lf_entries st @ [True], lf_serve := SBinding (Suc k)\<rparr>"
      | "st' = st\<lparr>lf_serve := SReturned RBindFailed\<rparr>" | "k = N" "st' = beginListening st"
      using assms(2) SBinding k(4) by (cases "k < N"; cases ok) (simp_all add: Serve_step_def)
    then show ?thesis
    proof cases
      case 1
      show ?thesis using k 1 SBinding
        by (intro life_inv_server [OF assms(1)]) (auto simp: evolves_def listening_def all_closed_def)
    next
      case 2
      show ?thesis using k 2 SBinding
        by (intro life_inv_server [OF assms(1)]) (auto simp: evolves_def listening_def all_closed_def)
    next
      case 3
      show ?thesis using k 3 SBinding
        by (intro life_inv_server [OF assms(1)]) (auto simp: evolves_def listening_def all_closed_def beginListening_def)
    qed
  next
    case SServing
    then have "st' = st\<lparr>lf_serve := SReturned RServed\<rparr>" using assms(2) by (auto simp: Serve_step_def split: if_splits)
    then show ?thesis using SServing here wg
      by (intro life_inv_server [OF assms(1)]) (auto simp: evolves_def listening_def all_closed_def)
  next
    case (STear t)
    then have inv: "tear_inv True t st" "lf_started st" "lf_listenWG st = 0" using here by auto
    have b: "tear_bounded t st" "lf_closed st" using tear_inv_closed [OF inv(1)] by auto
    show ?thesis
    proof (cases "t = TDone")
      case True
      then have "st' = st\<lparr>lf_serve := SReturned RClosed\<rparr>" using assms(2) STear by (simp add: Serve_step_def)
      then show ?thesis using inv True
        by (intro life_inv_server [OF assms(1)]) (auto simp: evolves_def listening_def all_closed_def released_def)
    next
      case False
      then obtain t' st1 where t': "teardown t st = Some (t', st1)" and st': "st' = st1\<lparr>lf_serve := STear t'\<rparr>"
        using assms(2) STear by (auto simp: Serve_step_def split: option.splits)
      note fr = teardown_frame [OF t']
      have "tear_inv True t' st1" using tear_inv_step [OF inv(1) t' wg] inv(2) by blast
      moreover have "evolves st st'" unfolding st' by (rule evolves_upd(2) [OF teardown_evolves [OF t' b]]) (simp add: listening_def)
      ultimately show ?thesis using fr inv by (intro life_inv_server [OF assms(1)]) (auto simp: st')
    qed
  qed (use assms(2) in \<open>simp add: Serve_step_def\<close>)
qed

lemma grace_frame:
  assumes "grace_over c st = Some st'"
  shows "lf_serve st' = lf_serve st" "lf_closeDone st' = lf_closeDone st" "lf_closed st' = lf_closed st" "lf_started st' = lf_started st"
    "lf_resolveWG st' = lf_resolveWG st" "lf_listenWG st' = lf_listenWG st" "\<exists>t. lf_closer st c = CTear t" "\<exists>t. lf_closer st' = (lf_closer st)(c := CTear t)"
  using assms by (auto simp: grace_over_def split: close_pc.splits tear_pc.splits)

lemma life_inv_grace:
  assumes "life_inv N st" and "grace_over c st = Some st'"
  shows "life_inv N st'"
proof -
  obtain b n where t: "lf_closer st c = CTear (TDrain b n)"
    and st': "st' = (close_listeners n st)\<lparr>lf_closer := (lf_closer st)(c := CTear (TListenWait b))\<rparr>"
    using assms(2) by (auto simp: grace_over_def split: close_pc.splits tear_pc.splits)
  have "close_inv (lf_closer st c) st" using assms(1) by (simp add: life_inv_def)
  then have inv: "tear_inv (listening st) (TDrain b n) st" by (simp only: t close_inv.simps)
  then have n: "n \<le> length (lf_entries st)" by simp
  note e = close_listeners_entries [OF n]
  have ev: "evolves st (close_listeners n st)" using inv e by (auto simp: evolves_def)
  have "tear_inv (listening st) (TListenWait b) (close_listeners n st)"
    using inv close_listeners_all by (auto simp: told_def)
  then show ?thesis using evolves_upd(1) [OF ev] e(1)
    by (intro life_inv_closer [OF assms(1), where c = c and pc = "CTear (TListenWait b)"]) (auto simp: st' listening_def)
qed

lemma life_inv_fire:
  assumes "life_inv N st" and "fire W N a st = Some st'"
  shows "life_inv N st'"
proof (cases a)
  case (ServeStep ok)
  then show ?thesis using assms(2) life_inv_serve [OF assms(1)] by (simp add: fire_def)
next
  case (CloseStep c)
  then show ?thesis using assms(2) life_inv_close [OF assms(1)] by (simp add: fire_def)
next
  case (GraceOver c)
  then show ?thesis using assms(2) life_inv_grace [OF assms(1)] by (simp add: fire_def)
next
  case (ListenerFail k)
  then have "st' = st\<lparr>lf_entries := (lf_entries st)[k := False], lf_listenWG := lf_listenWG st - 1\<rparr>" using assms(2) by (simp add: fire_def split: if_splits)
  then show ?thesis
    by (intro life_inv_outside [OF assms(1)]) (auto simp: all_closed_def list_all_iff dest!: set_update_subset_insert [THEN subsetD])
next
  case StreamOpen
  then have "st' = st\<lparr>lf_streams := lf_streams st + 1\<rparr>" "listening st" using assms(2) by (auto simp: fire_def split: if_splits)
  moreover have "lf_started st" using assms(1) calculation(2) by (auto simp: life_inv_def listening_def)
  ultimately show ?thesis by (intro life_inv_outside [OF assms(1)]) (auto simp: all_closed_def)
qed (use assms(2) in \<open>auto simp: fire_def all_closed_def split: if_splits intro!: life_inv_outside [OF assms(1)]\<close>)

lemma life_inv_init: "life_inv N new_life"
  by (simp add: life_inv_def new_life_def fresh_def)

lemma life_inv_reach: "lreach W N new_life st \<Longrightarrow> life_inv N st"
  by (induction rule: lreach.induct) (auto intro: life_inv_init life_inv_fire)

subsection \<open>What closing promises\<close>

definition tearing :: "life \<Rightarrow> bool" where
  "tearing st = ((\<exists>t. lf_serve st = STear t) \<or> (\<exists>c t. lf_closer st c = CTear t))"

text \<open>
  A wait group is never added to while somebody may be waiting on it: in every reachable state in which
  some thread is in its teardown, the server is closed, and no action of any thread raises the count of
  watches or of listeners, however \<^verbatim>\<open>Serve\<close> and any number of \<^verbatim>\<open>Close\<close> calls interleave.\<close>

lemma waitgroups_sound:
  assumes "lreach W N new_life st" and "tearing st" and "fire W N a st = Some st'"
  shows "lf_closed st \<and> lf_resolveWG st' \<le> lf_resolveWG st \<and> lf_listenWG st' \<le> lf_listenWG st"
proof -
  have inv: "life_inv N st" by (rule life_inv_reach [OF assms(1)])
  then have closed: "lf_closed st"
    using assms(2) tear_inv_closed unfolding tearing_def life_inv_def by (metis close_inv.simps(3) serve_inv.simps(4))
  have "lf_resolveWG st' \<le> lf_resolveWG st \<and> lf_listenWG st' \<le> lf_listenWG st"
  proof (cases a)
    case (ServeStep ok)
    then show ?thesis using assms(3) closed teardown_frame
      by (fastforce simp: fire_def Serve_step_def start_life_def beginListening_def split: serve_pc.splits if_splits option.splits)
  next
    case (CloseStep c)
    then show ?thesis using assms(3) teardown_frame
      by (fastforce simp: fire_def Close_step_def Close_enter_def split: close_pc.splits if_splits option.splits)
  next
    case (GraceOver c)
    then show ?thesis using assms(3) grace_frame [of c st st'] by (simp add: fire_def)
  qed (use assms(3) in \<open>auto simp: fire_def split: if_splits\<close>)
  with closed show ?thesis by blast
qed

definition leak_script :: "lact list" where
  "leak_script = ServeStep True # replicate 6 (CloseStep 0) @ [WatchExit, CloseStep 0, CloseStep 0, ServeStep True, ServeStep False]"

definition quiet_script :: "lact list" where
  "quiet_script = replicate 4 (ServeStep True) @ [StreamOpen] @ replicate 6 (CloseStep 0) @ [StreamExit, CloseStep 0, ListenerExit, ListenerExit, CloseStep 0, CloseStep 0, WatchExit, CloseStep 0, CloseStep 0, ServeStep True]"

lemma script_reach: "lrun W N as new_life \<noteq> None \<Longrightarrow> lreach W N new_life (the (lrun W N as new_life))"
  using lrun_lreach [OF _ lreach.init, of W N as new_life] by auto

lemma waitgroups_sound_witness:
  "lf_closed (the (lrun 1 2 (take 13 quiet_script) new_life))
   \<and> lf_listenWG (the (fire 1 2 ListenerExit (the (lrun 1 2 (take 13 quiet_script) new_life)))) \<le> 2"
proof -
  let ?st = "the (lrun 1 2 (take 13 quiet_script) new_life)"
  have "lrun 1 2 (take 13 quiet_script) new_life \<noteq> None" by code_simp
  then have reach: "lreach 1 2 new_life ?st" by (rule script_reach)
  have "lf_closer ?st 0 = CTear (TListenWait True)" by code_simp
  then have tear: "tearing ?st" unfolding tearing_def by blast
  have "fire 1 2 ListenerExit ?st \<noteq> None" "lf_listenWG ?st = 2" by code_simp+
  then show ?thesis using waitgroups_sound [OF reach tear, of ListenerExit "the (fire 1 2 ListenerExit ?st)"] by auto
qed



definition stranded :: "life \<Rightarrow> bool" where
  "stranded st = (lf_closed st \<and> lf_serve st = SReturned RBindFailed \<and> True \<in> set (lf_entries st)
     \<and> (\<forall>c. lf_closer st c = CIdle \<or> lf_closer st c = CWait \<or> lf_closer st c = CReturned))"

lemma stranded_fire:
  assumes "stranded st" and "fire W N a st = Some st'"
  shows "stranded st'"
proof (cases a)
  case (ServeStep ok)
  then show ?thesis using assms by (simp add: stranded_def fire_def Serve_step_def)
next
  case (CloseStep c)
  moreover have "lf_closer st c = CIdle \<or> lf_closer st c = CWait \<or> lf_closer st c = CReturned" using assms(1) by (simp add: stranded_def)
  ultimately show ?thesis using assms
    by (elim disjE) (auto simp: stranded_def fire_def Close_step_def Close_enter_def split: if_splits)
next
  case (GraceOver c)
  then obtain t where "lf_closer st c = CTear t" using assms(2) grace_frame(7) [of c st st'] by (auto simp: fire_def)
  moreover have "lf_closer st c = CIdle \<or> lf_closer st c = CWait \<or> lf_closer st c = CReturned" using assms(1) by (simp add: stranded_def)
  ultimately show ?thesis by auto
next
  case (ListenerFail k)
  then show ?thesis using assms by (simp add: stranded_def fire_def listening_def)
qed (use assms in \<open>auto simp: stranded_def fire_def split: if_splits\<close>)

lemma stranded_run: "stranded st \<Longrightarrow> lrun W N as st = Some st' \<Longrightarrow> stranded st'"
  by (induction as arbitrary: st) (auto dest: stranded_fire split: option.splits)

lemma other_closer:
  assumes "fire W N a st = Some st'" and "a \<noteq> CloseStep c" and "a \<noteq> GraceOver c"
  shows "lf_closer st' c = lf_closer st c"
proof (cases a)
  case (ServeStep ok)
  then show ?thesis using assms(1) teardown_frame(2)
    by (fastforce simp: fire_def Serve_step_def start_life_def beginListening_def split: serve_pc.splits if_splits option.splits)
next
  case (CloseStep d)
  then show ?thesis using assms teardown_frame(2)
    by (fastforce simp: fire_def Close_step_def Close_enter_def split: close_pc.splits if_splits option.splits)
next
  case (GraceOver d)
  then show ?thesis using assms grace_frame(8) [of d st st'] by (auto simp: fire_def)
qed (use assms in \<open>auto simp: fire_def split: if_splits\<close>)

lemma other_closer_run:
  "lrun W N as st = Some st' \<Longrightarrow> CloseStep c \<notin> set as \<Longrightarrow> GraceOver c \<notin> set as \<Longrightarrow> lf_closer st' c = lf_closer st c"
proof (induction as arbitrary: st)
  case (Cons a as)
  then obtain st1 where "fire W N a st = Some st1" "lrun W N as st1 = Some st'" by (auto split: option.splits)
  then show ?case using Cons other_closer [of W N a st st1 c] by auto
qed simp

text \<open>
  A bind that fails after a \<^verbatim>\<open>Close\<close> has gone by leaks what \<^verbatim>\<open>Serve\<close> bound in between: some interleaving of the two
  ends with \<^verbatim>\<open>Close\<close> returned, \<^verbatim>\<open>Serve\<close> returned with the error of a bind, and a listener open, and whatever is
  done afterwards, further calls of \<^verbatim>\<open>Close\<close> included, it stays open.\<close>

lemma bind_failure_strands:
  "case lrun 1 2 leak_script new_life of
     None \<Rightarrow> False
   | Some st \<Rightarrow> lf_closer st 0 = CReturned \<and> lf_serve st = SReturned RBindFailed \<and> lf_entries st = [True]
       \<and> (\<forall>as. case lrun 1 2 as st of None \<Rightarrow> True | Some st' \<Rightarrow> True \<in> set (lf_entries st'))"
proof -
  have some: "lrun 1 2 leak_script new_life \<noteq> None" by code_simp
  then obtain st where st: "lrun 1 2 leak_script new_life = Some st" by blast
  let ?st = "the (lrun 1 2 leak_script new_life)"
  have facts: "lf_closer ?st 0 = CReturned" "lf_serve ?st = SReturned RBindFailed" "lf_entries ?st = [True]" "lf_closed ?st" by code_simp+
  have "lf_closer st c = CIdle \<or> lf_closer st c = CReturned" for c
    using other_closer_run [OF st, of c] facts(1) unfolding st by (cases "c = 0") (auto simp: leak_script_def new_life_def)
  then have "stranded st" using facts unfolding stranded_def st by auto
  then have "True \<in> set (lf_entries st')" if "lrun 1 2 as st = Some st'" for as st'
    using stranded_run [OF _ that] by (simp add: stranded_def)
  then show ?thesis using st facts by (simp split: option.split)
qed

subsection \<open>Closing returns\<close>

text \<open>
  Schedules of calls of \<^verbatim>\<open>Close\<close>, and of goroutines that end because they were told to. The handlers either heed their context (\<open>h\<close>), or they never end and the grace runs out.
\<close>

definition told_act :: "bool \<Rightarrow> lact \<Rightarrow> bool" where
  "told_act h a = (case a of CloseStep _ \<Rightarrow> True | WatchExit \<Rightarrow> True | ListenerExit \<Rightarrow> True | StreamExit \<Rightarrow> h | GraceOver _ \<Rightarrow> \<not> h | _ \<Rightarrow> False)"

text \<open>Those of the call \<open>c\<close> alone.\<close>

definition own_act :: "bool \<Rightarrow> nat \<Rightarrow> lact \<Rightarrow> bool" where
  "own_act h c a = (told_act h a \<and> (\<forall>d. a = CloseStep d \<or> a = GraceOver d \<longrightarrow> d = c))"

lemma lrun_append: "lrun W N (as @ bs) st = (case lrun W N as st of None \<Rightarrow> None | Some st' \<Rightarrow> lrun W N bs st')"
  by (induction as arbitrary: st) (auto split: option.splits)

text \<open>Some schedule takes the call \<open>c\<close> to its end.\<close>

definition can_return :: "bool \<Rightarrow> nat \<Rightarrow> nat \<Rightarrow> nat \<Rightarrow> life \<Rightarrow> bool" where
  "can_return h W N c st = (\<exists>as st'. list_all (own_act h c) as \<and> lrun W N as st = Some st' \<and> lf_closer st' c = CReturned \<and> lf_closeDone st')"

lemma can_return_fire:
  assumes "life_inv N st" "fire W N a st = Some st1" "own_act h c a" "life_inv N st1 \<Longrightarrow> can_return h W N c st1"
  shows "can_return h W N c st"
proof -
  obtain bs st' where "list_all (own_act h c) bs" "lrun W N bs st1 = Some st'" "lf_closer st' c = CReturned" "lf_closeDone st'"
    using assms(4) life_inv_fire [OF assms(1,2)] by (auto simp: can_return_def)
  then show ?thesis using assms(2,3) unfolding can_return_def
    by (intro exI [of _ "a # bs"] exI [of _ st']) simp
qed

lemma can_return_step:
  "life_inv N st \<Longrightarrow> Close_step c st = Some st1 \<Longrightarrow> (life_inv N st1 \<Longrightarrow> can_return h W N c st1) \<Longrightarrow> can_return h W N c st"
  by (rule can_return_fire [where a = "CloseStep c"]) (simp_all add: fire_def own_act_def told_act_def)

lemma can_return_done: "lf_closer st c = CTear TDone \<Longrightarrow> can_return h W N c st"
  unfolding can_return_def
  by (rule exI [of _ "[CloseStep c]"]) (simp add: fire_def Close_step_def own_act_def told_act_def)

lemma can_return_tear:
  assumes "life_inv N st" "lf_closer st c = CTear t" and "teardown t st = Some (t', st1)"
    and "\<And>st2. life_inv N st2 \<Longrightarrow> lf_closer st2 c = CTear t' \<Longrightarrow> can_return h W N c st2"
  shows "can_return h W N c st"
proof -
  have "t \<noteq> TDone" using assms(3) by auto
  then have "Close_step c st = Some (st1\<lparr>lf_closer := (lf_closer st1)(c := CTear t')\<rparr>)" using assms(2,3) by (simp add: Close_step_def)
  then show ?thesis by (rule can_return_step [OF assms(1)]) (rule assms(4), simp_all)
qed

lemma tear_place: "life_inv N st \<Longrightarrow> lf_closer st c = CTear t \<Longrightarrow> tear_inv (listening st) t st"
  unfolding life_inv_def by (metis close_inv.simps(3))

lemma can_return_resolve_wait:
  "life_inv N st \<Longrightarrow> lf_closer st c = CTear TResolveWait \<Longrightarrow> can_return h W N c st"
proof (induction "lf_resolveWG st" arbitrary: st)
  case 0
  show ?case by (rule can_return_tear [OF 0(2,3), where t' = TDone]) (use 0(1) in \<open>auto intro: can_return_done\<close>)
next
  case (Suc n)
  have "lf_resolveCancelled st" using tear_place [OF Suc.prems] by simp
  then have "fire W N WatchExit st = Some (st\<lparr>lf_resolveWG := n\<rparr>)" by (simp add: fire_def flip: Suc.hyps(2))
  then show ?case using Suc.hyps(1) [of "st\<lparr>lf_resolveWG := n\<rparr>"] Suc.prems
    by (intro can_return_fire [OF Suc.prems(1), where a = WatchExit]) (simp_all add: own_act_def told_act_def)
qed

lemma can_return_resolve:
  assumes "life_inv N st" "lf_closer st c = CTear (TResolve b)"
  shows "can_return h W N c st"
proof (cases b)
  case True
  show ?thesis by (rule can_return_tear [OF assms, where t' = TResolveWait]) (auto simp: True intro: can_return_resolve_wait)
next
  case False
  show ?thesis by (rule can_return_tear [OF assms, where t' = TDone]) (auto simp: False intro: can_return_done)
qed

lemma counted_listening: "life_inv N st \<Longrightarrow> 0 < lf_listenWG st \<Longrightarrow> listening st"
  by (cases "lf_serve st") (auto simp: life_inv_def fresh_def listening_def released_def split: serve_result.splits)

lemma can_return_listen_wait:
  "life_inv N st \<Longrightarrow> lf_closer st c = CTear (TListenWait b) \<Longrightarrow> can_return h W N c st"
proof (induction "lf_listenWG st" arbitrary: st)
  case 0
  show ?case by (rule can_return_tear [OF 0(2,3), where t' = "TResolve b"]) (use 0(1) in \<open>auto intro: can_return_resolve\<close>)
next
  case (Suc n)
  have "all_closed st" using tear_place [OF Suc.prems] counted_listening [OF Suc.prems(1)] Suc.hyps(2) by simp
  then have "count_list (lf_entries st) True = 0" by (auto simp: all_closed_def list_all_iff count_list_0_iff)
  then have "fire W N ListenerExit st = Some (st\<lparr>lf_listenWG := n\<rparr>)" by (simp add: fire_def flip: Suc.hyps(2))
  then show ?case using Suc.hyps(1) [of "st\<lparr>lf_listenWG := n\<rparr>"] Suc.prems
    by (intro can_return_fire [OF Suc.prems(1), where a = ListenerExit]) (simp_all add: own_act_def told_act_def)
qed

lemma can_return_drained:
  "life_inv N st \<Longrightarrow> lf_closer st c = CTear (TDrain b n) \<Longrightarrow> can_return True W N c st"
proof (induction "lf_streams st" arbitrary: st)
  case 0
  show ?case by (rule can_return_tear [OF 0(2,3), where t' = "TListenWait b"]) (use 0(1) in \<open>auto intro: can_return_listen_wait\<close>)
next
  case (Suc m)
  have "lf_started st" using Suc.prems(1) Suc.hyps(2) by (simp add: life_inv_def)
  then have "lf_servingCancelled st" using tear_place [OF Suc.prems] by (simp add: told_def)
  then have "fire W N StreamExit st = Some (st\<lparr>lf_streams := m\<rparr>)" by (simp add: fire_def flip: Suc.hyps(2))
  then show ?case using Suc.hyps(1) [of "st\<lparr>lf_streams := m\<rparr>"] Suc.prems
    by (intro can_return_fire [OF Suc.prems(1), where a = StreamExit]) (simp_all add: own_act_def told_act_def)
qed

lemma can_return_grace:
  assumes "life_inv N st" "lf_closer st c = CTear (TDrain b n)"
  shows "can_return False W N c st"
  by (rule can_return_fire [OF assms(1), where a = "GraceOver c"])
    (auto simp: fire_def grace_over_def assms(2) own_act_def told_act_def intro!: can_return_listen_wait)

lemma can_return_drain_wait:
  "life_inv N st \<Longrightarrow> lf_closer st c = CTear (TDrain b n) \<Longrightarrow> can_return h W N c st"
  using can_return_drained can_return_grace by (cases h) auto

lemma can_return_shutdown:
  assumes "life_inv N st" "lf_closer st c = CTear (TShutdown b n)"
  shows "can_return h W N c st"
  by (rule can_return_tear [OF assms teardown.simps(4)]) (rule can_return_drain_wait)

lemma can_return_entries:
  assumes "life_inv N st" "lf_closer st c = CTear (TEntries b)"
  shows "can_return h W N c st"
  by (rule can_return_tear [OF assms teardown.simps(3)])
    (auto intro: can_return_resolve can_return_shutdown split: if_splits)

lemma can_return_tearing:
  assumes "life_inv N st" "lf_closer st c = CTear t"
  shows "can_return h W N c st"
proof -
  have serving: "can_return h W N c st" if "life_inv N st" "lf_closer st c = CTear (TServing b)" for st b
    by (rule can_return_tear [OF that teardown.simps(2)]) (rule can_return_entries)
  have read: "can_return h W N c st" if "life_inv N st" "lf_closer st c = CTear TRead" for st
    by (rule can_return_tear [OF that teardown.simps(1)]) (rule serving)
  show ?thesis using assms serving read
    by (cases t) (auto intro: can_return_entries can_return_shutdown can_return_drain_wait can_return_listen_wait can_return_resolve can_return_resolve_wait can_return_done)
qed

lemma can_return_drain:
  assumes "life_inv N st" "lf_closer st c = CDrain"
  shows "can_return h W N c st"
  by (rule can_return_step [OF assms(1), of c "st\<lparr>lf_draining := True, lf_closer := (lf_closer st)(c := CTear TRead)\<rparr>"])
    (auto simp: Close_step_def assms(2) intro: can_return_tearing)

text \<open>While a server is closing, some call of \<^verbatim>\<open>Close\<close> is at it.\<close>

definition has_winner :: "life \<Rightarrow> bool" where
  "has_winner st = (\<not> lf_closed st \<or> lf_closeDone st \<or> (\<exists>c. lf_closer st c = CDrain \<or> (\<exists>t. lf_closer st c = CTear t)))"

lemma has_winner_upd:
  assumes "has_winner st" and "lf_closer st d \<noteq> CDrain" and "\<And>t. lf_closer st d \<noteq> CTear t"
  shows "has_winner (st\<lparr>lf_closer := (lf_closer st)(d := pc)\<rparr>)"
proof -
  consider "\<not> lf_closed st \<or> lf_closeDone st" | c where "lf_closer st c = CDrain \<or> (\<exists>t. lf_closer st c = CTear t)"
    using assms(1) unfolding has_winner_def by blast
  then show ?thesis
  proof cases
    case (2 c)
    then have "((lf_closer st)(d := pc)) c = lf_closer st c" using assms(2,3) by auto
    then show ?thesis using 2 unfolding has_winner_def by (metis life.select_convs(12) life.update_convs(12) life.surjective)
  qed (auto simp: has_winner_def)
qed

lemma Close_step_winner:
  assumes "Close_step d st = Some st'" and "has_winner st"
  shows "has_winner st'"
proof (cases "lf_closer st d")
  case CIdle
  show ?thesis
  proof (cases "lf_closed st")
    case True
    then show ?thesis using assms has_winner_upd [of st d CWait] CIdle by (simp add: Close_step_def Close_enter_def)
  next
    case False
    then have "st' = st\<lparr>lf_closed := True, lf_closer := (lf_closer st)(d := CDrain)\<rparr>" using assms(1) CIdle by (simp add: Close_step_def Close_enter_def)
    then show ?thesis by (auto simp: has_winner_def)
  qed
next
  case CDrain
  then have "st' = st\<lparr>lf_draining := True, lf_closer := (lf_closer st)(d := CTear TRead)\<rparr>" using assms(1) by (simp add: Close_step_def)
  then show ?thesis by (auto simp: has_winner_def)
next
  case (CTear t)
  show ?thesis
  proof (cases "t = TDone")
    case False
    then obtain t' st1 where "st' = st1\<lparr>lf_closer := (lf_closer st1)(d := CTear t')\<rparr>"
      using assms(1) CTear by (auto simp: Close_step_def split: option.splits)
    then show ?thesis by (auto simp: has_winner_def)
  qed (use assms(1) CTear in \<open>auto simp: Close_step_def has_winner_def\<close>)
qed (use assms in \<open>auto simp: Close_step_def has_winner_def split: if_splits\<close>)

lemma Serve_step_frame: "Serve_step W N ok st = Some st' \<Longrightarrow> lf_closed st' = lf_closed st \<and> lf_closeDone st' = lf_closeDone st \<and> lf_closer st' = lf_closer st"
  using teardown_frame
  by (fastforce simp: Serve_step_def start_life_def beginListening_def split: serve_pc.splits if_splits option.splits)

lemma has_winner_reach: "lreach W N new_life st \<Longrightarrow> has_winner st"
proof (induction rule: lreach.induct)
  case init
  show ?case by (simp add: has_winner_def new_life_def)
next
  case (step st a st')
  show ?case
  proof (cases a)
    case (ServeStep ok)
    then show ?thesis using step Serve_step_frame [of W N ok st st'] by (simp add: fire_def has_winner_def)
  next
    case (CloseStep d)
    then show ?thesis using step Close_step_winner [of d st st'] by (simp add: fire_def)
  next
    case (GraceOver d)
    then obtain t where "lf_closer st' = (lf_closer st)(d := CTear t)" using step.hyps grace_frame(8) [of d st st'] by (auto simp: fire_def)
    then have "lf_closer st' d = CTear t" by simp
    then show ?thesis unfolding has_winner_def by blast
  qed (use step in \<open>auto simp: fire_def has_winner_def split: if_splits\<close>)
qed

lemma own_told: "list_all (own_act h c) as \<Longrightarrow> list_all (told_act h) as"
  by (auto simp: list_all_iff own_act_def)

lemma waiting_returns:
  assumes "life_inv N st" "has_winner st" and "lf_closed st" and "lf_closer st c = CWait"
  obtains as st' where "lrun W N as st = Some st'" "lf_closer st' c = CReturned" "list_all (told_act h) as"
proof -
  have last: "Close_step c st1 = Some (st1\<lparr>lf_closer := (lf_closer st1)(c := CReturned)\<rparr>)"
    if "lf_closeDone st1" "lf_closer st1 c = CWait" for st1 using that by (simp add: Close_step_def)
  show thesis
  proof (cases "lf_closeDone st")
    case True
    show thesis
      by (rule that [of "[CloseStep c]" "st\<lparr>lf_closer := (lf_closer st)(c := CReturned)\<rparr>"])
        (simp_all add: fire_def last [OF True assms(4)] told_act_def)
  next
    case False
    then obtain w where w: "lf_closer st w = CDrain \<or> (\<exists>t. lf_closer st w = CTear t)" using assms(2,3) by (auto simp: has_winner_def)
    then have "can_return h W N w st" using can_return_drain [OF assms(1)] can_return_tearing [OF assms(1)] by blast
    then obtain as st1 where as: "list_all (own_act h w) as" "lrun W N as st = Some st1" "lf_closeDone st1" by (auto simp: can_return_def)
    have "c \<noteq> w" using w assms(4) by auto
    then have "lf_closer st1 c = CWait" using as(1) assms(4) other_closer_run [OF as(2), of c] by (auto simp: own_act_def list_all_iff)
    from last [OF as(3) this] show thesis using own_told [OF as(1)]
      by (intro that [of "as @ [CloseStep c]" "st1\<lparr>lf_closer := (lf_closer st1)(c := CReturned)\<rparr>"])
        (use as(2) in \<open>auto simp: lrun_append fire_def told_act_def\<close>)
  qed
qed

text \<open>
  C16. \<^verbatim>\<open>Close\<close> cannot get stuck: from every reachable state, whatever \<^verbatim>\<open>Serve\<close> is doing and however many calls are under way,
  every call of \<^verbatim>\<open>Close\<close> can be brought to its return by its own steps, those of the call that does the work, and goroutines that end only because the server told them to: a watch
  goroutine after its context was cancelled, a listener's after its listener was closed. The handlers in flight either end on the cancelled serving context, and then the grace of the shutdown is not needed, or they never
  end, and then its running out is. No step of \<^verbatim>\<open>Serve\<close>, of a client or of an upstream is needed.\<close>

theorem Close_returns:
  assumes "lreach W N new_life st"
  shows "\<exists>as st'. list_all (told_act h) as \<and> lrun W N as st = Some st' \<and> lf_closer st' c = CReturned"
proof -
  have inv: "life_inv N st" "has_winner st" using life_inv_reach [OF assms] has_winner_reach [OF assms] by auto
  have here: "close_inv (lf_closer st c) st" using inv(1) by (simp add: life_inv_def)
  have returns: ?thesis if "can_return h W N c st" using that own_told unfolding can_return_def by blast
  show ?thesis
  proof (cases "lf_closer st c")
    case CIdle
    show ?thesis
    proof (cases "lf_closed st")
      case True
      let ?st = "st\<lparr>lf_closer := (lf_closer st)(c := CWait)\<rparr>"
      have f: "fire W N (CloseStep c) st = Some ?st" by (simp add: fire_def Close_step_def Close_enter_def CIdle True)
      have "has_winner ?st" using has_winner_upd [OF inv(2)] CIdle by simp
      then obtain as st' where "lrun W N as ?st = Some st'" "lf_closer st' c = CReturned" "list_all (told_act h) as"
        using waiting_returns [OF life_inv_fire [OF inv(1) f], of c W h] True by auto
      then show ?thesis
        by (intro exI [of _ "CloseStep c # as"] exI [of _ st']) (simp add: f told_act_def)
    next
      case False
      then show ?thesis using returns can_return_step [OF inv(1), of c] can_return_drain CIdle by (simp add: Close_step_def Close_enter_def)
    qed
  next
    case CWait
    then show ?thesis using waiting_returns [OF inv, of c W h] here by (metis close_inv.simps(4))
  next
    case CReturned
    then show ?thesis by (intro exI [of _ "[]"] exI [of _ st]) simp
  qed (use returns can_return_drain [OF inv(1)] can_return_tearing [OF inv(1)] in blast)+
qed

theorem Close_returns_witness:
  "\<exists>as st'. list_all (told_act False) as \<and> lrun 1 2 (take 9 quiet_script @ as) new_life = Some st' \<and> lf_closer st' 7 = CReturned"
proof -
  let ?st = "the (lrun 1 2 (take 9 quiet_script) new_life)"
  have some: "lrun 1 2 (take 9 quiet_script) new_life \<noteq> None" by code_simp
  then obtain as st' where "list_all (told_act False) as" "lrun 1 2 as ?st = Some st'" "lf_closer st' 7 = CReturned"
    using Close_returns [OF script_reach [OF some], of False 7] by blast
  then show ?thesis using some by (intro exI [of _ as] exI [of _ st']) (auto simp: lrun_append)
qed

end
