(* ===== verification/Sockets.thy ===== *)
theory Sockets
  imports Prelude
begin

text \<open>
  The Unix sockets of config servers that share a directory (\<^verbatim>\<open>bindUnix\<close>, \<^verbatim>\<open>closeTransports\<close> and
  \<^verbatim>\<open>removeOwnedSocket\<close> in \<^verbatim>\<open>server/transport.go\<close>). A file is its inode number. A number is free, and may be given to
  the next file, as soon as no path leads to it and no open listener holds it. Every system call is a step of its own, and the steps of
  different servers interleave freely: binding is the removal of what is at the path, the listen, the chmod and the stat that takes the socket's identity; shutting down is the stat that
  checks that identity, the unlink and the close. An unclean end leaves the file behind.
\<close>

type_synonym files = "(string \<times> nat) list"

definition remove_path :: "string \<Rightarrow> files \<Rightarrow> files" where
  "remove_path path fs = filter (\<lambda>(p, _). p \<noteq> path) fs"

lemma map_of_remove_path: "map_of (remove_path path fs) p = (if p = path then None else map_of fs p)"
  by (induction fs) (auto simp: remove_path_def)

subsection \<open>Listeners\<close>

text \<open>
  Where a server is with its listener: the path, the inode the open listener holds, and in \<open>LOpen\<close> the identity that the stat returned, if it did. \<open>LChecked\<close> is between the check of the
  shutdown and its unlink.
\<close>

datatype listener =
    LIdle | LRemoved string | LListening string nat | LModed string nat | LOpen string nat "nat option"
  | LChecked string nat | LUnlinked nat | LClosed

text \<open>
  The next call of \<^verbatim>\<open>bindUnix\<close>; \<open>ok\<close> is whether it succeeds and \<open>n\<close> the inode number that a listen gets. A removal that finds nothing is fine. A failed chmod closes
  the listener, whose close unlinks the path without a check, since that is turned off only afterwards. A failed stat leaves no identity.
\<close>

definition bindUnix :: "bool \<Rightarrow> string \<Rightarrow> nat \<Rightarrow> listener \<Rightarrow> files \<Rightarrow> listener \<times> files" where
  "bindUnix ok path n l fs = (case l of
     LIdle \<Rightarrow> if ok then (LRemoved path, remove_path path fs) else (LClosed, fs)
   | LRemoved p \<Rightarrow> if ok then (LListening p n, (p, n) # fs) else (LClosed, fs)
   | LListening p m \<Rightarrow> if ok then (LModed p m, fs) else (LClosed, remove_path p fs)
   | LModed p m \<Rightarrow> (LOpen p m (if ok then map_of fs p else None), fs)
   | _ \<Rightarrow> (l, fs))"

text \<open>The next call of \<^verbatim>\<open>removeOwnedSocket\<close>: the stat and its comparison, or the unlink.\<close>

definition removeOwnedSocket :: "listener \<Rightarrow> files \<Rightarrow> listener \<times> files" where
  "removeOwnedSocket l fs = (case l of
     LOpen path n owned \<Rightarrow> (case owned of
         None \<Rightarrow> (LUnlinked n, fs)
       | Some o' \<Rightarrow> (case map_of fs path of
            None \<Rightarrow> (LUnlinked n, fs)
          | Some cur \<Rightarrow> if cur = o' then (LChecked path n, fs) else (LUnlinked n, fs)))
   | LChecked path n \<Rightarrow> (LUnlinked n, remove_path path fs)
   | _ \<Rightarrow> (l, fs))"

text \<open>An entry's part of \<^verbatim>\<open>closeTransports\<close>: first the check and the unlink, then the shutdown, which closes the listener.\<close>

definition closeTransports_entry :: "listener \<Rightarrow> files \<Rightarrow> listener \<times> files" where
  "closeTransports_entry l fs = (case l of LUnlinked n \<Rightarrow> (LClosed, fs) | _ \<Rightarrow> removeOwnedSocket l fs)"

subsection \<open>Servers sharing a directory\<close>

text \<open>
  The last field records, for the statements below, the servers that another server raced: while such a server was between its listen and its stat, or between its check and its unlink, the other
  listened at the same path.
\<close>

record sockets =
  sk_files :: files
  sk_servers :: "listener list"
  sk_raced :: "nat set"

fun held :: "listener \<Rightarrow> nat option" where
  "held (LListening _ n) = Some n"
| "held (LModed _ n) = Some n"
| "held (LOpen _ n _) = Some n"
| "held (LChecked _ n) = Some n"
| "held (LUnlinked n) = Some n"
| "held _ = None"

definition free :: "files \<Rightarrow> listener list \<Rightarrow> nat \<Rightarrow> bool" where
  "free fs ls n = (n \<notin> set (map snd fs) \<and> Some n \<notin> set (map held ls))"

fun window :: "listener \<Rightarrow> string option" where
  "window (LListening p _) = Some p"
| "window (LModed p _) = Some p"
| "window (LChecked p _) = Some p"
| "window _ = None"

definition raced_by :: "nat \<Rightarrow> string \<Rightarrow> listener list \<Rightarrow> nat set" where
  "raced_by i path ls = {j \<in> {..<length ls}. j \<noteq> i \<and> window (ls ! j) = Some path}"

text \<open>A listen succeeds only if nothing is at the path, and gets a free number; a chmod needs a file there.\<close>

fun bind_allowed :: "bool \<Rightarrow> nat \<Rightarrow> listener \<Rightarrow> sockets \<Rightarrow> bool" where
  "bind_allowed ok n (LRemoved p) st = (ok \<longrightarrow> map_of (sk_files st) p = None \<and> free (sk_files st) (sk_servers st) n)"
| "bind_allowed ok n (LListening p m) st = (ok \<longrightarrow> map_of (sk_files st) p \<noteq> None)"
| "bind_allowed ok n _ st = True"

datatype sact = SBind nat bool string nat | SClose nat | SCrash nat

definition sfire :: "sact \<Rightarrow> sockets \<Rightarrow> sockets option" where
  "sfire a st = (case a of
     SBind i ok path n \<Rightarrow>
       if i < length (sk_servers st) \<and> bind_allowed ok n (sk_servers st ! i) st then
         (case bindUnix ok path n (sk_servers st ! i) (sk_files st) of (l, fs) \<Rightarrow>
            Some (st\<lparr>sk_files := fs, sk_servers := (sk_servers st)[i := l],
              sk_raced := sk_raced st \<union> (case l of LListening p _ \<Rightarrow> raced_by i p (sk_servers st) | _ \<Rightarrow> {})\<rparr>))
       else None
   | SClose i \<Rightarrow>
       if i < length (sk_servers st) then
         (case closeTransports_entry (sk_servers st ! i) (sk_files st) of (l, fs) \<Rightarrow> Some (st\<lparr>sk_files := fs, sk_servers := (sk_servers st)[i := l]\<rparr>))
       else None
   | SCrash i \<Rightarrow> if i < length (sk_servers st) then Some (st\<lparr>sk_servers := (sk_servers st)[i := LClosed]\<rparr>) else None)"

definition new_sockets :: "nat \<Rightarrow> files \<Rightarrow> sockets" where
  "new_sockets k fs = \<lparr>sk_files = fs, sk_servers = replicate k LIdle, sk_raced = {}\<rparr>"

inductive sreach :: "nat \<Rightarrow> files \<Rightarrow> sockets \<Rightarrow> bool" for k fs where
  init: "sreach k fs (new_sockets k fs)"
| step: "sreach k fs st \<Longrightarrow> sfire a st = Some st' \<Longrightarrow> sreach k fs st'"

subsection \<open>Inodes identify sockets while their listeners are open\<close>

definition held_distinct :: "listener list \<Rightarrow> bool" where
  "held_distinct ls = (\<forall>i j. i < length ls \<longrightarrow> j < length ls \<longrightarrow> i \<noteq> j \<longrightarrow> held (ls ! i) \<noteq> None \<longrightarrow> held (ls ! i) \<noteq> held (ls ! j))"

lemma held_distinct_update:
  assumes "held_distinct ls" and "held l = None \<or> held l = held (ls ! i) \<or> held l \<notin> set (map held ls)"
  shows "held_distinct (ls[i := l])"
proof -
  have new: "held l \<noteq> held (ls ! b)" if "b < length ls" "b \<noteq> i" "i < length ls" "held l \<noteq> None" for b
    using assms that unfolding held_distinct_def by (metis image_eqI list.set_map nth_mem)
  show ?thesis unfolding held_distinct_def
  proof (intro allI impI)
    fix a b
    assume *: "a < length (ls[i := l])" "b < length (ls[i := l])" "a \<noteq> b" "held (ls[i := l] ! a) \<noteq> None"
    show "held (ls[i := l] ! a) \<noteq> held (ls[i := l] ! b)"
    proof (cases "a = i \<or> b = i")
      case True
      then show ?thesis
      proof
        assume "a = i"
        then have "held l \<noteq> held (ls ! b)" using * new [of b] by simp
        then show ?thesis using * \<open>a = i\<close> by simp
      next
        assume "b = i"
        then have "held l = None \<or> held l \<noteq> held (ls ! a)" using * new [of a] by (cases "held l = None") simp_all
        then show ?thesis using * \<open>b = i\<close> by auto
      qed
    next
      case False
      then show ?thesis using * assms(1) by (simp add: held_distinct_def)
    qed
  qed
qed

text \<open>
  A step of server \<open>i\<close> changes the files by taking a path away, or by listening at a path where nothing was, which races whoever is in a window there.
\<close>

definition step_shape :: "nat \<Rightarrow> sockets \<Rightarrow> sockets \<Rightarrow> bool" where
  "step_shape i st st' \<longleftrightarrow> i < length (sk_servers st) \<and> sk_servers st' = (sk_servers st)[i := sk_servers st' ! i]
     \<and> ((\<exists>p n. sk_servers st' ! i = LListening p n \<and> sk_files st' = (p, n) # sk_files st \<and> free (sk_files st) (sk_servers st) n
            \<and> sk_raced st' = sk_raced st \<union> raced_by i p (sk_servers st))
        \<or> held (sk_servers st' ! i) \<in> {None, held (sk_servers st ! i)} \<and> sk_raced st' = sk_raced st
            \<and> (sk_files st' = sk_files st \<or> (\<exists>p. sk_files st' = remove_path p (sk_files st))))"

definition actor :: "sact \<Rightarrow> nat" where
  "actor a = (case a of SBind i _ _ _ \<Rightarrow> i | SClose i \<Rightarrow> i | SCrash i \<Rightarrow> i)"

lemma sfire_shape:
  assumes "sfire a st = Some st'"
  shows "step_shape (actor a) st st'"
proof (cases a)
  case (SBind i ok path n)
  then show ?thesis using assms
    by (cases "sk_servers st ! i"; cases ok) (auto simp: sfire_def bindUnix_def step_shape_def actor_def split: if_splits)
next
  case (SClose i)
  then show ?thesis using assms
    by (cases "sk_servers st ! i") (auto simp: sfire_def closeTransports_entry_def removeOwnedSocket_def step_shape_def actor_def split: if_splits option.splits)
next
  case (SCrash i)
  then show ?thesis using assms by (auto simp: sfire_def step_shape_def actor_def split: if_splits)
qed

text \<open>What a server that nobody raced may rely on: in its windows nothing but its own socket is at its path, and the identity it took is its own.\<close>

definition sure :: "files \<Rightarrow> listener \<Rightarrow> bool" where
  "sure fs l = (case l of
     LListening p n \<Rightarrow> map_of fs p \<in> {None, Some n}
   | LModed p n \<Rightarrow> map_of fs p \<in> {None, Some n}
   | LChecked p n \<Rightarrow> map_of fs p \<in> {None, Some n}
   | LOpen _ n owned \<Rightarrow> owned \<in> {None, Some n}
   | _ \<Rightarrow> True)"

definition sockets_inv :: "sockets \<Rightarrow> bool" where
  "sockets_inv st \<longleftrightarrow> held_distinct (sk_servers st) \<and> (\<forall>i < length (sk_servers st). i \<notin> sk_raced st \<longrightarrow> sure (sk_files st) (sk_servers st ! i))"

lemma sure_remove: "sure fs l \<Longrightarrow> sure (remove_path p fs) l"
  by (auto simp: sure_def map_of_remove_path split: listener.splits)

lemma sure_listen: "sure fs l \<Longrightarrow> window l \<noteq> Some p \<Longrightarrow> sure ((p, n) # fs) l"
  by (auto simp: sure_def split: listener.splits)

lemma sure_other:
  assumes "step_shape i st st'" "j \<noteq> i" "j < length (sk_servers st)" "j \<notin> sk_raced st'" "sockets_inv st"
  shows "sure (sk_files st') (sk_servers st' ! j)"
proof -
  obtain l where l: "sk_servers st' = (sk_servers st)[i := l]" "sk_raced st \<subseteq> sk_raced st'"
    "(\<exists>p n. sk_files st' = (p, n) # sk_files st \<and> sk_raced st' = sk_raced st \<union> raced_by i p (sk_servers st))
     \<or> sk_files st' = sk_files st \<or> (\<exists>p. sk_files st' = remove_path p (sk_files st))"
    using assms(1) unfolding step_shape_def by blast
  have s: "sure (sk_files st) (sk_servers st ! j)" using assms(3,4,5) l(2) by (auto simp: sockets_inv_def)
  have "sk_servers st' ! j = sk_servers st ! j" using l(1) assms(2) by simp
  then show ?thesis using s l(3) assms(2-4) sure_remove sure_listen
    by (auto simp: raced_by_def)
qed

lemma sure_self:
  assumes "sfire a st = Some st'" "sure (sk_files st) (sk_servers st ! actor a)"
  shows "sure (sk_files st') (sk_servers st' ! actor a)"
proof (cases a)
  case (SBind i ok path n)
  then show ?thesis using assms
    by (cases "sk_servers st ! i"; cases ok)
       (auto simp: sfire_def bindUnix_def actor_def sure_def split: if_splits)
next
  case (SClose i)
  then show ?thesis using assms
    by (cases "sk_servers st ! i") (auto simp: sfire_def closeTransports_entry_def removeOwnedSocket_def actor_def sure_def split: if_splits option.splits)
next
  case (SCrash i)
  then show ?thesis using assms by (auto simp: sfire_def actor_def sure_def split: if_splits)
qed

lemma sfire_inv:
  assumes "sfire a st = Some st'" and "sockets_inv st"
  shows "sockets_inv st'"
proof -
  note sh = sfire_shape [OF assms(1)]
  have len: "length (sk_servers st') = length (sk_servers st)" using sh unfolding step_shape_def by (metis length_list_update)
  have grow: "sk_raced st \<subseteq> sk_raced st'" using sh unfolding step_shape_def by blast
  obtain l where l: "sk_servers st' = (sk_servers st)[actor a := l]"
    "held l = None \<or> held l = held (sk_servers st ! actor a) \<or> held l \<notin> set (map held (sk_servers st))"
    using sh unfolding step_shape_def free_def by force
  have "held_distinct (sk_servers st')" using held_distinct_update [OF _ l(2)] assms(2) l(1) by (simp add: sockets_inv_def)
  moreover have "sure (sk_files st') (sk_servers st' ! j)" if "j < length (sk_servers st')" "j \<notin> sk_raced st'" for j
  proof (cases "j = actor a")
    case True
    have "sure (sk_files st) (sk_servers st ! j)" using assms(2) that len grow by (auto simp: sockets_inv_def)
    then show ?thesis using sure_self [OF assms(1)] True by simp
  next
    case False
    then show ?thesis using sure_other [OF sh False _ _ assms(2)] that len by simp
  qed
  ultimately show ?thesis by (simp add: sockets_inv_def)
qed

lemma sreach_inv: "sreach k fs st \<Longrightarrow> sockets_inv st"
proof (induction rule: sreach.induct)
  case init
  show ?case by (simp add: new_sockets_def held_distinct_def sockets_inv_def sure_def)
qed (use sfire_inv in blast)

subsection \<open>Shutting down\<close>

fun bound_at :: "listener \<Rightarrow> (string \<times> nat) option" where
  "bound_at (LListening p n) = Some (p, n)"
| "bound_at (LModed p n) = Some (p, n)"
| "bound_at (LOpen p n _) = Some (p, n)"
| "bound_at _ = None"

text \<open>A server that clients can reach at a path: its listener is open and the path leads to its socket.\<close>

definition reachable_at :: "sockets \<Rightarrow> nat \<Rightarrow> string \<Rightarrow> bool" where
  "reachable_at st j path = (j < length (sk_servers st) \<and> (case bound_at (sk_servers st ! j) of
     Some (p, n) \<Rightarrow> p = path \<and> map_of (sk_files st) path = Some n | None \<Rightarrow> False))"

lemma bound_held: "bound_at l = Some (p, n) \<Longrightarrow> held l = Some n"
  by (cases l) auto

lemma reachable_not_own:
  assumes "sockets_inv st" "j \<noteq> i" "i < length (sk_servers st)" "reachable_at st j path" "held (sk_servers st ! i) = Some n"
  shows "map_of (sk_files st) path \<noteq> Some n"
proof -
  obtain m where m: "j < length (sk_servers st)" "bound_at (sk_servers st ! j) = Some (path, m)" "map_of (sk_files st) path = Some m"
    using assms(4) by (auto simp: reachable_at_def split: option.splits)
  have "held (sk_servers st ! i) \<noteq> held (sk_servers st ! j)"
    using assms(1,2,3,5) m(1) unfolding sockets_inv_def held_distinct_def by (metis option.distinct(1))
  then show ?thesis using m assms(5) bound_held [OF m(2)] by simp
qed

lemma reachable_kept:
  assumes "reachable_at st j path" "sk_servers st' = (sk_servers st)[i := l]" "j \<noteq> i" "map_of (sk_files st') path = map_of (sk_files st) path"
  shows "reachable_at st' j path"
  using assms by (auto simp: reachable_at_def split: option.splits)

text \<open>What a server may take away once it has listened, in its shutdown or when its chmod fails.\<close>

lemma taken_is_own:
  assumes "sockets_inv st" "i \<notin> sk_raced st" "sfire a st = Some st'" "actor a = i" "held (sk_servers st ! i) \<noteq> None" "j \<noteq> i" "reachable_at st j path"
  shows "map_of (sk_files st') path = map_of (sk_files st) path"
proof -
  have i: "i < length (sk_servers st)" using sfire_shape [OF assms(3)] assms(4) by (simp add: step_shape_def)
  have s: "sure (sk_files st) (sk_servers st ! i)" using assms(1,2) i by (simp add: sockets_inv_def)
  obtain n where n: "held (sk_servers st ! i) = Some n" using assms(5) by blast
  have ne: "map_of (sk_files st) path \<noteq> Some n" "map_of (sk_files st) path \<noteq> None"
    using reachable_not_own [OF assms(1,6) i assms(7) n] assms(7) by (auto simp: reachable_at_def split: option.splits)
  have "sk_files st' = sk_files st \<or> (\<exists>p. sk_files st' = remove_path p (sk_files st) \<and> window (sk_servers st ! i) = Some p)"
    using assms(3,4,5)
    by (cases a; cases "sk_servers st ! i")
      (auto simp: sfire_def actor_def bindUnix_def closeTransports_entry_def removeOwnedSocket_def split: if_splits option.splits)
  moreover have "map_of (sk_files st) p \<in> {None, Some n}" if "window (sk_servers st ! i) = Some p" for p
    using s that n by (cases "sk_servers st ! i") (auto simp: sure_def)
  ultimately show ?thesis using ne by (auto simp: map_of_remove_path)
qed


subsection \<open>Restarts on the same path\<close>

primrec srun :: "sact list \<Rightarrow> sockets \<Rightarrow> sockets option" where
  "srun [] st = Some st"
| "srun (a # as) st = (case sfire a st of None \<Rightarrow> None | Some st' \<Rightarrow> srun as st')"

lemma srun_append: "srun (as @ bs) st = (case srun as st of None \<Rightarrow> None | Some st' \<Rightarrow> srun bs st')"
  by (induction as arbitrary: st) (auto split: option.splits)

lemma srun_sreach: "srun as st = Some st' \<Longrightarrow> sreach k fs st \<Longrightarrow> sreach k fs st'"
  by (induction as arbitrary: st) (auto intro: sreach.step split: option.splits)

text \<open>All the calls of one bind.\<close>

definition bind_all :: "nat \<Rightarrow> nat \<Rightarrow> sact list" where
  "bind_all i n = replicate 4 (SBind i True ''/s'' n)"

definition restart_script :: "sact list" where
  "restart_script = bind_all 0 1 @ bind_all 1 2"


text \<open>
  Both windows are real. In the first run the new server binds between the old one's check and its unlink, and its socket is gone. In the second it binds between the old one's listen and its stat: the old one takes the new
  one's identity for its own, and its shutdown, with no other step in between, unlinks it. In the third it does so before the old one's chmod, which fails, and the close of that listener unlinks the path.
\<close>

definition late_unlink :: "sact list" where
  "late_unlink = bind_all 0 1 @ [SClose 0] @ bind_all 1 2 @ [SClose 0]"

definition wrong_identity :: "sact list" where
  "wrong_identity = replicate 3 (SBind 0 True ''/s'' 1) @ bind_all 1 2 @ [SBind 0 True ''/s'' 1, SClose 0, SClose 0]"

definition failed_chmod :: "sact list" where
  "failed_chmod = replicate 2 (SBind 0 True ''/s'' 1) @ bind_all 1 2 @ [SBind 0 False ''/s'' 1]"

definition stranded_socket :: "sact list \<Rightarrow> bool" where
  "stranded_socket as = (case srun as (new_sockets 2 []) of None \<Rightarrow> False
     | Some st \<Rightarrow> sk_servers st ! 1 = LOpen ''/s'' 2 (Some 2) \<and> map_of (sk_files st) ''/s'' = None)"

lemma unlink_races: "stranded_socket late_unlink" "stranded_socket wrong_identity" "stranded_socket failed_chmod"
  by code_simp+

end
