(* ===== verification/Middleware.thy ===== *)
theory Middleware
  imports Values
begin

text \<open>
  \<^verbatim>\<open>middleware/\<close>: the provider decorators. A decorated \<^verbatim>\<open>Resolve\<close> is a function of the instant of the call, the ref
  and the state behind it (the entries of a cache, the next slot of a rate limit), which the decorators
  around it share when they wrap the same instance. Calls are sequential. Latencies and rendered
  error texts in audit lines are not modelled.
\<close>

type_synonym 's resolver = "instant \<Rightarrow> Ref \<Rightarrow> 's \<Rightarrow> (err + Value) \<times> 's"

subsection \<open>The wrapper\<close>

text \<open>\<^verbatim>\<open>Watch\<close> delegates with the rewritten ref; an inner provider without a watch is \<open>None\<close>.\<close>

definition wrapper_Watch :: "(Ref \<Rightarrow> err + 'ch) option \<Rightarrow> (Ref \<Rightarrow> Ref) \<Rightarrow> Ref \<Rightarrow> err + 'ch" where
  "wrapper_Watch inner mapRef ref = (case inner of Some w \<Rightarrow> w (mapRef ref) | None \<Rightarrow> Inl (Sentinel errNotWatchable))"

fun wrapper_ResolveBatch :: "'s resolver \<Rightarrow> instant \<Rightarrow> Ref list \<Rightarrow> (string \<rightharpoonup> Value) \<Rightarrow> 's \<Rightarrow> (err + (string \<rightharpoonup> Value)) \<times> 's" where
  "wrapper_ResolveBatch res now [] out s = (Inr out, s)"
| "wrapper_ResolveBatch res now (ref # refs) out s = (case res now ref s of
     (Inl e, s') \<Rightarrow> if err_is e ErrNotFound then wrapper_ResolveBatch res now refs out s' else (Inl e, s')
   | (Inr v, s') \<Rightarrow> wrapper_ResolveBatch res now refs (out(r_Raw ref \<mapsto> v)) s')"

subsection \<open>Cache\<close>

record cacheEntry =
  ce_val :: Value
  ce_expires :: instant

type_synonym entries = "string \<rightharpoonup> cacheEntry"

definition Cache :: "duration \<Rightarrow> 's resolver \<Rightarrow> (entries \<times> 's) resolver" where
  "Cache ttl inner now ref = (\<lambda>(es, s).
     case es (r_Raw ref) of
       Some e \<Rightarrow> if now < ce_expires e then (Inr (ce_val e), (es, s))
                 else (case inner now ref s of
                     (Inl err, s') \<Rightarrow> (Inl err, (es, s'))
                   | (Inr v, s') \<Rightarrow> (Inr v, (es(r_Raw ref \<mapsto> \<lparr>ce_val = v, ce_expires = now + ttl\<rparr>), s')))
     | None \<Rightarrow> (case inner now ref s of
           (Inl err, s') \<Rightarrow> (Inl err, (es, s'))
         | (Inr v, s') \<Rightarrow> (Inr v, (es(r_Raw ref \<mapsto> \<lparr>ce_val = v, ce_expires = now + ttl\<rparr>), s'))))"

subsection \<open>Failover\<close>

fun failover_walk :: "'s resolver list \<Rightarrow> instant \<Rightarrow> Ref \<Rightarrow> err list \<Rightarrow> 's \<Rightarrow> (err + Value) \<times> 's" where
  "failover_walk [] now ref errs s = (Inl (Errorf ''mamori/middleware: all providers failed'' [Errorf '''' errs]), s)"
| "failover_walk (p # ps) now ref errs s = (case p now ref s of
     (Inr v, s') \<Rightarrow> (Inr v, s')
   | (Inl e, s') \<Rightarrow> if err_is e ErrNotFound then (Inl e, s') else failover_walk ps now ref (errs @ [e]) s')"

definition Failover :: "'s resolver \<Rightarrow> 's resolver list \<Rightarrow> 's resolver" where
  "Failover primary replicas now ref s = failover_walk (primary # replicas) now ref [] s"

subsection \<open>Prefix\<close>

definition joinPath :: "string \<Rightarrow> string \<Rightarrow> string" where
  "joinPath prefix path = (let prefix = trim_suffix ''/'' prefix; path = trim_prefix ''/'' path
     in if prefix = [] then path else prefix @ ''/'' @ path)"

definition prefix_mapRef :: "string \<Rightarrow> Ref \<Rightarrow> Ref" where
  "prefix_mapRef prefix ref = (let out = ref\<lparr>r_Path := joinPath prefix (r_Path ref)\<rparr> in out\<lparr>r_Raw := String_Ref out\<rparr>)"

definition Prefix :: "string \<Rightarrow> 's resolver \<Rightarrow> 's resolver" where
  "Prefix prefix inner now ref s = inner now (prefix_mapRef prefix ref) s"

subsection \<open>Rate limit\<close>

text \<open>
  The slot a call gets: how long it waits, and the next free slot. A call whose context ends while it waits
  keeps its slot. \<open>cancelled\<close> is the error of a context that is done before a wait is over.
\<close>

definition rate_slot :: "duration \<Rightarrow> instant \<Rightarrow> instant \<Rightarrow> duration \<times> instant" where
  "rate_slot interval now next =
     (if now < next then (time_sub next now, next + interval) else (0, now + interval))"

definition RateLimit :: "duration \<Rightarrow> (instant \<Rightarrow> duration \<Rightarrow> err option) \<Rightarrow> 's resolver \<Rightarrow> (instant \<times> 's) resolver" where
  "RateLimit interval cancelled inner now ref = (\<lambda>(next, s).
     if interval > 0 then
       (case rate_slot interval now next of (wait, next') \<Rightarrow>
          case (if wait > 0 then cancelled now wait else None) of
            Some e \<Rightarrow> (Inl e, (next', s))
          | None \<Rightarrow> (case inner (now + wait) ref s of (r, s') \<Rightarrow> (r, (next', s'))))
     else (case inner now ref s of (r, s') \<Rightarrow> (r, (next, s'))))"

subsection \<open>Audit\<close>

record audit_line =
  al_scheme :: string
  al_ref :: string
  al_outcome :: "(string \<times> bool) option"

definition Audit :: "'s resolver \<Rightarrow> (audit_line list \<times> 's) resolver" where
  "Audit inner now ref = (\<lambda>(log, s). case inner now ref s of (r, s') \<Rightarrow>
     (r, (log @ [\<lparr>al_scheme = r_Scheme ref, al_ref = Redacted ref,
            al_outcome = (case r of Inl _ \<Rightarrow> None | Inr v \<Rightarrow> Some (v_Version v, v_Sensitive v))\<rparr>], s')))"

subsection \<open>Calls through decorators\<close>

text \<open>A provider whose answers depend on the instant and the ref only, and a sequence of calls.\<close>

definition of_backend :: "(instant \<Rightarrow> Ref \<Rightarrow> err + Value) \<Rightarrow> unit resolver" where
  "of_backend b now ref s = (b now ref, s)"

fun calls :: "'s resolver \<Rightarrow> (instant \<times> Ref) list \<Rightarrow> 's \<Rightarrow> (err + Value) list" where
  "calls res [] s = []"
| "calls res ((now, ref) # cs) s = (case res now ref s of (r, s') \<Rightarrow> r # calls res cs s')"

subsection \<open>Failover is authoritative about absence\<close>

lemma err_is_join: "(\<And>e. e \<in> set es \<Longrightarrow> \<not> err_is e t) \<Longrightarrow> \<not> err_is (Errorf m [Errorf m' es]) t"
  by (simp add: list_ex_iff)

definition conclusive :: "err + Value \<Rightarrow> bool" where
  "conclusive r = (case r of Inl e \<Rightarrow> err_is e ErrNotFound | Inr _ \<Rightarrow> True)"

definition all_failed :: "err list \<Rightarrow> err" where
  "all_failed errs = Errorf ''mamori/middleware: all providers failed'' [Errorf [] errs]"

lemma failover_walk_correct:
  "fst (failover_walk (map of_backend bs) now ref errs ()) =
     (case find (\<lambda>b. conclusive (b now ref)) bs of
        Some b \<Rightarrow> b now ref
      | None \<Rightarrow> Inl (all_failed (errs @ map (\<lambda>b. projl (b now ref)) bs)))"
proof (induction bs arbitrary: errs)
  case (Cons b bs)
  then show ?case by (cases "b now ref") (auto simp: of_backend_def conclusive_def split: option.split)
qed (simp add: all_failed_def)

text \<open>
  The answer of a failover group is that of its first provider that answers with a value or with not-found; when
  every one fails otherwise, the failure carries all their errors and is not a not-found.
\<close>

lemma Failover_conclusive:
  "fst (Failover (of_backend b) (map of_backend bs) now ref ()) =
     (case find (\<lambda>b. conclusive (b now ref)) (b # bs) of
        Some b' \<Rightarrow> b' now ref
      | None \<Rightarrow> Inl (all_failed (map (\<lambda>b. projl (b now ref)) (b # bs))))"
  using failover_walk_correct [of "b # bs" now ref "[]"] by (simp only: Failover_def list.map append_Nil)

lemma Failover_not_absent:
  assumes "find (\<lambda>b. conclusive (b now ref)) (b # bs) = None"
  shows "\<not> conclusive (fst (Failover (of_backend b) (map of_backend bs) now ref ()))"
proof -
  have all: "\<forall>c\<in>set (b # bs). \<not> conclusive (c now ref)" using assms unfolding find_None_iff by blast
  have "\<not> err_is e ErrNotFound" if e: "e \<in> set (map (\<lambda>b. projl (b now ref)) (b # bs))" for e
  proof -
    obtain c where "c \<in> set (b # bs)" "e = projl (c now ref)" using e by auto
    moreover from this all have "\<not> conclusive (c now ref)" by blast
    ultimately show ?thesis by (cases "c now ref") (simp_all add: conclusive_def)
  qed
  then have "\<not> err_is (all_failed (map (\<lambda>b. projl (b now ref)) (b # bs))) ErrNotFound"
    unfolding all_failed_def by (rule err_is_join)
  then show ?thesis unfolding Failover_conclusive assms option.case by (simp only: conclusive_def sum.case not_False_eq_True)
qed

subsection \<open>A cached value is at most its lifetime old\<close>

definition entries_from :: "(instant \<Rightarrow> Ref \<Rightarrow> err + Value) \<Rightarrow> duration \<Rightarrow> instant \<Rightarrow> entries \<Rightarrow> bool" where
  "entries_from b ttl now es = (\<forall>k e. es k = Some e \<longrightarrow>
     (\<exists>t ref. t \<le> now \<and> ce_expires e = t + ttl \<and> r_Raw ref = k \<and> b t ref = Inr (ce_val e)))"

lemma entries_from_mono: "entries_from b ttl t es \<Longrightarrow> t \<le> now \<Longrightarrow> entries_from b ttl now es"
  unfolding entries_from_def by (meson order_trans)

definition justified :: "(instant \<Rightarrow> Ref \<Rightarrow> err + Value) \<Rightarrow> duration \<Rightarrow> instant \<Rightarrow> Ref \<Rightarrow> err + Value \<Rightarrow> bool" where
  "justified b ttl now ref r = (r = b now ref \<or> (\<exists>t ref' v. r = Inr v \<and> t \<le> now \<and> now < t + ttl \<and> r_Raw ref' = r_Raw ref \<and> b t ref' = Inr v))"

lemma Cache_step:
  assumes "entries_from b ttl now es" and "Cache ttl (of_backend b) now ref (es, s) = (r, (es', s'))"
  shows "justified b ttl now ref r \<and> entries_from b ttl now es'"
proof (cases "\<exists>e. es (r_Raw ref) = Some e \<and> now < ce_expires e")
  case True
  then obtain e where e: "es (r_Raw ref) = Some e" "now < ce_expires e" by blast
  then have "r = Inr (ce_val e)" "es' = es" using assms(2) by (simp_all add: Cache_def)
  moreover obtain t ref' where "t \<le> now" "ce_expires e = t + ttl" "r_Raw ref' = r_Raw ref" "b t ref' = Inr (ce_val e)"
    using assms(1) e(1) unfolding entries_from_def by blast
  ultimately show ?thesis using e(2) assms(1) unfolding justified_def by auto
next
  case False
  then have live: "Cache ttl (of_backend b) now ref (es, s) = (case b now ref of
      Inl err \<Rightarrow> (Inl err, (es, s)) | Inr v \<Rightarrow> (Inr v, (es(r_Raw ref \<mapsto> \<lparr>ce_val = v, ce_expires = now + ttl\<rparr>), s)))"
    by (auto simp: Cache_def of_backend_def split: option.split sum.split)
  show ?thesis
  proof (cases "b now ref")
    case (Inl err)
    then show ?thesis using live assms by (simp add: justified_def)
  next
    case (Inr v)
    then have "entries_from b ttl now (es(r_Raw ref \<mapsto> \<lparr>ce_val = v, ce_expires = now + ttl\<rparr>))"
      using assms(1) unfolding entries_from_def by auto
    then show ?thesis using Inr live assms(2) by (auto simp: justified_def)
  qed
qed

text \<open>
  C23. A cache never serves what the provider did not say, nor longer than it may: over any sequence of calls in the order of
  time, each answer is the provider's answer at that instant, or a value the provider gave for the same
  tag less than the lifetime before. Failures and absences are therefore always live.\<close>

theorem Cache_bounded_staleness:
  assumes "sorted (map fst cs)"
  shows "list_all2 (\<lambda>(now, ref) r. justified b ttl now ref r) cs (calls (Cache ttl (of_backend b)) cs (Map.empty, ()))"
proof -
  have "list_all2 (\<lambda>(now, ref) r. justified b ttl now ref r) cs (calls (Cache ttl (of_backend b)) cs (es, ()))"
    if "sorted (map fst cs)" "entries_from b ttl t es" "\<And>c. c \<in> set cs \<Longrightarrow> t \<le> fst c" for t es
    using that
  proof (induction cs arbitrary: t es)
    case (Cons c cs)
    obtain now ref where c: "c = (now, ref)" by (cases c)
    obtain r es' where step: "Cache ttl (of_backend b) now ref (es, ()) = (r, (es', ()))"
      by (cases "Cache ttl (of_backend b) now ref (es, ())") auto
    have "entries_from b ttl now es" using entries_from_mono [OF Cons.prems(2)] Cons.prems(3) [of c] c by simp
    note here = Cache_step [OF this step]
    have "list_all2 (\<lambda>(now, ref) r. justified b ttl now ref r) cs (calls (Cache ttl (of_backend b)) cs (es', ()))"
      using Cons.prems(1) here by (intro Cons.IH [of now es']) (auto simp: c)
    then show ?case using here c step by simp
  qed simp
  from this [of "if cs = [] then 0 else fst (hd cs)" Map.empty] assms show ?thesis
    by (cases cs) (auto simp: entries_from_def)
qed

definition demo_ref :: Ref where
  "demo_ref = \<lparr>r_Scheme = ''vault'', r_Path = ''db'', r_Key = [], r_Opts = [], r_Raw = ''vault://db''\<rparr>"

definition demo_backend :: "instant \<Rightarrow> Ref \<Rightarrow> err + Value" where
  "demo_backend now ref = Inr (zero_Value\<lparr>v_Bytes := r_Path ref, v_Version := dec_of_nat (nat now)\<rparr>)"

theorem Cache_bounded_staleness_witness:
  "list_all2 (\<lambda>(now, ref) r. justified demo_backend 5 now ref r) [(1, demo_ref), (3, demo_ref), (9, demo_ref)]
     (calls (Cache 5 (of_backend demo_backend)) [(1, demo_ref), (3, demo_ref), (9, demo_ref)] (Map.empty, ()))
   \<and> calls (Cache 5 (of_backend demo_backend)) [(1, demo_ref), (3, demo_ref), (9, demo_ref)] (Map.empty, ())
      = [demo_backend 1 demo_ref, demo_backend 1 demo_ref, demo_backend 9 demo_ref]"
proof -
  have "sorted (map fst [(1::instant, demo_ref), (3, demo_ref), (9, demo_ref)])" by simp
  from Cache_bounded_staleness [OF this, of demo_backend 5] show ?thesis
    by (simp add: Cache_def of_backend_def demo_backend_def)
qed

subsection \<open>A prefix does not separate tenants behind one cache\<close>

text \<open>
  \<^verbatim>\<open>Prefix\<close> rewrites the path of a ref but not its tag when it has one, as every parsed ref does: its assignment
  \<^verbatim>\<open>out.Raw = out.String()\<close> gives the tag back. A cache shared by two tenants' prefixes is keyed by the tag,
  so the second tenant's first call is answered with the first tenant's value.\<close>

lemma Prefix_shares_cache:
  assumes "r_Raw ref \<noteq> []" and "now' < now + ttl" and "b now (prefix_mapRef pa ref) = Inr v"
  shows "r_Raw (prefix_mapRef pa ref) = r_Raw ref \<and> r_Raw (prefix_mapRef pb ref) = r_Raw ref
    \<and> (case Prefix pa (Cache ttl (of_backend b)) now ref (Map.empty, ()) of (r, st) \<Rightarrow>
         r = Inr v \<and> fst (Prefix pb (Cache ttl (of_backend b)) now' ref st) = Inr v)"
proof -
  have raw: "r_Raw (prefix_mapRef p ref) = r_Raw ref" for p
    using assms(1) by (simp add: prefix_mapRef_def String_Ref_def Let_def)
  then show ?thesis using assms(2,3) by (simp add: Prefix_def Cache_def of_backend_def)
qed

lemma Prefix_shares_cache_witness:
  "prefix_mapRef ''tenant-b/'' demo_ref = demo_ref\<lparr>r_Path := ''tenant-b/db''\<rparr>
   \<and> fst (Prefix ''tenant-b/'' (Cache 60 (of_backend demo_backend)) 2 demo_ref
        (snd (Prefix ''tenant-a/'' (Cache 60 (of_backend demo_backend)) 1 demo_ref (Map.empty, ()))))
      = Inr (zero_Value\<lparr>v_Bytes := ''tenant-a/db'', v_Version := ''1''\<rparr>)"
proof -
  have facts: "r_Raw demo_ref \<noteq> []" "(2::instant) < 1 + 60"
    "demo_backend 1 (prefix_mapRef ''tenant-a/'' demo_ref) = Inr (zero_Value\<lparr>v_Bytes := ''tenant-a/db'', v_Version := ''1''\<rparr>)"
    and b: "prefix_mapRef ''tenant-b/'' demo_ref = demo_ref\<lparr>r_Path := ''tenant-b/db''\<rparr>" by code_simp+
  show ?thesis using Prefix_shares_cache [where b = demo_backend and pa = "''tenant-a/''" and pb = "''tenant-b/''", OF facts] b by (auto split: prod.splits)
qed

subsection \<open>A rate limit spaces its calls\<close>

fun releases :: "duration \<Rightarrow> instant \<Rightarrow> instant list \<Rightarrow> instant list" where
  "releases interval next [] = []"
| "releases interval next (now # ns) = (case rate_slot interval now next of (wait, next') \<Rightarrow> (now + wait) # releases interval next' ns)"

fun spaced :: "duration \<Rightarrow> instant \<Rightarrow> instant list \<Rightarrow> instant list \<Rightarrow> bool" where
  "spaced d free [] [] = True"
| "spaced d free (a # as) (r # rs) = (r = max a free \<and> spaced d (r + d) as rs)"
| "spaced d free _ _ = False"

lemma releases_spaced:
  assumes "sorted ns" and "interval > 0" and "int (length ns) * interval \<le> max_duration"
    and "\<And>n. n \<in> set ns \<Longrightarrow> next - n + int (length ns) * interval \<le> max_duration"
  shows "spaced interval next ns (releases interval next ns)"
  using assms
proof (induction ns arbitrary: "next")
  case (Cons n ns)
  let ?rest = "int (length ns) * interval"
  have bound: "next - n + interval + ?rest \<le> max_duration" "interval + ?rest \<le> max_duration"
    using Cons.prems(3) Cons.prems(4) [of n] by (simp_all add: algebra_simps)
  have pos: "0 \<le> ?rest" using Cons.prems(2) by simp
  have wait: "time_sub next n = next - n" if "n < next"
  proof -
    have "next - n \<le> max_duration" using bound(1) pos Cons.prems(2) by linarith
    moreover have "min_duration \<le> next - n" using that by (simp add: min_duration_def)
    ultimately show ?thesis by (simp add: time_sub_def)
  qed
  have "max n next + interval - m + ?rest \<le> max_duration" if "m \<in> set ns" for m
  proof -
    have "n \<le> m" using Cons.prems(1) that by simp
    then show ?thesis using bound by (simp add: max_def)
  qed
  moreover have "?rest \<le> max_duration" using bound(2) Cons.prems(2) by simp
  ultimately have "spaced interval (max n next + interval) ns (releases interval (max n next + interval) ns)"
    using Cons.prems(1,2) by (intro Cons.IH) auto
  then show ?case using wait by (auto simp: rate_slot_def max_def)
qed simp

text \<open>
  A rate limit spaces its calls and never idles: over calls in the order of time, none cancelled, each is released at its
  arrival or one interval after the release before it, whichever is later; so no two reach the provider less than an
  interval apart and none waits while the limit has a free slot. (A backlog of more than 292 years would
  saturate the wait.)\<close>

lemma RateLimit_spacing:
  assumes "sorted ns" and "interval > 0" and "list_all (\<lambda>n. 0 \<le> n) ns" and "int (length ns) * interval \<le> max_duration"
  shows "spaced interval 0 ns (releases interval 0 ns)
    \<and> (\<forall>i. Suc i < length ns \<longrightarrow> releases interval 0 ns ! i + interval \<le> releases interval 0 ns ! Suc i)"
proof -
  have sp: "spaced interval 0 ns (releases interval 0 ns)"
    using assms(3,4) by (intro releases_spaced [OF assms(1,2,4)]) (auto simp: list_all_iff)
  have "rs ! i + d \<le> rs ! Suc i" if "spaced d free as rs" "Suc i < length as" for d free as rs i
    using that
  proof (induction d free as rs arbitrary: i rule: spaced.induct)
    case (2 d free a as r rs)
    then show ?case by (cases i; cases as; cases rs) auto
  qed auto
  with sp show ?thesis by blast
qed

lemma RateLimit_spacing_witness:
  "releases 10 0 [5, 6, 40] = [5, 15, 40] \<and> releases 10 0 [5, 6, 40] ! 0 + 10 \<le> releases 10 0 [5, 6, 40] ! Suc 0"
proof -
  have "sorted [5::instant, 6, 40]" "(0::duration) < 10" "list_all (\<lambda>n. 0 \<le> n) [5::instant, 6, 40]" "int (length [5::instant, 6, 40]) * 10 \<le> max_duration"
    by (simp_all add: max_duration_def)
  from RateLimit_spacing [OF this] have "\<forall>i. Suc i < length [5::instant, 6, 40] \<longrightarrow> releases 10 0 [5, 6, 40] ! i + 10 \<le> releases 10 0 [5, 6, 40] ! Suc i" by blast
  then have "releases 10 0 [5, 6, 40] ! 0 + 10 \<le> releases 10 0 [5, 6, 40] ! Suc 0" by simp
  moreover have "releases 10 0 [5, 6, 40] = [5, 15, 40]" by code_simp
  ultimately show ?thesis by simp
qed

text \<open>The released instants are those at which the limited provider is called.\<close>

lemma RateLimit_calls:
  assumes "interval > 0" and "\<And>t w. cancelled t w = None"
  shows "calls (RateLimit interval cancelled (of_backend b)) (map (\<lambda>n. (n, ref)) ns) (next, ()) =
    map (\<lambda>t. b t ref) (releases interval next ns)"
  using assms by (induction ns arbitrary: "next") (auto simp: RateLimit_def of_backend_def split: prod.split)

subsection \<open>Batches and audits are transparent\<close>

lemma wrapper_batch_pointwise:
  assumes "\<And>r. r \<in> set refs \<Longrightarrow> conclusive (b now r)"
  shows "fst (wrapper_ResolveBatch (of_backend b) now refs out ()) =
    Inr (out ++ map_of (rev (map (\<lambda>r. (r_Raw r, projr (b now r))) (filter (\<lambda>r. \<not> isl (b now r)) refs))))"
  using assms
proof (induction refs arbitrary: out)
  case (Cons r refs)
  then have "conclusive (b now r)" by simp
  then show ?case using Cons by (cases "b now r") (auto simp: of_backend_def conclusive_def)
qed simp

lemma Audit_transparent: "fst (Audit inner now ref (log, s)) = fst (inner now ref s)" "snd (snd (Audit inner now ref (log, s))) = snd (inner now ref s)"
  by (simp_all add: Audit_def split: prod.split)

subsection \<open>Choosing a watch\<close>

text \<open>\<^verbatim>\<open>watchref.go\<close>: the native watch where there is one and it starts, the polling adapter otherwise.\<close>

definition watchRef :: "(Ref \<Rightarrow> err + 'ch) option \<Rightarrow> (Ref \<Rightarrow> 'ch) \<Rightarrow> Ref \<Rightarrow> 'ch" where
  "watchRef native poll ref = (case native of
     Some watch \<Rightarrow> (case watch ref of Inl _ \<Rightarrow> poll ref | Inr ch \<Rightarrow> ch)
   | None \<Rightarrow> poll ref)"

text \<open>A decorator always offers a watch; over a provider without one it still ends in polling the decorator itself.\<close>

lemma watchRef_wrapper:
  "watchRef (Some (wrapper_Watch inner mapRef)) poll ref =
     (case inner of None \<Rightarrow> poll ref | Some w \<Rightarrow> (case w (mapRef ref) of Inl _ \<Rightarrow> poll ref | Inr ch \<Rightarrow> ch))"
  by (auto simp: watchRef_def wrapper_Watch_def split: option.splits)

end
