(* ===== verification/Builtins.thy ===== *)
theory Builtins
  imports Values
begin

text \<open>
  The built-in providers (\<^verbatim>\<open>builtin_env.go\<close>, \<^verbatim>\<open>builtin_file.go\<close>, \<^verbatim>\<open>builtin_dotenv.go\<close>, \<^verbatim>\<open>builtin_exec.go\<close>) with the
  parsers they are made of. The environment, the file system and the running of a command are parameters. A
  failure of the file system carries what \<^verbatim>\<open>errors.Is\<close> tells of it.
\<close>

subsection \<open>Environment and files\<close>

definition env_Resolve :: "(string \<rightharpoonup> string) \<Rightarrow> Ref \<Rightarrow> err + Value" where
  "env_Resolve env ref = (case env (r_Path ref) of
     None \<Rightarrow> Inl (Sentinel ErrNotFound)
   | Some v \<Rightarrow> Inr (zero_Value\<lparr>v_Bytes := v, v_Version := VersionHash v\<rparr>))"

datatype fs_err = FsNotExist err | FsPermission err | FsOther err

record file_sys =
  fs_Stat :: "string \<Rightarrow> fs_err + (int \<times> int)"
  fs_ReadFile :: "string \<Rightarrow> fs_err + bytes"

definition classifyFileErr :: "fs_err \<Rightarrow> err" where
  "classifyFileErr e = (case e of
     FsNotExist _ \<Rightarrow> Sentinel ErrNotFound
   | FsPermission x \<Rightarrow> Errorf ''mamori: file'' [Sentinel ErrPermissionDenied, x]
   | FsOther x \<Rightarrow> Errorf ''mamori: file'' [x])"

definition dec_of_int :: "int \<Rightarrow> string" where
  "dec_of_int i = (if i < 0 then CHR ''-'' # dec_of_nat (nat (- i)) else dec_of_nat (nat i))"

text \<open>The bytes of a file with the version made of its size and its time of modification.\<close>

definition read_versioned :: "file_sys \<Rightarrow> string \<Rightarrow> err + (bytes \<times> string)" where
  "read_versioned fs path = (case fs_Stat fs path of
     Inl e \<Rightarrow> Inl (classifyFileErr e)
   | Inr (sz, mtime) \<Rightarrow> (case fs_ReadFile fs path of
        Inl e \<Rightarrow> Inl (classifyFileErr e)
      | Inr b \<Rightarrow> Inr (b, dec_of_int sz @ ''-'' @ dec_of_int mtime)))"

definition file_Resolve :: "file_sys \<Rightarrow> Ref \<Rightarrow> err + Value" where
  "file_Resolve fs ref = (case read_versioned fs (r_Path ref) of
     Inl e \<Rightarrow> Inl e
   | Inr (b, ver) \<Rightarrow> Inr (zero_Value\<lparr>v_Bytes := b, v_Version := ver\<rparr>))"

text \<open>
  The watch loop: events of the directory, the debounce timer, errors of the notifier. A timer event carries what
  the re-read finds then; it counts only while the timer is armed.
\<close>

datatype file_event = TargetEvent | OtherEvent | DebounceFires "err + Value" | WatcherError err

definition emit_answer :: "err + Value \<Rightarrow> Update" where
  "emit_answer r = (case r of Inl e \<Rightarrow> \<lparr>u_Value = zero_Value, u_Err = Some e\<rparr> | Inr v \<Rightarrow> \<lparr>u_Value = v, u_Err = None\<rparr>)"

fun watch_events :: "bool \<Rightarrow> file_event list \<Rightarrow> Update list" where
  "watch_events armed [] = []"
| "watch_events armed (TargetEvent # evs) = watch_events True evs"
| "watch_events armed (OtherEvent # evs) = watch_events armed evs"
| "watch_events armed (DebounceFires r # evs) = (if armed then emit_answer r # watch_events False evs else watch_events armed evs)"
| "watch_events armed (WatcherError e # evs) = \<lparr>u_Value = zero_Value, u_Err = Some e\<rparr> # watch_events armed evs"

definition watchFilePath :: "err + Value \<Rightarrow> file_event list \<Rightarrow> Update list" where
  "watchFilePath baseline evs = emit_answer baseline # watch_events False evs"

subsection \<open>Dotenv\<close>

text \<open>\<^verbatim>\<open>strings.NewReplacer\<close> with the five escapes; they differ in their second character.\<close>

fun unescape_dq :: "string \<Rightarrow> string" where
  "unescape_dq (a # b # s) =
     (if a = CHR 0x5C then
        (if b = CHR ''n'' then CHR 0x0A # unescape_dq s
         else if b = CHR ''r'' then CHR 0x0D # unescape_dq s
         else if b = CHR ''t'' then CHR 0x09 # unescape_dq s
         else if b = CHR 0x22 then CHR 0x22 # unescape_dq s
         else if b = CHR 0x5C then CHR 0x5C # unescape_dq s
         else a # unescape_dq (b # s))
      else a # unescape_dq (b # s))"
| "unescape_dq s = s"

definition parseDotenvValue :: "string \<Rightarrow> string" where
  "parseDotenvValue v =
     (if length v \<ge> 2 \<and> hd v = CHR 0x27 \<and> last v = CHR 0x27 then butlast (tl v)
      else if length v \<ge> 2 \<and> hd v = CHR 0x22 \<and> last v = CHR 0x22 then unescape_dq (butlast (tl v))
      else trim_space (case before_sub '' #'' v of Some u \<Rightarrow> u | None \<Rightarrow> v))"

definition dotenv_line :: "string \<Rightarrow> (string \<times> string) option" where
  "dotenv_line line0 = (let line = trim_space line0 in
     if line = [] \<or> has_prefix ''#'' line then None
     else (case cut CHR ''='' (trim_prefix ''export '' line) of
        None \<Rightarrow> None
      | Some (k, val) \<Rightarrow> let key = trim_space k in if key = [] then None else Some (key, parseDotenvValue (trim_space val))))"

definition parseDotenv :: "bytes \<Rightarrow> (string \<rightharpoonup> string)" where
  "parseDotenv b = foldl (\<lambda>m line. case dotenv_line line of None \<Rightarrow> m | Some (k, v) \<Rightarrow> m(k \<mapsto> v)) Map.empty (split_on CHR 0x0A b)"

definition dotenv_Resolve :: "file_sys \<Rightarrow> Ref \<Rightarrow> err + Value" where
  "dotenv_Resolve fs ref = (case read_versioned fs (r_Path ref) of
     Inl e \<Rightarrow> Inl e
   | Inr (b, ver) \<Rightarrow>
      if r_Key ref = [] then Inr (zero_Value\<lparr>v_Bytes := b, v_Version := ver\<rparr>)
      else (case parseDotenv b (r_Key ref) of
         None \<Rightarrow> Inl (Errorf ''mamori: dotenv: key not present'' [Sentinel ErrNotFound])
       | Some v \<Rightarrow> Inr (zero_Value\<lparr>v_Bytes := v, v_Version := ver\<rparr>)))"

subsection \<open>Commands\<close>

text \<open>The text in double quotes, up to the closing one.\<close>

fun dq_scan :: "string \<Rightarrow> (string \<times> string) option" where
  "dq_scan [] = None"
| "dq_scan (a # s) =
     (if a = CHR 0x5C \<and> s \<noteq> [] then (case dq_scan (tl s) of None \<Rightarrow> None | Some (q, r) \<Rightarrow> Some (hd s # q, r))
      else if a = CHR 0x22 then Some ([], s)
      else (case dq_scan s of None \<Rightarrow> None | Some (q, r) \<Rightarrow> Some (a # q, r)))"

lemma dq_scan_shorter: "dq_scan s = Some (q, r) \<Longrightarrow> length r < length s"
proof (induction s arbitrary: q r rule: dq_scan.induct)
  case (2 a s)
  then show ?case by (cases s) (fastforce split: if_splits option.splits)+
qed simp

lemma cut_shorter: "cut c s = Some (a, b) \<Longrightarrow> length b < length s"
  by (auto dest: cut_SomeD)

definition invalid :: "string \<Rightarrow> err" where "invalid m = Errorf m [Sentinel ErrInvalid]"

function split_loop :: "string \<Rightarrow> string list \<Rightarrow> string \<Rightarrow> bool \<Rightarrow> err + string list" where
  "split_loop [] args cur has = Inr (if has then args @ [cur] else args)"
| "split_loop (c # s) args cur has =
     (if c = CHR 0x27 then (case cut CHR 0x27 s of
          None \<Rightarrow> Inl (invalid ''unterminated single quote'')
        | Some (q, r) \<Rightarrow> split_loop r args (cur @ q) True)
      else if c = CHR 0x22 then (case dq_scan s of
          None \<Rightarrow> Inl (invalid ''unterminated double quote'')
        | Some (q, r) \<Rightarrow> split_loop r args (cur @ q) True)
      else if c = CHR 0x5C then (case s of
          [] \<Rightarrow> Inl (invalid ''trailing backslash'')
        | d # r \<Rightarrow> split_loop r args (cur @ [d]) True)
      else if c \<in> {CHR '' '', CHR 0x09, CHR 0x0A, CHR 0x0D} then
        (if has then split_loop s (args @ [cur]) [] False else split_loop s args cur has)
      else split_loop s args (cur @ [c]) True)"
  by pat_completeness auto
termination
  by (relation "measure (\<lambda>(s, _). length s)") (auto dest!: cut_shorter dq_scan_shorter)

declare split_loop.simps(2) [simp del]

definition splitArgs :: "string \<Rightarrow> err + string list" where
  "splitArgs s = split_loop s [] [] False"

text \<open>What came of running a command: its output, or an error that is or is not one of permission.\<close>

definition exec_Resolve :: "(string \<Rightarrow> string list \<Rightarrow> (bool \<times> err) + bytes) \<Rightarrow> Ref \<Rightarrow> err + Value" where
  "exec_Resolve run ref = (case splitArgs (r_Path ref) of
     Inl e \<Rightarrow> Inl (Errorf ''mamori: exec'' [e])
   | Inr [] \<Rightarrow> Inl (Errorf ''mamori: exec: empty command'' [Sentinel ErrInvalid])
   | Inr (f # argv) \<Rightarrow> (case run f argv of
        Inl (permission, e) \<Rightarrow> Inl (if permission then Errorf ''mamori: exec'' [Sentinel ErrPermissionDenied, e] else Errorf ''mamori: exec'' [e])
      | Inr b \<Rightarrow> Inr (zero_Value\<lparr>v_Bytes := b, v_Version := VersionHash b, v_Sensitive := True\<rparr>)))"

subsection \<open>Quoting and splitting\<close>

definition esc_dq :: "string \<Rightarrow> string" where
  "esc_dq s = concat (map (\<lambda>c. if c = CHR 0x22 \<or> c = CHR 0x5C then [CHR 0x5C, c] else [c]) s)"

lemma dq_scan_esc: "dq_scan (esc_dq a @ CHR 0x22 # s) = Some (a, s)"
  by (induction a) (auto simp: esc_dq_def)

definition arg_plain :: "char \<Rightarrow> bool" where
  "arg_plain c = (c \<notin> {CHR 0x27, CHR 0x22, CHR 0x5C, CHR '' '', CHR 0x09, CHR 0x0A, CHR 0x0D})"

text \<open>The ways to write an argument.\<close>

inductive quoting :: "string \<Rightarrow> string \<Rightarrow> bool" where
  bare: "a \<noteq> [] \<Longrightarrow> list_all arg_plain a \<Longrightarrow> quoting a a"
| single: "CHR 0x27 \<notin> set a \<Longrightarrow> quoting a (CHR 0x27 # a @ [CHR 0x27])"
| double: "quoting a (CHR 0x22 # esc_dq a @ [CHR 0x22])"

lemma split_bare: "list_all arg_plain a \<Longrightarrow> split_loop (a @ s) args cur has = split_loop s args (cur @ a) (has \<or> a \<noteq> [])"
proof (induction a arbitrary: cur has)
  case (Cons c a)
  then have "split_loop ((c # a) @ s) args cur has = split_loop (a @ s) args (cur @ [c]) True"
    by (simp add: split_loop.simps(2) arg_plain_def)
  then show ?case using Cons by simp
qed simp

lemma split_quoting: "quoting a q \<Longrightarrow> split_loop (q @ s) args [] False = split_loop s args a True"
proof (induction rule: quoting.induct)
  case (bare a)
  then show ?case by (simp add: split_bare)
next
  case (single a)
  then show ?case by (simp add: split_loop.simps(2) cut_append)
next
  case (double a)
  then show ?case by (simp add: split_loop.simps(2) dq_scan_esc)
qed

text \<open>
  Splitting a command line inverts quoting: whatever the arguments, empty ones and ones with blanks, quotes and
  backslashes included, and whichever way each is written (bare where it needs no quotes, in single
  quotes where it has none, in double quotes with quotes and backslashes escaped), the line of the written
  arguments splits into exactly them.\<close>

lemma splitArgs_quoting:
  assumes "list_all2 quoting args qs"
  shows "splitArgs (join_with '' '' qs) = Inr args"
proof -
  have "split_loop (join_with '' '' qs) done [] False = Inr (done @ args)" for "done"
    using assms
  proof (induction args qs arbitrary: "done" rule: list_all2_induct)
    case (Cons a args q qs)
    show ?case
    proof (cases "qs = []")
      case True
      then show ?thesis using Cons.hyps split_quoting [OF Cons.hyps(1), of "[]"] by simp
    next
      case False
      then have "split_loop (join_with '' '' (q # qs)) done [] False = split_loop ('' '' @ join_with '' '' qs) done a True"
        by (simp add: join_with_Cons split_quoting [OF Cons.hyps(1)])
      also have "\<dots> = split_loop (join_with '' '' qs) (done @ [a]) [] False" by (simp add: split_loop.simps(2))
      finally show ?thesis using Cons.IH by simp
    qed
  qed simp
  then show ?thesis by (simp add: splitArgs_def)
qed

lemma splitArgs_quoting_witness:
  "splitArgs (''sh -c '' @ [CHR 0x22] @ ''echo '' @ [CHR 0x5C, CHR 0x22] @ ''hi'' @ [CHR 0x5C, CHR 0x22, CHR 0x22])
     = Inr [''sh'', ''-c'', ''echo '' @ [CHR 0x22] @ ''hi'' @ [CHR 0x22]]"
proof -
  let ?a = "''echo '' @ [CHR 0x22] @ ''hi'' @ [CHR 0x22]"
  have "quoting ''sh'' ''sh''" "quoting ''-c'' ''-c''" by (rule quoting.bare; simp add: arg_plain_def)+
  then have "list_all2 quoting [''sh'', ''-c'', ?a] [''sh'', ''-c'', CHR 0x22 # esc_dq ?a @ [CHR 0x22]]"
    using quoting.double [of ?a] by simp
  from splitArgs_quoting [OF this] show ?thesis by (simp add: esc_dq_def)
qed

subsection \<open>Writing and reading a dotenv file\<close>

definition esc_env :: "string \<Rightarrow> string" where
  "esc_env v = concat (map (\<lambda>c. if c = CHR 0x0A then [CHR 0x5C, CHR ''n''] else if c = CHR 0x0D then [CHR 0x5C, CHR ''r'']
     else if c = CHR 0x09 then [CHR 0x5C, CHR ''t''] else if c = CHR 0x22 \<or> c = CHR 0x5C then [CHR 0x5C, c] else [c]) v)"

lemma unescape_plain: "c \<noteq> CHR 0x5C \<Longrightarrow> unescape_dq (c # s) = c # unescape_dq s"
  by (cases s) auto

lemma unescape_esc: "unescape_dq (esc_env v) = v"
  by (induction v) (auto simp: esc_env_def unescape_plain)

lemma esc_env_no_newline: "CHR 0x0A \<notin> set (esc_env v)"
  by (induction v) (auto simp: esc_env_def)

definition env_key :: "string \<Rightarrow> bool" where
  "env_key k = (k \<noteq> [] \<and> list_all graphic k \<and> CHR ''='' \<notin> set k \<and> hd k \<noteq> CHR ''#'')"

definition env_line :: "string \<times> string \<Rightarrow> string" where
  "env_line kv = fst kv @ CHR ''='' # CHR 0x22 # esc_env (snd kv) @ [CHR 0x22]"

lemma has_prefix_before: "has_prefix p (k @ c # t) \<Longrightarrow> c \<notin> set p \<Longrightarrow> has_prefix p k"
  by (induction p k rule: has_prefix.induct) auto

lemma graphic_quote: "graphic (CHR 0x22)" and not_graphic: "\<not> graphic (CHR '' '')" "\<not> graphic (CHR 0x0A)"
  by code_simp+

lemma dotenv_line_env_line:
  assumes "env_key k"
  shows "dotenv_line (env_line (k, v)) = Some (k, v)"
proof -
  have k: "k \<noteq> []" "list_all graphic k" "CHR ''='' \<notin> set k" "hd k \<noteq> CHR ''#''" using assms by (auto simp: env_key_def)
  let ?val = "CHR 0x22 # esc_env v @ [CHR 0x22]"
  have edges: "graphic (hd k)" "graphic (last k)" using k(1,2) by (simp_all add: list_all_iff)
  have line: "trim_space (env_line (k, v)) = env_line (k, v)"
    using k(1) edges(1) graphic_quote by (intro trim_space_trimmed graphic_trimmed) (auto simp: env_line_def)
  have key: "trim_space k = k" using k(1) edges by (intro trim_space_trimmed graphic_trimmed)
  have val: "trim_space ?val = ?val" using graphic_quote by (intro trim_space_trimmed graphic_trimmed) auto
  have "\<not> has_prefix ''export '' k"
    using k(2) not_graphic(1) by (auto simp: has_prefix_iff list_all_iff)
  then have noexp: "trim_prefix ''export '' (env_line (k, v)) = env_line (k, v)"
    using has_prefix_before [of "''export ''" k "CHR ''=''" ?val] by (auto simp: trim_prefix_def env_line_def)
  have start: "env_line (k, v) \<noteq> []" "\<not> has_prefix ''#'' (env_line (k, v))" using k(1,4) by (cases k; simp add: env_line_def)+
  have "cut CHR ''='' (env_line (k, v)) = Some (k, ?val)" using cut_append [OF k(3)] by (simp add: env_line_def)
  moreover have "parseDotenvValue ?val = v" by (simp add: parseDotenvValue_def unescape_esc)
  ultimately show ?thesis using start k(1) by (simp add: dotenv_line_def line noexp key val Let_def)
qed

text \<open>
  A dotenv file reads back as it was written: for any list of variables whose names are visible text without an equals
  sign or a leading hash, and any values at all (line breaks, quotes and backslashes included), the file of
  their lines, with the values in double quotes and escaped, parses to exactly those variables, the last
  one winning where a name repeats.\<close>

lemma parseDotenv_round_trip:
  assumes "list_all (\<lambda>kv. env_key (fst kv)) kvs"
  shows "parseDotenv (join_with [CHR 0x0A] (map env_line kvs)) = map_of (rev kvs)"
proof (cases "kvs = []")
  case True
  have "dotenv_line [] = None" by code_simp
  then show ?thesis using True by (simp add: parseDotenv_def)
next
  case False
  have "CHR 0x0A \<notin> set (env_line kv)" if "kv \<in> set kvs" for kv
    using assms that not_graphic(2) esc_env_no_newline by (auto simp: env_line_def list_all_iff env_key_def)
  then have "split_on CHR 0x0A (join_with [CHR 0x0A] (map env_line kvs)) = map env_line kvs"
    using False by (intro split_on_join) auto
  moreover have "foldl (\<lambda>m line. case dotenv_line line of None \<Rightarrow> m | Some (k, v) \<Rightarrow> m(k \<mapsto> v)) m (map env_line kvs) = m ++ map_of (rev kvs)" for m
    using assms
  proof (induction kvs arbitrary: m)
    case (Cons kv kvs)
    obtain k v where kv: "kv = (k, v)" by (cases kv)
    then show ?case using Cons by (simp add: dotenv_line_env_line)
  qed simp
  ultimately show ?thesis by (simp add: parseDotenv_def)
qed

lemma parseDotenv_round_trip_witness:
  "parseDotenv (''A='' @ [CHR 0x22] @ ''x'' @ [CHR 0x5C] @ ''n'' @ [CHR 0x5C, CHR 0x22, CHR 0x22, CHR 0x0A] @ ''B_2='' @ [CHR 0x22, CHR 0x22]) ''A''
     = Some [CHR ''x'', CHR 0x0A, CHR 0x22]"
proof -
  let ?kvs = "[(''A'', [CHR ''x'', CHR 0x0A, CHR 0x22]), (''B_2'', [])]"
  have "list_all (\<lambda>kv. env_key (fst kv)) ?kvs" by code_simp
  from parseDotenv_round_trip [OF this] show ?thesis by (simp add: env_line_def esc_env_def)
qed

subsection \<open>Watching a file\<close>

text \<open>Every change is read: whatever else happens, the timer that fires after a change of the target yields an update, and without a change nothing is read.\<close>

definition quiet_event :: "file_event \<Rightarrow> bool" where
  "quiet_event ev = (case ev of DebounceFires _ \<Rightarrow> False | _ \<Rightarrow> True)"

lemma watch_no_lost_change:
  assumes "list_all quiet_event mid"
  shows "\<exists>before after. watch_events armed (pre @ TargetEvent # mid @ DebounceFires r # post) = before @ emit_answer r # after"
proof -
  have armed: "\<exists>before after. watch_events True (mid @ DebounceFires r # post) = before @ emit_answer r # after"
    using assms
  proof (induction mid)
    case (Cons ev mid)
    then obtain before after where ih: "watch_events True (mid @ DebounceFires r # post) = before @ emit_answer r # after" by auto
    show ?case using ih Cons.prems by (cases ev) (auto simp: quiet_event_def, metis append_Cons)
  qed auto
  show ?thesis
  proof (induction pre arbitrary: armed)
    case (Cons ev pre)
    obtain before1 after1 where t: "watch_events True (pre @ TargetEvent # mid @ DebounceFires r # post) = before1 @ emit_answer r # after1" using Cons by blast
    obtain before2 after2 where f: "watch_events False (pre @ TargetEvent # mid @ DebounceFires r # post) = before2 @ emit_answer r # after2" using Cons by blast
    show ?case by (cases ev; cases armed) (auto simp: t f, (metis append_Cons)+)
  qed (use armed in simp)
qed

lemma watch_reads_bounded:
  "length (watch_events armed evs) \<le> (if armed then 1 else 0) + length (filter (\<lambda>ev. ev = TargetEvent \<or> (\<exists>e. ev = WatcherError e)) evs)"
  by (induction armed evs rule: watch_events.induct) auto

end
