(* ===== verification/Doctor.thy ===== *)
theory Doctor
  imports Engine
begin

text \<open>
  \<^verbatim>\<open>doctor.go\<close>, and the part of \<^verbatim>\<open>bootstrapstore.go\<close> it uses: the preflight that resolves every field once and
  reports on it. The text of an error in \<^verbatim>\<open>BootstrapStatus.Problem\<close> is rendered by a parameter. A derive hook that fails
  is taken to leave the config as it was before that hook.
\<close>

subsection \<open>Probing the sources\<close>

definition probeField :: "rt \<Rightarrow> providers \<Rightarrow> fieldSpec \<Rightarrow> err + (Value \<times> nat)" where
  "probeField R pv spec = resolveChain R pv (sp_Refs spec)"

text \<open>\<^verbatim>\<open>errors.As\<close> for a provider error: the first one on a depth-first walk.\<close>

fun first_some :: "'a option list \<Rightarrow> 'a option" where
  "first_some [] = None"
| "first_some (x # xs) = (case x of Some y \<Rightarrow> Some y | None \<Rightarrow> first_some xs)"

fun as_provider :: "err \<Rightarrow> (string \<times> string) option" where
  "as_provider (ProviderError s r e) = Some (s, r)"
| "as_provider (Errorf m es) = first_some (map as_provider es)"
| "as_provider (ValidationError e) = as_provider e"
| "as_provider (DeriveError e) = as_provider e"
| "as_provider (StaleError r e) = as_provider e"
| "as_provider (PreApplyError e) = as_provider e"
| "as_provider _ = None"

definition blank_status :: "path \<Rightarrow> bool \<Rightarrow> FieldStatus" where
  "blank_status p sens = \<lparr>fs_Path = p, fs_Scheme = [], fs_Ref = [], fs_Version = [], fs_LastOK = 0, fs_Age = 0, fs_Stale = False,
     fs_LastError = None, fs_LastKind = [], fs_Sensitive = sens, fs_Derived = False\<rparr>"

definition doctor_status :: "instant \<Rightarrow> fieldSpec \<Rightarrow> err + (Value \<times> nat) \<Rightarrow> FieldStatus" where
  "doctor_status now spec outcome =
     (let first = hd (sp_Refs spec);
          (scheme, ref) = (case outcome of
             Inr (_, idx) \<Rightarrow> (r_Scheme (sp_Refs spec ! idx), redactRef (sp_Refs spec ! idx))
           | Inl e \<Rightarrow> (case as_provider e of Some sr \<Rightarrow> sr | None \<Rightarrow> (r_Scheme first, redactRef first)));
          fs = (blank_status (sp_Path spec) (sp_Sensitive spec))\<lparr>fs_Scheme := scheme, fs_Ref := ref\<rparr>
      in case outcome of
           Inr (val, _) \<Rightarrow> fs\<lparr>fs_Version := v_Version val, fs_LastOK := now\<rparr>
         | Inl e \<Rightarrow>
            if err_is e ErrNotFound \<and> (sp_HasDefault spec \<or> sp_Optional spec) then fs\<lparr>fs_LastOK := now\<rparr>
            else fs\<lparr>fs_LastError := Some e, fs_LastKind := ErrorKind (Some e)\<rparr>)"

definition given :: "fieldSpec \<Rightarrow> Value \<Rightarrow> bool \<Rightarrow> resolved" where
  "given spec val found = \<lparr>rs_spec = spec, rs_value = val, rs_found = found, rs_set = True\<rparr>"

text \<open>What a probe adds to the values, or \<open>None\<close> when there is nothing \<^verbatim>\<open>Load\<close> would agree with.\<close>

definition doctor_entry :: "fieldSpec \<Rightarrow> err + (Value \<times> nat) \<Rightarrow> resolved list option" where
  "doctor_entry spec outcome = (case outcome of
     Inr (val, _) \<Rightarrow> Some [given spec val True]
   | Inl e \<Rightarrow>
      if err_is e ErrNotFound \<and> sp_HasDefault spec then Some [given spec (default_value spec) False]
      else if err_is e ErrNotFound \<and> sp_Optional spec then Some []
      else if sp_OnFail spec = onFailUseDefault then Some [given spec (default_value spec) False]
      else None)"

definition doctor_entries :: "rt \<Rightarrow> providers \<Rightarrow> fieldSpec list \<Rightarrow> resolved list option list" where
  "doctor_entries R pv specs = map (\<lambda>s. doctor_entry s (probeField R pv s)) specs"

definition sourcesComplete :: "rt \<Rightarrow> providers \<Rightarrow> fieldSpec list \<Rightarrow> bool" where
  "sourcesComplete R pv specs = list_all (\<lambda>x. x \<noteq> None) (doctor_entries R pv specs)"

definition doctor_res :: "rt \<Rightarrow> providers \<Rightarrow> fieldSpec list \<Rightarrow> resolved list" where
  "doctor_res R pv specs = concat (List.map_filter id (doctor_entries R pv specs))"

subsection \<open>Derived fields\<close>

fun dedup_paths :: "path list \<Rightarrow> path list \<Rightarrow> path list" where
  "dedup_paths seen [] = []"
| "dedup_paths seen (p # ps) = (if p \<in> set seen then dedup_paths seen ps else p # dedup_paths (p # seen) ps)"

definition deriveConfigErrorFields :: "gtype \<Rightarrow> options \<Rightarrow> err \<Rightarrow> FieldStatus list" where
  "deriveConfigErrorFields T o' err = map (\<lambda>p.
     (blank_status p (case fieldByPath T (zero_val T) p of Some (t, _, _) \<Rightarrow> is_secret t | None \<Rightarrow> False))
       \<lparr>fs_Derived := True, fs_LastError := Some err, fs_LastKind := KindInvalid\<rparr>)
     (dedup_paths [] (concat (map de_writes (o_derives o'))))"

text \<open>The hooks on a config: the config they leave and the error that stopped them.\<close>

fun derive_all :: "typedDerive list \<Rightarrow> gval \<Rightarrow> gval \<times> err option" where
  "derive_all [] cfg = (cfg, None)"
| "derive_all (d # ds) cfg = (case td_fn d cfg of Inl e \<Rightarrow> (cfg, Some (DeriveError e)) | Inr cfg' \<Rightarrow> derive_all ds cfg')"

definition doctor_derive :: "rt \<Rightarrow> gtype \<Rightarrow> typedDerive list \<Rightarrow> resolved list \<Rightarrow> gval \<times> err option" where
  "doctor_derive R T derives res = (case buildInto R (zero_val T) res of
     Inl e \<Rightarrow> (zero_val T, Some e)
   | Inr cfg \<Rightarrow> derive_all derives cfg)"

definition doctor_derived_status :: "rt \<Rightarrow> gtype \<Rightarrow> bool \<Rightarrow> gval \<Rightarrow> err option \<Rightarrow> path \<Rightarrow> FieldStatus list" where
  "doctor_derived_status R T complete cfg deriveErr p = (case fieldByPath T cfg p of
     Some (t, v, True) \<Rightarrow>
       (let fs = (blank_status p (is_secret t))\<lparr>fs_Derived := True\<rparr>
        in [if \<not> complete then fs\<lparr>fs_LastError := Some (Opaque ''not evaluated: a source field is unreachable'')\<rparr>
            else (case deriveErr of
               Some e \<Rightarrow> fs\<lparr>fs_LastError := Some e, fs_LastKind := KindInvalid\<rparr>
             | None \<Rightarrow> fs\<lparr>fs_Version := derivedVersion R (t, v, True)\<rparr>)])
   | _ \<Rightarrow> [])"

definition doctorDerivedFields :: "rt \<Rightarrow> gtype \<Rightarrow> options \<Rightarrow> fieldSpec list \<Rightarrow> resolved list \<Rightarrow> bool \<Rightarrow> FieldStatus list \<times> bool" where
  "doctorDerivedFields R T o' specs res complete = (case typedDerives T o' of
     Inl err \<Rightarrow> (deriveConfigErrorFields T o' err, False)
   | Inr derives \<Rightarrow>
      if derives = [] then ([], True)
      else (let (cfg, deriveErr) = (if complete then doctor_derive R T derives res else (zero_val T, None));
                out = derived_walk (doctor_derived_status R T complete cfg deriveErr) specs [] (concat (map td_writes derives))
            in (out, \<not> list_ex fieldUnhealthy out)))"

subsection \<open>The bootstrap snapshot\<close>

definition doctorSource :: "options \<Rightarrow> ConfigSource" where
  "doctorSource o' = (if o_bootstrap o' = None then SourceNone else SourceBackend)"

definition bootstrapStatusFor :: "(err \<Rightarrow> string) \<Rightarrow> crypto \<Rightarrow> rt \<Rightarrow> io \<Rightarrow> options \<Rightarrow> disk \<Rightarrow> fieldSpec list \<Rightarrow> instant \<Rightarrow> BootstrapStatus option" where
  "bootstrapStatusFor text C R w o' d specs now = (case o_bootstrap o' of
     None \<Rightarrow> None
   | Some bc \<Rightarrow>
      let bs = \<lparr>bs_Present = False, bs_Restored = False, bs_WrittenAt = 0, bs_Age = 0, bs_FingerprintMatch = False, bs_Problem = []\<rparr> in
      (case bc_err bc of
         Some e \<Rightarrow> Some (bs\<lparr>bs_Problem := text e\<rparr>)
       | None \<Rightarrow> (case readBootstrapSnapshot C w bc d of
            Inl e \<Rightarrow> Some (bs\<lparr>bs_Problem := text e\<rparr>)
          | Inr s \<Rightarrow>
             let match = (schemaFingerprint C R specs = sn_Fingerprint s)
             in Some (bs\<lparr>bs_Present := True, bs_WrittenAt := sn_WrittenAt s, bs_Age := time_sub now (sn_WrittenAt s),
                  bs_FingerprintMatch := match,
                  bs_Problem := (if match then [] else ''the snapshot was written for a different config struct and cannot be restored'')\<rparr>))))"

subsection \<open>The report\<close>

definition Doctor :: "(err \<Rightarrow> string) \<Rightarrow> crypto \<Rightarrow> rt \<Rightarrow> gtype \<Rightarrow> options \<Rightarrow> env \<Rightarrow> disk \<Rightarrow> err + Report" where
  "Doctor text C R T o' en d = (case fieldSpecs R T (o_refVars o') of
     Inl e \<Rightarrow> Inl e
   | Inr specs \<Rightarrow>
      (let now = en_now en; pv = en_pv en;
           fields = map (\<lambda>s. doctor_status now s (probeField R pv s)) specs;
           (derived, derivedHealthy) = doctorDerivedFields R T o' specs (doctor_res R pv specs) (sourcesComplete R pv specs)
       in Inr \<lparr>rp_Fields = fields @ derived, rp_Snapshot = 0, rp_Live = 0, rp_Pinned = False,
            rp_Healthy = (\<not> list_ex fieldUnhealthy fields \<and> derivedHealthy), rp_GeneratedAt = now,
            rp_Source = doctorSource o', rp_Bootstrap = bootstrapStatusFor text C R (en_io en) o' d specs now\<rparr>))"

subsection \<open>Agreement with \<^verbatim>\<open>Load\<close>\<close>

text \<open>The probe entry of one field stands for what \<^verbatim>\<open>resolveOne\<close> makes of it.\<close>

lemma doctor_entry_resolveOne:
  assumes "spec_wf s"
  shows "case resolveOne R pv (init_resolved s) of
      Inl e \<Rightarrow> doctor_entry s (probeField R pv s) = None
    | Inr r \<Rightarrow> \<exists>es. doctor_entry s (probeField R pv s) = Some es \<and> (\<forall>dst. buildInto R dst es = buildInto R dst [r])"
  using assms
  by (auto simp: resolveOne_def doctor_entry_def probeField_def init_resolved_def applyDefault_def applyOnFail_def
      spec_wf_def setResolved_def given_def buildInto_def split: sum.splits)

lemma buildInto_append: "buildInto R dst (xs @ ys) = bind_res (buildInto R dst xs) (\<lambda>d. buildInto R d ys)"
  unfolding buildInto_def by (induction xs arbitrary: dst) (auto split: sum.splits)

lemma buildInto_Cons: "buildInto R dst (x # xs) = bind_res (buildInto R dst [x]) (\<lambda>d. buildInto R d xs)"
  using buildInto_append [of R dst "[x]" xs] by simp

lemma doctor_res_Nil [simp]: "doctor_res R pv [] = []"
  by (simp add: doctor_res_def doctor_entries_def List.map_filter_def)

lemma doctor_res_Cons: "doctor_entry s (probeField R pv s) = Some es \<Longrightarrow> doctor_res R pv (s # ss) = es @ doctor_res R pv ss"
  by (simp add: doctor_res_def doctor_entries_def List.map_filter_def)

lemma doctor_map_res:
  assumes "\<forall>s\<in>set ss. spec_wf s"
  shows "case map_res (\<lambda>s. resolveOne R pv (init_resolved s)) ss of
      Inl e \<Rightarrow> \<not> sourcesComplete R pv ss
    | Inr res \<Rightarrow> sourcesComplete R pv ss \<and> (\<forall>dst. buildInto R dst (doctor_res R pv ss) = buildInto R dst res)"
  using assms
proof (induction ss)
  case Nil
  then show ?case by (simp add: sourcesComplete_def doctor_entries_def)
next
  case (Cons s ss)
  have step: "sourcesComplete R pv (s # ss) \<longleftrightarrow> doctor_entry s (probeField R pv s) \<noteq> None \<and> sourcesComplete R pv ss"
    by (simp add: sourcesComplete_def doctor_entries_def)
  show ?case
  proof (cases "resolveOne R pv (init_resolved s)")
    case (Inl e)
    then show ?thesis using doctor_entry_resolveOne [of s R pv] Cons.prems step by simp
  next
    case (Inr r)
    then obtain es where es: "doctor_entry s (probeField R pv s) = Some es" "\<And>dst. buildInto R dst es = buildInto R dst [r]"
      using doctor_entry_resolveOne [of s R pv] Cons.prems by auto
    have b: "buildInto R dst (r # rs) = bind_res (buildInto R dst es) (\<lambda>d. buildInto R d rs)" for dst rs
      using buildInto_Cons [of R dst r rs] es(2) by simp
    show ?thesis using Cons.IH Cons.prems Inr step es(1)
      by (auto simp: doctor_res_Cons [OF es(1)] buildInto_append b split: sum.splits)
  qed
qed

text \<open>A config with the error that stopped the hooks, as a result.\<close>

definition outcome :: "gval \<times> err option \<Rightarrow> err + gval" where
  "outcome r = (case snd r of None \<Rightarrow> Inr (fst r) | Some e \<Rightarrow> Inl e)"

lemma derive_all_run: "outcome (derive_all ds cfg) = run_derives ds cfg"
  by (induction ds arbitrary: cfg) (auto simp: run_derives_def outcome_def split: sum.splits)

lemma doctor_derive_candidate: "outcome (doctor_derive R T ds res) = candidate_of R T ds res"
  by (auto simp: candidate_of_def doctor_derive_def derive_all_run split: sum.splits) (simp add: outcome_def)

lemma map_res_cong: "(\<And>x. x \<in> set xs \<Longrightarrow> f x = g x) \<Longrightarrow> map_res f xs = map_res g xs"
  by (induction xs) (auto split: sum.splits)

text \<open>Every scheme of a single-ref field is registered.\<close>

definition registered :: "providers \<Rightarrow> fieldSpec list \<Rightarrow> bool" where
  "registered pv specs \<longleftrightarrow> (\<forall>s\<in>set specs. length (sp_Refs s) = 1 \<longrightarrow> pv (r_Scheme (hd (sp_Refs s))) \<noteq> None)"

text \<open>A provider that is registered for the scheme of a single-ref field answers a batch as it answers one ref at a time.\<close>

definition batches_agree :: "providers \<Rightarrow> fieldSpec list \<Rightarrow> bool" where
  "batches_agree pv specs \<longleftrightarrow> (\<forall>s\<in>set specs. length (sp_Refs s) = 1 \<longrightarrow>
     (case pv (r_Scheme (hd (sp_Refs s))) of None \<Rightarrow> True | Some p \<Rightarrow> batch_agrees p (group_refs specs (r_Scheme (hd (sp_Refs s))))))"

lemma batches_agree_field:
  assumes "batches_agree pv specs" "registered pv specs" "s \<in> set specs"
  shows "field_result R pv specs s = resolveOne R pv (init_resolved s)"
proof (cases "length (sp_Refs s) = 1")
  case True
  then obtain p where "pv (r_Scheme (hd (sp_Refs s))) = Some p" using assms(2,3) by (auto simp: registered_def)
  moreover from this have "batch_agrees p (group_refs specs (r_Scheme (hd (sp_Refs s))))"
    using assms(1,3) True unfolding batches_agree_def by fastforce
  ultimately show ?thesis using field_result_resolveOne [OF assms(3) True] by blast
qed (simp add: field_result_def)

lemma unregistered_fails:
  assumes "\<not> registered pv specs"
  shows "map_res (field_result R pv specs) specs \<noteq> Inr out"
proof -
  obtain s where "s \<in> set specs" "length (sp_Refs s) = 1" "pv (r_Scheme (hd (sp_Refs s))) = None" using assms by (auto simp: registered_def)
  then have "\<exists>x\<in>set specs. \<exists>e. field_result R pv specs x = Inl e" by (auto simp: field_result_def intro!: bexI [of _ s])
  then show ?thesis using map_res_fails_iff [of "field_result R pv specs" specs] by auto
qed

text \<open>The specification of the one field of \<^verbatim>\<open>demo_T\<close>.\<close>

definition demo_doctor_spec :: fieldSpec where
  "demo_doctor_spec = \<lparr>sp_Path = ''A'', sp_Refs = [\<lparr>r_Scheme = ''env'', r_Path = ''A'', r_Key = [], r_Opts = [], r_Raw = ''env:A''\<rparr>],
     sp_Default = ''d'', sp_HasDefault = True, sp_Flatten = [], sp_Optional = False, sp_Index = [0],
     sp_Type = TString, sp_Sensitive = False, sp_OnFail = onFailKeepLast\<rparr>"


text \<open>
  A single-ref field with a default for failures whose scheme nobody registered: \<^verbatim>\<open>resolveAll\<close> refuses the whole load before the field's policy is asked, while \<^verbatim>\<open>Doctor\<close>, which resolves the field as a chain, applies
  the policy and calls the sources complete.
\<close>

lemma unregistered_default_split:
  "(\<exists>e. resolveAll demo_rt (\<lambda>_. None) [''env''] [demo_doctor_spec\<lparr>sp_OnFail := onFailUseDefault\<rparr>] = Inl e)
   \<and> sourcesComplete demo_rt (\<lambda>_. None) [demo_doctor_spec\<lparr>sp_OnFail := onFailUseDefault\<rparr>]"
proof
  have "isl (resolveAll demo_rt (\<lambda>_. None) [''env''] [demo_doctor_spec\<lparr>sp_OnFail := onFailUseDefault\<rparr>])" by code_simp
  then show "\<exists>e. resolveAll demo_rt (\<lambda>_. None) [''env''] [demo_doctor_spec\<lparr>sp_OnFail := onFailUseDefault\<rparr>] = Inl e"
    by (cases "resolveAll demo_rt (\<lambda>_. None) [''env''] [demo_doctor_spec\<lparr>sp_OnFail := onFailUseDefault\<rparr>]") auto
  show "sourcesComplete demo_rt (\<lambda>_. None) [demo_doctor_spec\<lparr>sp_OnFail := onFailUseDefault\<rparr>]" by code_simp
qed


end
