(* ===== verification/Tags.thy ===== *)
theory Tags
  imports Refs
begin

text \<open>
  \<^verbatim>\<open>cmd/mamori/internal/sourcetag/sourcetag.go\<close>: how the static commands and the vet analyzer read a \<^verbatim>\<open>source\<close> tag, without
  the core's parser. What they see of a chain is compared with what \<^verbatim>\<open>ParseRefs\<close> makes of it at run time.
\<close>

subsection \<open>Sets of schemes\<close>

type_synonym SchemeSet = "string set"

definition SchemeSet_Add :: "string list \<Rightarrow> SchemeSet \<Rightarrow> SchemeSet" where
  "SchemeSet_Add schemes S = S \<union> set (filter (\<lambda>s. s \<noteq> []) schemes)"

definition defaultSecretSchemes :: "string list" where
  "defaultSecretSchemes = [''aws-sm'', ''gcp-sm'', ''azure-kv'', ''vault'', ''op'', ''sops'', ''doppler'', ''infisical'', ''hcp-vs'',
     ''supabase'', ''k8s-secret'', ''bitwarden-sm'', ''heroku'', ''aws-ps'', ''exec'', ''mamori'']"

definition DefaultSecretSchemes :: SchemeSet where
  "DefaultSecretSchemes = SchemeSet_Add defaultSecretSchemes {}"

definition SchemeSet_Sorted :: "SchemeSet \<Rightarrow> string list" where
  "SchemeSet_Sorted S = sorted_list_of_set S"

text \<open>The regular expression \<^verbatim>\<open>^[a-zA-Z][a-zA-Z0-9+.\-]*$\<close>.\<close>

definition schemeToken :: "string \<Rightarrow> bool" where
  "schemeToken s = (case s of [] \<Rightarrow> False | c # t \<Rightarrow> is_alpha c \<and> list_all scheme_char t)"

fun scheme_list :: "string list \<Rightarrow> err + string list" where
  "scheme_list [] = Inr []"
| "scheme_list (part # parts) = (let scheme = trim_space part in
     if scheme = [] then scheme_list parts
     else if \<not> schemeToken scheme then Inl (Errorf ''invalid scheme: want a bare scheme token'' [])
     else map_sum id ((#) scheme) (scheme_list parts))"

definition ParseSchemeList :: "string \<Rightarrow> err + string list" where
  "ParseSchemeList list = scheme_list (split_on (CHR '','') list)"

subsection \<open>Reading a tag\<close>

text \<open>The regular expression \<^verbatim>\<open>^[a-zA-Z][a-zA-Z0-9+.\-]*:\<close>.\<close>

definition chainSchemeStart :: "string \<Rightarrow> bool" where
  "chainSchemeStart s = (case s of [] \<Rightarrow> False
     | c # t \<Rightarrow> is_alpha c \<and> (case dropWhile scheme_char t of [] \<Rightarrow> False | d # _ \<Rightarrow> d = CHR '':''))"

fun SplitChain_from :: "string \<Rightarrow> string \<Rightarrow> string list" where
  "SplitChain_from cur [] = [cur]"
| "SplitChain_from cur (c # s) =
     (if c = CHR '','' \<and> chainSchemeStart s then cur # SplitChain_from [] s
      else SplitChain_from (cur @ [c]) s)"

definition SplitChain :: "string \<Rightarrow> string list" where
  "SplitChain tag = SplitChain_from [] tag"

definition SchemeOf :: "string \<Rightarrow> string option" where
  "SchemeOf ref = (case cut (CHR '':'') (trim_space ref) of
     None \<Rightarrow> None | Some (s, _) \<Rightarrow> if s = [] then None else Some s)"

fun first_sensitive :: "SchemeSet \<Rightarrow> string list \<Rightarrow> string option" where
  "first_sensitive S [] = None"
| "first_sensitive S (part # parts) = (case SchemeOf part of
     Some c \<Rightarrow> if c \<in> S then Some c else first_sensitive S parts
   | None \<Rightarrow> first_sensitive S parts)"

definition FirstSensitiveScheme :: "SchemeSet \<Rightarrow> string \<Rightarrow> string option" where
  "FirstSensitiveScheme S tag = first_sensitive S (SplitChain (trim_space tag))"

definition IsSecretBearingScheme :: "string \<Rightarrow> bool" where
  "IsSecretBearingScheme scheme \<longleftrightarrow> scheme \<in> DefaultSecretSchemes"

text \<open>\<^verbatim>\<open>refPath\<close> of \<^verbatim>\<open>policy.go\<close>: the path of a ref, cut at the first of \<^verbatim>\<open>#\<close> and \<^verbatim>\<open>?\<close>.\<close>

definition refPath :: "string \<Rightarrow> string" where
  "refPath ref = (case SchemeOf ref of None \<Rightarrow> []
   | Some scheme \<Rightarrow> takeWhile (\<lambda>c. c \<noteq> CHR ''#'' \<and> c \<noteq> CHR ''?'')
       (trim_prefix ''//'' (trim_prefix (scheme @ '':'') (trim_space ref))))"

subsection \<open>Agreement with the core's parser\<close>

lemma cut_takeWhile: "cut c s = Some (a, b) \<Longrightarrow> a = takeWhile (\<lambda>x. x \<noteq> c) s"
  by (induction s arbitrary: a) (auto split: if_splits)

lemma takeWhile_both: "takeWhile P (takeWhile Q s) = takeWhile (\<lambda>x. P x \<and> Q x) s"
  by (induction s) auto

lemma takeWhile_notin: "c \<notin> set s \<Longrightarrow> takeWhile (\<lambda>x. x \<noteq> c) s = s"
  by (induction s) auto

text \<open>A ref the core parses has the scheme and the path the static commands read off it.\<close>

lemma ParseRef_static:
  assumes "ParseRef p = Inr r"
  shows "SchemeOf p = Some (r_Scheme r)" "refPath p = r_Path r"
proof -
  obtain sch rem where c: "cut (CHR '':'') (trim_space p) = Some (sch, rem)" "sch \<noteq> []"
    using assms by (auto simp: ParseRef_def Let_def split: if_splits option.splits)
  define rest where "rest = trim_prefix ''//'' rem"
  have r: "r_Scheme r = sch \<and> r_Path r = takeWhile (\<lambda>x. x \<noteq> CHR ''#'') (takeWhile (\<lambda>x. x \<noteq> CHR ''?'') rest)"
    using assms c
    by (auto simp: ParseRef_def Let_def cut_None_iff rest_def [symmetric] takeWhile_notin dest: cut_takeWhile split: if_splits option.splits)
      (metis cut_takeWhile takeWhile_notin)+
  show s: "SchemeOf p = Some (r_Scheme r)" using c r by (simp add: SchemeOf_def)
  have "trim_space p = (sch @ '':'') @ rem" using cut_SomeD [OF c(1)] by simp
  then have "trim_prefix (sch @ '':'') (trim_space p) = rem" by (metis trim_prefix_append)
  then show "refPath p = r_Path r" using s r by (simp add: refPath_def rest_def takeWhile_both)
qed

lemma map_res_static:
  "map_res ParseRef ps = Inr refs \<Longrightarrow>
     map SchemeOf ps = map (Some \<circ> r_Scheme) refs \<and> map refPath ps = map r_Path refs"
  by (induction ps arbitrary: refs) (auto simp: ParseRef_static split: sum.splits)

text \<open>No separator of the chain is followed by blanks.\<close>

fun compact :: "string \<Rightarrow> bool" where
  "compact [] = True"
| "compact (c # s) = ((c = CHR '','' \<and> schemeStart s \<longrightarrow> chainSchemeStart s) \<and> compact s)"

lemma chainSchemeStart_schemeStart: "chainSchemeStart s \<Longrightarrow> schemeStart s"
proof (cases s)
  case (Cons c t)
  assume "chainSchemeStart s"
  moreover from this have "\<not> re_space c" using Cons by (auto simp: chainSchemeStart_def re_space_def is_alpha_def code_def)
  ultimately show ?thesis using Cons by (simp add: chainSchemeStart_def schemeStart_def)
qed (simp add: chainSchemeStart_def)

lemma SplitChain_from_compact: "compact s \<Longrightarrow> SplitChain_from cur s = splitChain_from cur s"
  by (induction cur s rule: SplitChain_from.induct) (auto dest: chainSchemeStart_schemeStart)

lemma first_sensitive_find:
  "map SchemeOf ps = map (Some \<circ> g) rs \<Longrightarrow> first_sensitive S ps = find (\<lambda>s. s \<in> S) (map g rs)"
proof (induction ps arbitrary: rs)
  case (Cons p ps)
  then show ?case by (cases rs) auto
qed simp

text \<open>
  Where no separator is followed by blanks, the static commands see the chain that runs: the schemes and paths they
  read off a tag are those of the refs \<^verbatim>\<open>ParseRefs\<close> returns for it, in order, and the scheme they warn about is the first of those in
  the set of secret-bearing schemes.
\<close>

lemma tags_agree:
  assumes "ParseRefs tag = Inr refs" and "compact (trim_space tag)"
  shows "map SchemeOf (SplitChain (trim_space tag)) = map (Some \<circ> r_Scheme) refs
    \<and> map refPath (SplitChain (trim_space tag)) = map r_Path refs
    \<and> FirstSensitiveScheme S tag = find (\<lambda>s. s \<in> S) (map r_Scheme refs)"
proof -
  have "map_res ParseRef (SplitChain (trim_space tag)) = Inr refs"
    using assms SplitChain_from_compact [OF assms(2), of "[]"]
    by (auto simp: ParseRefs_def Let_def SplitChain_def splitChain_def split: if_splits)
  then have m: "map SchemeOf (SplitChain (trim_space tag)) = map (Some \<circ> r_Scheme) refs
      \<and> map refPath (SplitChain (trim_space tag)) = map r_Path refs" by (rule map_res_static)
  then show ?thesis using first_sensitive_find [of "SplitChain (trim_space tag)" r_Scheme refs S] by (simp add: FirstSensitiveScheme_def)
qed

lemma tags_agree_witness:
  "(\<exists>refs. ParseRefs ''env:A,vault://kv/a,b#k?x=1'' = Inr refs \<and> map r_Scheme refs = [''env'', ''vault''])
     \<and> map refPath (SplitChain ''env:A,vault://kv/a,b#k?x=1'') = [''A'', ''kv/a,b'']
     \<and> FirstSensitiveScheme DefaultSecretSchemes ''env:A,vault://kv/a,b#k?x=1'' = Some ''vault''"
proof -
  let ?tag = "''env:A,vault://kv/a,b#k?x=1''"
  have "case ParseRefs ?tag of Inr refs \<Rightarrow> map r_Scheme refs = [''env'', ''vault''] \<and> map r_Path refs = [''A'', ''kv/a,b''] | Inl _ \<Rightarrow> False"
    by code_simp
  then obtain refs where r: "ParseRefs ?tag = Inr refs" "map r_Scheme refs = [''env'', ''vault'']" "map r_Path refs = [''A'', ''kv/a,b'']"
    by (auto split: sum.splits)
  have t: "compact (trim_space ?tag)" "trim_space ?tag = ?tag" by code_simp+
  have d: "''env'' \<notin> DefaultSecretSchemes" "''vault'' \<in> DefaultSecretSchemes" by code_simp+
  show ?thesis using tags_agree [OF r(1) t(1), of DefaultSecretSchemes] r t(2) d by simp
qed

text \<open>No comma is followed at once by a scheme.\<close>

fun no_direct :: "string \<Rightarrow> bool" where
  "no_direct [] = True"
| "no_direct (c # s) = (\<not> (c = CHR '','' \<and> chainSchemeStart s) \<and> no_direct s)"

lemma SplitChain_from_no_direct: "no_direct s \<Longrightarrow> SplitChain_from cur s = [cur @ s]"
  by (induction cur s rule: SplitChain_from.induct) auto

text \<open>
  In a chain whose separators are all followed by blanks, which the core splits, the static commands see one ref: only the
  scheme at the front is looked at, and a secret-bearing one further down is missed.
\<close>

lemma spaced_chain_missed:
  assumes "no_direct (trim_space tag)"
  shows "SplitChain (trim_space tag) = [trim_space tag]
    \<and> FirstSensitiveScheme S tag = (case SchemeOf (trim_space tag) of Some c \<Rightarrow> if c \<in> S then Some c else None | None \<Rightarrow> None)"
  using SplitChain_from_no_direct [OF assms, of "[]"]
  by (simp add: FirstSensitiveScheme_def SplitChain_def split: option.split)

lemma spaced_chain_missed_witness:
  "(\<exists>a b. ParseRefs ''env:PORT, aws-sm://prod/db'' = Inr [a, b] \<and> r_Scheme b = ''aws-sm'' \<and> IsSecretBearingScheme (r_Scheme b))
     \<and> FirstSensitiveScheme DefaultSecretSchemes ''env:PORT, aws-sm://prod/db'' = None"
proof -
  let ?tag = "''env:PORT, aws-sm://prod/db''"
  have "case ParseRefs ?tag of Inr [a, b] \<Rightarrow> r_Scheme b = ''aws-sm'' | _ \<Rightarrow> False" by code_simp
  then have p: "\<exists>a b. ParseRefs ?tag = Inr [a, b] \<and> r_Scheme b = ''aws-sm''" by (auto split: sum.splits list.splits)
  have i: "IsSecretBearingScheme ''aws-sm''" "''env'' \<notin> DefaultSecretSchemes" by code_simp+
  have n: "no_direct (trim_space ?tag)" "SchemeOf (trim_space ?tag) = Some ''env''" by code_simp+
  show ?thesis using spaced_chain_missed [OF n(1), of DefaultSecretSchemes] p i n(2) by auto
qed

end
