(* ===== verification/StructWalk.thy ===== *)
theory StructWalk
  imports Tags Specs
begin

text \<open>
  \<^verbatim>\<open>cmd/mamori/extract.go\<close>, and \<^verbatim>\<open>derivedFields\<close> of \<^verbatim>\<open>derives.go\<close>: the fields the static commands find in a config struct. The
  loading of Go packages and the search for \<^verbatim>\<open>WithDerive\<close> calls are third-party analyses: the struct types found, in the order
  visited, and the declared write paths are arguments. Types are those of \<^verbatim>\<open>Specs\<close>, so the walk can be compared with
  the one the core makes at run time; the only types named \<^verbatim>\<open>secret.String\<close> and \<^verbatim>\<open>secret.Bytes\<close> are the library's.
\<close>

datatype FieldKind = KindSource | KindDerived | KindValidate

record Field =
  fd_Path :: path
  fd_Kind :: FieldKind
  fd_GoType :: string
  fd_Source :: string
  fd_Refs :: "string list"
  fd_Default :: string
  fd_HasDefault :: bool
  fd_Optional :: bool
  fd_Sensitive :: bool
  fd_OnFail :: string
  fd_Validate :: string

record StructInfo =
  si_Package :: string
  si_TypeName :: string
  si_Fields :: "Field list"
  si_DerivesIncomplete :: bool

subsection \<open>The walk\<close>

definition source_field :: "(gtype \<Rightarrow> string) \<Rightarrow> (string \<Rightarrow> string option) \<Rightarrow> path \<Rightarrow> gfield \<Rightarrow> string \<Rightarrow> Field" where
  "source_field ts sens p f source = \<lparr>fd_Path = p, fd_Kind = KindSource, fd_GoType = ts (f_Type f), fd_Source = source,
     fd_Refs = SplitChain source, fd_Default = tag_get (f_Tag f) ''default'', fd_HasDefault = (map_of (f_Tag f) ''default'' \<noteq> None),
     fd_Optional = (tag_get (f_Tag f) ''optional'' = ''true''), fd_Sensitive = (is_secret (f_Type f) \<or> sens source \<noteq> None),
     fd_OnFail = tag_get (f_Tag f) ''onfail'', fd_Validate = tag_get (f_Tag f) ''validate''\<rparr>"

definition validate_field :: "(gtype \<Rightarrow> string) \<Rightarrow> path \<Rightarrow> gfield \<Rightarrow> Field" where
  "validate_field ts p f = \<lparr>fd_Path = p, fd_Kind = KindValidate, fd_GoType = ts (f_Type f), fd_Source = [], fd_Refs = [],
     fd_Default = tag_get (f_Tag f) ''default'', fd_HasDefault = (map_of (f_Tag f) ''default'' \<noteq> None),
     fd_Optional = (tag_get (f_Tag f) ''optional'' = ''true''), fd_Sensitive = is_secret (f_Type f), fd_OnFail = [],
     fd_Validate = tag_get (f_Tag f) ''validate''\<rparr>"

fun walkFields :: "(gtype \<Rightarrow> string) \<Rightarrow> (string \<Rightarrow> string option) \<Rightarrow> path \<Rightarrow> gfield list \<Rightarrow> Field list" where
  "walkFields ts sens prefix [] = []"
| "walkFields ts sens prefix (GField name exported tag ty # fs) =
     (if \<not> exported then []
      else (case map_of tag ''source'' of
         Some source \<Rightarrow> [source_field ts sens (field_path prefix name) (GField name exported tag ty) source]
       | None \<Rightarrow> (case ty of
           TStruct _ sub \<Rightarrow> walkFields ts sens (field_path prefix name) sub
         | _ \<Rightarrow> if tag_get tag ''validate'' \<noteq> [] then [validate_field ts (field_path prefix name) (GField name exported tag ty)] else [])))
     @ walkFields ts sens prefix fs"

definition hasSourceTaggedField :: "gfield list \<Rightarrow> bool" where
  "hasSourceTaggedField fs = list_ex (\<lambda>f. f_Exported f \<and> map_of (f_Tag f) ''source'' \<noteq> None) fs"

subsection \<open>Derived fields\<close>

fun fieldByName :: "gfield list \<Rightarrow> string \<Rightarrow> gtype option" where
  "fieldByName [] name = None"
| "fieldByName (f # fs) name = (if f_Name f = name then Some (f_Type f) else fieldByName fs name)"

fun type_walk :: "gtype \<Rightarrow> string list \<Rightarrow> gtype option" where
  "type_walk t [] = Some t"
| "type_walk t (part # parts) = (case t of
     TStruct _ fs \<Rightarrow> (case fieldByName fs part of None \<Rightarrow> None | Some t' \<Rightarrow> type_walk t' parts)
   | _ \<Rightarrow> None)"

definition fieldTypeByPath :: "gtype \<Rightarrow> path \<Rightarrow> gtype option" where
  "fieldTypeByPath t p = type_walk t (split_on (CHR ''.'') p)"

text \<open>Promotion in place of the last entry at a declared path when it is validate-only.\<close>

fun promote :: "path \<Rightarrow> Field list \<Rightarrow> Field list" where
  "promote p [] = []"
| "promote p (f # fs) = (if p \<notin> fd_Path ` set fs \<and> fd_Path f = p \<and> fd_Kind f = KindValidate then f\<lparr>fd_Kind := KindDerived\<rparr> # fs
     else f # promote p fs)"

fun declared_fields :: "(gtype \<Rightarrow> string) \<Rightarrow> gtype \<Rightarrow> path set \<Rightarrow> path list \<Rightarrow> Field list" where
  "declared_fields ts T seen [] = []"
| "declared_fields ts T seen (p # ps) =
     (if p \<in> seen then declared_fields ts T seen ps
      else (case fieldTypeByPath T p of
        None \<Rightarrow> declared_fields ts T (insert p seen) ps
      | Some t \<Rightarrow> \<lparr>fd_Path = p, fd_Kind = KindDerived, fd_GoType = ts t, fd_Source = [], fd_Refs = [], fd_Default = [], fd_HasDefault = False,
          fd_Optional = False, fd_Sensitive = is_secret t, fd_OnFail = [], fd_Validate = []\<rparr> # declared_fields ts T (insert p seen) ps))"

text \<open>The walked fields after promotion, and the entries to append to them.\<close>

definition derivedFields :: "(gtype \<Rightarrow> string) \<Rightarrow> gtype \<Rightarrow> path list \<Rightarrow> Field list \<Rightarrow> Field list \<times> Field list" where
  "derivedFields ts T paths walked = (fold promote paths walked, declared_fields ts T (fd_Path ` set walked) paths)"

subsection \<open>Packages\<close>

record namedStruct =
  ns_name :: string
  ns_fields :: "gfield list"
  ns_file :: string
  ns_pos :: nat

fun first_named :: "string set \<Rightarrow> namedStruct list \<Rightarrow> namedStruct list" where
  "first_named seen [] = []"
| "first_named seen (s # ss) = (if ns_name s \<in> seen \<or> \<not> hasSourceTaggedField (ns_fields s) then first_named seen ss
     else s # first_named (insert (ns_name s) seen) ss)"

definition taggedStructs :: "namedStruct list \<Rightarrow> namedStruct list" where
  "taggedStructs found = sort_key ns_file (sort_key ns_pos (first_named {} found))"

definition struct_info :: "(gtype \<Rightarrow> string) \<Rightarrow> (string \<Rightarrow> string option) \<Rightarrow> (string \<Rightarrow> path list) \<Rightarrow> (string \<Rightarrow> bool) \<Rightarrow> string \<Rightarrow> namedStruct \<Rightarrow> StructInfo" where
  "struct_info ts sens declared incomplete pkg s =
     (let key = pkg @ ''.'' @ ns_name s;
          (walked, extra) = derivedFields ts (TStruct (ns_name s) (ns_fields s)) (declared key) (walkFields ts sens [] (ns_fields s))
      in \<lparr>si_Package = pkg, si_TypeName = ns_name s, si_Fields = walked @ extra, si_DerivesIncomplete = incomplete key\<rparr>)"

text \<open>A nil scheme set stands for the built-in one. \<open>pkgs\<close> are the packages with the struct types declared in each.\<close>

definition Extract :: "(gtype \<Rightarrow> string) \<Rightarrow> (string \<Rightarrow> path list) \<Rightarrow> (string \<Rightarrow> bool) \<Rightarrow> (string \<times> namedStruct list) list \<Rightarrow> string \<Rightarrow>
    SchemeSet option \<Rightarrow> StructInfo list" where
  "Extract ts declared incomplete pkgs typeName schemes =
     (let sens = FirstSensitiveScheme (case schemes of None \<Rightarrow> DefaultSecretSchemes | Some S \<Rightarrow> S)
      in concat (map (\<lambda>(pkg, found). map (struct_info ts sens declared incomplete pkg)
           (filter (\<lambda>s. typeName = [] \<or> ns_name s = typeName) (taggedStructs found))) (sort_key fst pkgs)))"

definition withoutValidateOnly :: "StructInfo list \<Rightarrow> StructInfo list" where
  "withoutValidateOnly structs = map (\<lambda>s. s\<lparr>si_Fields := filter (\<lambda>f. fd_Kind f \<noteq> KindValidate) (si_Fields s)\<rparr>) structs"

subsection \<open>The walk finds the fields that are resolved\<close>

text \<open>A source tag with no variables to expand, no blanks around it and none after its separators.\<close>

definition tidy :: "(string \<rightharpoonup> string) \<Rightarrow> string \<Rightarrow> bool" where
  "tidy vars source \<longleftrightarrow> expandRefVars source vars = Inr source \<and> trim_space source = source \<and> compact source"

text \<open>A static field describes a run-time specification.\<close>

definition describes :: "(string \<rightharpoonup> string) \<Rightarrow> Field \<Rightarrow> fieldSpec \<Rightarrow> bool" where
  "describes vars f s \<longleftrightarrow> fd_Path f = sp_Path s \<and> fd_Default f = sp_Default s \<and> fd_HasDefault f = sp_HasDefault s
     \<and> fd_Optional f = sp_Optional s \<and> (sp_Sensitive s \<longrightarrow> fd_Sensitive f)
     \<and> (tidy vars (fd_Source f) \<longrightarrow> map SchemeOf (fd_Refs f) = map (Some \<circ> r_Scheme) (sp_Refs s)
          \<and> map refPath (fd_Refs f) = map r_Path (sp_Refs s))"

definition sourced :: "Field list \<Rightarrow> Field list" where
  "sourced fs = filter (\<lambda>f. fd_Kind f = KindSource) fs"

lemma sourced_simps [simp]:
  "sourced [] = []" "sourced (xs @ ys) = sourced xs @ sourced ys" "sourced (source_field ts sens p f src # fs) = source_field ts sens p f src # sourced fs"
  "sourced (validate_field ts p f # fs) = sourced fs"
  by (simp_all add: sourced_def source_field_def validate_field_def)

lemma ParseRefs_static:
  assumes "ParseRefs tag = Inr refs" "trim_space tag = tag" "compact tag"
  shows "map SchemeOf (SplitChain tag) = map (Some \<circ> r_Scheme) refs \<and> map refPath (SplitChain tag) = map r_Path refs"
  using assms SplitChain_from_compact [OF assms(3), of "[]"]
  by (intro map_res_static) (auto simp: ParseRefs_def Let_def SplitChain_def splitChain_def split: if_splits)

lemma source_field_describes:
  assumes "sourced_spec R vars p idx f src = Inr s"
  shows "describes vars (source_field ts sens p f src) s"
  using assms ParseRefs_static
  by (auto simp: sourced_spec_def describes_def source_field_def tidy_def Let_def split: sum.splits if_splits)

lemma walkFields_walk_fields:
  "walk_fields R vars prefix index i fs = Inr specs \<Longrightarrow> list_all2 (describes vars) (sourced (walkFields ts sens prefix fs)) specs"
proof (induction ts sens prefix fs arbitrary: index i specs rule: walkFields.induct)
  case (2 ts sens prefix name exported tag ty fs)
  obtain here rest where h: "specs = here @ rest" "walk_fields R vars prefix index (Suc i) fs = Inr rest"
    "(if \<not> exported then Inr []
      else (case map_of tag ''source'' of
         None \<Rightarrow> (case ty of TStruct _ sub \<Rightarrow> walk_fields R vars (field_path prefix name) (index @ [i]) 0 sub | _ \<Rightarrow> Inr [])
       | Some source \<Rightarrow> map_sum id (\<lambda>s. [s])
           (sourced_spec R vars (field_path prefix name) (index @ [i]) (GField name exported tag ty) source))) = Inr here"
    using "2.prems" by (auto simp: map_sum_def split: sum.splits)
  have rest: "list_all2 (describes vars) (sourced (walkFields ts sens prefix fs)) rest" using "2.IH"(2) [OF h(2)] .
  show ?case
  proof (cases exported)
    case True
    then show ?thesis
    proof (cases "map_of tag ''source''")
      case None
      then show ?thesis using True h(1,3) rest "2.IH"(1) by (cases ty) (auto intro: list_all2_appendI)
    next
      case (Some source)
      then show ?thesis using True h(1,3) rest source_field_describes by (auto simp: map_sum_def split: sum.splits)
    qed
  next
    case False
    then show ?thesis using h rest by simp
  qed
qed simp

lemma sourced_promote: "sourced (fold promote ps fs) = sourced fs"
proof -
  have "sourced (promote p fs) = sourced fs" for p fs
    by (induction p fs rule: promote.induct) (auto simp: sourced_def)
  then show ?thesis by (induction ps arbitrary: fs) auto
qed

lemma sourced_declared: "sourced (declared_fields ts T seen ps) = []"
  by (induction ts T seen ps rule: declared_fields.induct) (auto simp: sourced_def split: option.splits)

lemma sourced_struct_info: "sourced (si_Fields (struct_info ts sens declared incomplete pkg s)) = sourced (walkFields ts sens [] (ns_fields s))"
  by (simp add: struct_info_def derivedFields_def Let_def sourced_promote sourced_declared)

text \<open>
  The static walk and the run-time walk find the same fields: for any config struct the core accepts, the sourced fields the
  static commands list, declared derive paths notwithstanding, are those of the core's specifications, in order, each with the
  path, default and optional flag the core uses, sensitive at least where the core says so, and, where its tag is tidy, with
  the core's chain of schemes and paths.
\<close>

lemma struct_info_describes:
  assumes "fieldSpecs R (TStruct (ns_name s) (ns_fields s)) vars = Inr specs"
  shows "list_all2 (describes vars) (sourced (si_Fields (struct_info ts sens declared incomplete pkg s))) specs"
  using assms walkFields_walk_fields [of R vars "[]" "[]" 0 "ns_fields s" specs ts sens]
  by (simp add: sourced_struct_info fieldSpecs_def walkSpecs_def)

lemma sourced_tidy_refs:
  assumes "list_all2 (describes vars) fs specs" "list_all (\<lambda>f. tidy vars (fd_Source f)) fs"
  shows "concat (map (\<lambda>f. map (\<lambda>r. (SchemeOf r, refPath r)) (fd_Refs f)) fs)
     = concat (map (\<lambda>s. map (\<lambda>r. (Some (r_Scheme r), r_Path r)) (sp_Refs s)) specs)"
  using assms
proof (induction rule: list_all2_induct)
  case (Cons f fs s specs)
  have "map (\<lambda>r. (SchemeOf r, refPath r)) (fd_Refs f) = zip (map SchemeOf (fd_Refs f)) (map refPath (fd_Refs f))"
    by (induction "fd_Refs f") (simp_all add: zip_map_map zip_same_conv_map)
  also have "\<dots> = map (\<lambda>r. (Some (r_Scheme r), r_Path r)) (sp_Refs s)"
    using Cons.hyps(1) Cons.prems by (simp add: describes_def zip_map_map zip_same_conv_map)
  finally show ?case using Cons.IH Cons.prems by simp
qed simp

definition demo_named :: namedStruct where
  "demo_named = \<lparr>ns_name = ''Config'', ns_fields =
     [GField ''Port'' True [(''source'', ''env:PORT,aws-ps://svc/port''), (''default'', ''80'')] (TInt 64),
      GField ''DB'' True [] (TStruct ''DB'' [GField ''Pass'' True [(''source'', ''aws-sm://prod/db#pass'')] TSecretString]),
      GField ''Name'' True [(''validate'', ''required'')] TString], ns_file = ''config.go'', ns_pos = 10\<rparr>"

definition demo_info :: StructInfo where
  "demo_info = struct_info (\<lambda>_. ''T'') (FirstSensitiveScheme DefaultSecretSchemes) (\<lambda>_. [''Name'']) (\<lambda>_. False) ''p'' demo_named"

end
