(* ===== verification/Grants.thy ===== *)
theory Grants
  imports StructWalk
begin

text \<open>
  \<^verbatim>\<open>cmd/mamori/policy.go\<close>, \<^verbatim>\<open>secretschemes.go\<close> and \<^verbatim>\<open>help.go\<close>: the access artifact derived from the refs of a config struct. Documents are
  records, as the code builds them before JSON encoding; the manifest is the text the code writes.
\<close>

subsection \<open>Arguments\<close>

definition wantsHelp :: "string list \<Rightarrow> bool" where
  "wantsHelp args = list_ex (\<lambda>a. a \<in> {''-h'', ''--help'', ''-help''}) args"

text \<open>The value and the number of arguments consumed, 0 when the first argument is another one.\<close>

definition matchSecretSchemes :: "string list \<Rightarrow> err + (string \<times> nat)" where
  "matchSecretSchemes args = (case args of [] \<Rightarrow> Inr ([], 0)
   | a # rest \<Rightarrow>
      if a = ''--secret-schemes'' \<or> a = ''-secret-schemes''
      then (case rest of [] \<Rightarrow> Inl (Errorf (a @ '' requires a value'') []) | v # _ \<Rightarrow> Inr (v, 2))
      else if has_prefix ''--secret-schemes='' a then Inr (trim_prefix ''--secret-schemes='' a, 1)
      else if has_prefix ''-secret-schemes='' a then Inr (trim_prefix ''-secret-schemes='' a, 1)
      else Inr ([], 0))"

definition secretSchemeSet :: "string \<Rightarrow> err + SchemeSet option" where
  "secretSchemeSet list = (if list = [] then Inr None
     else (case ParseSchemeList list of
        Inl e \<Rightarrow> Inl (Errorf ''--secret-schemes'' [e])
      | Inr parsed \<Rightarrow> Inr (Some (SchemeSet_Add parsed DefaultSecretSchemes))))"

record policyArgs =
  pa_patterns :: "string list"
  pa_typeName :: string
  pa_format :: string
  pa_extra :: string

definition requires_value :: "string \<Rightarrow> err" where
  "requires_value a = Errorf (a @ '' requires a value'') []"

definition unknown_flag :: "string \<Rightarrow> err" where
  "unknown_flag a = Errorf (''unknown flag '' @ a) []"

fun policy_args :: "string list \<Rightarrow> policyArgs \<Rightarrow> err + policyArgs" where
  "policy_args [] o' = Inr o'"
| "policy_args [a] o' = (case matchSecretSchemes [a] of
     Inl e \<Rightarrow> Inl e
   | Inr (v, n) \<Rightarrow>
      if n > 0 then Inr (o'\<lparr>pa_extra := v\<rparr>)
      else if a \<in> {''--type'', ''-type'', ''--format'', ''-format''} then Inl (requires_value a)
      else if has_prefix ''--type='' a then Inr (o'\<lparr>pa_typeName := trim_prefix ''--type='' a\<rparr>)
      else if has_prefix ''-type='' a then Inr (o'\<lparr>pa_typeName := trim_prefix ''-type='' a\<rparr>)
      else if has_prefix ''--format='' a then Inr (o'\<lparr>pa_format := trim_prefix ''--format='' a\<rparr>)
      else if has_prefix ''-format='' a then Inr (o'\<lparr>pa_format := trim_prefix ''-format='' a\<rparr>)
      else if has_prefix ''-'' a then Inl (unknown_flag a)
      else Inr (o'\<lparr>pa_patterns := pa_patterns o' @ [a]\<rparr>))"
| "policy_args (a # b # args) o' = (case matchSecretSchemes [a, b] of
     Inl e \<Rightarrow> Inl e
   | Inr (v, n) \<Rightarrow>
      if n = 2 then policy_args args (o'\<lparr>pa_extra := v\<rparr>)
      else if n > 0 then policy_args (b # args) (o'\<lparr>pa_extra := v\<rparr>)
      else if a = ''--type'' \<or> a = ''-type'' then policy_args args (o'\<lparr>pa_typeName := b\<rparr>)
      else if has_prefix ''--type='' a then policy_args (b # args) (o'\<lparr>pa_typeName := trim_prefix ''--type='' a\<rparr>)
      else if has_prefix ''-type='' a then policy_args (b # args) (o'\<lparr>pa_typeName := trim_prefix ''-type='' a\<rparr>)
      else if a = ''--format'' \<or> a = ''-format'' then policy_args args (o'\<lparr>pa_format := b\<rparr>)
      else if has_prefix ''--format='' a then policy_args (b # args) (o'\<lparr>pa_format := trim_prefix ''--format='' a\<rparr>)
      else if has_prefix ''-format='' a then policy_args (b # args) (o'\<lparr>pa_format := trim_prefix ''-format='' a\<rparr>)
      else if has_prefix ''-'' a then Inl (unknown_flag a)
      else policy_args (b # args) (o'\<lparr>pa_patterns := pa_patterns o' @ [a]\<rparr>))"

definition parsePolicyArgs :: "string list \<Rightarrow> err + (policyArgs \<times> SchemeSet option)" where
  "parsePolicyArgs args = (case policy_args args \<lparr>pa_patterns = [], pa_typeName = [], pa_format = [], pa_extra = []\<rparr> of
     Inl e \<Rightarrow> Inl e
   | Inr o' \<Rightarrow> (case secretSchemeSet (pa_extra o') of Inl e \<Rightarrow> Inl e | Inr S \<Rightarrow> Inr (o', S)))"

definition supportedPolicyFormats :: "string list" where
  "supportedPolicyFormats = [''aws-iam'', ''gcp'', ''external-secret'']"

definition isSupportedPolicyFormat :: "string \<Rightarrow> bool" where
  "isSupportedPolicyFormat format \<longleftrightarrow> format \<in> set supportedPolicyFormats"

subsection \<open>Collecting the refs\<close>

type_synonym policyRefs = "(string \<times> string list) list"

definition sortedUniqueStrings :: "string list \<Rightarrow> string list" where
  "sortedUniqueStrings xs = remdups_adj (sort xs)"

definition field_pairs :: "Field \<Rightarrow> (string \<times> string) list" where
  "field_pairs f = (if fd_Kind f \<noteq> KindSource then []
     else List.map_filter (\<lambda>ref. map_option (\<lambda>scheme. (scheme, refPath ref)) (SchemeOf ref)) (fd_Refs f))"

definition policy_pairs :: "StructInfo list \<Rightarrow> (string \<times> string) list" where
  "policy_pairs structs = concat (map (\<lambda>s. concat (map field_pairs (si_Fields s))) structs)"

definition collectPolicyRefs :: "StructInfo list \<Rightarrow> policyRefs" where
  "collectPolicyRefs structs = (let pairs = policy_pairs structs
     in map (\<lambda>scheme. (scheme, sortedUniqueStrings (map snd (filter (\<lambda>p. fst p = scheme) pairs)))) (remdups (map fst pairs)))"

text \<open>Reading a bucket of the map; an absent key reads as a nil slice.\<close>

definition bucket :: "policyRefs \<Rightarrow> string \<Rightarrow> string list" where
  "bucket refs scheme = (case map_of refs scheme of None \<Rightarrow> [] | Some ps \<Rightarrow> ps)"

subsection \<open>IAM and GCP documents\<close>

record iamStatement =
  is_Sid :: string
  is_Effect :: string
  is_Action :: "string list"
  is_Resource :: "string list"

record iamPolicyDocument =
  ip_Version :: string
  ip_Statement :: "iamStatement list"

definition awsSecretARN :: "string \<Rightarrow> string" where
  "awsSecretARN path = ''arn:aws:secretsmanager:*:*:secret:'' @ path"

definition awsParameterARN :: "string \<Rightarrow> string" where
  "awsParameterARN path = ''arn:aws:ssm:*:*:parameter/'' @ trim_prefix ''/'' path"

text \<open>The document, and whether the note that nothing was found is printed.\<close>

definition writeAWSIAMPolicy :: "policyRefs \<Rightarrow> iamPolicyDocument \<times> bool" where
  "writeAWSIAMPolicy refs =
     (let secrets = bucket refs ''aws-sm''; params = bucket refs ''aws-ps'';
          st = (if secrets = [] then [] else [\<lparr>is_Sid = ''SecretsManagerGetSecretValue'', is_Effect = ''Allow'',
                  is_Action = [''secretsmanager:GetSecretValue''], is_Resource = map awsSecretARN secrets\<rparr>])
             @ (if params = [] then [] else [\<lparr>is_Sid = ''SSMGetParameter'', is_Effect = ''Allow'',
                  is_Action = [''ssm:GetParameter'', ''ssm:GetParameters''], is_Resource = map awsParameterARN params\<rparr>])
      in (\<lparr>ip_Version = ''2012-10-17'', ip_Statement = st\<rparr>, st = []))"

record gcpPolicyDocument =
  gp_role :: string
  gp_resources :: "string list"

definition gcpResourceName :: "string \<Rightarrow> string" where
  "gcpResourceName path = (case cut (CHR ''/'') path of
     None \<Rightarrow> ''projects/PROJECT/secrets/'' @ path
   | Some (project, secret) \<Rightarrow> if project = [] \<or> secret = [] then ''projects/PROJECT/secrets/'' @ path
       else ''projects/'' @ project @ ''/secrets/'' @ secret)"

definition writeGCPPolicy :: "policyRefs \<Rightarrow> gcpPolicyDocument \<times> bool" where
  "writeGCPPolicy refs = (let resources = sort (map gcpResourceName (bucket refs ''gcp-sm''))
     in (\<lparr>gp_role = ''roles/secretmanager.secretAccessor'', gp_resources = resources\<rparr>, resources = []))"

subsection \<open>Runes\<close>

text \<open>The bytes of the first rune of a string, as \<^verbatim>\<open>utf8.DecodeRune\<close> delimits it: an invalid byte stands alone.\<close>

definition in_range :: "nat \<Rightarrow> nat \<Rightarrow> char \<Rightarrow> bool" where
  "in_range lo hi c \<longleftrightarrow> lo \<le> code c \<and> code c \<le> hi"

definition rune_len4 :: "string \<Rightarrow> bool" where
  "rune_len4 s = (case s of
     a # b # c # d # _ \<Rightarrow>
       (code a = 0xF0 \<and> in_range 0x90 0xBF b \<or> in_range 0xF1 0xF3 a \<and> in_range 0x80 0xBF b \<or> code a = 0xF4 \<and> in_range 0x80 0x8F b)
          \<and> in_range 0x80 0xBF c \<and> in_range 0x80 0xBF d
   | _ \<Rightarrow> False)"

definition rune_len3 :: "string \<Rightarrow> bool" where
  "rune_len3 s = (case s of
     a # b # c # _ \<Rightarrow>
       (code a = 0xE0 \<and> in_range 0xA0 0xBF b \<or> in_range 0xE1 0xEC a \<and> in_range 0x80 0xBF b \<or> code a = 0xED \<and> in_range 0x80 0x9F b
          \<or> in_range 0xEE 0xEF a \<and> in_range 0x80 0xBF b) \<and> in_range 0x80 0xBF c
   | _ \<Rightarrow> False)"

definition rune_len2 :: "string \<Rightarrow> bool" where
  "rune_len2 s = (case s of a # b # _ \<Rightarrow> in_range 0xC2 0xDF a \<and> in_range 0x80 0xBF b | _ \<Rightarrow> False)"

definition rune_width :: "string \<Rightarrow> nat" where
  "rune_width s = (if rune_len4 s then 4 else if rune_len3 s then 3 else if rune_len2 s then 2 else 1)"

function runes :: "string \<Rightarrow> string list" where
  "runes [] = []"
| "runes (c # s) = take (rune_width (c # s)) (c # s) # runes (drop (rune_width (c # s)) (c # s))"
  by pat_completeness auto
termination by (relation "measure length") (auto simp: rune_width_def)

text \<open>\<^verbatim>\<open>WriteRune\<close>: the byte of an invalid encoding was read as the replacement character.\<close>

definition write_rune :: "string \<Rightarrow> string" where
  "write_rune r = (if length r = 1 \<and> code (hd r) \<ge> 0x80 then [CHR 0xEF, CHR 0xBF, CHR 0xBD] else r)"

subsection \<open>The ExternalSecret manifest\<close>

record esDataEntry =
  es_secretKey :: string
  es_remoteKey :: string

definition basename :: "string \<Rightarrow> string" where
  "basename path = rev (takeWhile (\<lambda>c. c \<noteq> CHR ''/'') (rev path))"

definition key_char :: "char \<Rightarrow> bool" where
  "key_char c \<longleftrightarrow> is_alpha c \<or> is_digit c \<or> c = CHR ''-'' \<or> c = CHR ''_'' \<or> c = CHR ''.''"

definition sanitizeSecretKey :: "string \<Rightarrow> string" where
  "sanitizeSecretKey s = map (\<lambda>r. if length r = 1 \<and> key_char (hd r) then hd r else CHR ''-'') (runes s)"

type_synonym es_state = "esDataEntry list \<times> (string \<Rightarrow> nat)"

definition es_add :: "string \<Rightarrow> string \<Rightarrow> es_state \<Rightarrow> es_state" where
  "es_add scheme remoteKey st = (case st of (entries, seen) \<Rightarrow>
     let base = sanitizeSecretKey (scheme @ ''-'' @ basename remoteKey); n = seen base;
         key = (if n > 0 then base @ ''-'' @ dec_of_nat (n + 1) else base)
     in (entries @ [\<lparr>es_secretKey = key, es_remoteKey = remoteKey\<rparr>], seen(base := n + 1)))"

definition gcp_remote :: "string \<Rightarrow> string" where
  "gcp_remote p = (case cut (CHR ''/'') p of Some (_, secret) \<Rightarrow> secret | None \<Rightarrow> p)"

definition es_remotes :: "policyRefs \<Rightarrow> (string \<times> string) list" where
  "es_remotes refs = map (Pair ''aws-sm'') (bucket refs ''aws-sm'') @ map (Pair ''aws-ps'') (bucket refs ''aws-ps'')
     @ map (\<lambda>p. (''gcp-sm'', gcp_remote p)) (bucket refs ''gcp-sm'')"

definition es_entries :: "policyRefs \<Rightarrow> esDataEntry list" where
  "es_entries refs = fst (fold (\<lambda>(scheme, key). es_add scheme key) (es_remotes refs) ([], \<lambda>_. 0))"

definition yamlSafeBare :: "string \<Rightarrow> bool" where
  "yamlSafeBare s \<longleftrightarrow> trim_space s = s \<and> hd s \<notin> set (''-?:,[]{}#&*!|>'' @ [CHR 0x27, CHR 0x22] @ ''%@'' @ [CHR 0x60])
     \<and> CHR '':'' \<notin> set s \<and> CHR ''#'' \<notin> set s
     \<and> to_lower s \<notin> set [''null'', ''~'', ''true'', ''false'', ''yes'', ''no'', ''on'', ''off'']"

definition yaml_rune :: "string \<Rightarrow> string" where
  "yaml_rune r = (if r = [CHR 0x22] \<or> r = [CHR 0x5C] then CHR 0x5C # r else write_rune r)"

definition yamlScalar :: "string \<Rightarrow> string" where
  "yamlScalar s = (if s \<noteq> [] \<and> yamlSafeBare s then s else [CHR 0x22] @ concat (map yaml_rune (runes s)) @ [CHR 0x22])"

definition nl :: string where "nl = [CHR 0x0A]"

definition renderExternalSecretYAML :: "esDataEntry list \<Rightarrow> string" where
  "renderExternalSecretYAML entries =
     concat (map (\<lambda>l. l @ nl) [''apiVersion: external-secrets.io/v1'', ''kind: ExternalSecret'', ''metadata:'', ''  name: mamori-managed-secrets'',
       ''spec:'', ''  secretStoreRef:'', ''    name: REPLACE_ME_SECRET_STORE'', ''    kind: SecretStore'', ''  target:'', ''    name: mamori-managed-secrets''])
     @ (if entries = [] then ''  data: []'' @ nl
        else ''  data:'' @ nl @ concat (map (\<lambda>e. ''    - secretKey: '' @ yamlScalar (es_secretKey e) @ nl @ ''      remoteRef:'' @ nl
               @ ''        key: '' @ yamlScalar (es_remoteKey e) @ nl) entries))"

definition writeExternalSecretManifest :: "policyRefs \<Rightarrow> string \<times> bool" where
  "writeExternalSecretManifest refs = (renderExternalSecretYAML (es_entries refs), es_entries refs = [])"

subsection \<open>The command\<close>

datatype policyOutcome = PolicyHelp | PolicyUsage err | PolicyBadFormat string | PolicyLoadError err
  | PolicyIAM "iamPolicyDocument \<times> bool" | PolicyGCP "gcpPolicyDocument \<times> bool" | PolicyManifest "string \<times> bool"

definition policyCmd :: "(string list \<Rightarrow> string \<Rightarrow> SchemeSet option \<Rightarrow> err + StructInfo list) \<Rightarrow> string list \<Rightarrow> policyOutcome" where
  "policyCmd extract args = (if wantsHelp args then PolicyHelp
     else (case parsePolicyArgs args of
        Inl e \<Rightarrow> PolicyUsage e
      | Inr (o', schemes) \<Rightarrow>
         if \<not> isSupportedPolicyFormat (pa_format o') then PolicyBadFormat (pa_format o')
         else (case extract (pa_patterns o') (pa_typeName o') schemes of
            Inl e \<Rightarrow> PolicyLoadError e
          | Inr structs \<Rightarrow>
             (let refs = collectPolicyRefs structs
              in if pa_format o' = ''aws-iam'' then PolicyIAM (writeAWSIAMPolicy refs)
                 else if pa_format o' = ''gcp'' then PolicyGCP (writeGCPPolicy refs)
                 else PolicyManifest (writeExternalSecretManifest refs)))))"

fun policy_exit :: "policyOutcome \<Rightarrow> nat" where
  "policy_exit (PolicyUsage _) = 1"
| "policy_exit (PolicyBadFormat _) = 2"
| "policy_exit (PolicyLoadError _) = 1"
| "policy_exit _ = 0"

subsection \<open>The artifact grants what is read\<close>

lemma map_of_tabulate: "map_of (map (\<lambda>k. (k, g k)) ks) k = (if k \<in> set ks then Some (g k) else None)"
  by (induction ks) auto

lemma bucket_collect:
  "bucket (collectPolicyRefs structs) scheme = sortedUniqueStrings (map snd (filter (\<lambda>p. fst p = scheme) (policy_pairs structs)))"
proof (cases "scheme \<in> fst ` set (policy_pairs structs)")
  case False
  then have "filter (\<lambda>p. fst p = scheme) (policy_pairs structs) = []" by (auto simp: filter_empty_conv)
  then show ?thesis using False by (simp add: bucket_def collectPolicyRefs_def map_of_tabulate sortedUniqueStrings_def Let_def)
next
  case True
  then show ?thesis by (simp add: bucket_def collectPolicyRefs_def map_of_tabulate Let_def)
qed

lemma remdups_adj_sorted: "sorted xs \<Longrightarrow> distinct (remdups_adj xs)"
  by (induction xs rule: remdups_adj.induct) auto

lemma sortedUniqueStrings_sorted: "sorted (sortedUniqueStrings xs)" "distinct (sortedUniqueStrings xs)"
  "set (sortedUniqueStrings xs) = set xs"
  by (simp_all add: sortedUniqueStrings_def remdups_adj_sorted sorted_remdups_adj)

lemma set_bucket: "set (bucket (collectPolicyRefs structs) scheme) = {p. (scheme, p) \<in> set (policy_pairs structs)}"
  by (force simp: bucket_collect sortedUniqueStrings_sorted)

lemma field_pairs_sourced: "concat (map field_pairs fs) = concat (map field_pairs (sourced fs))"
  by (induction fs) (auto simp: sourced_def field_pairs_def)

lemma field_pairs_static: "fd_Kind f = KindSource \<Longrightarrow>
    field_pairs f = List.map_filter (\<lambda>(s, p). map_option (\<lambda>s. (s, p)) s) (map (\<lambda>r. (SchemeOf r, refPath r)) (fd_Refs f))"
  by (simp add: field_pairs_def List.map_filter_def filter_map comp_def split_def map_option_is_None)

lemma map_filter_concat: "concat (map (\<lambda>x. List.map_filter g (h x)) xs) = List.map_filter g (concat (map h xs))"
  by (induction xs) (simp_all add: List.map_filter_def)

text \<open>The pairs of scheme and path the resolution of a struct can ask its providers for.\<close>

definition spec_reads :: "fieldSpec list \<Rightarrow> (string \<times> string) list" where
  "spec_reads specs = concat (map (\<lambda>s. map (\<lambda>r. (r_Scheme r, r_Path r)) (sp_Refs s)) specs)"

lemma policy_pairs_reads:
  assumes "list_all2 (describes vars) (sourced (si_Fields info)) specs" "list_all (\<lambda>f. tidy vars (fd_Source f)) (sourced (si_Fields info))"
  shows "policy_pairs [info] = spec_reads specs"
proof -
  let ?g = "\<lambda>(s, p). map_option (\<lambda>s. (s, p)) s"
  have k: "map field_pairs (sourced (si_Fields info))
      = map (\<lambda>f. List.map_filter ?g (map (\<lambda>r. (SchemeOf r, refPath r)) (fd_Refs f))) (sourced (si_Fields info))"
    by (rule map_cong) (auto simp: sourced_def field_pairs_static)
  have "policy_pairs [info] = List.map_filter ?g (concat (map (\<lambda>f. map (\<lambda>r. (SchemeOf r, refPath r)) (fd_Refs f)) (sourced (si_Fields info))))"
    using field_pairs_sourced [of "si_Fields info"] by (simp add: policy_pairs_def k map_filter_concat)
  also have "\<dots> = List.map_filter ?g (concat (map (\<lambda>s. map (\<lambda>r. (Some (r_Scheme r), r_Path r)) (sp_Refs s)) specs))"
    using sourced_tidy_refs [OF assms] by simp
  also have "\<dots> = spec_reads specs"
    by (simp add: spec_reads_def List.map_filter_def filter_concat map_concat filter_map comp_def)
  finally show ?thesis .
qed



subsection \<open>The keys of the manifest\<close>

lemma key_char_ascii: "key_char c \<Longrightarrow> code c < 0x80"
  by (auto simp: key_char_def is_alpha_def is_digit_def code_def)

lemma rune_width_ascii: "code c < 0x80 \<Longrightarrow> rune_width (c # s) = 1"
  by (auto simp: rune_width_def rune_len4_def rune_len3_def rune_len2_def in_range_def split: list.splits)

lemma runes_ascii: "list_all (\<lambda>c. code c < 0x80) s \<Longrightarrow> runes s = map (\<lambda>c. [c]) s"
  by (induction s) (simp_all add: rune_width_ascii)

lemma sanitize_plain: "list_all key_char s \<Longrightarrow> sanitizeSecretKey s = s"
proof -
  assume k: "list_all key_char s"
  then have "runes s = map (\<lambda>c. [c]) s" using key_char_ascii by (intro runes_ascii) (auto simp: list_all_iff)
  then show ?thesis using k by (auto simp: sanitizeSecretKey_def comp_def list_all_iff intro: map_idI)
qed

lemma sanitize_chars: "list_all key_char (sanitizeSecretKey s)"
  by (auto simp: sanitizeSecretKey_def list_all_iff key_char_def)

lemma es_add_keys:
  assumes "es_add scheme remote (es, seen) = (es', seen')"
  shows "\<exists>k. es' = es @ [\<lparr>es_secretKey = k, es_remoteKey = remote\<rparr>] \<and> list_all key_char k"
proof -
  have "list_all key_char (dec_of_nat n)" for n using dec_of_nat_digits by (auto simp: list_all_iff key_char_def)
  moreover have "key_char (CHR ''-'')" by (simp add: key_char_def)
  ultimately show ?thesis using assms sanitize_chars by (auto simp: es_add_def Let_def split: if_splits)
qed

text \<open>The entries are the refs in order, under keys Kubernetes accepts.\<close>

lemma es_entries_remote:
  "map es_remoteKey (es_entries refs) = map snd (es_remotes refs) \<and> list_all (\<lambda>e. list_all key_char (es_secretKey e)) (es_entries refs)"
proof -
  have "map es_remoteKey (fst (fold (\<lambda>(scheme, key). es_add scheme key) rs (es, seen))) = map es_remoteKey es @ map snd rs
     \<and> (list_all (\<lambda>e. list_all key_char (es_secretKey e)) es \<longrightarrow>
         list_all (\<lambda>e. list_all key_char (es_secretKey e)) (fst (fold (\<lambda>(scheme, key). es_add scheme key) rs (es, seen))))" for rs es seen
  proof (induction rs arbitrary: es seen)
    case (Cons r rs)
    obtain es' seen' where a: "es_add (fst r) (snd r) (es, seen) = (es', seen')" by fastforce
    from es_add_keys [OF a] show ?case using Cons.IH [of es' seen'] a by (auto simp: split_def)
  qed simp
  from this [of "es_remotes refs" "[]" "\<lambda>_. 0"] show ?thesis by (simp add: es_entries_def)
qed

text \<open>
  The manifest can map one Secret key to two secrets: the counter that tells refs with the same base name apart appends
  \<^verbatim>\<open>-2\<close> to the second, which is also the key of a ref whose base name ends in \<^verbatim>\<open>-2\<close>. Whatever the
  base name, three secrets suffice.
\<close>

lemma manifest_keys_collide:
  assumes "bucket refs ''aws-sm'' = [''a/'' @ b, b @ ''-2'', ''c/'' @ b]" "bucket refs ''aws-ps'' = []" "bucket refs ''gcp-sm'' = []"
    and "list_all key_char b"
  shows "map es_secretKey (es_entries refs) = [''aws-sm-'' @ b, ''aws-sm-'' @ b @ ''-2'', ''aws-sm-'' @ b @ ''-2'']
    \<and> map es_remoteKey (es_entries refs) = [''a/'' @ b, b @ ''-2'', ''c/'' @ b]"
proof -
  have ns: "CHR ''/'' \<notin> set b" using assms(4) by (auto simp: list_all_iff key_char_def is_alpha_def is_digit_def code_def)
  have base: "basename (''a/'' @ b) = b" "basename (''c/'' @ b) = b" "basename (b @ ''-2'') = b @ ''-2''"
    using ns by (simp_all add: basename_def takeWhile_tail takeWhile_append2 takeWhile_notin)
  have k: "list_all key_char ''aws-sm-''" "list_all key_char ''-2''" by code_simp+
  have san: "sanitizeSecretKey (''aws-sm-'' @ b) = ''aws-sm-'' @ b" "sanitizeSecretKey (''aws-sm-'' @ b @ ''-2'') = ''aws-sm-'' @ b @ ''-2''"
    using k assms(4) by (intro sanitize_plain; simp add: list_all_iff ball_Un)+
  have d: "dec_of_nat 2 = ''2''" by code_simp
  show ?thesis
    using assms(1-3) san d base by (simp add: es_entries_def es_remotes_def es_add_def Let_def numeral_2_eq_2 [symmetric])
qed


definition demo_collide :: StructInfo where
  "demo_collide = struct_info (\<lambda>_. ''string'') (FirstSensitiveScheme DefaultSecretSchemes) (\<lambda>_. []) (\<lambda>_. False) ''p''
     \<lparr>ns_name = ''C'', ns_fields = [GField ''A'' True [(''source'', ''aws-sm://a/bar'')] TString, GField ''B'' True [(''source'', ''aws-sm://bar-2'')] TString,
        GField ''C'' True [(''source'', ''aws-sm://c/bar'')] TString], ns_file = ''c.go'', ns_pos = 1\<rparr>"

lemma manifest_keys_collide_witness:
  "\<not> distinct (map es_secretKey (es_entries (collectPolicyRefs [demo_collide])))
     \<and> map es_remoteKey (es_entries (collectPolicyRefs [demo_collide])) = [''a/bar'', ''bar-2'', ''c/bar'']"
proof -
  let ?refs = "collectPolicyRefs [demo_collide]"
  have b: "bucket ?refs ''aws-sm'' = [''a/'' @ ''bar'', ''bar'' @ ''-2'', ''c/'' @ ''bar'']" "bucket ?refs ''aws-ps'' = []"
    "bucket ?refs ''gcp-sm'' = []" "list_all key_char ''bar''" by code_simp+
  show ?thesis using manifest_keys_collide [OF b] by simp
qed

end
