(* ===== verification/Surface.thy ===== *)
theory Surface
  imports Grants
begin

text \<open>
  \<^verbatim>\<open>cmd/mamori/diffmodel.go\<close> and \<^verbatim>\<open>diff.go\<close>: the comparison of two explain outputs and the exit code of \<^verbatim>\<open>mamori diff\<close>. Reading and decoding an
  operand is a parameter, rendering is not modelled.
\<close>

subsection \<open>The comparison\<close>

datatype ChangeKind = ChangeAdded | ChangeRemoved | ChangeModified | ChangeMoved

record AttrChange =
  ac_Name :: string
  ac_Base :: string
  ac_Head :: string

record RefChange =
  rc_Kind :: ChangeKind
  rc_Ref :: string
  rc_BasePos :: int
  rc_HeadPos :: int

record FieldDiff =
  fdf_Path :: path
  fdf_Kind :: ChangeKind
  fdf_Attrs :: "AttrChange list"
  fdf_Refs :: "RefChange list"
  fdf_BecameSensitive :: bool
  fdf_Field :: "Field option"

record StructDiff =
  sd_Package :: string
  sd_TypeName :: string
  sd_Kind :: ChangeKind
  sd_Fields :: "FieldDiff list"

record PrivilegeDelta =
  pd_Added :: policyRefs
  pd_Removed :: policyRefs

record Diff =
  df_Structs :: "StructDiff list"
  df_Privilege :: PrivilegeDelta

definition Diff_Empty :: "Diff \<Rightarrow> bool" where
  "Diff_Empty d \<longleftrightarrow> df_Structs d = [] \<and> pd_Added (df_Privilege d) = [] \<and> pd_Removed (df_Privilege d) = []"

definition PrivilegeGrew :: "Diff \<Rightarrow> bool" where
  "PrivilegeGrew d \<longleftrightarrow> pd_Added (df_Privilege d) \<noteq> []"

text \<open>The keys of two maps, each once, and one verdict per key: what the three comparisons have in common.\<close>

definition union_keys :: "'k list \<Rightarrow> 'k list \<Rightarrow> 'k list" where
  "union_keys xs ys = remdups (xs @ ys)"

definition verdicts :: "('k \<Rightarrow> 'v \<Rightarrow> 'r) \<Rightarrow> ('k \<Rightarrow> 'v \<Rightarrow> 'r) \<Rightarrow> ('k \<Rightarrow> 'v \<Rightarrow> 'v \<Rightarrow> 'r option) \<Rightarrow> ('k \<rightharpoonup> 'v) \<Rightarrow> ('k \<rightharpoonup> 'v) \<Rightarrow> 'k list \<Rightarrow> 'r list" where
  "verdicts removed added both base head keys = List.map_filter (\<lambda>k. case (base k, head k) of
     (Some b, None) \<Rightarrow> Some (removed k b)
   | (None, Some h) \<Rightarrow> Some (added k h)
   | (Some b, Some h) \<Rightarrow> both k b h
   | (None, None) \<Rightarrow> None) keys"

definition firstIndexOf :: "string list \<Rightarrow> (string \<rightharpoonup> int)" where
  "firstIndexOf chain = map_of (zip chain (map int [0..<length chain]))"

definition diffChain :: "string list \<Rightarrow> string list \<Rightarrow> RefChange list" where
  "diffChain base head = verdicts
     (\<lambda>r b. \<lparr>rc_Kind = ChangeRemoved, rc_Ref = r, rc_BasePos = b, rc_HeadPos = -1\<rparr>)
     (\<lambda>r h. \<lparr>rc_Kind = ChangeAdded, rc_Ref = r, rc_BasePos = -1, rc_HeadPos = h\<rparr>)
     (\<lambda>r b h. if b \<noteq> h then Some \<lparr>rc_Kind = ChangeMoved, rc_Ref = r, rc_BasePos = b, rc_HeadPos = h\<rparr> else None)
     (firstIndexOf base) (firstIndexOf head) (sort (union_keys base head))"

definition attrAbsent :: string where "attrAbsent = ''(none)''"

definition defaultAttr :: "Field \<Rightarrow> string" where
  "defaultAttr f = (if \<not> fd_HasDefault f then attrAbsent else fd_Default f)"

definition FormatBool :: "bool \<Rightarrow> string" where
  "FormatBool b = (if b then ''true'' else ''false'')"

definition attr_pairs :: "Field \<Rightarrow> (string \<times> string) list" where
  "attr_pairs f = [(''GoType'', fd_GoType f), (''Default'', defaultAttr f), (''Optional'', FormatBool (fd_Optional f)),
     (''Sensitive'', FormatBool (fd_Sensitive f)), (''OnFail'', fd_OnFail f), (''Validate'', fd_Validate f)]"

definition diffAttrs :: "Field \<Rightarrow> Field \<Rightarrow> AttrChange list" where
  "diffAttrs base head = List.map_filter (\<lambda>((n, b), (_, h)). if b \<noteq> h then Some \<lparr>ac_Name = n, ac_Base = b, ac_Head = h\<rparr> else None)
     (zip (attr_pairs base) (attr_pairs head))"

definition indexFields :: "Field list \<Rightarrow> (path \<rightharpoonup> Field)" where
  "indexFields fs = map_of (map (\<lambda>f. (fd_Path f, f)) fs)"

definition diffFields :: "Field list \<Rightarrow> Field list \<Rightarrow> FieldDiff list" where
  "diffFields base head = verdicts
     (\<lambda>p b. \<lparr>fdf_Path = p, fdf_Kind = ChangeRemoved, fdf_Attrs = [], fdf_Refs = [], fdf_BecameSensitive = False, fdf_Field = Some b\<rparr>)
     (\<lambda>p h. \<lparr>fdf_Path = p, fdf_Kind = ChangeAdded, fdf_Attrs = [], fdf_Refs = [], fdf_BecameSensitive = False, fdf_Field = Some h\<rparr>)
     (\<lambda>p b h. let attrs = diffAttrs b h; refs = diffChain (fd_Refs b) (fd_Refs h)
        in if attrs = [] \<and> refs = [] then None
           else Some \<lparr>fdf_Path = p, fdf_Kind = ChangeModified, fdf_Attrs = attrs, fdf_Refs = refs,
                  fdf_BecameSensitive = (\<not> fd_Sensitive b \<and> fd_Sensitive h), fdf_Field = None\<rparr>)
     (indexFields base) (indexFields head) (sort (union_keys (map fd_Path base) (map fd_Path head)))"

type_synonym structKey = "string \<times> string"

definition struct_key :: "StructInfo \<Rightarrow> structKey" where
  "struct_key s = (si_Package s, si_TypeName s)"

definition indexStructs :: "StructInfo list \<Rightarrow> (structKey \<rightharpoonup> StructInfo)" where
  "indexStructs ss = map_of (map (\<lambda>s. (struct_key s, s)) ss)"

definition missingFrom :: "string list \<Rightarrow> string list \<Rightarrow> string list" where
  "missingFrom want have = filter (\<lambda>w. w \<notin> set have) want"

definition unionSchemes :: "policyRefs \<Rightarrow> policyRefs \<Rightarrow> string list" where
  "unionSchemes a b = sort (union_keys (map fst a) (map fst b))"

definition gained :: "policyRefs \<Rightarrow> policyRefs \<Rightarrow> string list \<Rightarrow> policyRefs" where
  "gained want have schemes = List.map_filter (\<lambda>s. let m = missingFrom (bucket want s) (bucket have s)
     in if m = [] then None else Some (s, m)) schemes"

definition computePrivilegeDelta :: "StructInfo list \<Rightarrow> StructInfo list \<Rightarrow> PrivilegeDelta" where
  "computePrivilegeDelta base head =
     (let b = collectPolicyRefs base; h = collectPolicyRefs head; schemes = unionSchemes b h
      in \<lparr>pd_Added = gained h b schemes, pd_Removed = gained b h schemes\<rparr>)"

definition computeDiff :: "StructInfo list \<Rightarrow> StructInfo list \<Rightarrow> Diff" where
  "computeDiff base head = \<lparr>df_Structs = verdicts
       (\<lambda>k _. \<lparr>sd_Package = fst k, sd_TypeName = snd k, sd_Kind = ChangeRemoved, sd_Fields = []\<rparr>)
       (\<lambda>k _. \<lparr>sd_Package = fst k, sd_TypeName = snd k, sd_Kind = ChangeAdded, sd_Fields = []\<rparr>)
       (\<lambda>k b h. let fs = diffFields (si_Fields b) (si_Fields h)
          in if fs = [] then None else Some \<lparr>sd_Package = fst k, sd_TypeName = snd k, sd_Kind = ChangeModified, sd_Fields = fs\<rparr>)
       (indexStructs base) (indexStructs head)
       (sort_key fst (sort_key snd (union_keys (map struct_key base) (map struct_key head)))),
     df_Privilege = computePrivilegeDelta base head\<rparr>"

subsection \<open>The command\<close>

record diffOptions =
  do_operands :: "string list"
  do_jsonOut :: bool
  do_markdown :: bool
  do_exitCode :: string
  do_policyFormat :: string

fun diff_args :: "string list \<Rightarrow> diffOptions \<Rightarrow> err + diffOptions" where
  "diff_args [] o' = Inr o'"
| "diff_args (a # args) o' =
     (if a = ''--json'' \<or> a = ''-json'' then diff_args args (o'\<lparr>do_jsonOut := True\<rparr>)
      else if a = ''--markdown'' \<or> a = ''-markdown'' then diff_args args (o'\<lparr>do_markdown := True\<rparr>)
      else if a = ''--exit-code'' \<or> a = ''-exit-code'' then diff_args args (o'\<lparr>do_exitCode := ''any''\<rparr>)
      else if has_prefix ''--exit-code='' a then diff_args args (o'\<lparr>do_exitCode := trim_prefix ''--exit-code='' a\<rparr>)
      else if has_prefix ''-exit-code='' a then diff_args args (o'\<lparr>do_exitCode := trim_prefix ''-exit-code='' a\<rparr>)
      else if has_prefix ''--policy-format='' a then diff_args args (o'\<lparr>do_policyFormat := trim_prefix ''--policy-format='' a\<rparr>)
      else if has_prefix ''-policy-format='' a then diff_args args (o'\<lparr>do_policyFormat := trim_prefix ''-policy-format='' a\<rparr>)
      else if a = ''--policy-format'' \<or> a = ''-policy-format'' then
        (case args of [] \<Rightarrow> Inl (requires_value a) | v # rest \<Rightarrow> diff_args rest (o'\<lparr>do_policyFormat := v\<rparr>))
      else if a = ''-'' then diff_args args (o'\<lparr>do_operands := do_operands o' @ [a]\<rparr>)
      else if has_prefix ''-'' a then Inl (unknown_flag a)
      else diff_args args (o'\<lparr>do_operands := do_operands o' @ [a]\<rparr>))"

definition parseDiffArgs :: "string list \<Rightarrow> err + diffOptions" where
  "parseDiffArgs args = (case diff_args args \<lparr>do_operands = [], do_jsonOut = False, do_markdown = False, do_exitCode = [], do_policyFormat = []\<rparr> of
     Inl e \<Rightarrow> Inl e
   | Inr o' \<Rightarrow>
      if length (do_operands o') \<noteq> 2 then Inl (Errorf ''mamori diff: need exactly two operands (base and head)'' [])
      else if do_operands o' = [''-'', ''-''] then Inl (Errorf ''mamori diff: only one operand may be stdin'' [])
      else if do_jsonOut o' \<and> do_markdown o' then Inl (Errorf ''mamori diff: --json and --markdown are mutually exclusive'' [])
      else if do_exitCode o' \<notin> set [[], ''any'', ''privilege''] then Inl (Errorf ''mamori diff: unknown --exit-code value'' [])
      else if do_policyFormat o' \<notin> set ([] # supportedPolicyFormats) then Inl (Errorf ''mamori diff: unknown --policy-format'' [])
      else Inr o')"

text \<open>The exit code, with the comparison that is rendered when there is one.\<close>

definition diff_run :: "(string \<Rightarrow> err + StructInfo list) \<Rightarrow> string list \<Rightarrow> nat \<times> Diff option" where
  "diff_run load args = (if wantsHelp args then (0, None)
     else (case parseDiffArgs args of
        Inl e \<Rightarrow> (1, None)
      | Inr o' \<Rightarrow> (case load (do_operands o' ! 0) of
           Inl e \<Rightarrow> (1, None)
         | Inr base \<Rightarrow> (case load (do_operands o' ! 1) of
              Inl e \<Rightarrow> (1, None)
            | Inr head \<Rightarrow>
               (let d = computeDiff base head
                in (if do_exitCode o' = ''any'' then (if Diff_Empty d then 0 else 2)
                    else if do_exitCode o' = ''privilege'' then (if PrivilegeGrew d then 2 else 0)
                    else 0, Some d))))))"

subsection \<open>What a comparison reports\<close>

lemma map_filter_Nil: "List.map_filter f xs = [] \<longleftrightarrow> (\<forall>x\<in>set xs. f x = None)"
  by (induction xs) (auto simp: List.map_filter_def)

text \<open>Two maps with the same keys and related values.\<close>

definition agree :: "('v \<Rightarrow> 'v \<Rightarrow> bool) \<Rightarrow> ('k \<rightharpoonup> 'v) \<Rightarrow> ('k \<rightharpoonup> 'v) \<Rightarrow> bool" where
  "agree rel b h \<longleftrightarrow> (\<forall>k. rel_option rel (b k) (h k))"

lemma verdicts_Nil:
  assumes "dom b \<subseteq> set keys" "dom h \<subseteq> set keys" "\<And>k x y. both k x y = None \<longleftrightarrow> rel x y"
  shows "verdicts removed added both b h keys = [] \<longleftrightarrow> agree rel b h"
proof -
  have "verdicts removed added both b h keys = [] \<longleftrightarrow> (\<forall>k\<in>set keys. rel_option rel (b k) (h k))"
  proof -
    have "(case (b k, h k) of (Some x, None) \<Rightarrow> Some (removed k x) | (None, Some y) \<Rightarrow> Some (added k y)
        | (Some x, Some y) \<Rightarrow> both k x y | (None, None) \<Rightarrow> None) = None \<longleftrightarrow> rel_option rel (b k) (h k)" for k
      by (cases "b k"; cases "h k") (simp_all add: assms(3))
    then show ?thesis by (simp add: verdicts_def map_filter_Nil)
  qed
  moreover have "rel_option rel (b k) (h k)" if "k \<notin> set keys" for k
  proof -
    have "b k = None" "h k = None" using that assms(1,2) by auto
    then show ?thesis by simp
  qed
  ultimately show ?thesis unfolding agree_def by blast
qed

lemma set_union_keys [simp]: "set (union_keys xs ys) = set xs \<union> set ys"
  by (simp add: union_keys_def)

lemma dom_firstIndexOf: "dom (firstIndexOf chain) = set chain"
  by (simp add: firstIndexOf_def)

lemma diffChain_Nil: "diffChain base head = [] \<longleftrightarrow> firstIndexOf base = firstIndexOf head"
proof -
  have "diffChain base head = [] \<longleftrightarrow> agree (=) (firstIndexOf base) (firstIndexOf head)"
    unfolding diffChain_def by (rule verdicts_Nil) (auto simp: dom_firstIndexOf)
  then show ?thesis by (auto simp: agree_def option.rel_eq fun_eq_iff)
qed

text \<open>The fields a reviewer need not look at.\<close>

definition same_field :: "Field \<Rightarrow> Field \<Rightarrow> bool" where
  "same_field f g \<longleftrightarrow> fd_GoType f = fd_GoType g \<and> defaultAttr f = defaultAttr g \<and> fd_Optional f = fd_Optional g
     \<and> fd_Sensitive f = fd_Sensitive g \<and> fd_OnFail f = fd_OnFail g \<and> fd_Validate f = fd_Validate g
     \<and> firstIndexOf (fd_Refs f) = firstIndexOf (fd_Refs g)"

lemma diffAttrs_Nil: "diffAttrs f g = [] \<longleftrightarrow> attr_pairs f = attr_pairs g"
  by (auto simp: diffAttrs_def attr_pairs_def map_filter_Nil)

lemma same_field_iff: "same_field f g \<longleftrightarrow> diffAttrs f g = [] \<and> diffChain (fd_Refs f) (fd_Refs g) = []"
  by (auto simp: same_field_def diffAttrs_Nil diffChain_Nil attr_pairs_def FormatBool_def split: if_splits)

lemma diffFields_Nil: "diffFields base head = [] \<longleftrightarrow> agree same_field (indexFields base) (indexFields head)"
  unfolding diffFields_def
  by (rule verdicts_Nil) (auto simp: indexFields_def dom_map_of_conv_image_fst same_field_iff Let_def)

definition same_structs :: "StructInfo list \<Rightarrow> StructInfo list \<Rightarrow> bool" where
  "same_structs base head \<longleftrightarrow> agree (\<lambda>s t. agree same_field (indexFields (si_Fields s)) (indexFields (si_Fields t)))
     (indexStructs base) (indexStructs head)"

lemma diff_structs_Nil: "df_Structs (computeDiff base head) = [] \<longleftrightarrow> same_structs base head"
  unfolding computeDiff_def same_structs_def Diff.simps
  by (rule verdicts_Nil) (auto simp: indexStructs_def dom_map_of_conv_image_fst diffFields_Nil Let_def)

lemma bucket_key: "p \<in> set (bucket refs s) \<Longrightarrow> s \<in> fst ` set refs"
  by (cases "map_of refs s") (auto simp: bucket_def dest!: map_of_SomeD intro: rev_image_eqI)

lemma gained_Nil:
  assumes "fst ` set want \<subseteq> set schemes"
  shows "gained want have schemes = [] \<longleftrightarrow> (\<forall>s. set (bucket want s) \<subseteq> set (bucket have s))"
proof -
  have "gained want have schemes = [] \<longleftrightarrow> (\<forall>s\<in>set schemes. set (bucket want s) \<subseteq> set (bucket have s))"
    by (simp add: gained_def map_filter_Nil missingFrom_def Let_def filter_empty_conv subset_eq)
  moreover have "set (bucket want s) = {}" if "s \<notin> set schemes" for s
  proof -
    have "p \<notin> set (bucket want s)" for p using that assms bucket_key [of p want s] by blast
    then show ?thesis by (intro equals0I) (rule notE)
  qed
  ultimately show ?thesis by (metis empty_subsetI)
qed

lemma privilege_grew_iff: "PrivilegeGrew (computeDiff base head) \<longleftrightarrow> \<not> set (policy_pairs head) \<subseteq> set (policy_pairs base)"
proof -
  have "pd_Added (computePrivilegeDelta base head) = []
      \<longleftrightarrow> (\<forall>s. set (bucket (collectPolicyRefs head) s) \<subseteq> set (bucket (collectPolicyRefs base) s))"
    by (simp add: computePrivilegeDelta_def Let_def) (rule gained_Nil, simp add: unionSchemes_def)
  then show ?thesis by (auto simp: PrivilegeGrew_def computeDiff_def set_bucket)
qed

lemma privilege_lost_iff: "pd_Removed (df_Privilege (computeDiff base head)) = [] \<longleftrightarrow> set (policy_pairs base) \<subseteq> set (policy_pairs head)"
proof -
  have "pd_Removed (computePrivilegeDelta base head) = []
      \<longleftrightarrow> (\<forall>s. set (bucket (collectPolicyRefs base) s) \<subseteq> set (bucket (collectPolicyRefs head) s))"
    by (simp add: computePrivilegeDelta_def Let_def) (rule gained_Nil, simp add: unionSchemes_def)
  then show ?thesis by (auto simp: computeDiff_def set_bucket)
qed

lemma Diff_Empty_iff:
  "Diff_Empty (computeDiff base head) \<longleftrightarrow> same_structs base head \<and> set (policy_pairs base) = set (policy_pairs head)"
  using privilege_grew_iff [of base head] privilege_lost_iff [of base head]
  by (auto simp: Diff_Empty_def diff_structs_Nil PrivilegeGrew_def)

text \<open>
  The exit code of \<^verbatim>\<open>mamori diff\<close> can gate a merge. On operands that load, with \<^verbatim>\<open>--exit-code=privilege\<close> it is 2 exactly when some
  source field of the head reads a path of a backend that none of the base reads; with \<^verbatim>\<open>--exit-code=any\<close> it is 0
  exactly when both have the same structs, with the same fields under the same paths, each with the same type,
  default, flags and validation and with its refs at the same positions of its chain, and read the same paths. Otherwise the code is 0.
\<close>

lemma diff_exit_code:
  assumes "\<not> wantsHelp args" and "parseDiffArgs args = Inr o'"
    and "load (do_operands o' ! 0) = Inr base" and "load (do_operands o' ! 1) = Inr head"
  shows "fst (diff_run load args) =
    (if do_exitCode o' = ''any'' then (if same_structs base head \<and> set (policy_pairs base) = set (policy_pairs head) then 0 else 2)
     else if do_exitCode o' = ''privilege'' then (if set (policy_pairs head) \<subseteq> set (policy_pairs base) then 0 else 2)
     else 0)"
  using assms by (simp add: diff_run_def Let_def Diff_Empty_iff privilege_grew_iff)

definition demo_load :: "string \<Rightarrow> err + StructInfo list" where
  "demo_load f = (if f = ''base.json'' then Inr [demo_info] else if f = ''head.json'' then Inr [demo_info, demo_collide] else Inl (Opaque ''no such file''))"

lemma diff_exit_code_witness:
  "fst (diff_run demo_load [''base.json'', ''head.json'', ''--exit-code=privilege'']) = 2
     \<and> fst (diff_run demo_load [''head.json'', ''base.json'', ''--exit-code=privilege'']) = 0"
proof -
  let ?o = "\<lambda>a b. \<lparr>do_operands = [a, b], do_jsonOut = False, do_markdown = False, do_exitCode = ''privilege'', do_policyFormat = []\<rparr>"
  have p: "parseDiffArgs [''base.json'', ''head.json'', ''--exit-code=privilege''] = Inr (?o ''base.json'' ''head.json'')"
    "parseDiffArgs [''head.json'', ''base.json'', ''--exit-code=privilege''] = Inr (?o ''head.json'' ''base.json'')" by code_simp+
  have w: "\<not> wantsHelp [''base.json'', ''head.json'', ''--exit-code=privilege'']" "\<not> wantsHelp [''head.json'', ''base.json'', ''--exit-code=privilege'']"
    by (simp_all add: wantsHelp_def)
  have l: "demo_load ''base.json'' = Inr [demo_info]" "demo_load ''head.json'' = Inr [demo_info, demo_collide]" by (simp_all add: demo_load_def)
  have s: "\<not> set (policy_pairs [demo_info, demo_collide]) \<subseteq> set (policy_pairs [demo_info])"
    "set (policy_pairs [demo_info]) \<subseteq> set (policy_pairs [demo_info, demo_collide])" by code_simp+
  show ?thesis
    using diff_exit_code [OF w(1) p(1), of demo_load "[demo_info]" "[demo_info, demo_collide]"]
      diff_exit_code [OF w(2) p(2), of demo_load "[demo_info, demo_collide]" "[demo_info]"] l s by simp
qed

text \<open>A default whose text is the rendering of an absent one is not told apart from it.\<close>

lemma none_default_hidden:
  assumes "fd_HasDefault g" "fd_Default g = attrAbsent" "f = g\<lparr>fd_HasDefault := False, fd_Default := d\<rparr>"
  shows "same_field f g"
  using assms by (simp add: same_field_def defaultAttr_def)

end
