(* ===== verification/Clocks.thy ===== *)
theory Clocks
  imports Prelude "HOL-Library.Multiset"
begin

text \<open>
  \<^verbatim>\<open>clock.go\<close>: the manually driven clock. A timer's or ticker's channel holds at most one instant, under the id of its owner; a \<^verbatim>\<open>BlockUntil\<close> call that
  waits is a blocker, released when its channel is closed. Each operation is one critical section; the events of \<^verbatim>\<open>Advance\<close> are
  sent in their order with no other operation between them.
\<close>

record waiter =
  wt_id :: nat
  wt_deadline :: instant

record fakeTicker =
  ft_id :: nat
  ft_interval :: duration
  ft_next :: instant
  ft_stopped :: bool

record blocker =
  bk_id :: nat
  bk_want :: int

record FakeClock =
  ck_now :: instant
  ck_waiters :: "waiter list"
  ck_tickers :: "fakeTicker list"
  ck_blockers :: "blocker list"
  ck_released :: "nat list"
  ck_chans :: "nat \<rightharpoonup> instant"
  ck_nextID :: nat

text \<open>The zero time stands for no start; the epoch is \<^verbatim>\<open>time.Date(2026, 1, 1, ...)\<close> in nanoseconds.\<close>

definition NewFakeClock :: "instant option \<Rightarrow> FakeClock" where
  "NewFakeClock start = \<lparr>ck_now = (case start of None \<Rightarrow> 1767225600000000000 | Some t \<Rightarrow> t), ck_waiters = [], ck_tickers = [],
     ck_blockers = [], ck_released = [], ck_chans = Map.empty, ck_nextID = 0\<rparr>"

definition notifyBlockersLocked :: "FakeClock \<Rightarrow> FakeClock" where
  "notifyBlockersLocked c = (let n = int (length (ck_waiters c))
     in c\<lparr>ck_released := ck_released c @ map bk_id (filter (\<lambda>b. n \<ge> bk_want b) (ck_blockers c)),
          ck_blockers := filter (\<lambda>b. \<not> n \<ge> bk_want b) (ck_blockers c)\<rparr>)"

definition NewTimer :: "duration \<Rightarrow> FakeClock \<Rightarrow> nat \<times> FakeClock" where
  "NewTimer d c = (let i = Suc (ck_nextID c); c1 = c\<lparr>ck_nextID := i\<rparr>
     in (i, if d \<le> 0 then c1\<lparr>ck_chans := (ck_chans c1)(i \<mapsto> ck_now c1)\<rparr>
            else notifyBlockersLocked (c1\<lparr>ck_waiters := ck_waiters c1 @ [\<lparr>wt_id = i, wt_deadline = ck_now c1 + d\<rparr>]\<rparr>)))"

text \<open>\<open>None\<close> is the panic on an interval that is not positive.\<close>

definition NewTicker :: "duration \<Rightarrow> FakeClock \<Rightarrow> (nat \<times> FakeClock) option" where
  "NewTicker d c = (if d \<le> 0 then None
     else (let i = Suc (ck_nextID c)
           in Some (i, c\<lparr>ck_nextID := i,
                ck_tickers := ck_tickers c @ [\<lparr>ft_id = i, ft_interval = d, ft_next = ck_now c + d, ft_stopped = False\<rparr>]\<rparr>)))"

text \<open>The first part of \<^verbatim>\<open>BlockUntil\<close>: \<open>True\<close> when it returns at once, else the call is registered under the given id.\<close>

definition BlockUntil :: "nat \<Rightarrow> int \<Rightarrow> FakeClock \<Rightarrow> bool \<times> FakeClock" where
  "BlockUntil i n c = (if int (length (ck_waiters c)) \<ge> n then (True, c)
     else (False, c\<lparr>ck_blockers := ck_blockers c @ [\<lparr>bk_id = i, bk_want = n\<rparr>]\<rparr>))"

fun remove_first :: "('a \<Rightarrow> bool) \<Rightarrow> 'a list \<Rightarrow> 'a list" where
  "remove_first P [] = []"
| "remove_first P (x # xs) = (if P x then xs else x # remove_first P xs)"

definition removeBlocker :: "nat \<Rightarrow> FakeClock \<Rightarrow> FakeClock" where
  "removeBlocker i c = c\<lparr>ck_blockers := remove_first (\<lambda>b. bk_id b = i) (ck_blockers c)\<rparr>"

text \<open>The wait cut short by its context: released all the same when the count was reached first.\<close>

definition BlockUntil_done :: "nat \<Rightarrow> FakeClock \<Rightarrow> bool \<times> FakeClock" where
  "BlockUntil_done i c = (let c' = removeBlocker i c in (i \<in> set (ck_released c'), c'))"

definition removeWaiter :: "nat \<Rightarrow> FakeClock \<Rightarrow> bool \<times> FakeClock" where
  "removeWaiter i c = (i \<in> wt_id ` set (ck_waiters c), c\<lparr>ck_waiters := remove_first (\<lambda>w. wt_id w = i) (ck_waiters c)\<rparr>)"

definition stopTicker :: "nat \<Rightarrow> FakeClock \<Rightarrow> FakeClock" where
  "stopTicker i c = c\<lparr>ck_tickers := map (\<lambda>t. if ft_id t = i then t\<lparr>ft_stopped := True\<rparr> else t) (ck_tickers c)\<rparr>"

definition receive :: "nat \<Rightarrow> FakeClock \<Rightarrow> instant option \<times> FakeClock" where
  "receive i c = (ck_chans c i, c\<lparr>ck_chans := (ck_chans c)(i := None)\<rparr>)"

subsection \<open>Advancing\<close>

text \<open>The loop over the ticks of one ticker; the instants it fires at.\<close>

function ticks :: "instant \<Rightarrow> duration \<Rightarrow> instant \<Rightarrow> instant list" where
  "ticks target interval nx = (if interval > 0 \<and> nx \<le> target then nx # ticks target interval (nx + interval) else [])"
  by pat_completeness auto
termination by (relation "measure (\<lambda>(target, interval, nx). nat (target - nx + 1))") auto

declare ticks.simps [simp del]

definition advance_ticker :: "instant \<Rightarrow> fakeTicker \<Rightarrow> fakeTicker" where
  "advance_ticker target t = (if ft_stopped t then t
     else t\<lparr>ft_next := ft_next t + ft_interval t * int (length (ticks target (ft_interval t) (ft_next t)))\<rparr>)"

definition ticker_events :: "instant \<Rightarrow> fakeTicker \<Rightarrow> (instant \<times> nat) list" where
  "ticker_events target t = (if ft_stopped t then [] else map (\<lambda>at. (at, ft_id t)) (ticks target (ft_interval t) (ft_next t)))"

definition timer_events :: "instant \<Rightarrow> waiter list \<Rightarrow> (instant \<times> nat) list" where
  "timer_events target ws = map (\<lambda>w. (wt_deadline w, wt_id w)) (filter (\<lambda>w. wt_deadline w \<le> target) ws)"

definition events :: "instant \<Rightarrow> FakeClock \<Rightarrow> (instant \<times> nat) list" where
  "events target c = sort_key fst (timer_events target (ck_waiters c) @ concat (map (ticker_events target) (ck_tickers c)))"

text \<open>A send on a channel of capacity one; a tick that finds it full is dropped, a timer's is always empty.\<close>

definition send :: "instant \<times> nat \<Rightarrow> (nat \<rightharpoonup> instant) \<Rightarrow> (nat \<rightharpoonup> instant)" where
  "send e ch = (case ch (snd e) of None \<Rightarrow> ch(snd e \<mapsto> fst e) | Some _ \<Rightarrow> ch)"

definition Advance :: "duration \<Rightarrow> FakeClock \<Rightarrow> FakeClock" where
  "Advance d c = (let target = ck_now c + d
     in c\<lparr>ck_now := target, ck_waiters := filter (\<lambda>w. \<not> wt_deadline w \<le> target) (ck_waiters c),
          ck_tickers := map (advance_ticker target) (ck_tickers c), ck_chans := fold send (events target c) (ck_chans c)\<rparr>)"

subsection \<open>Advancing in one step or in several\<close>

lemma sort_key_split:
  "sort_key f xs = sort_key f (filter (\<lambda>x. f x \<le> m) xs) @ sort_key f (filter (\<lambda>x. \<not> f x \<le> m) xs)"
proof (rule properties_for_sort_key)
  show "mset (sort_key f (filter (\<lambda>x. f x \<le> m) xs) @ sort_key f (filter (\<lambda>x. \<not> f x \<le> m) xs)) = mset xs"
    by (simp add: multiset_partition [symmetric])
  show "filter (\<lambda>x. f k = f x) (sort_key f (filter (\<lambda>x. f x \<le> m) xs) @ sort_key f (filter (\<lambda>x. \<not> f x \<le> m) xs))
      = filter (\<lambda>x. f k = f x) xs" for k
  proof -
    have st: "filter (\<lambda>x. f k = f x) (sort_key f ys) = filter (\<lambda>x. f k = f x) ys" for ys
      using sort_key_stable [of f "f k" ys] by (simp add: eq_commute)
    have "filter (\<lambda>x. f k = f x) (filter (\<lambda>x. f x \<le> m) xs) = (if f k \<le> m then filter (\<lambda>x. f k = f x) xs else [])"
      by (induction xs) auto
    moreover have "filter (\<lambda>x. f k = f x) (filter (\<lambda>x. \<not> f x \<le> m) xs) = (if f k \<le> m then [] else filter (\<lambda>x. f k = f x) xs)"
      by (induction xs) auto
    ultimately show ?thesis unfolding filter_append st by simp
  qed
  show "sorted (map f (sort_key f (filter (\<lambda>x. f x \<le> m) xs) @ sort_key f (filter (\<lambda>x. \<not> f x \<le> m) xs)))"
    by (fastforce simp: sorted_append)
qed

lemma ticks_ge: "at \<in> set (ticks target interval nx) \<Longrightarrow> nx \<le> at \<and> at \<le> target"
  by (induction target interval nx rule: ticks.induct) (subst (asm) (2) ticks.simps, force split: if_splits)

lemma ticks_split:
  assumes "interval > 0" "t1 \<le> t2"
  shows "filter (\<lambda>at. at \<le> t1) (ticks t2 interval nx) = ticks t1 interval nx
    \<and> filter (\<lambda>at. \<not> at \<le> t1) (ticks t2 interval nx) = ticks t2 interval (nx + interval * int (length (ticks t1 interval nx)))"
  using assms
proof (induction t2 interval nx rule: ticks.induct)
  case (1 t2 interval nx)
  show ?case
  proof (cases "nx \<le> t1")
    case True
    then have "ticks t2 interval nx = nx # ticks t2 interval (nx + interval)" "ticks t1 interval nx = nx # ticks t1 interval (nx + interval)"
      using 1 by (simp_all add: ticks.simps [of _ interval nx])
    then show ?thesis using 1 True by (simp add: algebra_simps)
  next
    case False
    then have "ticks t1 interval nx = []" by (simp add: ticks.simps [of t1])
    moreover have "filter (\<lambda>at. at \<le> t1) (ticks t2 interval nx) = []" "filter (\<lambda>at. \<not> at \<le> t1) (ticks t2 interval nx) = ticks t2 interval nx"
      using False ticks_ge [of _ t2 interval nx] by (fastforce simp: filter_empty_conv filter_id_conv)+
    ultimately show ?thesis by simp
  qed
qed

definition tickers_ok :: "FakeClock \<Rightarrow> bool" where
  "tickers_ok c \<longleftrightarrow> list_all (\<lambda>t. ft_interval t > 0) (ck_tickers c)"

lemma ticker_events_split:
  assumes "ft_interval t > 0" "t1 \<le> t2"
  shows "filter (\<lambda>e. fst e \<le> t1) (ticker_events t2 t) = ticker_events t1 t"
    "filter (\<lambda>e. \<not> fst e \<le> t1) (ticker_events t2 t) = ticker_events t2 (advance_ticker t1 t)"
    "advance_ticker t2 (advance_ticker t1 t) = advance_ticker t2 t"
proof -
  note s = ticks_split [OF assms, of "ft_next t"]
  show "filter (\<lambda>e. fst e \<le> t1) (ticker_events t2 t) = ticker_events t1 t"
    "filter (\<lambda>e. \<not> fst e \<le> t1) (ticker_events t2 t) = ticker_events t2 (advance_ticker t1 t)"
    using s by (simp_all add: ticker_events_def advance_ticker_def filter_map comp_def)
  have "length (ticks t2 (ft_interval t) (ft_next t))
      = length (filter (\<lambda>at. at \<le> t1) (ticks t2 (ft_interval t) (ft_next t)))
        + length (filter (\<lambda>at. \<not> at \<le> t1) (ticks t2 (ft_interval t) (ft_next t)))"
    by (rule sum_length_filter_compl [symmetric])
  then have "int (length (ticks t2 (ft_interval t) (ft_next t))) = int (length (ticks t1 (ft_interval t) (ft_next t)))
      + int (length (ticks t2 (ft_interval t) (ft_next t + ft_interval t * int (length (ticks t1 (ft_interval t) (ft_next t))))))"
    using s by simp
  then show "advance_ticker t2 (advance_ticker t1 t) = advance_ticker t2 t"
    by (simp add: advance_ticker_def algebra_simps)
qed

lemma events_split:
  assumes "tickers_ok c" "0 \<le> a" "0 \<le> b"
  shows "events (ck_now c + (a + b)) c = events (ck_now c + a) c @ events (ck_now (Advance a c) + b) (Advance a c)"
proof -
  let ?t1 = "ck_now c + a" and ?t2 = "ck_now c + (a + b)"
  let ?all = "timer_events ?t2 (ck_waiters c) @ concat (map (ticker_events ?t2) (ck_tickers c))"
  have le: "?t1 \<le> ?t2" using assms(3) by simp
  have i: "ft_interval t > 0" if "t \<in> set (ck_tickers c)" for t using that assms(1) by (auto simp: tickers_ok_def list_all_iff)
  have "filter (\<lambda>e. fst e \<le> ?t1) ?all = timer_events ?t1 (ck_waiters c) @ concat (map (ticker_events ?t1) (ck_tickers c))"
  proof -
    have "filter (\<lambda>e. fst e \<le> ?t1) (timer_events ?t2 (ck_waiters c)) = timer_events ?t1 (ck_waiters c)"
      using le by (auto simp: timer_events_def filter_map comp_def intro!: arg_cong [where f = "map _"] filter_cong)
    moreover have "map (\<lambda>t. filter (\<lambda>e. fst e \<le> ?t1) (ticker_events ?t2 t)) (ck_tickers c) = map (ticker_events ?t1) (ck_tickers c)"
      using ticker_events_split(1) [OF i le] by simp
    ultimately show ?thesis by (simp only: filter_append filter_concat map_map comp_def)
  qed
  moreover have "filter (\<lambda>e. \<not> fst e \<le> ?t1) ?all
      = timer_events ?t2 (filter (\<lambda>w. \<not> wt_deadline w \<le> ?t1) (ck_waiters c)) @ concat (map (ticker_events ?t2) (map (advance_ticker ?t1) (ck_tickers c)))"
  proof -
    have "filter (\<lambda>e. \<not> fst e \<le> ?t1) (timer_events ?t2 (ck_waiters c)) = timer_events ?t2 (filter (\<lambda>w. \<not> wt_deadline w \<le> ?t1) (ck_waiters c))"
      by (auto simp: timer_events_def filter_map comp_def intro!: arg_cong [where f = "map _"] filter_cong)
    moreover have "map (\<lambda>t. filter (\<lambda>e. \<not> fst e \<le> ?t1) (ticker_events ?t2 t)) (ck_tickers c)
        = map (\<lambda>t. ticker_events ?t2 (advance_ticker ?t1 t)) (ck_tickers c)"
      using ticker_events_split(2) [OF i le] by simp
    ultimately show ?thesis by (simp only: filter_append filter_concat map_map comp_def)
  qed
  ultimately show ?thesis
    using sort_key_split [of fst ?all ?t1] by (simp add: events_def Advance_def Let_def add.assoc)
qed

text \<open>
  How a test cuts the time it lets pass does not matter: advancing by one duration and then by another is advancing by their
  sum, with the same timers and ticks sent on the same channels in the same order, as long as nobody registers or receives in
  between. (The tickers' loop ends because \<^verbatim>\<open>NewTicker\<close> refuses an interval that is not positive.)
\<close>

lemma Advance_compose:
  assumes "tickers_ok c" and "0 \<le> a" and "0 \<le> b"
  shows "Advance (a + b) c = Advance b (Advance a c)
    \<and> events (ck_now c + (a + b)) c = events (ck_now c + a) c @ events (ck_now (Advance a c) + b) (Advance a c)"
proof
  show ev: "events (ck_now c + (a + b)) c = events (ck_now c + a) c @ events (ck_now (Advance a c) + b) (Advance a c)"
    using assms by (rule events_split)
  have w: "filter (\<lambda>w. \<not> wt_deadline w \<le> ck_now c + (a + b)) (filter (\<lambda>w. \<not> wt_deadline w \<le> ck_now c + a) (ck_waiters c))
      = filter (\<lambda>w. \<not> wt_deadline w \<le> ck_now c + (a + b)) (ck_waiters c)"
    using assms(3) by (auto intro: filter_cong)
  have t: "map (advance_ticker (ck_now c + (a + b))) (map (advance_ticker (ck_now c + a)) (ck_tickers c))
      = map (advance_ticker (ck_now c + (a + b))) (ck_tickers c)"
    using assms ticker_events_split(3) by (auto simp: tickers_ok_def list_all_iff)
  have ch: "ck_chans (Advance (a + b) c) = ck_chans (Advance b (Advance a c))"
    using ev by (simp add: Advance_def Let_def add.assoc)
  show "Advance (a + b) c = Advance b (Advance a c)"
    using w t ch by (simp add: Advance_def Let_def add.assoc)
qed

definition demo_clock :: FakeClock where
  "demo_clock = snd (NewTimer 5 (snd (the (NewTicker 2 (NewFakeClock (Some 0))))))"

lemma Advance_compose_witness:
  "tickers_ok demo_clock \<and> events 6 demo_clock = [(2, 1), (4, 1), (5, 2), (6, 1)]
     \<and> Advance (3 + 3) demo_clock = Advance 3 (Advance 3 demo_clock)"
proof -
  have t: "tickers_ok demo_clock" by code_simp
  have e: "events 6 demo_clock = [(2, 1), (4, 1), (5, 2), (6, 1)]" by code_simp
  show ?thesis using Advance_compose [OF t, of 3 3] t e by simp
qed

subsection \<open>No wake-up is lost\<close>

inductive clock_step :: "FakeClock \<Rightarrow> FakeClock \<Rightarrow> bool" where
  timer: "clock_step c (snd (NewTimer d c))"
| ticker: "NewTicker d c = Some r \<Longrightarrow> clock_step c (snd r)"
| block: "clock_step c (snd (BlockUntil i n c))"
| expire: "clock_step c (snd (BlockUntil_done i c))"
| stop_timer: "clock_step c (snd (removeWaiter i c))"
| stop_ticker: "clock_step c (stopTicker i c)"
| take: "clock_step c (snd (receive i c))"
| advance: "0 \<le> d \<Longrightarrow> clock_step c (Advance d c)"

inductive_simps clock_step_simps: "clock_step c c'"

definition clock_reach :: "instant option \<Rightarrow> FakeClock \<Rightarrow> bool" where
  "clock_reach start c \<longleftrightarrow> clock_step\<^sup>*\<^sup>* (NewFakeClock start) c"

text \<open>Who waits for a count waits for more than there is; timers are pending in the future and tickers have a period.\<close>

definition clock_inv :: "FakeClock \<Rightarrow> bool" where
  "clock_inv c \<longleftrightarrow> (\<forall>b\<in>set (ck_blockers c). bk_want b > int (length (ck_waiters c)))
     \<and> (\<forall>w\<in>set (ck_waiters c). wt_deadline w > ck_now c) \<and> (\<forall>t\<in>set (ck_tickers c). ft_interval t > 0)"

lemma remove_first_set: "x \<in> set (remove_first P xs) \<Longrightarrow> x \<in> set xs"
  by (induction xs) (auto split: if_splits)

lemma remove_first_length: "length (remove_first P xs) \<le> length xs"
  by (induction xs) auto

lemma clock_inv_waiters:
  "clock_inv c \<Longrightarrow> set ws \<subseteq> set (ck_waiters c) \<Longrightarrow> length ws \<le> length (ck_waiters c) \<Longrightarrow> clock_inv (c\<lparr>ck_waiters := ws\<rparr>)"
  by (fastforce simp: clock_inv_def)

lemma clock_inv_later:
  "clock_inv c \<Longrightarrow> clock_inv (c\<lparr>ck_now := t, ck_waiters := filter (\<lambda>w. \<not> wt_deadline w \<le> t) (ck_waiters c),
     ck_tickers := map (advance_ticker t) (ck_tickers c), ck_chans := ch\<rparr>)"
  by (auto simp: clock_inv_def advance_ticker_def intro: le_less_trans [OF zle_int [THEN iffD2, OF length_filter_le]])

lemma clock_inv_timer: "clock_inv c \<Longrightarrow> clock_inv (snd (NewTimer d c))"
  by (auto simp: NewTimer_def notifyBlockersLocked_def clock_inv_def Let_def)

lemma clock_inv_ticker: "clock_inv c \<Longrightarrow> NewTicker d c = Some r \<Longrightarrow> clock_inv (snd r)"
  by (auto simp: NewTicker_def clock_inv_def Let_def split: if_splits)

lemma clock_inv_block: "clock_inv c \<Longrightarrow> clock_inv (snd (BlockUntil i n c))"
  by (auto simp: BlockUntil_def clock_inv_def)

lemma clock_inv_expire: "clock_inv c \<Longrightarrow> clock_inv (snd (BlockUntil_done i c))"
  by (auto simp: BlockUntil_done_def removeBlocker_def clock_inv_def Let_def dest: remove_first_set)

lemma clock_inv_rest: "clock_inv c \<Longrightarrow> clock_inv (stopTicker i c)" "clock_inv c \<Longrightarrow> clock_inv (snd (receive i c))"
  by (auto simp: stopTicker_def receive_def clock_inv_def)

lemma clock_inv_step: "clock_step c c' \<Longrightarrow> clock_inv c \<Longrightarrow> clock_inv c'"
proof (induction rule: clock_step.induct)
  case (stop_timer c i)
  then show ?case
    by (auto simp: removeWaiter_def remove_first_length intro!: clock_inv_waiters dest: remove_first_set)
next
  case (advance d c)
  then show ?case by (simp add: Advance_def Let_def clock_inv_later)
qed (simp_all add: clock_inv_timer clock_inv_ticker clock_inv_block clock_inv_expire clock_inv_rest)

lemma clock_inv_init: "clock_inv (NewFakeClock start)"
  by (simp add: clock_inv_def NewFakeClock_def)

text \<open>
  \<^verbatim>\<open>BlockUntil\<close> misses no timer: in every state the clock can reach, a call that is still waiting asked for more timers than are
  pending; pending timers lie in the future, and the loop over the ticks of every ticker ends.
\<close>

lemma BlockUntil_no_lost_wakeup:
  assumes "clock_reach start c"
  shows "clock_inv c"
  using assms unfolding clock_reach_def
  by (induction rule: rtranclp_induct) (auto intro: clock_inv_init clock_inv_step)

lemma BlockUntil_no_lost_wakeup_witness:
  "clock_reach (Some 0) (snd (NewTimer 5 (snd (BlockUntil 7 1 (NewFakeClock (Some 0))))))
     \<and> clock_inv (snd (NewTimer 5 (snd (BlockUntil 7 1 (NewFakeClock (Some 0))))))
     \<and> ck_released (snd (NewTimer 5 (snd (BlockUntil 7 1 (NewFakeClock (Some 0)))))) = [7]"
proof -
  let ?c = "snd (NewTimer 5 (snd (BlockUntil 7 1 (NewFakeClock (Some 0)))))"
  have r: "clock_reach (Some 0) ?c"
    unfolding clock_reach_def by (rule rtranclp.rtrancl_into_rtrancl [OF r_into_rtranclp]) (rule block, rule timer)
  have "ck_released ?c = [7]" by code_simp
  then show ?thesis using BlockUntil_no_lost_wakeup [OF r] r by blast
qed

end
