(* ===== verification/EventStream.thy ===== *)
theory EventStream
  imports Serving
begin

text \<open>
  \<^verbatim>\<open>providers/httpcore/sse.go\<close>, the bounded reader of Server-Sent Events, with the frame writers of \<^verbatim>\<open>server/wire.go\<close>
  that produce what it reads.

  A reader holds the bytes that are still to come, how the stream ends (\<open>None\<close> is \<^verbatim>\<open>io.EOF\<close>) and whether that end is reported
  together with the last bytes. \<open>Scan\<close> is \<^verbatim>\<open>bufio.Scanner\<close> with \<^verbatim>\<open>ScanLines\<close> and the ceiling \<open>m\<close> of its buffer: a line and its newline must fit,
  the rest before the end is a line too, and a buffer that fills up with no newline in it ends the scan with \<^verbatim>\<open>ErrTooLong\<close>, its
  contents being handed out as a last token should the scan be resumed. How the bytes arrive in chunks makes no difference to it.
\<close>

subsection \<open>The line scanner\<close>

abbreviation nl :: char where "nl \<equiv> CHR 0x0A"
abbreviation cr :: char where "cr \<equiv> CHR 0x0D"

datatype scan_end = TooLong | ReadError err

record reader =
  rd_rest :: bytes
  rd_end :: "scan_end option"
  rd_eager :: bool

definition dropCR :: "bytes \<Rightarrow> bytes" where
  "dropCR l = (if l \<noteq> [] \<and> last l = cr then butlast l else l)"

definition Scan :: "nat \<Rightarrow> reader \<Rightarrow> bytes option \<times> reader" where
  "Scan m r = (case cut nl (take m (rd_rest r)) of
     Some (l, _) \<Rightarrow> (Some (dropCR l), r\<lparr>rd_rest := drop (Suc (length l)) (rd_rest r)\<rparr>)
   | None \<Rightarrow>
       if length (rd_rest r) > m \<or> length (rd_rest r) = m \<and> \<not> rd_eager r
       then (None, r\<lparr>rd_rest := take m (rd_rest r), rd_end := Some TooLong, rd_eager := True\<rparr>)
       else if rd_rest r = [] then (None, r)
       else (Some (dropCR (rd_rest r)), r\<lparr>rd_rest := []\<rparr>))"

subsection \<open>The decoder\<close>

definition DefaultSSEMaxLine :: int where "DefaultSSEMaxLine = 2 ^ 20"
definition DefaultSSEMaxFrame :: int where "DefaultSSEMaxFrame = 2 ^ 20"
definition MaxInt :: int where "MaxInt = 2 ^ 63 - 1"

definition ErrSSELineTooLong :: err where
  "ErrSSELineTooLong = Errorf ''httpcore: SSE line exceeds the configured limit: %w'' [Sentinel ErrUnavailable]"

definition ErrSSEFrameTooLong :: err where
  "ErrSSEFrameTooLong = Errorf ''httpcore: SSE frame exceeds the configured limit: %w'' [Sentinel ErrUnavailable]"

definition io_EOF :: err where "io_EOF = Opaque ''EOF''"

record SSEEvent =
  se_Name :: string
  se_Data :: bytes

record SSEConfig =
  sc_MaxLine :: int
  sc_MaxFrame :: int

record SSEDecoder =
  sd_reader :: reader
  sd_scanMax :: int
  sd_maxLine :: int
  sd_maxFrame :: int

definition NewSSEDecoder :: "reader \<Rightarrow> SSEConfig \<Rightarrow> SSEDecoder" where
  "NewSSEDecoder r cfg =
     (let maxLine = (if sc_MaxLine cfg \<le> 0 then DefaultSSEMaxLine else sc_MaxLine cfg);
          maxFrame = (if sc_MaxFrame cfg \<le> 0 then DefaultSSEMaxFrame else sc_MaxFrame cfg);
          scanMax = (if maxLine < MaxInt then maxLine + 1 else maxLine)
      in \<lparr>sd_reader = r, sd_scanMax = scanMax, sd_maxLine = maxLine, sd_maxFrame = maxFrame\<rparr>)"

text \<open>What one call of \<^verbatim>\<open>Next\<close> accumulates, and what a line does to it.\<close>

record sse_acc =
  ac_name :: string
  ac_data :: bytes
  ac_haveField :: bool
  ac_haveData :: bool

definition empty_acc :: sse_acc where
  "empty_acc = \<lparr>ac_name = [], ac_data = [], ac_haveField = False, ac_haveData = False\<rparr>"

datatype line_result = Fail err | Dispatch SSEEvent | Continue sse_acc

definition sse_data :: "int \<Rightarrow> bytes \<Rightarrow> sse_acc \<Rightarrow> line_result" where
  "sse_data maxFrame value a =
     (let grow = length value + (if ac_haveData a then 1 else 0)
      in if int (length (ac_data a) + grow) > maxFrame then Fail ErrSSEFrameTooLong
         else Continue (a\<lparr>ac_data := ac_data a @ (if ac_haveData a then [nl] else []) @ value,
                          ac_haveData := True, ac_haveField := True\<rparr>))"

definition sse_line :: "SSEDecoder \<Rightarrow> bytes \<Rightarrow> sse_acc \<Rightarrow> line_result" where
  "sse_line d line a =
     (if int (length line) > sd_maxLine d then Fail ErrSSELineTooLong
      else if line = [] then
        (if ac_haveField a then Dispatch \<lparr>se_Name = ac_name a, se_Data = ac_data a\<rparr> else Continue a)
      else if hd line = CHR '':'' then Continue a
      else (let (field, rest) = (case cut CHR '':'' line of Some p \<Rightarrow> p | None \<Rightarrow> (line, [])); value = trim_prefix '' '' rest
            in if field = ''event'' then Continue (a\<lparr>ac_name := value, ac_haveField := True\<rparr>)
               else if field = ''data'' then sse_data (sd_maxFrame d) value a
               else Continue a))"

definition sse_end :: "reader \<Rightarrow> err" where
  "sse_end r = (case rd_end r of None \<Rightarrow> io_EOF | Some TooLong \<Rightarrow> ErrSSELineTooLong | Some (ReadError e) \<Rightarrow> e)"

lemma cut_take:
  assumes "cut c (take m s) = Some (l, u)"
  shows "\<exists>t. s = l @ c # t \<and> c \<notin> set l \<and> length l < m"
proof -
  have *: "take m s = l @ c # u" "c \<notin> set l" using cut_SomeD [OF assms] by auto
  hence "s = l @ c # (u @ drop m s)" by (metis append_Cons append_assoc append_take_drop_id)
  moreover have "length l < m" using arg_cong [OF *(1), of length] by simp
  ultimately show ?thesis using *(2) by blast
qed

lemma Scan_shrinks: "Scan m r = (Some l, r') \<Longrightarrow> length (rd_rest r') < length (rd_rest r)"
  by (auto simp: Scan_def split: option.splits if_splits prod.splits dest: cut_take)

lemma Scan_not_grows: "Scan m r = (x, r') \<Longrightarrow> length (rd_rest r') \<le> length (rd_rest r)"
  by (auto simp: Scan_def split: option.splits if_splits prod.splits)

function sse_loop :: "SSEDecoder \<Rightarrow> sse_acc \<Rightarrow> (err + SSEEvent) \<times> SSEDecoder" where
  "sse_loop d a = (case Scan (nat (sd_scanMax d)) (sd_reader d) of
     (None, r) \<Rightarrow> (Inl (sse_end r), d\<lparr>sd_reader := r\<rparr>)
   | (Some line, r) \<Rightarrow> (case sse_line d line a of
        Fail e \<Rightarrow> (Inl e, d\<lparr>sd_reader := r\<rparr>)
      | Dispatch ev \<Rightarrow> (Inr ev, d\<lparr>sd_reader := r\<rparr>)
      | Continue a' \<Rightarrow> sse_loop (d\<lparr>sd_reader := r\<rparr>) a'))"
  by pat_completeness auto
termination
  by (relation "measure (\<lambda>(d, _). length (rd_rest (sd_reader d)))") (auto dest: sym [THEN Scan_shrinks])

declare sse_loop.simps [simp del]

definition SSE_Next :: "SSEDecoder \<Rightarrow> (err + SSEEvent) \<times> SSEDecoder" where
  "SSE_Next d = sse_loop d empty_acc"

subsection \<open>The stream of a response\<close>

text \<open>
  \<^verbatim>\<open>SSEStream\<close>: the decoder tied to a context. The context's callback is registered until it starts or \<^verbatim>\<open>stop\<close> takes it back; the body
  is closed by whoever comes first, and what that close reported is what every later one reports. \<open>clo\<close> is the result of the body's own \<^verbatim>\<open>Close\<close>.
\<close>

record SSEStream =
  ss_ctxErr :: "err option"
  ss_dec :: SSEDecoder
  ss_registered :: bool
  ss_running :: bool
  ss_closes :: nat
  ss_closeErr :: "err option"

definition NewSSEStream :: "err option \<Rightarrow> reader \<Rightarrow> SSEConfig \<Rightarrow> SSEStream" where
  "NewSSEStream ctxErr body cfg = \<lparr>ss_ctxErr = ctxErr, ss_dec = NewSSEDecoder body cfg, ss_registered = (ctxErr = None),
     ss_running = (ctxErr \<noteq> None), ss_closes = 0, ss_closeErr = None\<rparr>"

definition Stream_Next :: "SSEStream \<Rightarrow> (err + SSEEvent) \<times> SSEStream" where
  "Stream_Next s = (case SSE_Next (ss_dec s) of (res, d) \<Rightarrow>
     (case (res, ss_ctxErr s) of (Inl _, Some c) \<Rightarrow> Inl c | _ \<Rightarrow> res, s\<lparr>ss_dec := d\<rparr>))"

definition closeBody :: "err option \<Rightarrow> SSEStream \<Rightarrow> SSEStream" where
  "closeBody clo s = (if ss_closes s = 0 then s\<lparr>ss_closes := 1, ss_closeErr := clo\<rparr> else s)"

definition Stream_Close :: "err option \<Rightarrow> SSEStream \<Rightarrow> err option \<times> SSEStream" where
  "Stream_Close clo s = (let s' = closeBody clo (s\<lparr>ss_registered := False\<rparr>) in (ss_closeErr s', s'))"

text \<open>What happens to a stream: the context ends, the callback it started runs, the caller closes or reads.\<close>

inductive stream_step :: "SSEStream \<Rightarrow> SSEStream \<Rightarrow> bool" where
  cancelled: "ss_ctxErr s = None \<Longrightarrow> stream_step s (s\<lparr>ss_ctxErr := Some e, ss_registered := False, ss_running := ss_running s \<or> ss_registered s\<rparr>)"
| callback: "ss_running s \<Longrightarrow> stream_step s (closeBody clo (s\<lparr>ss_running := False\<rparr>))"
| closed: "stream_step s (snd (Stream_Close clo s))"
| read: "stream_step s (snd (Stream_Next s))"

subsection \<open>The writers\<close>

text \<open>\<^verbatim>\<open>writeSSEValue\<close>, \<^verbatim>\<open>writeSSEError\<close> and \<^verbatim>\<open>writeSSEHeartbeat\<close>; \<open>enc\<close> is \<^verbatim>\<open>json.Marshal\<close> of a body.\<close>

definition event_frame :: "string \<Rightarrow> bytes \<Rightarrow> bytes" where
  "event_frame name data = ''event: '' @ name @ nl # ''data: '' @ data @ [nl, nl]"

fun frame_bytes :: "(valueBody \<Rightarrow> bytes) \<Rightarrow> frame \<Rightarrow> bytes" where
  "frame_bytes enc (SSEUpdate b) = event_frame ''update'' (enc b)"
| "frame_bytes enc (SSEError b) = event_frame ''error'' (enc b)"
| "frame_bytes enc Heartbeat = '': heartbeat'' @ [nl, nl]"

definition stream_bytes :: "(valueBody \<Rightarrow> bytes) \<Rightarrow> frame list \<Rightarrow> bytes" where
  "stream_bytes enc fs = concat (map (frame_bytes enc) fs)"

text \<open>What a frame says: nothing for a heartbeat.\<close>

fun frame_event :: "(valueBody \<Rightarrow> bytes) \<Rightarrow> frame \<Rightarrow> SSEEvent list" where
  "frame_event enc (SSEUpdate b) = [\<lparr>se_Name = ''update'', se_Data = enc b\<rparr>]"
| "frame_event enc (SSEError b) = [\<lparr>se_Name = ''error'', se_Data = enc b\<rparr>]"
| "frame_event enc Heartbeat = []"

subsection \<open>Ends and bounds\<close>

lemma Scan_keeps_end: "Scan m r = (Some l, r') \<Longrightarrow> sse_end r' = sse_end r"
  by (auto simp: Scan_def sse_end_def split: option.splits if_splits prod.splits)

lemma sse_loop_None:
  "Scan (nat (sd_scanMax d)) (sd_reader d) = (None, r) \<Longrightarrow> sse_loop d a = (Inl (sse_end r), d\<lparr>sd_reader := r\<rparr>)"
  by (simp add: sse_loop.simps)

lemma sse_loop_Some:
  "Scan (nat (sd_scanMax d)) (sd_reader d) = (Some line, r) \<Longrightarrow>
   sse_loop d a = (case sse_line d line a of
        Fail e \<Rightarrow> (Inl e, d\<lparr>sd_reader := r\<rparr>)
      | Dispatch ev \<Rightarrow> (Inr ev, d\<lparr>sd_reader := r\<rparr>)
      | Continue a' \<Rightarrow> sse_loop (d\<lparr>sd_reader := r\<rparr>) a')"
  by (subst sse_loop.simps) simp

text \<open>What is accumulated stays within the two ceilings.\<close>

definition acc_ok :: "SSEDecoder \<Rightarrow> sse_acc \<Rightarrow> bool" where
  "acc_ok d a \<longleftrightarrow> int (length (ac_data a)) \<le> sd_maxFrame d \<and> int (length (ac_name a)) \<le> sd_maxLine d"

lemma cut_value_length: "(case cut c l of Some p \<Rightarrow> p | None \<Rightarrow> (l, [])) = (f, v) \<Longrightarrow> length v \<le> length l"
  by (auto split: option.splits dest!: cut_SomeD)

lemma trim_prefix_length: "length (trim_prefix p s) \<le> length s"
  by (simp add: trim_prefix_def)

lemma sse_line_Continue:
  assumes "sse_line d line a = Continue a'" "acc_ok d a"
  shows "acc_ok d a'"
proof -
  obtain f v where c: "(case cut CHR '':'' line of Some p \<Rightarrow> p | None \<Rightarrow> (line, [])) = (f, v)" by fastforce
  have "length (trim_prefix '' '' v) \<le> length line"
    using cut_value_length [OF c] trim_prefix_length [of "'' ''" v] by simp
  thus ?thesis using assms unfolding sse_line_def c
    by (auto simp: sse_data_def acc_ok_def Let_def split: if_splits)
qed

lemma sse_line_Dispatch: "sse_line d line a = Dispatch ev \<Longrightarrow> line = [] \<and> ev = \<lparr>se_Name = ac_name a, se_Data = ac_data a\<rparr>"
  by (auto simp: sse_line_def sse_data_def Let_def split: if_splits prod.splits)

lemma sse_loop_Inr:
  "sse_loop d a = (Inr ev, d') \<Longrightarrow>
   length (rd_rest (sd_reader d')) < length (rd_rest (sd_reader d)) \<and> d' = d\<lparr>sd_reader := sd_reader d'\<rparr> \<and> sse_end (sd_reader d') = sse_end (sd_reader d) \<and>
   (acc_ok d a \<longrightarrow> int (length (se_Data ev)) \<le> sd_maxFrame d \<and> int (length (se_Name ev)) \<le> sd_maxLine d)"
proof (induction d a rule: sse_loop.induct)
  case (1 d a)
  obtain x r where sc: "Scan (nat (sd_scanMax d)) (sd_reader d) = (x, r)" by fastforce
  have "x \<noteq> None" using 1(2) sse_loop_None [of d r a] sc by auto
  then obtain line where x: "x = Some line" by auto
  note sc' = sc [unfolded x]
  have sh: "length (rd_rest r) < length (rd_rest (sd_reader d))" by (rule Scan_shrinks [OF sc'])
  show ?case
  proof (cases "sse_line d line a")
    case (Fail e) thus ?thesis using 1(2) sse_loop_Some [OF sc'] by simp
  next
    case (Dispatch e)
    thus ?thesis using 1(2) sse_loop_Some [OF sc'] sh Scan_keeps_end [OF sc'] sse_line_Dispatch [OF Dispatch] by (auto simp: acc_ok_def)
  next
    case (Continue a')
    hence "sse_loop (d\<lparr>sd_reader := r\<rparr>) a' = (Inr ev, d')" using 1(2) sse_loop_Some [OF sc'] by simp
    moreover have "acc_ok d a \<longrightarrow> acc_ok (d\<lparr>sd_reader := r\<rparr>) a'" using sse_line_Continue [OF Continue] by (simp add: acc_ok_def)
    ultimately show ?thesis using 1(1) [OF sc [symmetric] x Continue] sh Scan_keeps_end [OF sc'] by simp
  qed
qed

text \<open>A decoder as the constructor makes it, wherever its reader has come to.\<close>

definition decoder_ok :: "SSEDecoder \<Rightarrow> bool" where
  "decoder_ok d \<longleftrightarrow> 0 < sd_maxLine d \<and> 0 < sd_maxFrame d \<and> sd_maxLine d \<le> sd_scanMax d"

lemma NewSSEDecoder_ok: "decoder_ok (NewSSEDecoder r cfg)"
  by (auto simp: decoder_ok_def NewSSEDecoder_def Let_def DefaultSSEMaxLine_def DefaultSSEMaxFrame_def)

lemma Next_Inr:
  assumes "SSE_Next d = (Inr ev, d')"
  shows "length (rd_rest (sd_reader d')) < length (rd_rest (sd_reader d))" "d' = d\<lparr>sd_reader := sd_reader d'\<rparr>"
    "sse_end (sd_reader d') = sse_end (sd_reader d)"
    "decoder_ok d \<Longrightarrow> int (length (se_Data ev)) \<le> sd_maxFrame d \<and> int (length (se_Name ev)) \<le> sd_maxLine d"
  using sse_loop_Inr [OF assms [unfolded SSE_Next_def]] by (simp_all add: acc_ok_def empty_acc_def decoder_ok_def)

text \<open>All the events of a stream and the error that ends it.\<close>

function read_events :: "SSEDecoder \<Rightarrow> SSEEvent list \<times> err" where
  "read_events d = (case SSE_Next d of
     (Inl e, d') \<Rightarrow> ([], e)
   | (Inr ev, d') \<Rightarrow> (case read_events d' of (evs, e) \<Rightarrow> (ev # evs, e)))"
  by pat_completeness auto
termination
  by (relation "measure (\<lambda>d. length (rd_rest (sd_reader d)))") (auto dest: sym [THEN Next_Inr(1)])

declare read_events.simps [simp del]

subsection \<open>Reading what was written\<close>

lemma Scan_line:
  assumes "rd_rest r = l @ nl # t" "nl \<notin> set l" "length l < m"
  shows "Scan m r = (Some (dropCR l), r\<lparr>rd_rest := t\<rparr>)"
proof -
  have "take m (rd_rest r) = l @ nl # take (m - length l - 1) t"
    using assms(1,3) by (simp add: take_Cons')
  thus ?thesis using assms by (simp add: Scan_def cut_append)
qed

lemma Scan_last:
  assumes "nl \<notin> set (rd_rest r)" "length (rd_rest r) < m"
  shows "Scan m r = (if rd_rest r = [] then None else Some (dropCR (rd_rest r)), r\<lparr>rd_rest := []\<rparr>)"
  using assms by (simp add: Scan_def cut_notin)

lemma dropCR_id: "cr \<notin> set l \<Longrightarrow> dropCR l = l"
  by (metis dropCR_def last_in_set)

text \<open>A complete line in front, when it fits.\<close>

lemma sse_loop_line:
  assumes "rd_rest (sd_reader d) = l @ nl # t" "nl \<notin> set l" "cr \<notin> set l" "int (length l) \<le> sd_maxLine d" "sd_maxLine d < sd_scanMax d"
  shows "sse_loop d a = (case sse_line d l a of
        Fail e \<Rightarrow> (Inl e, d\<lparr>sd_reader := (sd_reader d)\<lparr>rd_rest := t\<rparr>\<rparr>)
      | Dispatch ev \<Rightarrow> (Inr ev, d\<lparr>sd_reader := (sd_reader d)\<lparr>rd_rest := t\<rparr>\<rparr>)
      | Continue a' \<Rightarrow> sse_loop (d\<lparr>sd_reader := (sd_reader d)\<lparr>rd_rest := t\<rparr>\<rparr>) a')"
  using sse_loop_Some [OF Scan_line [OF assms(1,2), of "nat (sd_scanMax d)"], of a] assms(3-5) by (simp add: dropCR_id)

text \<open>With no blank line to come nothing is dispatched.\<close>

lemma sse_loop_no_blank:
  "[] \<notin> set (butlast (split_on nl (rd_rest (sd_reader d)))) \<Longrightarrow> cr \<notin> set (rd_rest (sd_reader d)) \<Longrightarrow> \<exists>e. fst (sse_loop d a) = Inl e"
proof (induction d a rule: sse_loop.induct)
  case (1 d a)
  let ?rest = "rd_rest (sd_reader d)"
  obtain x r where sc: "Scan (nat (sd_scanMax d)) (sd_reader d) = (x, r)" by fastforce
  show ?case
  proof (cases x)
    case None thus ?thesis using sse_loop_None sc by simp
  next
    case (Some line)
    note sc' = sc [unfolded Some]
    have line: "line \<noteq> [] \<and> [] \<notin> set (butlast (split_on nl (rd_rest r))) \<and> cr \<notin> set (rd_rest r)"
    proof (cases "cut nl (take (nat (sd_scanMax d)) ?rest)")
      case None
      thus ?thesis using sc' 1(3) by (auto simp: Scan_def dropCR_id split: if_splits)
    next
      case (Some p)
      obtain l u where p: "p = (l, u)" by fastforce
      obtain t where t: "?rest = l @ nl # t" "nl \<notin> set l" using cut_take Some p by blast
      have "line = l \<and> rd_rest r = t" using sc' Some p t 1(3) by (auto simp: Scan_def dropCR_id)
      thus ?thesis using 1(2,3) t by (auto simp: split_on_append)
    qed
    show ?thesis
    proof (cases "sse_line d line a")
      case (Fail e) thus ?thesis using sse_loop_Some [OF sc'] by simp
    next
      case (Dispatch e) thus ?thesis using line sse_line_Dispatch by blast
    next
      case (Continue a')
      thus ?thesis using 1(1) [OF sc [symmetric] Some Continue] line sse_loop_Some [OF sc', of a] by simp
    qed
  qed
qed

lemma split_on_prefix: "\<exists>zs. zs \<noteq> [] \<and> split_on c (p @ q) = butlast (split_on c p) @ zs"
proof (induction p)
  case (Cons x p)
  then obtain zs where "zs \<noteq> []" "split_on c (p @ q) = butlast (split_on c p) @ zs" by blast
  thus ?case by (cases "split_on c p"; cases "split_on c (p @ q)") (auto simp: Cons_eq_append_conv split: if_splits)
qed simp

lemma butlast_split_append: "set (butlast (split_on c p)) \<subseteq> set (butlast (split_on c (p @ q)))"
  using split_on_prefix [of c p q] by (auto simp: butlast_append)

text \<open>The frame fits under the ceilings, and its payload is the single line that a JSON text without indentation is.\<close>

definition one_line :: "bytes \<Rightarrow> bool" where
  "one_line e \<longleftrightarrow> nl \<notin> set e \<and> cr \<notin> set e"

definition payload_fits :: "SSEDecoder \<Rightarrow> bytes \<Rightarrow> bool" where
  "payload_fits d e \<longleftrightarrow> int (length e) + 6 \<le> sd_maxLine d \<and> int (length e) \<le> sd_maxFrame d"

fun frame_fits :: "(valueBody \<Rightarrow> bytes) \<Rightarrow> SSEDecoder \<Rightarrow> frame \<Rightarrow> bool" where
  "frame_fits enc d (SSEUpdate b) = payload_fits d (enc b)"
| "frame_fits enc d (SSEError b) = payload_fits d (enc b)"
| "frame_fits enc d Heartbeat = True"

lemma sse_line_event: "cr \<notin> set name \<Longrightarrow> int (length name) + 7 \<le> sd_maxLine d \<Longrightarrow>
  sse_line d (''event: '' @ name) a = Continue (a\<lparr>ac_name := name, ac_haveField := True\<rparr>)"
  by (simp add: sse_line_def trim_prefix_def)

lemma sse_line_data: "payload_fits d e \<Longrightarrow> sse_line d (''data: '' @ e) (empty_acc\<lparr>ac_name := n, ac_haveField := True\<rparr>)
    = Continue \<lparr>ac_name = n, ac_data = e, ac_haveField = True, ac_haveData = True\<rparr>"
  by (simp add: sse_line_def trim_prefix_def payload_fits_def sse_data_def empty_acc_def)

lemma Next_event_frame:
  assumes "rd_rest (sd_reader d) = event_frame name e @ t" "one_line name" "one_line e" "payload_fits d e"
    "int (length name) + 7 \<le> sd_maxLine d" "sd_maxLine d < sd_scanMax d"
  shows "SSE_Next d = (Inr \<lparr>se_Name = name, se_Data = e\<rparr>, d\<lparr>sd_reader := (sd_reader d)\<lparr>rd_rest := t\<rparr>\<rparr>)"
proof -
  let ?at = "\<lambda>s. d\<lparr>sd_reader := (sd_reader d)\<lparr>rd_rest := s\<rparr>\<rparr>"
  have "sse_loop d empty_acc = sse_loop (?at (''data: '' @ e @ nl # nl # t)) (empty_acc\<lparr>ac_name := name, ac_haveField := True\<rparr>)"
    using sse_loop_line [of d "''event: '' @ name" "''data: '' @ e @ nl # nl # t" empty_acc] sse_line_event [of name d empty_acc] assms
    by (simp add: one_line_def event_frame_def)
  also have "\<dots> = sse_loop (?at (nl # t)) \<lparr>ac_name = name, ac_data = e, ac_haveField = True, ac_haveData = True\<rparr>"
    using sse_loop_line [of "?at (''data: '' @ e @ nl # nl # t)" "''data: '' @ e" "nl # t"] sse_line_data [of _ e name] assms
    by (simp add: one_line_def payload_fits_def)
  also have "\<dots> = (Inr \<lparr>se_Name = name, se_Data = e\<rparr>, ?at t)"
    using sse_loop_line [of "?at (nl # t)" "[]" t] assms by (simp add: sse_line_def)
  finally show ?thesis by (simp add: SSE_Next_def)
qed

lemma Next_heartbeat:
  assumes "rd_rest (sd_reader d) = frame_bytes enc Heartbeat @ t" "11 \<le> sd_maxLine d" "sd_maxLine d < sd_scanMax d"
  shows "SSE_Next d = SSE_Next (d\<lparr>sd_reader := (sd_reader d)\<lparr>rd_rest := t\<rparr>\<rparr>)"
proof -
  let ?at = "\<lambda>s. d\<lparr>sd_reader := (sd_reader d)\<lparr>rd_rest := s\<rparr>\<rparr>"
  have "sse_loop d empty_acc = sse_loop (?at (nl # t)) empty_acc"
    using sse_loop_line [of d "'': heartbeat''" "nl # t" empty_acc] assms by (simp add: sse_line_def)
  also have "\<dots> = sse_loop (?at t) empty_acc"
    using sse_loop_line [of "?at (nl # t)" "[]" t empty_acc] assms by (simp add: sse_line_def empty_acc_def)
  finally show ?thesis by (simp add: SSE_Next_def)
qed

lemma split_frame: "one_line name \<Longrightarrow> one_line e \<Longrightarrow> [] \<notin> set (butlast (split_on nl (butlast (event_frame name e))))"
  using split_on_append [of nl "''event: '' @ name" "''data: '' @ e @ [nl]"] split_on_append [of nl "''data: '' @ e" "[]"]
  by (simp add: one_line_def event_frame_def butlast_append)

lemma set_event_frame: "one_line name \<Longrightarrow> one_line e \<Longrightarrow> cr \<notin> set (event_frame name e)"
  by (auto simp: one_line_def event_frame_def)

text \<open>A frame of which the end is missing.\<close>

lemma Next_truncated:
  assumes "rd_rest (sd_reader d) = p" "frame_bytes enc f = p @ q" "q \<noteq> []" "\<forall>b. one_line (enc b)"
  shows "\<exists>e. fst (SSE_Next d) = Inl e"
proof -
  have ok: "[] \<notin> set (butlast (split_on nl (butlast (frame_bytes enc f)))) \<and> cr \<notin> set (frame_bytes enc f)"
    by (cases f) (use assms(4) in \<open>auto simp: split_frame set_event_frame one_line_def\<close>)
  have "butlast (frame_bytes enc f) = p @ butlast q" using assms(2,3) by (simp add: butlast_append)
  hence "[] \<notin> set (butlast (split_on nl p))" using ok butlast_split_append [of nl p "butlast q"] by auto
  moreover have "cr \<notin> set p" using ok assms(2) by auto
  ultimately show ?thesis unfolding SSE_Next_def using sse_loop_no_blank assms(1) by blast
qed

text \<open>The frames whose last byte is among the first \<open>k\<close> of the stream.\<close>

fun whole_frames :: "(valueBody \<Rightarrow> bytes) \<Rightarrow> nat \<Rightarrow> frame list \<Rightarrow> frame list" where
  "whole_frames enc k [] = []"
| "whole_frames enc k (f # fs) =
     (if length (frame_bytes enc f) \<le> k then f # whole_frames enc (k - length (frame_bytes enc f)) fs else [])"

lemma frame_fits_reader [simp]: "frame_fits enc (d\<lparr>sd_reader := r\<rparr>) f = frame_fits enc d f"
  by (cases f) (simp_all add: payload_fits_def)

lemma read_events_Inl: "SSE_Next d = (Inl e, d') \<Longrightarrow> read_events d = ([], e)"
  by (simp add: read_events.simps)

lemma read_events_Inr: "SSE_Next d = (Inr ev, d') \<Longrightarrow> fst (read_events d) = ev # fst (read_events d')"
  by (subst read_events.simps) (simp split: prod.split)

lemma Next_empty: "rd_rest (sd_reader d) = [] \<Longrightarrow> 0 < sd_scanMax d \<Longrightarrow> SSE_Next d = (Inl (sse_end (sd_reader d)), d)"
  unfolding SSE_Next_def by (subst sse_loop_None [where r = "sd_reader d"]) (simp_all add: Scan_def)

lemma read_events_frame:
  assumes "rd_rest (sd_reader d) = frame_bytes enc f @ t" "frame_fits enc d f" "\<forall>b. one_line (enc b)"
    "13 \<le> sd_maxLine d" "sd_maxLine d < sd_scanMax d"
  shows "fst (read_events d) = frame_event enc f @ fst (read_events (d\<lparr>sd_reader := (sd_reader d)\<lparr>rd_rest := t\<rparr>\<rparr>))"
proof (cases f)
  case Heartbeat
  thus ?thesis using Next_heartbeat [of d enc t] assms by (subst (1 2) read_events.simps) simp
next
  case (SSEUpdate b)
  thus ?thesis using read_events_Inr [OF Next_event_frame [of d "''update''" "enc b" t]] assms by (simp add: one_line_def)
next
  case (SSEError b)
  thus ?thesis using read_events_Inr [OF Next_event_frame [of d "''error''" "enc b" t]] assms by (simp add: one_line_def)
qed

lemma read_events_stream:
  assumes "\<forall>b. one_line (enc b)"
  shows "rd_rest (sd_reader d) = take k (stream_bytes enc fs) \<Longrightarrow> list_all (frame_fits enc d) fs \<Longrightarrow>
    13 \<le> sd_maxLine d \<Longrightarrow> sd_maxLine d < sd_scanMax d \<Longrightarrow>
    fst (read_events d) = concat (map (frame_event enc) (whole_frames enc k fs))"
proof (induction fs arbitrary: d k)
  case Nil
  thus ?case using read_events_Inl [OF Next_empty [of d]] by (simp add: stream_bytes_def)
next
  case (Cons f fs)
  show ?case
  proof (cases "length (frame_bytes enc f) \<le> k")
    case True
    let ?t = "take (k - length (frame_bytes enc f)) (stream_bytes enc fs)"
    have "rd_rest (sd_reader d) = frame_bytes enc f @ ?t" using Cons.prems(1) True by (simp add: stream_bytes_def)
    from read_events_frame [OF this _ assms] Cons.prems(2-)
    show ?thesis using Cons.IH [of "d\<lparr>sd_reader := (sd_reader d)\<lparr>rd_rest := ?t\<rparr>\<rparr>"] True
      by (simp add: list_all_iff)
  next
    case False
    hence "rd_rest (sd_reader d) = take k (frame_bytes enc f)" using Cons.prems(1) by (simp add: stream_bytes_def)
    moreover have "frame_bytes enc f = take k (frame_bytes enc f) @ drop k (frame_bytes enc f)" by simp
    ultimately obtain e where "fst (SSE_Next d) = Inl e"
      using Next_truncated [of d _ enc f "drop k (frame_bytes enc f)"] assms False by (metis drop_eq_Nil)
    thus ?thesis using read_events_Inl [of d e] False by (cases "SSE_Next d") simp
  qed
qed

subsection \<open>Hostile streams\<close>

lemma sse_loop_Inl:
  "sse_loop d a = (Inl e, d') \<Longrightarrow> e = sse_end (sd_reader d) \<or> e = ErrSSELineTooLong \<or> e = ErrSSEFrameTooLong"
proof (induction d a rule: sse_loop.induct)
  case (1 d a)
  obtain x r where sc: "Scan (nat (sd_scanMax d)) (sd_reader d) = (x, r)" by fastforce
  have r: "sse_end r = sse_end (sd_reader d) \<or> sse_end r = ErrSSELineTooLong"
    using sc by (auto simp: Scan_def sse_end_def split: option.splits if_splits prod.splits)
  show ?case
  proof (cases x)
    case None thus ?thesis using sse_loop_None sc r 1(2) by auto
  next
    case (Some line)
    note sc' = sc [unfolded Some]
    show ?thesis
    proof (cases "sse_line d line a")
      case (Fail e') thus ?thesis using 1(2) sse_loop_Some [OF sc']
        by (auto simp: sse_line_def sse_data_def Let_def split: if_splits prod.splits)
    next
      case (Dispatch e) thus ?thesis using 1(2) sse_loop_Some [OF sc'] by simp
    next
      case (Continue a')
      thus ?thesis using 1(1) [OF sc [symmetric] Some Continue] 1(2) sse_loop_Some [OF sc', of a] Scan_keeps_end [OF sc'] by simp
    qed
  qed
qed

lemma read_events_hostile:
  "decoder_ok d \<Longrightarrow> length (fst (read_events d)) \<le> length (rd_rest (sd_reader d)) \<and>
   list_all (\<lambda>ev. int (length (se_Data ev)) \<le> sd_maxFrame d \<and> int (length (se_Name ev)) \<le> sd_maxLine d) (fst (read_events d)) \<and>
   (snd (read_events d) = sse_end (sd_reader d) \<or> snd (read_events d) \<in> {ErrSSELineTooLong, ErrSSEFrameTooLong})"
proof (induction d rule: read_events.induct)
  case (1 d)
  obtain x d' where n: "SSE_Next d = (x, d')" by fastforce
  show ?case
  proof (cases x)
    case (Inl e)
    thus ?thesis using n sse_loop_Inl [of d empty_acc e d'] read_events_Inl [of d e d'] by (auto simp: SSE_Next_def)
  next
    case (Inr ev)
    obtain evs e where rest: "read_events d' = (evs, e)" by fastforce
    note nx = n [unfolded Inr]
    have eq: "read_events d = (ev # evs, e)" using nx rest by (subst read_events.simps) simp
    have same: "decoder_ok d'" "sd_maxFrame d' = sd_maxFrame d" "sd_maxLine d' = sd_maxLine d"
      using Next_Inr(2) [OF nx] 1(2) by (cases d; cases d'; simp add: decoder_ok_def)+
    show ?thesis using 1(1) [OF n [symmetric] Inr same(1)] Next_Inr(1,3,4) [OF nx] 1(2) rest eq same by auto
  qed
qed

lemma too_long_kinds: "ErrorKind (Some ErrSSELineTooLong) = KindUnavailable" "ErrorKind (Some ErrSSEFrameTooLong) = KindUnavailable"
  by code_simp+

text \<open>
  C29. A stream cannot make its reader hold much or go on for ever, whatever bytes it sends and however it ends. Reading it to its end takes no more
  calls of \<^verbatim>\<open>Next\<close> than it has bytes, and one; the data of every event is within the frame ceiling and its name within the line ceiling; and the
  error at the end is the stream's own, or one of the retryable kind that says a ceiling was crossed.
\<close>

theorem hostile_stream_bounded:
  "let d = NewSSEDecoder r cfg; (evs, e) = read_events d in
     length evs \<le> length (rd_rest r) \<and>
     list_all (\<lambda>ev. int (length (se_Data ev)) \<le> sd_maxFrame d \<and> int (length (se_Name ev)) \<le> sd_maxLine d) evs \<and>
     (e = sse_end r \<or> ErrorKind (Some e) = KindUnavailable)"
proof -
  have "sd_reader (NewSSEDecoder r cfg) = r" by (simp add: NewSSEDecoder_def Let_def)
  thus ?thesis using read_events_hostile [OF NewSSEDecoder_ok [of r cfg]] too_long_kinds by (auto simp: Let_def split: prod.split)
qed

text \<open>
  C28. What the server writes is what the client reads, and a connection that is cut hands on nothing it did not wholly receive: of the first \<open>k\<close> bytes
  of a stream of frames, whatever \<open>k\<close> is and however the connection ends, the reader makes the events of the frames that lie within them, in their order, and
  nothing of the frame that was cut; heartbeats make no event.
\<close>

theorem sse_roundtrip:
  assumes "\<forall>b. one_line (enc b)" "d = NewSSEDecoder \<lparr>rd_rest = take k (stream_bytes enc fs), rd_end = en, rd_eager = eager\<rparr> cfg"
    "list_all (frame_fits enc d) fs" "13 \<le> sd_maxLine d" "sd_maxLine d < MaxInt"
  shows "fst (read_events d) = concat (map (frame_event enc) (whole_frames enc k fs))"
proof (rule read_events_stream [OF assms(1)])
  show "sd_maxLine d < sd_scanMax d" using assms(2,5) by (simp add: NewSSEDecoder_def Let_def)
qed (use assms in \<open>simp_all add: NewSSEDecoder_def Let_def\<close>)

lemma sse_roundtrip_witness:
  "let enc = (\<lambda>b. ''{'' @ filter (\<lambda>c. c \<noteq> nl \<and> c \<noteq> cr) (vb_Name b) @ ''}'');
       fs = [SSEError (newErrorValueBody ''a'' KindNotFound ''binding not found''), Heartbeat, SSEUpdate (newErrorValueBody ''b'' [] [])];
       d = NewSSEDecoder \<lparr>rd_rest = take 60 (stream_bytes enc fs), rd_end = None, rd_eager = False\<rparr> \<lparr>sc_MaxLine = 64, sc_MaxFrame = 3\<rparr>
   in fst (read_events d) = [\<lparr>se_Name = ''error'', se_Data = ''{a}''\<rparr>]"
  unfolding Let_def
  by (subst sse_roundtrip [OF _ refl])
     (auto simp: one_line_def NewSSEDecoder_def payload_fits_def newErrorValueBody_def event_frame_def MaxInt_def)

lemma stream_step_closes: "stream_step s s' \<Longrightarrow> ss_closes s \<le> 1 \<Longrightarrow> ss_closes s' \<le> 1 \<and> (ss_closes s = 1 \<longrightarrow> ss_closes s' = 1 \<and> ss_closeErr s' = ss_closeErr s)"
  by (induction rule: stream_step.induct) (auto simp: closeBody_def Stream_Close_def Stream_Next_def Let_def split: prod.splits)

text \<open>The body of a response is closed once at most, by the caller or by the end of the context, and once it is closed what the close reported stays.\<close>

lemma body_closed_once:
  assumes "stream_step\<^sup>*\<^sup>* (NewSSEStream c r cfg) s"
  shows "ss_closes s \<le> 1 \<and> ss_closes (snd (Stream_Close clo s)) = 1"
proof -
  have "ss_closes s \<le> 1" using assms
    by (induction rule: rtranclp_induct) (use stream_step_closes in \<open>auto simp: NewSSEStream_def\<close>)
  thus ?thesis by (auto simp: Stream_Close_def closeBody_def Let_def)
qed

end
