(* ===== verification/Client.thy ===== *)
theory Client
  imports EventStream Polling
begin

text \<open>
  \<^verbatim>\<open>providers/mamori\<close>: the client of the configuration server, a provider of its own. \<^verbatim>\<open>mamori.go\<close>: configuration, endpoints and
  requests; \<^verbatim>\<open>resolve.go\<close> and \<^verbatim>\<open>batch.go\<close>: the two ways of asking; \<^verbatim>\<open>failover.go\<close>: the walk over the replicas;
  \<^verbatim>\<open>freshness.go\<close> and \<^verbatim>\<open>watch.go\<close>: the stream of updates.

  What lies outside is a record \<open>net\<close>: \<^verbatim>\<open>url.Parse\<close> (the scheme and path of an address), the transport, and the JSON decoders and the encoder
  of the request body. TLS settings belong to the transport. A context that ends is what makes a send on the update channel fail; the sends that still succeed are counted.
\<close>

subsection \<open>Requests\<close>

record creq =
  cq_Method :: string
  cq_URL :: string
  cq_Header :: "(string \<times> string) list"
  cq_Body :: bytes

record cresp =
  cs_Status :: nat
  cs_Body :: reader

datatype transport = UnixSocket string | Tcp

text \<open>A client the caller supplied (with or without a transport of its own), or the one built for an endpoint.\<close>

datatype client = Supplied bool | Built transport

record endpoint =
  ep_baseURL :: string
  ep_client :: client

record net =
  nt_Parse :: "string \<Rightarrow> (string \<times> string) option"
  nt_Send :: "client \<Rightarrow> creq \<Rightarrow> err + cresp"
  nt_value :: "bytes \<Rightarrow> valueBody option"
  nt_error :: "bytes \<Rightarrow> errorDetail option"
  nt_batch :: "bytes \<Rightarrow> valueBody list option"
  nt_frame :: "bytes \<Rightarrow> valueBody option"
  nt_names :: "string list \<Rightarrow> bytes"

record client_Config =
  cc_Endpoint :: string
  cc_Endpoints :: "string list"
  cc_InsecureNoTLS :: bool
  cc_HTTPClient :: "client option"

record Provider =
  mp_endpoints :: "endpoint list"
  mp_requestEditors :: "(creq \<Rightarrow> creq) list"
  mp_endpointErr :: "err option"
  mp_closed :: bool

definition invalid :: "string \<Rightarrow> err" where "invalid msg = Errorf msg [Sentinel ErrInvalid]"

definition trim_right_slash :: "string \<Rightarrow> string" where
  "trim_right_slash s = rev (dropWhile (\<lambda>c. c = CHR ''/'') (rev s))"

definition dummyUnixHost :: string where "dummyUnixHost = ''unix''"

definition parseEndpoint :: "net \<Rightarrow> string \<Rightarrow> bool \<Rightarrow> err + string \<times> transport" where
  "parseEndpoint N endpoint insecure =
     (if endpoint = [] then Inl (invalid ''empty mamori endpoint'')
      else (case nt_Parse N endpoint of
         None \<Rightarrow> Inl (invalid ''parsing mamori endpoint'')
       | Some (scheme, p) \<Rightarrow>
           if scheme = ''unix'' then
             (if p = [] then Inl (invalid ''unix mamori endpoint has no socket path'')
              else Inr (''http://'' @ dummyUnixHost, UnixSocket p))
           else if scheme = ''https'' then Inr (trim_right_slash endpoint, Tcp)
           else if scheme = ''http'' then
             (if \<not> insecure then Inl (invalid ''plaintext mamori endpoint refused'') else Inr (trim_right_slash endpoint, Tcp))
           else Inl (invalid ''unsupported mamori endpoint scheme'')))"

definition configuredEndpoints :: "client_Config \<Rightarrow> err + string list" where
  "configuredEndpoints cfg =
     (if cc_Endpoint cfg \<noteq> [] \<and> cc_Endpoints cfg \<noteq> [] then Inl (invalid ''Config.Endpoint and Config.Endpoints are both set'')
      else if cc_Endpoints cfg \<noteq> [] then Inr (cc_Endpoints cfg)
      else Inr [cc_Endpoint cfg])"

definition new_endpoint :: "net \<Rightarrow> client_Config \<Rightarrow> string \<Rightarrow> err + endpoint" where
  "new_endpoint N cfg addr = (case parseEndpoint N addr (cc_InsecureNoTLS cfg) of
     Inl e \<Rightarrow> Inl e
   | Inr (base, t) \<Rightarrow> Inr \<lparr>ep_baseURL = base, ep_client = (case cc_HTTPClient cfg of Some c \<Rightarrow> c | None \<Rightarrow> Built t)\<rparr>)"

definition newEndpoints :: "net \<Rightarrow> client_Config \<Rightarrow> err + endpoint list" where
  "newEndpoints N cfg = bind_res (configuredEndpoints cfg) (map_res (new_endpoint N cfg))"

definition WithRequestEditor :: "(creq \<Rightarrow> creq) option \<Rightarrow> Provider \<Rightarrow> Provider" where
  "WithRequestEditor fn p = (case fn of Some f \<Rightarrow> p\<lparr>mp_requestEditors := mp_requestEditors p @ [f]\<rparr> | None \<Rightarrow> p)"

text \<open>\<^verbatim>\<open>Header.Set\<close>: header names differ in more than their case.\<close>

definition set_header :: "string \<Rightarrow> string \<Rightarrow> creq \<Rightarrow> creq" where
  "set_header k v q = q\<lparr>cq_Header := (to_lower k, v) # filter (\<lambda>(k', _). k' \<noteq> to_lower k) (cq_Header q)\<rparr>"

definition WithHeader :: "string \<Rightarrow> string \<Rightarrow> Provider \<Rightarrow> Provider" where
  "WithHeader k v = WithRequestEditor (Some (set_header k v))"

definition WithHTTPClient :: "client option \<Rightarrow> Provider \<Rightarrow> Provider" where
  "WithHTTPClient c p = (case c of None \<Rightarrow> p
     | Some cl \<Rightarrow> p\<lparr>mp_endpoints := map (\<lambda>ep. ep\<lparr>ep_client := cl\<rparr>) (mp_endpoints p)\<rparr>)"

definition New_Provider :: "net \<Rightarrow> client_Config \<Rightarrow> (Provider \<Rightarrow> Provider) list \<Rightarrow> Provider" where
  "New_Provider N cfg opts = fold (\<lambda>opt p. opt p) opts
     (case newEndpoints N cfg of
        Inl e \<Rightarrow> \<lparr>mp_endpoints = [], mp_requestEditors = [], mp_endpointErr = Some e, mp_closed = False\<rparr>
      | Inr eps \<Rightarrow> \<lparr>mp_endpoints = eps, mp_requestEditors = [], mp_endpointErr = None, mp_closed = False\<rparr>)"

text \<open>\<^verbatim>\<open>Close\<close>, with the clients whose idle connections it releases.\<close>

definition Close_Provider :: "Provider \<Rightarrow> client list \<times> Provider" where
  "Close_Provider p = (filter (\<lambda>c. c \<noteq> Supplied False) (map ep_client (mp_endpoints p)), p\<lparr>mp_closed := True\<rparr>)"

definition closed_err :: err where
  "closed_err = Errorf ''mamori: provider is closed'' [Sentinel ErrUnavailable]"

definition client_do :: "net \<Rightarrow> Provider \<Rightarrow> endpoint \<Rightarrow> string \<Rightarrow> string \<Rightarrow> bytes \<Rightarrow> (creq \<Rightarrow> creq) list \<Rightarrow> err + cresp" where
  "client_do N p ep method path body edits =
     (if mp_closed p then Inl closed_err
      else (case mp_endpointErr p of
         Some e \<Rightarrow> Inl e
       | None \<Rightarrow>
           let url = ep_baseURL ep @ path in
           if nt_Parse N url = None then Inl (invalid ''building request'')
           else nt_Send N (ep_client ep)
                  (fold (\<lambda>edit q. edit q) (edits @ mp_requestEditors p)
                     \<lparr>cq_Method = method, cq_URL = url, cq_Header = [], cq_Body = body\<rparr>)))"

subsection \<open>Failover\<close>

definition authoritativeKinds :: "Kind list" where
  "authoritativeKinds = [KindNotFound, KindPermissionDenied, KindUnauthenticated, KindInvalid, KindRateLimited]"

definition shouldFailover :: "err option \<Rightarrow> bool" where
  "shouldFailover e = (e \<noteq> None \<and> ErrorKind e \<notin> set authoritativeKinds)"

text \<open>The loop of \<^verbatim>\<open>tryEndpoints\<close>; \<open>gone i\<close> says that the context is over after the attempt \<open>i\<close>.\<close>

fun endpoint_walk :: "(nat \<Rightarrow> bool) \<Rightarrow> (endpoint \<Rightarrow> err + 'a) \<Rightarrow> nat \<Rightarrow> endpoint list \<Rightarrow> err \<Rightarrow> err + 'a" where
  "endpoint_walk gone attempt i [] lastErr = Inl lastErr"
| "endpoint_walk gone attempt i (ep # eps) lastErr = (case attempt ep of
     Inr x \<Rightarrow> Inr x
   | Inl e \<Rightarrow> if gone i then Inl e else if \<not> shouldFailover (Some e) then Inl e
             else endpoint_walk gone attempt (Suc i) eps e)"

definition no_endpoint :: err where "no_endpoint = invalid ''no mamori endpoint configured''"

definition tryEndpoints :: "(nat \<Rightarrow> bool) \<Rightarrow> Provider \<Rightarrow> (endpoint \<Rightarrow> err + 'a) \<Rightarrow> err + 'a" where
  "tryEndpoints gone p attempt = (case mp_endpointErr p of
     Some e \<Rightarrow> Inl e
   | None \<Rightarrow> if mp_endpoints p = [] then Inl no_endpoint else endpoint_walk gone attempt 0 (mp_endpoints p) no_endpoint)"

subsection \<open>Resolving\<close>

definition errBodyLimit :: nat where "errBodyLimit = 8192"

definition wireKindSentinel :: "(Kind \<times> sentinel) list" where
  "wireKindSentinel =
     [(KindNotFound, ErrNotFound), (KindPermissionDenied, ErrPermissionDenied), (KindUnauthenticated, ErrUnauthenticated),
      (KindUnavailable, ErrUnavailable), (KindRateLimited, ErrRateLimited), (KindInvalid, ErrInvalid)]"

definition sentinelForKind :: "string \<Rightarrow> sentinel option" where
  "sentinelForKind kind = map_of wireKindSentinel kind"

text \<open>What the sentinel of a wire error becomes; without one the error is left unclassified.\<close>

definition wire_error :: "errorDetail \<Rightarrow> string \<Rightarrow> err" where
  "wire_error d bare = (case sentinelForKind (ed_Kind d) of
     Some s \<Rightarrow> Errorf (ed_Message d) [Sentinel s] | None \<Rightarrow> Opaque bare)"

definition body_value :: "valueBody \<Rightarrow> Value" where
  "body_value vb = \<lparr>v_Bytes = vb_Bytes vb, v_Version = vb_Version vb, v_Sensitive = vb_Sensitive vb,
     v_NotAfter = (case vb_NotAfter vb of None \<Rightarrow> 0 | Some t \<Rightarrow> t),
     v_Metadata = (case vb_Metadata vb of None \<Rightarrow> [] | Some m \<Rightarrow> m)\<rparr>"

text \<open>\<^verbatim>\<open>url.PathEscape\<close> and its inverse, which the server's router applies to a path segment.\<close>

definition path_safe :: "char \<Rightarrow> bool" where
  "path_safe c \<longleftrightarrow> query_safe c \<or> c \<in> set ''$&+:=@''"

definition escape_with :: "(char \<Rightarrow> bool) \<Rightarrow> string \<Rightarrow> string" where
  "escape_with safe s = concat (map (\<lambda>c. if safe c then [c] else [CHR ''%'', hex_digit (code c div 16), hex_digit (code c mod 16)]) s)"

definition path_escape :: "string \<Rightarrow> string" where
  "path_escape s = escape_with path_safe s"

fun path_unescape :: "string \<Rightarrow> string option" where
  "path_unescape [] = Some []"
| "path_unescape (c # s) =
     (if c = CHR ''%'' then
        (case s of a # b # t \<Rightarrow>
           (case (unhex a, unhex b) of
              (Some x, Some y) \<Rightarrow> map_option ((#) (char_of (16 * x + y))) (path_unescape t)
            | _ \<Rightarrow> None)
         | _ \<Rightarrow> None)
      else map_option ((#) c) (path_unescape s))"

lemma unescape_escape_with:
  assumes "\<And>c. safe c \<Longrightarrow> c \<noteq> CHR ''%''"
  shows "path_unescape (escape_with safe s) = Some s"
proof (induction s)
  case (Cons c s)
  have "code c div 16 < 16" using code_less [of c] by (simp add: less_mult_imp_div_less)
  thus ?case using Cons assms [of c] by (auto simp: escape_with_def unhex_hex_digit)
qed (simp add: escape_with_def)

definition resolveOnce :: "net \<Rightarrow> Provider \<Rightarrow> string \<Rightarrow> endpoint \<Rightarrow> err + Value" where
  "resolveOnce N p name ep = (case client_do N p ep ''GET'' (''/v1/values/'' @ path_escape name) [] [] of
     Inl e \<Rightarrow> Inl e
   | Inr resp \<Rightarrow>
       let body = rd_rest (cs_Body resp) in
       if cs_Status resp = 200 then (case nt_value N body of
          None \<Rightarrow> Inl (invalid ''decoding mamori value response'')
        | Some vb \<Rightarrow> Inr (body_value vb))
       else (case nt_error N (take errBodyLimit body) of
          None \<Rightarrow> Inl (if cs_Status resp = 404 then Errorf ''mamori server returned 404 with an undecodable body'' [Sentinel ErrNotFound]
                       else Opaque ''mamori: server returned an undecodable body'')
        | Some d \<Rightarrow> Inl (wire_error d ''mamori: server returned an unclassified error'')))"

definition no_name :: err where "no_name = invalid ''mamori:// ref has no binding name''"

definition Resolve_mamori :: "net \<Rightarrow> (nat \<Rightarrow> bool) \<Rightarrow> Provider \<Rightarrow> Ref \<Rightarrow> err + Value" where
  "Resolve_mamori N gone p ref =
     (if r_Path ref = [] then Inl no_name else tryEndpoints gone p (resolveOnce N p (r_Path ref)))"

subsection \<open>Resolving a batch\<close>

fun batch_entries :: "(string \<rightharpoonup> string) \<Rightarrow> valueBody list \<Rightarrow> (string \<rightharpoonup> Value) \<Rightarrow> err + (string \<rightharpoonup> Value)" where
  "batch_entries keyByName [] result = Inr result"
| "batch_entries keyByName (entry # es) result = (case keyByName (vb_Name entry) of
     None \<Rightarrow> batch_entries keyByName es result
   | Some key \<Rightarrow> (case vb_Error entry of
        None \<Rightarrow> batch_entries keyByName es (result(key \<mapsto> body_value entry))
      | Some d \<Rightarrow>
          if ed_Kind d = KindNotFound then batch_entries keyByName es result
          else Inl (wire_error d ''mamori: batch entry failed'')))"

definition resolveBatchOnce :: "net \<Rightarrow> Provider \<Rightarrow> bytes \<Rightarrow> (string \<rightharpoonup> string) \<Rightarrow> endpoint \<Rightarrow> err + (string \<rightharpoonup> Value)" where
  "resolveBatchOnce N p reqBody keyByName ep = (case client_do N p ep ''POST'' ''/v1/values'' reqBody [] of
     Inl e \<Rightarrow> Inl e
   | Inr resp \<Rightarrow>
       let body = rd_rest (cs_Body resp) in
       if cs_Status resp \<noteq> 200 then (case nt_error N (take errBodyLimit body) of
          None \<Rightarrow> Inl (Opaque ''mamori: batch request returned an undecodable body'')
        | Some d \<Rightarrow> Inl (wire_error d ''mamori: batch request returned an unclassified error''))
       else (case nt_batch N body of
          None \<Rightarrow> Inl (invalid ''decoding mamori batch response'')
        | Some vbs \<Rightarrow> batch_entries keyByName vbs Map.empty))"

definition ResolveBatch_mamori :: "net \<Rightarrow> (nat \<Rightarrow> bool) \<Rightarrow> Provider \<Rightarrow> Ref list \<Rightarrow> err + (string \<rightharpoonup> Value)" where
  "ResolveBatch_mamori N gone p refs =
     (if list_ex (\<lambda>r. r_Path r = []) refs then Inl no_name
      else tryEndpoints gone p (resolveBatchOnce N p (nt_names N (map r_Path refs))
             (map_of (rev (map (\<lambda>r. (r_Path r, String_Ref r)) refs)))))"

subsection \<open>The freshness guard\<close>

type_synonym freshnessGuard = "string \<rightharpoonup> instant"

definition resolvedAtSkewTolerance :: duration where "resolvedAtSkewTolerance = 1000000000"

definition newFreshnessGuard :: freshnessGuard where "newFreshnessGuard = Map.empty"

definition guard_allows :: "freshnessGuard \<Rightarrow> string \<Rightarrow> instant option \<Rightarrow> bool" where
  "guard_allows g name resolvedAt = (case resolvedAt of None \<Rightarrow> True
     | Some t \<Rightarrow> (case g name of None \<Rightarrow> True | Some watermark \<Rightarrow> \<not> t < watermark + (- resolvedAtSkewTolerance)))"

definition guard_record :: "string \<Rightarrow> instant option \<Rightarrow> freshnessGuard \<Rightarrow> freshnessGuard" where
  "guard_record name resolvedAt g = (case resolvedAt of None \<Rightarrow> g
     | Some t \<Rightarrow> (case g name of Some current \<Rightarrow> if \<not> t > current then g else g(name \<mapsto> t) | None \<Rightarrow> g(name \<mapsto> t)))"

subsection \<open>Watching\<close>

text \<open>
  The state of a watch: what was sent on its channel, the guard, and how many sends still succeed before the context is over. Each update
  is kept with the binding and the date of the frame that made it, which the channel itself does not carry.
\<close>

record watch_state =
  ws_out :: "(Update \<times> (string \<times> instant option)) list"
  ws_guard :: freshnessGuard
  ws_left :: nat

definition sendUpdate :: "Update \<Rightarrow> string \<times> instant option \<Rightarrow> watch_state \<Rightarrow> bool \<times> watch_state" where
  "sendUpdate u tag st = (if ws_left st = 0 then (False, st)
     else (True, st\<lparr>ws_out := ws_out st @ [(u, tag)], ws_left := ws_left st - 1\<rparr>))"

definition update_err :: "err \<Rightarrow> Update" where "update_err e = \<lparr>u_Value = zero_Value, u_Err = Some e\<rparr>"

definition frame_name :: "string \<Rightarrow> valueBody \<Rightarrow> string" where
  "frame_name name vb = (if vb_Name vb = [] then name else vb_Name vb)"

definition dispatch_update :: "string \<Rightarrow> valueBody \<Rightarrow> watch_state \<Rightarrow> bool \<times> watch_state" where
  "dispatch_update name vb st =
     (let frameName = frame_name name vb in
      if \<not> guard_allows (ws_guard st) frameName (vb_ResolvedAt vb) then (True, st)
      else (case sendUpdate \<lparr>u_Value = body_value vb, u_Err = None\<rparr> (frameName, vb_ResolvedAt vb) st of
         (False, st') \<Rightarrow> (False, st')
       | (True, st') \<Rightarrow> (True, st'\<lparr>ws_guard := guard_record frameName (vb_ResolvedAt vb) (ws_guard st')\<rparr>)))"

definition dispatchSSEFrame :: "net \<Rightarrow> string \<Rightarrow> SSEEvent \<Rightarrow> watch_state \<Rightarrow> bool \<times> watch_state" where
  "dispatchSSEFrame N name ev st =
     (if se_Name ev = ''update'' then
        (case nt_frame N (se_Data ev) of None \<Rightarrow> (True, st) | Some vb \<Rightarrow> dispatch_update name vb st)
      else if se_Name ev = ''error'' then
        (case nt_frame N (se_Data ev) of None \<Rightarrow> (True, st)
         | Some vb \<Rightarrow> (case vb_Error vb of None \<Rightarrow> (True, st)
            | Some d \<Rightarrow> sendUpdate (update_err (wire_error d ''mamori: watch error'')) (name, None) st))
      else (True, st))"

lemma Stream_Next_shrinks:
  "Stream_Next s = (Inr ev, s') \<Longrightarrow> length (rd_rest (sd_reader (ss_dec s'))) < length (rd_rest (sd_reader (ss_dec s)))"
  by (auto simp: Stream_Next_def split: prod.splits sum.splits option.splits dest: Next_Inr(1))

function readSSE :: "net \<Rightarrow> string \<Rightarrow> SSEStream \<Rightarrow> watch_state \<Rightarrow> watch_state" where
  "readSSE N name s st = (case Stream_Next s of
     (Inl e, s') \<Rightarrow> st
   | (Inr ev, s') \<Rightarrow> (case dispatchSSEFrame N name ev st of
        (False, st') \<Rightarrow> st' | (True, st') \<Rightarrow> readSSE N name s' st'))"
  by pat_completeness auto
termination
  by (relation "measure (\<lambda>(N, name, s, st). length (rd_rest (sd_reader (ss_dec s))))") (auto dest: sym [THEN Stream_Next_shrinks])

declare readSSE.simps [simp del]

definition watchConnectError :: "net \<Rightarrow> cresp \<Rightarrow> err" where
  "watchConnectError N resp = (case nt_error N (take errBodyLimit (rd_rest (cs_Body resp))) of
     None \<Rightarrow> Opaque ''mamori: watch request returned an undecodable body''
   | Some d \<Rightarrow> wire_error d ''mamori: watch request returned an unclassified error'')"

definition watchOnce :: "net \<Rightarrow> Provider \<Rightarrow> string \<Rightarrow> endpoint \<Rightarrow> watch_state \<Rightarrow> bool \<times> watch_state" where
  "watchOnce N p name ep st =
     (case client_do N p ep ''GET'' (''/v1/watch?'' @ values_encode [(''name'', [name])]) [] [set_header ''Accept'' ''text/event-stream''] of
        Inl e \<Rightarrow> (False, snd (sendUpdate (update_err (Errorf ''connecting mamori watch'' [Sentinel ErrUnavailable])) (name, None) st))
      | Inr resp \<Rightarrow>
          if cs_Status resp \<noteq> 200 then (False, snd (sendUpdate (update_err (watchConnectError N resp)) (name, None) st))
          else (True, readSSE N name (NewSSEStream None (cs_Body resp) \<lparr>sc_MaxLine = 0, sc_MaxFrame = 0\<rparr>) st))"

definition watchBackoffFloor :: duration where "watchBackoffFloor = 100000000"
definition watchBackoffCap :: duration where "watchBackoffCap = 30000000000"

definition nextWatchBackoff :: "duration \<Rightarrow> duration" where
  "nextWatchBackoff d0 = (let d = wrap64 (d0 * 2) in if d \<le> 0 \<or> d > watchBackoffCap then watchBackoffCap else d)"

text \<open>\<open>r\<close> is what \<^verbatim>\<open>rand.N(d/2+1)\<close> drew.\<close>

definition watchBackoffJitter :: "duration \<Rightarrow> duration \<Rightarrow> duration" where
  "watchBackoffJitter d r = (if d \<le> 0 then 0 else d div 2 + r)"

text \<open>
  One pass of \<^verbatim>\<open>watchLoop\<close> over what the network is at that time: the endpoint dialled, the wait before the next pass if there is one, and the state after it.
\<close>

record watch_pass =
  wp_current :: nat
  wp_backoff :: duration
  wp_state :: watch_state

definition loop_endpoints :: "Provider \<Rightarrow> endpoint list" where
  "loop_endpoints p = (if mp_endpoints p = [] then [\<lparr>ep_baseURL = [], ep_client = Built Tcp\<rparr>] else mp_endpoints p)"

definition watch_iteration :: "net \<Rightarrow> Provider \<Rightarrow> string \<Rightarrow> watch_pass \<Rightarrow> duration option \<times> watch_pass" where
  "watch_iteration N p name w =
     (let eps = loop_endpoints p; (established, st) = watchOnce N p name (eps ! wp_current w) (wp_state w);
          backoff = (if established then watchBackoffFloor else wp_backoff w);
          current = (wp_current w + 1) mod length eps
      in if current \<noteq> 0 then (None, \<lparr>wp_current = current, wp_backoff = backoff, wp_state = st\<rparr>)
         else (Some backoff, \<lparr>wp_current = current, wp_backoff = nextWatchBackoff backoff, wp_state = st\<rparr>))"

definition watch_start :: "nat \<Rightarrow> watch_pass" where
  "watch_start left = \<lparr>wp_current = 0, wp_backoff = watchBackoffFloor,
     wp_state = \<lparr>ws_out = [], ws_guard = newFreshnessGuard, ws_left = left\<rparr>\<rparr>"

text \<open>The loop, over the networks its passes meet; the context being over ends it.\<close>

fun watchLoop :: "Provider \<Rightarrow> string \<Rightarrow> net list \<Rightarrow> watch_pass \<Rightarrow> (nat \<times> duration option) list \<times> watch_pass" where
  "watchLoop p name [] w = ([], w)"
| "watchLoop p name (N # Ns) w =
     (if ws_left (wp_state w) = 0 then ([], w)
      else (case watch_iteration N p name w of (sleep, w') \<Rightarrow>
        (case watchLoop p name Ns w' of (log, w'') \<Rightarrow> ((wp_current w, sleep) # log, w''))))"

definition Watch_mamori :: "Provider \<Rightarrow> Ref \<Rightarrow> nat \<Rightarrow> err + watch_pass" where
  "Watch_mamori p ref left =
     (if mp_closed p then Inl closed_err else if r_Path ref = [] then Inl no_name else Inr (watch_start left))"

end
