(* ===== verification/EndToEnd.thy ===== *)
theory EndToEnd
  imports Client Disclosure
begin

text \<open>
  The client of \<^verbatim>\<open>providers/mamori\<close> against the server of \<^verbatim>\<open>server\<close>: what a value, a batch or a watch brings back is what the
  server would say, through the escaping of names, the router, the wire bodies and the error kinds.
\<close>

subsection \<open>The server at the other end\<close>

text \<open>
  A transport that reaches the server of \<^verbatim>\<open>server/handler.go\<close>: its router takes the method and the path, unescaping the one segment that is the
  name (the dot segments never reach a handler, since the router cleans them away). \<open>rq\<close> is what the HTTP server makes of the rest of a request; \<open>encb\<close> and \<open>encv\<close>
  are the JSON encoders of a body and of the payload of a frame.
\<close>

definition wire_bytes :: "(wire_body \<Rightarrow> bytes) \<Rightarrow> (valueBody \<Rightarrow> bytes) \<Rightarrow> wire_body \<Rightarrow> bytes" where
  "wire_bytes encb encv b = (case b of Stream fs \<Rightarrow> stream_bytes encv fs | _ \<Rightarrow> encb b)"

definition wire_reply :: "(wire_body \<Rightarrow> bytes) \<Rightarrow> (valueBody \<Rightarrow> bytes) \<Rightarrow> wire_response \<Rightarrow> cresp" where
  "wire_reply encb encv w = \<lparr>cs_Status = wr_Status w,
     cs_Body = \<lparr>rd_rest = wire_bytes encb encv (wr_Body w), rd_end = None, rd_eager = False\<rparr>\<rparr>"

record site =
  st_decode :: "bytes \<Rightarrow> string list option"
  st_room :: nat
  st_events :: "watch_event list"
  st_encb :: "wire_body \<Rightarrow> bytes"
  st_encv :: "valueBody \<Rightarrow> bytes"
  st_rq :: "creq \<Rightarrow> server_request"
  st_server :: rserver

definition site_request :: "site \<Rightarrow> creq \<Rightarrow> (string \<times> string list) list \<Rightarrow> server_request" where
  "site_request S q query = (st_rq S q)\<lparr>sr_Query := query, sr_Body := cq_Body q\<rparr>"

definition route :: "site \<Rightarrow> string \<Rightarrow> creq \<Rightarrow> wire_response" where
  "route S base q =
     (let url = cq_URL q; values = base @ ''/v1/values/''; watch = base @ ''/v1/watch?'' in
      if cq_Method q = ''GET'' \<and> has_prefix values url then
        (case path_unescape (drop (length values) url) of
           Some name \<Rightarrow> if name \<in> {[], ''.'', ''..''} then server_writeJSON 404 RouterBody
                        else fst (handleValue (st_server S) (site_request S q []) name)
         | None \<Rightarrow> server_writeJSON 400 RouterBody)
      else if cq_Method q = ''POST'' \<and> url = base @ ''/v1/values'' then
        fst (handleBatch (st_decode S) (st_server S) (site_request S q []))
      else if cq_Method q = ''GET'' \<and> has_prefix watch url then
        fst (handleWatch (st_server S)
          (site_request S q (case parse_query (drop (length watch) url) of Some m \<Rightarrow> m | None \<Rightarrow> [])) (st_room S) (st_events S))
      else server_writeJSON 404 RouterBody)"

definition reaches :: "site \<Rightarrow> endpoint \<Rightarrow> net \<Rightarrow> bool" where
  "reaches S ep N \<longleftrightarrow> nt_Send N (ep_client ep) = (\<lambda>q. Inr (wire_reply (st_encb S) (st_encv S) (route S (ep_baseURL ep) q)))"

text \<open>The body can be read back by the decoder that is applied to it.\<close>

definition decodes :: "net \<Rightarrow> (wire_body \<Rightarrow> bytes) \<Rightarrow> wire_body \<Rightarrow> bool" where
  "decodes N encb b = (case b of
     ValueBody vb \<Rightarrow> nt_value N (encb b) = Some vb
   | BatchBody vbs \<Rightarrow> nt_batch N (encb b) = Some vbs
   | ErrorBody d \<Rightarrow> nt_error N (take errBodyLimit (encb b)) = Some d
   | _ \<Rightarrow> True)"

subsection \<open>Escaping\<close>

lemma path_unescape_escape: "path_unescape (path_escape s) = Some s"
  unfolding path_escape_def
  by (rule unescape_escape_with) (auto simp: path_safe_def query_safe_def is_alpha_def is_digit_def code_def)

subsection \<open>Kinds over the wire\<close>

definition wire_kind :: "Kind \<Rightarrow> Kind" where
  "wire_kind k = (if SentinelFor k = None then KindUnknown else k)"

lemma sentinelForKind_SentinelFor: "sentinelForKind k = SentinelFor k"
  by (auto simp: sentinelForKind_def wireKindSentinel_def SentinelFor_def kindSentinels_def)

lemma wire_error_kind: "ErrorKind (Some (wire_error d m)) = wire_kind (ed_Kind d)"
proof -
  have "SentinelFor k = Some t \<Longrightarrow> ErrorKind (Some (Sentinel t)) = k" for k t
    by (auto simp: SentinelFor_def ErrorKind_def kindSentinels_def split: if_splits)
  moreover have "ErrorKind (Some (Opaque x)) = KindUnknown" for x by (simp add: ErrorKind_def kindSentinels_def)
  ultimately show ?thesis
    by (auto simp: wire_error_def wire_kind_def sentinelForKind_SentinelFor split: option.split)
qed

lemma wire_kind_ErrorKind: "wire_kind (ErrorKind (Some e)) = ErrorKind (Some e)"
  by (auto simp: wire_kind_def ErrorKind_def SentinelFor_def kindSentinels_def split: if_splits)

lemma body_value_newValueBody [simp]: "body_value (newValueBody name v k f) = v"
  by (simp add: body_value_def newValueBody_def time_is_zero_def)

subsection \<open>Asking the server\<close>

text \<open>What the server has to say to a request about a name.\<close>

definition server_answer :: "rserver \<Rightarrow> server_request \<Rightarrow> string \<Rightarrow> Kind + Value" where
  "server_answer s r name = (case authenticate s r of
     Inl (_, kind, _) \<Rightarrow> Inl kind
   | Inr i \<Rightarrow> if \<not> allows s i name then Inl KindPermissionDenied
       else (case lookupFresh s name of (v, f, k, hasValue, found) \<Rightarrow>
         if \<not> found then Inl KindNotFound else if k \<noteq> [] \<and> \<not> hasValue then Inl k else Inr v))"

definition kind_result :: "err + 'a \<Rightarrow> Kind + 'a" where
  "kind_result = map_sum (\<lambda>e. ErrorKind (Some e)) id"

lemma kind_result_simps [simp]: "kind_result (Inl e) = Inl (ErrorKind (Some e))" "kind_result (Inr x) = Inr x"
  by (simp_all add: kind_result_def)

text \<open>Request editors that only add to the headers.\<close>

definition header_only :: "(creq \<Rightarrow> creq) \<Rightarrow> bool" where
  "header_only f \<longleftrightarrow> (\<forall>q. cq_Method (f q) = cq_Method q \<and> cq_URL (f q) = cq_URL q \<and> cq_Body (f q) = cq_Body q)"

definition editors_ok :: "Provider \<Rightarrow> bool" where
  "editors_ok p \<longleftrightarrow> list_all header_only (mp_requestEditors p)"

definition edited :: "Provider \<Rightarrow> string \<Rightarrow> string \<Rightarrow> bytes \<Rightarrow> (creq \<Rightarrow> creq) list \<Rightarrow> creq" where
  "edited p method url body edits = fold (\<lambda>edit q. edit q) (edits @ mp_requestEditors p)
     \<lparr>cq_Method = method, cq_URL = url, cq_Header = [], cq_Body = body\<rparr>"

lemma fold_header_only:
  "list_all header_only fs \<Longrightarrow> cq_Method (fold (\<lambda>edit. edit) fs q) = cq_Method q \<and>
   cq_URL (fold (\<lambda>edit. edit) fs q) = cq_URL q \<and> cq_Body (fold (\<lambda>edit. edit) fs q) = cq_Body q"
  by (induction fs arbitrary: q) (simp_all add: header_only_def)

lemma edited_fields:
  assumes "editors_ok p" "list_all header_only edits"
  shows "cq_Method (edited p m url b edits) = m" "cq_URL (edited p m url b edits) = url" "cq_Body (edited p m url b edits) = b"
  using fold_header_only [of "edits @ mp_requestEditors p"] assms by (simp_all add: edited_def editors_ok_def del: fold_append)

lemma set_header_only: "header_only (set_header k v)"
  by (simp add: header_only_def set_header_def)

text \<open>A provider in use: it is open, its configuration is in order and its addresses are URLs.\<close>

definition usable :: "net \<Rightarrow> Provider \<Rightarrow> bool" where
  "usable N p \<longleftrightarrow> \<not> mp_closed p \<and> mp_endpointErr p = None \<and> editors_ok p"

lemma client_do_usable:
  "usable N p \<Longrightarrow> nt_Parse N (ep_baseURL ep @ path) \<noteq> None \<Longrightarrow> reaches S ep N \<Longrightarrow>
   client_do N p ep m path b edits = Inr (wire_reply (st_encb S) (st_encv S) (route S (ep_baseURL ep) (edited p m (ep_baseURL ep @ path) b edits)))"
  by (simp add: client_do_def usable_def reaches_def Let_def edited_def)

lemma route_value:
  assumes "editors_ok p" "name \<notin> {[], ''.'', ''..''}"
  shows "route S base (edited p ''GET'' (base @ ''/v1/values/'' @ path_escape name) [] [])
       = fst (handleValue (st_server S) (site_request S (edited p ''GET'' (base @ ''/v1/values/'' @ path_escape name) [] []) []) name)"
proof -
  have "has_prefix (base @ ''/v1/values/'') (base @ ''/v1/values/'' @ path_escape name)"
    using has_prefix_append [of "base @ ''/v1/values/''" "path_escape name"] by simp
  thus ?thesis using edited_fields [OF assms(1), of "[]" "''GET''" "base @ ''/v1/values/'' @ path_escape name" "[]"] assms(2)
    by (simp add: route_def Let_def path_unescape_escape)
qed

lemma statusForKind_not_200 [simp]: "statusForKind k \<noteq> 200"
  by (simp add: statusForKind_def)

lemma authenticate_Inl: "authenticate s r = Inl (w, kind, status) \<Longrightarrow>
   wr_Status w \<noteq> 200 \<and> (\<exists>m. wr_Body w = ErrorBody \<lparr>ed_Kind = kind, ed_Message = m\<rparr>)"
  by (auto simp: authenticate_def writeError_def server_writeJSON_def Let_def split: if_splits sum.splits)

lemma handleValue_answer:
  "(case server_answer s r name of
      Inr v \<Rightarrow> wr_Status (fst (handleValue s r name)) = 200 \<and> (\<exists>k f. wr_Body (fst (handleValue s r name)) = ValueBody (newValueBody name v k f))
    | Inl k \<Rightarrow> wr_Status (fst (handleValue s r name)) \<noteq> 200 \<and>
        (\<exists>m. wr_Body (fst (handleValue s r name)) = ErrorBody \<lparr>ed_Kind = k, ed_Message = m\<rparr>))"
proof (cases "authenticate s r")
  case (Inl w)
  thus ?thesis using authenticate_Inl [of s r] by (cases w) (auto simp: server_answer_def handleValue_def no_store_def)
next
  case (Inr i)
  obtain v f k has found where l: "lookupFresh s name = (v, f, k, has, found)" by (metis prod_cases5)
  show ?thesis using Inr l
    by (auto simp: server_answer_def handleValue_def no_store_def authorize_def writeError_def server_writeJSON_def)
qed

text \<open>
  C26. Asking a replica for a value gives what that server has to say about the name: the value, every part of it, when it has one for
  the caller, and otherwise an error of the kind the server reported, whether that comes from authentication, the policy, a name that is not bound, or a
  binding that never resolved.
\<close>

theorem client_sees_server:
  assumes "usable N p" "reaches S ep N" "name \<notin> {[], ''.'', ''..''}"
    "nt_Parse N (ep_baseURL ep @ ''/v1/values/'' @ path_escape name) \<noteq> None"
    "r = site_request S (edited p ''GET'' (ep_baseURL ep @ ''/v1/values/'' @ path_escape name) [] []) []"
    "decodes N (st_encb S) (wr_Body (fst (handleValue (st_server S) r name)))"
  shows "kind_result (resolveOnce N p name ep) = map_sum wire_kind id (server_answer (st_server S) r name)"
proof -
  have "client_do N p ep ''GET'' (''/v1/values/'' @ path_escape name) [] [] = Inr (wire_reply (st_encb S) (st_encv S) (fst (handleValue (st_server S) r name)))"
    using client_do_usable [OF assms(1) _ assms(2)] route_value [of p name] assms(1,3-5) by (simp add: usable_def)
  thus ?thesis using handleValue_answer [of "st_server S" r name] assms(6)
    by (auto simp: resolveOnce_def wire_reply_def wire_bytes_def decodes_def wire_error_kind split: sum.splits)
qed

subsection \<open>Asking for a batch\<close>

lemma value_entry_answer:
  assumes "authenticate s r = Inr i"
  shows "vb_Name (fst (value_entry s r i n)) = n \<and> (case server_answer s r n of
      Inr v \<Rightarrow> vb_Error (fst (value_entry s r i n)) = None \<and> body_value (fst (value_entry s r i n)) = v
    | Inl k \<Rightarrow> \<exists>m. vb_Error (fst (value_entry s r i n)) = Some \<lparr>ed_Kind = k, ed_Message = m\<rparr>)"
proof -
  obtain v f k has found where l: "lookupFresh s n = (v, f, k, has, found)" by (metis prod_cases5)
  show ?thesis using assms l
    by (auto simp: server_answer_def value_entry_def newErrorValueBody_def) (auto simp: newValueBody_def)
qed

text \<open>An entry of a name that was asked for makes the batch fail unless it says that the name is not bound.\<close>

lemma batch_entries_Inl:
  "batch_entries kb es res = Inl e \<Longrightarrow> \<exists>x\<in>set es. \<exists>d. vb_Error x = Some d \<and> ed_Kind d \<noteq> KindNotFound \<and> ErrorKind (Some e) = wire_kind (ed_Kind d)"
  by (induction es arbitrary: res) (auto simp: wire_error_kind split: option.splits if_splits)

lemma batch_entries_Inr:
  "batch_entries kb es res = Inr m \<Longrightarrow>
   m = res ++ map_of (rev (map (\<lambda>x. (the (kb (vb_Name x)), body_value x)) (filter (\<lambda>x. kb (vb_Name x) \<noteq> None \<and> vb_Error x = None) es)))"
  by (induction es arbitrary: res) (auto split: option.splits if_splits)

lemma batch_entries_soft:
  "batch_entries kb es res = Inr m \<Longrightarrow> x \<in> set es \<Longrightarrow> kb (vb_Name x) \<noteq> None \<Longrightarrow> vb_Error x = Some d \<Longrightarrow> ed_Kind d = KindNotFound"
  by (induction es arbitrary: res) (auto split: option.splits if_splits)

text \<open>The keys of the answer are the tags of the refs, looked up by their names; of two refs with one name the later counts.\<close>

definition ref_keys :: "Ref list \<Rightarrow> string \<rightharpoonup> string" where
  "ref_keys refs = map_of (rev (map (\<lambda>r. (r_Path r, String_Ref r)) refs))"

lemma ref_keys_distinct: "distinct (map r_Path refs) \<Longrightarrow> ref \<in> set refs \<Longrightarrow> ref_keys refs (r_Path ref) = Some (String_Ref ref)"
  by (auto simp: ref_keys_def map_of_eq_Some_iff rev_map distinct_map comp_def)

lemma batch_map_lookup:
  assumes "distinct (map r_Path refs)" "distinct (map String_Ref refs)" "ref \<in> set refs" "\<And>n. vb_Name (ent n) = n"
    "batch_entries (ref_keys refs) (map ent (map r_Path refs)) Map.empty = Inr m"
  shows "m (String_Ref ref) = (if vb_Error (ent (r_Path ref)) = None then Some (body_value (ent (r_Path ref))) else None)"
proof -
  let ?ok = "\<lambda>r. vb_Error (ent (r_Path r)) = None"
  have "set rs \<subseteq> set refs \<Longrightarrow> map (\<lambda>x. (the (ref_keys refs (vb_Name x)), body_value x))
      (filter (\<lambda>x. ref_keys refs (vb_Name x) \<noteq> None \<and> vb_Error x = None) (map ent (map r_Path rs)))
      = map (\<lambda>r. (String_Ref r, body_value (ent (r_Path r)))) (filter ?ok rs)" for rs
    using ref_keys_distinct [OF assms(1)] assms(4) by (induction rs) auto
  from this [OF subset_refl] batch_entries_Inr [OF assms(5)]
  have m: "m = map_of (rev (map (\<lambda>r. (String_Ref r, body_value (ent (r_Path r)))) (filter ?ok refs)))" by simp
  have d: "distinct (map fst (rev (map (\<lambda>r. (String_Ref r, body_value (ent (r_Path r)))) (filter ?ok refs))))"
    using assms(2) by (simp add: rev_map comp_def distinct_map inj_on_def)
  have inj: "\<And>r'. r' \<in> set refs \<Longrightarrow> String_Ref r' = String_Ref ref \<Longrightarrow> r' = ref"
    using assms(2,3) by (auto simp: distinct_map inj_on_def)
  show ?thesis
  proof (cases "?ok ref")
    case True
    thus ?thesis using assms(3) unfolding m by (simp add: map_of_eq_Some_iff [OF d])
  next
    case False
    hence "String_Ref ref \<notin> fst ` set (rev (map (\<lambda>r. (String_Ref r, body_value (ent (r_Path r)))) (filter ?ok refs)))"
      using inj by auto
    thus ?thesis using False unfolding m by (simp only: map_of_eq_None_iff simp_thms if_False)
  qed
qed

lemma route_batch:
  assumes "editors_ok p"
  shows "route S base (edited p ''POST'' (base @ ''/v1/values'') b [])
       = fst (handleBatch (st_decode S) (st_server S) (site_request S (edited p ''POST'' (base @ ''/v1/values'') b []) []))"
  using edited_fields [OF assms, of "[]" "''POST''" "base @ ''/v1/values''" b] by (simp add: route_def Let_def)

lemma client_do_batch:
  assumes "usable N p" "reaches S ep N" "nt_Parse N (ep_baseURL ep @ ''/v1/values'') \<noteq> None"
    "r = site_request S (edited p ''POST'' (ep_baseURL ep @ ''/v1/values'') b []) []"
  shows "client_do N p ep ''POST'' ''/v1/values'' b [] = Inr (wire_reply (st_encb S) (st_encv S) (fst (handleBatch (st_decode S) (st_server S) r)))"
    "sr_Body r = b"
  using client_do_usable [OF assms(1) _ assms(2)] route_batch edited_fields(3) assms by (simp_all add: usable_def site_request_def)

lemmas batch_reply_simps = resolveBatchOnce_def wire_reply_def wire_bytes_def decodes_def handleBatch_def no_store_def

lemma batch_unauthenticated:
  assumes "client_do N p ep ''POST'' ''/v1/values'' b [] = Inr (wire_reply (st_encb S) encv (fst (handleBatch (st_decode S) s r)))"
    "authenticate s r = Inl w" "decodes N (st_encb S) (wr_Body (fst (handleBatch (st_decode S) s r)))"
  shows "\<exists>e k. resolveBatchOnce N p b kb ep = Inl e \<and> k \<noteq> KindNotFound \<and> ErrorKind (Some e) = wire_kind k \<and> (\<forall>n. server_answer s r n = Inl k)"
proof -
  obtain w' kind st where w: "authenticate s r = Inl (w', kind, st)" using assms(2) by (cases w) auto
  have "kind \<noteq> KindNotFound" using w by (auto simp: authenticate_def Let_def split: if_splits sum.splits)
  thus ?thesis using authenticate_Inl [OF w] w assms(1,3) by (auto simp: batch_reply_simps wire_error_kind server_answer_def)
qed

text \<open>
  A batch agrees with asking for its refs one by one. When it succeeds, every ref the server has a value for is in the answer with that value, and the others are left out, for which the
  server said that the name is not bound; when it fails, it is because of a ref the server refuses for another reason, and with the kind of that refusal. So no
  refusal is ever taken for an absent value, which would put a default in the place of a secret.
\<close>

lemma client_batch_agrees:
  assumes "usable N p" "reaches S ep N" "nt_Parse N (ep_baseURL ep @ ''/v1/values'') \<noteq> None"
    "refs \<noteq> []" "distinct (map r_Path refs)" "distinct (map String_Ref refs)"
    "r = site_request S (edited p ''POST'' (ep_baseURL ep @ ''/v1/values'') (nt_names N (map r_Path refs)) []) []"
    "st_decode S (take maxBatchBodyBytes (nt_names N (map r_Path refs))) = Some (map r_Path refs)"
    "decodes N (st_encb S) (wr_Body (fst (handleBatch (st_decode S) (st_server S) r)))"
  shows "case resolveBatchOnce N p (nt_names N (map r_Path refs)) (ref_keys refs) ep of
      Inr m \<Rightarrow> (\<forall>ref\<in>set refs. case server_answer (st_server S) r (r_Path ref) of
          Inr v \<Rightarrow> m (String_Ref ref) = Some v | Inl k \<Rightarrow> k = KindNotFound \<and> m (String_Ref ref) = None)
    | Inl e \<Rightarrow> (\<exists>ref\<in>set refs. \<exists>k. server_answer (st_server S) r (r_Path ref) = Inl k \<and> k \<noteq> KindNotFound \<and> ErrorKind (Some e) = wire_kind k)"
proof (cases "authenticate (st_server S) r")
  case (Inl w)
  moreover obtain ref where "ref \<in> set refs" using assms(4) by (cases refs) auto
  ultimately show ?thesis using batch_unauthenticated [OF client_do_batch(1) [OF assms(1-3,7)] Inl assms(9), of "ref_keys refs"] by fastforce
next
  case (Inr i)
  let ?s = "st_server S" and ?kb = "ref_keys refs" and ?ent = "\<lambda>n. fst (value_entry (st_server S) r i n)"
  have res: "resolveBatchOnce N p (nt_names N (map r_Path refs)) ?kb ep = batch_entries ?kb (map ?ent (map r_Path refs)) Map.empty"
    using client_do_batch [OF assms(1-3,7)] Inr assms(8,9) by (simp add: batch_reply_simps server_writeJSON_def)
  note ans = value_entry_answer [OF Inr]
  show ?thesis
  proof (cases "batch_entries ?kb (map ?ent (map r_Path refs)) Map.empty")
    case (Inl e)
    from batch_entries_Inl [OF this] obtain ref d where
      d: "ref \<in> set refs" "vb_Error (?ent (r_Path ref)) = Some d" "ed_Kind d \<noteq> KindNotFound" "ErrorKind (Some e) = wire_kind (ed_Kind d)" by auto
    have "server_answer ?s r (r_Path ref) = Inl (ed_Kind d)" using ans [of "r_Path ref"] d(2) by (auto split: sum.splits)
    thus ?thesis unfolding res Inl using d by auto
  next
    case (Inr m)
    have "case server_answer ?s r (r_Path ref) of Inr v \<Rightarrow> m (String_Ref ref) = Some v | Inl k \<Rightarrow> k = KindNotFound \<and> m (String_Ref ref) = None"
      if ref: "ref \<in> set refs" for ref
    proof -
      have soft: "vb_Error (?ent (r_Path ref)) = Some d \<Longrightarrow> ed_Kind d = KindNotFound" for d
        using batch_entries_soft [OF Inr, of "?ent (r_Path ref)" d] ref ans ref_keys_distinct [OF assms(5) ref] by auto
      have names: "vb_Name (?ent n) = n" for n using ans by blast
      show ?thesis using batch_map_lookup [OF assms(5,6) ref names Inr] ans [of "r_Path ref"] soft by (auto split: sum.splits)
    qed
    thus ?thesis unfolding res Inr by simp
  qed
qed

lemma endpoint_walk_Inr: "endpoint_walk gone attempt i eps e = Inr x \<Longrightarrow> \<exists>ep\<in>set eps. attempt ep = Inr x"
  by (induction eps arbitrary: i e) (auto split: sum.splits if_splits)

lemma tryEndpoints_Inr: "tryEndpoints gone p attempt = Inr x \<Longrightarrow> \<exists>ep\<in>set (mp_endpoints p). attempt ep = Inr x"
  by (auto simp: tryEndpoints_def split: option.splits if_splits dest: endpoint_walk_Inr)

lemma batch_entries_keys: "batch_entries kb es res = Inr m \<Longrightarrow> dom m \<subseteq> dom res \<union> ran kb"
proof (induction es arbitrary: res)
  case (Cons x es)
  show ?case
  proof (cases "kb (vb_Name x)")
    case (Some key)
    hence "key \<in> ran kb" by (rule ranI)
    thus ?thesis using Cons Some by (fastforce split: option.splits if_splits)
  qed (use Cons in simp)
qed auto

lemma resolveBatchOnce_keys: "resolveBatchOnce N p b kb ep = Inr m \<Longrightarrow> dom m \<subseteq> ran kb"
  by (fastforce simp: resolveBatchOnce_def Let_def split: sum.splits if_splits option.splits dest!: batch_entries_keys)

text \<open>
  A batch answers a binding once. The keys are looked up by the name of the binding, so of two refs to one binding that are written differently, by an option or a key, only the later is
  in the answer: the field of the other is given its default, or fails as not found, though the server has the value and asking for that ref alone returns it.
\<close>

lemma shared_binding_lost:
  assumes "ResolveBatch_mamori N gone p [ref, ref'] = Inr m" "r_Path ref = r_Path ref'" "String_Ref ref \<noteq> String_Ref ref'"
  shows "m (String_Ref ref) = None"
proof -
  have kb: "ran (ref_keys [ref, ref']) = {String_Ref ref'}" using assms(2) by (auto simp: ref_keys_def ran_def)
  obtain ep where "resolveBatchOnce N p (nt_names N (map r_Path [ref, ref'])) (ref_keys [ref, ref']) ep = Inr m"
    using assms(1) unfolding ResolveBatch_mamori_def ref_keys_def by (auto split: if_splits dest!: tryEndpoints_Inr)
  from resolveBatchOnce_keys [OF this] show ?thesis using kb assms(3) by auto
qed

subsection \<open>Replicas\<close>

text \<open>An answer that ends the walk: a value, or an error every replica would give.\<close>

definition decisive :: "err + 'a \<Rightarrow> bool" where
  "decisive r = (case r of Inr _ \<Rightarrow> True | Inl e \<Rightarrow> \<not> shouldFailover (Some e))"

lemma endpoint_walk_find:
  "endpoint_walk (\<lambda>_. False) attempt i eps e =
     (case find (\<lambda>ep. decisive (attempt ep)) eps of Some ep \<Rightarrow> attempt ep | None \<Rightarrow> if eps = [] then Inl e else attempt (last eps))"
  by (induction eps arbitrary: i e) (auto simp: decisive_def split: sum.splits option.splits)

text \<open>
  Failover gives the answer of one replica as that replica gave it: of the first whose answer is decisive, a value or an error every replica would give, so
  that a refusal is never retried elsewhere; and when there is none, of the last. With a single endpoint that is its own answer.
\<close>

lemma failover_first_decisive:
  assumes "mp_endpointErr p = None" "mp_endpoints p \<noteq> []"
  shows "tryEndpoints (\<lambda>_. False) p attempt =
     attempt (case find (\<lambda>ep. decisive (attempt ep)) (mp_endpoints p) of Some ep \<Rightarrow> ep | None \<Rightarrow> last (mp_endpoints p))"
  using assms by (auto simp: tryEndpoints_def endpoint_walk_find split: option.split)

subsection \<open>A watch never goes back\<close>

text \<open>Of two dated updates of one binding the later is dated at most the tolerance before the earlier.\<close>

definition not_back :: "Update \<times> (string \<times> instant option) \<Rightarrow> Update \<times> (string \<times> instant option) \<Rightarrow> bool" where
  "not_back a b = (case (snd a, snd b) of
     ((n, Some t), (n', Some t')) \<Rightarrow> n = n' \<longrightarrow> t - resolvedAtSkewTolerance \<le> t' | _ \<Rightarrow> True)"

lemma not_back_undated [simp]: "not_back a (u, (n, None))"
  by (auto simp: not_back_def split: prod.splits option.splits)

definition watermarked :: "watch_state \<Rightarrow> bool" where
  "watermarked st \<longleftrightarrow> sorted_wrt not_back (ws_out st) \<and>
     (\<forall>n t. (n, Some t) \<in> snd ` set (ws_out st) \<longrightarrow> (\<exists>w. ws_guard st n = Some w \<and> t \<le> w)) \<and>
     (\<forall>n w. ws_guard st n = Some w \<longrightarrow> (n, Some w) \<in> snd ` set (ws_out st))"

lemma sendUpdate_undated: "watermarked st \<Longrightarrow> watermarked (snd (sendUpdate u (n, None) st))"
  by (auto simp: watermarked_def sendUpdate_def sorted_wrt_append)

lemma guard_record_lookup:
  "guard_record n (Some t) g m = (if m = n then (case g n of Some w \<Rightarrow> Some (max t w) | None \<Rightarrow> Some t) else g m)"
  by (auto simp: guard_record_def max_def split: option.split)

lemma watermarked_deliver:
  assumes "watermarked st" "\<And>x. x \<in> set (ws_out st) \<Longrightarrow> not_back x (u, (n, Some t))"
  shows "watermarked (st\<lparr>ws_out := ws_out st @ [(u, (n, Some t))], ws_left := l, ws_guard := guard_record n (Some t) (ws_guard st)\<rparr>)"
proof -
  have upper: "\<exists>w. ws_guard st m = Some w \<and> t' \<le> w" if "(m, Some t') \<in> snd ` set (ws_out st)" for m t'
    using assms(1) that unfolding watermarked_def by blast
  have held: "(m, Some w) \<in> snd ` set (ws_out st)" if "ws_guard st m = Some w" for m w
    using assms(1) that unfolding watermarked_def by blast
  have "\<exists>w. guard_record n (Some t) (ws_guard st) m = Some w \<and> t' \<le> w" if "(m, Some t') \<in> insert (n, Some t) (snd ` set (ws_out st))" for m t'
  proof (cases "(m, Some t') \<in> snd ` set (ws_out st)")
    case True thus ?thesis using upper [OF True] by (auto simp: guard_record_lookup max_def)
  next
    case False thus ?thesis using that by (auto simp: guard_record_lookup split: option.split)
  qed
  moreover have "(m, Some w) \<in> insert (n, Some t) (snd ` set (ws_out st))" if "guard_record n (Some t) (ws_guard st) m = Some w" for m w
    using that held [of m] by (fastforce simp: guard_record_lookup max_def split: if_splits option.splits)
  ultimately show ?thesis using assms unfolding watermarked_def by (simp add: sorted_wrt_append)
qed

lemma dispatch_update_watermarked:
  assumes "watermarked st"
  shows "watermarked (snd (dispatch_update name vb st))"
proof (cases "guard_allows (ws_guard st) (frame_name name vb) (vb_ResolvedAt vb) \<and> ws_left st \<noteq> 0")
  case True
  let ?n = "frame_name name vb"
  show ?thesis
  proof (cases "vb_ResolvedAt vb")
    case None
    thus ?thesis using True assms
      by (auto simp: dispatch_update_def sendUpdate_def guard_record_def watermarked_def sorted_wrt_append)
  next
    case (Some t)
    have "not_back x (u, (?n, Some t))" if "x \<in> set (ws_out st)" for x u
    proof (cases "snd x")
      case (Pair n d)
      show ?thesis
      proof (cases d)
        case (Some t')
        hence "(n, Some t') \<in> snd ` set (ws_out st)" using that Pair by force
        then obtain w where "ws_guard st n = Some w" "t' \<le> w" using assms unfolding watermarked_def by blast
        thus ?thesis using True Pair Some \<open>vb_ResolvedAt vb = Some t\<close> by (auto simp: not_back_def guard_allows_def)
      qed (simp add: not_back_def Pair)
    qed
    from watermarked_deliver [OF assms this] True Some show ?thesis by (simp add: dispatch_update_def sendUpdate_def Let_def)
  qed
next
  case False
  thus ?thesis using assms by (auto simp: dispatch_update_def sendUpdate_def Let_def)
qed

lemma dispatchSSEFrame_watermarked: "watermarked st \<Longrightarrow> watermarked (snd (dispatchSSEFrame N name ev st))"
  by (auto simp: dispatchSSEFrame_def dispatch_update_watermarked sendUpdate_undated split: option.split)

lemma readSSE_watermarked: "watermarked st \<Longrightarrow> watermarked (readSSE N name s st)"
proof (induction N name s st rule: readSSE.induct)
  case (1 N name s st)
  obtain x s' where n: "Stream_Next s = (x, s')" by fastforce
  show ?case
  proof (cases x)
    case (Inl e) thus ?thesis using 1(2) n by (subst readSSE.simps) simp
  next
    case (Inr ev)
    obtain b st' where d: "dispatchSSEFrame N name ev st = (b, st')" by fastforce
    hence "watermarked st'" using dispatchSSEFrame_watermarked [OF 1(2), of N name ev] by simp
    thus ?thesis using 1(1) [OF n [symmetric] Inr d [symmetric]] n d Inr by (subst readSSE.simps) (cases b; simp)
  qed
qed

lemma watchLoop_watermarked: "watermarked (wp_state w) \<Longrightarrow> watermarked (wp_state (snd (watchLoop p name Ns w)))"
proof (induction Ns arbitrary: w)
  case (Cons N Ns)
  have "watermarked (snd (watchOnce N p name ep (wp_state w)))" for ep
    using Cons.prems by (auto simp: watchOnce_def sendUpdate_undated readSSE_watermarked split: sum.split)
  hence "watermarked (wp_state (snd (watch_iteration N p name w)))"
    by (auto simp: watch_iteration_def Let_def split: prod.split) (metis snd_conv)+
  thus ?case using Cons by (auto split: prod.splits) (metis snd_conv)+
qed simp

lemma watch_start_watermarked: "watermarked (wp_state (watch_start n))"
  by (simp add: watch_start_def watermarked_def newFreshnessGuard_def)

text \<open>
  C27. A watch does not travel back in time. However often it reconnects, to whichever replicas, and whatever they send, of two updates of one binding that
  reach the channel the later one is never dated more than the tolerance before the earlier one.
\<close>

theorem watch_never_goes_back:
  "sorted_wrt not_back (ws_out (wp_state (snd (watchLoop p name Ns (watch_start n)))))"
  using watchLoop_watermarked [OF watch_start_watermarked] by (simp add: watermarked_def)

text \<open>
  And it is not held back without cause: while the channel takes updates, an update is withheld only when it is dated more than the tolerance before one that was delivered
  for the same binding; an update without a date never is.
\<close>

lemma guard_drops_only_older:
  assumes "st = wp_state (snd (watchLoop p name Ns (watch_start n)))" "ws_left st \<noteq> 0" "ws_out (snd (dispatch_update name vb st)) = ws_out st"
  shows "\<exists>t w. vb_ResolvedAt vb = Some t \<and> (frame_name name vb, Some w) \<in> snd ` set (ws_out st) \<and> t < w - resolvedAtSkewTolerance"
proof -
  have "\<not> guard_allows (ws_guard st) (frame_name name vb) (vb_ResolvedAt vb)"
    using assms(2,3) by (auto simp: dispatch_update_def sendUpdate_def Let_def split: if_splits)
  then obtain t w where tw: "vb_ResolvedAt vb = Some t" "ws_guard st (frame_name name vb) = Some w" "t < w - resolvedAtSkewTolerance"
    by (auto simp: guard_allows_def split: option.splits)
  moreover have "watermarked st" unfolding assms(1) by (rule watchLoop_watermarked [OF watch_start_watermarked])
  ultimately show ?thesis unfolding watermarked_def by blast
qed

subsection \<open>What a watch delivers\<close>

text \<open>The events of a stream, one after the other, until the context is over.\<close>

fun dispatch_all :: "net \<Rightarrow> string \<Rightarrow> SSEEvent list \<Rightarrow> watch_state \<Rightarrow> watch_state" where
  "dispatch_all N name [] st = st"
| "dispatch_all N name (ev # evs) st = (case dispatchSSEFrame N name ev st of
     (False, st') \<Rightarrow> st' | (True, st') \<Rightarrow> dispatch_all N name evs st')"

lemma readSSE_dispatch_all: "readSSE N name s st = dispatch_all N name (fst (read_events (ss_dec s))) st"
proof (induction N name s st rule: readSSE.induct)
  case (1 N name s st)
  obtain x d where n: "SSE_Next (ss_dec s) = (x, d)" by fastforce
  show ?case
  proof (cases x)
    case (Inl e)
    hence "isl (fst (Stream_Next s))" using n by (auto simp: Stream_Next_def split: option.split)
    thus ?thesis using n Inl read_events_Inl [of "ss_dec s" e d]
      by (subst readSSE.simps) (auto split: prod.split sum.split simp: isl_def)
  next
    case (Inr ev)
    hence sn: "Stream_Next s = (Inr ev, s\<lparr>ss_dec := d\<rparr>)" using n by (simp add: Stream_Next_def)
    obtain b st' where disp: "dispatchSSEFrame N name ev st = (b, st')" by fastforce
    show ?thesis using 1 [OF sn [symmetric] refl disp [symmetric]] sn disp read_events_Inr [of "ss_dec s" ev d] n Inr
      by (subst readSSE.simps) (cases b; simp)
  qed
qed

lemma parse_query_name: "parse_query (values_encode [(''name'', [n])]) = Some [(''name'', [n])]"
proof -
  let ?p = "query_escape ''name'' @ ''='' @ query_escape n"
  have no: "CHR ''&'' \<notin> set (query_escape x)" "CHR '';'' \<notin> set (query_escape x)" for x
    by (rule query_escape_no_delims, simp)+
  hence "split_on (CHR ''&'') ?p = [?p]" "CHR '';'' \<notin> set ?p" by (auto intro: split_on_notin)
  thus ?thesis using parse_pair_encoded [of "''name''" n]
    by (simp add: parse_query_def values_encode_def encode_pairs_def)
qed

lemma route_watch:
  assumes "editors_ok p" "q = edited p ''GET'' (base @ ''/v1/watch?'' @ values_encode [(''name'', [n])]) [] [set_header ''Accept'' ''text/event-stream'']"
  shows "route S base q = fst (handleWatch (st_server S) (site_request S q [(''name'', [n])]) (st_room S) (st_events S))"
proof -
  let ?url = "base @ ''/v1/watch?'' @ values_encode [(''name'', [n])]"
  have f: "cq_Method q = ''GET''" "cq_URL q = ?url"
    using edited_fields [OF assms(1), of "[set_header ''Accept'' ''text/event-stream'']" "''GET''" ?url "[]"] assms(2) by (simp_all add: set_header_only)
  have pre: "has_prefix (base @ ''/v1/watch?'') ?url" using has_prefix_append [of "base @ ''/v1/watch?''"] by simp
  have np: "\<not> has_prefix (base @ ''/v1/values/'') ?url" by (auto simp: has_prefix_iff)
  show ?thesis using f pre np by (simp add: route_def Let_def parse_query_name)
qed

lemma default_decoder: "NewSSEDecoder r \<lparr>sc_MaxLine = 0, sc_MaxFrame = 0\<rparr> = \<lparr>sd_reader = r, sd_scanMax = 1048577, sd_maxLine = 1048576, sd_maxFrame = 1048576\<rparr>"
  by (simp add: NewSSEDecoder_def Let_def DefaultSSEMaxLine_def DefaultSSEMaxFrame_def MaxInt_def)

text \<open>
  A watch delivers what the server streams: of a subscription the server accepts, every frame it writes is dispatched in its order, each once, and heartbeats change
  nothing.
\<close>

lemma client_watch_stream:
  assumes "usable N p" "reaches S ep N" "url = ep_baseURL ep @ ''/v1/watch?'' @ values_encode [(''name'', [n])]" "nt_Parse N url \<noteq> None"
    "r = site_request S (edited p ''GET'' url [] [set_header ''Accept'' ''text/event-stream'']) [(''name'', [n])]"
    "fst (handleWatch (st_server S) r (st_room S) (st_events S)) = w" "wr_Status w = 200" "wr_Body w = Stream fs"
    "\<forall>b. one_line (st_encv S b)" "list_all (frame_fits (st_encv S) (NewSSEDecoder (cs_Body (wire_reply (st_encb S) (st_encv S) w)) \<lparr>sc_MaxLine = 0, sc_MaxFrame = 0\<rparr>)) fs"
  shows "watchOnce N p n ep st = (True, dispatch_all N n (concat (map (frame_event (st_encv S)) fs)) st)"
proof -
  let ?rep = "wire_reply (st_encb S) (st_encv S) w" and ?cfg = "\<lparr>sc_MaxLine = 0, sc_MaxFrame = 0\<rparr>"
  let ?d = "NewSSEDecoder (cs_Body ?rep) ?cfg"
  have "editors_ok p" using assms(1) by (simp add: usable_def)
  from route_watch [OF this refl, of S "ep_baseURL ep" n]
  have do: "client_do N p ep ''GET'' (''/v1/watch?'' @ values_encode [(''name'', [n])]) [] [set_header ''Accept'' ''text/event-stream''] = Inr ?rep"
    using client_do_usable [OF assms(1) _ assms(2)] assms(3-6) by simp
  have "fst (read_events ?d) = concat (map (frame_event (st_encv S)) (whole_frames (st_encv S) (length (stream_bytes (st_encv S) fs)) fs))"
    by (rule read_events_stream [OF assms(9)]) (use assms(8,10) in \<open>simp_all add: default_decoder wire_reply_def wire_bytes_def\<close>)
  moreover have "whole_frames enc (length (stream_bytes enc fs)) fs = fs" for enc by (induction fs) (simp_all add: stream_bytes_def)
  ultimately have "fst (read_events ?d) = concat (map (frame_event (st_encv S)) fs)" by simp
  thus ?thesis using do assms(7)
    by (simp add: watchOnce_def readSSE_dispatch_all NewSSEStream_def) (simp add: wire_reply_def)
qed

subsection \<open>Rotation and backoff\<close>

lemma watchLoop_rotates:
  "wp_current w < length (loop_endpoints p) \<Longrightarrow> i < length (fst (watchLoop p name Ns w)) \<Longrightarrow>
   fst (fst (watchLoop p name Ns w) ! i) = (wp_current w + i) mod length (loop_endpoints p) \<and>
   (snd (fst (watchLoop p name Ns w) ! i) \<noteq> None \<longleftrightarrow> (wp_current w + i + 1) mod length (loop_endpoints p) = 0)"
proof (induction Ns arbitrary: w i)
  case (Cons N Ns)
  obtain sl w' where it: "watch_iteration N p name w = (sl, w')" by fastforce
  have w': "wp_current w' = (wp_current w + 1) mod length (loop_endpoints p)" "sl \<noteq> None \<longleftrightarrow> wp_current w' = 0"
    using it by (auto simp: watch_iteration_def Let_def split: prod.splits if_splits)
  have lt: "wp_current w' < length (loop_endpoints p)" using w'(1) mod_less_divisor [of "length (loop_endpoints p)"] Cons.prems(1) by (metis gr_implies_not0 neq0_conv)
  have nz: "ws_left (wp_state w) \<noteq> 0" using Cons.prems(2) by (auto split: if_splits)
  obtain log w'' where lg: "watchLoop p name Ns w' = (log, w'')" by fastforce
  show ?case
  proof (cases i)
    case 0 thus ?thesis using nz it lg w' Cons.prems(1) by simp
  next
    case (Suc j)
    have "Suc (j + Suc (wp_current w) mod length (loop_endpoints p)) mod length (loop_endpoints p)
        = Suc (Suc (j + wp_current w)) mod length (loop_endpoints p)" by (metis add_Suc_right mod_Suc_eq mod_add_right_eq)
    thus ?thesis using Suc Cons.IH [OF lt, of j] Cons.prems(2) nz it lg w'(1) by (simp add: mod_simps ac_simps)
  qed
qed simp

text \<open>
  A dead replica cannot keep a watch: the passes of the loop dial the endpoints in turn, so of any pass and the ones that follow it, one for each endpoint, every endpoint is dialled; and
  the loop waits exactly when it has gone through all of them.
\<close>

lemma watch_rotation:
  assumes "log = fst (watchLoop p name Ns (watch_start n))" "i < length log"
  shows "fst (log ! i) = i mod length (loop_endpoints p) \<and> (snd (log ! i) \<noteq> None \<longleftrightarrow> Suc i mod length (loop_endpoints p) = 0)"
  using watchLoop_rotates [of "watch_start n" p i name Ns] assms by (simp add: watch_start_def loop_endpoints_def)

lemma nextWatchBackoff_bounds: "watchBackoffFloor \<le> d \<Longrightarrow> d \<le> watchBackoffCap \<Longrightarrow>
   d \<le> nextWatchBackoff d \<and> nextWatchBackoff d \<le> watchBackoffCap"
  by (auto simp: nextWatchBackoff_def watchBackoffFloor_def watchBackoffCap_def wrap64_def Let_def)

subsection \<open>A client at work\<close>

definition demo_serving :: rserver where
  "demo_serving = deliveries ''db'' demo_updates demo_started"

definition demo_site :: site where
  "demo_site = \<lparr>st_decode = (\<lambda>_. Some [''db'']), st_room = 9, st_events = [],
     st_encb = (\<lambda>b. case b of ValueBody _ \<Rightarrow> ''v'' | BatchBody _ \<Rightarrow> ''b'' | _ \<Rightarrow> ''e''), st_encv = (\<lambda>_. ''{}''),
     st_rq = (\<lambda>_. demo_get ''/v1/values''), st_server = demo_serving\<rparr>"

definition demo_endpoint :: endpoint where "demo_endpoint = \<lparr>ep_baseURL = ''https://a'', ep_client = Built Tcp\<rparr>"

definition demo_body :: valueBody where
  "demo_body = newValueBody ''db'' demo_value ''unavailable'' \<lparr>fr_resolvedAt = 5, fr_stale = True\<rparr>"

definition demo_net :: net where
  "demo_net = \<lparr>nt_Parse = (\<lambda>_. Some (''https'', [])),
     nt_Send = (\<lambda>c q. Inr (wire_reply (st_encb demo_site) (st_encv demo_site) (route demo_site ''https://a'' q))),
     nt_value = (\<lambda>_. Some demo_body), nt_error = (\<lambda>_. None), nt_batch = (\<lambda>_. Some [demo_body]), nt_frame = (\<lambda>_. Some demo_body),
     nt_names = (\<lambda>_. ''n'')\<rparr>"

definition demo_provider :: Provider where
  "demo_provider = \<lparr>mp_endpoints = [demo_endpoint], mp_requestEditors = [set_header ''Authorization'' ''Bearer t''], mp_endpointErr = None, mp_closed = False\<rparr>"

definition demo_ref :: "string \<Rightarrow> Ref" where
  "demo_ref raw = \<lparr>r_Scheme = ''mamori'', r_Path = ''db'', r_Key = [], r_Opts = [], r_Raw = raw\<rparr>"

lemma demo_usable: "usable demo_net demo_provider"
  by (simp add: usable_def demo_provider_def editors_ok_def set_header_only)

lemma demo_reaches: "reaches demo_site demo_endpoint demo_net"
  by (simp add: reaches_def demo_net_def demo_endpoint_def)

lemma client_sees_server_witness: "resolveOnce demo_net demo_provider ''db'' demo_endpoint = Inr demo_value"
proof -
  let ?r = "site_request demo_site (edited demo_provider ''GET'' (ep_baseURL demo_endpoint @ ''/v1/values/'' @ path_escape ''db'') [] []) []"
  have "decodes demo_net (st_encb demo_site) (wr_Body (fst (handleValue (st_server demo_site) ?r ''db'')))" by code_simp
  moreover have "nt_Parse demo_net (ep_baseURL demo_endpoint @ ''/v1/values/'' @ path_escape ''db'') \<noteq> None" by (simp add: demo_net_def)
  ultimately have "kind_result (resolveOnce demo_net demo_provider ''db'' demo_endpoint) = map_sum wire_kind id (server_answer (st_server demo_site) ?r ''db'')"
    by (intro client_sees_server [OF demo_usable demo_reaches]) simp_all
  moreover have "server_answer (st_server demo_site) ?r ''db'' = Inr demo_value" by code_simp
  ultimately show ?thesis by (cases "resolveOnce demo_net demo_provider ''db'' demo_endpoint") simp_all
qed

lemma client_batch_agrees_witness:
  "case resolveBatchOnce demo_net demo_provider ''n'' (ref_keys [demo_ref ''mamori://db'']) demo_endpoint of
     Inr m \<Rightarrow> m ''mamori://db'' = Some demo_value | Inl _ \<Rightarrow> False"
proof -
  let ?refs = "[demo_ref ''mamori://db'']"
  let ?r = "site_request demo_site (edited demo_provider ''POST'' (ep_baseURL demo_endpoint @ ''/v1/values'') (nt_names demo_net (map r_Path ?refs)) []) []"
  have "decodes demo_net (st_encb demo_site) (wr_Body (fst (handleBatch (st_decode demo_site) (st_server demo_site) ?r)))" by code_simp
  moreover have "st_decode demo_site (take maxBatchBodyBytes (nt_names demo_net (map r_Path ?refs))) = Some (map r_Path ?refs)"
    by (simp add: demo_site_def demo_ref_def)
  moreover have "nt_Parse demo_net (ep_baseURL demo_endpoint @ ''/v1/values'') \<noteq> None" by (simp add: demo_net_def)
  moreover have "server_answer (st_server demo_site) ?r ''db'' = Inr demo_value" by code_simp
  moreover have "nt_names demo_net (map r_Path ?refs) = ''n''" "r_Path (demo_ref ''mamori://db'') = ''db''" "String_Ref (demo_ref ''mamori://db'') = ''mamori://db''"
    by (simp_all add: demo_net_def demo_ref_def String_Ref_def)
  ultimately show ?thesis using client_batch_agrees [OF demo_usable demo_reaches, of ?refs ?r] by (auto split: sum.splits)
qed

lemma shared_binding_lost_witness:
  "\<exists>m. ResolveBatch_mamori demo_net (\<lambda>_. False) demo_provider [demo_ref ''mamori://db'', demo_ref ''mamori://db?debounce=1s''] = Inr m \<and>
       m ''mamori://db'' = None \<and> m ''mamori://db?debounce=1s'' = Some demo_value \<and>
       Resolve_mamori demo_net (\<lambda>_. False) demo_provider (demo_ref ''mamori://db'') = Inr demo_value"
proof -
  let ?a = "demo_ref ''mamori://db''" and ?b = "demo_ref ''mamori://db?debounce=1s''"
  let ?res = "ResolveBatch_mamori demo_net (\<lambda>_. False) demo_provider [?a, ?b]"
  have ok: "(case ?res of Inr m \<Rightarrow> m ''mamori://db?debounce=1s'' = Some demo_value | Inl _ \<Rightarrow> False)"
    and one: "Resolve_mamori demo_net (\<lambda>_. False) demo_provider ?a = Inr demo_value"
    and str: "String_Ref ?a = ''mamori://db''" "String_Ref ?a \<noteq> String_Ref ?b" "r_Path ?a = r_Path ?b" by code_simp+
  obtain m where m: "?res = Inr m" using ok by (cases ?res) auto
  show ?thesis using shared_binding_lost [OF m str(3,2)] ok one m str(1) by simp
qed

lemma failover_first_decisive_witness:
  "let b = \<lparr>ep_baseURL = ''https://b'', ep_client = Built Tcp\<rparr>; p = demo_provider\<lparr>mp_endpoints := [b, demo_endpoint]\<rparr>
   in tryEndpoints (\<lambda>_. False) p (\<lambda>ep. if ep = b then Inl (Opaque ''refused'') else Inr demo_value) = Inr demo_value"
proof -
  let ?b = "\<lparr>ep_baseURL = ''https://b'', ep_client = Built Tcp\<rparr>"
  let ?at = "\<lambda>ep. if ep = ?b then Inl (Opaque ''refused'') else Inr demo_value"
  have "find (\<lambda>ep. decisive (?at ep)) [?b, demo_endpoint] = Some demo_endpoint" "demo_endpoint \<noteq> ?b" by code_simp+
  thus ?thesis using failover_first_decisive [of "demo_provider\<lparr>mp_endpoints := [?b, demo_endpoint]\<rparr>" ?at] by (simp add: demo_provider_def Let_def)
qed

lemma watch_rotation_witness:
  "let down = demo_net\<lparr>nt_Send := (\<lambda>_ _. Inl (Opaque ''refused''))\<rparr>; p = demo_provider\<lparr>mp_endpoints := [demo_endpoint, demo_endpoint, demo_endpoint]\<rparr>;
       log = fst (watchLoop p ''db'' [down, down, down, down] (watch_start 9))
   in length log = 4 \<and> fst (log ! 2) = 2 \<and> snd (log ! 2) \<noteq> None"
proof -
  let ?down = "demo_net\<lparr>nt_Send := (\<lambda>_ _. Inl (Opaque ''refused''))\<rparr>" and ?p = "demo_provider\<lparr>mp_endpoints := [demo_endpoint, demo_endpoint, demo_endpoint]\<rparr>"
  let ?log = "fst (watchLoop ?p ''db'' [?down, ?down, ?down, ?down] (watch_start 9))"
  have "length ?log = 4" by code_simp
  moreover have "length (loop_endpoints ?p) = 3" by (simp add: loop_endpoints_def)
  ultimately show ?thesis using watch_rotation [OF refl, of 2 ?p "''db''" "[?down, ?down, ?down, ?down]" 9] by (simp add: Let_def)
qed

end
