(* ===== verification/Commands.thy ===== *)
theory Commands
  imports Progress Runs
begin

text \<open>
  The command protocol of \<^verbatim>\<open>pin.go\<close> and \<^verbatim>\<open>refresh.go\<close>: how Pin, PinCurrent, Unpin and Refresh reach the reconciler goroutine and how their answers
  come back, with the re-entrancy mark of \<^verbatim>\<open>preapply.go\<close> and the loop of the reconciler running meanwhile.

  A caller is a call of \<^verbatim>\<open>sendPinCtx\<close>; each of its selects is a choice of steps. The reconciler goroutine is in its loop, in the handler of a command, in user code
  that is marked (a derive hook, PreApply, OnError: the mark then holds its id) or not (the validator, a provider's Resolve during a refresh, the logger, the meter), or gone: the loop has returned, or the
  goroutine died in a handler or in user code. Any goroutine may call at any time; the reconciler goroutine itself calls from user code of either kind, and is stuck there while its call waits.
\<close>

subsection \<open>The identity of a goroutine\<close>

text \<open>\<^verbatim>\<open>goroutineID\<close> on the text that \<^verbatim>\<open>runtime.Stack\<close> prints, of which forty bytes are read.\<close>

definition goroutineIDPrefix :: string where "goroutineIDPrefix = ''goroutine ''"

fun goid_digits :: "string \<Rightarrow> 64 word \<Rightarrow> nat \<Rightarrow> 64 word" where
  "goid_digits [] gid digits = (if digits = 0 then 0 else gid)"
| "goid_digits (c # cs) gid digits =
     (if \<not> is_digit c then (if digits = 0 then 0 else gid)
      else if digits = 19 then 0
      else goid_digits cs (gid * 10 + of_nat (digit_val c)) (digits + 1))"

definition goroutineID :: "string \<Rightarrow> 64 word" where
  "goroutineID stack =
     (let line = take 40 stack
      in if length line \<le> length goroutineIDPrefix \<or> take (length goroutineIDPrefix) line \<noteq> goroutineIDPrefix then 0
         else goid_digits (drop (length goroutineIDPrefix) line) 0 0)"

lemma goid_digits_run:
  assumes "list_all is_digit ds" "digits \<le> 19" "rest = [] \<or> \<not> is_digit (hd rest)"
  shows "goid_digits (ds @ rest) (of_nat a) digits =
    (if digits + length ds = 0 \<or> digits + length ds > 19 then 0 else of_nat (foldl (\<lambda>a c. 10 * a + digit_val c) a ds))"
  using assms(1,2)
proof (induction ds arbitrary: a digits)
  case Nil
  thus ?case using assms(3) by (cases rest) auto
next
  case (Cons c ds)
  show ?case
  proof (cases "digits = 19")
    case False
    thus ?thesis using Cons.IH [of "digits + 1" "10 * a + digit_val c"] Cons.prems by (simp add: mult.commute)
  qed (use Cons.prems in simp)
qed

lemma dec_of_nat_length: "n < 10 ^ k \<Longrightarrow> 0 < k \<Longrightarrow> length (dec_of_nat n) \<le> k"
proof (induction k arbitrary: n)
  case (Suc k)
  show ?case
  proof (cases "n < 10")
    case False
    have "0 < k" using False Suc.prems(1) by (cases k) auto
    moreover have "n div 10 < 10 ^ k" using Suc.prems(1) by (intro less_mult_imp_div_less) simp
    ultimately show ?thesis using Suc.IH [of "n div 10"] False by (simp add: dec_of_nat.simps [of n])
  qed (simp add: dec_of_nat.simps [of n])
qed simp

text \<open>The number in the header is read back whenever it has at most nineteen digits, without wrapping; a longer run of digits gives no identity at all.\<close>

lemma goroutineID_header:
  assumes "n < 10 ^ 19"
  shows "unat (goroutineID (goroutineIDPrefix @ dec_of_nat n @ '' [running]:'' @ rest)) = n"
proof -
  have l: "length (dec_of_nat n) \<le> 19" using dec_of_nat_length [OF assms] by simp
  then obtain r where r: "take 40 (goroutineIDPrefix @ dec_of_nat n @ '' [running]:'' @ rest) = goroutineIDPrefix @ dec_of_nat n @ CHR '' '' # r"
    by (cases "30 - length (dec_of_nat n)") (auto simp: goroutineIDPrefix_def)
  have "list_all is_digit (dec_of_nat n)" using dec_of_nat_digits by (auto simp: list_all_iff)
  from goid_digits_run [OF this, of 0 "CHR '' '' # r" 0] l
  have "goid_digits (dec_of_nat n @ CHR '' '' # r) 0 0 = of_nat (nat_of_dec (dec_of_nat n))"
    by (simp add: is_digit_def code_def nat_of_dec_def)
  hence "goroutineID (goroutineIDPrefix @ dec_of_nat n @ '' [running]:'' @ rest) = of_nat n"
    unfolding goroutineID_def Let_def r by (simp add: nat_of_dec_dec_of_nat)
  moreover have "n < 2 ^ 64" using assms by simp
  ultimately show ?thesis by (simp add: unat_of_nat take_bit_eq_mod)
qed

lemma goid_digits_many:
  "list_all is_digit ds \<Longrightarrow> digits \<le> 19 \<Longrightarrow> digits + length ds > 19 \<Longrightarrow> goid_digits (ds @ rest) gid digits = 0"
  by (induction ds arbitrary: gid digits) auto

lemma goroutineID_no_wrap:
  assumes "list_all is_digit ds" "length ds = 20"
  shows "goroutineID (goroutineIDPrefix @ ds @ rest) = 0"
  using assms goid_digits_many [OF assms(1), of 0 "take 10 rest" 0] by (simp add: goroutineID_def goroutineIDPrefix_def Let_def)

subsection \<open>The protocol\<close>

datatype phase = Sending | Awaiting | Returned pinReply

record caller =
  ca_gid :: nat
  ca_cmd :: pinCmd
  ca_ctxErr :: "err option"
  ca_phase :: phase

record protocol =
  px_engine :: engine
  px_ctxDone :: bool
  px_inCallback :: nat
  px_handling :: "nat option"
  px_dead :: bool
  px_user :: bool
  px_callers :: "nat \<rightharpoonup> caller"
  px_replies :: "nat \<rightharpoonup> pinReply"

definition reply_err :: "err \<Rightarrow> pinReply" where "reply_err e = \<lparr>pr_version = 0, pr_err = Some e\<rparr>"

text \<open>The guard at the top of \<^verbatim>\<open>sendPinCtx\<close>.\<close>

definition sendPin_enter :: "nat \<Rightarrow> nat \<Rightarrow> phase" where
  "sendPin_enter inCallback gid =
     (if inCallback \<noteq> 0 \<and> inCallback = gid then Returned (reply_err (Sentinel ErrReentrantCall)) else Sending)"

text \<open>
  \<^verbatim>\<open>armReentrancy\<close> for the goroutine \<open>g\<close>: the value its undoing stores, and the mark. Arming again inside a callback and undoing that leaves the mark of \<open>g\<close>, so
  the steps below arm from zero and undo to zero.
\<close>

definition armReentrancy :: "nat \<Rightarrow> nat \<Rightarrow> nat \<times> nat" where
  "armReentrancy g mark = (mark, g)"

definition set_phase :: "nat \<Rightarrow> phase \<Rightarrow> protocol \<Rightarrow> protocol" where
  "set_phase i ph s = (case px_callers s i of None \<Rightarrow> s | Some c \<Rightarrow> s\<lparr>px_callers := (px_callers s)(i \<mapsto> c\<lparr>ca_phase := ph\<rparr>)\<rparr>)"

definition in_phase :: "protocol \<Rightarrow> nat \<Rightarrow> phase \<Rightarrow> bool" where
  "in_phase s i ph = (case px_callers s i of None \<Rightarrow> False | Some c \<Rightarrow> ca_phase c = ph)"

definition caller_ctx :: "protocol \<Rightarrow> nat \<Rightarrow> err option" where
  "caller_ctx s i = (case px_callers s i of None \<Rightarrow> None | Some c \<Rightarrow> ca_ctxErr c)"

text \<open>The reconciler goroutine is between two rounds of its select.\<close>

definition in_loop :: "protocol \<Rightarrow> bool" where
  "in_loop s \<longleftrightarrow> \<not> px_dead s \<and> \<not> e_done (px_engine s) \<and> px_handling s = None \<and> px_inCallback s = 0 \<and> \<not> px_user s"

text \<open>A command called on the goroutine \<open>g\<close> is waiting.\<close>

definition wedged :: "nat \<Rightarrow> protocol \<Rightarrow> bool" where
  "wedged g s \<longleftrightarrow> (\<exists>i c. px_callers s i = Some c \<and> ca_gid c = g \<and> (ca_phase c = Sending \<or> ca_phase c = Awaiting))"

text \<open>The second select of \<^verbatim>\<open>sendPinCtx\<close> when the watcher's context is over: a reply that is there is taken.\<close>

definition drain :: "pinReply option \<Rightarrow> pinReply" where
  "drain reply = (case reply of Some r \<Rightarrow> r | None \<Rightarrow> reply_err (Sentinel errWatcherClosed))"

inductive protocol_step :: "sys \<Rightarrow> nat \<Rightarrow> protocol \<Rightarrow> protocol \<Rightarrow> bool" for S g where
  call: "px_callers s i = None \<Longrightarrow> px_replies s i = None \<Longrightarrow> gid = g \<longrightarrow> (px_inCallback s = g \<or> px_user s) \<and> \<not> wedged g s \<Longrightarrow>
     protocol_step S g s (s\<lparr>px_callers := (px_callers s)(i \<mapsto> \<lparr>ca_gid = gid, ca_cmd = cmd, ca_ctxErr = None, ca_phase = sendPin_enter (px_inCallback s) gid\<rparr>)\<rparr>)"
| give_up: "px_callers s i = Some c \<Longrightarrow> protocol_step S g s (s\<lparr>px_callers := (px_callers s)(i \<mapsto> c\<lparr>ca_ctxErr := Some e\<rparr>)\<rparr>)"
| send: "in_phase s i Sending \<Longrightarrow> in_loop s \<Longrightarrow> protocol_step S g s ((set_phase i Awaiting s)\<lparr>px_handling := Some i\<rparr>)"
| send_closed: "in_phase s i Sending \<Longrightarrow> px_ctxDone s \<Longrightarrow> protocol_step S g s (set_phase i (Returned (reply_err (Sentinel errWatcherClosed))) s)"
| send_ctx: "in_phase s i Sending \<Longrightarrow> caller_ctx s i = Some e \<Longrightarrow> protocol_step S g s (set_phase i (Returned (reply_err e)) s)"
| reply: "px_handling s = Some i \<Longrightarrow> px_inCallback s = 0 \<Longrightarrow> \<not> px_user s \<Longrightarrow> \<not> px_dead s \<Longrightarrow> handlePin S en (ca_cmd (the (px_callers s i))) (px_engine s) = (e', r) \<Longrightarrow>
     protocol_step S g s (s\<lparr>px_engine := e', px_replies := (px_replies s)(i \<mapsto> r), px_handling := None\<rparr>)"
| recv: "in_phase s i Awaiting \<Longrightarrow> px_replies s i = Some r \<Longrightarrow> protocol_step S g s (set_phase i (Returned r) s)"
| wait_ctx: "in_phase s i Awaiting \<Longrightarrow> caller_ctx s i = Some e \<Longrightarrow> protocol_step S g s (set_phase i (Returned (reply_err e)) s)"
| wait_closed: "in_phase s i Awaiting \<Longrightarrow> px_ctxDone s \<Longrightarrow> protocol_step S g s (set_phase i (Returned (drain (px_replies s i))) s)"
| round: "in_loop s \<Longrightarrow> enabled en inp (px_engine s) \<Longrightarrow> (\<forall>cmd. inp \<noteq> InControl cmd) \<Longrightarrow> (inp = InCancel \<longrightarrow> px_ctxDone s) \<Longrightarrow>
     protocol_step S g s (s\<lparr>px_engine := step S en inp (px_engine s)\<rparr>)"
| user_in: "\<not> px_dead s \<Longrightarrow> \<not> e_done (px_engine s) \<Longrightarrow> px_inCallback s = 0 \<Longrightarrow> \<not> px_user s \<Longrightarrow> protocol_step S g s (s\<lparr>px_user := True\<rparr>)"
| user_out: "px_user s \<Longrightarrow> \<not> wedged g s \<Longrightarrow> protocol_step S g s (s\<lparr>px_user := False\<rparr>)"
| arm: "\<not> px_dead s \<Longrightarrow> \<not> e_done (px_engine s) \<Longrightarrow> px_inCallback s = 0 \<Longrightarrow> \<not> px_user s \<Longrightarrow> protocol_step S g s (s\<lparr>px_inCallback := snd (armReentrancy g (px_inCallback s))\<rparr>)"
| disarm: "px_inCallback s = g \<Longrightarrow> protocol_step S g s (s\<lparr>px_inCallback := 0\<rparr>)"
| die: "px_handling s = Some i \<or> px_inCallback s = g \<or> px_user s \<Longrightarrow> \<not> wedged g s \<Longrightarrow>
     protocol_step S g s (s\<lparr>px_dead := True, px_inCallback := 0, px_user := False\<rparr>)"
| cancel: "protocol_step S g s (s\<lparr>px_ctxDone := True\<rparr>)"

inductive_cases protocol_stepE: "protocol_step S g s s'"

definition protocol_start :: "engine \<Rightarrow> protocol" where
  "protocol_start e = \<lparr>px_engine = e, px_ctxDone = False, px_inCallback = 0, px_handling = None, px_dead = False, px_user = False,
     px_callers = Map.empty, px_replies = Map.empty\<rparr>"

text \<open>The four methods, as what they take from the reply.\<close>

definition Pin_result :: "pinReply \<Rightarrow> err option" where "Pin_result r = pr_err r"
definition PinCurrent_result :: "pinReply \<Rightarrow> nat" where "PinCurrent_result r = pr_version r"
definition Refresh_result :: "pinReply \<Rightarrow> err option" where "Refresh_result r = pr_err r"

subsection \<open>What holds in every state\<close>

definition px_inv :: "nat \<Rightarrow> protocol \<Rightarrow> bool" where
  "px_inv g s \<longleftrightarrow> px_inCallback s \<in> {0, g} \<and>
     (px_user s \<longrightarrow> px_inCallback s = 0) \<and>
     (\<forall>i c. px_callers s i = Some c \<and> ca_gid c = g \<longrightarrow> (\<exists>r. ca_phase c = Returned r) \<or> px_user s \<and> ca_phase c = Sending) \<and>
     (\<forall>i. px_handling s = Some i \<longrightarrow> px_callers s i \<noteq> None \<and> \<not> in_phase s i Sending) \<and>
     (\<forall>i. in_phase s i Awaiting \<longrightarrow> px_handling s = Some i \<or> px_replies s i \<noteq> None)"

lemma in_phase_set_phase: "in_phase (set_phase i ph s) j q = (if j = i then px_callers s i \<noteq> None \<and> q = ph else in_phase s j q)"
  by (auto simp: in_phase_def set_phase_def split: option.splits)

lemma set_phase_fields [simp]:
  "px_engine (set_phase i ph s) = px_engine s" "px_ctxDone (set_phase i ph s) = px_ctxDone s" "px_inCallback (set_phase i ph s) = px_inCallback s"
  "px_handling (set_phase i ph s) = px_handling s" "px_dead (set_phase i ph s) = px_dead s" "px_user (set_phase i ph s) = px_user s" "px_replies (set_phase i ph s) = px_replies s"
  by (auto simp: set_phase_def split: option.splits)

lemma in_phase_callers: "in_phase s i ph \<longleftrightarrow> (\<exists>c. px_callers s i = Some c \<and> ca_phase c = ph)"
  by (auto simp: in_phase_def split: option.splits)

lemma px_inv_set_phase:
  assumes "px_inv g s" "px_handling s \<noteq> Some i \<or> ph \<noteq> Sending" "ph \<noteq> Awaiting" "ph \<noteq> Sending"
  shows "px_inv g (set_phase i ph s)"
proof -
  have "\<exists>r. ph = Returned r" using assms(3,4) by (cases ph) auto
  thus ?thesis using assms unfolding px_inv_def in_phase_set_phase
    by (auto simp: set_phase_def in_phase_callers split: option.splits)
qed

lemma px_inv_start: "px_inv g (protocol_start e)"
  by (simp add: px_inv_def protocol_start_def in_phase_def)

lemma pending_elsewhere:
  assumes "px_inv g s" "px_callers s i = Some c" "ca_phase c = Sending \<or> ca_phase c = Awaiting" "ca_gid c = g"
  shows "px_user s" "ca_phase c = Sending"
proof -
  have "(\<exists>r. ca_phase c = Returned r) \<or> px_user s \<and> ca_phase c = Sending" using assms(1,2,4) unfolding px_inv_def by blast
  thus "px_user s" "ca_phase c = Sending" using assms(3) by auto
qed

lemma unwedged_returned:
  assumes "px_inv g s" "\<not> wedged g s" "px_callers s i = Some c" "ca_gid c = g"
  shows "\<exists>r. ca_phase c = Returned r"
proof -
  have "ca_phase c \<noteq> Sending" "ca_phase c \<noteq> Awaiting" using assms(2-4) by (auto simp: wedged_def)
  thus ?thesis by (cases "ca_phase c") auto
qed

lemma px_inv_step:
  assumes "protocol_step S g s s'" "px_inv g s" "g \<noteq> 0"
  shows "px_inv g s'"
  using assms
proof (induction rule: protocol_step.induct)
  case (call s i gid cmd)
  have "(\<exists>r. sendPin_enter (px_inCallback s) g = Returned r) \<or> px_user s \<and> sendPin_enter (px_inCallback s) g = Sending" if "gid = g"
    using call that by (auto simp: sendPin_enter_def)
  thus ?case using call by (auto simp: px_inv_def in_phase_callers sendPin_enter_def)
next
  case (send s i)
  have "ca_gid c \<noteq> g" if "px_callers s i = Some c" for c using send that pending_elsewhere(1) by (auto simp: in_phase_callers in_loop_def)
  thus ?case using send by (auto simp: px_inv_def in_loop_def in_phase_callers set_phase_def split: option.splits)
next
  case (reply s i en e' r)
  thus ?case by (auto simp: px_inv_def in_phase_callers)
next
  case (user_out s)
  thus ?case using unwedged_returned [OF user_out(3,2)] unfolding px_inv_def in_phase_callers by (simp, blast)
next
  case (die s i)
  have "\<forall>i c. px_callers s i = Some c \<and> ca_gid c = g \<longrightarrow> (\<exists>r. ca_phase c = Returned r)" using unwedged_returned [OF die(3,2)] by blast
  thus ?case using die(3) unfolding px_inv_def in_phase_callers by simp
qed (auto intro: px_inv_set_phase simp: armReentrancy_def, auto simp: px_inv_def in_phase_callers)

lemma px_inv_reach: "(protocol_step S g)\<^sup>*\<^sup>* (protocol_start e) s \<Longrightarrow> g \<noteq> 0 \<Longrightarrow> px_inv g s"
  by (induction rule: rtranclp_induct) (use px_inv_start px_inv_step in blast)+


subsection \<open>Commands return\<close>

lemma handlePin_done: "handlePin S en cmd e = (e', r) \<Longrightarrow> e_done e' = e_done e"
  using timer_view_handlePin [of S en cmd e] by (simp add: timer_view_def)

text \<open>The calls other than \<open>i\<close> are where they were.\<close>

definition only :: "nat \<Rightarrow> protocol \<Rightarrow> protocol \<Rightarrow> bool" where
  "only i s s' \<longleftrightarrow> (\<forall>j. j \<noteq> i \<longrightarrow> px_callers s' j = px_callers s j)"

lemma only_refl [simp]: "only i s s"
  by (simp add: only_def)

lemma only_trans: "only i s t \<Longrightarrow> only i t u \<Longrightarrow> only i s u"
  by (simp add: only_def)

lemma only_set_phase [simp]: "only i s (set_phase i ph s)"
  by (auto simp: only_def set_phase_def split: option.splits)

text \<open>A reconciler goroutine that lives gets back to its loop by itself, whatever it is doing.\<close>

lemma back_to_loop:
  assumes "px_inv g s" "\<not> px_dead s" "\<not> e_done (px_engine s)" "\<not> wedged g s"
  shows "\<exists>t. (protocol_step S g)\<^sup>*\<^sup>* s t \<and> in_loop t \<and> px_callers t = px_callers s \<and> (\<forall>j. px_replies s j \<noteq> None \<longrightarrow> px_replies t j \<noteq> None) \<and>
     (\<forall>j. px_handling s = Some j \<longrightarrow> px_replies t j \<noteq> None)"
proof -
  define t where "t = s\<lparr>px_inCallback := 0, px_user := False\<rparr>"
  have st: "(protocol_step S g)\<^sup>*\<^sup>* s t"
  proof -
    consider "px_user s" "px_inCallback s = 0" | "px_inCallback s = g" "\<not> px_user s" | "px_inCallback s = 0" "\<not> px_user s"
      using assms(1) by (auto simp: px_inv_def)
    thus ?thesis
    proof cases
      case 1
      hence "t = s\<lparr>px_user := False\<rparr>" unfolding t_def by (cases s) simp
      thus ?thesis using protocol_step.user_out [OF 1(1) assms(4), of S] by auto
    next
      case 2
      hence "t = s\<lparr>px_inCallback := 0\<rparr>" unfolding t_def by (cases s) simp
      thus ?thesis using protocol_step.disarm [OF 2(1), of S] by auto
    next
      case 3
      hence "t = s" unfolding t_def by (cases s) simp
      thus ?thesis by simp
    qed
  qed
  show ?thesis
  proof (cases "px_handling s")
    case None
    thus ?thesis using st assms by (intro exI [of _ t]) (simp add: t_def in_loop_def)
  next
    case (Some i)
    obtain e' r where h: "handlePin S undefined (ca_cmd (the (px_callers t i))) (px_engine t) = (e', r)" by fastforce
    have "protocol_step S g t (t\<lparr>px_engine := e', px_replies := (px_replies t)(i \<mapsto> r), px_handling := None\<rparr>)"
      using Some assms h by (intro protocol_step.reply) (simp_all add: t_def)
    with st show ?thesis using Some assms handlePin_done [OF h]
      by (intro exI [of _ "t\<lparr>px_engine := e', px_replies := (px_replies t)(i \<mapsto> r), px_handling := None\<rparr>"])
         (auto simp: t_def in_loop_def)
  qed
qed

lemma returns_by_step:
  assumes "(protocol_step S g)\<^sup>*\<^sup>* s t" "protocol_step S g t (set_phase i (Returned r) t)" "px_callers t = px_callers s" "px_callers s i \<noteq> None"
  shows "\<exists>t r. (protocol_step S g)\<^sup>*\<^sup>* s t \<and> in_phase t i (Returned r) \<and> only i s t"
proof (intro exI conjI)
  show "(protocol_step S g)\<^sup>*\<^sup>* s (set_phase i (Returned r) t)" using assms(1,2) by simp
  show "in_phase (set_phase i (Returned r) t) i (Returned r)" using assms(3,4) by (simp add: in_phase_set_phase)
  show "only i s (set_phase i (Returned r) t)" using assms(3) by (auto simp: only_def set_phase_def split: option.splits)
qed

lemma awaiting_returns:
  assumes "px_inv g s" "in_phase s i Awaiting" "px_ctxDone s \<or> caller_ctx s i \<noteq> None \<or> \<not> px_dead s \<and> \<not> e_done (px_engine s) \<and> \<not> wedged g s"
  shows "\<exists>t r. (protocol_step S g)\<^sup>*\<^sup>* s t \<and> in_phase t i (Returned r) \<and> only i s t"
proof -
  have call: "px_callers s i \<noteq> None" using assms(2) by (auto simp: in_phase_callers)
  consider "px_ctxDone s" | e where "caller_ctx s i = Some e" | "\<not> px_dead s" "\<not> e_done (px_engine s)" "\<not> wedged g s" using assms(3) by auto
  thus ?thesis
  proof cases
    case 1
    from returns_by_step [OF rtranclp.rtrancl_refl protocol_step.wait_closed [OF assms(2) this] refl call] show ?thesis .
  next
    case 2
    from returns_by_step [OF rtranclp.rtrancl_refl protocol_step.wait_ctx [OF assms(2) this] refl call] show ?thesis .
  next
    case 3
    obtain t where t: "(protocol_step S g)\<^sup>*\<^sup>* s t" "px_callers t = px_callers s" "\<forall>j. px_replies s j \<noteq> None \<longrightarrow> px_replies t j \<noteq> None"
      "\<forall>j. px_handling s = Some j \<longrightarrow> px_replies t j \<noteq> None" using back_to_loop [OF assms(1) 3, of S] by blast
    have "px_replies t i \<noteq> None" using t(3,4) assms(1,2) unfolding px_inv_def by blast
    then obtain r where r: "px_replies t i = Some r" by blast
    have "in_phase t i Awaiting" using assms(2) t(2) by (simp add: in_phase_def)
    from returns_by_step [OF t(1) protocol_step.recv [OF this r] t(2) call] show ?thesis .
  qed
qed


subsection \<open>A reconciler whose sources have all ended\<close>

definition stays_sending :: "nat \<Rightarrow> protocol \<Rightarrow> bool" where
  "stays_sending i s \<longleftrightarrow> e_done (px_engine s) \<and> in_phase s i Sending \<and> px_handling s \<noteq> Some i"

lemma stays_sending_step:
  assumes "protocol_step S g s s'" "stays_sending i s" "\<not> px_ctxDone s" "caller_ctx s i = None"
  shows "stays_sending i s'"
  using assms
proof (induction rule: protocol_step.induct)
  case (reply s j en e' r)
  thus ?case using handlePin_done [OF reply(5)] by (simp add: stays_sending_def in_phase_def)
next
  case (call s j gid cmd)
  thus ?case by (auto simp: stays_sending_def in_phase_callers)
qed (auto simp: stays_sending_def in_loop_def in_phase_callers in_phase_set_phase set_phase_def split: option.splits)

text \<open>A step that neither closes the watcher nor ends the context of the caller \<open>i\<close>.\<close>

definition undisturbed :: "sys \<Rightarrow> nat \<Rightarrow> nat \<Rightarrow> protocol \<Rightarrow> protocol \<Rightarrow> bool" where
  "undisturbed S g i s s' \<longleftrightarrow> protocol_step S g s s' \<and> \<not> px_ctxDone s' \<and> caller_ctx s' i = None"

text \<open>
  The comment of sendPin says that it never blocks forever, even when the reconciler goroutine has already exited. The goroutine also exits when every watch source has ended and nothing is pending, and
  that does not end the watcher's context: a command that is then sent is never taken nor refused, by no sequence of steps of the program, until someone closes the watcher or gives up. The
  sending side of Pin, PinCurrent and Unpin has no context of its own to give up with.
\<close>

lemma command_blocks_after_sources_end:
  assumes "(protocol_step S g)\<^sup>*\<^sup>* (protocol_start e) s" "g \<noteq> 0" "e_done (px_engine s)" "in_phase s i Sending" "\<not> px_ctxDone s" "caller_ctx s i = None"
    "(undisturbed S g i)\<^sup>*\<^sup>* s s'"
  shows "in_phase s' i Sending"
proof -
  have "px_handling s \<noteq> Some i" using px_inv_reach [OF assms(1,2)] assms(4) by (auto simp: px_inv_def)
  hence "stays_sending i s" using assms(3,4) by (simp add: stays_sending_def)
  from assms(7) this assms(5,6) have "stays_sending i s' \<and> \<not> px_ctxDone s' \<and> caller_ctx s' i = None"
  proof (induction rule: rtranclp_induct)
    case (step t u)
    thus ?case using stays_sending_step [of S g t u i] by (auto simp: undisturbed_def)
  qed simp
  thus ?thesis by (simp add: stays_sending_def)
qed

subsection \<open>A command from user code that is not marked\<close>

definition hung :: "nat \<Rightarrow> engine \<Rightarrow> nat \<Rightarrow> protocol \<Rightarrow> bool" where
  "hung g e i s \<longleftrightarrow> px_user s \<and> px_engine s = e \<and> (\<exists>c. px_callers s i = Some c \<and> ca_gid c = g \<and> ca_phase c = Sending)"

lemma hung_wedged: "hung g e i s \<Longrightarrow> wedged g s"
  by (auto simp: hung_def wedged_def)

lemma hung_step:
  assumes "protocol_step S g s s'" "hung g e i s" "\<not> px_ctxDone s" "caller_ctx s i = None"
  shows "hung g e i s'"
proof -
  note w = hung_wedged [OF assms(2)]
  from assms w show ?thesis
  proof (induction rule: protocol_step.induct)
    case (call s j gid cmd)
    thus ?case by (auto simp: hung_def)
  qed (auto simp: hung_def in_loop_def in_phase_callers set_phase_def caller_ctx_def split: option.splits)
qed

text \<open>
  C1. The validator, a provider that a refresh asks, the logger and the meter run on the reconciler goroutine without the mark. A Pin, PinCurrent, Unpin or Refresh called there is not refused and never
  returns: until the watcher is closed or the caller's context ends, whatever else happens, the call waits, and the reconciler goroutine neither applies nor answers anything any more.
\<close>

theorem unmarked_call_hangs:
  assumes "(protocol_step S g)\<^sup>*\<^sup>* (protocol_start e) s" "g \<noteq> 0" "px_callers s i = Some c" "ca_gid c = g" "ca_phase c = Sending \<or> ca_phase c = Awaiting"
    "\<not> px_ctxDone s" "ca_ctxErr c = None" "(undisturbed S g i)\<^sup>*\<^sup>* s s'"
  shows "in_phase s' i Sending \<and> px_engine s' = px_engine s"
proof -
  note p = pending_elsewhere [OF px_inv_reach [OF assms(1,2)] assms(3,5,4)]
  have "hung g (px_engine s) i s" using p assms(3,4) by (simp add: hung_def)
  moreover have "caller_ctx s i = None" using assms(3,7) by (simp add: caller_ctx_def)
  ultimately have "hung g (px_engine s) i s' \<and> \<not> px_ctxDone s' \<and> caller_ctx s' i = None" using assms(6)
  proof (induction rule: rtranclp_induct [OF assms(8)])
    case (2 t u)
    thus ?case using hung_step [of S g t u] by (auto simp: undisturbed_def)
  qed simp
  thus ?thesis by (auto simp: hung_def in_phase_callers)
qed

definition demo_cmd :: pinCmd where "demo_cmd = \<lparr>pc_kind = pinCurrent, pc_version = 0\<rparr>"

definition demo_call :: "engine \<Rightarrow> protocol" where
  "demo_call e = (protocol_start e)\<lparr>px_callers := [0 \<mapsto> \<lparr>ca_gid = 2, ca_cmd = demo_cmd, ca_ctxErr = None, ca_phase = Sending\<rparr>]\<rparr>"

lemma demo_call_step: "(protocol_step S 1)\<^sup>*\<^sup>* (protocol_start e) (demo_call e)"
proof -
  have "protocol_step S 1 (protocol_start e) ((protocol_start e)\<lparr>px_callers := (px_callers (protocol_start e))(0 \<mapsto> \<lparr>ca_gid = 2, ca_cmd = demo_cmd, ca_ctxErr = None,
     ca_phase = sendPin_enter (px_inCallback (protocol_start e)) 2\<rparr>)\<rparr>)" by (rule protocol_step.call) (simp_all add: protocol_start_def)
  hence "protocol_step S 1 (protocol_start e) (demo_call e)" by (simp add: demo_call_def protocol_start_def sendPin_enter_def)
  thus ?thesis by (rule r_into_rtranclp)
qed

lemma demo_call_phase: "in_phase (demo_call e) 0 Sending" "\<not> px_ctxDone (demo_call e)" "caller_ctx (demo_call e) 0 = None" "px_engine (demo_call e) = e"
  by (simp_all add: demo_call_def protocol_start_def in_phase_def caller_ctx_def)

lemma demo_call_unwedged: "\<not> wedged 1 (demo_call e)"
  by (auto simp: wedged_def demo_call_def protocol_start_def split: if_splits)

text \<open>The validator calls the watcher.\<close>

definition demo_inside :: "engine \<Rightarrow> protocol" where
  "demo_inside e = (protocol_start e)\<lparr>px_user := True,
     px_callers := [0 \<mapsto> \<lparr>ca_gid = 1, ca_cmd = demo_cmd, ca_ctxErr = None, ca_phase = Sending\<rparr>]\<rparr>"

lemma demo_inside_step:
  assumes "\<not> e_done e"
  shows "(protocol_step S 1)\<^sup>*\<^sup>* (protocol_start e) (demo_inside e)"
proof -
  let ?u = "(protocol_start e)\<lparr>px_user := True\<rparr>"
  have 1: "protocol_step S 1 (protocol_start e) ?u" using assms by (intro protocol_step.user_in) (simp_all add: protocol_start_def)
  have "protocol_step S 1 ?u (?u\<lparr>px_callers := (px_callers ?u)(0 \<mapsto> \<lparr>ca_gid = 1, ca_cmd = demo_cmd, ca_ctxErr = None, ca_phase = sendPin_enter (px_inCallback ?u) 1\<rparr>)\<rparr>)"
    by (rule protocol_step.call) (simp_all add: protocol_start_def wedged_def)
  hence "protocol_step S 1 ?u (demo_inside e)" by (simp add: demo_inside_def protocol_start_def sendPin_enter_def)
  with 1 show ?thesis by auto
qed

text \<open>A second call comes while the first waits.\<close>

definition demo_second :: "protocol \<Rightarrow> protocol" where
  "demo_second s = s\<lparr>px_callers := (px_callers s)(1 \<mapsto> \<lparr>ca_gid = 3, ca_cmd = demo_cmd, ca_ctxErr = None, ca_phase = Sending\<rparr>)\<rparr>"

lemma demo_second_step:
  assumes "px_callers s 1 = None" "px_replies s 1 = None" "px_inCallback s = 0" "\<not> px_ctxDone s" "caller_ctx s 0 = None"
  shows "(undisturbed S 1 0)\<^sup>*\<^sup>* s (demo_second s)"
proof -
  have "protocol_step S 1 s (s\<lparr>px_callers := (px_callers s)(1 \<mapsto> \<lparr>ca_gid = 3, ca_cmd = demo_cmd, ca_ctxErr = None,
     ca_phase = sendPin_enter (px_inCallback s) 3\<rparr>)\<rparr>)" using assms by (intro protocol_step.call) simp_all
  hence "undisturbed S 1 0 s (demo_second s)"
    using assms by (simp add: undisturbed_def demo_second_def sendPin_enter_def caller_ctx_def)
  thus ?thesis by (rule r_into_rtranclp)
qed

lemma demo_seconds: "(undisturbed S 1 0)\<^sup>*\<^sup>* (demo_call e) (demo_second (demo_call e))" "(undisturbed S 1 0)\<^sup>*\<^sup>* (demo_inside e) (demo_second (demo_inside e))"
  by (rule demo_second_step; simp add: demo_call_def demo_inside_def protocol_start_def caller_ctx_def)+

lemma command_blocks_after_sources_end_witness:
  "\<not> e_done app_engine \<and> e_done (step app_sys (app_env 9) InClosed app_engine) \<and> in_phase (demo_second (demo_call (step app_sys (app_env 9) InClosed app_engine))) 0 Sending"
proof -
  let ?e = "step app_sys (app_env 9) InClosed app_engine"
  have d: "e_done ?e" by code_simp
  have "\<not> e_done app_engine" by code_simp
  thus ?thesis
    using command_blocks_after_sources_end [OF demo_call_step [of app_sys ?e], of 0] d demo_call_phase [of ?e] demo_seconds(1) [of app_sys ?e] by simp
qed


theorem unmarked_call_hangs_witness:
  "in_phase (demo_second (demo_inside app_engine)) 0 Sending \<and> px_engine (demo_second (demo_inside app_engine)) = app_engine"
proof -
  have "\<not> e_done app_engine" by code_simp
  thus ?thesis using unmarked_call_hangs [OF demo_inside_step [of app_engine app_sys] _ _ _ _ _ _ demo_seconds(2) [of app_sys app_engine]] by (simp add: demo_inside_def demo_call_def protocol_start_def)
qed

end
