(* ===== verification/Shutdown.thy ===== *)
theory Shutdown
  imports Reconciler "HOL-Library.Sublist" "HOL-Library.Multiset"
begin

text \<open>
  \<^verbatim>\<open>Close\<close> of a watcher (\<^verbatim>\<open>reconciler.go\<close>) with the goroutines it waits for: the forwarders, the dispatch goroutine and the reconciler started by \<^verbatim>\<open>engine.start\<close>, and the
  admin server of \<^verbatim>\<open>adminhttp.go\<close>. Every step of a goroutine between two points where it may block is one step here, in any interleaving.

  What a round of the loop does to the configuration is the subject of \<open>Reconciler\<close>; here a round yields at most one change, which \<^verbatim>\<open>enqueue\<close> hands to the dispatch queue, or runs a callback.
\<close>

subsection \<open>Goroutines\<close>

datatype recon = Looping | InHook | Enqueuing Change | RecDone

datatype dispatcher = Idle | Running Change | DispDone

datatype admin = NoAdmin | Serving | AdminCallback | AdminDone

text \<open>Where a call of \<^verbatim>\<open>Close\<close> runs: on a goroutine of its own, or in a callback on one of the watcher's.\<close>

datatype place = Outside | OnDispatch | OnRecon | OnAdmin

datatype close_at = CloseOnce | CloseCancel | CloseShutdown | CloseWait | CloseReturned

datatype once = OnceFree | OnceRunning nat | OnceDone

record closing =
  cs_place :: place
  cs_at :: close_at

record watcher =
  wt_cancelled :: bool
  wt_shut :: bool
  wt_fwds :: nat
  wt_updatesClosed :: bool
  wt_rec :: recon
  wt_queue :: "Change list"
  wt_queueClosed :: bool
  wt_disp :: dispatcher
  wt_waiting :: bool
  wt_admin :: admin
  wt_once :: once
  wt_closers :: "nat \<rightharpoonup> closing"
  wt_entered :: "Change list"
  wt_delivered :: "Change list"
  wt_dropped :: "Change list"

text \<open>\<open>wt_waiting\<close>: the \<^verbatim>\<open>OnChange\<close> callback waits in a command for the reconciler. The last three fields are what entered the queue, what was handed to \<^verbatim>\<open>OnChange\<close>, and what was dropped.\<close>

definition watcher_start :: "nat \<Rightarrow> bool \<Rightarrow> watcher" where
  "watcher_start fwds adm = \<lparr>wt_cancelled = False, wt_shut = False, wt_fwds = fwds, wt_updatesClosed = False, wt_rec = Looping, wt_queue = [], wt_queueClosed = False,
     wt_disp = Idle, wt_waiting = False, wt_admin = (if adm then Serving else NoAdmin), wt_once = OnceFree, wt_closers = Map.empty,
     wt_entered = [], wt_delivered = [], wt_dropped = []\<rparr>"

text \<open>A goroutine is not free to go on while a \<^verbatim>\<open>Close\<close> that its callback called has not returned.\<close>

definition occupied :: "place \<Rightarrow> watcher \<Rightarrow> bool" where
  "occupied pl s \<longleftrightarrow> (\<exists>i c. wt_closers s i = Some c \<and> cs_place c = pl \<and> cs_at c \<noteq> CloseReturned)"

definition callback_runs :: "place \<Rightarrow> watcher \<Rightarrow> bool" where
  "callback_runs pl s = (case pl of Outside \<Rightarrow> True | OnDispatch \<Rightarrow> (\<exists>ev. wt_disp s = Running ev) \<and> \<not> wt_waiting s | OnRecon \<Rightarrow> wt_rec s = InHook | OnAdmin \<Rightarrow> wt_admin s = AdminCallback)"

text \<open>
  The wait group is at zero: the forwarders, the reconciler, the dispatch goroutine and the admin server are over. The goroutine that closes the updates channel once the forwarders are gone and the goroutines that
  the providers and the poller started for their watches are not counted in it, and may outlive it.
\<close>

definition all_done :: "watcher \<Rightarrow> bool" where
  "all_done s \<longleftrightarrow> wt_fwds s = 0 \<and> wt_rec s = RecDone \<and> wt_disp s = DispDone \<and> wt_admin s \<in> {NoAdmin, AdminDone}"

definition at_close :: "nat \<Rightarrow> close_at \<Rightarrow> watcher \<Rightarrow> bool" where
  "at_close i a s = (case wt_closers s i of None \<Rightarrow> False | Some c \<Rightarrow> cs_at c = a)"

definition move_close :: "nat \<Rightarrow> close_at \<Rightarrow> watcher \<Rightarrow> watcher" where
  "move_close i a s = (case wt_closers s i of None \<Rightarrow> s | Some c \<Rightarrow> s\<lparr>wt_closers := (wt_closers s)(i \<mapsto> c\<lparr>cs_at := a\<rparr>)\<rparr>)"

text \<open>The goroutines of the watcher, for a queue of \<open>depth\<close>.\<close>

inductive worker_step :: "nat \<Rightarrow> watcher \<Rightarrow> watcher \<Rightarrow> bool" for depth where
  fwd_exit: "wt_fwds s = Suc n \<Longrightarrow> worker_step depth s (s\<lparr>wt_fwds := n\<rparr>)"
| updates_close: "wt_fwds s = 0 \<Longrightarrow> worker_step depth s (s\<lparr>wt_updatesClosed := True\<rparr>)"
| round_change: "wt_rec s = Looping \<Longrightarrow> worker_step depth s (s\<lparr>wt_rec := Enqueuing ev\<rparr>)"
| round_hook: "wt_rec s = Looping \<Longrightarrow> worker_step depth s (s\<lparr>wt_rec := InHook\<rparr>)"
| hook_return: "wt_rec s = InHook \<Longrightarrow> \<not> occupied OnRecon s \<Longrightarrow> worker_step depth s (s\<lparr>wt_rec := Looping\<rparr>)"
| loop_exit: "wt_rec s = Looping \<Longrightarrow> wt_cancelled s \<or> wt_updatesClosed s \<Longrightarrow> worker_step depth s (s\<lparr>wt_rec := RecDone, wt_queueClosed := True\<rparr>)"
| enqueue_put: "wt_rec s = Enqueuing ev \<Longrightarrow> length (wt_queue s) < depth \<Longrightarrow>
     worker_step depth s (s\<lparr>wt_rec := Looping, wt_queue := wt_queue s @ [ev], wt_entered := wt_entered s @ [ev]\<rparr>)"
| enqueue_meet: "wt_rec s = Enqueuing ev \<Longrightarrow> depth = 0 \<Longrightarrow> wt_disp s = Idle \<Longrightarrow>
     worker_step depth s (s\<lparr>wt_rec := Looping, wt_disp := Running ev, wt_entered := wt_entered s @ [ev], wt_delivered := wt_delivered s @ [ev]\<rparr>)"
| enqueue_drop: "wt_rec s = Enqueuing ev \<Longrightarrow> \<not> length (wt_queue s) < depth \<Longrightarrow> wt_queue s = old # rest \<Longrightarrow>
     worker_step depth s (s\<lparr>wt_queue := rest, wt_dropped := wt_dropped s @ [old]\<rparr>)"
| dispatch: "wt_disp s = Idle \<Longrightarrow> wt_queue s = ev # rest \<Longrightarrow>
     worker_step depth s (s\<lparr>wt_disp := Running ev, wt_queue := rest, wt_delivered := wt_delivered s @ [ev]\<rparr>)"
| callback_return: "wt_disp s = Running ev \<Longrightarrow> \<not> wt_waiting s \<Longrightarrow> \<not> occupied OnDispatch s \<Longrightarrow> worker_step depth s (s\<lparr>wt_disp := Idle\<rparr>)"
| dispatch_exit: "wt_disp s = Idle \<Longrightarrow> wt_queue s = [] \<Longrightarrow> wt_queueClosed s \<Longrightarrow> worker_step depth s (s\<lparr>wt_disp := DispDone\<rparr>)"
| command: "wt_disp s = Running ev \<Longrightarrow> \<not> wt_waiting s \<Longrightarrow> \<not> occupied OnDispatch s \<Longrightarrow> worker_step depth s (s\<lparr>wt_waiting := True\<rparr>)"
| command_answered: "wt_waiting s \<Longrightarrow> wt_rec s = Looping \<or> wt_cancelled s \<Longrightarrow> worker_step depth s (s\<lparr>wt_waiting := False\<rparr>)"
| admin_exit: "wt_admin s = Serving \<Longrightarrow> wt_shut s \<Longrightarrow> worker_step depth s (s\<lparr>wt_admin := AdminDone\<rparr>)"
| admin_error: "wt_admin s = Serving \<Longrightarrow> worker_step depth s (s\<lparr>wt_admin := AdminCallback\<rparr>)"
| admin_return: "wt_admin s = AdminCallback \<Longrightarrow> \<not> occupied OnAdmin s \<Longrightarrow> worker_step depth s (s\<lparr>wt_admin := AdminDone\<rparr>)"

text \<open>\<^verbatim>\<open>Close\<close> by its caller \<open>i\<close>: the first call runs the body of \<^verbatim>\<open>closeOnce\<close>, the others wait for it.\<close>

inductive close_step :: "nat \<Rightarrow> watcher \<Rightarrow> watcher \<Rightarrow> bool" for i where
  once_first: "at_close i CloseOnce s \<Longrightarrow> wt_once s = OnceFree \<Longrightarrow> close_step i s ((move_close i CloseCancel s)\<lparr>wt_once := OnceRunning i\<rparr>)"
| once_over: "at_close i CloseOnce s \<Longrightarrow> wt_once s = OnceDone \<Longrightarrow> close_step i s (move_close i CloseReturned s)"
| cancel: "at_close i CloseCancel s \<Longrightarrow> close_step i s ((move_close i CloseShutdown s)\<lparr>wt_cancelled := True\<rparr>)"
| shutdown: "at_close i CloseShutdown s \<Longrightarrow> close_step i s ((move_close i CloseWait s)\<lparr>wt_shut := True\<rparr>)"
| waited: "at_close i CloseWait s \<Longrightarrow> all_done s \<Longrightarrow> close_step i s ((move_close i CloseReturned s)\<lparr>wt_once := OnceDone\<rparr>)"

inductive watcher_step :: "nat \<Rightarrow> watcher \<Rightarrow> watcher \<Rightarrow> bool" for depth where
  worker: "worker_step depth s t \<Longrightarrow> watcher_step depth s t"
| closing: "close_step i s t \<Longrightarrow> watcher_step depth s t"
| call_Close: "wt_closers s i = None \<Longrightarrow> callback_runs pl s \<Longrightarrow> \<not> (pl \<noteq> Outside \<and> occupied pl s) \<Longrightarrow>
     watcher_step depth s (s\<lparr>wt_closers := (wt_closers s)(i \<mapsto> \<lparr>cs_place = pl, cs_at = CloseOnce\<rparr>)\<rparr>)"
| parent_cancel: "watcher_step depth s (s\<lparr>wt_cancelled := True\<rparr>)"

inductive_cases worker_stepE: "worker_step depth s t"
inductive_cases close_stepE: "close_step i s t"


subsection \<open>Invariants\<close>

lemma at_close_iff: "at_close i a s \<longleftrightarrow> (\<exists>c. wt_closers s i = Some c \<and> cs_at c = a)"
  by (auto simp: at_close_def split: option.splits)

lemma move_close_fields [simp]:
  "wt_cancelled (move_close i a s) = wt_cancelled s" "wt_shut (move_close i a s) = wt_shut s" "wt_fwds (move_close i a s) = wt_fwds s"
  "wt_updatesClosed (move_close i a s) = wt_updatesClosed s" "wt_rec (move_close i a s) = wt_rec s" "wt_queue (move_close i a s) = wt_queue s"
  "wt_queueClosed (move_close i a s) = wt_queueClosed s" "wt_disp (move_close i a s) = wt_disp s" "wt_waiting (move_close i a s) = wt_waiting s"
  "wt_admin (move_close i a s) = wt_admin s" "wt_once (move_close i a s) = wt_once s" "wt_entered (move_close i a s) = wt_entered s"
  "wt_delivered (move_close i a s) = wt_delivered s" "wt_dropped (move_close i a s) = wt_dropped s"
  by (auto simp: move_close_def split: option.splits)

lemma closers_move_close:
  "wt_closers (move_close i a s) j = (if j = i then map_option (\<lambda>c. c\<lparr>cs_at := a\<rparr>) (wt_closers s i) else wt_closers s j)"
  by (auto simp: move_close_def split: option.splits)

text \<open>The queue: what entered it was handed on, dropped, or is in it, in the order it entered.\<close>

definition queue_ok :: "nat \<Rightarrow> watcher \<Rightarrow> bool" where
  "queue_ok depth s \<longleftrightarrow> mset (wt_entered s) = mset (wt_delivered s) + mset (wt_dropped s) + mset (wt_queue s) \<and>
     subseq (wt_delivered s @ wt_queue s) (wt_entered s) \<and> length (wt_queue s) \<le> depth \<and>
     (wt_queueClosed s \<longleftrightarrow> wt_rec s = RecDone) \<and> (wt_disp s = DispDone \<longrightarrow> wt_queueClosed s \<and> wt_queue s = [])"

lemma queue_ok_worker:
  assumes "worker_step depth s t" "queue_ok depth s"
  shows "queue_ok depth t"
  using assms
proof (induction rule: worker_step.induct)
  case (enqueue_put s ev)
  thus ?case by (auto simp: queue_ok_def simp flip: append_assoc)
next
  case (enqueue_meet s ev)
  thus ?case by (auto simp: queue_ok_def)
next
  case (enqueue_drop s ev old rest)
  have "subseq (wt_delivered s @ rest) (wt_delivered s @ wt_queue s)" using enqueue_drop(3) by (simp add: subseq_append' list_emb_Cons)
  thus ?case using enqueue_drop unfolding queue_ok_def by (auto intro: subseq_order.trans)
qed (auto simp: queue_ok_def)

text \<open>The calls of \<^verbatim>\<open>Close\<close>: who is in the body of the once, that a returned call found everything over, and that a call from a callback still has its callback running.\<close>

definition inside :: "close_at \<Rightarrow> bool" where
  "inside a \<longleftrightarrow> a \<in> {CloseCancel, CloseShutdown, CloseWait}"

definition closer_ok :: "watcher \<Rightarrow> nat \<Rightarrow> closing \<Rightarrow> bool" where
  "closer_ok s i c \<longleftrightarrow> (inside (cs_at c) \<longleftrightarrow> wt_once s = OnceRunning i) \<and> (cs_at c = CloseReturned \<longrightarrow> wt_once s = OnceDone \<and> cs_place c = Outside) \<and>
     (cs_at c \<in> {CloseShutdown, CloseWait} \<longrightarrow> wt_cancelled s) \<and> (cs_at c = CloseWait \<longrightarrow> wt_shut s) \<and>
     (cs_at c \<noteq> CloseReturned \<longrightarrow> callback_runs (cs_place c) s)"

definition close_ok :: "watcher \<Rightarrow> bool" where
  "close_ok s \<longleftrightarrow> (\<forall>i c. wt_closers s i = Some c \<longrightarrow> closer_ok s i c) \<and> (wt_once s = OnceDone \<longrightarrow> all_done s \<and> wt_cancelled s) \<and>
     (\<forall>i. wt_once s = OnceRunning i \<longrightarrow> wt_closers s i \<noteq> None)"

definition watcher_ok :: "nat \<Rightarrow> watcher \<Rightarrow> bool" where
  "watcher_ok depth s \<longleftrightarrow> queue_ok depth s \<and> close_ok s"

lemma worker_frame:
  "worker_step depth s t \<Longrightarrow> wt_closers t = wt_closers s \<and> wt_once t = wt_once s \<and> wt_cancelled t = wt_cancelled s \<and> wt_shut t = wt_shut s"
  by (induction rule: worker_step.induct) simp_all

lemma worker_keeps_done: "worker_step depth s t \<Longrightarrow> queue_ok depth s \<Longrightarrow> all_done s \<Longrightarrow> all_done t"
  by (induction rule: worker_step.induct) (auto simp: all_done_def queue_ok_def)

lemma worker_keeps_callback:
  "worker_step depth s t \<Longrightarrow> wt_closers s i = Some c \<Longrightarrow> cs_at c \<noteq> CloseReturned \<Longrightarrow> callback_runs (cs_place c) s \<Longrightarrow> callback_runs (cs_place c) t"
  by (induction rule: worker_step.induct) (auto simp: callback_runs_def occupied_def split: place.splits)

lemma close_ok_worker:
  assumes "worker_step depth s t" "watcher_ok depth s"
  shows "close_ok t"
  using assms worker_frame [OF assms(1)] worker_keeps_done [OF assms(1)] worker_keeps_callback [OF assms(1)]
  unfolding close_ok_def closer_ok_def watcher_ok_def by simp

lemma done_no_callback: "all_done s \<Longrightarrow> callback_runs pl s \<Longrightarrow> pl = Outside"
  by (cases pl) (auto simp: all_done_def callback_runs_def)

text \<open>One call moves on; the others are not disturbed.\<close>

lemma close_ok_moved:
  assumes "close_ok s" "wt_closers s i = Some c" "wt_closers t = (wt_closers s)(i \<mapsto> c\<lparr>cs_at := a\<rparr>)"
    "\<And>pl. callback_runs pl t = callback_runs pl s" "all_done t = all_done s" "wt_cancelled s \<longrightarrow> wt_cancelled t" "wt_shut s \<longrightarrow> wt_shut t"
    "closer_ok t i (c\<lparr>cs_at := a\<rparr>)" "\<And>j. j \<noteq> i \<Longrightarrow> wt_once s = OnceRunning j \<longleftrightarrow> wt_once t = OnceRunning j"
    "wt_once s = OnceDone \<longrightarrow> wt_once t = OnceDone" "wt_once t = OnceDone \<longrightarrow> all_done s \<and> wt_cancelled s"
  shows "close_ok t"
proof -
  have "closer_ok t j d" if "j \<noteq> i" "wt_closers s j = Some d" for j d
  proof -
    have "closer_ok s j d" using assms(1) that(2) by (simp add: close_ok_def)
    thus ?thesis using assms(4,6,7,10) assms(9) [OF that(1)] unfolding closer_ok_def by simp
  qed
  moreover have "wt_closers s j \<noteq> None" if "j \<noteq> i" "wt_once t = OnceRunning j" for j
    using assms(1,9) that unfolding close_ok_def by blast
  ultimately show ?thesis using assms(3,5,6,8,11) unfolding close_ok_def by (auto split: if_splits)
qed

lemma callback_runs_cong: "wt_disp t = wt_disp s \<Longrightarrow> wt_waiting t = wt_waiting s \<Longrightarrow> wt_rec t = wt_rec s \<Longrightarrow> wt_admin t = wt_admin s \<Longrightarrow> callback_runs pl t = callback_runs pl s"
  by (simp add: callback_runs_def split: place.splits)

lemma move_close_Some: "wt_closers s i = Some c \<Longrightarrow> move_close i a s = s\<lparr>wt_closers := (wt_closers s)(i \<mapsto> c\<lparr>cs_at := a\<rparr>)\<rparr>"
  by (simp add: move_close_def)

lemma close_ok_closing:
  assumes "close_step i s t" "close_ok s"
  shows "close_ok t"
  using assms
proof (induction rule: close_step.induct)
  case (once_first s)
  then obtain c where c: "wt_closers s i = Some c" "cs_at c = CloseOnce" by (auto simp: at_close_iff)
  have ok: "closer_ok s i c" using once_first(3) c(1) by (simp add: close_ok_def)
  show ?case by (rule close_ok_moved [OF once_first(3) c(1)])
    (use once_first(2) ok c in \<open>auto simp: move_close_Some closer_ok_def inside_def all_done_def callback_runs_def split: place.splits\<close>)
next
  case (once_over s)
  then obtain c where c: "wt_closers s i = Some c" "cs_at c = CloseOnce" by (auto simp: at_close_iff)
  have ok: "closer_ok s i c" and d: "all_done s" "wt_cancelled s" using once_over(2,3) c(1) by (simp_all add: close_ok_def)
  have "cs_place c = Outside" using done_no_callback [OF d(1), of "cs_place c"] ok c(2) by (simp add: closer_ok_def)
  thus ?case by (intro close_ok_moved [OF once_over(3) c(1)])
    (use once_over(2) ok c d in \<open>auto simp: move_close_Some closer_ok_def inside_def all_done_def callback_runs_def split: place.splits\<close>)
next
  case (cancel s)
  then obtain c where c: "wt_closers s i = Some c" "cs_at c = CloseCancel" by (auto simp: at_close_iff)
  have ok: "closer_ok s i c" using cancel(2) c(1) by (simp add: close_ok_def)
  show ?case by (rule close_ok_moved [OF cancel(2) c(1)])
    (use ok c in \<open>auto simp: move_close_Some closer_ok_def inside_def all_done_def callback_runs_def split: place.splits\<close>)
next
  case (shutdown s)
  then obtain c where c: "wt_closers s i = Some c" "cs_at c = CloseShutdown" by (auto simp: at_close_iff)
  have ok: "closer_ok s i c" using shutdown(2) c(1) by (simp add: close_ok_def)
  show ?case by (rule close_ok_moved [OF shutdown(2) c(1)])
    (use ok c in \<open>auto simp: move_close_Some closer_ok_def inside_def all_done_def callback_runs_def split: place.splits\<close>)
next
  case (waited s)
  then obtain c where c: "wt_closers s i = Some c" "cs_at c = CloseWait" by (auto simp: at_close_iff)
  have ok: "closer_ok s i c" using waited(3) c(1) by (simp add: close_ok_def)
  have "cs_place c = Outside" using done_no_callback [OF waited(2), of "cs_place c"] ok c(2) by (simp add: closer_ok_def)
  thus ?case by (intro close_ok_moved [OF waited(3) c(1)])
    (use waited(2) ok c in \<open>auto simp: move_close_Some closer_ok_def inside_def all_done_def callback_runs_def split: place.splits\<close>)
qed

lemma queue_ok_cong:
  "wt_entered t = wt_entered s \<Longrightarrow> wt_delivered t = wt_delivered s \<Longrightarrow> wt_dropped t = wt_dropped s \<Longrightarrow> wt_queue t = wt_queue s \<Longrightarrow>
     wt_queueClosed t = wt_queueClosed s \<Longrightarrow> wt_rec t = wt_rec s \<Longrightarrow> wt_disp t = wt_disp s \<Longrightarrow> queue_ok depth t = queue_ok depth s"
  by (simp add: queue_ok_def)

lemma queue_ok_closing: "close_step i s t \<Longrightarrow> queue_ok depth s \<Longrightarrow> queue_ok depth t"
  by (induction rule: close_step.induct) (auto simp: queue_ok_def)

lemma watcher_ok_step:
  assumes "watcher_step depth s t" "watcher_ok depth s"
  shows "watcher_ok depth t"
  using assms
proof (induction rule: watcher_step.induct)
  case (worker s t)
  thus ?case using queue_ok_worker close_ok_worker by (auto simp: watcher_ok_def)
next
  case (closing i s t)
  thus ?case using queue_ok_closing close_ok_closing by (auto simp: watcher_ok_def)
next
  case (call_Close s i pl)
  let ?t = "s\<lparr>wt_closers := (wt_closers s)(i \<mapsto> \<lparr>cs_place = pl, cs_at = CloseOnce\<rparr>)\<rparr>"
  have cb: "callback_runs q ?t = callback_runs q s" for q by (rule callback_runs_cong) simp_all
  have "wt_once s \<noteq> OnceRunning i" using call_Close(1,4) by (auto simp: watcher_ok_def close_ok_def)
  hence "closer_ok ?t i \<lparr>cs_place = pl, cs_at = CloseOnce\<rparr>" using call_Close(2) cb by (simp add: closer_ok_def inside_def)
  moreover have "closer_ok ?t j d" if "wt_closers s j = Some d" for j d
  proof -
    have "closer_ok s j d" using call_Close(4) that by (simp add: watcher_ok_def close_ok_def)
    thus ?thesis using cb by (simp add: closer_ok_def)
  qed
  ultimately show ?case using call_Close(4) unfolding watcher_ok_def close_ok_def by (auto simp: queue_ok_def all_done_def)
next
  case (parent_cancel s)
  have "callback_runs q (s\<lparr>wt_cancelled := True\<rparr>) = callback_runs q s" for q by (rule callback_runs_cong) simp_all
  thus ?case using parent_cancel by (auto simp: watcher_ok_def queue_ok_def close_ok_def closer_ok_def all_done_def)
qed

lemma watcher_ok_reach: "(watcher_step depth)\<^sup>*\<^sup>* (watcher_start fwds adm) s \<Longrightarrow> watcher_ok depth s"
proof (induction rule: rtranclp_induct)
  case base
  show ?case by (simp add: watcher_ok_def queue_ok_def close_ok_def watcher_start_def)
qed (rule watcher_ok_step)


subsection \<open>After Close\<close>

lemma done_stays:
  assumes "watcher_step depth s t" "watcher_ok depth s" "all_done s"
  shows "all_done t \<and> wt_delivered t = wt_delivered s"
  using assms
proof (induction rule: watcher_step.induct)
  case (worker s t)
  have "all_done t" using worker_keeps_done worker by (auto simp: watcher_ok_def)
  moreover have "wt_delivered t = wt_delivered s" using worker(1,3)
    by (induction rule: worker_step.induct) (auto simp: all_done_def)
  ultimately show ?case by blast
next
  case (closing i s t)
  thus ?case by (induction rule: close_step.induct) (auto simp: all_done_def)
qed (auto simp: all_done_def)

lemma done_stays_reach:
  assumes "(watcher_step depth)\<^sup>*\<^sup>* s t" "watcher_ok depth s" "all_done s"
  shows "watcher_ok depth t \<and> all_done t \<and> wt_delivered t = wt_delivered s"
  using assms
proof (induction rule: rtranclp_induct)
  case (step t u)
  thus ?case using done_stays [of depth t u] watcher_ok_step [of depth t u] by simp
qed simp

subsection \<open>Close returns\<close>

text \<open>No \<^verbatim>\<open>Close\<close> is under way in a callback.\<close>

definition free :: "watcher \<Rightarrow> bool" where
  "free s \<longleftrightarrow> (\<forall>i c. wt_closers s i = Some c \<and> cs_at c \<noteq> CloseReturned \<longrightarrow> cs_place c = Outside)"

lemma free_occupied: "free s \<Longrightarrow> pl \<noteq> Outside \<Longrightarrow> \<not> occupied pl s"
  by (auto simp: free_def occupied_def)

text \<open>What is left to do once the watcher is cancelled.\<close>

definition work :: "watcher \<Rightarrow> nat" where
  "work s = wt_fwds s + (case wt_rec s of RecDone \<Rightarrow> 0 | Looping \<Rightarrow> 1 | InHook \<Rightarrow> 2 | Enqueuing _ \<Rightarrow> 4)
     + (case wt_disp s of DispDone \<Rightarrow> 0 | Idle \<Rightarrow> 1 | Running _ \<Rightarrow> 2) + 2 * length (wt_queue s) + (if wt_waiting s then 1 else 0)
     + (case wt_admin s of Serving \<Rightarrow> 1 | AdminCallback \<Rightarrow> 1 | _ \<Rightarrow> 0)"

lemma step_less: "worker_step depth s t \<Longrightarrow> work t < work s \<Longrightarrow> \<exists>t. worker_step depth s t \<and> work t < work s"
  by blast

lemma dispatcher_progress:
  assumes "wt_disp s = Running ev" "wt_cancelled s" "free s"
  shows "\<exists>t. worker_step depth s t \<and> work t < work s"
proof (cases "wt_waiting s")
  case True
  show ?thesis by (rule step_less, rule worker_step.command_answered) (use True assms in \<open>auto simp: work_def\<close>)
next
  case False
  show ?thesis by (rule step_less, rule worker_step.callback_return) (use False assms free_occupied [of s OnDispatch] in \<open>auto simp: work_def\<close>)
qed

lemma reconciler_progress:
  assumes "wt_rec s \<noteq> RecDone" "wt_cancelled s" "free s" "queue_ok depth s"
  shows "\<exists>t. worker_step depth s t \<and> work t < work s"
proof (cases "wt_rec s")
  case Looping
  show ?thesis by (rule step_less, rule worker_step.loop_exit) (use Looping assms in \<open>auto simp: work_def\<close>)
next
  case InHook
  show ?thesis by (rule step_less, rule worker_step.hook_return) (use InHook free_occupied [OF assms(3), of OnRecon] in \<open>auto simp: work_def\<close>)
next
  case (Enqueuing ev)
  consider "length (wt_queue s) < depth" | old rest where "wt_queue s = old # rest" "\<not> length (wt_queue s) < depth" | "wt_queue s = []" "depth = 0"
    by (cases "wt_queue s") auto
  thus ?thesis
  proof cases
    case 1
    show ?thesis by (rule step_less, rule worker_step.enqueue_put) (use 1 Enqueuing in \<open>auto simp: work_def\<close>)
  next
    case 2
    show ?thesis by (rule step_less, rule worker_step.enqueue_drop) (use 2 Enqueuing in \<open>auto simp: work_def\<close>)
  next
    case 3
    show ?thesis
    proof (cases "wt_disp s")
      case Idle
      show ?thesis by (rule step_less, rule worker_step.enqueue_meet) (use Idle Enqueuing 3 in \<open>auto simp: work_def\<close>)
    next
      case (Running x)
      thus ?thesis using dispatcher_progress assms by blast
    next
      case DispDone
      thus ?thesis using assms(1,4) by (auto simp: queue_ok_def)
    qed
  qed
qed (use assms in simp)

lemma watcher_progress:
  assumes "queue_ok depth s" "wt_cancelled s" "wt_shut s" "free s" "\<not> all_done s"
  shows "\<exists>t. worker_step depth s t \<and> work t < work s"
proof -
  consider n where "wt_fwds s = Suc n" | "wt_rec s \<noteq> RecDone" | "wt_rec s = RecDone" "wt_disp s \<noteq> DispDone" | "wt_admin s = Serving" | "wt_admin s = AdminCallback"
    using assms(5) by (cases "wt_fwds s"; cases "wt_admin s") (auto simp: all_done_def)
  thus ?thesis
  proof cases
    case 1
    show ?thesis by (rule step_less, rule worker_step.fwd_exit) (use 1 in \<open>auto simp: work_def\<close>)
  next
    case 2
    thus ?thesis using reconciler_progress assms by blast
  next
    case 3
    show ?thesis
    proof (cases "wt_disp s")
      case Idle
      show ?thesis
      proof (cases "wt_queue s")
        case Nil
        show ?thesis by (rule step_less, rule worker_step.dispatch_exit) (use Nil Idle 3 assms(1) in \<open>auto simp: work_def queue_ok_def\<close>)
      next
        case (Cons ev rest)
        show ?thesis by (rule step_less, rule worker_step.dispatch) (use Cons Idle in \<open>auto simp: work_def\<close>)
      qed
    next
      case (Running x)
      thus ?thesis using dispatcher_progress assms by blast
    qed (use 3 in simp)
  next
    case 4
    show ?thesis by (rule step_less, rule worker_step.admin_exit) (use 4 assms(3) in \<open>auto simp: work_def\<close>)
  next
    case 5
    show ?thesis by (rule step_less, rule worker_step.admin_return) (use 5 free_occupied [OF assms(4), of OnAdmin] in \<open>auto simp: work_def\<close>)
  qed
qed

lemma workers_finish:
  assumes "queue_ok depth s" "wt_cancelled s" "wt_shut s" "free s"
  shows "\<exists>t. (worker_step depth)\<^sup>*\<^sup>* s t \<and> all_done t \<and> wt_closers t = wt_closers s \<and> wt_once t = wt_once s"
  using assms
proof (induction "work s" arbitrary: s rule: less_induct)
  case less
  show ?case
  proof (cases "all_done s")
    case False
    then obtain t where t: "worker_step depth s t" "work t < work s" using watcher_progress less.prems by blast
    note f = worker_frame [OF t(1)]
    have "free t" using less.prems(4) f by (simp add: free_def)
    then obtain u where "(worker_step depth)\<^sup>*\<^sup>* t u" "all_done u" "wt_closers u = wt_closers t" "wt_once u = wt_once t"
      using less.hyps [OF t(2) queue_ok_worker [OF t(1) less.prems(1)]] f less.prems by auto
    thus ?thesis using t(1) f by (intro exI [of _ u]) (simp add: converse_rtranclp_into_rtranclp)
  qed blast
qed

lemma worker_runs: "(worker_step depth)\<^sup>*\<^sup>* s t \<Longrightarrow> (watcher_step depth)\<^sup>*\<^sup>* s t"
  by (induction rule: rtranclp_induct) (auto intro: rtranclp.rtrancl_into_rtrancl watcher_step.worker)

text \<open>The call in the body of the once gets through.\<close>

definition others :: "nat \<Rightarrow> watcher \<Rightarrow> watcher \<Rightarrow> bool" where
  "others i s t \<longleftrightarrow> (\<forall>j. j \<noteq> i \<longrightarrow> wt_closers t j = wt_closers s j)"

definition gets_through :: "nat \<Rightarrow> nat \<Rightarrow> watcher \<Rightarrow> bool" where
  "gets_through depth i s \<longleftrightarrow> (\<exists>t. (watcher_step depth)\<^sup>*\<^sup>* s t \<and> at_close i CloseReturned t \<and> wt_once t = OnceDone \<and> others i s t)"

lemma gets_through_step:
  assumes "close_step i s t" "others i s t" "gets_through depth i t"
  shows "gets_through depth i s"
proof -
  obtain u where "(watcher_step depth)\<^sup>*\<^sup>* t u" "at_close i CloseReturned u" "wt_once u = OnceDone" "others i t u" using assms(3) by (auto simp: gets_through_def)
  thus ?thesis using assms(1,2) watcher_step.closing unfolding gets_through_def others_def
    by (metis converse_rtranclp_into_rtranclp)
qed

lemma others_move [simp]: "others i s (move_close i a s)" "others i s (move_close i a s\<lparr>wt_once := x\<rparr>)" "others i s (move_close i a s\<lparr>wt_cancelled := b\<rparr>)" "others i s (move_close i a s\<lparr>wt_shut := b\<rparr>)"
  by (auto simp: others_def closers_move_close)

lemma free_move: "free s \<Longrightarrow> at_close i b s \<Longrightarrow> b \<noteq> CloseReturned \<Longrightarrow> free (move_close i a s)"
  by (auto simp: free_def closers_move_close at_close_iff)

lemma at_move: "at_close i b s \<Longrightarrow> at_close i a (move_close i a s)"
  by (auto simp: at_close_iff closers_move_close)

lemma at_close_cong: "wt_closers s = wt_closers t \<Longrightarrow> at_close i a s = at_close i a t"
  by (simp add: at_close_def)

lemma free_cong: "wt_closers s = wt_closers t \<Longrightarrow> free s = free t"
  by (simp add: free_def)

lemma wait_gets_through:
  assumes "at_close i CloseWait s" "watcher_ok depth s" "free s"
  shows "gets_through depth i s"
proof -
  obtain c where "wt_closers s i = Some c" "cs_at c = CloseWait" using assms(1) by (auto simp: at_close_iff)
  hence "wt_cancelled s" "wt_shut s" using assms(2) by (auto simp: watcher_ok_def close_ok_def closer_ok_def)
  then obtain t where t: "(worker_step depth)\<^sup>*\<^sup>* s t" "all_done t" "wt_closers t = wt_closers s"
    using workers_finish [of depth s] assms by (auto simp: watcher_ok_def)
  have a: "at_close i CloseWait t" using assms(1) at_close_cong [OF t(3)] by simp
  have "others i s (move_close i CloseReturned t\<lparr>wt_once := OnceDone\<rparr>)" using t(3) by (simp add: others_def closers_move_close)
  moreover have "at_close i CloseReturned (move_close i CloseReturned t\<lparr>wt_once := OnceDone\<rparr>)" using at_move [OF a] by (simp add: at_close_def)
  ultimately show ?thesis unfolding gets_through_def
    using watcher_step.closing [OF close_step.waited [OF a t(2)], of depth] worker_runs [OF t(1)]
    by (intro exI [of _ "move_close i CloseReturned t\<lparr>wt_once := OnceDone\<rparr>"]) auto
qed


lemma inside_gets_through:
  assumes "at_close i a s" "inside a" "watcher_ok depth s" "free s"
  shows "gets_through depth i s"
proof -
  have from_shutdown: "gets_through depth i s" if "at_close i CloseShutdown s" "watcher_ok depth s" "free s" for s
  proof -
    let ?t = "move_close i CloseWait s\<lparr>wt_shut := True\<rparr>"
    have st: "close_step i s ?t" using that(1) by (rule close_step.shutdown)
    have "at_close i CloseWait ?t" using at_move [OF that(1)] by (simp add: at_close_def)
    moreover have "free ?t" using free_move [OF that(3,1)] free_cong [of ?t "move_close i CloseWait s"] by simp
    ultimately show ?thesis using wait_gets_through watcher_ok_step [OF watcher_step.closing [OF st] that(2)] gets_through_step [OF st] by simp
  qed
  have from_cancel: "gets_through depth i s" if "at_close i CloseCancel s" "watcher_ok depth s" "free s" for s
  proof -
    let ?t = "move_close i CloseShutdown s\<lparr>wt_cancelled := True\<rparr>"
    have st: "close_step i s ?t" using that(1) by (rule close_step.cancel)
    have "at_close i CloseShutdown ?t" using at_move [OF that(1)] by (simp add: at_close_def)
    moreover have "free ?t" using free_move [OF that(3,1)] free_cong [of ?t "move_close i CloseShutdown s"] by simp
    ultimately show ?thesis using from_shutdown watcher_ok_step [OF watcher_step.closing [OF st] that(2)] gets_through_step [OF st] by simp
  qed
  show ?thesis using assms from_shutdown from_cancel wait_gets_through unfolding inside_def by blast
qed

lemma close_reaches_return:
  assumes "watcher_ok depth s" "wt_closers s i = Some c" "free s"
  shows "\<exists>t. (watcher_step depth)\<^sup>*\<^sup>* s t \<and> at_close i CloseReturned t"
proof -
  have at: "at_close i (cs_at c) s" using assms(2) by (simp add: at_close_def)
  have later: "\<exists>u. (watcher_step depth)\<^sup>*\<^sup>* s u \<and> at_close i CloseReturned u"
    if "(watcher_step depth)\<^sup>*\<^sup>* s t" "at_close i CloseOnce t" "wt_once t = OnceDone" for t
    using watcher_step.closing [OF close_step.once_over [OF that(2,3)], of depth] that(1) at_move [OF that(2)] by (meson rtranclp.rtrancl_into_rtrancl)
  consider "cs_at c = CloseReturned" | "inside (cs_at c)" | "cs_at c = CloseOnce" by (cases "cs_at c") (auto simp: inside_def)
  thus ?thesis
  proof cases
    case 1
    thus ?thesis using at by auto
  next
    case 2
    thus ?thesis using inside_gets_through [OF at _ assms(1,3)] by (auto simp: gets_through_def)
  next
    case 3
    show ?thesis
    proof (cases "wt_once s")
      case OnceFree
      let ?t = "move_close i CloseCancel s\<lparr>wt_once := OnceRunning i\<rparr>"
      have st: "close_step i s ?t" using at 3 OnceFree by (intro close_step.once_first) simp_all
      have "at_close i CloseCancel ?t" using at_move [OF at] by (simp add: at_close_def)
      moreover have "free ?t" using free_move [OF assms(3) at] 3 free_cong [of ?t "move_close i CloseCancel s"] by simp
      ultimately have "gets_through depth i ?t" using watcher_ok_step [OF watcher_step.closing [OF st] assms(1)]
        by (intro inside_gets_through [of i CloseCancel]) (simp_all add: inside_def)
      thus ?thesis using watcher_step.closing [OF st, of depth] unfolding gets_through_def by (meson converse_rtranclp_into_rtranclp)
    next
      case (OnceRunning j)
      then obtain d where d: "wt_closers s j = Some d" "inside (cs_at d)" using assms(1) by (auto simp: watcher_ok_def close_ok_def closer_ok_def)
      have ji: "j \<noteq> i" using d assms(2) 3 by (auto simp: inside_def)
      have "at_close j (cs_at d) s" using d(1) by (simp add: at_close_def)
      then obtain t where t: "(watcher_step depth)\<^sup>*\<^sup>* s t" "wt_once t = OnceDone" "others j s t"
        using inside_gets_through [OF _ d(2) assms(1,3)] by (auto simp: gets_through_def)
      have "at_close i CloseOnce t" using t(3) ji at 3 by (simp add: others_def at_close_def)
      thus ?thesis using later [OF t(1)] t(2) by blast
    next
      case OnceDone
      thus ?thesis using later [of s] at 3 by simp
    qed
  qed
qed



text \<open>
  C9. A Close that a callback calls waits for the goroutine it runs on. It never returns, and neither does any other call of Close: OnChange, OnError, PreApply and derive hooks are all affected, and unlike the
  commands there is no guard that refuses the call.
\<close>

theorem Close_in_callback_hangs:
  assumes "(watcher_step depth)\<^sup>*\<^sup>* (watcher_start fwds adm) s" "wt_closers s i = Some c" "cs_place c \<noteq> Outside"
  shows "\<not> at_close j CloseReturned s"
proof
  assume "at_close j CloseReturned s"
  hence d: "all_done s" "closer_ok s i c" using watcher_ok_reach [OF assms(1)] assms(2) by (auto simp: watcher_ok_def close_ok_def closer_ok_def at_close_iff)
  hence "callback_runs (cs_place c) s" using assms(3) by (auto simp: closer_ok_def)
  thus False using done_no_callback [OF d(1)] assms(3) by blast
qed

subsection \<open>A queue of depth zero\<close>

text \<open>
  With a queue of depth zero there is nothing to drop: the reconciler spins until OnChange takes the event, and if OnChange is waiting in a command at that moment, neither goes on until the watcher is cancelled.
\<close>

lemma zero_depth_blocks:
  assumes "(\<lambda>s t. watcher_step 0 s t \<and> \<not> wt_cancelled t)\<^sup>*\<^sup>* s t" "wt_rec s = Enqueuing ev" "wt_disp s = Running x" "wt_waiting s" "wt_queue s = []"
    "\<not> wt_cancelled s"
  shows "wt_rec t = Enqueuing ev \<and> wt_waiting t"
proof -
  have "wt_rec t = Enqueuing ev \<and> wt_disp t = Running x \<and> wt_waiting t \<and> wt_queue t = [] \<and> \<not> wt_cancelled t"
    using assms
  proof (induction rule: rtranclp_induct)
    case (step t u)
    have st: "watcher_step 0 t u" "\<not> wt_cancelled u" using step.hyps(2) by auto
    have ih: "wt_rec t = Enqueuing ev" "wt_disp t = Running x" "wt_waiting t" "wt_queue t = []" "\<not> wt_cancelled t" using step by auto
    from st ih show ?case
    proof (induction rule: watcher_step.induct)
      case (worker t u)
      thus ?case by (induction rule: worker_step.induct) auto
    next
      case (closing i t u)
      thus ?case by (induction rule: close_step.induct) auto
    qed auto
  qed simp
  thus ?thesis by simp
qed

subsection \<open>Witnesses\<close>

definition closing_demo :: watcher where
  "closing_demo = (watcher_start 2 True)\<lparr>wt_closers := [0 \<mapsto> \<lparr>cs_place = Outside, cs_at = CloseOnce\<rparr>]\<rparr>"

lemma closing_demo_reach: "(watcher_step 16)\<^sup>*\<^sup>* (watcher_start 2 True) closing_demo"
proof -
  have "watcher_step 16 (watcher_start 2 True) ((watcher_start 2 True)\<lparr>wt_closers := (wt_closers (watcher_start 2 True))(0 \<mapsto> \<lparr>cs_place = Outside, cs_at = CloseOnce\<rparr>)\<rparr>)"
    by (rule watcher_step.call_Close) (simp_all add: watcher_start_def callback_runs_def)
  thus ?thesis by (simp add: closing_demo_def watcher_start_def r_into_rtranclp)
qed

lemma closing_demo_free: "wt_closers closing_demo 0 = Some \<lparr>cs_place = Outside, cs_at = CloseOnce\<rparr>" "free closing_demo"
  by (auto simp: closing_demo_def free_def watcher_start_def)



theorem Close_in_callback_hangs_witness:
  "\<not> at_close 0 CloseReturned ((watcher_start 2 True)\<lparr>wt_rec := InHook, wt_closers := [0 \<mapsto> \<lparr>cs_place = OnRecon, cs_at = CloseOnce\<rparr>]\<rparr>)"
proof -
  let ?h = "(watcher_start 2 True)\<lparr>wt_rec := InHook\<rparr>" and ?t = "(watcher_start 2 True)\<lparr>wt_rec := InHook, wt_closers := [0 \<mapsto> \<lparr>cs_place = OnRecon, cs_at = CloseOnce\<rparr>]\<rparr>"
  have "watcher_step 16 (watcher_start 2 True) ?h" by (rule watcher_step.worker, rule worker_step.round_hook) (simp add: watcher_start_def)
  moreover have "watcher_step 16 ?h (?h\<lparr>wt_closers := (wt_closers ?h)(0 \<mapsto> \<lparr>cs_place = OnRecon, cs_at = CloseOnce\<rparr>)\<rparr>)"
    by (rule watcher_step.call_Close) (simp_all add: watcher_start_def callback_runs_def occupied_def)
  hence "watcher_step 16 ?h ?t" by (simp add: watcher_start_def)
  ultimately have "(watcher_step 16)\<^sup>*\<^sup>* (watcher_start 2 True) ?t" by auto
  from Close_in_callback_hangs [OF this, of 0 "\<lparr>cs_place = OnRecon, cs_at = CloseOnce\<rparr>" 0] show ?thesis by simp
qed

end
