(* ===== verification/HttpCore.thy ===== *)
theory HttpCore
  imports Client
begin

text \<open>
  \<^verbatim>\<open>providers/httpcore\<close>: the core the HTTP providers share. \<^verbatim>\<open>httpcore.go\<close> and \<^verbatim>\<open>do.go\<close>: the client, its requests and the
  paths it refuses; \<^verbatim>\<open>classify.go\<close>: statuses and kinds; \<^verbatim>\<open>revalidate.go\<close>: conditional requests over a bounded cache; \<^verbatim>\<open>oauth2.go\<close>: cached
  tokens; \<^verbatim>\<open>longpoll.go\<close>, \<^verbatim>\<open>auth.go\<close> and \<^verbatim>\<open>version.go\<close>.

  A URL is kept as \<^verbatim>\<open>net/url\<close> keeps it, its path twice. The transport is an argument, as are \<^verbatim>\<open>url.Parse\<close> and the hooks of a configuration.
\<close>

subsection \<open>URLs\<close>

record url =
  u_Scheme :: string
  u_User :: "string option"
  u_Host :: string
  u_Path :: string
  u_RawPath :: string
  u_RawQuery :: string
  u_Fragment :: string

text \<open>\<^verbatim>\<open>shouldEscape\<close>, \<^verbatim>\<open>validEncoded\<close> and \<^verbatim>\<open>EscapedPath\<close> of \<^verbatim>\<open>net/url\<close> for a path.\<close>

definition path_char :: "char \<Rightarrow> bool" where
  "path_char c \<longleftrightarrow> query_safe c \<or> c \<in> set ''$&+,/:;=@''"

definition escape_path :: "string \<Rightarrow> string" where
  "escape_path s = escape_with path_char s"

definition validEncoded :: "string \<Rightarrow> bool" where
  "validEncoded s = list_all (\<lambda>c. c \<in> set ''!$&()*+,;=:@[]%'' \<or> c = CHR 0x27 \<or> path_char c) s"

definition EscapedPath :: "url \<Rightarrow> string" where
  "EscapedPath u =
     (if u_RawPath u \<noteq> [] \<and> validEncoded (u_RawPath u) \<and> path_unescape (u_RawPath u) = Some (u_Path u) then u_RawPath u
      else if u_Path u = ''*'' then ''*'' else escape_path (u_Path u))"

subsection \<open>Classification\<close>

definition http_sentinel :: "int \<Rightarrow> sentinel" where
  "http_sentinel status =
     (if status \<in> {400, 422} then ErrInvalid else if status = 401 then ErrUnauthenticated
      else if status = 403 then ErrPermissionDenied else if status = 404 then ErrNotFound
      else if status \<in> {408, 429} then ErrRateLimited else ErrUnavailable)"

definition classify :: "int \<Rightarrow> string \<Rightarrow> err option" where
  "classify status detail =
     (if status \<ge> 200 \<and> status < 300 then None else if status = 304 then None
      else Some (Errorf detail [Sentinel (http_sentinel status)]))"

definition ClassifyStatus :: "int \<Rightarrow> string \<Rightarrow> err option" where
  "ClassifyStatus status detail = map_option (\<lambda>e. Errorf ''httpcore'' [e]) (classify status detail)"

definition StatusForKind :: "Kind \<Rightarrow> int" where
  "StatusForKind k =
     (if k = KindInvalid then 400 else if k = KindUnauthenticated then 401 else if k = KindPermissionDenied then 403
      else if k = KindNotFound then 404 else if k = KindRateLimited then 429 else if k = KindUnavailable then 503 else 500)"

subsection \<open>Clients\<close>

record hreq =
  hq_Method :: string
  hq_URL :: url
  hq_Header :: "(string \<times> string) list"
  hq_Body :: bytes

record hresp =
  hp_Status :: int
  hp_ETag :: string
  hp_LastModified :: string
  hp_Body :: bytes
  hp_ReadErr :: "err option"

type_synonym hauth = "hreq \<Rightarrow> err + hreq"

record Config =
  hc_BaseURL :: string
  hc_Auth :: "hauth option"
  hc_MaxBody :: int
  hc_UserAgent :: string
  hc_ErrorDetail :: "(int \<Rightarrow> bytes \<Rightarrow> string) option"
  hc_RedactPath :: "(string \<Rightarrow> string) option"

record httpClient =
  cl_base :: url
  cl_auth :: "hauth option"
  cl_maxBody :: int
  cl_userAgent :: string
  cl_errorDetail :: "(int \<Rightarrow> bytes \<Rightarrow> string) option"
  cl_redactPath :: "(string \<Rightarrow> string) option"

definition DefaultMaxBody :: int where "DefaultMaxBody = 2 ^ 20"

definition http_invalid :: "string \<Rightarrow> err" where "http_invalid msg = Errorf msg [Sentinel ErrInvalid]"

definition New_Client :: "(string \<Rightarrow> url option) \<Rightarrow> Config \<Rightarrow> err + httpClient" where
  "New_Client parse cfg =
     (if hc_BaseURL cfg = [] then Inl (http_invalid ''httpcore: BaseURL is required'')
      else (case parse (hc_BaseURL cfg) of
         None \<Rightarrow> Inl (http_invalid ''httpcore: BaseURL is not a URL'')
       | Some base \<Rightarrow>
          if u_Scheme base = [] \<or> u_Host base = [] then Inl (http_invalid ''httpcore: BaseURL needs a scheme and host'')
          else Inr \<lparr>cl_base = base, cl_auth = hc_Auth cfg, cl_maxBody = (if hc_MaxBody cfg \<le> 0 then DefaultMaxBody else hc_MaxBody cfg),
                    cl_userAgent = hc_UserAgent cfg, cl_errorDetail = hc_ErrorDetail cfg, cl_redactPath = hc_RedactPath cfg\<rparr>))"

subsection \<open>Requests\<close>

record Request =
  rq_Method :: string
  rq_Path :: string
  rq_Query :: "(string \<times> string list) list"
  rq_Headers :: "(string \<times> string) list"
  rq_Body :: bytes
  rq_IfNoneMatch :: string
  rq_IfModifiedSince :: string

record Response =
  rp_Status :: int
  rp_Body :: bytes
  rp_ETag :: string
  rp_LastModified :: string
  rp_NotModified :: bool

text \<open>\<^verbatim>\<open>strings.FieldsFunc\<close> on the two separators.\<close>

definition is_sep :: "char \<Rightarrow> bool" where "is_sep c \<longleftrightarrow> c = CHR ''/'' \<or> c = CHR 0x5C"

fun path_fields :: "string \<Rightarrow> string \<Rightarrow> string list" where
  "path_fields cur [] = (if cur = [] then [] else [cur])"
| "path_fields cur (c # s) =
     (if is_sep c then (if cur = [] then path_fields [] s else cur # path_fields [] s) else path_fields (cur @ [c]) s)"

definition hasDotSegment :: "string \<Rightarrow> bool" where
  "hasDotSegment p = list_ex (\<lambda>seg. seg = ''.'' \<or> seg = ''..'') (path_fields [] p)"

definition joinPath :: "string \<Rightarrow> string \<Rightarrow> string" where
  "joinPath base p =
     (if p = [] then base else if base = [] \<or> base = ''/'' then CHR ''/'' # trim_prefix ''/'' p
      else trim_suffix ''/'' base @ CHR ''/'' # trim_prefix ''/'' p)"

definition setPath :: "string \<Rightarrow> string \<Rightarrow> url \<Rightarrow> err + url" where
  "setPath basePath reqPath u = (case path_unescape reqPath of
     None \<Rightarrow> Inl (http_invalid ''httpcore: request path is not a valid escaped path'')
   | Some decodedReq \<Rightarrow>
      if hasDotSegment decodedReq then Inl (http_invalid ''httpcore: request path contains a dot segment'')
      else (let raw = joinPath basePath reqPath in case path_unescape raw of
         None \<Rightarrow> Inl (http_invalid ''httpcore: request path joined onto the BaseURL is not a valid escaped path'')
       | Some decoded \<Rightarrow>
          let v = u\<lparr>u_Path := decoded, u_RawPath := []\<rparr>
          in Inr (if EscapedPath (v\<lparr>u_Scheme := [], u_User := None, u_Host := [], u_RawQuery := [], u_Fragment := []\<rparr>) \<noteq> raw
                  then v\<lparr>u_RawPath := raw\<rparr> else v)))"

text \<open>\<^verbatim>\<open>(*URL).Query\<close> leaves out the pairs that do not parse.\<close>

definition url_Query :: "string \<Rightarrow> (string \<times> string list) list" where
  "url_Query q = fold (\<lambda>p m. if CHR '';'' \<in> set p \<or> p = [] then m else (case parse_pair p of None \<Rightarrow> m | Some (k, v) \<Rightarrow> al_append k v m))
     (split_on CHR ''&'' q) []"

definition add_query :: "(string \<times> string list) list \<Rightarrow> url \<Rightarrow> url" where
  "add_query query u = (if query = [] then u
     else u\<lparr>u_RawQuery := values_encode (fold (\<lambda>(k, vs) m. fold (al_append k) vs m) query (url_Query (u_RawQuery u)))\<rparr>)"

definition header_set :: "string \<Rightarrow> string \<Rightarrow> (string \<times> string) list \<Rightarrow> (string \<times> string) list" where
  "header_set k v h = (to_lower k, v) # filter (\<lambda>(k', _). k' \<noteq> to_lower k) h"

definition set_unless_empty :: "string \<Rightarrow> string \<Rightarrow> (string \<times> string) list \<Rightarrow> (string \<times> string) list" where
  "set_unless_empty k v h = (if v = [] then h else header_set k v h)"

definition authError :: "err \<Rightarrow> err" where
  "authError e = (if ErrorKind (Some e) = KindUnknown then Errorf ''httpcore: applying credentials'' [Sentinel ErrUnauthenticated, e]
     else Errorf ''httpcore: applying credentials'' [e])"

text \<open>\<open>ok\<close>: \<^verbatim>\<open>http.NewRequestWithContext\<close> accepts the method and the rendered URL.\<close>

definition build :: "(string \<Rightarrow> url \<Rightarrow> bool) \<Rightarrow> httpClient \<Rightarrow> Request \<Rightarrow> err + hreq" where
  "build ok c r =
     (let method = (if rq_Method r = [] then ''GET'' else rq_Method r)
      in bind_res (setPath (EscapedPath (cl_base c)) (rq_Path r) (cl_base c)) (\<lambda>u0.
        let u = add_query (rq_Query r) u0 in
        if \<not> ok method u then Inl (http_invalid ''httpcore: building'')
        else (let h = map (\<lambda>(k, v). (to_lower k, v)) (rq_Headers r);
                  q = \<lparr>hq_Method = method, hq_URL = u,
                       hq_Header = set_unless_empty ''If-Modified-Since'' (rq_IfModifiedSince r)
                         (set_unless_empty ''If-None-Match'' (rq_IfNoneMatch r) (set_unless_empty ''User-Agent'' (cl_userAgent c) h)),
                       hq_Body = rq_Body r\<rparr>
              in case cl_auth c of None \<Rightarrow> Inr q
                 | Some apply \<Rightarrow> (case apply q of Inl e \<Rightarrow> Inl (authError e) | Inr q' \<Rightarrow> Inr q'))))"

text \<open>\<^verbatim>\<open>io.LimitReader\<close> reads nothing at a limit that is not positive.\<close>

definition limit_read :: "int \<Rightarrow> hresp \<Rightarrow> err + bytes" where
  "limit_read n resp = (if n \<le> 0 then Inr []
     else if int (length (hp_Body resp)) \<ge> n then Inr (take (nat n) (hp_Body resp))
     else (case hp_ReadErr resp of Some e \<Rightarrow> Inl e | None \<Rightarrow> Inr (hp_Body resp)))"

definition readBounded :: "hresp \<Rightarrow> int \<Rightarrow> err + bytes" where
  "readBounded resp mx = (case limit_read (wrap64 (mx + 1)) resp of
     Inl e \<Rightarrow> Inl (Errorf ''reading response'' [Sentinel ErrUnavailable, e])
   | Inr b \<Rightarrow> if int (length b) > mx then Inl (http_invalid ''response exceeds byte limit'') else Inr b)"

definition readErrorBody :: "hresp \<Rightarrow> int \<Rightarrow> bytes" where
  "readErrorBody resp mx = (case limit_read mx resp of Inl _ \<Rightarrow> [] | Inr b \<Rightarrow> b)"

definition Do :: "(string \<Rightarrow> url \<Rightarrow> bool) \<Rightarrow> (hreq \<Rightarrow> err + hresp) \<Rightarrow> httpClient \<Rightarrow> Request \<Rightarrow> err + Response" where
  "Do ok send c r = (case build ok c r of
     Inl e \<Rightarrow> Inl e
   | Inr req \<Rightarrow> (case send req of
       Inl e \<Rightarrow> Inl (Errorf ''httpcore'' [Sentinel ErrUnavailable, e])
     | Inr resp \<Rightarrow>
        let out = \<lparr>rp_Status = hp_Status resp, rp_Body = [], rp_ETag = hp_ETag resp, rp_LastModified = hp_LastModified resp,
                   rp_NotModified = (hp_Status resp = 304)\<rparr>
        in (case classify (hp_Status resp) [] of
              Some e \<Rightarrow> Inl (Errorf ''httpcore'' [case cl_errorDetail c of None \<Rightarrow> e
                 | Some detail \<Rightarrow> the (classify (hp_Status resp) (detail (hp_Status resp) (readErrorBody resp (cl_maxBody c))))])
            | None \<Rightarrow> if rp_NotModified out then Inr out
                else (case readBounded resp (cl_maxBody c) of
                   Inl e \<Rightarrow> Inl (Errorf ''httpcore'' [e])
                 | Inr body \<Rightarrow> Inr (out\<lparr>rp_Body := body\<rparr>)))))"

text \<open>\<^verbatim>\<open>redactURLWith\<close>; \<open>render\<close> is \<^verbatim>\<open>(*URL).String\<close>.\<close>

definition redactURLWith :: "(url \<Rightarrow> string) \<Rightarrow> url \<Rightarrow> (string \<Rightarrow> string) option \<Rightarrow> string" where
  "redactURLWith render u redactPath =
     (let c = u\<lparr>u_RawQuery := [], u_User := None\<rparr> in case redactPath of
        None \<Rightarrow> render c
      | Some f \<Rightarrow> render (c\<lparr>u_Path := [], u_RawPath := [], u_Fragment := []\<rparr>) @ f (EscapedPath u))"

definition redactURL :: "(url \<Rightarrow> string) \<Rightarrow> httpClient \<Rightarrow> url \<Rightarrow> string" where
  "redactURL render c u = redactURLWith render u (cl_redactPath c)"

definition http_Version :: "Response option \<Rightarrow> bytes \<Rightarrow> string" where
  "http_Version resp body = (case resp of
     Some r \<Rightarrow> if rp_ETag r \<noteq> [] then rp_ETag r else if rp_LastModified r \<noteq> [] then rp_LastModified r else VersionHash body
   | None \<Rightarrow> VersionHash body)"

subsection \<open>Authenticators\<close>

definition http_Bearer :: "string \<Rightarrow> hauth" where
  "http_Bearer token q = Inr (q\<lparr>hq_Header := header_set ''Authorization'' (''Bearer '' @ token) (hq_Header q)\<rparr>)"

definition HeaderAuth :: "string \<Rightarrow> string \<Rightarrow> hauth" where
  "HeaderAuth name v q = Inr (q\<lparr>hq_Header := header_set name v (hq_Header q)\<rparr>)"

text \<open>\<open>base64\<close> is the encoder of \<^verbatim>\<open>SetBasicAuth\<close>.\<close>

definition http_BasicAuth :: "(string \<Rightarrow> string) \<Rightarrow> string \<Rightarrow> string \<Rightarrow> hauth" where
  "http_BasicAuth base64 user pass q =
     Inr (q\<lparr>hq_Header := header_set ''Authorization'' (''Basic '' @ base64 (user @ CHR '':'' # pass)) (hq_Header q)\<rparr>)"

definition QueryAuth :: "string \<Rightarrow> string \<Rightarrow> hauth" where
  "QueryAuth name v q = Inr (q\<lparr>hq_URL := (hq_URL q)\<lparr>u_RawQuery :=
     values_encode ((name, [v]) # filter (\<lambda>(k, _). k \<noteq> name) (url_Query (u_RawQuery (hq_URL q))))\<rparr>\<rparr>)"

subsection \<open>Revalidation\<close>

text \<open>
  The map and the list of a \<^verbatim>\<open>Revalidator\<close> are one list of entries, the most recently used in front. A call of \<^verbatim>\<open>Get\<close> is not one critical section: what other calls
  do to the cache while its request is under way is the argument \<open>other\<close>, and \<open>get\<close> is the client's \<^verbatim>\<open>Do\<close> at each of its two uses.
\<close>

record revalEntry =
  re_key :: string
  re_etag :: string
  re_lastModified :: string
  re_body :: bytes

record Revalidator =
  rv_maxEntries :: int
  rv_lru :: "revalEntry list"

definition DefaultRevalidatorEntries :: int where "DefaultRevalidatorEntries = 512"

definition NewRevalidator :: "int \<Rightarrow> Revalidator" where
  "NewRevalidator n = \<lparr>rv_maxEntries = (if n \<le> 0 then DefaultRevalidatorEntries else n), rv_lru = []\<rparr>"

definition rv_find :: "string \<Rightarrow> Revalidator \<Rightarrow> revalEntry option" where
  "rv_find key rv = find (\<lambda>e. re_key e = key) (rv_lru rv)"

definition rv_without :: "string \<Rightarrow> Revalidator \<Rightarrow> revalEntry list" where
  "rv_without key rv = filter (\<lambda>e. re_key e \<noteq> key) (rv_lru rv)"

text \<open>\<^verbatim>\<open>validators\<close> and \<^verbatim>\<open>cached\<close>: both look the entry up and move it to the front.\<close>

definition rv_touch :: "string \<Rightarrow> Revalidator \<Rightarrow> revalEntry option \<times> Revalidator" where
  "rv_touch key rv = (case rv_find key rv of None \<Rightarrow> (None, rv)
     | Some e \<Rightarrow> (Some e, rv\<lparr>rv_lru := e # rv_without key rv\<rparr>))"

definition rv_drop :: "string \<Rightarrow> Revalidator \<Rightarrow> Revalidator" where
  "rv_drop key rv = rv\<lparr>rv_lru := rv_without key rv\<rparr>"

definition rv_store :: "string \<Rightarrow> Response \<Rightarrow> Revalidator \<Rightarrow> Revalidator" where
  "rv_store key resp rv =
     (if rp_ETag resp = [] \<and> rp_LastModified resp = [] then rv_drop key rv
      else (let e = \<lparr>re_key = key, re_etag = rp_ETag resp, re_lastModified = rp_LastModified resp, re_body = rp_Body resp\<rparr>
            in case rv_find key rv of
                 Some _ \<Rightarrow> rv\<lparr>rv_lru := e # rv_without key rv\<rparr>
               | None \<Rightarrow> rv\<lparr>rv_lru := take (nat (rv_maxEntries rv)) (e # rv_lru rv)\<rparr>))"

definition conditional :: "revalEntry option \<Rightarrow> Request \<Rightarrow> Request" where
  "conditional eo r = (case eo of None \<Rightarrow> r
     | Some e \<Rightarrow> r\<lparr>rq_IfNoneMatch := (if rq_IfNoneMatch r = [] then re_etag e else rq_IfNoneMatch r),
                   rq_IfModifiedSince := (if rq_IfModifiedSince r = [] then re_lastModified e else rq_IfModifiedSince r)\<rparr>)"

definition broken_304 :: err where
  "broken_304 = Errorf ''httpcore: backend answered 304 to a request carrying no validators'' [Sentinel ErrUnavailable]"

definition rv_retry :: "(Request \<Rightarrow> err + Response) \<Rightarrow> string \<Rightarrow> Request \<Rightarrow> Revalidator \<Rightarrow> (err + Response) \<times> Revalidator" where
  "rv_retry get key r rv = (case get (r\<lparr>rq_IfNoneMatch := [], rq_IfModifiedSince := []\<rparr>) of
     Inl e \<Rightarrow> (Inl e, rv_drop key rv)
   | Inr resp \<Rightarrow> if rp_NotModified resp then (Inl broken_304, rv_drop key rv) else (Inr resp, rv_store key resp rv))"

definition Reval_Get :: "(nat \<Rightarrow> Request \<Rightarrow> err + Response) \<Rightarrow> (Revalidator \<Rightarrow> Revalidator) \<Rightarrow> string \<Rightarrow> Request \<Rightarrow> Revalidator
    \<Rightarrow> (err + Response) \<times> Revalidator" where
  "Reval_Get get other key r rv =
     (let (eo, rv1) = rv_touch key rv; r1 = conditional eo r in case get 0 r1 of
        Inl e \<Rightarrow> (Inl e, rv_drop key (other rv1))
      | Inr resp \<Rightarrow>
          if \<not> rp_NotModified resp then (Inr resp, rv_store key resp (other rv1))
          else (case rv_touch key (other rv1) of
             (None, rv2) \<Rightarrow> rv_retry (get 1) key r1 rv2
           | (Some e, rv2) \<Rightarrow> (Inr (resp\<lparr>rp_Body := re_body e, rp_ETag := re_etag e, rp_LastModified := re_lastModified e\<rparr>), rv2)))"

subsection \<open>Tokens\<close>

record tokenResponse =
  tr_AccessToken :: string
  tr_ExpiresIn :: int

record oauth2Auth =
  oa_form :: bytes
  oa_leeway :: duration
  oa_cached :: "string option"
  oa_expiresAt :: instant
  oa_inflight :: "nat option"

definition DefaultOAuth2Leeway :: duration where "DefaultOAuth2Leeway = 30000000000"

record OAuth2Config =
  oc_TokenURL :: string
  oc_ClientID :: string
  oc_ClientSecret :: string
  oc_Scopes :: "string list"
  oc_Audience :: string
  oc_Leeway :: duration
  oc_AllowInsecure :: bool
  oc_RedactPath :: "(string \<Rightarrow> string) option"

definition checkTokenURLScheme :: "(string \<Rightarrow> url option) \<Rightarrow> string \<Rightarrow> bool \<Rightarrow> err option" where
  "checkTokenURLScheme parse tokenURL allowInsecure = (case parse tokenURL of
     None \<Rightarrow> Some (http_invalid ''httpcore: OAuth2 TokenURL is not a URL'')
   | Some u \<Rightarrow>
      if u_Scheme u = ''https'' then None
      else if u_Scheme u = ''http'' then
        (if \<not> allowInsecure then Some (http_invalid ''httpcore: OAuth2 TokenURL is http'') else None)
      else Some (http_invalid ''httpcore: OAuth2 TokenURL scheme is not http or https''))"

definition token_form :: "OAuth2Config \<Rightarrow> bytes" where
  "token_form cfg = values_encode ([(''grant_type'', [''client_credentials'']), (''client_id'', [oc_ClientID cfg]), (''client_secret'', [oc_ClientSecret cfg])]
     @ (if oc_Scopes cfg = [] then [] else [(''scope'', [join_with '' '' (oc_Scopes cfg)])])
     @ (if oc_Audience cfg = [] then [] else [(''audience'', [oc_Audience cfg])]))"

definition OAuth2ClientCredentials :: "(string \<Rightarrow> url option) \<Rightarrow> OAuth2Config \<Rightarrow> err + (httpClient \<times> oauth2Auth)" where
  "OAuth2ClientCredentials parse cfg =
     (if oc_TokenURL cfg = [] then Inl (http_invalid ''httpcore: OAuth2 TokenURL is required'')
      else if oc_ClientID cfg = [] then Inl (http_invalid ''httpcore: OAuth2 ClientID is required'')
      else if oc_ClientSecret cfg = [] then Inl (http_invalid ''httpcore: OAuth2 ClientSecret is required'')
      else (case checkTokenURLScheme parse (oc_TokenURL cfg) (oc_AllowInsecure cfg) of
         Some e \<Rightarrow> Inl e
       | None \<Rightarrow> bind_res (New_Client parse \<lparr>hc_BaseURL = oc_TokenURL cfg, hc_Auth = None, hc_MaxBody = 0, hc_UserAgent = [],
              hc_ErrorDetail = None, hc_RedactPath = oc_RedactPath cfg\<rparr>) (\<lambda>client.
            Inr (client, \<lparr>oa_form = token_form cfg, oa_leeway = (if oc_Leeway cfg \<le> 0 then DefaultOAuth2Leeway else oc_Leeway cfg),
                          oa_cached = None, oa_expiresAt = 0, oa_inflight = None\<rparr>))))"

definition token_request :: "oauth2Auth \<Rightarrow> Request" where
  "token_request a = \<lparr>rq_Method = ''POST'', rq_Path = [], rq_Query = [], rq_Headers = [(''Content-Type'', ''application/x-www-form-urlencoded'')],
     rq_Body = oa_form a, rq_IfNoneMatch = [], rq_IfModifiedSince = []\<rparr>"

text \<open>What \<^verbatim>\<open>exchange\<close> makes of the answer of the token endpoint at an instant; \<open>dec\<close> is the JSON decoder.\<close>

definition exchange :: "(bytes \<Rightarrow> tokenResponse option) \<Rightarrow> duration \<Rightarrow> instant \<Rightarrow> err + Response \<Rightarrow> err + string \<times> instant" where
  "exchange dec leeway now res = (case res of
     Inl e \<Rightarrow> Inl (Errorf ''httpcore: OAuth2 token exchange failed'' [e])
   | Inr resp \<Rightarrow> (case dec (rp_Body resp) of
        None \<Rightarrow> Inl (http_invalid ''httpcore: OAuth2 token response is not JSON'')
      | Some tr \<Rightarrow>
         if tr_AccessToken tr = [] then Inl (Errorf ''httpcore: OAuth2 token response carried no access_token'' [Sentinel ErrUnauthenticated])
         else if tr_ExpiresIn tr > 0 then Inr (tr_AccessToken tr, now + wrap64 (tr_ExpiresIn tr * 1000000000))
         else Inr (tr_AccessToken tr, now + wrap64 (leeway * 2))))"

text \<open>The two critical sections of \<^verbatim>\<open>tokenFor\<close>: a caller takes the cached token, waits for the exchange under way, or starts one; the exchange settles.\<close>

datatype token_step = Have string | Await nat | Begin nat

definition tokenFor_enter :: "instant \<Rightarrow> nat \<Rightarrow> oauth2Auth \<Rightarrow> token_step \<times> oauth2Auth" where
  "tokenFor_enter now fresh a = (case (oa_cached a, oa_inflight a) of
     (Some tok, fl) \<Rightarrow> if now + oa_leeway a < oa_expiresAt a then (Have tok, a)
        else (case fl of Some f \<Rightarrow> (Await f, a) | None \<Rightarrow> (Begin fresh, a\<lparr>oa_inflight := Some fresh\<rparr>))
   | (None, Some f) \<Rightarrow> (Await f, a)
   | (None, None) \<Rightarrow> (Begin fresh, a\<lparr>oa_inflight := Some fresh\<rparr>))"

definition tokenFor_settle :: "err + string \<times> instant \<Rightarrow> oauth2Auth \<Rightarrow> oauth2Auth" where
  "tokenFor_settle res a = (case res of
     Inl _ \<Rightarrow> a\<lparr>oa_inflight := None\<rparr>
   | Inr (tok, expires) \<Rightarrow> a\<lparr>oa_inflight := None, oa_cached := Some tok, oa_expiresAt := expires\<rparr>)"

subsection \<open>Long polls\<close>

record LongPollResult =
  lp_Changed :: bool
  lp_Value :: Value

text \<open>One outcome of a round (or of the baseline) delivered; \<open>left\<close> counts the sends that still succeed before the context is over.\<close>

definition longpoll_deliver :: "err + LongPollResult \<Rightarrow> nat \<times> Update list \<Rightarrow> bool \<times> nat \<times> Update list" where
  "longpoll_deliver res st = (case st of (left, out) \<Rightarrow>
     if left = 0 then (False, st)
     else (case res of
        Inl e \<Rightarrow> (True, left - 1, out @ [update_err e])
      | Inr r \<Rightarrow> if \<not> lp_Changed r then (True, st) else (True, left - 1, out @ [\<lparr>u_Value = lp_Value r, u_Err = None\<rparr>])))"

fun longpoll_loop :: "(err + LongPollResult) list \<Rightarrow> nat \<times> Update list \<Rightarrow> nat \<times> Update list" where
  "longpoll_loop [] st = st"
| "longpoll_loop (res # rs) st = (case longpoll_deliver res st of (False, st') \<Rightarrow> st' | (True, st') \<Rightarrow> longpoll_loop rs st')"

record LongPollConfig =
  lc_Hold :: duration
  lc_Grace :: duration
  lc_ErrorPause :: duration

definition longpoll_times :: "LongPollConfig \<Rightarrow> duration \<times> duration \<times> duration" where
  "longpoll_times cfg =
     (let hold = (if lc_Hold cfg \<le> 0 then 30000000000 else lc_Hold cfg);
          grace = (if lc_Grace cfg \<le> 0 then 10000000000 else lc_Grace cfg);
          pause = (if lc_ErrorPause cfg \<le> 0 then 500000000 else lc_ErrorPause cfg)
      in (hold, wrap64 (hold + grace), pause))"

text \<open>The rounds see the hold asked of the backend and the deadline of the client; without a \<^verbatim>\<open>Round\<close> the call is refused.\<close>

definition LongPoll :: "LongPollConfig \<Rightarrow> (duration \<Rightarrow> duration \<Rightarrow> (err + LongPollResult) list) option
    \<Rightarrow> (err + LongPollResult) option \<Rightarrow> nat \<Rightarrow> err + Update list" where
  "LongPoll cfg rounds baseline left = (case rounds of
     None \<Rightarrow> Inl (http_invalid ''httpcore: LongPollConfig.Round is required'')
   | Some rs \<Rightarrow> (case longpoll_times cfg of (hold, deadline, _) \<Rightarrow>
        Inr (snd (longpoll_loop ((case baseline of None \<Rightarrow> [] | Some b \<Rightarrow> [b]) @ rs hold deadline) (left, [])))))"

end
