(* ===== verification/HttpSafety.thy ===== *)
theory HttpSafety
  imports HttpCore
begin

text \<open>
  What \<open>HttpCore\<close> promises its providers: a request stays below the base URL and reaches the wire as it was written, a body is bounded, a conditional
  request gives what an unconditional one would, a token in use is not about to expire, a long poll delivers every outcome.
\<close>

subsection \<open>Escaping\<close>

lemma path_unescape_percent:
  "path_unescape (CHR ''%'' # s) = Some x \<longleftrightarrow>
   (\<exists>h l t i j y. s = h # l # t \<and> unhex h = Some i \<and> unhex l = Some j \<and> path_unescape t = Some y \<and> x = char_of (16 * i + j) # y)"
  by (auto split: list.splits option.splits)

lemma path_unescape_append: "path_unescape a = Some x \<Longrightarrow> path_unescape (a @ b) = map_option ((@) x) (path_unescape b)"
proof (induction a arbitrary: x rule: length_induct)
  case (1 a)
  show ?case
  proof (cases a)
    case Nil thus ?thesis using 1(2) by (simp add: option.map_ident)
  next
    case (Cons c s)
    show ?thesis
    proof (cases "c = CHR ''%''")
      case True
      then obtain h l t i j y where s: "s = h # l # t" "unhex h = Some i" "unhex l = Some j" "path_unescape t = Some y" "x = char_of (16 * i + j) # y"
        using 1(2) Cons path_unescape_percent by blast
      thus ?thesis using 1(1) Cons True by (auto simp: option.map_comp comp_def)
    next
      case False
      thus ?thesis using 1 Cons by (auto simp: option.map_comp comp_def)
    qed
  qed
qed

lemma unhex_slash: "unhex (CHR ''/'') = None"
  by code_simp

lemma path_unescape_slash_end: "path_unescape (a @ ''/'') = Some x \<Longrightarrow> \<exists>y. path_unescape a = Some y \<and> x = y @ ''/''"
proof (induction a arbitrary: x rule: length_induct)
  case (1 a)
  show ?case
  proof (cases a)
    case Nil thus ?thesis using 1(2) by auto
  next
    case (Cons c s)
    show ?thesis
    proof (cases "c = CHR ''%''")
      case True
      then obtain h l t i j y where s: "s @ ''/'' = h # l # t" "unhex h = Some i" "unhex l = Some j" "path_unescape t = Some y" "x = char_of (16 * i + j) # y"
        using 1(2) Cons by (auto simp: path_unescape_percent simp del: path_unescape.simps)
      from s(1-3) obtain t' where t: "s = h # l # t'" "t = t' @ ''/''" using unhex_slash
        by (cases s; cases "tl s") auto
      then obtain z where "path_unescape t' = Some z" "y = z @ ''/''" using 1(1) [rule_format, of t' y] Cons s(4) by auto
      thus ?thesis using s t Cons True by auto
    next
      case False
      then obtain z where "path_unescape (s @ ''/'') = Some z" "x = c # z" using 1(2) Cons by auto
      thus ?thesis using 1(1) [rule_format, of s z] Cons False by auto
    qed
  qed
qed

lemma unescape_escape_path: "path_unescape (escape_path s) = Some s"
  unfolding escape_path_def
  by (rule unescape_escape_with) (auto simp: path_char_def query_safe_def is_alpha_def is_digit_def code_def)

lemma unescape_EscapedPath: "path_unescape (EscapedPath u) = Some (u_Path u)"
  by (auto simp: EscapedPath_def unescape_escape_path)

subsection \<open>Segments\<close>

lemma path_fields_append: "is_sep c \<Longrightarrow> path_fields cur (x @ c # y) = path_fields cur x @ path_fields [] y"
  by (induction x arbitrary: cur) auto

lemma path_fields_sep: "is_sep c \<Longrightarrow> path_fields [] (c # y) = path_fields [] y"
  by simp

lemma is_sep_slash [simp]: "is_sep (CHR ''/'')"
  by (simp add: is_sep_def)

lemma hasDotSegment_join: "hasDotSegment (x @ CHR ''/'' # y) \<longleftrightarrow> hasDotSegment x \<or> hasDotSegment y"
  by (simp add: hasDotSegment_def path_fields_append)

lemma hasDotSegment_slash: "hasDotSegment (CHR ''/'' # y) = hasDotSegment y"
  by (simp add: hasDotSegment_def)

text \<open>The decoded forms of what \<open>joinPath\<close> puts together.\<close>

lemma unescape_trim_prefix:
  "path_unescape p = Some d \<Longrightarrow> \<exists>d'. path_unescape (trim_prefix ''/'' p) = Some d' \<and> (d = d' \<or> d = CHR ''/'' # d')"
  by (cases p) (auto simp: trim_prefix_def)

lemma trim_suffix_cases: "trim_suffix ''/'' b = b \<or> b = trim_suffix ''/'' b @ ''/''"
proof (cases "has_prefix (rev ''/'') (rev b)")
  case True
  then obtain t where "rev b = CHR ''/'' # t" by (auto simp: has_prefix_iff)
  hence "b = rev t @ ''/''" by (metis rev.simps(2) rev_rev_ident)
  thus ?thesis by (simp add: trim_suffix_def)
qed (simp add: trim_suffix_def)

lemma unescape_trim_suffix:
  assumes "path_unescape b = Some d"
  shows "\<exists>d'. path_unescape (trim_suffix ''/'' b) = Some d' \<and> (d = d' \<or> d = d' @ ''/'')"
  using trim_suffix_cases [of b] path_unescape_slash_end [of "trim_suffix ''/'' b" d] assms by metis

text \<open>The path that is asked for, below the path of the base.\<close>

lemma joinPath_decoded:
  assumes "path_unescape base = Some b" "path_unescape req = Some d"
  shows "\<exists>b' d'. (b = b' \<or> b = b' @ ''/'') \<and> (d = d' \<or> d = CHR ''/'' # d') \<and>
     path_unescape (joinPath base req) = Some (if req = [] then b else b' @ CHR ''/'' # d')"
proof -
  obtain d' where d: "path_unescape (trim_prefix ''/'' req) = Some d'" "d = d' \<or> d = CHR ''/'' # d'"
    using unescape_trim_prefix [OF assms(2)] by blast
  show ?thesis
  proof (cases "base = [] \<or> base = ''/''")
    case True
    thus ?thesis using assms d by (intro exI [of _ "[]"] exI [of _ d']) (auto simp: joinPath_def)
  next
    case False
    obtain b' where b: "path_unescape (trim_suffix ''/'' base) = Some b'" "b = b' \<or> b = b' @ ''/''"
      using unescape_trim_suffix [OF assms(1)] by blast
    show ?thesis using False assms(1) d b path_unescape_append [OF b(1), of "CHR ''/'' # trim_prefix ''/'' req"]
      by (intro exI [of _ b'] exI [of _ d']) (auto simp: joinPath_def)
  qed
qed

lemma setPath_Inr:
  assumes "setPath base req u = Inr v"
  shows "\<exists>d. path_unescape req = Some d \<and> \<not> hasDotSegment d \<and> path_unescape (joinPath base req) = Some (u_Path v) \<and>
     (validEncoded (joinPath base req) \<longrightarrow> EscapedPath v = joinPath base req)"
  using assms by (auto simp: setPath_def Let_def EscapedPath_def escape_path_def escape_with_def split: option.splits if_splits)

text \<open>
  A request cannot leave the part of the backend its client was made for. Whatever path a ref names, once the variables are put in and however it is escaped, the path that is sent is the path of the base URL
  with something below it, and in the decoded form of what is below there is no dot segment, with a backslash counted as a separator too; so it has none unless the base URL itself had. And the escapes the caller wrote are what goes to the wire, when the
  path is a valid encoding.
\<close>

lemma request_stays_below_base:
  assumes "setPath (EscapedPath base) req base = Inr v"
  shows "has_prefix (trim_suffix ''/'' (u_Path base)) (u_Path v) \<and> (hasDotSegment (u_Path v) \<longleftrightarrow> hasDotSegment (u_Path base)) \<and>
     path_unescape (EscapedPath v) = Some (u_Path v) \<and>
     (validEncoded (joinPath (EscapedPath base) req) \<longrightarrow> EscapedPath v = joinPath (EscapedPath base) req)"
proof -
  let ?b = "u_Path base" and ?pre = "trim_suffix ''/'' (u_Path base)"
  obtain d where d: "path_unescape req = Some d" "\<not> hasDotSegment d" "path_unescape (joinPath (EscapedPath base) req) = Some (u_Path v)"
    "validEncoded (joinPath (EscapedPath base) req) \<longrightarrow> EscapedPath v = joinPath (EscapedPath base) req"
    using setPath_Inr [OF assms] by blast
  obtain b' d' where j: "?b = b' \<or> ?b = b' @ ''/''" "d = d' \<or> d = CHR ''/'' # d'" "u_Path v = (if req = [] then ?b else b' @ CHR ''/'' # d')"
    using joinPath_decoded [OF unescape_EscapedPath d(1), of base] d(3) by auto
  have dots: "hasDotSegment ?b = hasDotSegment b'" "\<not> hasDotSegment d'"
    using j(1,2) d(2) hasDotSegment_join [of b' "[]"] hasDotSegment_slash by (auto simp: hasDotSegment_def)
  have pre: "has_prefix ?pre ?b" "has_prefix ?pre (b' @ CHR ''/'' # d')"
    using j(1) trim_suffix_cases [of ?b] by (auto simp: has_prefix_iff) (metis append_Cons append_Nil append_assoc append_same_eq)+
  show ?thesis using j(3) dots pre d(4) unescape_EscapedPath by (auto simp: hasDotSegment_join)
qed

text \<open>
  The escapes are not kept when the path is not a valid encoding in another respect: a blank next to an escaped slash makes the rendered URL fall back to escaping the decoded path, so the request names two segments where one was written.
\<close>

lemma escaped_slash_lost:
  "let base = \<lparr>u_Scheme = ''https'', u_User = None, u_Host = ''api'', u_Path = ''/kv'', u_RawPath = [], u_RawQuery = [], u_Fragment = []\<rparr>
   in map_sum id EscapedPath (setPath (EscapedPath base) ''a%2Fb'' base) = Inr ''/kv/a%2Fb'' \<and>
      map_sum id EscapedPath (setPath (EscapedPath base) ''a%2Fb c'' base) = Inr ''/kv/a/b%20c''"
  by code_simp

subsection \<open>Bodies and statuses\<close>

lemma limit_read_length: "limit_read n resp = Inr b \<Longrightarrow> 0 \<le> n \<Longrightarrow> int (length b) \<le> n"
  by (auto simp: limit_read_def split: if_splits option.splits)

lemma readBounded_exact:
  assumes "0 < mx" "mx < 2 ^ 63 - 1"
  shows "readBounded resp mx =
     (if int (length (hp_Body resp)) > mx then Inl (http_invalid ''response exceeds byte limit'')
      else (case hp_ReadErr resp of Some e \<Rightarrow> Inl (Errorf ''reading response'' [Sentinel ErrUnavailable, e]) | None \<Rightarrow> Inr (hp_Body resp)))"
proof -
  have "wrap64 (mx + 1) = mx + 1" using assms by (intro wrap64_id) simp_all
  thus ?thesis using assms by (auto simp: readBounded_def limit_read_def split: option.split)
qed

text \<open>A body that is handed on is within the ceiling, and never cut short to fit.\<close>

lemma Do_body_bounded:
  assumes "Do ok send c r = Inr out" "0 < cl_maxBody c" "cl_maxBody c < 2 ^ 63 - 1" "\<not> rp_NotModified out"
  shows "int (length (rp_Body out)) \<le> cl_maxBody c \<and> (\<exists>q resp. send q = Inr resp \<and> rp_Body out = hp_Body resp)"
  using assms readBounded_exact [OF assms(2,3)]
  by (auto simp: Do_def Let_def split: sum.splits option.splits if_splits) blast

text \<open>
  A ceiling of the largest integer, the way to say that there is none, loses the body: the limit one beyond it wraps around to a negative number, at which nothing is
  read, and every successful response is handed on empty, with no error.
\<close>

lemma largest_ceiling_loses_body:
  assumes "cl_maxBody c = 2 ^ 63 - 1" "build ok c r = Inr q" "send q = Inr resp" "hp_Status resp = 200"
  shows "\<exists>out. Do ok send c r = Inr out \<and> rp_Body out = [] \<and> \<not> rp_NotModified out"
  using assms by (simp add: Do_def classify_def readBounded_def limit_read_def wrap64_def)

lemma classify_StatusForKind:
  "k \<in> fst ` set kindSentinels \<Longrightarrow> \<exists>e. classify (StatusForKind k) d = Some e \<and> ErrorKind (Some e) = k"
  by (auto simp: kindSentinels_def classify_def StatusForKind_def http_sentinel_def ErrorKind_def)

text \<open>Adding the sentinel for credentials replaces no classification the authenticator made.\<close>

lemma authError_kind: "ErrorKind (Some (authError e)) = (if ErrorKind (Some e) = KindUnknown then KindUnauthenticated else ErrorKind (Some e))"
  by (auto simp: authError_def ErrorKind_def kindSentinels_def split: if_splits)

lemma redactURL_noninterference:
  "u\<lparr>u_RawQuery := [], u_User := None\<rparr> = v\<lparr>u_RawQuery := [], u_User := None\<rparr> \<Longrightarrow> redactURLWith render u f = redactURLWith render v f"
  by (cases u; cases v) (simp add: redactURLWith_def EscapedPath_def Let_def split: option.split)

subsection \<open>Revalidated responses\<close>

text \<open>
  A backend that keeps to the rules of conditional requests: for a version, with its validators and body, it answers 304, with validators or without, when the request's entity tag is the version's, or when
  the request has none and its date is the version's; otherwise the whole of it.
\<close>

type_synonym version = "string \<times> string \<times> bytes"

definition matched :: "version \<Rightarrow> Request \<Rightarrow> bool" where
  "matched v r = (case v of (et, lm, _) \<Rightarrow>
     if rq_IfNoneMatch r \<noteq> [] then rq_IfNoneMatch r = et else rq_IfModifiedSince r \<noteq> [] \<and> rq_IfModifiedSince r = lm)"

definition full :: "version \<Rightarrow> Response" where
  "full v = (case v of (et, lm, b) \<Rightarrow> \<lparr>rp_Status = 200, rp_Body = b, rp_ETag = et, rp_LastModified = lm, rp_NotModified = False\<rparr>)"

definition honest :: "version \<Rightarrow> (Request \<Rightarrow> err + Response) \<Rightarrow> bool" where
  "honest v get \<longleftrightarrow> (\<forall>r. if matched v r then (\<exists>x y. get r = Inr \<lparr>rp_Status = 304, rp_Body = [], rp_ETag = x, rp_LastModified = y, rp_NotModified = True\<rparr>)
                          else get r = Inr (full v))"

text \<open>The validators tell the versions of a key apart.\<close>

definition same_validator :: "version \<Rightarrow> version \<Rightarrow> bool" where
  "same_validator v w = (if fst v \<noteq> [] then fst v = fst w else fst (snd v) \<noteq> [] \<and> fst (snd v) = fst (snd w))"

definition identified :: "version set \<Rightarrow> bool" where
  "identified V \<longleftrightarrow> (\<forall>v\<in>V. \<forall>w\<in>V. same_validator v w \<longrightarrow> v = w)"

definition entry_version :: "revalEntry \<Rightarrow> version" where
  "entry_version e = (re_etag e, re_lastModified e, re_body e)"

definition rv_ok :: "(string \<Rightarrow> version set) \<Rightarrow> Revalidator \<Rightarrow> bool" where
  "rv_ok V rv \<longleftrightarrow> 0 < rv_maxEntries rv \<and> int (length (rv_lru rv)) \<le> rv_maxEntries rv \<and> distinct (map re_key (rv_lru rv)) \<and>
     (\<forall>e\<in>set (rv_lru rv). entry_version e \<in> V (re_key e) \<and> (re_etag e \<noteq> [] \<or> re_lastModified e \<noteq> []))"

lemma NewRevalidator_ok: "rv_ok V (NewRevalidator n)"
  by (simp add: rv_ok_def NewRevalidator_def DefaultRevalidatorEntries_def)

lemma rv_find_SomeD: "rv_find key rv = Some e \<Longrightarrow> e \<in> set (rv_lru rv) \<and> re_key e = key"
  by (auto simp: rv_find_def find_Some_iff)

lemma rv_without_length: "e \<in> set (rv_lru rv) \<Longrightarrow> re_key e = key \<Longrightarrow> length (rv_without key rv) < length (rv_lru rv)"
  unfolding rv_without_def by (rule length_filter_less) auto

lemma rv_without_distinct: "rv_ok V rv \<Longrightarrow> distinct (map re_key (rv_without key rv)) \<and> key \<notin> re_key ` set (rv_without key rv)"
  by (auto simp: rv_ok_def rv_without_def distinct_map_filter)

lemma rv_without_le: "rv_ok V rv \<Longrightarrow> int (length (rv_without key rv)) \<le> rv_maxEntries rv"
  using length_filter_le [of "\<lambda>e. re_key e \<noteq> key" "rv_lru rv"] unfolding rv_ok_def rv_without_def by linarith

lemma rv_drop_ok: "rv_ok V rv \<Longrightarrow> rv_ok V (rv_drop key rv)"
  using rv_without_distinct [of V rv key] rv_without_le [of V rv key] by (auto simp: rv_ok_def rv_drop_def) (auto simp: rv_without_def)

text \<open>Putting an entry in front in the place of the one of its key.\<close>

lemma rv_front_ok:
  assumes "rv_ok V rv" "rv_find key rv \<noteq> None" "re_key e = key" "entry_version e \<in> V key" "re_etag e \<noteq> [] \<or> re_lastModified e \<noteq> []"
  shows "rv_ok V (rv\<lparr>rv_lru := e # rv_without key rv\<rparr>)"
proof -
  obtain e' where e': "e' \<in> set (rv_lru rv)" "re_key e' = key" using assms(2) rv_find_SomeD by blast
  show ?thesis using assms rv_without_length [OF e'] rv_without_distinct [OF assms(1), of key]
    by (auto simp: rv_ok_def rv_without_def)
qed

lemma rv_touch_ok:
  assumes "rv_ok V rv"
  shows "rv_ok V (snd (rv_touch key rv))"
proof (cases "rv_find key rv")
  case (Some e)
  thus ?thesis using rv_front_ok [OF assms, of key e] rv_find_SomeD [OF Some] assms by (auto simp: rv_touch_def rv_ok_def)
qed (use assms in \<open>simp add: rv_touch_def\<close>)

lemma rv_store_ok:
  assumes "rv_ok V rv" "(rp_ETag resp, rp_LastModified resp, rp_Body resp) \<in> V key"
  shows "rv_ok V (rv_store key resp rv)"
proof (cases "rp_ETag resp = [] \<and> rp_LastModified resp = []")
  case True
  thus ?thesis using rv_drop_ok [OF assms(1)] by (simp add: rv_store_def)
next
  case False
  let ?e = "\<lparr>re_key = key, re_etag = rp_ETag resp, re_lastModified = rp_LastModified resp, re_body = rp_Body resp\<rparr>"
  show ?thesis
  proof (cases "rv_find key rv")
    case (Some e')
    thus ?thesis using rv_front_ok [OF assms(1), of key ?e] assms(2) False by (auto simp: rv_store_def entry_version_def)
  next
    case None
    hence "key \<notin> re_key ` set (rv_lru rv)" by (auto simp: rv_find_def find_None_iff)
    moreover obtain m where "nat (rv_maxEntries rv) = Suc m" using assms(1) by (cases "nat (rv_maxEntries rv)") (auto simp: rv_ok_def)
    moreover have "distinct (map re_key (take m (rv_lru rv)))" using assms(1) by (metis distinct_take rv_ok_def take_map)
    moreover have "set (take m (rv_lru rv)) \<subseteq> set (rv_lru rv)" by (rule set_take_subset)
    ultimately show ?thesis using None False assms by (auto simp: rv_store_def rv_ok_def entry_version_def)
  qed
qed


text \<open>The entry of a key is not replaced by other calls, though it may be evicted.\<close>

definition evicts_only :: "(string \<Rightarrow> version set) \<Rightarrow> string \<Rightarrow> (Revalidator \<Rightarrow> Revalidator) \<Rightarrow> bool" where
  "evicts_only V key other \<longleftrightarrow> (\<forall>rv. rv_ok V rv \<longrightarrow> rv_ok V (other rv) \<and> rv_find key (other rv) \<in> {None, rv_find key rv})"

lemma rv_touch_find: "fst (rv_touch key rv) = rv_find key rv" "rv_find key (snd (rv_touch key rv)) = rv_find key rv"
proof -
  show "fst (rv_touch key rv) = rv_find key rv" by (simp add: rv_touch_def split: option.split)
  show "rv_find key (snd (rv_touch key rv)) = rv_find key rv"
  proof (cases "rv_find key rv")
    case (Some e)
    thus ?thesis using rv_find_SomeD [OF Some] by (simp add: rv_touch_def) (simp add: rv_find_def)
  qed (simp add: rv_touch_def)
qed

lemma honest_full: "honest v get \<Longrightarrow> get r = Inr resp \<Longrightarrow> \<not> rp_NotModified resp \<Longrightarrow> resp = full v"
  unfolding honest_def by (metis Response.select_convs(5) Inr_inject)

lemma honest_unconditional: "honest v get \<Longrightarrow> rq_IfNoneMatch r = [] \<Longrightarrow> rq_IfModifiedSince r = [] \<Longrightarrow> get r = Inr (full v)"
  unfolding honest_def matched_def by (auto split: prod.splits)

text \<open>A match on the validators of an entry means that the entry is the current version.\<close>

lemma matched_entry:
  assumes "rv_ok V rv" "rv_find key rv = Some e" "identified (V key)" "v \<in> V key" "matched v (conditional (Some e) r)"
    "rq_IfNoneMatch r = []" "rq_IfModifiedSince r = []"
  shows "entry_version e = v"
proof -
  have e: "entry_version e \<in> V key" "re_etag e \<noteq> [] \<or> re_lastModified e \<noteq> []"
    using rv_find_SomeD [OF assms(2)] assms(1) by (auto simp: rv_ok_def)
  have "same_validator (entry_version e) v"
    using assms(5-7) by (auto simp: matched_def conditional_def same_validator_def entry_version_def split: if_splits prod.splits)
  thus ?thesis using assms(3,4) e(1) unfolding identified_def by blast
qed

text \<open>
  C31. A conditional request is no worse than an unconditional one. Against a backend that keeps to the rules, whatever its present version and whatever the cache holds of its earlier ones, with other calls evicting entries meanwhile, a call returns the
  body and the validators of the present version, be it from the cache, so that an unmodified value is never taken for a changed one or an empty one; and the cache stays within its bound.
\<close>

theorem revalidated_is_current:
  assumes "rv_ok V rv" "identified (V key)" "v \<in> V key" "honest v (get 0)" "honest v (get 1)" "evicts_only V key other"
    "rq_IfNoneMatch r = []" "rq_IfModifiedSince r = []"
  shows "\<exists>resp rv'. Reval_Get get other key r rv = (Inr resp, rv') \<and> (rp_ETag resp, rp_LastModified resp, rp_Body resp) = v \<and>
     http_Version (Some resp) (rp_Body resp) = http_Version (Some (full v)) (rp_Body (full v)) \<and> rv_ok V rv'"
proof -
  obtain et lm b where v: "v = (et, lm, b)" by (cases v)
  have fv: "(rp_ETag (full v), rp_LastModified (full v), rp_Body (full v)) = v" "\<not> rp_NotModified (full v)" by (simp_all add: full_def v)
  let ?eo = "rv_find key rv"
  let ?r1 = "conditional ?eo r"
  obtain rv1 where touch: "rv_touch key rv = (?eo, rv1)" using rv_touch_find(1) [of key rv] by (metis prod.collapse)
  have ok1: "rv_ok V (other rv1)" and find1: "rv_find key (other rv1) \<in> {None, ?eo}"
    using assms(6) rv_touch_ok [OF assms(1), of key] rv_touch_find(2) [of key rv] touch unfolding evicts_only_def by auto
  show ?thesis
  proof (cases "matched v ?r1")
    case False
    hence "get 0 ?r1 = Inr (full v)" using assms(4) unfolding honest_def by auto
    thus ?thesis using touch fv rv_store_ok [OF ok1, of "full v" key] assms(3) by (auto simp: Reval_Get_def)
  next
    case True
    then obtain x y where g: "get 0 ?r1 = Inr \<lparr>rp_Status = 304, rp_Body = [], rp_ETag = x, rp_LastModified = y, rp_NotModified = True\<rparr>"
      using assms(4) unfolding honest_def by presburger
    from True assms(7,8) obtain e where e: "?eo = Some e" by (cases ?eo) (auto simp: matched_def conditional_def split: prod.splits)
    hence cur: "entry_version e = v" using matched_entry [OF assms(1) e assms(2,3) _ assms(7,8)] True by simp
    show ?thesis
    proof (cases "rv_find key (other rv1)")
      case None
      hence "rv_touch key (other rv1) = (None, other rv1)" by (simp add: rv_touch_def)
      moreover have "get 1 (?r1\<lparr>rq_IfNoneMatch := [], rq_IfModifiedSince := []\<rparr>) = Inr (full v)" by (rule honest_unconditional [OF assms(5)]) simp_all
      ultimately show ?thesis using touch g fv rv_store_ok [OF ok1, of "full v" key] assms(3) by (simp add: Reval_Get_def rv_retry_def)
    next
      case (Some e')
      hence "fst (rv_touch key (other rv1)) = Some e" using find1 e rv_touch_find(1) [of key "other rv1"] by simp
      then obtain rv2 where "rv_touch key (other rv1) = (Some e, rv2)" by (metis prod.collapse)
      moreover from this have "rv_ok V rv2" using rv_touch_ok [OF ok1, of key] by simp
      ultimately show ?thesis using touch g cur v by (simp add: Reval_Get_def entry_version_def http_Version_def full_def)
    qed
  qed
qed

definition demo_url :: url where
  "demo_url = \<lparr>u_Scheme = ''https'', u_User = None, u_Host = ''api'', u_Path = ''/kv/'', u_RawPath = [], u_RawQuery = [], u_Fragment = []\<rparr>"

definition demo_request :: Request where
  "demo_request = \<lparr>rq_Method = [], rq_Path = ''/a%2Fb'', rq_Query = [], rq_Headers = [], rq_Body = [], rq_IfNoneMatch = [], rq_IfModifiedSince = []\<rparr>"

lemma request_stays_below_base_witness:
  "\<exists>v. setPath (EscapedPath demo_url) ''/a%2Fb'' demo_url = Inr v \<and> has_prefix ''/kv'' (u_Path v) \<and> EscapedPath v = ''/kv/a%2Fb''"
proof -
  let ?res = "setPath (EscapedPath demo_url) ''/a%2Fb'' demo_url"
  have "\<not> isl ?res" and join: "joinPath (EscapedPath demo_url) ''/a%2Fb'' = ''/kv/a%2Fb''" "validEncoded ''/kv/a%2Fb''" "trim_suffix ''/'' (u_Path demo_url) = ''/kv''"
    by code_simp+
  then obtain v where "?res = Inr v" by (cases ?res) auto
  thus ?thesis using request_stays_below_base [of demo_url "''/a%2Fb''" v] join by auto
qed

lemma largest_ceiling_loses_body_witness:
  "let c = \<lparr>cl_base = demo_url, cl_auth = None, cl_maxBody = 2 ^ 63 - 1, cl_userAgent = [], cl_errorDetail = None, cl_redactPath = None\<rparr>;
       send = (\<lambda>_. Inr \<lparr>hp_Status = 200, hp_ETag = [], hp_LastModified = [], hp_Body = ''secret'', hp_ReadErr = None\<rparr>)
   in \<exists>out. Do (\<lambda>_ _. True) send c demo_request = Inr out \<and> rp_Body out = []"
proof -
  let ?c = "\<lparr>cl_base = demo_url, cl_auth = None, cl_maxBody = 2 ^ 63 - 1, cl_userAgent = [], cl_errorDetail = None, cl_redactPath = None\<rparr>"
  let ?resp = "\<lparr>hp_Status = 200, hp_ETag = [], hp_LastModified = [], hp_Body = ''secret'', hp_ReadErr = None\<rparr>"
  have "\<not> isl (build (\<lambda>_ _. True) ?c demo_request)" by code_simp
  then obtain q where "build (\<lambda>_ _. True) ?c demo_request = Inr q" by (cases "build (\<lambda>_ _. True) ?c demo_request") auto
  thus ?thesis using largest_ceiling_loses_body [of ?c "\<lambda>_ _. True" demo_request q "\<lambda>_. Inr ?resp" ?resp] by (auto simp: Let_def)
qed

lemma revalidated_is_current_witness:
  "let v = (''e1'', [], ''x''); e = \<lparr>re_key = ''k'', re_etag = ''e1'', re_lastModified = [], re_body = ''x''\<rparr>;
       get = (\<lambda>_ r. if matched v r then Inr \<lparr>rp_Status = 304, rp_Body = [], rp_ETag = [], rp_LastModified = [], rp_NotModified = True\<rparr> else Inr (full v))
   in \<exists>resp rv'. Reval_Get get id ''k'' demo_request \<lparr>rv_maxEntries = 2, rv_lru = [e]\<rparr> = (Inr resp, rv') \<and>
        (rp_ETag resp, rp_LastModified resp, rp_Body resp) = (''e1'', [], ''x'')"
proof -
  let ?v = "(''e1'', [], ''x'') :: version" and ?e = "\<lparr>re_key = ''k'', re_etag = ''e1'', re_lastModified = [], re_body = ''x''\<rparr>"
  let ?get = "\<lambda>_::nat. \<lambda>r. if matched ?v r then Inr \<lparr>rp_Status = 304, rp_Body = [], rp_ETag = [], rp_LastModified = [], rp_NotModified = True\<rparr> else Inr (full ?v)"
  let ?rv = "\<lparr>rv_maxEntries = 2, rv_lru = [?e]\<rparr>"
  have "rv_ok (\<lambda>_. {?v}) ?rv" by (simp add: rv_ok_def entry_version_def)
  moreover have "honest ?v (?get i)" for i by (simp add: honest_def)
  moreover have "evicts_only (\<lambda>_. {?v}) ''k'' id" by (simp add: evicts_only_def)
  moreover have "identified {?v}" by (simp add: identified_def)
  ultimately have "\<exists>resp rv'. Reval_Get ?get id ''k'' demo_request ?rv = (Inr resp, rv') \<and> (rp_ETag resp, rp_LastModified resp, rp_Body resp) = ?v \<and>
     http_Version (Some resp) (rp_Body resp) = http_Version (Some (full ?v)) (rp_Body (full ?v)) \<and> rv_ok (\<lambda>_. {?v}) rv'"
    by (intro revalidated_is_current) (simp_all add: demo_request_def)
  thus ?thesis unfolding Let_def by blast
qed

subsection \<open>Tokens\<close>

lemma wrap64_le: "0 \<le> x \<Longrightarrow> wrap64 x \<le> x"
  using zmod_le_nonneg_dividend [of "x + 2 ^ 63" "2 ^ 64"] by (simp add: wrap64_def)

text \<open>
  A token that is handed out of the cache does not expire within the leeway: the expiry kept for it is never later than the one the server stated, the wrap-around of a lifetime too long
  for a duration included, and it is compared with the leeway added.
\<close>

lemma token_not_expiring:
  assumes "exchange dec leeway t0 (Inr resp) = Inr (tok, expires)" "dec (rp_Body resp) = Some tr" "0 < tr_ExpiresIn tr"
    "a' = tokenFor_settle (Inr (tok, expires)) a" "tokenFor_enter now fresh a' = (Have tok', a'')"
  shows "tok' = tok \<and> now + oa_leeway a < t0 + tr_ExpiresIn tr * 1000000000"
  using assms wrap64_le [of "tr_ExpiresIn tr * 1000000000"]
  by (auto simp: exchange_def tokenFor_settle_def tokenFor_enter_def split: if_splits)

text \<open>Callers share one exchange: the exchanges under way, as callers come and exchanges settle.\<close>

inductive token_run :: "oauth2Auth \<times> nat set \<Rightarrow> oauth2Auth \<times> nat set \<Rightarrow> bool" where
  enter: "tokenFor_enter now fresh a = (res, a') \<Longrightarrow> token_run (a, R) (a', if res = Begin fresh then insert fresh R else R)"
| settle: "f \<in> R \<Longrightarrow> token_run (a, R) (tokenFor_settle res a, R - {f})"

lemma single_flight:
  assumes "token_run\<^sup>*\<^sup>* (a0, {}) s" "oa_inflight a0 = None"
  shows "snd s = set_option (oa_inflight (fst s))"
  using assms(1)
proof (induction rule: rtranclp_induct)
  case (step s t)
  from step(2,3) show ?case
    by (induction rule: token_run.induct)
       (auto simp: tokenFor_enter_def tokenFor_settle_def split: option.splits if_splits sum.splits)
qed (simp add: assms(2))

subsection \<open>Long polls\<close>

definition poll_updates :: "(err + LongPollResult) list \<Rightarrow> Update list" where
  "poll_updates rs = concat (map (\<lambda>res. case res of Inl e \<Rightarrow> [update_err e]
     | Inr r \<Rightarrow> if lp_Changed r then [\<lparr>u_Value = lp_Value r, u_Err = None\<rparr>] else []) rs)"

text \<open>While the context lasts every change and every failure is delivered, in order and once, and nothing else.\<close>

lemma longpoll_delivers_all:
  "length (poll_updates rs) < left \<Longrightarrow> longpoll_loop rs (left, out) = (left - length (poll_updates rs), out @ poll_updates rs)"
  by (induction rs arbitrary: left out) (auto simp: poll_updates_def longpoll_deliver_def split: sum.splits)

end
