(* ===== verification/Bitwarden.thy ===== *)
theory Bitwarden
  imports HttpSafety
begin

text \<open>
  \<^verbatim>\<open>providers/bitwarden\<close>: the provider for Bitwarden Secrets Manager, which opens what the service returns on the client. \<^verbatim>\<open>crypto.go\<close>: keys, the \<^verbatim>\<open>EncString\<close> format and its opening;
  \<^verbatim>\<open>token.go\<close>: access tokens; \<^verbatim>\<open>session.go\<close>: the exchange of an access token for a bearer token and the organization's key, and their cache; \<^verbatim>\<open>resolve.go\<close>: the read;
  \<^verbatim>\<open>bitwarden.go\<close>: options, construction and \<^verbatim>\<open>Close\<close>.

  HMAC, AES in CBC mode, the two steps of HKDF, the JSON decoders, \<^verbatim>\<open>url.Parse\<close> and the transport are arguments. Wiping a buffer leaves no trace in the values of the model, where a key is the
  bytes that its two closures read.
\<close>

unbundle bit_operations_syntax

record bwPrims =
  bp_hmac :: "bytes \<Rightarrow> bytes \<Rightarrow> bytes"
  bp_cbcDecrypt :: "bytes \<Rightarrow> bytes \<Rightarrow> bytes \<Rightarrow> bytes"
  bp_extract :: "bytes \<Rightarrow> bytes \<Rightarrow> err + bytes"
  bp_expand :: "bytes \<Rightarrow> string \<Rightarrow> nat \<Rightarrow> err + bytes"

subsection \<open>Keys\<close>

definition encTypeAesCbc256B64 :: string where "encTypeAesCbc256B64 = ''0''"
definition encTypeAesCbc256HmacSha256B64 :: string where "encTypeAesCbc256HmacSha256B64 = ''2''"
definition encTypeCoseEncrypt0B64 :: string where "encTypeCoseEncrypt0B64 = ''7''"

definition blockSize :: nat where "blockSize = 16"
definition ivSize :: nat where "ivSize = blockSize"
definition macSize :: nat where "macSize = 32"
definition encKeySize :: nat where "encKeySize = 32"
definition macKeySize :: nat where "macKeySize = 32"
definition symKeySize :: nat where "symKeySize = encKeySize + macKeySize"

lemmas bw_sizes = blockSize_def ivSize_def macSize_def encKeySize_def macKeySize_def symKeySize_def

text \<open>The zero value of a key, with no closures, is \<^const>\<open>None\<close>.\<close>

record symKey =
  sk_buf :: "bytes option"

definition zero_symKey :: symKey where "zero_symKey = \<lparr>sk_buf = None\<rparr>"
definition sk_enc :: "symKey \<Rightarrow> bytes" where "sk_enc k = take encKeySize (the (sk_buf k))"
definition sk_mac :: "symKey \<Rightarrow> bytes" where "sk_mac k = drop encKeySize (the (sk_buf k))"
definition key_valid :: "symKey \<Rightarrow> bool" where "key_valid k \<longleftrightarrow> sk_buf k \<noteq> None"

definition newSymKey :: "bytes \<Rightarrow> err + symKey" where
  "newSymKey material = (if length material \<noteq> symKeySize then Inl (http_invalid ''bitwarden: symmetric key has the wrong size'')
     else Inr \<lparr>sk_buf = Some material\<rparr>)"

definition deriveShareableKey :: "bwPrims \<Rightarrow> bytes \<Rightarrow> string \<Rightarrow> string \<Rightarrow> err + symKey" where
  "deriveShareableKey P secret name info = (case bp_extract P secret (''bitwarden-'' @ name) of
     Inl e \<Rightarrow> Inl (Errorf ''bitwarden: key derivation failed at HKDF-Extract'' [Sentinel ErrInvalid, e])
   | Inr prk \<Rightarrow> (case bp_expand P prk info symKeySize of
       Inl e \<Rightarrow> Inl (Errorf ''bitwarden: key derivation failed at HKDF-Expand'' [Sentinel ErrInvalid, e])
     | Inr material \<Rightarrow> newSymKey material))"

definition deriveAccessTokenKey :: "bwPrims \<Rightarrow> bytes \<Rightarrow> err + symKey" where
  "deriveAccessTokenKey P secret = deriveShareableKey P secret ''accesstoken'' ''sm-access-token''"

subsection \<open>Ciphertexts\<close>

record encString =
  es_iv :: bytes
  es_data :: bytes
  es_mac :: bytes

definition decodeFixed :: "string \<Rightarrow> nat \<Rightarrow> err + bytes" where
  "decodeFixed s want = (case b64_decode b64_std_val s of
     None \<Rightarrow> Inl (http_invalid ''bitwarden: EncString part is not valid base64'')
   | Some b \<Rightarrow> if length b \<noteq> want then Inl (http_invalid ''bitwarden: EncString part has the wrong size'') else Inr b)"

definition parse_parts :: "string list \<Rightarrow> err + encString" where
  "parse_parts parts =
     (if length parts \<noteq> 3 then Inl (http_invalid ''bitwarden: type 2 EncString needs three parts'')
      else (case decodeFixed (parts ! 0) ivSize of Inl e \<Rightarrow> Inl e
      | Inr iv \<Rightarrow> (case decodeFixed (parts ! 2) macSize of Inl e \<Rightarrow> Inl e
      | Inr mac \<Rightarrow> (case b64_decode b64_std_val (parts ! 1) of
           None \<Rightarrow> Inl (http_invalid ''bitwarden: EncString data is not valid base64'')
         | Some d \<Rightarrow>
            if d = [] \<or> length d mod blockSize \<noteq> 0 then Inl (http_invalid ''bitwarden: EncString data is not a whole number of blocks'')
            else Inr \<lparr>es_iv = iv, es_data = d, es_mac = mac\<rparr>))))"

definition parseEncString :: "string \<Rightarrow> err + encString" where
  "parseEncString s = (case cut CHR ''.'' s of
     None \<Rightarrow> Inl (http_invalid ''bitwarden: ciphertext carries no EncString type prefix'')
   | Some (encType, rest) \<Rightarrow>
      if encType = encTypeAesCbc256HmacSha256B64 then parse_parts (split_on CHR ''|'' rest)
      else if encType = encTypeAesCbc256B64 then Inl (http_invalid ''bitwarden: ciphertext is EncString type 0'')
      else if encType = encTypeCoseEncrypt0B64 then Inl (Errorf ''bitwarden: ciphertext is EncString type 7'' [Sentinel ErrUnavailable])
      else Inl (http_invalid ''bitwarden: unsupported EncString type''))"

definition errBadPadding :: err where "errBadPadding = http_invalid ''bitwarden: decrypted buffer has invalid PKCS#7 padding''"

definition byte_word :: "char \<Rightarrow> 8 word" where "byte_word c = word_of_nat (code c)"

definition pad_diff :: "nat \<Rightarrow> bytes \<Rightarrow> 8 word" where
  "pad_diff padLen = foldl (\<lambda>diff c. diff OR (byte_word c XOR word_of_nat padLen)) 0"

definition unpadPKCS7 :: "bytes \<Rightarrow> err + bytes" where
  "unpadPKCS7 b =
     (if b = [] \<or> length b mod blockSize \<noteq> 0 then Inl (http_invalid ''bitwarden: decrypted buffer is not a whole number of AES blocks'')
      else (let padLen = code (last b) in
        if padLen = 0 \<or> padLen > blockSize \<or> padLen > length b then Inl errBadPadding
        else if pad_diff padLen (drop (length b - padLen) b) \<noteq> 0 then Inl errBadPadding
        else Inr (take (length b - padLen) b)))"

text \<open>\<^verbatim>\<open>aes.NewCipher\<close> accepts keys of three sizes.\<close>

definition decrypt :: "bwPrims \<Rightarrow> symKey \<Rightarrow> encString \<Rightarrow> err + bytes" where
  "decrypt P k c =
     (if \<not> key_valid k then Inl (http_invalid ''bitwarden: decryption key is not initialized'')
      else if bp_hmac P (sk_mac k) (es_iv c @ es_data c) \<noteq> es_mac c then Inl (http_invalid ''bitwarden: ciphertext failed its HMAC-SHA256 integrity check'')
      else if length (sk_enc k) \<notin> {16, 24, 32} then Inl (Errorf ''bitwarden: AES-256 cipher'' [Sentinel ErrInvalid, Opaque ''crypto/aes: invalid key size''])
      else unpadPKCS7 (bp_cbcDecrypt P (sk_enc k) (es_iv c) (es_data c)))"

subsection \<open>Access tokens\<close>

definition isUUID :: "string \<Rightarrow> bool" where
  "isUUID s \<longleftrightarrow> length s = 36 \<and>
     list_all (\<lambda>(i, c). if i \<in> {8, 13, 18, 23} then c = CHR ''-'' else unhex c \<noteq> None) (zip [0 ..< length s] s)"

record accessToken =
  at_id :: string
  at_clientSecret :: string
  at_key :: symKey

definition parseAccessToken :: "bwPrims \<Rightarrow> string \<Rightarrow> err + accessToken" where
  "parseAccessToken P raw0 = (let raw = trim_space raw0 in
     if raw = [] then Inl (http_invalid ''bitwarden: access token is empty'')
     else (case cut CHR '':'' raw of
        None \<Rightarrow> Inl (http_invalid ''bitwarden: access token carries no key'')
      | Some (head, keyB64) \<Rightarrow> (let parts = split_on CHR ''.'' head in
          if length parts \<noteq> 3 then Inl (http_invalid ''bitwarden: access token needs three parts'')
          else if parts ! 0 \<noteq> ''0'' then Inl (http_invalid ''bitwarden: access token version'')
          else if \<not> isUUID (parts ! 1) then Inl (http_invalid ''bitwarden: access token identifier is not a UUID'')
          else if parts ! 2 = [] then Inl (http_invalid ''bitwarden: access token carries an empty client secret'')
          else (case b64_decode b64_std_val keyB64 of
             None \<Rightarrow> Inl (http_invalid ''bitwarden: access token encryption key is not valid base64'')
           | Some secret \<Rightarrow>
               if length secret \<noteq> 16 then Inl (http_invalid ''bitwarden: access token encryption key has the wrong size'')
               else (case deriveAccessTokenKey P secret of Inl e \<Rightarrow> Inl e
                 | Inr key \<Rightarrow> Inr \<lparr>at_id = parts ! 1, at_clientSecret = parts ! 2, at_key = key\<rparr>)))))"

subsection \<open>Sessions\<close>

record identityResponse =
  ir_AccessToken :: string
  ir_ExpiresIn :: int
  ir_EncryptedPayload :: string

record secretResponse =
  sr_Value :: string
  sr_RevisionDate :: string

record bwEnv =
  be_prims :: bwPrims
  be_Getenv :: "string \<Rightarrow> string"
  be_Parse :: "string \<Rightarrow> url option"
  be_ok :: "string \<Rightarrow> url \<Rightarrow> bool"
  be_json :: json_codec
  be_identityJSON :: "bytes \<Rightarrow> identityResponse option"
  be_claimsJSON :: "bytes \<Rightarrow> string option"
  be_secretJSON :: "bytes \<Rightarrow> secretResponse option"
  be_errorJSON :: "bytes \<Rightarrow> string option"

text \<open>The access token is read anew for every exchange: \<open>ss_accessTok\<close> is the token given by an option, and the environment is asked when there is none.\<close>

record bwSession =
  ss_client :: httpClient
  ss_accessTok :: "string option"
  ss_leeway :: duration
  ss_cached :: "string option"
  ss_orgKey :: symKey
  ss_expiresAt :: instant
  ss_inflight :: "nat option"

definition ss_readToken :: "bwEnv \<Rightarrow> bwSession \<Rightarrow> string" where
  "ss_readToken B s = (case ss_accessTok s of Some t \<Rightarrow> t | None \<Rightarrow> be_Getenv B ''BWS_ACCESS_TOKEN'')"

definition unwrapOrgKey :: "bwEnv \<Rightarrow> symKey \<Rightarrow> string \<Rightarrow> err + symKey" where
  "unwrapOrgKey B tokenKey payload = (case parseEncString payload of
     Inl e \<Rightarrow> Inl (Errorf ''bitwarden: identity encrypted_payload'' [e])
   | Inr enc \<Rightarrow> (case decrypt (be_prims B) tokenKey enc of
       Inl e \<Rightarrow> Inl (Errorf ''bitwarden: decrypting the identity encrypted_payload failed'' [e])
     | Inr plaintext \<Rightarrow> (case be_claimsJSON B plaintext of
         None \<Rightarrow> Inl (http_invalid ''bitwarden: decrypted identity payload is not JSON'')
       | Some encryptionKey \<Rightarrow>
           if encryptionKey = [] then Inl (http_invalid ''bitwarden: decrypted identity payload carried no encryptionKey'')
           else (case b64_decode b64_std_val encryptionKey of
              None \<Rightarrow> Inl (http_invalid ''bitwarden: organization key is not valid base64'')
            | Some raw \<Rightarrow> newSymKey raw))))"

definition identity_request :: "accessToken \<Rightarrow> Request" where
  "identity_request tok = \<lparr>rq_Method = ''POST'', rq_Path = ''connect/token'', rq_Query = [],
     rq_Headers = [(''Content-Type'', ''application/x-www-form-urlencoded''), (''Accept'', ''application/json''), (''Device-Type'', ''21'')],
     rq_Body = values_encode [(''grant_type'', [''client_credentials'']), (''scope'', [''api.secrets'']), (''client_id'', [at_id tok]),
       (''client_secret'', [at_clientSecret tok])], rq_IfNoneMatch = [], rq_IfModifiedSince = []\<rparr>"

text \<open>What an exchange makes of the answer of the identity endpoint, at the instant the answer is there.\<close>

definition identity_answer :: "bwEnv \<Rightarrow> duration \<Rightarrow> accessToken \<Rightarrow> instant \<Rightarrow> err + Response \<Rightarrow> err + string \<times> symKey \<times> instant" where
  "identity_answer B leeway tok now res = (case res of
     Inl e \<Rightarrow> Inl (Errorf ''bitwarden: access token exchange failed'' [e])
   | Inr resp \<Rightarrow> (case be_identityJSON B (rp_Body resp) of
       None \<Rightarrow> Inl (Errorf ''bitwarden: identity response is not JSON'' [Sentinel ErrInvalid, Opaque ''json''])
     | Some ir \<Rightarrow>
        if ir_AccessToken ir = [] then Inl (Errorf ''bitwarden: identity response carried no access_token'' [Sentinel ErrUnauthenticated])
        else if ir_EncryptedPayload ir = [] then Inl (Errorf ''bitwarden: identity response carried no encrypted_payload'' [Sentinel ErrUnauthenticated])
        else (case unwrapOrgKey B (at_key tok) (ir_EncryptedPayload ir) of
           Inl e \<Rightarrow> Inl e
         | Inr orgKey \<Rightarrow> Inr (ir_AccessToken ir, orgKey,
             if ir_ExpiresIn ir > 0 then now + wrap64 (ir_ExpiresIn ir * 1000000000) else now + wrap64 (leeway * 2)))))"

definition bw_exchange :: "bwEnv \<Rightarrow> (hreq \<Rightarrow> err + hresp) \<Rightarrow> instant \<Rightarrow> bwSession \<Rightarrow> err + string \<times> symKey \<times> instant" where
  "bw_exchange B send now s = (case parseAccessToken (be_prims B) (ss_readToken B s) of
     Inl e \<Rightarrow> Inl e
   | Inr tok \<Rightarrow> identity_answer B (ss_leeway s) tok now (Do (be_ok B) send (ss_client s) (identity_request tok)))"

text \<open>
  The two critical sections of \<^verbatim>\<open>ensure\<close>: a caller takes the cached pair, waits for the exchange under way, or starts one; the exchange settles. Nothing else writes the session, so the whole
  call of one caller is the first followed, where it started an exchange, by the second.
\<close>

datatype ensure_step = Cached string symKey | Waits nat | Exchanges nat

definition ensure_enter :: "instant \<Rightarrow> nat \<Rightarrow> bwSession \<Rightarrow> ensure_step \<times> bwSession" where
  "ensure_enter now fresh s =
     (if ss_cached s \<noteq> None \<and> now + ss_leeway s < ss_expiresAt s then (Cached (the (ss_cached s)) (ss_orgKey s), s)
      else (case ss_inflight s of Some f \<Rightarrow> (Waits f, s) | None \<Rightarrow> (Exchanges fresh, s\<lparr>ss_inflight := Some fresh\<rparr>)))"

definition ensure_settle :: "err + string \<times> symKey \<times> instant \<Rightarrow> bwSession \<Rightarrow> bwSession" where
  "ensure_settle res s = (case res of
     Inl _ \<Rightarrow> s\<lparr>ss_inflight := None\<rparr>
   | Inr (tok, key, expires) \<Rightarrow> s\<lparr>ss_inflight := None, ss_cached := Some tok, ss_orgKey := key, ss_expiresAt := expires\<rparr>)"

text \<open>
  What a call of \<^verbatim>\<open>ensure\<close> meets: the instant it starts, the number of its exchange should it start one, what an exchange it waits for settles to (\<^const>\<open>None\<close> when its own context ends first), and the
  transport and the instant of its own exchange.
\<close>

record ensureWorld =
  ew_now :: instant
  ew_fresh :: nat
  ew_settled :: "nat \<Rightarrow> (err + string \<times> symKey) option"
  ew_send :: "hreq \<Rightarrow> err + hresp"
  ew_answered :: instant

definition ensure :: "bwEnv \<Rightarrow> ensureWorld \<Rightarrow> bwSession \<Rightarrow> bwSession \<times> (err + string \<times> symKey)" where
  "ensure B w s = (case ensure_enter (ew_now w) (ew_fresh w) s of
     (Cached tok key, s1) \<Rightarrow> (s1, Inr (tok, key))
   | (Waits f, s1) \<Rightarrow> (s1, case ew_settled w f of Some res \<Rightarrow> res
        | None \<Rightarrow> Inl (Errorf ''bitwarden: waiting for the access token exchange'' [Sentinel ErrUnavailable, Sentinel Canceled]))
   | (Exchanges f, s1) \<Rightarrow>
       let res = bw_exchange B (ew_send w) (ew_answered w) s1
       in (ensure_settle res s1, case res of Inl e \<Rightarrow> Inl e | Inr (tok, key, _) \<Rightarrow> Inr (tok, key)))"

text \<open>\<^verbatim>\<open>Apply\<close>, given what its \<^verbatim>\<open>ensure\<close> returned.\<close>

definition bw_Apply :: "err + string \<times> symKey \<Rightarrow> hauth" where
  "bw_Apply res q = (case res of Inl e \<Rightarrow> Inl e
     | Inr (tok, _) \<Rightarrow> Inr (q\<lparr>hq_Header := header_set ''Authorization'' (''Bearer '' @ tok) (hq_Header q)\<rparr>))"

subsection \<open>The provider\<close>

record bwConfig =
  bc_accessTok :: "string option"
  bc_identityURL :: string
  bc_apiURL :: string
  bc_ownTransport :: bool
  bc_maxBody :: int
  bc_leeway :: duration
  bc_allowInsecure :: bool

definition bw_WithAccessToken :: "string \<Rightarrow> bwConfig \<Rightarrow> bwConfig" where "bw_WithAccessToken token c = c\<lparr>bc_accessTok := Some token\<rparr>"

definition bw_WithServerURL :: "string \<Rightarrow> bwConfig \<Rightarrow> bwConfig" where
  "bw_WithServerURL base c = (let b = rev (dropWhile ((=) CHR ''/'') (rev base)) in
     if b = [] then c else c\<lparr>bc_identityURL := b @ ''/identity'', bc_apiURL := b @ ''/api''\<rparr>)"

definition bw_WithIdentityURL :: "string \<Rightarrow> bwConfig \<Rightarrow> bwConfig" where "bw_WithIdentityURL u c = (if u \<noteq> [] then c\<lparr>bc_identityURL := u\<rparr> else c)"
definition bw_WithAPIURL :: "string \<Rightarrow> bwConfig \<Rightarrow> bwConfig" where "bw_WithAPIURL u c = (if u \<noteq> [] then c\<lparr>bc_apiURL := u\<rparr> else c)"

text \<open>Of an injected client only whether it has a transport of its own is kept; a nil client is \<^const>\<open>None\<close>.\<close>

definition bw_WithHTTPClient :: "bool option \<Rightarrow> bwConfig \<Rightarrow> bwConfig" where
  "bw_WithHTTPClient hc c = (case hc of Some own \<Rightarrow> c\<lparr>bc_ownTransport := own\<rparr> | None \<Rightarrow> c)"

definition bw_WithMaxBody :: "int \<Rightarrow> bwConfig \<Rightarrow> bwConfig" where "bw_WithMaxBody n c = (if n > 0 then c\<lparr>bc_maxBody := n\<rparr> else c)"
definition bw_WithLeeway :: "duration \<Rightarrow> bwConfig \<Rightarrow> bwConfig" where "bw_WithLeeway d c = (if d > 0 then c\<lparr>bc_leeway := d\<rparr> else c)"
definition bw_WithAllowInsecure :: "bool \<Rightarrow> bwConfig \<Rightarrow> bwConfig" where "bw_WithAllowInsecure yes c = c\<lparr>bc_allowInsecure := yes\<rparr>"

definition zero_bwConfig :: bwConfig where
  "zero_bwConfig = \<lparr>bc_accessTok = None, bc_identityURL = ''https://identity.bitwarden.com'', bc_apiURL = ''https://api.bitwarden.com'', bc_ownTransport = False,
     bc_maxBody = 0, bc_leeway = DefaultOAuth2Leeway, bc_allowInsecure = False\<rparr>"

text \<open>\<open>bp_clients\<close> is the session and the API client of a provider whose construction succeeded; the authenticator of that client is the session, and is filled in for each request.\<close>

record bwProvider =
  bw_clients :: "err + bwSession \<times> httpClient"
  bw_ownTransport :: bool
  bw_closed :: bool

definition identityErrorDetail :: "bwEnv \<Rightarrow> int \<Rightarrow> bytes \<Rightarrow> string" where
  "identityErrorDetail B status body = (case be_errorJSON B body of None \<Rightarrow> [] | Some ec \<Rightarrow> ec)"

definition checkScheme :: "(string \<Rightarrow> url option) \<Rightarrow> string \<Rightarrow> bool \<Rightarrow> err option" where
  "checkScheme parse raw allowInsecure = (case parse raw of
     None \<Rightarrow> Some (Errorf ''bitwarden: not a URL'' [Sentinel ErrInvalid, Opaque ''net/url''])
   | Some u \<Rightarrow>
      if u_Scheme u = ''https'' then None
      else if u_Scheme u = ''http'' then (if \<not> allowInsecure then Some (http_invalid ''bitwarden: URL is http://'') else None)
      else Some (http_invalid ''bitwarden: URL scheme is not http or https''))"

definition bw_build :: "bwEnv \<Rightarrow> bwConfig \<Rightarrow> err + bwSession \<times> httpClient" where
  "bw_build B c = (case checkScheme (be_Parse B) (bc_identityURL c) (bc_allowInsecure c) of Some e \<Rightarrow> Inl e
   | None \<Rightarrow> (case checkScheme (be_Parse B) (bc_apiURL c) (bc_allowInsecure c) of Some e \<Rightarrow> Inl e
   | None \<Rightarrow> (case New_Client (be_Parse B) \<lparr>hc_BaseURL = bc_identityURL c, hc_Auth = None, hc_MaxBody = bc_maxBody c, hc_UserAgent = ''mamori-bitwarden'',
                    hc_ErrorDetail = Some (identityErrorDetail B), hc_RedactPath = None\<rparr> of
        Inl e \<Rightarrow> Inl (Errorf ''bitwarden: identity URL'' [e])
      | Inr identity \<Rightarrow> (case New_Client (be_Parse B) \<lparr>hc_BaseURL = bc_apiURL c, hc_Auth = None, hc_MaxBody = bc_maxBody c, hc_UserAgent = ''mamori-bitwarden'',
                    hc_ErrorDetail = None, hc_RedactPath = None\<rparr> of
           Inl e \<Rightarrow> Inl (Errorf ''bitwarden: API URL'' [e])
         | Inr api \<Rightarrow> Inr (\<lparr>ss_client = identity, ss_accessTok = bc_accessTok c, ss_leeway = bc_leeway c, ss_cached = None, ss_orgKey = zero_symKey,
                             ss_expiresAt = 0, ss_inflight = None\<rparr>, api)))))"

definition New_bitwarden :: "bwEnv \<Rightarrow> (bwConfig \<Rightarrow> bwConfig) list \<Rightarrow> bwProvider" where
  "New_bitwarden B opts = (let c = fold (\<lambda>o' c. o' c) opts zero_bwConfig
     in \<lparr>bw_clients = bw_build B c, bw_ownTransport = bc_ownTransport c, bw_closed = False\<rparr>)"

text \<open>\<^verbatim>\<open>Close\<close>, with whether it releases idle connections.\<close>

definition Close_bitwarden :: "bwProvider \<Rightarrow> bwProvider \<times> bool" where
  "Close_bitwarden p = (p\<lparr>bw_closed := True\<rparr>, bw_ownTransport p)"

subsection \<open>Reads\<close>

definition selectError :: "err \<Rightarrow> err" where
  "selectError e = (if err_is e ErrNotFound then Errorf ''bitwarden: not present in the decrypted value'' [Sentinel ErrNotFound]
     else Errorf ''bitwarden: cannot select from the decrypted value'' [Sentinel ErrInvalid])"

definition secretID :: "Ref \<Rightarrow> err + string" where
  "secretID ref = (let sid = rev (dropWhile ((=) CHR ''/'') (rev (dropWhile ((=) CHR ''/'') (r_Path ref)))) in
     if sid = [] then Inl (http_invalid ''bitwarden: ref names no secret'')
     else if CHR ''/'' \<in> set sid then Inl (http_invalid ''bitwarden: ref has more than one path segment'')
     else if \<not> isUUID sid then Inl (http_invalid ''bitwarden: ref does not name a UUID'')
     else Inr sid)"

definition secret_request :: "string \<Rightarrow> Request" where
  "secret_request sid = \<lparr>rq_Method = [], rq_Path = ''secrets/'' @ sid, rq_Query = [], rq_Headers = [], rq_Body = [], rq_IfNoneMatch = [], rq_IfModifiedSince = []\<rparr>"

text \<open>What \<^verbatim>\<open>Resolve\<close> makes of the answer of the API, with the organization's key it already holds.\<close>

definition open_secret :: "bwEnv \<Rightarrow> symKey \<Rightarrow> Ref \<Rightarrow> Response \<Rightarrow> err + Value" where
  "open_secret B orgKey ref resp = (case be_secretJSON B (rp_Body resp) of
     None \<Rightarrow> Inl (Errorf ''bitwarden: response is not JSON'' [Sentinel ErrInvalid, Opaque ''json''])
   | Some sr \<Rightarrow>
      if sr_Value sr = [] then Inl (Errorf ''bitwarden: response carried no value'' [Sentinel ErrNotFound])
      else (case parseEncString (sr_Value sr) of Inl e \<Rightarrow> Inl (Errorf ''bitwarden: secret'' [e])
      | Inr enc \<Rightarrow> (case decrypt (be_prims B) orgKey enc of Inl e \<Rightarrow> Inl (Errorf ''bitwarden: secret'' [e])
      | Inr plaintext \<Rightarrow> (case SelectKey (be_json B) plaintext (r_Key ref) of Inl e \<Rightarrow> Inl (selectError e)
      | Inr out \<Rightarrow> Inr (zero_Value\<lparr>v_Bytes := out, v_Version := (if sr_RevisionDate sr = [] then sr_Value sr else sr_RevisionDate sr), v_Sensitive := True\<rparr>)))))"

text \<open>
  \<^verbatim>\<open>Resolve\<close> calls \<^verbatim>\<open>ensure\<close> twice: for the organization's key, and from inside the API client for the bearer token. \<open>bw_between\<close> is what other callers do to the session in between.
\<close>

record bwWorld =
  bw_first :: ensureWorld
  bw_between :: "bwSession \<Rightarrow> bwSession"
  bw_second :: ensureWorld
  bw_send :: "hreq \<Rightarrow> err + hresp"

definition fetch_secret :: "bwEnv \<Rightarrow> bwWorld \<Rightarrow> string \<Rightarrow> httpClient \<Rightarrow> bwSession \<Rightarrow> bwSession \<times> (err + Response)" where
  "fetch_secret B w sid api s = (case ensure B (bw_second w) s of (s', res) \<Rightarrow>
     (if isl (build (be_ok B) api (secret_request sid)) then s else s', Do (be_ok B) (bw_send w) (api\<lparr>cl_auth := Some (bw_Apply res)\<rparr>) (secret_request sid)))"

definition Resolve_bitwarden :: "bwEnv \<Rightarrow> bwWorld \<Rightarrow> Ref \<Rightarrow> bwProvider \<Rightarrow> bwProvider \<times> (err + Value)" where
  "Resolve_bitwarden B w ref p =
     (if bw_closed p then (p, Inl (Errorf ''bitwarden: provider is closed'' [Sentinel ErrUnavailable]))
      else (case bw_clients p of Inl e \<Rightarrow> (p, Inl e)
      | Inr (s, api) \<Rightarrow> (case secretID ref of Inl e \<Rightarrow> (p, Inl e)
      | Inr sid \<Rightarrow> (case ensure B (bw_first w) s of
           (s1, Inl e) \<Rightarrow> (p\<lparr>bw_clients := Inr (s1, api)\<rparr>, Inl e)
         | (s1, Inr (_, orgKey)) \<Rightarrow> (case fetch_secret B w sid api (bw_between w s1) of
             (s2, Inl e) \<Rightarrow> (p\<lparr>bw_clients := Inr (s2, api)\<rparr>, Inl (Errorf ''bitwarden: secret'' [e]))
           | (s2, Inr resp) \<Rightarrow> (p\<lparr>bw_clients := Inr (s2, api)\<rparr>, open_secret B orgKey ref resp))))))"

end
