(* ===== verification/Sealing.thy ===== *)
theory Sealing
  imports Bitwarden
begin

text \<open>
  What \<^verbatim>\<open>providers/bitwarden\<close> opens and what it refuses: padding, the \<^verbatim>\<open>EncString\<close> round trip, authentication before decryption, the pairing of bearer token and organization key, and the
  kinds of the errors it reports.
\<close>

unbundle bit_operations_syntax

subsection \<open>Padding\<close>

lemma byte_word_eq: "n < 256 \<Longrightarrow> byte_word c = word_of_nat n \<longleftrightarrow> c = char_of n"
  using code_less [of c]
  by (auto simp: byte_word_def word_of_nat_eq_iff take_bit_eq_mod code_def)

lemma word_or_zero: "(x :: 8 word) OR y = 0 \<longleftrightarrow> x = 0 \<and> y = 0"
  by (auto simp: bit_eq_iff bit_simps)

lemma word_xor_zero: "(x :: 8 word) XOR y = 0 \<longleftrightarrow> x = y"
  by (metis xor.assoc xor.right_neutral xor_self_eq)

lemma pad_diff_fold: "n < 256 \<Longrightarrow> foldl (\<lambda>diff c. diff OR (byte_word c XOR word_of_nat n)) d b = 0 \<longleftrightarrow> d = 0 \<and> list_all (\<lambda>c. c = char_of n) b"
  by (induction b arbitrary: d) (simp_all add: word_or_zero word_xor_zero byte_word_eq)

lemma all_equal_replicate: "list_all (\<lambda>c. c = x) b \<longleftrightarrow> b = replicate (length b) x"
  by (induction b) auto

lemma pad_diff_zero: "n < 256 \<Longrightarrow> pad_diff n b = 0 \<longleftrightarrow> b = replicate (length b) (char_of n)"
  using pad_diff_fold [of n 0 b] all_equal_replicate [of "char_of n" b] by (simp add: pad_diff_def)

text \<open>PKCS#7 as its definition has it: a whole number of blocks that end in one to sixteen copies of their own number.\<close>

definition padded :: "bytes \<Rightarrow> bytes \<Rightarrow> bool" where
  "padded p b \<longleftrightarrow> length b mod 16 = 0 \<and> (\<exists>n\<in>{1..16}. b = p @ replicate n (char_of n))"

lemma last_replicate_append: "0 < n \<Longrightarrow> last (p @ replicate n x) = x"
  by (induction n) (auto simp: last_append)

lemma unpad_iff: "unpadPKCS7 b = Inr p \<longleftrightarrow> padded p b"
proof
  assume h: "unpadPKCS7 b = Inr p"
  define n where "n = code (last b)"
  have n: "1 \<le> n" "n \<le> 16" "n \<le> length b" "pad_diff n (drop (length b - n) b) = 0" "p = take (length b - n) b" "length b mod 16 = 0"
    using h by (auto simp: unpadPKCS7_def Let_def n_def blockSize_def split: if_splits)
  have "drop (length b - n) b = replicate n (char_of n)" using n pad_diff_zero [of n "drop (length b - n) b"] by simp
  hence "b = p @ replicate n (char_of n)" using n(5) append_take_drop_id [of "length b - n" b] by simp
  thus "padded p b" using n(1,2,6) unfolding padded_def by (metis atLeastAtMost_iff)
next
  assume "padded p b"
  then obtain n where n: "1 \<le> n" "n \<le> 16" "b = p @ replicate n (char_of n)" "length b mod 16 = 0" by (auto simp: padded_def)
  hence "code (last b) = n" by (simp add: last_replicate_append)
  moreover have "pad_diff n (drop (length b - n) b) = 0" using n pad_diff_zero [of n "replicate n (char_of n)"] by simp
  ultimately show "unpadPKCS7 b = Inr p" using n by (auto simp: unpadPKCS7_def Let_def blockSize_def)
qed

definition pad :: "bytes \<Rightarrow> bytes" where
  "pad p = (let n = 16 - length p mod 16 in p @ replicate n (char_of n))"

lemma padded_pad: "padded p (pad p)"
proof -
  have "(length p + (16 - length p mod 16)) mod 16 = 0" by presburger
  thus ?thesis by (auto simp: padded_def pad_def Let_def intro!: bexI [where x = "16 - length p mod 16"])
qed

lemma pad_blocks: "pad p \<noteq> []" "length (pad p) mod 16 = 0"
  using padded_pad [of p] by (auto simp: padded_def)

subsection \<open>Base64\<close>

text \<open>\<^verbatim>\<open>StdEncoding.EncodeToString\<close>, against which the decoder of the model is checked.\<close>

fun b64_encode :: "bytes \<Rightarrow> string" where
  "b64_encode [] = []"
| "b64_encode [x] = [b64_std (code x div 4), b64_std (code x mod 4 * 16), CHR ''='', CHR ''='']"
| "b64_encode [x, y] = [b64_std (code x div 4), b64_std (code x mod 4 * 16 + code y div 16), b64_std (code y mod 16 * 4), CHR ''='']"
| "b64_encode (x # y # z # r) =
     b64_std (code x div 4) # b64_std (code x mod 4 * 16 + code y div 16) # b64_std (code y mod 16 * 4 + code z div 64) # b64_std (code z mod 64) # b64_encode r"

lemma char_of_eq: "k < 256 \<Longrightarrow> char_of k = c \<longleftrightarrow> k = code c"
  by (metis char_of_code code_char_of)

lemma b64_codes: "code CHR ''='' = 61" "code CHR 0x0A = 10" "code CHR 0x0D = 13" "code CHR ''|'' = 124" "code CHR ''.'' = 46" "code CHR ''+'' = 43" "code CHR ''/'' = 47"
  by (simp_all add: code_def)

lemma b64_table:
  assumes "n < 64"
  shows "b64_std_val (b64_std n) = Some n \<and> b64_std n \<notin> {CHR ''='', CHR 0x0A, CHR 0x0D, CHR ''|'', CHR ''.''}"
proof -
  define k where "k = (if n < 26 then 65 + n else if n < 52 then 71 + n else if n < 62 then n - 4 else if n = 62 then 43 else 47)"
  have k: "k < 256" "b64_std n = char_of k" using assms by (auto simp: k_def b64_std_def)
  have "k \<notin> {61, 10, 13, 124, 46}" using assms by (auto simp: k_def)
  moreover have "b64_std_val (char_of k) = (if 65 \<le> k \<and> k \<le> 90 then Some (k - 65) else if 97 \<le> k \<and> k \<le> 122 then Some (k - 71)
      else if 48 \<le> k \<and> k \<le> 57 then Some (k + 4) else if k = 43 then Some 62 else if k = 47 then Some 63 else None)"
    using k(1) by (simp add: b64_std_val_def is_digit_def char_of_eq b64_codes)
  moreover have "\<dots> = Some n" using assms by (simp add: k_def) arith
  ultimately show ?thesis using k by (simp add: char_of_eq b64_codes)
qed

lemma byte_parts: "code x div 4 < 64" "code x div 16 < 16" "code x div 64 < 4"
  using code_less [of x] by (simp_all add: less_mult_imp_div_less)

lemma sextets:
  "code x mod 4 * 16 < 64" "code x mod 4 * 16 + code y div 16 < 64" "code x mod 16 * 4 < 64" "code x mod 16 * 4 + code y div 64 < 64"
proof -
  have "code x mod 4 < 4" "code x mod 16 < 16" by simp_all
  thus "code x mod 4 * 16 < 64" "code x mod 4 * 16 + code y div 16 < 64" "code x mod 16 * 4 < 64" "code x mod 16 * 4 + code y div 64 < 64"
    using byte_parts [of y] by linarith+
qed

lemmas sextet_ok = b64_table [OF byte_parts(1)] b64_table [OF sextets(1)] b64_table [OF sextets(2)] b64_table [OF sextets(3)] b64_table [OF sextets(4)]

lemma b64_std_sextets [simp]:
  "b64_std_val (b64_std (code x div 4)) = Some (code x div 4)" "b64_std_val (b64_std (code x mod 4 * 16)) = Some (code x mod 4 * 16)"
  "b64_std_val (b64_std (code x mod 4 * 16 + code y div 16)) = Some (code x mod 4 * 16 + code y div 16)"
  "b64_std_val (b64_std (code x mod 16 * 4)) = Some (code x mod 16 * 4)"
  "b64_std_val (b64_std (code x mod 16 * 4 + code y div 64)) = Some (code x mod 16 * 4 + code y div 64)"
  "b64_std_val (b64_std (code x mod 64)) = Some (code x mod 64)"
  using sextet_ok b64_table [of "code x mod 64"] by simp_all

lemma b64_encode_clean: "set (b64_encode b) \<inter> {CHR 0x0A, CHR 0x0D, CHR ''|'', CHR ''.''} = {}"
proof (induction b rule: b64_encode.induct)
  case (4 x y z r)
  thus ?case using sextet_ok b64_table [of "code z mod 64"] by simp
qed (use sextet_ok in simp_all)

lemma byte_low: "x < 256 \<Longrightarrow> byte (q * 256 + x) = char_of x"
  by (simp add: byte_def)

lemma first_byte: "byte (code x div 4 * 4 + (code x mod 4 * 16 + code y div 16) div 16) = x"
  using byte_parts [of y] byte_low [of "code x" 0] by simp

lemma first_byte_only: "byte (code x div 4 * 4 + code x mod 4 * 16 div 16) = x"
  using byte_low [of "code x" 0] by simp

lemma second_byte: "ch < 4 \<Longrightarrow> byte ((q * 16 + code x div 16) * 16 + (code x mod 16 * 4 + ch) div 4) = x"
proof -
  assume "ch < 4"
  hence "(code x mod 16 * 4 + ch) div 4 = code x mod 16" by simp
  moreover have "(q * 16 + code x div 16) * 16 + code x mod 16 = q * 256 + code x" by (simp add: algebra_simps)
  ultimately show ?thesis using byte_low [of "code x" q] by (simp del: One_nat_def add: add.commute mult.commute)
qed

lemma third_byte: "byte ((q * 4 + code x div 64) * 64 + code x mod 64) = x"
proof -
  have "(q * 4 + code x div 64) * 64 + code x mod 64 = q * 256 + code x" by (simp add: algebra_simps)
  thus ?thesis using byte_low [of "code x" q] by (simp add: add.commute mult.commute)
qed

lemma b64_quanta_encode: "b64_quanta b64_std_val (b64_encode b) = Some b"
proof (induction b rule: b64_encode.induct)
  case (4 x y z r)
  thus ?case using b64_table [of "code z mod 64"] first_byte [of x y] second_byte [OF byte_parts(3) [of z], of "code x mod 4" y] third_byte [of "code y mod 16" z]
    by simp
next
  case (3 x y)
  show ?case using sextet_ok(4) [of y] second_byte [of 0 "code x mod 4" y] first_byte [of x y] by simp
next
  case (2 x)
  show ?case using first_byte_only [of x] by simp
qed simp

lemma b64_round_trip: "b64_decode b64_std_val (b64_encode b) = Some b"
proof -
  have "filter (\<lambda>c. c \<noteq> CHR 0x0A \<and> c \<noteq> CHR 0x0D) (b64_encode b) = b64_encode b"
    using b64_encode_clean [of b] by (intro filter_True) blast
  thus ?thesis by (simp add: b64_decode_def b64_quanta_encode)
qed

subsection \<open>What was sealed is opened\<close>

text \<open>
  What the provider relies on: an HMAC of the size of a SHA-256 digest, and CBC decryption that undoes CBC encryption under the same key and initialization vector and keeps the length.
\<close>

definition prims_ok :: "bwPrims \<Rightarrow> (bytes \<Rightarrow> bytes \<Rightarrow> bytes \<Rightarrow> bytes) \<Rightarrow> bool" where
  "prims_ok P cbcEncrypt \<longleftrightarrow> (\<forall>k m. length (bp_hmac P k m) = macSize) \<and>
     (\<forall>k iv d. length k = encKeySize \<longrightarrow> length iv = ivSize \<longrightarrow> length d mod blockSize = 0 \<longrightarrow>
        length (cbcEncrypt k iv d) = length d \<and> bp_cbcDecrypt P k iv (cbcEncrypt k iv d) = d)"

text \<open>A type 2 ciphertext as Bitwarden's own clients write it: encrypt, then authenticate.\<close>

definition seal :: "bwPrims \<Rightarrow> (bytes \<Rightarrow> bytes \<Rightarrow> bytes \<Rightarrow> bytes) \<Rightarrow> symKey \<Rightarrow> bytes \<Rightarrow> bytes \<Rightarrow> string" where
  "seal P cbcEncrypt k iv p = (let d = cbcEncrypt (sk_enc k) iv (pad p)
     in ''2.'' @ join_with ''|'' [b64_encode iv, b64_encode d, b64_encode (bp_hmac P (sk_mac k) (iv @ d))])"

definition key_ok :: "symKey \<Rightarrow> bool" where
  "key_ok k \<longleftrightarrow> (\<exists>m. sk_buf k = Some m \<and> length m = symKeySize)"

lemma parse_seal:
  fixes p
  assumes "prims_ok P cbcEncrypt" "key_ok k" "length iv = ivSize"
  defines "d \<equiv> cbcEncrypt (sk_enc k) iv (pad p)"
  shows "parseEncString (seal P cbcEncrypt k iv p) = Inr \<lparr>es_iv = iv, es_data = d, es_mac = bp_hmac P (sk_mac k) (iv @ d)\<rparr>" "bp_cbcDecrypt P (sk_enc k) iv d = pad p" (is ?opened)
proof -
  have "length (sk_enc k) = encKeySize" using assms(2) by (auto simp: key_ok_def sk_enc_def bw_sizes)
  hence d: "length d = length (pad p)" "bp_cbcDecrypt P (sk_enc k) iv d = pad p"
    using assms(1,3) pad_blocks(2) [of p] by (auto simp: prims_ok_def d_def bw_sizes)
  have clean: "CHR ''|'' \<notin> set (b64_encode x)" "CHR ''.'' \<notin> set (b64_encode x)" for x using b64_encode_clean [of x] by auto
  let ?parts = "[b64_encode iv, b64_encode d, b64_encode (bp_hmac P (sk_mac k) (iv @ d))]"
  have split: "split_on CHR ''|'' (join_with ''|'' ?parts) = ?parts" by (rule split_on_join) (use clean in auto)
  have "d \<noteq> []" "length d mod 16 = 0" using d pad_blocks [of p] by auto
  moreover have "length (bp_hmac P (sk_mac k) (iv @ d)) = macSize" using assms(1) by (simp add: prims_ok_def)
  ultimately have "parse_parts ?parts = Inr \<lparr>es_iv = iv, es_data = d, es_mac = bp_hmac P (sk_mac k) (iv @ d)\<rparr>"
    using assms(3) by (simp add: parse_parts_def decodeFixed_def b64_round_trip blockSize_def)
  moreover have "cut CHR ''.'' (''2.'' @ x) = Some (''2'', x)" for x by simp
  ultimately show "parseEncString (seal P cbcEncrypt k iv p) = Inr \<lparr>es_iv = iv, es_data = d, es_mac = bp_hmac P (sk_mac k) (iv @ d)\<rparr>"
    using split by (simp add: parseEncString_def seal_def Let_def d_def [symmetric] encTypeAesCbc256HmacSha256B64_def del: join_with.simps)
  show ?opened by (rule d(2))
qed

lemma sealed_opens:
  assumes "prims_ok P cbcEncrypt" "key_ok k" "length iv = ivSize"
  shows "\<exists>c. parseEncString (seal P cbcEncrypt k iv p) = Inr c \<and> decrypt P k c = Inr p"
proof -
  have "unpadPKCS7 (pad p) = Inr p" by (simp add: unpad_iff padded_pad)
  thus ?thesis using parse_seal [OF assms] assms(2) by (auto simp: decrypt_def key_valid_def key_ok_def sk_enc_def bw_sizes)
qed

lemma parseAccessToken_key_ok: "parseAccessToken P raw = Inr tok \<Longrightarrow> key_ok (at_key tok)"
  by (auto simp: parseAccessToken_def deriveAccessTokenKey_def deriveShareableKey_def newSymKey_def key_ok_def Let_def split: if_splits option.splits sum.splits)

lemma unwrap_sealed:
  assumes "prims_ok (be_prims B) cbcEncrypt" "key_ok k" "length iv = ivSize" "be_claimsJSON B claims = Some (b64_encode org)" "length org = symKeySize"
  shows "unwrapOrgKey B k (seal (be_prims B) cbcEncrypt k iv claims) = Inr \<lparr>sk_buf = Some org\<rparr>"
proof -
  obtain c where c: "parseEncString (seal (be_prims B) cbcEncrypt k iv claims) = Inr c" "decrypt (be_prims B) k c = Inr claims"
    using sealed_opens [OF assms(1-3)] by blast
  have "b64_encode org \<noteq> []" using assms(5) b64_round_trip [of org] by (auto simp: bw_sizes b64_decode_def)
  thus ?thesis using c assms(4,5) by (simp add: unwrapOrgKey_def b64_round_trip newSymKey_def)
qed

lemma open_secret_sealed:
  assumes "prims_ok (be_prims B) cbcEncrypt" "key_ok k" "length iv = ivSize" "be_secretJSON B (rp_Body resp) = Some sr"
    "sr_Value sr = seal (be_prims B) cbcEncrypt k iv plain" "r_Key ref = []"
  shows "open_secret B k ref resp = Inr (zero_Value\<lparr>v_Bytes := plain, v_Version := (if sr_RevisionDate sr = [] then sr_Value sr else sr_RevisionDate sr), v_Sensitive := True\<rparr>)"
proof -
  obtain c where c: "parseEncString (sr_Value sr) = Inr c" "decrypt (be_prims B) k c = Inr plain" using sealed_opens [OF assms(1-3)] assms(5) by auto
  have "sr_Value sr \<noteq> []" by (simp add: assms(5) seal_def Let_def)
  thus ?thesis using c assms(4,6) by (simp add: open_secret_def SelectKey_def)
qed

text \<open>
  C32. A Bitwarden secret is read end to end: with a well-formed access token, an identity endpoint that seals the organization's key under the key derived from that token, and an API that holds
  a plaintext sealed under the organization's key, \<^verbatim>\<open>Resolve\<close> of a provider that has exchanged nothing yet returns exactly that plaintext, marked sensitive, with the revision date for its version,
  after a single exchange.
\<close>

theorem bitwarden_reads_sealed:
  fixes B w s
  defines "P \<equiv> be_prims B"
  assumes "prims_ok P cbcEncrypt" "\<not> bw_closed p" "bw_clients p = Inr (s, api)" "secretID ref = Inr sid" "r_Key ref = []"
    and cold: "ss_cached s = None" "ss_inflight s = None" and alone: "bw_between w = id"
    and token: "parseAccessToken P (ss_readToken B s) = Inr tok"
    and identity: "Do (be_ok B) (ew_send (bw_first w)) (ss_client s) (identity_request tok) = Inr r1" "be_identityJSON B (rp_Body r1) = Some ir" "ir_AccessToken ir \<noteq> []"
      "ir_EncryptedPayload ir = seal P cbcEncrypt (at_key tok) iv1 claims" "length iv1 = ivSize" "be_claimsJSON B claims = Some (b64_encode org)" "length org = symKeySize"
    and live: "0 < ir_ExpiresIn ir" "ew_now (bw_second w) + ss_leeway s < ew_answered (bw_first w) + wrap64 (ir_ExpiresIn ir * 1000000000)"
    and secret: "Do (be_ok B) (bw_send w) (api\<lparr>cl_auth := Some (http_Bearer (ir_AccessToken ir))\<rparr>) (secret_request sid) = Inr r2" "be_secretJSON B (rp_Body r2) = Some sr"
      "sr_Value sr = seal P cbcEncrypt \<lparr>sk_buf = Some org\<rparr> iv2 plain" "length iv2 = ivSize"
  shows "snd (Resolve_bitwarden B w ref p) =
    Inr (zero_Value\<lparr>v_Bytes := plain, v_Version := (if sr_RevisionDate sr = [] then sr_Value sr else sr_RevisionDate sr), v_Sensitive := True\<rparr>)"
proof -
  let ?key = "\<lparr>sk_buf = Some org\<rparr>" let ?exp = "ew_answered (bw_first w) + wrap64 (ir_ExpiresIn ir * 1000000000)"
  let ?s1 = "s\<lparr>ss_inflight := Some (ew_fresh (bw_first w))\<rparr>"
  have key: "key_ok ?key" using identity(7) by (simp add: key_ok_def)
  have payload: "ir_EncryptedPayload ir \<noteq> []" by (simp add: identity(4) seal_def Let_def)
  have "unwrapOrgKey B (at_key tok) (ir_EncryptedPayload ir) = Inr ?key"
    using unwrap_sealed [OF _ parseAccessToken_key_ok identity(5-7)] assms(2) token identity(4) by (simp add: P_def)
  hence "bw_exchange B (ew_send (bw_first w)) (ew_answered (bw_first w)) ?s1 = Inr (ir_AccessToken ir, ?key, ?exp)"
    using token identity(1-3) payload live(1) by (simp add: bw_exchange_def identity_answer_def ss_readToken_def P_def)
  hence first: "ensure B (bw_first w) s = (ensure_settle (Inr (ir_AccessToken ir, ?key, ?exp)) ?s1, Inr (ir_AccessToken ir, ?key))"
    using cold by (simp add: ensure_def ensure_enter_def)
  have "bw_Apply (Inr (ir_AccessToken ir, ?key)) = http_Bearer (ir_AccessToken ir)" by (simp add: fun_eq_iff bw_Apply_def http_Bearer_def)
  hence "snd (fetch_secret B w sid api (ensure_settle (Inr (ir_AccessToken ir, ?key, ?exp)) ?s1)) = Inr r2"
    using secret(1) live(2) by (simp add: fetch_secret_def ensure_def ensure_enter_def ensure_settle_def)
  moreover have "open_secret B ?key ref r2 = Inr (zero_Value\<lparr>v_Bytes := plain, v_Version := (if sr_RevisionDate sr = [] then sr_Value sr else sr_RevisionDate sr), v_Sensitive := True\<rparr>)"
    using open_secret_sealed [OF _ key secret(4,2)] assms(2,6) secret(3) by (simp add: P_def)
  ultimately show ?thesis
    using assms(3-5) first alone by (simp add: Resolve_bitwarden_def prod.case_eq_if)
qed

subsection \<open>What was not sealed is not opened\<close>

text \<open>A ciphertext is authentic under a key when it is of the authenticated type, well formed, and carries the tag of its own contents under that key.\<close>

definition authentic :: "bwPrims \<Rightarrow> symKey \<Rightarrow> string \<Rightarrow> bool" where
  "authentic P k s \<longleftrightarrow> (\<exists>c. parseEncString s = Inr c \<and> key_valid k \<and> bp_hmac P (sk_mac k) (es_iv c @ es_data c) = es_mac c)"

lemma parse_parts_err: "parse_parts parts = Inl e \<Longrightarrow> \<exists>m. e = http_invalid m"
  by (auto simp: parse_parts_def decodeFixed_def split: if_splits option.splits sum.splits)

lemma parseEncString_err:
  assumes "parseEncString s = Inl e"
  shows "(\<exists>m. e = http_invalid m) \<or> (\<exists>m. e = Errorf m [Sentinel ErrUnavailable])"
  using assms by (auto simp: parseEncString_def split: if_splits option.splits prod.splits dest!: parse_parts_err)

lemma parseEncString_blocks:
  assumes "parseEncString s = Inr c"
  shows "length (es_iv c) = ivSize \<and> length (es_mac c) = macSize \<and> es_data c \<noteq> [] \<and> length (es_data c) mod blockSize = 0"
  using assms by (auto simp: parseEncString_def parse_parts_def decodeFixed_def split: if_splits option.splits prod.splits sum.splits)

lemma kind_http_invalid [simp]: "ErrorKind (Some (Errorf m [http_invalid n])) = KindInvalid" "ErrorKind (Some (http_invalid n)) = KindInvalid"
  "ErrorKind (Some (Sentinel ErrUnavailable)) = KindUnavailable"
  by (simp_all add: ErrorKind_def kindSentinels_def http_invalid_def)

text \<open>
  C33. A forged or tampered secret is never opened: where the value of the answer is not authentic under the organization's key, the read fails with one and the same error whatever the cipher
  would make of it, so nothing about the plaintext is computed or reported, and the kind of the error is never that of an absent value, for which a default would be put in.
\<close>

theorem forged_secret_not_opened:
  assumes "be_secretJSON B (rp_Body resp) = Some sr" "sr_Value sr \<noteq> []" "\<not> authentic (be_prims B) k (sr_Value sr)"
  shows "\<exists>e. (\<forall>cbcDecrypt. open_secret (B\<lparr>be_prims := (be_prims B)\<lparr>bp_cbcDecrypt := cbcDecrypt\<rparr>\<rparr>) k ref resp = Inl e) \<and>
    ErrorKind (Some e) \<in> {KindInvalid, KindUnavailable}"
proof (cases "parseEncString (sr_Value sr)")
  case (Inl e)
  thus ?thesis using assms parseEncString_err [OF Inl] by (auto simp: open_secret_def)
next
  case (Inr c)
  have "\<exists>m. \<forall>cbcDecrypt. decrypt ((be_prims B)\<lparr>bp_cbcDecrypt := cbcDecrypt\<rparr>) k c = Inl (http_invalid m)"
    using assms(3) Inr by (auto simp: authentic_def decrypt_def)
  thus ?thesis using assms(1,2) Inr by (auto simp: open_secret_def)
qed

text \<open>A value that is read was authentic, and its plaintext was padded to whole blocks.\<close>

lemma opened_was_authentic:
  assumes "open_secret B k ref resp = Inr v"
  shows "\<exists>sr. be_secretJSON B (rp_Body resp) = Some sr \<and> authentic (be_prims B) k (sr_Value sr) \<and> v_Sensitive v"
  using assms by (auto simp: open_secret_def authentic_def decrypt_def split: option.splits sum.splits if_splits)

subsection \<open>Sessions\<close>

text \<open>
  Callers come, and exchanges settle: the runs of a session, with the exchanges under way and the pairs that exchanges have produced.
\<close>

inductive session_run :: "bwSession \<times> nat set \<times> (string \<times> symKey) set \<Rightarrow> bwSession \<times> nat set \<times> (string \<times> symKey) set \<Rightarrow> bool" where
  enter: "ensure_enter now fresh s = (res, s') \<Longrightarrow> session_run (s, R, H) (s', if res = Exchanges fresh then insert fresh R else R, H)"
| settle: "f \<in> R \<Longrightarrow> session_run (s, R, H) (ensure_settle res s, R - {f}, case res of Inl _ \<Rightarrow> H | Inr (tok, key, _) \<Rightarrow> insert (tok, key) H)"

lemma session_pairs:
  assumes "session_run\<^sup>*\<^sup>* (s0, {}, {}) t" "ss_cached s0 = None" "ss_inflight s0 = None"
  shows "fst (snd t) = set_option (ss_inflight (fst t)) \<and> (\<forall>tok. ss_cached (fst t) = Some tok \<longrightarrow> (tok, ss_orgKey (fst t)) \<in> snd (snd t))"
  using assms(1)
proof (induction rule: rtranclp_induct)
  case (step t u)
  from step(2,3) show ?case
    by (induction rule: session_run.induct)
       (auto simp: ensure_enter_def ensure_settle_def split: option.splits if_splits sum.splits)
qed (simp add: assms)

text \<open>
  The pair of one call is of one exchange, but \<^verbatim>\<open>Resolve\<close> makes two calls. When the cached pair is replaced between them, the request carries the new bearer token and its answer is opened with
  the old key.
\<close>

lemma refresh_splits_pair:
  assumes "\<not> bw_closed p" "bw_clients p = Inr (s, api)" "secretID ref = Inr sid"
    "ss_cached s = Some tok1" "ew_now (bw_first w) + ss_leeway s < ss_expiresAt s"
    "bw_between w s = ensure_settle (Inr (tok2, key2, exp2)) s" "ew_now (bw_second w) + ss_leeway s < exp2"
    "Do (be_ok B) (bw_send w) (api\<lparr>cl_auth := Some (http_Bearer tok2)\<rparr>) (secret_request sid) = Inr resp"
  shows "snd (Resolve_bitwarden B w ref p) = open_secret B (ss_orgKey s) ref resp"
proof -
  have "bw_Apply (Inr (tok2, key2)) = http_Bearer tok2" by (simp add: fun_eq_iff bw_Apply_def http_Bearer_def)
  hence "snd (fetch_secret B w sid api (ensure_settle (Inr (tok2, key2, exp2)) s)) = Inr resp"
    using assms(7,8) by (simp add: fetch_secret_def ensure_def ensure_enter_def ensure_settle_def)
  moreover have "ensure B (bw_first w) s = (s, Inr (tok1, ss_orgKey s))" using assms(4,5) by (simp add: ensure_def ensure_enter_def)
  ultimately show ?thesis using assms(1-3,6) by (simp add: Resolve_bitwarden_def prod.case_eq_if)
qed

text \<open>
  An identity endpoint that answers 404, which is what a wrong identity URL gives, makes every read of the provider report an absent value, so that the reader of the field gets its default.
\<close>

lemma identity_404_reads_absent:
  assumes "\<not> bw_closed p" "bw_clients p = Inr (s, api)" "secretID ref = Inr sid" "ss_cached s = None" "ss_inflight s = None"
    "parseAccessToken (be_prims B) (ss_readToken B s) = Inr tok" "build (be_ok B) (ss_client s) (identity_request tok) = Inr q"
    "ew_send (bw_first w) q = Inr answer" "hp_Status answer = 404"
  shows "\<exists>e. snd (Resolve_bitwarden B w ref p) = Inl e \<and> ErrorKind (Some e) = KindNotFound"
proof -
  have "\<exists>e. Do (be_ok B) (ew_send (bw_first w)) (ss_client s) (identity_request tok) = Inl e \<and> err_is e ErrNotFound"
    using assms(7-9) by (auto simp: Do_def classify_def http_sentinel_def Let_def split: option.splits)
  then obtain e where e: "Do (be_ok B) (ew_send (bw_first w)) (ss_client s) (identity_request tok) = Inl e" "err_is e ErrNotFound" by blast
  hence "snd (ensure B (bw_first w) s) = Inl (Errorf ''bitwarden: access token exchange failed'' [e])"
    using assms(4-6) by (simp add: ensure_def ensure_enter_def bw_exchange_def identity_answer_def ss_readToken_def)
  thus ?thesis using assms(1-3) e(2) by (auto simp: Resolve_bitwarden_def prod.case_eq_if ErrorKind_def kindSentinels_def)
qed

subsection \<open>Instances\<close>

definition demo_prims :: bwPrims where
  "demo_prims = \<lparr>bp_hmac = (\<lambda>k m. replicate 32 CHR ''m''), bp_cbcDecrypt = (\<lambda>k iv d. d), bp_extract = (\<lambda>secret salt. Inr secret),
     bp_expand = (\<lambda>prk info n. Inr (replicate n CHR ''k''))\<rparr>"

definition demo_org :: bytes where "demo_org = replicate 64 CHR ''o''"
definition demo_iv :: bytes where "demo_iv = replicate 16 CHR ''i''"
definition demo_uuid :: string where "demo_uuid = ''6b3f9e0c-9f9a-4a5c-9a09-af9601317f2d''"
definition demo_token :: string where "demo_token = ''0.'' @ demo_uuid @ ''.secret:AAAAAAAAAAAAAAAAAAAAAA==''"
definition demo_key :: symKey where "demo_key = \<lparr>sk_buf = Some (replicate 64 CHR ''k'')\<rparr>"

definition demo_sealed :: "symKey \<Rightarrow> bytes \<Rightarrow> string" where "demo_sealed k p = seal demo_prims (\<lambda>k iv d. d) k demo_iv p"

definition demo_bw :: bwEnv where
  "demo_bw = \<lparr>be_prims = demo_prims, be_Getenv = (\<lambda>v. demo_token), be_Parse = (\<lambda>u. None), be_ok = (\<lambda>m u. True),
     be_json = \<lparr>j_object = (\<lambda>b. None), j_array = (\<lambda>b. None), j_string = (\<lambda>b. None)\<rparr>,
     be_identityJSON = (\<lambda>b. Some \<lparr>ir_AccessToken = ''t'', ir_ExpiresIn = 3600, ir_EncryptedPayload = demo_sealed demo_key ''claims''\<rparr>),
     be_claimsJSON = (\<lambda>b. Some (b64_encode demo_org)),
     be_secretJSON = (\<lambda>b. Some \<lparr>sr_Value = demo_sealed \<lparr>sk_buf = Some demo_org\<rparr> ''hunter2'', sr_RevisionDate = ''2026''\<rparr>), be_errorJSON = (\<lambda>b. None)\<rparr>"

definition demo_client :: httpClient where
  "demo_client = \<lparr>cl_base = demo_url, cl_auth = None, cl_maxBody = DefaultMaxBody, cl_userAgent = ''mamori-bitwarden'', cl_errorDetail = None, cl_redactPath = None\<rparr>"

definition demo_session :: bwSession where
  "demo_session = \<lparr>ss_client = demo_client, ss_accessTok = Some demo_token, ss_leeway = 30000000000, ss_cached = None, ss_orgKey = zero_symKey, ss_expiresAt = 0, ss_inflight = None\<rparr>"

definition demo_send :: "hreq \<Rightarrow> err + hresp" where
  "demo_send = (\<lambda>_. Inr \<lparr>hp_Status = 200, hp_ETag = [], hp_LastModified = [], hp_Body = ''x'', hp_ReadErr = None\<rparr>)"

definition demo_response :: Response where
  "demo_response = \<lparr>rp_Status = 200, rp_Body = ''x'', rp_ETag = [], rp_LastModified = [], rp_NotModified = False\<rparr>"

definition demo_ew :: ensureWorld where
  "demo_ew = \<lparr>ew_now = 0, ew_fresh = 0, ew_settled = (\<lambda>_. None), ew_send = demo_send, ew_answered = 1\<rparr>"

definition demo_bwWorld :: bwWorld where
  "demo_bwWorld = \<lparr>bw_first = demo_ew, bw_between = id, bw_second = demo_ew, bw_send = demo_send\<rparr>"

definition demo_bwRef :: Ref where
  "demo_bwRef = \<lparr>r_Scheme = ''bitwarden-sm'', r_Path = demo_uuid, r_Key = [], r_Opts = [], r_Raw = []\<rparr>"

definition demo_provider :: bwProvider where
  "demo_provider = \<lparr>bw_clients = Inr (demo_session, demo_client), bw_ownTransport = False, bw_closed = False\<rparr>"

lemma demo_prims_ok: "prims_ok demo_prims (\<lambda>k iv d. d)"
  by (simp add: prims_ok_def demo_prims_def macSize_def)

lemma demo_ids: "secretID demo_bwRef = Inr demo_uuid"
  "parseAccessToken demo_prims demo_token = Inr \<lparr>at_id = demo_uuid, at_clientSecret = ''secret'', at_key = demo_key\<rparr>"
  by code_simp+

lemma demo_calls: "Do (\<lambda>_ _. True) demo_send demo_client (identity_request \<lparr>at_id = demo_uuid, at_clientSecret = ''secret'', at_key = demo_key\<rparr>) = Inr demo_response"
  "Do (\<lambda>_ _. True) demo_send (demo_client\<lparr>cl_auth := Some (http_Bearer ''t'')\<rparr>) (secret_request demo_uuid) = Inr demo_response"
  by code_simp+

lemma demo_live: "ew_now (bw_second demo_bwWorld) + ss_leeway demo_session < ew_answered (bw_first demo_bwWorld) + wrap64 (3600 * 1000000000)"
  by code_simp

lemma bitwarden_reads_sealed_witness:
  "\<exists>v. snd (Resolve_bitwarden demo_bw demo_bwWorld demo_bwRef demo_provider) = Inr v \<and> v_Bytes v = ''hunter2'' \<and> v_Version v = ''2026'' \<and> v_Sensitive v"
proof -
  let ?ir = "\<lparr>ir_AccessToken = ''t'', ir_ExpiresIn = 3600, ir_EncryptedPayload = demo_sealed demo_key ''claims''\<rparr>"
  let ?sr = "\<lparr>sr_Value = demo_sealed \<lparr>sk_buf = Some demo_org\<rparr> ''hunter2'', sr_RevisionDate = ''2026''\<rparr>"
  let ?tok = "\<lparr>at_id = demo_uuid, at_clientSecret = ''secret'', at_key = demo_key\<rparr>"
  have "snd (Resolve_bitwarden demo_bw demo_bwWorld demo_bwRef demo_provider) =
    Inr (zero_Value\<lparr>v_Bytes := ''hunter2'', v_Version := (if sr_RevisionDate ?sr = [] then sr_Value ?sr else sr_RevisionDate ?sr), v_Sensitive := True\<rparr>)"
    by (rule bitwarden_reads_sealed [where cbcEncrypt = "\<lambda>k iv d. d" and s = demo_session and api = demo_client and sid = demo_uuid and tok = ?tok and ?r1.0 = demo_response and ir = ?ir
          and ?iv1.0 = demo_iv and claims = "''claims''" and org = demo_org and ?r2.0 = demo_response and ?iv2.0 = demo_iv])
       (use demo_prims_ok demo_ids demo_calls demo_live in \<open>simp_all add: demo_bw_def demo_provider_def demo_bwRef_def demo_session_def demo_bwWorld_def demo_ew_def
          ss_readToken_def demo_sealed_def demo_iv_def demo_org_def bw_sizes\<close>)
  thus ?thesis by auto
qed

text \<open>The same answer with the tag of another key.\<close>

definition demo_forged :: bwEnv where
  "demo_forged = demo_bw\<lparr>be_prims := demo_prims\<lparr>bp_hmac := (\<lambda>k m. replicate 32 (last (CHR ''x'' # k)))\<rparr>\<rparr>"

lemma forged_secret_not_opened_witness:
  "\<exists>e. open_secret demo_forged demo_key demo_bwRef demo_response = Inl e \<and> ErrorKind (Some e) \<in> {KindInvalid, KindUnavailable}"
proof -
  let ?sr = "\<lparr>sr_Value = demo_sealed \<lparr>sk_buf = Some demo_org\<rparr> ''hunter2'', sr_RevisionDate = ''2026''\<rparr>"
  have sr: "be_secretJSON demo_forged (rp_Body demo_response) = Some ?sr" by (simp add: demo_forged_def demo_bw_def)
  moreover have "sr_Value ?sr \<noteq> []" by (simp add: demo_sealed_def seal_def Let_def)
  moreover have "\<not> authentic (be_prims demo_forged) demo_key (sr_Value ?sr)"
    using parse_seal(1) [OF demo_prims_ok, of "\<lparr>sk_buf = Some demo_org\<rparr>" demo_iv "''hunter2''"]
    by (simp add: authentic_def demo_sealed_def key_ok_def demo_org_def demo_iv_def bw_sizes demo_forged_def demo_prims_def sk_mac_def demo_key_def last_conv_nth)
  ultimately obtain e where "\<forall>cbcDecrypt. open_secret (demo_forged\<lparr>be_prims := (be_prims demo_forged)\<lparr>bp_cbcDecrypt := cbcDecrypt\<rparr>\<rparr>) demo_key demo_bwRef demo_response = Inl e"
    "ErrorKind (Some e) \<in> {KindInvalid, KindUnavailable}" using forged_secret_not_opened by blast
  moreover have "demo_forged\<lparr>be_prims := (be_prims demo_forged)\<lparr>bp_cbcDecrypt := bp_cbcDecrypt (be_prims demo_forged)\<rparr>\<rparr> = demo_forged" by simp
  ultimately show ?thesis by metis
qed

end
