(* ===== verification/Nacos.thy ===== *)
theory Nacos
  imports HttpSafety
begin

text \<open>
  \<^verbatim>\<open>providers/nacos\<close>: the provider for the Nacos configuration service, over the HTTP core. \<^verbatim>\<open>nacos.go\<close>: the provider, its options and its client, built once; \<^verbatim>\<open>resolve.go\<close>: the read;
  \<^verbatim>\<open>auth.go\<close>: the login; \<^verbatim>\<open>watch.go\<close>: the watch, which asks the listener endpoint to compare digests.

  The environment, \<^verbatim>\<open>url.Parse\<close>, the JSON decoder of the login answer, the MD5 digest in hexadecimal and the transport are arguments. The transport is given anew for every exchange, since what the
  server answers changes with time.
\<close>

subsection \<open>The provider\<close>

record tokenAuth =
  ta_client :: httpClient
  ta_body :: bytes
  ta_token :: "string option"
  ta_expiry :: "instant option"

text \<open>\<open>np_httpClient\<close> is the timeout of an injected \<^verbatim>\<open>http.Client\<close>; \<open>np_login\<close> is the \<^verbatim>\<open>tokenAuth\<close> that the built client holds as its authenticator.\<close>

record nacosProvider =
  np_serverAddr :: string
  np_contextPath :: string
  np_namespace :: string
  np_group :: string
  np_username :: string
  np_password :: string
  np_httpClient :: "duration option"
  np_auth :: "hauth option"
  np_hold :: duration
  np_maxBody :: int
  np_client :: "httpClient option"
  np_login :: "tokenAuth option"
  np_buildErr :: "err option"
  np_builds :: nat
  np_closed :: bool

record nacosEnv =
  ne_Getenv :: "string \<Rightarrow> string"
  ne_Parse :: "string \<Rightarrow> url option"
  ne_ok :: "string \<Rightarrow> url \<Rightarrow> bool"
  ne_json :: json_codec
  ne_loginJSON :: "bytes \<Rightarrow> (string \<times> int) option"
  ne_md5 :: "bytes \<Rightarrow> string"

definition nacos_defaultServerAddr :: string where "nacos_defaultServerAddr = ''http://127.0.0.1:8848''"
definition nacos_defaultContextPath :: string where "nacos_defaultContextPath = ''/nacos''"
definition nacos_defaultGroup :: string where "nacos_defaultGroup = ''DEFAULT_GROUP''"
definition nacos_defaultHold :: duration where "nacos_defaultHold = 30000000000"

definition zero_nacos :: nacosProvider where
  "zero_nacos = \<lparr>np_serverAddr = [], np_contextPath = [], np_namespace = [], np_group = [], np_username = [], np_password = [], np_httpClient = None,
     np_auth = None, np_hold = nacos_defaultHold, np_maxBody = 0, np_client = None, np_login = None, np_buildErr = None, np_builds = 0, np_closed = False\<rparr>"

definition WithServerAddr :: "string \<Rightarrow> nacosProvider \<Rightarrow> nacosProvider" where "WithServerAddr addr p = p\<lparr>np_serverAddr := addr\<rparr>"
definition WithContextPath :: "string \<Rightarrow> nacosProvider \<Rightarrow> nacosProvider" where "WithContextPath path p = p\<lparr>np_contextPath := path\<rparr>"
definition WithNamespace :: "string \<Rightarrow> nacosProvider \<Rightarrow> nacosProvider" where "WithNamespace ns p = p\<lparr>np_namespace := ns\<rparr>"
definition WithGroup :: "string \<Rightarrow> nacosProvider \<Rightarrow> nacosProvider" where "WithGroup grp p = p\<lparr>np_group := grp\<rparr>"
definition WithCredentials :: "string \<Rightarrow> string \<Rightarrow> nacosProvider \<Rightarrow> nacosProvider" where
  "WithCredentials username password p = p\<lparr>np_username := username, np_password := password\<rparr>"
definition nacos_WithAuth :: "hauth \<Rightarrow> nacosProvider \<Rightarrow> nacosProvider" where "nacos_WithAuth a p = p\<lparr>np_auth := Some a\<rparr>"
definition nacos_WithHTTPClient :: "duration \<Rightarrow> nacosProvider \<Rightarrow> nacosProvider" where "nacos_WithHTTPClient timeout p = p\<lparr>np_httpClient := Some timeout\<rparr>"
definition WithLongPollTimeout :: "duration \<Rightarrow> nacosProvider \<Rightarrow> nacosProvider" where "WithLongPollTimeout d p = p\<lparr>np_hold := d\<rparr>"
definition nacos_WithMaxBody :: "int \<Rightarrow> nacosProvider \<Rightarrow> nacosProvider" where "nacos_WithMaxBody n p = p\<lparr>np_maxBody := n\<rparr>"

definition New_nacos :: "(nacosProvider \<Rightarrow> nacosProvider) list \<Rightarrow> nacosProvider" where
  "New_nacos opts = fold (\<lambda>opt p. opt p) opts zero_nacos"

definition Close_nacos :: "nacosProvider \<Rightarrow> nacosProvider" where
  "Close_nacos p = p\<lparr>np_closed := True\<rparr>"

fun firstNonEmpty :: "string list \<Rightarrow> string" where
  "firstNonEmpty [] = []"
| "firstNonEmpty (v # vals) = (if v \<noteq> [] then v else firstNonEmpty vals)"

text \<open>\<^verbatim>\<open>strings.Trim\<close> with the cutset of one slash.\<close>

definition trim_slashes :: "string \<Rightarrow> string" where
  "trim_slashes s = rev (dropWhile ((=) CHR ''/'') (rev (dropWhile ((=) CHR ''/'') s)))"

definition baseURL :: "string \<Rightarrow> string \<Rightarrow> string" where
  "baseURL addr contextPath = trim_suffix ''/'' addr @ CHR ''/'' # trim_slashes contextPath"

definition watchSafeTimeout :: "nacosProvider \<Rightarrow> duration" where
  "watchSafeTimeout p = (case np_httpClient p of Some t \<Rightarrow> t
     | None \<Rightarrow> wrap64 ((if np_hold p \<le> 0 then nacos_defaultHold else np_hold p) + 10000000000 + 5000000000))"

definition newTokenAuth :: "nacosEnv \<Rightarrow> string \<Rightarrow> string \<Rightarrow> string \<Rightarrow> err + tokenAuth" where
  "newTokenAuth N base username password =
     (if username = [] \<or> password = [] then Inl (http_invalid ''nacos: username and password are both required'')
      else (case New_Client (ne_Parse N) \<lparr>hc_BaseURL = base, hc_Auth = None, hc_MaxBody = 0, hc_UserAgent = ''mamori-nacos'', hc_ErrorDetail = None, hc_RedactPath = None\<rparr> of
         Inl e \<Rightarrow> Inl (Errorf ''nacos: login endpoint'' [e])
       | Inr lc \<Rightarrow> Inr \<lparr>ta_client = lc, ta_body = values_encode [(''username'', [username]), (''password'', [password])], ta_token = None, ta_expiry = None\<rparr>))"

text \<open>The authenticator \<open>core\<close> chooses: an injected one, a login, or none.\<close>

definition nacos_authenticator :: "nacosEnv \<Rightarrow> nacosProvider \<Rightarrow> err + hauth option \<times> tokenAuth option" where
  "nacos_authenticator N p =
     (let addr = firstNonEmpty [np_serverAddr p, ne_Getenv N ''NACOS_SERVER_ADDR'', nacos_defaultServerAddr];
          ctxPath = firstNonEmpty [np_contextPath p, ne_Getenv N ''NACOS_CONTEXT_PATH'', nacos_defaultContextPath];
          user = firstNonEmpty [np_username p, ne_Getenv N ''NACOS_USERNAME''];
          pass = firstNonEmpty [np_password p, ne_Getenv N ''NACOS_PASSWORD'']
      in case np_auth p of
           Some a \<Rightarrow> Inr (Some a, None)
         | None \<Rightarrow>
            if user \<noteq> [] \<and> pass \<noteq> [] then (case newTokenAuth N (baseURL addr ctxPath) user pass of Inl e \<Rightarrow> Inl e | Inr t \<Rightarrow> Inr (None, Some t))
            else if user \<noteq> [] \<or> pass \<noteq> [] then Inl (http_invalid ''nacos: username and password must be set together, only one was supplied'')
            else Inr (None, None))"

definition nacos_build :: "nacosEnv \<Rightarrow> nacosProvider \<Rightarrow> err + httpClient \<times> tokenAuth option" where
  "nacos_build N p =
     (let addr = firstNonEmpty [np_serverAddr p, ne_Getenv N ''NACOS_SERVER_ADDR'', nacos_defaultServerAddr];
          ctxPath = firstNonEmpty [np_contextPath p, ne_Getenv N ''NACOS_CONTEXT_PATH'', nacos_defaultContextPath]
      in case nacos_authenticator N p of
           Inl e \<Rightarrow> Inl e
         | Inr (auth, login) \<Rightarrow>
            (case New_Client (ne_Parse N) \<lparr>hc_BaseURL = baseURL addr ctxPath, hc_Auth = auth, hc_MaxBody = np_maxBody p,
                  hc_UserAgent = ''mamori-nacos'', hc_ErrorDetail = None, hc_RedactPath = None\<rparr> of
               Inl e \<Rightarrow> Inl (Errorf ''nacos: server address'' [e])
             | Inr c \<Rightarrow> Inr (c, login)))"

definition core :: "nacosEnv \<Rightarrow> nacosProvider \<Rightarrow> nacosProvider \<times> (err + httpClient)" where
  "core N p =
     (if np_closed p then (p, Inl (Errorf ''nacos: provider is closed'' [Sentinel ErrUnavailable]))
      else case np_client p of Some c \<Rightarrow> (p, Inr c)
      | None \<Rightarrow> (case np_buildErr p of Some e \<Rightarrow> (p, Inl e)
      | None \<Rightarrow>
         let p1 = p\<lparr>np_builds := np_builds p + 1\<rparr>
         in (case nacos_build N p of
              Inl e \<Rightarrow> (p1\<lparr>np_buildErr := Some e\<rparr>, Inl e)
            | Inr (c, login) \<Rightarrow> (p1\<lparr>np_client := Some c, np_login := login\<rparr>, Inr c))))"

subsection \<open>Refs\<close>

record coordinates =
  co_group :: string
  co_dataID :: string

definition coordinatesFor :: "nacosEnv \<Rightarrow> nacosProvider \<Rightarrow> Ref \<Rightarrow> err + coordinates" where
  "coordinatesFor N p ref =
     (let path = trim_prefix ''/'' (r_Path ref);
          group0 = firstNonEmpty [np_group p, ne_Getenv N ''NACOS_GROUP'', nacos_defaultGroup];
          (grp, dataID) = (case cut CHR ''/'' path of None \<Rightarrow> (group0, path) | Some (g, d) \<Rightarrow> (g, d))
      in if path = [] then Inl (http_invalid ''nacos: ref names no dataId'')
         else if CHR ''/'' \<in> set path \<and> CHR ''/'' \<in> set dataID then Inl (http_invalid ''nacos: ref has more than two path segments'')
         else if dataID = [] then Inl (http_invalid ''nacos: ref names no dataId'')
         else if grp = [] then Inl (http_invalid ''nacos: ref names an empty group'')
         else Inr \<lparr>co_group = grp, co_dataID = dataID\<rparr>)"

definition tenant :: "nacosEnv \<Rightarrow> nacosProvider \<Rightarrow> string" where
  "tenant N p = firstNonEmpty [np_namespace p, ne_Getenv N ''NACOS_NAMESPACE'']"

subsection \<open>The login\<close>

definition tokenRefreshMargin :: duration where "tokenRefreshMargin = 60000000000"

definition login_request :: "tokenAuth \<Rightarrow> Request" where
  "login_request t = \<lparr>rq_Method = ''POST'', rq_Path = ''v1/auth/login'', rq_Query = [], rq_Headers = [(''Content-Type'', ''application/x-www-form-urlencoded'')],
     rq_Body = ta_body t, rq_IfNoneMatch = [], rq_IfModifiedSince = []\<rparr>"

definition nacos_login :: "nacosEnv \<Rightarrow> instant \<Rightarrow> (hreq \<Rightarrow> err + hresp) \<Rightarrow> tokenAuth \<Rightarrow> err + string \<times> instant option" where
  "nacos_login N now send t = (case Do (ne_ok N) send (ta_client t) (login_request t) of
     Inl e \<Rightarrow> Inl (Errorf ''nacos: login'' [e])
   | Inr resp \<Rightarrow> (case ne_loginJSON N (rp_Body resp) of
        None \<Rightarrow> Inl (Errorf ''nacos: login response is not JSON'' [Sentinel ErrUnavailable, Opaque ''json''])
      | Some (accessToken, tokenTTL) \<Rightarrow>
         if accessToken = [] then Inl (Errorf ''nacos: login returned no accessToken'' [Sentinel ErrUnauthenticated])
         else (let ttl = wrap64 (tokenTTL * 1000000000) in
           if ttl \<le> 0 then Inr (accessToken, None) else Inr (accessToken, Some (now + ttl)))))"

definition token_cached :: "instant \<Rightarrow> tokenAuth \<Rightarrow> string option" where
  "token_cached now t = (case (ta_token t, ta_expiry t) of
     (Some tok, Some expiry) \<Rightarrow> if now + tokenRefreshMargin > expiry then None else Some tok
   | _ \<Rightarrow> None)"

definition token_store :: "string \<Rightarrow> instant option \<Rightarrow> tokenAuth \<Rightarrow> tokenAuth" where
  "token_store tok expiry t = t\<lparr>ta_token := Some tok, ta_expiry := expiry\<rparr>"

text \<open>\<^verbatim>\<open>Apply\<close> in two parts: the token, obtained when none is held, and the parameter it is sent as.\<close>

definition token_obtain :: "nacosEnv \<Rightarrow> instant \<Rightarrow> (hreq \<Rightarrow> err + hresp) \<Rightarrow> tokenAuth \<Rightarrow> tokenAuth \<times> (err + string)" where
  "token_obtain N now send t = (case token_cached now t of
     Some tok \<Rightarrow> (t, Inr tok)
   | None \<Rightarrow> (case nacos_login N now send t of
        Inl e \<Rightarrow> (t, Inl e)
      | Inr (fresh, expiry) \<Rightarrow> (token_store fresh expiry t, Inr fresh)))"

definition token_apply :: "err + string \<Rightarrow> hauth" where
  "token_apply tok q = (case tok of Inl e \<Rightarrow> Inl e | Inr s \<Rightarrow> QueryAuth ''accessToken'' s q)"

text \<open>\<^verbatim>\<open>client.Do\<close> with the authenticator the client holds: \<^verbatim>\<open>Apply\<close> runs when the request could be built.\<close>

definition nacos_Do :: "nacosEnv \<Rightarrow> instant \<Rightarrow> (hreq \<Rightarrow> err + hresp) \<Rightarrow> httpClient \<Rightarrow> Request \<Rightarrow> nacosProvider \<Rightarrow> nacosProvider \<times> (err + Response)" where
  "nacos_Do N now send c r p = (case np_login p of
     None \<Rightarrow> (p, Do (ne_ok N) send c r)
   | Some t \<Rightarrow> (case token_obtain N now send t of (t', tok) \<Rightarrow>
       ((if isl (build (ne_ok N) c r) then p else p\<lparr>np_login := Some t'\<rparr>), Do (ne_ok N) send (c\<lparr>cl_auth := Some (token_apply tok)\<rparr>) r)))"

subsection \<open>Reads\<close>

definition configQuery :: "nacosEnv \<Rightarrow> nacosProvider \<Rightarrow> coordinates \<Rightarrow> (string \<times> string list) list" where
  "configQuery N p c = [(''dataId'', [co_dataID c]), (''group'', [co_group c])] @ (if tenant N p \<noteq> [] then [(''tenant'', [tenant N p])] else [])"

definition read_request :: "nacosEnv \<Rightarrow> nacosProvider \<Rightarrow> coordinates \<Rightarrow> Request" where
  "read_request N p c = \<lparr>rq_Method = [], rq_Path = ''v1/cs/configs'', rq_Query = configQuery N p c, rq_Headers = [], rq_Body = [],
     rq_IfNoneMatch = [], rq_IfModifiedSince = []\<rparr>"

definition nacos_fetch :: "nacosEnv \<Rightarrow> instant \<Rightarrow> (hreq \<Rightarrow> err + hresp) \<Rightarrow> coordinates \<Rightarrow> nacosProvider \<Rightarrow> nacosProvider \<times> (err + bytes)" where
  "nacos_fetch N now send c p = (case core N p of
     (p1, Inl e) \<Rightarrow> (p1, Inl e)
   | (p1, Inr client) \<Rightarrow> (case nacos_Do N now send client (read_request N p1 c) p1 of
        (p2, Inl e) \<Rightarrow> (p2, Inl (Errorf ''nacos: read'' [e]))
      | (p2, Inr resp) \<Rightarrow> (p2, Inr (rp_Body resp))))"

definition nacos_value :: "nacosEnv \<Rightarrow> bytes \<Rightarrow> Ref \<Rightarrow> err + Value" where
  "nacos_value N body ref =
     (case (if r_Key ref = [] then Inr body else SelectKey (ne_json N) body (r_Key ref)) of
        Inl e \<Rightarrow> Inl (Errorf ''nacos: selecting'' [e])
      | Inr b \<Rightarrow> Inr (zero_Value\<lparr>v_Bytes := b, v_Version := VersionHash b\<rparr>))"

definition Resolve_nacos :: "nacosEnv \<Rightarrow> err option \<Rightarrow> instant \<Rightarrow> (hreq \<Rightarrow> err + hresp) \<Rightarrow> Ref \<Rightarrow> nacosProvider \<Rightarrow> nacosProvider \<times> (err + Value)" where
  "Resolve_nacos N ctxErr now send ref p = (case ctxErr of Some e \<Rightarrow> (p, Inl e)
   | None \<Rightarrow> (case coordinatesFor N p ref of Inl e \<Rightarrow> (p, Inl e)
   | Inr c \<Rightarrow> (case nacos_fetch N now send c p of
        (p1, Inl e) \<Rightarrow> (p1, Inl e)
      | (p1, Inr body) \<Rightarrow> (p1, nacos_value N body ref))))"

subsection \<open>The watch\<close>

definition wordSeparator :: char where "wordSeparator = CHR 0x02"
definition lineSeparator :: char where "lineSeparator = CHR 0x01"

definition contentMD5 :: "nacosEnv \<Rightarrow> bytes \<Rightarrow> string" where
  "contentMD5 N body = (if body = [] then [] else ne_md5 N body)"

definition probe :: "nacosEnv \<Rightarrow> nacosProvider \<Rightarrow> coordinates \<Rightarrow> string \<Rightarrow> string" where
  "probe N p c md5sum = join_with [wordSeparator] ([co_dataID c, co_group c, md5sum] @ (if tenant N p \<noteq> [] then [tenant N p] else [])) @ [lineSeparator]"

definition listen_request :: "nacosEnv \<Rightarrow> nacosProvider \<Rightarrow> coordinates \<Rightarrow> string \<Rightarrow> duration \<Rightarrow> Request" where
  "listen_request N p c md5sum hold = \<lparr>rq_Method = ''POST'', rq_Path = ''v1/cs/configs/listener'', rq_Query = [],
     rq_Headers = [(''Content-Type'', ''application/x-www-form-urlencoded''), (''Long-Pulling-Timeout'', dec_of_int (hold div 1000000))],
     rq_Body = values_encode [(''Listening-Configs'', [probe N p c md5sum])], rq_IfNoneMatch = [], rq_IfModifiedSince = []\<rparr>"

definition entry_names :: "coordinates \<Rightarrow> string \<Rightarrow> string \<Rightarrow> bool" where
  "entry_names c ten entry =
     (let fs = split_on wordSeparator entry
      in entry \<noteq> [] \<and> length fs \<ge> 2 \<and> fs ! 0 = co_dataID c \<and> fs ! 1 = co_group c \<and> \<not> (length fs > 2 \<and> ten \<noteq> [] \<and> fs ! 2 \<noteq> ten))"

definition changedConfigs :: "bytes \<Rightarrow> coordinates \<Rightarrow> string \<Rightarrow> bool" where
  "changedConfigs body c ten =
     (let raw = trim_space body
      in if raw = [] then False
         else list_ex (entry_names c ten) (split_on lineSeparator (case query_unescape raw of Some d \<Rightarrow> d | None \<Rightarrow> raw)))"

definition nacos_listen :: "nacosEnv \<Rightarrow> instant \<Rightarrow> (hreq \<Rightarrow> err + hresp) \<Rightarrow> coordinates \<Rightarrow> string \<Rightarrow> duration \<Rightarrow> nacosProvider \<Rightarrow> nacosProvider \<times> (err + bool)" where
  "nacos_listen N now send c md5sum hold p = (case core N p of
     (p1, Inl e) \<Rightarrow> (p1, Inl e)
   | (p1, Inr client) \<Rightarrow> (case nacos_Do N now send client (listen_request N p1 c md5sum hold) p1 of
        (p2, Inl e) \<Rightarrow> (p2, Inl (Errorf ''nacos: listen'' [e]))
      | (p2, Inr resp) \<Rightarrow> (p2, Inr (changedConfigs (rp_Body resp) c (tenant N p2)))))"

definition no_change :: LongPollResult where "no_change = \<lparr>lp_Changed = False, lp_Value = zero_Value\<rparr>"

text \<open>The closures of \<^verbatim>\<open>Watch\<close>: \<open>observe\<close> reads and remembers the digest, a round listens and reads when told of a change. The state is the provider and \<open>known\<close>.\<close>

definition observe :: "nacosEnv \<Rightarrow> instant \<Rightarrow> (hreq \<Rightarrow> err + hresp) \<Rightarrow> coordinates \<Rightarrow> Ref \<Rightarrow> nacosProvider \<times> string \<Rightarrow> (nacosProvider \<times> string) \<times> (err + LongPollResult)" where
  "observe N now send c ref st = (case st of (p, known) \<Rightarrow> (case nacos_fetch N now send c p of
     (p1, Inl e) \<Rightarrow> if err_is e ErrNotFound then ((p1, []), Inr no_change) else ((p1, known), Inl e)
   | (p1, Inr body) \<Rightarrow>
      ((p1, contentMD5 N body), (case nacos_value N body ref of Inl e \<Rightarrow> Inl e | Inr v \<Rightarrow> Inr \<lparr>lp_Changed = True, lp_Value = v\<rparr>))))"

text \<open>An exchange with the server: when, and what the transport does.\<close>

type_synonym exchange_at = "instant \<times> (hreq \<Rightarrow> err + hresp)"

definition nacos_round :: "nacosEnv \<Rightarrow> coordinates \<Rightarrow> Ref \<Rightarrow> duration \<Rightarrow> exchange_at \<times> exchange_at \<Rightarrow> nacosProvider \<times> string
    \<Rightarrow> (nacosProvider \<times> string) \<times> (err + LongPollResult)" where
  "nacos_round N c ref hold x st = (case (x, st) of (((t1, listener), (t2, reader)), (p, known)) \<Rightarrow>
     (case nacos_listen N t1 listener c known hold p of
        (p1, Inl e) \<Rightarrow> ((p1, known), Inl e)
      | (p1, Inr moved) \<Rightarrow> if \<not> moved then ((p1, known), Inr no_change) else observe N t2 reader c ref (p1, known)))"

fun nacos_rounds :: "nacosEnv \<Rightarrow> coordinates \<Rightarrow> Ref \<Rightarrow> duration \<Rightarrow> (exchange_at \<times> exchange_at) list \<Rightarrow> nacosProvider \<times> string
    \<Rightarrow> (nacosProvider \<times> string) \<times> (err + LongPollResult) list" where
  "nacos_rounds N c ref hold [] st = (st, [])"
| "nacos_rounds N c ref hold (x # xs) st = (case nacos_round N c ref hold x st of (st1, r) \<Rightarrow>
     (case nacos_rounds N c ref hold xs st1 of (st2, rs) \<Rightarrow> (st2, r # rs)))"

definition Watch_nacos :: "nacosEnv \<Rightarrow> exchange_at \<Rightarrow> (exchange_at \<times> exchange_at) list \<Rightarrow> nat \<Rightarrow> Ref \<Rightarrow> nacosProvider \<Rightarrow> err + Update list" where
  "Watch_nacos N base xs left ref p = (case coordinatesFor N p ref of
     Inl e \<Rightarrow> Inl e
   | Inr c \<Rightarrow> (case core N p of
        (_, Inl e) \<Rightarrow> Inl e
      | (p1, Inr _) \<Rightarrow> (case observe N (fst base) (snd base) c ref (p1, []) of (st, b) \<Rightarrow>
          LongPoll \<lparr>lc_Hold = np_hold p, lc_Grace = 0, lc_ErrorPause = 0\<rparr> (Some (\<lambda>hold _. snd (nacos_rounds N c ref hold xs st))) (Some b) left)))"

subsection \<open>The client is built once\<close>

text \<open>A client, or the failure to build one, is final: asking again builds nothing and gives the same.\<close>

lemma core_stable:
  assumes "core N p = (p1, r)"
  shows "core N p1 = (p1, r) \<and> np_builds p1 \<le> np_builds p + 1"
proof (cases "np_closed p \<or> np_client p \<noteq> None \<or> np_buildErr p \<noteq> None")
  case True
  hence "fst (core N p) = p" by (auto simp: core_def split: option.splits)
  thus ?thesis using assms by simp
next
  case False
  hence "core N p = (case nacos_build N p of Inl e \<Rightarrow> (p\<lparr>np_builds := np_builds p + 1, np_buildErr := Some e\<rparr>, Inl e)
      | Inr (c, login) \<Rightarrow> (p\<lparr>np_builds := np_builds p + 1, np_client := Some c, np_login := login\<rparr>, Inr c))" by (simp add: core_def Let_def cong: sum.case_cong)
  with assms False show ?thesis by (cases "nacos_build N p") (auto simp: core_def)
qed

text \<open>After \<^verbatim>\<open>Close\<close> nothing is sent, whether or not the client had been built.\<close>

lemma closed_refuses:
  assumes "coordinatesFor N p ref = Inr c"
  shows "Resolve_nacos N None now send ref (Close_nacos p) = (Close_nacos p, Inl (Errorf ''nacos: provider is closed'' [Sentinel ErrUnavailable]))"
proof -
  have "coordinatesFor N (Close_nacos p) ref = Inr c" using assms by (simp add: coordinatesFor_def Close_nacos_def)
  thus ?thesis by (simp add: Resolve_nacos_def nacos_fetch_def core_def Close_nacos_def)
qed

subsection \<open>Refs\<close>

lemma coordinatesFor_shape:
  assumes "coordinatesFor N p ref = Inr c"
  shows "co_dataID c \<noteq> [] \<and> co_group c \<noteq> [] \<and> CHR ''/'' \<notin> set (co_dataID c) \<and>
    (trim_prefix ''/'' (r_Path ref) = co_dataID c \<or> trim_prefix ''/'' (r_Path ref) = co_group c @ CHR ''/'' # co_dataID c \<and> CHR ''/'' \<notin> set (co_group c))"
  using assms by (auto simp: coordinatesFor_def Let_def cut_None_iff dest: cut_SomeD split: if_splits option.splits prod.splits)

text \<open>Credentials are taken one by one: a user name given in the code goes with a password from the environment.\<close>

lemma credentials_mixed:
  assumes "user \<noteq> []" "ne_Getenv N ''NACOS_PASSWORD'' = pass" "pass \<noteq> []" "nacos_authenticator N (WithCredentials user [] zero_nacos) = Inr (a, Some t)"
  shows "ta_body t = values_encode [(''username'', [user]), (''password'', [pass])]"
  using assms by (auto simp: nacos_authenticator_def WithCredentials_def zero_nacos_def newTokenAuth_def Let_def split: sum.splits if_splits)

text \<open>A token that is reused does not expire within the margin.\<close>

lemma token_cached_fresh: "token_cached now t = Some tok \<Longrightarrow> \<exists>expiry. ta_expiry t = Some expiry \<and> now + tokenRefreshMargin \<le> expiry"
  by (auto simp: token_cached_def split: option.splits if_splits)

subsection \<open>The answer of the listener\<close>

definition sep_free :: "string \<Rightarrow> bool" where
  "sep_free s \<longleftrightarrow> wordSeparator \<notin> set s \<and> lineSeparator \<notin> set s"

text \<open>The entry the server names a configuration by.\<close>

definition listener_entry :: "coordinates \<Rightarrow> string \<Rightarrow> string" where
  "listener_entry c ten = join_with [wordSeparator] ([co_dataID c, co_group c] @ (if ten \<noteq> [] then [ten] else [])) @ [lineSeparator]"

lemma trim_space_Nil [simp]: "trim_space [] = []"
  by code_simp

lemma trim_space_escaped: "trim_space (query_escape s) = query_escape s"
proof (cases "query_escape s = []")
  case False
  have g: "graphic x" if "x \<in> set (query_escape s)" for x
    using set_query_escape [OF that] by (auto simp: query_safe_def is_alpha_def is_digit_def graphic_def code_def)
  have "trimmed (query_escape s)" using False g by (intro graphic_trimmed) auto
  thus ?thesis by (rule trim_space_trimmed)
qed simp

lemma query_escape_Nil_iff [simp]: "query_escape s = [] \<longleftrightarrow> s = []"
proof
  assume "query_escape s = []"
  thus "s = []" using query_unescape_escape [of s] by simp
qed (simp add: query_escape_def)

lemma split_entry:
  assumes "sep_free (co_dataID c)" "sep_free (co_group c)" "sep_free ten"
  shows "split_on lineSeparator (listener_entry c ten) = [join_with [wordSeparator] ([co_dataID c, co_group c] @ (if ten \<noteq> [] then [ten] else [])), []]"
    "split_on wordSeparator (join_with [wordSeparator] ([co_dataID c, co_group c] @ (if ten \<noteq> [] then [ten] else []))) = [co_dataID c, co_group c] @ (if ten \<noteq> [] then [ten] else [])"
proof -
  have "lineSeparator \<notin> set (join_with [wordSeparator] ([co_dataID c, co_group c] @ (if ten \<noteq> [] then [ten] else [])))"
    using assms by (auto simp: sep_free_def wordSeparator_def lineSeparator_def)
  from split_on_append [OF this, of "[]"]
  show "split_on lineSeparator (listener_entry c ten) = [join_with [wordSeparator] ([co_dataID c, co_group c] @ (if ten \<noteq> [] then [ten] else [])), []]"
    unfolding listener_entry_def by simp
  show "split_on wordSeparator (join_with [wordSeparator] ([co_dataID c, co_group c] @ (if ten \<noteq> [] then [ten] else []))) = [co_dataID c, co_group c] @ (if ten \<noteq> [] then [ten] else [])"
    by (rule split_on_join) (use assms in \<open>auto simp: sep_free_def split: if_splits\<close>)
qed

lemma changedConfigs_entry:
  assumes "sep_free (co_dataID c')" "sep_free (co_group c')" "sep_free ten" "co_dataID c' \<noteq> []"
  shows "changedConfigs (query_escape (listener_entry c' ten)) c ten \<longleftrightarrow> c' = c"
proof -
  have ne: "listener_entry c' ten \<noteq> []" by (simp add: listener_entry_def)
  have "changedConfigs (query_escape (listener_entry c' ten)) c ten = list_ex (entry_names c ten) (split_on lineSeparator (listener_entry c' ten))"
    using ne by (simp add: changedConfigs_def trim_space_escaped query_unescape_escape)
  also have "\<dots> = entry_names c ten (join_with [wordSeparator] ([co_dataID c', co_group c'] @ (if ten \<noteq> [] then [ten] else [])))"
    unfolding split_entry [OF assms(1-3)] by (simp add: entry_names_def)
  also have "\<dots> \<longleftrightarrow> c' = c" unfolding entry_names_def Let_def split_entry [OF assms(1-3)]
    using assms(4) by (cases c; cases c') auto
  finally show ?thesis .
qed

lemma changedConfigs_silent [simp]: "\<not> changedConfigs [] c ten"
  by (simp add: changedConfigs_def)

subsection \<open>What an honest server answers\<close>

definition plain_resp :: "int \<Rightarrow> bytes \<Rightarrow> hresp" where
  "plain_resp status body = \<lparr>hp_Status = status, hp_ETag = [], hp_LastModified = [], hp_Body = body, hp_ReadErr = None\<rparr>"

text \<open>The digest the server compares with: of the stored content, empty when there is none.\<close>

definition stored_md5 :: "nacosEnv \<Rightarrow> bytes option \<Rightarrow> string" where
  "stored_md5 N content = (case content of None \<Rightarrow> [] | Some b \<Rightarrow> contentMD5 N b)"

text \<open>
  \<open>honest N c ten content send\<close>: while the configuration \<open>c\<close> of the namespace \<open>ten\<close> has the content, a read of it returns the content or 404, the listener names it exactly when the digest of the
  probe is not the stored one, and a login succeeds. Other requests are left open.
\<close>

definition asks_for :: "coordinates \<Rightarrow> string \<Rightarrow> hreq \<Rightarrow> bool" where
  "asks_for c ten q \<longleftrightarrow> hq_Method q = ''GET'' \<and> (\<exists>m. parse_query (u_RawQuery (hq_URL q)) = Some m \<and> map_of m ''dataId'' = Some [co_dataID c]
     \<and> map_of m ''group'' = Some [co_group c] \<and> map_of m ''tenant'' = (if ten = [] then None else Some [ten]))"

definition probes :: "coordinates \<Rightarrow> string \<Rightarrow> string \<Rightarrow> hreq \<Rightarrow> bool" where
  "probes c ten md5 q \<longleftrightarrow> hq_Method q = ''POST'' \<and> parse_query (hq_Body q) = Some [(''Listening-Configs'',
     [join_with [wordSeparator] ([co_dataID c, co_group c, md5] @ (if ten \<noteq> [] then [ten] else [])) @ [lineSeparator]])]"

definition logs_in :: "nacosEnv \<Rightarrow> (hreq \<Rightarrow> err + hresp) \<Rightarrow> bool" where
  "logs_in N send \<longleftrightarrow> (\<forall>q u p. hq_Method q = ''POST'' \<and> hq_Body q = values_encode [(''username'', [u]), (''password'', [p])] \<longrightarrow>
     (\<exists>b tok ttl. send q = Inr (plain_resp 200 b) \<and> int (length b) \<le> DefaultMaxBody \<and> ne_loginJSON N b = Some (tok, ttl) \<and> tok \<noteq> []))"

definition honest :: "nacosEnv \<Rightarrow> coordinates \<Rightarrow> string \<Rightarrow> bytes option \<Rightarrow> (hreq \<Rightarrow> err + hresp) \<Rightarrow> bool" where
  "honest N c ten content send \<longleftrightarrow> logs_in N send \<and>
     (\<forall>q. asks_for c ten q \<longrightarrow> send q = Inr (case content of None \<Rightarrow> plain_resp 404 [] | Some b \<Rightarrow> plain_resp 200 b)) \<and>
     (\<forall>q md5. probes c ten md5 q \<longrightarrow> send q = Inr (plain_resp 200 (if md5 = stored_md5 N content then [] else query_escape (listener_entry c ten))))"

text \<open>A transport that gets nothing through.\<close>

definition broken :: "(hreq \<Rightarrow> err + hresp) \<Rightarrow> bool" where
  "broken send \<longleftrightarrow> (\<forall>q. \<exists>e. send q = Inl e \<and> \<not> err_is e ErrNotFound)"

subsection \<open>Requests of the provider\<close>

lemma Do_200:
  assumes "build ok c r = Inr q" "send q = Inr (plain_resp 200 b)" "int (length b) \<le> cl_maxBody c" "cl_maxBody c < 2 ^ 63 - 1"
  shows "Do ok send c r = Inr \<lparr>rp_Status = 200, rp_Body = b, rp_ETag = [], rp_LastModified = [], rp_NotModified = False\<rparr>"
proof -
  have "wrap64 (cl_maxBody c + 1) = cl_maxBody c + 1" using assms(3,4) by (intro wrap64_id) auto
  thus ?thesis using assms by (simp add: Do_def Let_def classify_def readBounded_def limit_read_def plain_resp_def)
qed

lemma Do_404:
  assumes "build ok c r = Inr q" "send q = Inr (plain_resp 404 b)" "cl_errorDetail c = None"
  shows "\<exists>e. Do ok send c r = Inl e \<and> err_is e ErrNotFound"
  using assms by (simp add: Do_def Let_def classify_def http_sentinel_def plain_resp_def)

lemma setPath_plain:
  assumes "path_unescape req = Some req" "\<not> hasDotSegment req"
  shows "\<exists>u. setPath (EscapedPath base) req base = Inr u \<and> u_RawQuery u = u_RawQuery base"
proof -
  obtain d where "path_unescape (joinPath (EscapedPath base) req) = Some d"
    using joinPath_decoded [OF unescape_EscapedPath assms(1), of base] by auto
  thus ?thesis using assms by (simp add: setPath_def Let_def)
qed

lemma nacos_paths:
  "path_unescape ''v1/cs/configs'' = Some ''v1/cs/configs''" "\<not> hasDotSegment ''v1/cs/configs''"
  "path_unescape ''v1/cs/configs/listener'' = Some ''v1/cs/configs/listener''" "\<not> hasDotSegment ''v1/cs/configs/listener''"
  "path_unescape ''v1/auth/login'' = Some ''v1/auth/login''" "\<not> hasDotSegment ''v1/auth/login''"
  by code_simp+

text \<open>\<^verbatim>\<open>URL.Query\<close> agrees with \<^verbatim>\<open>ParseQuery\<close> where that succeeds.\<close>

lemma parse_pairs_fold:
  "parse_pairs ps m = Some m' \<Longrightarrow>
     fold (\<lambda>p m. if CHR '';'' \<in> set p \<or> p = [] then m else (case parse_pair p of None \<Rightarrow> m | Some (k, v) \<Rightarrow> al_append k v m)) ps m = m'"
  by (induction ps m rule: parse_pairs.induct) (auto split: if_splits option.splits)

lemma url_Query_parse: "parse_query q = Some m \<Longrightarrow> url_Query q = m"
  using parse_pairs_fold [of "split_on CHR ''&'' q" "[]" m] by (cases "q = []") (auto simp: url_Query_def parse_query_def)

lemma url_Query_encode: "opts_canonical m \<Longrightarrow> url_Query (values_encode m) = m"
  by (rule url_Query_parse [OF parse_query_encode])

text \<open>A provider whose client is built, without an injected authenticator; a login has a client of its own.\<close>

definition login_wired :: "tokenAuth \<Rightarrow> bool" where
  "login_wired t \<longleftrightarrow> cl_auth (ta_client t) = None \<and> cl_maxBody (ta_client t) = DefaultMaxBody \<and>
     (\<exists>user pass. ta_body t = values_encode [(''username'', [user]), (''password'', [pass])])"

definition wired :: "nacosEnv \<Rightarrow> httpClient \<Rightarrow> nacosProvider \<Rightarrow> bool" where
  "wired N client p \<longleftrightarrow> \<not> np_closed p \<and> np_client p = Some client \<and> (\<forall>m u. ne_ok N m u) \<and> u_RawQuery (cl_base client) = [] \<and> cl_auth client = None \<and>
     cl_errorDetail client = None \<and> cl_maxBody client < 2 ^ 63 - 1 \<and> (case np_login p of None \<Rightarrow> True | Some t \<Rightarrow> login_wired t)"

lemma wired_core: "wired N client p \<Longrightarrow> core N p = (p, Inr client)"
  by (simp add: wired_def core_def)

lemma build_plain:
  assumes "\<forall>m u. ne_ok N m u" "cl_auth client = None" "path_unescape (rq_Path r) = Some (rq_Path r)" "\<not> hasDotSegment (rq_Path r)"
  obtains q where "build (ne_ok N) client r = Inr q" "hq_Method q = (if rq_Method r = [] then ''GET'' else rq_Method r)" "hq_Body q = rq_Body r"
    "u_RawQuery (hq_URL q) = u_RawQuery (add_query (rq_Query r) (cl_base client))"
    "\<And>s. build (ne_ok N) (client\<lparr>cl_auth := Some (token_apply (Inr s))\<rparr>) r = QueryAuth ''accessToken'' s q"
    "\<And>e. build (ne_ok N) (client\<lparr>cl_auth := Some (token_apply (Inl e))\<rparr>) r = Inl (authError e)"
proof -
  obtain u where u: "setPath (EscapedPath (cl_base client)) (rq_Path r) (cl_base client) = Inr u" "u_RawQuery u = u_RawQuery (cl_base client)"
    using setPath_plain [OF assms(3,4)] by blast
  show ?thesis by (rule that) (use u assms(1,2) in \<open>auto simp: build_def Let_def add_query_def token_apply_def QueryAuth_def\<close>)
qed

lemma login_wired_store [simp]: "login_wired (token_store tok expiry t) = login_wired t"
  by (simp add: login_wired_def token_store_def)

lemma login_builds:
  assumes "login_wired t" "\<forall>m u. ne_ok N m u"
  obtains q where "build (ne_ok N) (ta_client t) (login_request t) = Inr q" "hq_Method q = ''POST''" "hq_Body q = ta_body t"
proof -
  have pre: "cl_auth (ta_client t) = None" "path_unescape (rq_Path (login_request t)) = Some (rq_Path (login_request t))" "\<not> hasDotSegment (rq_Path (login_request t))"
    using assms(1) nacos_paths by (simp_all add: login_wired_def login_request_def)
  show ?thesis by (rule build_plain [OF assms(2) pre]) (use that in \<open>simp add: login_request_def\<close>)
qed

lemma token_obtain_ok:
  assumes "login_wired t" "logs_in N send" "\<forall>m u. ne_ok N m u"
  shows "\<exists>t' tok. token_obtain N now send t = (t', Inr tok) \<and> login_wired t'"
proof (cases "token_cached now t")
  case None
  obtain q where q: "build (ne_ok N) (ta_client t) (login_request t) = Inr q" "hq_Method q = ''POST''" "hq_Body q = ta_body t"
    by (rule login_builds [OF assms(1,3)])
  then obtain b tok ttl where "send q = Inr (plain_resp 200 b)" "int (length b) \<le> DefaultMaxBody" "ne_loginJSON N b = Some (tok, ttl)" "tok \<noteq> []"
    using assms(1,2) unfolding login_wired_def logs_in_def by metis
  with Do_200 [OF q(1)] assms(1) have "\<exists>x. nacos_login N now send t = Inr x" by (auto simp: nacos_login_def login_wired_def DefaultMaxBody_def Let_def)
  thus ?thesis using None assms(1) by (auto simp: token_obtain_def)
qed (use assms(1) in \<open>auto simp: token_obtain_def\<close>)

lemma token_obtain_broken:
  assumes "login_wired t" "broken send" "\<forall>m u. ne_ok N m u"
  shows "\<exists>t' r. token_obtain N now send t = (t', r) \<and> login_wired t' \<and> (\<forall>e. r = Inl e \<longrightarrow> \<not> err_is e ErrNotFound)"
proof (cases "token_cached now t")
  case None
  obtain q where q: "build (ne_ok N) (ta_client t) (login_request t) = Inr q" by (rule login_builds [OF assms(1,3)])
  obtain e where "send q = Inl e" "\<not> err_is e ErrNotFound" using assms(2) unfolding broken_def by blast
  thus ?thesis using None q assms(1) by (auto simp: token_obtain_def nacos_login_def Do_def)
qed (use assms(1) in \<open>auto simp: token_obtain_def\<close>)

text \<open>
  What a request of a wired provider becomes: with the token, if there is a login, as one more parameter of its query.
\<close>

definition with_token :: "(string \<times> string list) list \<Rightarrow> string \<Rightarrow> bool" where
  "with_token query raw \<longleftrightarrow> raw = values_encode query \<or> (\<exists>s. raw = values_encode ((''accessToken'', [s]) # query))"

lemma add_query_config:
  assumes "u_RawQuery u = []" "distinct (map fst query)" "\<forall>(k, vs)\<in>set query. \<exists>v. vs = [v]"
  shows "u_RawQuery (add_query query u) = values_encode query"
proof -
  have e: "url_Query [] = []" by (simp add: url_Query_def)
  have "fold (\<lambda>(k, vs) m. fold (al_append k) vs m) ks m = m @ ks"
    if "distinct (map fst (m @ ks))" "\<forall>(k, vs)\<in>set ks. \<exists>v. vs = [v]" for ks m
    using that by (induction ks arbitrary: m) (auto simp: al_append_new)
  from this [of "[]" query] assms e show ?thesis by (auto simp: add_query_def values_encode_def encode_pairs_def)
qed

lemma nacos_Do_reaches:
  assumes w: "wired N client p" and s: "logs_in N send" and
    r: "path_unescape (rq_Path r) = Some (rq_Path r)" "\<not> hasDotSegment (rq_Path r)" and
    query: "opts_canonical (rq_Query r)" "\<forall>(k, vs)\<in>set (rq_Query r). \<exists>v. vs = [v]" "''accessToken'' \<notin> fst ` set (rq_Query r)"
  obtains p' client' q where "nacos_Do N now send client r p = (p', Do (ne_ok N) send client' r)" "build (ne_ok N) client' r = Inr q"
    "cl_maxBody client' = cl_maxBody client" "cl_errorDetail client' = None"
    "wired N client p'" "tenant N p' = tenant N p" "hq_Method q = (if rq_Method r = [] then ''GET'' else rq_Method r)" "hq_Body q = rq_Body r"
    "with_token (rq_Query r) (u_RawQuery (hq_URL q))"
proof -
  have ok: "\<forall>m u. ne_ok N m u" and auth: "cl_auth client = None" and raw: "u_RawQuery (cl_base client) = []" and det: "cl_errorDetail client = None"
    using w by (auto simp: wired_def)
  obtain q where q: "build (ne_ok N) client r = Inr q" "hq_Method q = (if rq_Method r = [] then ''GET'' else rq_Method r)" "hq_Body q = rq_Body r"
    "u_RawQuery (hq_URL q) = u_RawQuery (add_query (rq_Query r) (cl_base client))"
    "\<And>s. build (ne_ok N) (client\<lparr>cl_auth := Some (token_apply (Inr s))\<rparr>) r = QueryAuth ''accessToken'' s q"
    by (rule build_plain [OF ok auth r]) blast
  have enc: "u_RawQuery (hq_URL q) = values_encode (rq_Query r)"
    unfolding q(4) by (rule add_query_config [OF raw]) (use query in \<open>auto simp: opts_canonical_def\<close>)
  show ?thesis
  proof (cases "np_login p")
    case None
    show ?thesis by (rule that [OF _ q(1)]) (use None det w q(2,3) enc in \<open>auto simp: nacos_Do_def with_token_def\<close>)
  next
    case (Some t)
    hence "login_wired t" using w by (simp add: wired_def)
    then obtain t' tok where t': "token_obtain N now send t = (t', Inr tok)" "login_wired t'" using token_obtain_ok [OF _ s ok] by blast
    have keep: "filter (\<lambda>(k, _). k \<noteq> ''accessToken'') (rq_Query r) = rq_Query r" using query(3) by (intro filter_True) force
    have b: "build (ne_ok N) (client\<lparr>cl_auth := Some (token_apply (Inr tok))\<rparr>) r = Inr (q\<lparr>hq_URL := (hq_URL q)\<lparr>u_RawQuery := values_encode ((''accessToken'', [tok]) # rq_Query r)\<rparr>\<rparr>)"
      unfolding q(5) QueryAuth_def enc url_Query_encode [OF query(1)] keep ..
    show ?thesis by (rule that [OF _ b, where p' = "p\<lparr>np_login := Some t'\<rparr>"])
        (use Some t' q det w in \<open>auto simp: nacos_Do_def wired_def tenant_def with_token_def\<close>)
  qed
qed

lemma nacos_Do_broken:
  assumes w: "wired N client p" and s: "broken send" and r: "path_unescape (rq_Path r) = Some (rq_Path r)" "\<not> hasDotSegment (rq_Path r)"
  obtains p' e where "nacos_Do N now send client r p = (p', Inl e)" "\<not> err_is e ErrNotFound" "wired N client p'" "tenant N p' = tenant N p"
proof -
  have ok: "\<forall>m u. ne_ok N m u" and auth: "cl_auth client = None" using w by (auto simp: wired_def)
  obtain q where q: "build (ne_ok N) client r = Inr q"
    "\<And>s. build (ne_ok N) (client\<lparr>cl_auth := Some (token_apply (Inr s))\<rparr>) r = QueryAuth ''accessToken'' s q"
    "\<And>e. build (ne_ok N) (client\<lparr>cl_auth := Some (token_apply (Inl e))\<rparr>) r = Inl (authError e)"
    by (rule build_plain [OF ok auth r]) blast
  have sent: "\<exists>e. Do (ne_ok N) send c r = Inl e \<and> \<not> err_is e ErrNotFound" if b: "build (ne_ok N) c r = Inr q'" for c q'
  proof -
    obtain e where "send q' = Inl e" "\<not> err_is e ErrNotFound" using s unfolding broken_def by blast
    thus ?thesis using b by (simp add: Do_def)
  qed
  show ?thesis
  proof (cases "np_login p")
    case None
    obtain e where "Do (ne_ok N) send client r = Inl e" "\<not> err_is e ErrNotFound" using sent [OF q(1)] by blast
    thus ?thesis using that [of p e] None w by (simp add: nacos_Do_def)
  next
    case (Some t)
    hence "login_wired t" using w by (simp add: wired_def)
    then obtain t' tok where t': "token_obtain N now send t = (t', tok)" "login_wired t'" "\<forall>e. tok = Inl e \<longrightarrow> \<not> err_is e ErrNotFound"
      using token_obtain_broken [OF _ s ok] by blast
    have "\<exists>e. Do (ne_ok N) send (client\<lparr>cl_auth := Some (token_apply tok)\<rparr>) r = Inl e \<and> \<not> err_is e ErrNotFound"
    proof (cases tok)
      case (Inl e)
      thus ?thesis using t'(3) by (simp add: Do_def q(3) authError_def)
    next
      case (Inr s)
      have "\<exists>q'. build (ne_ok N) (client\<lparr>cl_auth := Some (token_apply tok)\<rparr>) r = Inr q'" unfolding Inr q(2) by (simp add: QueryAuth_def)
      thus ?thesis using sent by blast
    qed
    then obtain e where "Do (ne_ok N) send (client\<lparr>cl_auth := Some (token_apply tok)\<rparr>) r = Inl e" "\<not> err_is e ErrNotFound" by blast
    thus ?thesis using that [of "p\<lparr>np_login := Some t'\<rparr>" e] Some t'(1,2) q(1) w by (auto simp: nacos_Do_def wired_def tenant_def)
  qed
qed

subsection \<open>One exchange\<close>

lemma sorted_params:
  "sorted [''dataId'', ''group'']" "sorted [''dataId'', ''group'', ''tenant'']" "sorted [''accessToken'', ''dataId'', ''group'']"
  "sorted [''accessToken'', ''dataId'', ''group'', ''tenant'']"
  by code_simp+

lemma configQuery_canonical: "opts_canonical (configQuery N p c)" "opts_canonical ((''accessToken'', [s]) # configQuery N p c)"
  using sorted_params by (auto simp: opts_canonical_def configQuery_def)

lemma read_asks:
  assumes "with_token (configQuery N p c) (u_RawQuery (hq_URL q))" "hq_Method q = ''GET''"
  shows "asks_for c (tenant N p) q"
proof -
  obtain m where "parse_query (u_RawQuery (hq_URL q)) = Some m" "m = configQuery N p c \<or> (\<exists>s. m = (''accessToken'', [s]) # configQuery N p c)"
    using assms(1) parse_query_encode [OF configQuery_canonical(1) [of N p c]] parse_query_encode [OF configQuery_canonical(2) [of _ N p c]]
    unfolding with_token_def by metis
  thus ?thesis using assms(2) unfolding asks_for_def by (intro conjI exI [of _ m]) (auto simp: configQuery_def)
qed

lemma fetch_honest:
  assumes w: "wired N client p" and h: "honest N c (tenant N p) content send" and small: "\<forall>b. content = Some b \<longrightarrow> int (length b) \<le> cl_maxBody client"
  obtains p' r where "nacos_fetch N now send c p = (p', r)" "wired N client p'" "tenant N p' = tenant N p"
    "case content of None \<Rightarrow> \<exists>e. r = Inl e \<and> err_is e ErrNotFound | Some b \<Rightarrow> r = Inr b"
proof -
  let ?r = "read_request N p c"
  have pre: "path_unescape (rq_Path ?r) = Some (rq_Path ?r)" "\<not> hasDotSegment (rq_Path ?r)" "opts_canonical (rq_Query ?r)"
    "\<forall>(k, vs)\<in>set (rq_Query ?r). \<exists>v. vs = [v]" "''accessToken'' \<notin> fst ` set (rq_Query ?r)"
    using nacos_paths configQuery_canonical(1) by (auto simp: read_request_def configQuery_def)
  have lg: "logs_in N send" using h by (simp add: honest_def)
  from w lg pre obtain p' client' q where d: "nacos_Do N now send client ?r p = (p', Do (ne_ok N) send client' ?r)" "build (ne_ok N) client' ?r = Inr q"
    "cl_maxBody client' = cl_maxBody client" "cl_errorDetail client' = None" "wired N client p'" "tenant N p' = tenant N p"
    "hq_Method q = (if rq_Method ?r = [] then ''GET'' else rq_Method ?r)" "with_token (rq_Query ?r) (u_RawQuery (hq_URL q))"
    by (rule nacos_Do_reaches) blast
  have "asks_for c (tenant N p) q" using d(7,8) by (intro read_asks) (simp_all add: read_request_def)
  hence sent: "send q = Inr (case content of None \<Rightarrow> plain_resp 404 [] | Some b \<Rightarrow> plain_resp 200 b)" using h by (simp add: honest_def)
  have mb: "cl_maxBody client' < 2 ^ 63 - 1" using w d(3) by (simp add: wired_def)
  show ?thesis
  proof (cases content)
    case None
    then obtain e where "Do (ne_ok N) send client' ?r = Inl e" "err_is e ErrNotFound" using Do_404 [OF d(2) _ d(4), of send "[]"] sent by auto
    thus ?thesis using that [of p'] d None by (simp add: nacos_fetch_def wired_core [OF w])
  next
    case (Some b)
    hence "Do (ne_ok N) send client' ?r = Inr \<lparr>rp_Status = 200, rp_Body = b, rp_ETag = [], rp_LastModified = [], rp_NotModified = False\<rparr>"
      using sent small d(3) by (intro Do_200 [OF d(2) _ _ mb]) simp_all
    thus ?thesis using that [of p'] d Some by (simp add: nacos_fetch_def wired_core [OF w])
  qed
qed

lemma fetch_broken:
  assumes w: "wired N client p" and b: "broken send"
  obtains p' e where "nacos_fetch N now send c p = (p', Inl e)" "\<not> err_is e ErrNotFound" "wired N client p'" "tenant N p' = tenant N p"
proof -
  have pre: "path_unescape (rq_Path (read_request N p c)) = Some (rq_Path (read_request N p c))" "\<not> hasDotSegment (rq_Path (read_request N p c))"
    using nacos_paths by (auto simp: read_request_def)
  obtain p' e where "nacos_Do N now send client (read_request N p c) p = (p', Inl e)" "\<not> err_is e ErrNotFound" "wired N client p'" "tenant N p' = tenant N p"
    by (rule nacos_Do_broken [OF w b pre])
  thus ?thesis using that [of p' "Errorf ''nacos: read'' [e]"] by (simp add: nacos_fetch_def wired_core [OF w])
qed

lemma listen_broken:
  assumes w: "wired N client p" and b: "broken send"
  obtains p' e where "nacos_listen N now send c md5 hold p = (p', Inl e)" "wired N client p'" "tenant N p' = tenant N p"
proof -
  let ?r = "listen_request N p c md5 hold"
  have pre: "path_unescape (rq_Path ?r) = Some (rq_Path ?r)" "\<not> hasDotSegment (rq_Path ?r)" using nacos_paths by (auto simp: listen_request_def)
  obtain p' e where "nacos_Do N now send client ?r p = (p', Inl e)" "wired N client p'" "tenant N p' = tenant N p" by (rule nacos_Do_broken [OF w b pre])
  thus ?thesis using that [of p' "Errorf ''nacos: listen'' [e]"] by (simp add: nacos_listen_def wired_core [OF w])
qed

lemma listen_honest:
  assumes w: "wired N client p" and h: "honest N c (tenant N p) content send" and
    free: "sep_free (co_dataID c)" "sep_free (co_group c)" "sep_free (tenant N p)" "co_dataID c \<noteq> []" and
    small: "int (length (query_escape (listener_entry c (tenant N p)))) \<le> cl_maxBody client"
  obtains p' where "nacos_listen N now send c md5 hold p = (p', Inr (md5 \<noteq> stored_md5 N content))" "wired N client p'" "tenant N p' = tenant N p"
proof -
  let ?r = "listen_request N p c md5 hold"
  have pre: "path_unescape (rq_Path ?r) = Some (rq_Path ?r)" "\<not> hasDotSegment (rq_Path ?r)" "opts_canonical (rq_Query ?r)"
    "\<forall>(k, vs)\<in>set (rq_Query ?r). \<exists>v. vs = [v]" "''accessToken'' \<notin> fst ` set (rq_Query ?r)"
    using nacos_paths by (auto simp: listen_request_def opts_canonical_def)
  have lg: "logs_in N send" using h by (simp add: honest_def)
  from w lg pre obtain p' client' q where d: "nacos_Do N now send client ?r p = (p', Do (ne_ok N) send client' ?r)" "build (ne_ok N) client' ?r = Inr q"
    "cl_maxBody client' = cl_maxBody client" "wired N client p'" "tenant N p' = tenant N p"
    "hq_Method q = (if rq_Method ?r = [] then ''GET'' else rq_Method ?r)" "hq_Body q = rq_Body ?r"
    by (rule nacos_Do_reaches) blast
  have "parse_query (hq_Body q) = Some [(''Listening-Configs'', [probe N p c md5])]"
    unfolding d(7) using parse_query_encode [of "[(''Listening-Configs'', [probe N p c md5])]"] by (simp add: listen_request_def opts_canonical_def)
  hence "probes c (tenant N p) md5 q" using d(6) by (simp add: probes_def probe_def listen_request_def)
  hence sent: "send q = Inr (plain_resp 200 (if md5 = stored_md5 N content then [] else query_escape (listener_entry c (tenant N p))))" using h by (simp add: honest_def)
  have mb: "cl_maxBody client' < 2 ^ 63 - 1" using w d(3) by (simp add: wired_def)
  have fits: "int (length (if md5 = stored_md5 N content then [] else query_escape (listener_entry c (tenant N p)))) \<le> cl_maxBody client'"
    using small d(3) by (auto intro: order_trans [rotated])
  have "Do (ne_ok N) send client' ?r = Inr \<lparr>rp_Status = 200, rp_Body = (if md5 = stored_md5 N content then [] else query_escape (listener_entry c (tenant N p))),
      rp_ETag = [], rp_LastModified = [], rp_NotModified = False\<rparr>"
    by (rule Do_200 [where send = send, OF d(2) sent fits mb])
  thus ?thesis using that [of p'] d changedConfigs_entry [OF free(1-4), of c]
    by (simp add: nacos_listen_def wired_core [OF w])
qed

subsection \<open>The watch against the store\<close>

text \<open>
  What a watch of the store itself would report: at each round it compares what the store holds with what it read last, and reads when they differ. What happened to an exchange is \<open>None\<close> when it broke and
  otherwise the content the store had then. Absence and empty content are the same to the protocol.
\<close>

datatype outcome = Silent | Failure | Delivered bytes

definition held :: "bytes option \<Rightarrow> bytes" where
  "held content = (case content of None \<Rightarrow> [] | Some b \<Rightarrow> b)"

definition read_outcome :: "(bytes \<Rightarrow> err + Value) \<Rightarrow> bytes option \<Rightarrow> outcome" where
  "read_outcome f content = (case content of None \<Rightarrow> Silent | Some b \<Rightarrow> (case f b of Inl _ \<Rightarrow> Failure | Inr v \<Rightarrow> Delivered (v_Bytes v)))"

fun store_watch :: "(bytes \<Rightarrow> err + Value) \<Rightarrow> bytes \<Rightarrow> (bytes option option \<times> bytes option option) list \<Rightarrow> outcome list" where
  "store_watch f cur [] = []"
| "store_watch f cur ((None, b) # es) = Failure # store_watch f cur es"
| "store_watch f cur ((Some a, b) # es) =
     (if held a = cur then Silent # store_watch f cur es
      else (case b of None \<Rightarrow> Failure # store_watch f cur es | Some y \<Rightarrow> read_outcome f y # store_watch f (held y) es))"

definition outcome_of :: "err + LongPollResult \<Rightarrow> outcome" where
  "outcome_of r = (case r of Inl _ \<Rightarrow> Failure | Inr x \<Rightarrow> if lp_Changed x then Delivered (v_Bytes (lp_Value x)) else Silent)"

text \<open>How an exchange goes: broken, or with a server that holds the content then, within the ceiling on bodies.\<close>

definition goes :: "nacosEnv \<Rightarrow> httpClient \<Rightarrow> coordinates \<Rightarrow> string \<Rightarrow> bytes option option \<Rightarrow> (hreq \<Rightarrow> err + hresp) \<Rightarrow> bool" where
  "goes N client c ten s send = (case s of None \<Rightarrow> broken send
     | Some content \<Rightarrow> honest N c ten content send \<and> int (length (held content)) \<le> cl_maxBody client)"

definition addressable :: "nacosEnv \<Rightarrow> httpClient \<Rightarrow> coordinates \<Rightarrow> string \<Rightarrow> bool" where
  "addressable N client c ten \<longleftrightarrow> sep_free (co_dataID c) \<and> sep_free (co_group c) \<and> sep_free ten \<and> co_dataID c \<noteq> [] \<and>
     int (length (query_escape (listener_entry c ten))) \<le> cl_maxBody client"

text \<open>The contents that occur; the digest is assumed to tell these apart.\<close>

definition contents :: "(bytes option option \<times> bytes option option) list \<Rightarrow> bytes set" where
  "contents es = (\<Union>(a, b)\<in>set es. held ` (set_option a \<union> set_option b))"

lemma contents_Cons: "contents ((a, b) # es) = held ` (set_option a \<union> set_option b) \<union> contents es"
  by (simp add: contents_def)

lemma stored_md5_held: "stored_md5 N content = contentMD5 N (held content)"
  by (cases content) (simp_all add: stored_md5_def held_def contentMD5_def)

lemma observe_goes:
  assumes w: "wired N client p" and g: "goes N client c (tenant N p) s send"
  obtains p' known' r where "observe N now send c ref (p, known) = ((p', known'), r)" "wired N client p'" "tenant N p' = tenant N p"
    "case s of None \<Rightarrow> known' = known \<and> outcome_of r = Failure
       | Some content \<Rightarrow> known' = contentMD5 N (held content) \<and> outcome_of r = read_outcome (\<lambda>b. nacos_value N b ref) content"
proof (cases s)
  case None
  hence "broken send" using g by (simp add: goes_def)
  then obtain p' e where "nacos_fetch N now send c p = (p', Inl e)" "\<not> err_is e ErrNotFound" "wired N client p'" "tenant N p' = tenant N p"
    by (rule fetch_broken [OF w])
  thus ?thesis using that [of p' known] None by (simp add: observe_def outcome_of_def)
next
  case (Some content)
  hence h: "honest N c (tenant N p) content send" "\<forall>b. content = Some b \<longrightarrow> int (length b) \<le> cl_maxBody client"
    using g by (auto simp: goes_def held_def)
  obtain p' r where f: "nacos_fetch N now send c p = (p', r)" "wired N client p'" "tenant N p' = tenant N p"
    "case content of None \<Rightarrow> \<exists>e. r = Inl e \<and> err_is e ErrNotFound | Some b \<Rightarrow> r = Inr b" by (rule fetch_honest [OF w h])
  show ?thesis
  proof (cases content)
    case None
    thus ?thesis using that [of p' "[]"] f Some by (auto simp: observe_def outcome_of_def read_outcome_def held_def contentMD5_def no_change_def)
  next
    case b: (Some b)
    thus ?thesis using that [of p' "contentMD5 N b"] f Some
      by (simp add: observe_def outcome_of_def read_outcome_def held_def split: sum.splits)
  qed
qed

lemma round_goes:
  assumes w: "wired N client p" and addr: "addressable N client c (tenant N p)" and inj: "inj_on (contentMD5 N) (insert cur (contents ((a, b) # es)))" and
    g: "goes N client c (tenant N p) a l" "goes N client c (tenant N p) b r"
  obtains p' cur' res where "nacos_round N c ref hold ((t1, l), (t2, r)) (p, contentMD5 N cur) = ((p', contentMD5 N cur'), res)" "wired N client p'" "tenant N p' = tenant N p"
    "cur' \<in> insert cur (contents [(a, b)])"
    "store_watch (\<lambda>x. nacos_value N x ref) cur ((a, b) # es) = outcome_of res # store_watch (\<lambda>x. nacos_value N x ref) cur' es"
proof (cases a)
  case None
  hence "broken l" using g by (simp add: goes_def)
  then obtain p' e where "nacos_listen N t1 l c (contentMD5 N cur) hold p = (p', Inl e)" "wired N client p'" "tenant N p' = tenant N p"
    by (rule listen_broken [OF w])
  thus ?thesis using that [of p' cur] None by (simp add: nacos_round_def outcome_of_def)
next
  case (Some x)
  hence h: "honest N c (tenant N p) x l" using g by (simp add: goes_def)
  obtain p1 where li: "nacos_listen N t1 l c (contentMD5 N cur) hold p = (p1, Inr (contentMD5 N cur \<noteq> contentMD5 N (held x)))" "wired N client p1" "tenant N p1 = tenant N p"
    unfolding stored_md5_held [symmetric] by (rule listen_honest [OF w h]) (use addr in \<open>auto simp: addressable_def\<close>)
  have eq: "contentMD5 N cur = contentMD5 N (held x) \<longleftrightarrow> held x = cur"
    using inj Some by (auto simp: contents_Cons dest: inj_onD)
  show ?thesis
  proof (cases "held x = cur")
    case True
    thus ?thesis using that [of p1 cur] li Some by (simp add: nacos_round_def outcome_of_def no_change_def)
  next
    case False
    have g2: "goes N client c (tenant N p1) b r" using g(2) li(3) by simp
    obtain p' known' res where o: "observe N t2 r c ref (p1, contentMD5 N cur) = ((p', known'), res)" "wired N client p'" "tenant N p' = tenant N p1"
      "case b of None \<Rightarrow> known' = contentMD5 N cur \<and> outcome_of res = Failure
       | Some content \<Rightarrow> known' = contentMD5 N (held content) \<and> outcome_of res = read_outcome (\<lambda>b. nacos_value N b ref) content"
      by (rule observe_goes [OF li(2) g2])
    thus ?thesis using that [of p' "case b of None \<Rightarrow> cur | Some y \<Rightarrow> held y" res] li False eq Some
      by (cases b) (auto simp: nacos_round_def contents_def)
  qed
qed

lemma rounds_go:
  assumes "list_all2 (\<lambda>((_, l), (_, r)) (a, b). goes N client c ten a l \<and> goes N client c ten b r) xs es"
    "wired N client p" "tenant N p = ten" "addressable N client c ten" "inj_on (contentMD5 N) (insert cur (contents es))"
  shows "map outcome_of (snd (nacos_rounds N c ref hold xs (p, contentMD5 N cur))) = store_watch (\<lambda>b. nacos_value N b ref) cur es"
  using assms
proof (induction xs es arbitrary: p cur rule: list_all2_induct)
  case (Cons x xs e es)
  obtain t1 l t2 r a b where x: "x = ((t1, l), (t2, r))" "e = (a, b)" by (cases x; cases e) auto
  have g: "goes N client c (tenant N p) a l" "goes N client c (tenant N p) b r" using Cons.hyps(1) Cons.prems(2) x by auto
  have ad: "addressable N client c (tenant N p)" and inj: "inj_on (contentMD5 N) (insert cur (contents ((a, b) # es)))" using Cons.prems x by auto
  obtain p' cur' res where s: "nacos_round N c ref hold ((t1, l), (t2, r)) (p, contentMD5 N cur) = ((p', contentMD5 N cur'), res)" "wired N client p'" "tenant N p' = tenant N p"
    "cur' \<in> insert cur (contents [(a, b)])"
    "store_watch (\<lambda>x. nacos_value N x ref) cur ((a, b) # es) = outcome_of res # store_watch (\<lambda>x. nacos_value N x ref) cur' es"
    by (rule round_goes [OF Cons.prems(1) ad inj g])
  have "insert cur' (contents es) \<subseteq> insert cur (contents ((a, b) # es))" using s(4) by (auto simp: contents_def)
  hence "inj_on (contentMD5 N) (insert cur' (contents es))" using inj by (rule inj_on_subset [rotated])
  from Cons.IH [OF s(2) _ Cons.prems(3) this] s(3) Cons.prems(2)
  have "map outcome_of (snd (nacos_rounds N c ref hold xs (p', contentMD5 N cur'))) = store_watch (\<lambda>b. nacos_value N b ref) cur' es" by simp
  thus ?case unfolding x(2) s(5) by (simp add: x(1) s(1) split_def)
qed simp

definition update_outcome :: "Update \<Rightarrow> outcome" where
  "update_outcome u = (case u_Err u of Some _ \<Rightarrow> Failure | None \<Rightarrow> Delivered (v_Bytes (u_Value u)))"

lemma poll_updates_outcomes: "map update_outcome (poll_updates rs) = filter (\<lambda>x. x \<noteq> Silent) (map outcome_of rs)"
  by (induction rs) (auto simp: poll_updates_def outcome_of_def update_outcome_def update_err_def split: sum.splits)

lemma poll_updates_length: "length (poll_updates rs) \<le> length rs"
  by (induction rs) (auto simp: poll_updates_def split: sum.splits)

lemma nacos_rounds_length: "length (snd (nacos_rounds N c ref hold xs st)) = length xs"
  by (induction xs arbitrary: st) (simp_all add: split_def)

lemma nacos_watch_outcomes:
  assumes "coordinatesFor N p0 ref = Inr c" "core N p0 = (p, Inr client)" "wired N client p" "addressable N client c (tenant N p)"
    "goes N client c (tenant N p) (Some content) (snd base)"
    "list_all2 (\<lambda>((_, l), (_, r)) (a, b). goes N client c (tenant N p) a l \<and> goes N client c (tenant N p) b r) xs es"
    "inj_on (contentMD5 N) (insert (held content) (contents es))" "length xs + 1 < left"
  shows "\<exists>us. Watch_nacos N base xs left ref p0 = Inr us \<and>
    map update_outcome us = filter (\<lambda>x. x \<noteq> Silent) (read_outcome (\<lambda>b. nacos_value N b ref) content # store_watch (\<lambda>b. nacos_value N b ref) (held content) es)"
proof -
  obtain p' known' r where o: "observe N (fst base) (snd base) c ref (p, []) = ((p', known'), r)" "wired N client p'" "tenant N p' = tenant N p"
    "known' = contentMD5 N (held content)" "outcome_of r = read_outcome (\<lambda>b. nacos_value N b ref) content"
    by (rule observe_goes [OF assms(3,5), of "fst base" ref "[]"]) auto
  obtain hold d z where h: "longpoll_times \<lparr>lc_Hold = np_hold p0, lc_Grace = 0, lc_ErrorPause = 0\<rparr> = (hold, d, z)" using prod_cases3 by blast
  let ?rs = "r # snd (nacos_rounds N c ref hold xs (p', contentMD5 N (held content)))"
  have "length (poll_updates ?rs) < left" using poll_updates_length [of ?rs] assms(8) by (simp add: nacos_rounds_length)
  from longpoll_delivers_all [OF this, of "[]"] have ll: "snd (longpoll_loop ?rs (left, [])) = poll_updates ?rs" by (simp only: snd_conv append_Nil)
  have "Watch_nacos N base xs left ref p0 = Inr (snd (longpoll_loop ?rs (left, [])))"
    unfolding Watch_nacos_def LongPoll_def assms(1,2) sum.case prod.case o(1) option.case h o(4) by simp
  hence "Watch_nacos N base xs left ref p0 = Inr (poll_updates ?rs)" unfolding ll .
  moreover have out: "map outcome_of ?rs = read_outcome (\<lambda>b. nacos_value N b ref) content # store_watch (\<lambda>b. nacos_value N b ref) (held content) es"
    using rounds_go [OF assms(6) o(2,3) assms(4,7), of ref hold] o(5) by simp
  have "map update_outcome (poll_updates ?rs) = filter (\<lambda>x. x \<noteq> Silent) (read_outcome (\<lambda>b. nacos_value N b ref) content # store_watch (\<lambda>b. nacos_value N b ref) (held content) es)"
    unfolding poll_updates_outcomes out ..
  ultimately show ?thesis by (intro exI conjI)
qed

text \<open>Once the store holds something for a whole round, that is what was delivered last.\<close>

definition delivered :: "outcome \<Rightarrow> bool" where
  "delivered x \<longleftrightarrow> (\<exists>b. x = Delivered b)"

lemma delivered_simps [simp]: "delivered (Delivered b)" "\<not> delivered Silent" "\<not> delivered Failure"
  by (simp_all add: delivered_def)

lemma filter_delivered: "filter delivered (filter (\<lambda>x. x \<noteq> Silent) xs) = filter delivered xs"
  by (induction xs) auto

lemma store_watch_settles:
  assumes "f v = Inr val" "v \<noteq> []" "cur = v \<longrightarrow> (\<exists>ds. filter delivered prev = ds @ [Delivered (v_Bytes val)])"
  shows "\<exists>ds. filter delivered (prev @ store_watch f cur (pre @ [(Some (Some v), Some (Some v))])) = ds @ [Delivered (v_Bytes val)]"
  using assms(3)
proof (induction pre arbitrary: cur prev)
  case Nil
  thus ?case using assms(1) by (auto simp: held_def read_outcome_def)
next
  case (Cons e pre)
  have step: "\<exists>ds. filter delivered (prev @ x # store_watch f cur' (pre @ [(Some (Some v), Some (Some v))])) = ds @ [Delivered (v_Bytes val)]"
    if "cur' = v \<longrightarrow> (\<exists>ds. filter delivered (prev @ [x]) = ds @ [Delivered (v_Bytes val)])" for x cur'
    using Cons.IH [OF that] by simp
  have new: "held y = v \<longrightarrow> (\<exists>ds. filter delivered (prev @ [read_outcome f y]) = ds @ [Delivered (v_Bytes val)])" for y
    using assms(1,2) by (auto simp: held_def read_outcome_def split: option.splits)
  obtain a b where e: "e = (a, b)" by (cases e)
  show ?case
  proof (cases a)
    case None
    thus ?thesis using step [of cur Failure] Cons.prems e by simp
  next
    case (Some x)
    thus ?thesis using step [of cur Silent] step [of cur Failure] step [OF new] Cons.prems e by (cases b) auto
  qed
qed

text \<open>
  C30. A watch of a configuration, whatever the store goes through and whichever exchanges break: what it delivers is what comparing the store with the last content read delivers, in that order and
  nothing else, although the server is only ever asked whether a digest is still right and the reading comes later. So no change is lost between the baseline and the first round or between a round and its read: once
  the store holds a content for a whole round, its value is what was delivered last. The server answers the listener and the reads from what it stores at that moment, and the digest tells the
  contents that occur apart.
\<close>

theorem nacos_watch_no_gap:
  assumes "coordinatesFor N p0 ref = Inr c" "core N p0 = (p, Inr client)" "wired N client p" "addressable N client c (tenant N p)"
    "goes N client c (tenant N p) (Some content) (snd base)"
    "list_all2 (\<lambda>((_, l), (_, r)) (a, b). goes N client c (tenant N p) a l \<and> goes N client c (tenant N p) b r) xs es"
    "inj_on (contentMD5 N) (insert (held content) (contents es))" "length xs + 1 < left"
    "es = pre @ [(Some (Some v), Some (Some v))]" "v \<noteq> []" "nacos_value N v ref = Inr val"
  shows "\<exists>us ds. Watch_nacos N base xs left ref p0 = Inr us \<and>
    map update_outcome us = filter (\<lambda>x. x \<noteq> Silent) (read_outcome (\<lambda>b. nacos_value N b ref) content # store_watch (\<lambda>b. nacos_value N b ref) (held content) es) \<and>
    filter delivered (map update_outcome us) = ds @ [Delivered (v_Bytes val)]"
proof -
  let ?f = "\<lambda>b. nacos_value N b ref"
  obtain us where us: "Watch_nacos N base xs left ref p0 = Inr us"
    "map update_outcome us = filter (\<lambda>x. x \<noteq> Silent) (read_outcome ?f content # store_watch ?f (held content) es)"
    using nacos_watch_outcomes [OF assms(1-8)] by blast
  have "held content = v \<longrightarrow> (\<exists>ds. filter delivered [read_outcome ?f content] = ds @ [Delivered (v_Bytes val)])"
    using assms(10,11) by (auto simp: held_def read_outcome_def split: option.splits)
  from store_watch_settles [where f = ?f, OF assms(11,10) this, of pre]
  obtain ds where "filter delivered (read_outcome ?f content # store_watch ?f (held content) es) = ds @ [Delivered (v_Bytes val)]" unfolding assms(9) by auto
  hence "filter delivered (map update_outcome us) = ds @ [Delivered (v_Bytes val)]" unfolding us(2) filter_delivered .
  with us show ?thesis by blast
qed

subsection \<open>A server\<close>

text \<open>A server of one configuration, without a namespace, that keeps the promises above; the digest is the content itself.\<close>

definition nacos_demo_env :: nacosEnv where
  "nacos_demo_env = \<lparr>ne_Getenv = (\<lambda>_. []), ne_Parse = (\<lambda>s. Some \<lparr>u_Scheme = ''http'', u_User = None, u_Host = ''nacos:8848'', u_Path = ''/nacos'', u_RawPath = [],
     u_RawQuery = [], u_Fragment = []\<rparr>), ne_ok = (\<lambda>_ _. True), ne_json = \<lparr>j_object = (\<lambda>_. None), j_array = (\<lambda>_. None), j_string = (\<lambda>_. None)\<rparr>, ne_loginJSON = (\<lambda>_. Some (''tok'', 3600)), ne_md5 = (\<lambda>b. b)\<rparr>"

definition nacos_demo_coordinates :: coordinates where "nacos_demo_coordinates = \<lparr>co_group = ''prod'', co_dataID = ''app.json''\<rparr>"

definition nacos_demo_server :: "bytes option \<Rightarrow> hreq \<Rightarrow> err + hresp" where
  "nacos_demo_server content q =
     (if hq_Method q = ''GET'' then Inr (case content of None \<Rightarrow> plain_resp 404 [] | Some b \<Rightarrow> plain_resp 200 b)
      else (case parse_query (hq_Body q) of
         Some [(k, [txt])] \<Rightarrow> if k \<noteq> ''Listening-Configs'' then Inr (plain_resp 200 [])
            else Inr (plain_resp 200 (if txt = probe nacos_demo_env zero_nacos nacos_demo_coordinates (stored_md5 nacos_demo_env content) then [] else query_escape (listener_entry nacos_demo_coordinates [])))
       | _ \<Rightarrow> Inr (plain_resp 200 [])))"

lemma login_form_parses:
  "parse_query (values_encode [(''username'', [u]), (''password'', [p])]) = Some [(''password'', [p]), (''username'', [u])]"
proof -
  have s: "sort [''username'', ''password''] = [''password'', ''username'']" "sorted [''password'', ''username'']" by code_simp+
  have "values_encode [(''username'', [u]), (''password'', [p])] = values_encode [(''password'', [p]), (''username'', [u])]"
    using s by (simp add: values_encode_def encode_pairs_def sorted_sort_id del: sort_key_simps)
  moreover have "opts_canonical [(''password'', [p]), (''username'', [u])]" using s by (simp add: opts_canonical_def)
  ultimately show ?thesis using parse_query_encode by metis
qed

lemma nacos_server_honest: "honest nacos_demo_env nacos_demo_coordinates [] content (nacos_demo_server content)"
proof -
  have "tenant nacos_demo_env zero_nacos = []" by code_simp
  hence "probes nacos_demo_coordinates [] md5 q \<Longrightarrow> nacos_demo_server content q =
      Inr (plain_resp 200 (if md5 = stored_md5 nacos_demo_env content then [] else query_escape (listener_entry nacos_demo_coordinates [])))" for md5 q
    by (auto simp: probes_def nacos_demo_server_def probe_def)
  moreover have "logs_in nacos_demo_env (nacos_demo_server content)"
    by (auto simp: logs_in_def nacos_demo_server_def login_form_parses nacos_demo_env_def DefaultMaxBody_def)
  ultimately show ?thesis by (auto simp: honest_def asks_for_def nacos_demo_server_def)
qed

definition nacos_demo_provider :: nacosProvider where
  "nacos_demo_provider = New_nacos [WithCredentials ''svc'' ''pw'']"

definition nacos_demo_ref :: Ref where
  "nacos_demo_ref = \<lparr>r_Scheme = ''nacos'', r_Path = ''prod/app.json'', r_Key = [], r_Opts = [], r_Raw = []\<rparr>"

definition nacos_demo_url :: url where "nacos_demo_url = the (ne_Parse nacos_demo_env [])"

definition nacos_demo_client :: httpClient where
  "nacos_demo_client = \<lparr>cl_base = nacos_demo_url, cl_auth = None, cl_maxBody = DefaultMaxBody, cl_userAgent = ''mamori-nacos'', cl_errorDetail = None, cl_redactPath = None\<rparr>"

definition nacos_demo_built :: nacosProvider where
  "nacos_demo_built = nacos_demo_provider\<lparr>np_builds := 1, np_client := Some nacos_demo_client, np_login := Some \<lparr>ta_client = nacos_demo_client,
     ta_body = values_encode [(''username'', [''svc'']), (''password'', [''pw''])], ta_token = None, ta_expiry = None\<rparr>\<rparr>"

lemma nacos_demo_core: "core nacos_demo_env nacos_demo_provider = (nacos_demo_built, Inr nacos_demo_client)"
proof -
  have "New_Client (ne_Parse nacos_demo_env) \<lparr>hc_BaseURL = baseURL a b, hc_Auth = None, hc_MaxBody = 0, hc_UserAgent = ''mamori-nacos'', hc_ErrorDetail = None, hc_RedactPath = None\<rparr> = Inr nacos_demo_client" for a b
    by (simp add: New_Client_def baseURL_def nacos_demo_env_def nacos_demo_client_def nacos_demo_url_def)
  thus ?thesis
    by (simp add: core_def nacos_build_def nacos_authenticator_def newTokenAuth_def Let_def nacos_demo_provider_def New_nacos_def zero_nacos_def WithCredentials_def nacos_demo_built_def)
qed

lemma nacos_demo_wired: "wired nacos_demo_env nacos_demo_client nacos_demo_built"
proof -
  have "login_wired \<lparr>ta_client = nacos_demo_client, ta_body = values_encode [(''username'', [''svc'']), (''password'', [''pw''])], ta_token = None, ta_expiry = None\<rparr>"
    unfolding login_wired_def by (auto simp: nacos_demo_client_def)
  thus ?thesis by (simp add: wired_def nacos_demo_built_def nacos_demo_client_def nacos_demo_env_def nacos_demo_url_def DefaultMaxBody_def
      nacos_demo_provider_def New_nacos_def zero_nacos_def WithCredentials_def)
qed

lemma nacos_demo_goes: "length (held content) \<le> 9 \<Longrightarrow> goes nacos_demo_env nacos_demo_client nacos_demo_coordinates [] (Some content) (nacos_demo_server content)"
  using nacos_server_honest [of content] by (simp add: goes_def nacos_demo_client_def DefaultMaxBody_def)

text \<open>The configuration is written between the baseline and the first round, a round breaks, and it is written again between a round and its read.\<close>

theorem nacos_watch_no_gap_witness:
  "\<exists>us ds. Watch_nacos nacos_demo_env (0, nacos_demo_server None)
      [((1, nacos_demo_server (Some ''a'')), (2, nacos_demo_server (Some ''a''))), ((3, \<lambda>_. Inl (Opaque ''reset'')), (4, nacos_demo_server None)),
       ((5, nacos_demo_server (Some ''b'')), (6, nacos_demo_server (Some ''c''))), ((7, nacos_demo_server (Some ''c'')), (8, nacos_demo_server (Some ''c'')))] 9 nacos_demo_ref nacos_demo_provider = Inr us \<and>
    map update_outcome us = [Delivered ''a'', Failure, Delivered ''c''] \<and> filter delivered (map update_outcome us) = ds @ [Delivered ''c'']"
proof -
  let ?xs = "[((1, nacos_demo_server (Some ''a'')), (2, nacos_demo_server (Some ''a''))), ((3, \<lambda>_. Inl (Opaque ''reset'')), (4, nacos_demo_server None)),
      ((5, nacos_demo_server (Some ''b'')), (6, nacos_demo_server (Some ''c''))), ((7, nacos_demo_server (Some ''c'')), (8, nacos_demo_server (Some ''c'')))]"
  let ?pre = "[(Some (Some ''a''), Some (Some ''a'')), (None, Some None), (Some (Some ''b''), Some (Some ''c''))]"
  let ?es = "?pre @ [(Some (Some ''c''), Some (Some ''c''))]"
  have co: "coordinatesFor nacos_demo_env nacos_demo_provider nacos_demo_ref = Inr nacos_demo_coordinates" by code_simp
  have ten: "tenant nacos_demo_env nacos_demo_built = []" by code_simp
  have addr: "addressable nacos_demo_env nacos_demo_client nacos_demo_coordinates []" by code_simp
  have br: "goes nacos_demo_env nacos_demo_client nacos_demo_coordinates [] None (\<lambda>_. Inl (Opaque ''reset''))" by (simp add: goes_def broken_def)
  have inj: "inj_on (contentMD5 nacos_demo_env) A" for A by (rule inj_onI) (simp add: contentMD5_def nacos_demo_env_def split: if_splits)
  have val: "nacos_value nacos_demo_env b nacos_demo_ref = Inr (zero_Value\<lparr>v_Bytes := b, v_Version := VersionHash b\<rparr>)" for b
    by (simp add: nacos_value_def nacos_demo_ref_def)
  have go: "list_all2 (\<lambda>((_, l), (_, r)) (a, b). goes nacos_demo_env nacos_demo_client nacos_demo_coordinates [] a l \<and> goes nacos_demo_env nacos_demo_client nacos_demo_coordinates [] b r) ?xs ?es"
    using br by (simp add: nacos_demo_goes held_def)
  have spec: "filter (\<lambda>x. x \<noteq> Silent) (read_outcome (\<lambda>b. nacos_value nacos_demo_env b nacos_demo_ref) None # store_watch (\<lambda>b. nacos_value nacos_demo_env b nacos_demo_ref) (held None) ?es)
      = [Delivered ''a'', Failure, Delivered ''c'']"
    by (simp add: read_outcome_def held_def val)
  have base: "goes nacos_demo_env nacos_demo_client nacos_demo_coordinates [] (Some None) (snd (0, nacos_demo_server None))"
    by (simp add: nacos_demo_goes held_def)
  show ?thesis
    using nacos_watch_no_gap [OF co nacos_demo_core nacos_demo_wired, unfolded ten, OF addr base go inj _ refl _ val, of 9] unfolding spec by simp
qed

end
