(* ===== verification/SqlSources.thy ===== *)
theory SqlSources
  imports Nacos
begin

text \<open>
  The providers over SQL databases: \<^verbatim>\<open>providers/postgres\<close>, \<^verbatim>\<open>providers/sqlite\<close> and \<^verbatim>\<open>providers/mysql\<close>, each with its options, its handle on the database, the statement it makes of a ref and the
  value it makes of a row.

  The drivers and the databases are arguments. A statement that is run is its text and the argument bound to it; the answer is a row, or what kind of failure \<^verbatim>\<open>errors.Is\<close> and \<^verbatim>\<open>errors.As\<close> see in the
  driver's error: no row, a driver error with its code, or another one.
\<close>

subsection \<open>Identifiers\<close>

text \<open>\<^verbatim>\<open>^[A-Za-z_][A-Za-z0-9_]*$\<close>\<close>

definition ident_char :: "char \<Rightarrow> bool" where
  "ident_char c \<longleftrightarrow> is_alpha c \<or> is_digit c \<or> c = CHR ''_''"

definition validIdent :: "string \<Rightarrow> bool" where
  "validIdent s = (case s of [] \<Rightarrow> False | c # cs \<Rightarrow> ident_char c \<and> \<not> is_digit c \<and> list_all ident_char cs)"

definition validTable :: "string \<Rightarrow> bool" where
  "validTable s = (case cut CHR ''.'' s of
     None \<Rightarrow> validIdent s
   | Some (schema, table) \<Rightarrow> CHR ''.'' \<notin> set table \<and> validIdent schema \<and> validIdent table)"

definition or_default :: "string \<Rightarrow> string \<Rightarrow> string" where
  "or_default v d = (if v = [] then d else v)"

datatype 'c dbfail = NoRows | Coded 'c err | Plain err

fun fail_err :: "'c dbfail \<Rightarrow> err" where
  "fail_err NoRows = Opaque ''no rows in result set''"
| "fail_err (Coded c e) = e"
| "fail_err (Plain e) = e"

text \<open>A driver error keeps its own error below the sentinel of its code.\<close>

definition classify_code :: "('c \<Rightarrow> sentinel option) \<Rightarrow> 'c dbfail \<Rightarrow> err" where
  "classify_code table f = (case f of
     Coded c e \<Rightarrow> (case table c of Some s \<Rightarrow> Errorf [] [Sentinel s, e] | None \<Rightarrow> e)
   | _ \<Rightarrow> fail_err f)"

text \<open>The value of a row: the selected bytes under a version.\<close>

definition row_value :: "json_codec \<Rightarrow> Ref \<Rightarrow> bytes \<Rightarrow> string \<Rightarrow> bool \<Rightarrow> (string \<times> string) list \<Rightarrow> err + Value" where
  "row_value j ref raw ver sensitive meta = (case (if r_Key ref = [] then Inr raw else SelectKey j raw (r_Key ref)) of
     Inl e \<Rightarrow> Inl e
   | Inr b \<Rightarrow> Inr (zero_Value\<lparr>v_Bytes := b, v_Version := ver, v_Sensitive := sensitive, v_Metadata := meta\<rparr>))"

subsection \<open>PostgreSQL\<close>

datatype pool = InjectedPool | OwnPool string

record pgProvider =
  pg_dsn :: string
  pg_keyCol :: string
  pg_valCol :: string
  pg_versionCol :: string
  pg_channel :: string
  pg_sensitive :: bool
  pg_be :: "pool option"
  pg_ownPool :: bool
  pg_closed :: bool

definition pg_WithDSN :: "string \<Rightarrow> pgProvider \<Rightarrow> pgProvider" where "pg_WithDSN dsn p = p\<lparr>pg_dsn := dsn\<rparr>"
definition pg_WithPool :: "bool \<Rightarrow> pgProvider \<Rightarrow> pgProvider" where "pg_WithPool given p = (if given then p\<lparr>pg_be := Some InjectedPool\<rparr> else p)"
definition pg_WithKeyColumn :: "string \<Rightarrow> pgProvider \<Rightarrow> pgProvider" where "pg_WithKeyColumn c p = p\<lparr>pg_keyCol := c\<rparr>"
definition pg_WithValueColumn :: "string \<Rightarrow> pgProvider \<Rightarrow> pgProvider" where "pg_WithValueColumn c p = p\<lparr>pg_valCol := c\<rparr>"
definition pg_WithVersionColumn :: "string \<Rightarrow> pgProvider \<Rightarrow> pgProvider" where "pg_WithVersionColumn c p = p\<lparr>pg_versionCol := c\<rparr>"
definition pg_WithChannel :: "string \<Rightarrow> pgProvider \<Rightarrow> pgProvider" where "pg_WithChannel c p = p\<lparr>pg_channel := c\<rparr>"
definition pg_WithSensitive :: "bool \<Rightarrow> pgProvider \<Rightarrow> pgProvider" where "pg_WithSensitive b p = p\<lparr>pg_sensitive := b\<rparr>"

definition zero_pg :: pgProvider where
  "zero_pg = \<lparr>pg_dsn = [], pg_keyCol = ''key'', pg_valCol = ''value'', pg_versionCol = [], pg_channel = ''mamori_config'', pg_sensitive = False, pg_be = None,
     pg_ownPool = False, pg_closed = False\<rparr>"

definition New_postgres :: "(pgProvider \<Rightarrow> pgProvider) list \<Rightarrow> pgProvider" where
  "New_postgres opts = (let p = fold (\<lambda>opt p. opt p) opts zero_pg in
     p\<lparr>pg_keyCol := or_default (pg_keyCol p) ''key'', pg_valCol := or_default (pg_valCol p) ''value'', pg_channel := or_default (pg_channel p) ''mamori_config''\<rparr>)"

text \<open>\<open>connect\<close> is \<^verbatim>\<open>pgxpool.New\<close>.\<close>

definition backendFor :: "(string \<Rightarrow> string) \<Rightarrow> (string \<Rightarrow> err option) \<Rightarrow> pgProvider \<Rightarrow> pgProvider \<times> (err + pool)" where
  "backendFor getenv connect p =
     (if pg_closed p then (p, Inl (Errorf ''postgres: provider is closed'' [Sentinel ErrUnavailable]))
      else (case pg_be p of Some be \<Rightarrow> (p, Inr be)
      | None \<Rightarrow> (let dsn = or_default (pg_dsn p) (getenv ''DATABASE_URL'') in
          if dsn = [] then (p, Inl (Opaque ''postgres: no DSN configured; set DATABASE_URL or use postgres.WithDSN''))
          else (case connect dsn of Some e \<Rightarrow> (p, Inl (Errorf ''postgres: connect'' [e]))
             | None \<Rightarrow> (p\<lparr>pg_ownPool := True, pg_be := Some (OwnPool dsn)\<rparr>, Inr (OwnPool dsn))))))"

text \<open>\<^verbatim>\<open>Close\<close>, with whether it closes a pool.\<close>

definition Close_postgres :: "pgProvider \<Rightarrow> pgProvider \<times> bool" where
  "Close_postgres p = (p\<lparr>pg_closed := True, pg_be := None, pg_ownPool := False\<rparr>, pg_ownPool p)"

definition errUnsafeIdentifier :: err where "errUnsafeIdentifier = Opaque ''unsafe SQL identifier rejected''"

text \<open>The statement for a table and the columns of a ref.\<close>

definition pg_statement :: "pgProvider \<Rightarrow> Ref \<Rightarrow> string \<Rightarrow> err + string" where
  "pg_statement p ref table = (let keyCol = or_default (Opt ref ''key_col'') (pg_keyCol p); valCol = or_default (Opt ref ''val_col'') (pg_valCol p) in
     if \<not> validTable table then Inl (Errorf ''postgres: table'' [errUnsafeIdentifier])
     else if \<not> validIdent keyCol then Inl (Errorf ''postgres: key_col'' [errUnsafeIdentifier])
     else if \<not> validIdent valCol then Inl (Errorf ''postgres: val_col'' [errUnsafeIdentifier])
     else if pg_versionCol p \<noteq> [] \<and> \<not> validIdent (pg_versionCol p) then Inl (Errorf ''postgres: version column'' [errUnsafeIdentifier])
     else Inr (''SELECT '' @ valCol @ (if pg_versionCol p \<noteq> [] then '', '' @ pg_versionCol p @ ''::text'' else []) @ '' FROM '' @ table @ '' WHERE '' @ keyCol @ '' = $1''))"

definition pg_plan :: "pgProvider \<Rightarrow> Ref \<Rightarrow> err + string \<times> string" where
  "pg_plan p ref = (case cut CHR ''/'' (r_Path ref) of
     None \<Rightarrow> Inl (Opaque ''postgres: ref must be postgres://<table>/<key>'')
   | Some (table, keyval) \<Rightarrow>
      if table = [] \<or> keyval = [] then Inl (Opaque ''postgres: ref must be postgres://<table>/<key>'')
      else bind_res (pg_statement p ref table) (\<lambda>sql. Inr (sql, keyval)))"

definition pg_table :: "string \<Rightarrow> sentinel option" where
  "pg_table c = (if c = ''42501'' then Some ErrPermissionDenied else if c \<in> {''28P01'', ''28000''} then Some ErrUnauthenticated
     else if c \<in> {''53300'', ''57P03'', ''08006'', ''08001'', ''08004''} then Some ErrUnavailable else None)"

definition classifyPostgres :: "string dbfail \<Rightarrow> err" where "classifyPostgres f = classify_code pg_table f"

definition mapScanErr :: "string dbfail \<Rightarrow> err" where
  "mapScanErr f = (if f = NoRows then Errorf ''postgres: key not found'' [Sentinel ErrNotFound] else Errorf ''postgres: query key'' [classifyPostgres f])"

text \<open>A row as \<^verbatim>\<open>Scan\<close> fills it: the value and, where a version column was asked for, the version.\<close>

type_synonym pg_query = "pool \<Rightarrow> string \<times> string \<Rightarrow> string dbfail + bytes \<times> string"

definition resolveWith :: "json_codec \<Rightarrow> pg_query \<Rightarrow> pool \<Rightarrow> string \<times> string \<Rightarrow> Ref \<Rightarrow> pgProvider \<Rightarrow> err + Value" where
  "resolveWith j query be stmt ref p = (case query be stmt of
     Inl f \<Rightarrow> Inl (mapScanErr f)
   | Inr (raw, ver) \<Rightarrow> row_value j ref raw (if pg_versionCol p \<noteq> [] then ver else VersionHash raw) (pg_sensitive p) [])"

definition Resolve_postgres :: "(string \<Rightarrow> string) \<Rightarrow> (string \<Rightarrow> err option) \<Rightarrow> json_codec \<Rightarrow> pg_query \<Rightarrow> err option \<Rightarrow> Ref \<Rightarrow> pgProvider \<Rightarrow> pgProvider \<times> (err + Value)" where
  "Resolve_postgres getenv connect j query ctxErr ref p = (case ctxErr of Some e \<Rightarrow> (p, Inl e)
   | None \<Rightarrow> (case pg_plan p ref of Inl e \<Rightarrow> (p, Inl e)
   | Inr stmt \<Rightarrow> (case backendFor getenv connect p of
        (p', Inl e) \<Rightarrow> (p', Inl e)
      | (p', Inr be) \<Rightarrow> (p', resolveWith j query be stmt ref p'))))"

subsection \<open>SQLite\<close>

record sqliteProvider =
  sq_path :: string
  sq_dataSource :: string
  sq_versionCol :: string
  sq_sensitive :: bool
  sq_debounce :: duration
  sq_closed :: bool

definition sq_defaultDebounce :: duration where "sq_defaultDebounce = 150000000"

definition sq_WithPath :: "string \<Rightarrow> sqliteProvider \<Rightarrow> sqliteProvider" where "sq_WithPath s p = p\<lparr>sq_path := s\<rparr>"
definition sq_WithDSN :: "string \<Rightarrow> sqliteProvider \<Rightarrow> sqliteProvider" where "sq_WithDSN s p = p\<lparr>sq_dataSource := s\<rparr>"
definition sq_WithVersionColumn :: "string \<Rightarrow> sqliteProvider \<Rightarrow> sqliteProvider" where "sq_WithVersionColumn c p = p\<lparr>sq_versionCol := c\<rparr>"
definition sq_WithSensitive :: "bool \<Rightarrow> sqliteProvider \<Rightarrow> sqliteProvider" where "sq_WithSensitive b p = p\<lparr>sq_sensitive := b\<rparr>"
definition sq_WithDebounce :: "duration \<Rightarrow> sqliteProvider \<Rightarrow> sqliteProvider" where "sq_WithDebounce d p = p\<lparr>sq_debounce := d\<rparr>"

definition New_sqlite :: "(sqliteProvider \<Rightarrow> sqliteProvider) list \<Rightarrow> sqliteProvider" where
  "New_sqlite opts = fold (\<lambda>opt p. opt p) opts
     \<lparr>sq_path = [], sq_dataSource = [], sq_versionCol = [], sq_sensitive = False, sq_debounce = sq_defaultDebounce, sq_closed = False\<rparr>"

definition Close_sqlite :: "sqliteProvider \<Rightarrow> sqliteProvider" where "Close_sqlite p = p\<lparr>sq_closed := True\<rparr>"

definition filePath :: "(string \<Rightarrow> string) \<Rightarrow> sqliteProvider \<Rightarrow> string" where
  "filePath getenv p = or_default (sq_path p) (getenv ''SQLITE_PATH'')"

definition sq_dsn :: "(string \<Rightarrow> string) \<Rightarrow> sqliteProvider \<Rightarrow> err + string" where
  "sq_dsn getenv p =
     (if sq_dataSource p \<noteq> [] then Inr (sq_dataSource p)
      else if filePath getenv p = [] then Inl (Opaque ''sqlite: no database configured; set SQLITE_PATH or use sqlite.WithPath/WithDSN'')
      else Inr (''file:'' @ filePath getenv p @ ''?_pragma=busy_timeout(5000)''))"

text \<open>What a column holds; a float, a time and any other type are given by the text the code formats them to.\<close>

datatype sqlval = SNull | SBytes bytes | SText string | SInt int | SFloat string | SBool bool | STime string | SOther string

fun toBytes :: "sqlval \<Rightarrow> bytes" where
  "toBytes SNull = []"
| "toBytes (SBytes b) = b"
| "toBytes (SText s) = s"
| "toBytes (SInt n) = dec_of_int n"
| "toBytes (SFloat s) = s"
| "toBytes (SBool b) = (if b then ''1'' else ''0'')"
| "toBytes (STime s) = s"
| "toBytes (SOther s) = s"

text \<open>The identifiers are checked in the order of a map, which is not fixed; the one error stands for whichever is met first.\<close>

definition sq_statement :: "sqliteProvider \<Rightarrow> Ref \<Rightarrow> string \<Rightarrow> err + string" where
  "sq_statement p ref table = (let keyCol = or_default (Opt ref ''key_col'') ''key''; valCol = or_default (Opt ref ''val_col'') ''value'' in
     if \<not> list_all validIdent [table, keyCol, valCol] then Inl (Opaque ''sqlite: invalid identifier'')
     else if sq_versionCol p \<noteq> [] \<and> \<not> validIdent (sq_versionCol p) then Inl (Opaque ''sqlite: invalid version column identifier'')
     else Inr (''SELECT '' @ valCol @ (if sq_versionCol p \<noteq> [] then '', '' @ sq_versionCol p else []) @ '' FROM '' @ table @ '' WHERE '' @ keyCol @ '' = ? LIMIT 1''))"

definition sq_plan :: "sqliteProvider \<Rightarrow> Ref \<Rightarrow> err + string \<times> string" where
  "sq_plan p ref = (case cut CHR ''/'' (r_Path ref) of
     None \<Rightarrow> Inl (Opaque ''sqlite: path must be <table>/<key>'')
   | Some (table, key) \<Rightarrow>
      if table = [] \<or> key = [] then Inl (Opaque ''sqlite: path must be <table>/<key>'')
      else bind_res (sq_statement p ref table) (\<lambda>stmt. Inr (stmt, key)))"

definition sq_table :: "int \<Rightarrow> sentinel option" where
  "sq_table c = (if c \<in> {3, 8} then Some ErrPermissionDenied else if c \<in> {5, 6, 14} then Some ErrUnavailable else if c = 23 then Some ErrUnauthenticated else None)"

definition classifySqlite :: "int dbfail \<Rightarrow> err" where "classifySqlite f = classify_code sq_table f"

definition sq_scanErr :: "int dbfail \<Rightarrow> err" where
  "sq_scanErr f = (if f = NoRows then Errorf ''sqlite'' [Sentinel ErrNotFound] else Errorf ''sqlite: query'' [classifySqlite f])"

type_synonym sq_queryer = "string \<times> string \<Rightarrow> int dbfail + sqlval \<times> sqlval"

definition sq_query :: "json_codec \<Rightarrow> sq_queryer \<Rightarrow> Ref \<Rightarrow> sqliteProvider \<Rightarrow> err + Value" where
  "sq_query j query ref p = (case sq_plan p ref of Inl e \<Rightarrow> Inl e
   | Inr stmt \<Rightarrow> (case query stmt of Inl f \<Rightarrow> Inl (sq_scanErr f)
   | Inr (rawVal, rawVer) \<Rightarrow> (let valBytes = toBytes rawVal in
       row_value j ref valBytes (if sq_versionCol p \<noteq> [] then toBytes rawVer else VersionHash valBytes) (sq_sensitive p) [])))"

text \<open>\<open>open_db\<close> is \<^verbatim>\<open>sql.Open\<close>: a handle on the database a DSN names, opened for every read.\<close>

definition Resolve_sqlite :: "(string \<Rightarrow> string) \<Rightarrow> json_codec \<Rightarrow> (string \<Rightarrow> err + sq_queryer) \<Rightarrow> err option \<Rightarrow> Ref \<Rightarrow> sqliteProvider \<Rightarrow> err + Value" where
  "Resolve_sqlite getenv j open_db ctxErr ref p =
     (if sq_closed p then Inl (Errorf ''sqlite: provider is closed'' [Sentinel ErrUnavailable])
      else (case ctxErr of Some e \<Rightarrow> Inl e
      | None \<Rightarrow> (case sq_dsn getenv p of Inl e \<Rightarrow> Inl e
      | Inr dsn \<Rightarrow> (case open_db dsn of Inl e \<Rightarrow> Inl (Errorf ''sqlite: open'' [e]) | Inr query \<Rightarrow> sq_query j query ref p))))"

subsection \<open>MySQL\<close>

datatype handle = InjectedDB | OwnDB string

record mysqlProvider =
  my_dsn :: string
  my_versionCol :: string
  my_sensitive :: bool
  my_q :: "handle option"
  my_ownDB :: bool
  my_opened :: bool
  my_openErr :: "err option"
  my_closed :: bool

definition my_WithDSN :: "string \<Rightarrow> mysqlProvider \<Rightarrow> mysqlProvider" where "my_WithDSN s p = p\<lparr>my_dsn := s\<rparr>"
definition my_WithDB :: "bool \<Rightarrow> mysqlProvider \<Rightarrow> mysqlProvider" where "my_WithDB given p = (if given then p\<lparr>my_q := Some InjectedDB\<rparr> else p)"
definition my_WithVersionColumn :: "string \<Rightarrow> mysqlProvider \<Rightarrow> mysqlProvider" where "my_WithVersionColumn c p = p\<lparr>my_versionCol := c\<rparr>"
definition my_WithSensitive :: "bool \<Rightarrow> mysqlProvider \<Rightarrow> mysqlProvider" where "my_WithSensitive b p = p\<lparr>my_sensitive := b\<rparr>"

definition New_mysql :: "(mysqlProvider \<Rightarrow> mysqlProvider) list \<Rightarrow> mysqlProvider" where
  "New_mysql opts = fold (\<lambda>opt p. opt p) opts
     \<lparr>my_dsn = [], my_versionCol = [], my_sensitive = False, my_q = None, my_ownDB = False, my_opened = False, my_openErr = None, my_closed = False\<rparr>"

definition splitPath :: "string \<Rightarrow> err + string \<times> string" where
  "splitPath path = (case cut CHR ''/'' (trim_prefix ''/'' path) of
     None \<Rightarrow> Inl (Opaque ''path must be <table>/<key>'')
   | Some (table, key) \<Rightarrow> if table = [] \<or> key = [] then Inl (Opaque ''path must be <table>/<key>'') else Inr (table, key))"

definition quoteIdent :: "string \<Rightarrow> err + string" where
  "quoteIdent ident = (if \<not> validIdent ident then Inl (Opaque ''mamori/mysql: invalid identifier'') else Inr (CHR 0x60 # ident @ [CHR 0x60]))"

definition my_statement :: "mysqlProvider \<Rightarrow> Ref \<Rightarrow> string \<Rightarrow> err + string" where
  "my_statement p ref table =
     (let keyCol = or_default (Opt ref ''key_col'') ''key''; valCol = or_default (Opt ref ''val_col'') ''value'' in
       case quoteIdent table of Inl e \<Rightarrow> Inl e
     | Inr tableQ \<Rightarrow> (case quoteIdent keyCol of Inl e \<Rightarrow> Inl e
     | Inr keyColQ \<Rightarrow> (case quoteIdent valCol of Inl e \<Rightarrow> Inl e
     | Inr valColQ \<Rightarrow> (case (if my_versionCol p = [] then Inr [] else quoteIdent (my_versionCol p)) of Inl e \<Rightarrow> Inl e
     | Inr verColQ \<Rightarrow> Inr (''SELECT '' @ valColQ @ (if verColQ \<noteq> [] then '', '' @ verColQ else []) @ '' FROM '' @ tableQ @ '' WHERE '' @ keyColQ @ '' = ?'')))))"

definition my_plan :: "mysqlProvider \<Rightarrow> Ref \<Rightarrow> err + string \<times> string" where
  "my_plan p ref = (case splitPath (r_Path ref) of
     Inl e \<Rightarrow> Inl (Errorf ''mamori/mysql: ref'' [e])
   | Inr (table, key) \<Rightarrow> bind_res (my_statement p ref table) (\<lambda>query. Inr (query, key)))"

definition my_table :: "int \<Rightarrow> sentinel option" where
  "my_table n = (if n \<in> {1044, 1142} then Some ErrPermissionDenied else if n = 1045 then Some ErrUnauthenticated else if n \<in> {1040, 1203} then Some ErrUnavailable else None)"

definition classifyMySQL :: "int dbfail \<Rightarrow> err" where "classifyMySQL f = classify_code my_table f"

definition resolveDSN :: "(string \<Rightarrow> string) \<Rightarrow> mysqlProvider \<Rightarrow> string" where
  "resolveDSN getenv p = firstNonEmpty [my_dsn p, getenv ''DATABASE_URL'', getenv ''MYSQL_DSN'']"

text \<open>\<open>parse\<close> is the driver's \<^verbatim>\<open>ParseDSN\<close> and \<open>open_db\<close> is \<^verbatim>\<open>sql.Open\<close>; a failed attempt is remembered and not repeated.\<close>

definition getQueryer :: "(string \<Rightarrow> string) \<Rightarrow> (string \<Rightarrow> err option) \<Rightarrow> (string \<Rightarrow> err option) \<Rightarrow> mysqlProvider \<Rightarrow> mysqlProvider \<times> (err + handle)" where
  "getQueryer getenv parse open_db p =
     (if my_closed p then (p, Inl (Errorf ''mamori/mysql: provider is closed'' [Sentinel ErrUnavailable]))
      else (case my_q p of Some q \<Rightarrow> (p, Inr q)
      | None \<Rightarrow>
         if my_opened p then (p, Inl (the (my_openErr p)))
         else (let dsn = resolveDSN getenv p; p1 = p\<lparr>my_opened := True\<rparr>;
                   fail = (\<lambda>e. (p1\<lparr>my_openErr := Some e\<rparr>, Inl e)) in
           if dsn = [] then fail (Opaque ''mamori/mysql: no DSN configured; set mysql.WithDSN, DATABASE_URL, or MYSQL_DSN'')
           else (case parse dsn of Some e \<Rightarrow> fail (Errorf ''mamori/mysql: invalid DSN'' [e])
             | None \<Rightarrow> (case open_db dsn of Some e \<Rightarrow> fail (Errorf ''mamori/mysql: opening database'' [e])
             | None \<Rightarrow> (p1\<lparr>my_ownDB := True, my_q := Some (OwnDB dsn)\<rparr>, Inr (OwnDB dsn)))))))"

type_synonym my_query = "handle \<Rightarrow> string \<times> string \<Rightarrow> int dbfail + bytes \<times> string"

definition Resolve_mysql :: "(string \<Rightarrow> string) \<Rightarrow> (string \<Rightarrow> err option) \<Rightarrow> (string \<Rightarrow> err option) \<Rightarrow> json_codec \<Rightarrow> my_query \<Rightarrow> Ref \<Rightarrow> mysqlProvider
    \<Rightarrow> mysqlProvider \<times> (err + Value)" where
  "Resolve_mysql getenv parse open_db j query ref p = (case my_plan p ref of Inl e \<Rightarrow> (p, Inl e)
   | Inr stmt \<Rightarrow> (case getQueryer getenv parse open_db p of
        (p', Inl e) \<Rightarrow> (p', Inl e)
      | (p', Inr q) \<Rightarrow> (p', case query q stmt of
           Inl f \<Rightarrow> Inl (if f = NoRows then Errorf ''mamori/mysql: key not found in table'' [Sentinel ErrNotFound] else Errorf ''mamori/mysql: querying table'' [classifyMySQL f])
         | Inr (val, ver) \<Rightarrow>
             row_value j ref val (if my_versionCol p = [] \<or> ver = [] then VersionHash val else ver) (my_sensitive p)
               [(''table'', fst (projr (splitPath (r_Path ref)))), (''key'', snd stmt)])))"

text \<open>\<^verbatim>\<open>Close\<close>, with whether it closes a database.\<close>

definition Close_mysql :: "mysqlProvider \<Rightarrow> mysqlProvider \<times> bool" where
  "Close_mysql p = (p\<lparr>my_closed := True\<rparr>, \<not> my_closed p \<and> my_ownDB p)"

subsection \<open>Watches\<close>

definition update_of :: "err + Value \<Rightarrow> Update" where
  "update_of r = (case r of Inl e \<Rightarrow> update_err e | Inr v \<Rightarrow> \<lparr>u_Value = v, u_Err = None\<rparr>)"

text \<open>
  The goroutine of the PostgreSQL watch with what it shares with the server: the pool and the planned statement with its key, what the database answers to queries now, the notifications that wait on the listening
  connection (the server queues them from the \<^verbatim>\<open>LISTEN\<close> on, which precedes the baseline), the error that \<^verbatim>\<open>Wait\<close> on that connection returns once it is broken, and the updates sent. A step is one call the
  goroutine makes, \<^const>\<open>None\<close> while \<^verbatim>\<open>Wait\<close> blocks. The end of the context, which ends the goroutine, is not a step.
\<close>

datatype pg_phase = PgBaseline | PgWait | PgRead

record pgWatch =
  pw_db :: pg_query
  pw_be :: pool
  pw_stmt :: "string \<times> string"
  pw_queue :: nat
  pw_broken :: "err option"
  pw_phase :: pg_phase
  pw_out :: "Update list"

definition pg_read :: "json_codec \<Rightarrow> Ref \<Rightarrow> pgProvider \<Rightarrow> pgWatch \<Rightarrow> Update" where
  "pg_read j ref p w = update_of (resolveWith j (pw_db w) (pw_be w) (pw_stmt w) ref p)"

definition pg_watch_step :: "json_codec \<Rightarrow> Ref \<Rightarrow> pgProvider \<Rightarrow> pgWatch \<Rightarrow> pgWatch option" where
  "pg_watch_step j ref p w = (case pw_phase w of
     PgBaseline \<Rightarrow> Some (w\<lparr>pw_out := pw_out w @ [pg_read j ref p w], pw_phase := PgWait\<rparr>)
   | PgRead \<Rightarrow> Some (w\<lparr>pw_out := pw_out w @ [pg_read j ref p w], pw_phase := PgWait\<rparr>)
   | PgWait \<Rightarrow> (case pw_broken w of
        Some e \<Rightarrow> Some (w\<lparr>pw_out := pw_out w @ [update_err (Errorf ''postgres: watch'' [e])]\<rparr>)
      | None \<Rightarrow> if pw_queue w = 0 then None else Some (w\<lparr>pw_queue := pw_queue w - 1, pw_phase := PgRead\<rparr>)))"

definition Watch_postgres :: "(string \<Rightarrow> string) \<Rightarrow> (string \<Rightarrow> err option) \<Rightarrow> (pool \<Rightarrow> string \<Rightarrow> err option) \<Rightarrow> pg_query \<Rightarrow> Ref \<Rightarrow> pgProvider
    \<Rightarrow> pgProvider \<times> (err + pgWatch)" where
  "Watch_postgres getenv connect listen db ref p = (case pg_plan p ref of Inl e \<Rightarrow> (p, Inl e)
   | Inr stmt \<Rightarrow>
      if \<not> validIdent (pg_channel p) then (p, Inl (Errorf ''postgres: channel'' [errUnsafeIdentifier]))
      else (case backendFor getenv connect p of
         (p', Inl e) \<Rightarrow> (p', Inl e)
       | (p', Inr be) \<Rightarrow> (case listen be (pg_channel p) of
            Some e \<Rightarrow> (p', Inl (Errorf ''postgres: listen'' [e]))
          | None \<Rightarrow> (p', Inr \<lparr>pw_db = db, pw_be = be, pw_stmt = stmt, pw_queue = 0, pw_broken = None, pw_phase = PgBaseline, pw_out = []\<rparr>))))"

text \<open>
  The loop of the SQLite watch over the events of the file system in the order of their instants: when it reads the value again, and which errors it forwards. \<open>clean\<close> is \<^verbatim>\<open>filepath.Clean\<close>, \<open>deadline\<close> the
  instant an armed timer fires, and \<open>tie\<close> which of two is taken that are ready at the same instant.
\<close>

datatype fs_event = FsEvent string | FsError err
datatype sq_act = Reread instant | Forward err

definition relevant :: "(string \<Rightarrow> string) \<Rightarrow> string \<Rightarrow> string \<Rightarrow> bool" where
  "relevant clean name target \<longleftrightarrow> clean name = target \<or> has_prefix (target @ ''-'') (clean name)"

definition sq_fires :: "bool \<Rightarrow> instant option \<Rightarrow> instant \<Rightarrow> bool" where
  "sq_fires tie deadline t = (case deadline of None \<Rightarrow> False | Some t0 \<Rightarrow> t0 < t \<or> t0 = t \<and> tie)"

fun sq_watch_loop :: "bool \<Rightarrow> (string \<Rightarrow> string) \<Rightarrow> string \<Rightarrow> duration \<Rightarrow> instant option \<Rightarrow> (instant \<times> fs_event) list \<Rightarrow> sq_act list" where
  "sq_watch_loop tie clean target d deadline [] = (case deadline of None \<Rightarrow> [] | Some t0 \<Rightarrow> [Reread t0])"
| "sq_watch_loop tie clean target d deadline ((t, ev) # evs) =
     (let fired = sq_fires tie deadline t; deadline' = (if fired then None else deadline) in
      (if fired then [Reread (the deadline)] else []) @
      (case ev of
         FsError e \<Rightarrow> Forward e # sq_watch_loop tie clean target d deadline' evs
       | FsEvent name \<Rightarrow> sq_watch_loop tie clean target d (if relevant clean name target then Some (t + d) else deadline') evs))"

text \<open>\<^verbatim>\<open>Watch\<close> of SQLite: the acts of its goroutine, the baseline at the instant it starts first; \<open>watchDir\<close> is the file system watcher with the directory added.\<close>

definition Watch_sqlite :: "(string \<Rightarrow> string) \<Rightarrow> (string \<Rightarrow> string) \<Rightarrow> (string \<Rightarrow> err option) \<Rightarrow> bool \<Rightarrow> instant \<Rightarrow> (instant \<times> fs_event) list \<Rightarrow> sqliteProvider \<Rightarrow> err + sq_act list" where
  "Watch_sqlite getenv clean watchDir tie now evs p =
     (if sq_closed p then Inl (Errorf ''sqlite: provider is closed'' [Sentinel ErrUnavailable])
      else if filePath getenv p = [] then Inl (Opaque ''sqlite: cannot watch without a file path; use sqlite.WithPath or set SQLITE_PATH'')
      else (let target = clean (filePath getenv p) in case watchDir target of Some e \<Rightarrow> Inl e
        | None \<Rightarrow> Inr (Reread now # sq_watch_loop tie clean target (if sq_debounce p \<le> 0 then sq_defaultDebounce else sq_debounce p) None evs)))"

end
