(* ===== verification/SqlSafety.thy ===== *)
theory SqlSafety
  imports SqlSources
begin

text \<open>
  What the SQL providers send to a database: only statements of a few fixed shapes, whatever a ref says, with the key as the bound argument and never as text; and how the failures of a database
  are reported.
\<close>

subsection \<open>The shape of a statement\<close>

text \<open>A statement with every maximal run of identifier characters replaced by one letter: what is left is its structure.\<close>

fun shape_from :: "bool \<Rightarrow> string \<Rightarrow> string" where
  "shape_from inside [] = []"
| "shape_from inside (c # s) =
     (if ident_char c then (if inside then shape_from True s else CHR ''w'' # shape_from True s) else c # shape_from False s)"

definition sql_shape :: "string \<Rightarrow> string" where "sql_shape s = shape_from False s"

lemma shape_inside: "list_all ident_char x \<Longrightarrow> shape_from True (x @ s) = shape_from True s"
  by (induction x) auto

lemma shape_ident: "validIdent x \<Longrightarrow> shape_from False (x @ s) = CHR ''w'' # shape_from True s"
  by (cases x) (auto simp: validIdent_def shape_inside)

lemma ident_chars:
  "ident_char CHR ''S''" "ident_char CHR ''E''" "ident_char CHR ''L''" "ident_char CHR ''C''" "ident_char CHR ''T''" "ident_char CHR ''F''" "ident_char CHR ''R''" "ident_char CHR ''O''" "ident_char CHR ''M''" "ident_char CHR ''W''" "ident_char CHR ''H''" "ident_char CHR ''I''" "ident_char CHR ''t''" "ident_char CHR ''e''" "ident_char CHR ''x''" "ident_char CHR ''1''"
  "\<not> ident_char CHR '' ''" "\<not> ident_char CHR '',''" "\<not> ident_char CHR ''=''" "\<not> ident_char CHR ''$''" "\<not> ident_char CHR ''?''" "\<not> ident_char CHR '':''" "\<not> ident_char CHR ''.''" "\<not> ident_char CHR 0x60"
  by code_simp+

lemma shape_table:
  assumes "validTable t"
  shows "shape_from False (t @ s) = (if CHR ''.'' \<in> set t then ''w.w'' else ''w'') @ shape_from True s"
proof (cases "cut CHR ''.'' t")
  case None
  thus ?thesis using assms shape_ident [of t s] by (simp add: validTable_def cut_None_iff cut_notin)
next
  case (Some ab)
  obtain a b where "ab = (a, b)" by fastforce
  with Some assms have t: "t = a @ CHR ''.'' # b" "validIdent a" "validIdent b" by (auto simp: validTable_def dest: cut_SomeD)
  thus ?thesis using t shape_ident [of a "CHR ''.'' # b @ s"] shape_ident [of b s] by (simp add: ident_chars)
qed

definition pg_shapes :: "string set" where
  "pg_shapes = {''w w w w w w = $w'', ''w w w w.w w w = $w'', ''w w, w::w w w w w = $w'', ''w w, w::w w w.w w w = $w''}"

definition sq_shapes :: "string set" where "sq_shapes = {''w w w w w w = ? w w'', ''w w, w w w w w = ? w w''}"

definition my_shapes :: "string set" where "my_shapes = {''w `w` w `w` w `w` = ?'', ''w `w`, `w` w `w` w `w` = ?''}"

lemma shape_quoted: "quoteIdent x = Inr q \<Longrightarrow> (\<forall>s. shape_from False (q @ s) = ''`w`'' @ shape_from False s) \<and> q \<noteq> []"
  by (auto simp: quoteIdent_def ident_chars shape_ident split: if_splits)

subsection \<open>The boundary\<close>

text \<open>The key that a path names: what follows its first slash, a table before it; a MySQL path may start with a slash of its own.\<close>

definition path_key :: "string \<Rightarrow> string \<Rightarrow> bool" where
  "path_key path key \<longleftrightarrow> (\<exists>table. table \<noteq> [] \<and> CHR ''/'' \<notin> set table \<and> path = table @ CHR ''/'' # key)"

definition slash_path_key :: "string \<Rightarrow> string \<Rightarrow> bool" where
  "slash_path_key path key \<longleftrightarrow> path_key path key \<or> (\<exists>path'. path = CHR ''/'' # path' \<and> path_key path' key)"

text \<open>
  The contract of a source that plans a statement for a ref: every statement is of a known shape, and what is bound to it is the key of the ref, whatever it is, in a statement that does not depend on it. A client of such a
  source runs what was planned.
\<close>

locale sql_source =
  fixes plan :: "'p \<Rightarrow> Ref \<Rightarrow> err + string \<times> string"
    and shapes :: "string set"
    and key_of :: "string \<Rightarrow> string \<Rightarrow> bool"
  assumes plan_shape: "plan p ref = Inr (stmt, key) \<Longrightarrow> sql_shape stmt \<in> shapes"
    and plan_key: "plan p ref = Inr (stmt, key) \<Longrightarrow> key_of (r_Path ref) key"
    and plan_binds: "plan p ref = Inr (stmt, key) \<Longrightarrow>
      \<exists>pre. r_Path ref = pre @ key \<and> (\<forall>key'. key' \<noteq> [] \<longrightarrow> plan p (ref\<lparr>r_Path := pre @ key'\<rparr>) = Inr (stmt, key'))"
begin

definition run :: "(string \<times> string \<Rightarrow> err + 'v) \<Rightarrow> 'p \<Rightarrow> Ref \<Rightarrow> err + 'v" where
  "run db p ref = (case plan p ref of Inl e \<Rightarrow> Inl e | Inr stmt \<Rightarrow> db stmt)"

text \<open>A database that answers only statements of the known shapes, with the ref's key bound, answers every read of the ref.\<close>

lemma run_confined:
  assumes "\<And>stmt key. sql_shape stmt \<in> shapes \<Longrightarrow> key_of (r_Path ref) key \<Longrightarrow> db (stmt, key) = db' (stmt, key)"
  shows "run db p ref = run db' p ref"
  using assms plan_shape plan_key by (auto simp: run_def split: sum.splits)

text \<open>Another key reaches the database as another argument of the same statement.\<close>

lemma key_is_data:
  assumes "plan p ref = Inr (stmt, key)" "key' \<noteq> []"
  shows "\<exists>pre. r_Path ref = pre @ key \<and> run db p (ref\<lparr>r_Path := pre @ key'\<rparr>) = db (stmt, key')"
  using plan_binds [OF assms(1)] assms(2) by (auto simp: run_def)

end

lemma pg_plan_shape: "pg_plan p ref = Inr (stmt, key) \<Longrightarrow> sql_shape stmt \<in> pg_shapes"
  by (auto simp: pg_plan_def pg_statement_def bind_res_Inr_iff Let_def sql_shape_def pg_shapes_def ident_chars shape_ident shape_table split: option.splits if_splits)

lemma sq_plan_shape: "sq_plan p ref = Inr (stmt, key) \<Longrightarrow> sql_shape stmt \<in> sq_shapes"
  by (auto simp: sq_plan_def sq_statement_def bind_res_Inr_iff Let_def sql_shape_def sq_shapes_def ident_chars shape_ident split: option.splits if_splits)

lemma my_statement_shape: "my_statement p ref table = Inr stmt \<Longrightarrow> sql_shape stmt \<in> my_shapes"
  by (auto simp: my_statement_def Let_def sql_shape_def my_shapes_def ident_chars dest!: shape_quoted split: sum.splits if_splits)

lemma my_plan_shape: "my_plan p ref = Inr (stmt, key) \<Longrightarrow> sql_shape stmt \<in> my_shapes"
  by (auto simp: my_plan_def bind_res_Inr_iff split: sum.splits intro: my_statement_shape)

lemma Opt_path: "Opt (ref\<lparr>r_Path := x\<rparr>) n = Opt ref n"
  by (simp add: Opt_def)

text \<open>The statement is of the table alone.\<close>

lemma statement_path: "pg_statement p (ref\<lparr>r_Path := x\<rparr>) = pg_statement p ref" "sq_statement q (ref\<lparr>r_Path := x\<rparr>) = sq_statement q ref"
  "my_statement m (ref\<lparr>r_Path := x\<rparr>) = my_statement m ref"
  by (simp_all add: fun_eq_iff pg_statement_def sq_statement_def my_statement_def Opt_path)

lemma cut_path:
  assumes "cut CHR ''/'' path = Some (table, key)"
  shows "path = (table @ ''/'') @ key" "cut CHR ''/'' ((table @ ''/'') @ k) = Some (table, k)"
  using cut_SomeD [OF assms] cut_append [of "CHR ''/''" table] by auto

lemma pg_plan_binds:
  assumes "pg_plan p ref = Inr (stmt, key)"
  shows "\<exists>pre. r_Path ref = pre @ key \<and> (\<forall>key'. key' \<noteq> [] \<longrightarrow> pg_plan p (ref\<lparr>r_Path := pre @ key'\<rparr>) = Inr (stmt, key'))"
proof -
  obtain table where c: "cut CHR ''/'' (r_Path ref) = Some (table, key)" "table \<noteq> []" "pg_statement p ref table = Inr stmt"
    using assms by (auto simp: pg_plan_def bind_res_Inr_iff split: option.splits if_splits)
  hence "pg_plan p (ref\<lparr>r_Path := (table @ ''/'') @ key'\<rparr>) = Inr (stmt, key')" if "key' \<noteq> []" for key'
    using that cut_path(2) [OF c(1)] by (simp add: pg_plan_def statement_path)
  thus ?thesis using cut_path(1) [OF c(1)] by blast
qed

lemma sq_plan_binds:
  assumes "sq_plan p ref = Inr (stmt, key)"
  shows "\<exists>pre. r_Path ref = pre @ key \<and> (\<forall>key'. key' \<noteq> [] \<longrightarrow> sq_plan p (ref\<lparr>r_Path := pre @ key'\<rparr>) = Inr (stmt, key'))"
proof -
  obtain table where c: "cut CHR ''/'' (r_Path ref) = Some (table, key)" "table \<noteq> []" "sq_statement p ref table = Inr stmt"
    using assms by (auto simp: sq_plan_def bind_res_Inr_iff split: option.splits if_splits)
  hence "sq_plan p (ref\<lparr>r_Path := (table @ ''/'') @ key'\<rparr>) = Inr (stmt, key')" if "key' \<noteq> []" for key'
    using that cut_path(2) [OF c(1)] by (simp add: sq_plan_def statement_path)
  thus ?thesis using cut_path(1) [OF c(1)] by blast
qed

lemma splitPath_key:
  assumes "splitPath path = Inr (table, key)"
  shows "\<exists>pre. path = pre @ key \<and> (\<forall>key'. key' \<noteq> [] \<longrightarrow> splitPath (pre @ key') = Inr (table, key'))"
proof -
  have c: "cut CHR ''/'' (trim_prefix ''/'' path) = Some (table, key)" and t: "table \<noteq> []" using assms by (auto simp: splitPath_def split: option.splits if_splits)
  have "CHR ''/'' \<notin> set table" using cut_SomeD [OF c] by simp
  then obtain x xs where x: "table = x # xs" "x \<noteq> CHR ''/''" using t by (cases table) auto
  have trim: "trim_prefix ''/'' (table @ s) = table @ s" "trim_prefix ''/'' (CHR ''/'' # s) = s" for s using x by (auto simp: trim_prefix_def)
  have ends: "splitPath (table @ ''/'' @ k) = Inr (table, k)" "splitPath (''/'' @ table @ ''/'' @ k) = Inr (table, k)" if "k \<noteq> []" for k
    using that t cut_path(2) [OF c] trim by (auto simp: splitPath_def)
  show ?thesis
  proof (cases "has_prefix ''/'' path")
    case True
    then obtain r where "path = CHR ''/'' # r" by (cases path) auto
    hence "path = (''/'' @ table @ ''/'') @ key" using cut_path(1) [OF c] trim(2) [of r] by simp
    thus ?thesis using ends(2) by (intro exI [where x = "''/'' @ table @ ''/''"]) simp
  next
    case False
    hence "path = (table @ ''/'') @ key" using cut_path(1) [OF c] by (simp add: trim_prefix_def)
    thus ?thesis using ends(1) by (intro exI [where x = "table @ ''/''"]) simp
  qed
qed

lemma my_plan_binds:
  assumes "my_plan p ref = Inr (stmt, key)"
  shows "\<exists>pre. r_Path ref = pre @ key \<and> (\<forall>key'. key' \<noteq> [] \<longrightarrow> my_plan p (ref\<lparr>r_Path := pre @ key'\<rparr>) = Inr (stmt, key'))"
proof -
  obtain table where c: "splitPath (r_Path ref) = Inr (table, key)" "my_statement p ref table = Inr stmt"
    using assms by (auto simp: my_plan_def bind_res_Inr_iff split: sum.splits)
  obtain pre where "r_Path ref = pre @ key" "\<And>k. k \<noteq> [] \<Longrightarrow> splitPath (pre @ k) = Inr (table, k)" using splitPath_key [OF c(1)] by blast
  thus ?thesis using c(2) by (auto simp: my_plan_def statement_path intro!: exI [of _ pre])
qed

lemma cut_path_key: "cut CHR ''/'' path = Some (table, key) \<Longrightarrow> table \<noteq> [] \<Longrightarrow> path_key path key"
  using cut_SomeD [of "CHR ''/''" path table key] by (auto simp: path_key_def)

lemma pg_plan_key: "pg_plan p ref = Inr (stmt, key) \<Longrightarrow> path_key (r_Path ref) key"
  by (auto simp: pg_plan_def bind_res_Inr_iff dest: cut_path_key split: option.splits if_splits)

lemma sq_plan_key: "sq_plan p ref = Inr (stmt, key) \<Longrightarrow> path_key (r_Path ref) key"
  by (auto simp: sq_plan_def bind_res_Inr_iff dest: cut_path_key split: option.splits if_splits)

lemma my_plan_key:
  assumes "my_plan p ref = Inr (stmt, key)"
  shows "slash_path_key (r_Path ref) key"
proof -
  obtain table where "splitPath (r_Path ref) = Inr (table, key)" using assms by (auto simp: my_plan_def bind_res_Inr_iff split: sum.splits)
  hence "path_key (trim_prefix ''/'' (r_Path ref)) key" by (auto simp: splitPath_def dest: cut_path_key split: option.splits if_splits)
  thus ?thesis by (cases "r_Path ref") (auto simp: slash_path_key_def trim_prefix_def split: if_splits)
qed

interpretation pg: sql_source pg_plan pg_shapes path_key
  by unfold_locales (auto intro: pg_plan_shape pg_plan_key dest: pg_plan_binds)

interpretation sq: sql_source sq_plan sq_shapes path_key
  by unfold_locales (auto intro: sq_plan_shape sq_plan_key dest: sq_plan_binds)

interpretation my: sql_source my_plan my_shapes slash_path_key
  by unfold_locales (auto intro: my_plan_shape my_plan_key dest: my_plan_binds)

text \<open>Each read is the run of its planned statement.\<close>

lemma Resolve_postgres_run:
  "Resolve_postgres getenv connect j query None ref p = (case pg_plan p ref of Inl e \<Rightarrow> (p, Inl e) | Inr _ \<Rightarrow> (fst (backendFor getenv connect p),
     pg.run (\<lambda>stmt. bind_res (snd (backendFor getenv connect p)) (\<lambda>be. resolveWith j query be stmt ref (fst (backendFor getenv connect p)))) p ref))"
  by (auto simp: Resolve_postgres_def pg.run_def bind_res_def split: sum.splits prod.splits)

lemma sq_query_run: "sq_query j query ref p = sq.run (\<lambda>stmt. case query stmt of Inl f \<Rightarrow> Inl (sq_scanErr f) | Inr (rawVal, rawVer) \<Rightarrow>
    row_value j ref (toBytes rawVal) (if sq_versionCol p \<noteq> [] then toBytes rawVer else VersionHash (toBytes rawVal)) (sq_sensitive p) []) p ref"
  by (simp only: sq_query_def sq.run_def Let_def)

text \<open>
  C34. No ref reaches an SQL database as SQL, and no read asks for another key: two databases that answer alike the fixed statements of the PostgreSQL, the SQLite and the MySQL provider, those of the four, two and two
  shapes with identifiers for their words, with the key of the ref as their bound argument, are read alike by that ref under every configuration, however they answer any other text or any other argument. Whatever a
  ref holds for its table, its columns or its key, nothing else is ever sent.
\<close>

theorem sql_reads_confined:
  assumes "\<And>be stmt key. sql_shape stmt \<in> pg_shapes \<Longrightarrow> path_key (r_Path ref) key \<Longrightarrow> qp be (stmt, key) = qp' be (stmt, key)"
    and "\<And>stmt key. sql_shape stmt \<in> sq_shapes \<Longrightarrow> path_key (r_Path ref) key \<Longrightarrow> qs (stmt, key) = qs' (stmt, key)"
    and "\<And>h stmt key. sql_shape stmt \<in> my_shapes \<Longrightarrow> slash_path_key (r_Path ref) key \<Longrightarrow> qm h (stmt, key) = qm' h (stmt, key)"
  shows "Resolve_postgres getenv connect j qp ctxErr ref p = Resolve_postgres getenv connect j qp' ctxErr ref p \<and>
    Resolve_sqlite getenv j (\<lambda>_. Inr qs) ctxErr ref s = Resolve_sqlite getenv j (\<lambda>_. Inr qs') ctxErr ref s \<and>
    Resolve_mysql getenv parse open_db j qm ref m = Resolve_mysql getenv parse open_db j qm' ref m"
proof (intro conjI)
  show "Resolve_postgres getenv connect j qp ctxErr ref p = Resolve_postgres getenv connect j qp' ctxErr ref p"
  proof (cases ctxErr)
    case None
    have same: "pg.run (\<lambda>stmt. bind_res r (\<lambda>be. resolveWith j qp be stmt ref q)) p ref = pg.run (\<lambda>stmt. bind_res r (\<lambda>be. resolveWith j qp' be stmt ref q)) p ref" for r q
      using assms(1) by (intro pg.run_confined) (simp add: resolveWith_def)
    show ?thesis by (simp only: None Resolve_postgres_run same)
  qed (simp add: Resolve_postgres_def)
  show "Resolve_sqlite getenv j (\<lambda>_. Inr qs) ctxErr ref s = Resolve_sqlite getenv j (\<lambda>_. Inr qs') ctxErr ref s"
  proof -
    have "sq_query j qs ref s = sq_query j qs' ref s" unfolding sq_query_run using assms(2) by (intro sq.run_confined) simp
    thus ?thesis by (simp add: Resolve_sqlite_def split: option.splits sum.splits)
  qed
  show "Resolve_mysql getenv parse open_db j qm ref m = Resolve_mysql getenv parse open_db j qm' ref m"
    using assms(3) my_plan_shape [of m ref] my_plan_key [of m ref] by (auto simp: Resolve_mysql_def split: sum.splits prod.splits)
qed

subsection \<open>Failures\<close>

text \<open>A failure of the database is reported absent only when there was no row, unless the driver's own error says so.\<close>

lemma classify_code_absent:
  assumes "\<And>c. table c \<noteq> Some ErrNotFound"
  shows "err_is (classify_code table f) ErrNotFound \<longleftrightarrow> err_is (fail_err f) ErrNotFound"
  using assms by (auto simp: classify_code_def split: dbfail.splits option.splits)

lemma tables_never_absent: "pg_table c \<noteq> Some ErrNotFound" "sq_table n \<noteq> Some ErrNotFound" "my_table n \<noteq> Some ErrNotFound"
  by (simp_all add: pg_table_def sq_table_def my_table_def)

lemma scan_errors_absent:
  "err_is (mapScanErr f) ErrNotFound \<longleftrightarrow> f = NoRows \<or> err_is (fail_err f) ErrNotFound"
  "err_is (sq_scanErr g) ErrNotFound \<longleftrightarrow> g = NoRows \<or> err_is (fail_err g) ErrNotFound"
  by (simp_all add: mapScanErr_def sq_scanErr_def classifyPostgres_def classifySqlite_def classify_code_absent tables_never_absent)

text \<open>The driver's error is never lost by the classification.\<close>

lemma classify_code_keeps: "err_is (fail_err f) s \<Longrightarrow> err_is (classify_code table f) s"
  by (auto simp: classify_code_def split: dbfail.splits option.splits)

text \<open>A failed attempt to open a MySQL database is final: it is repeated with the same error and no further attempt, however the environment changes.\<close>

definition my_ok :: "mysqlProvider \<Rightarrow> bool" where
  "my_ok p \<longleftrightarrow> (my_opened p \<longrightarrow> my_q p = None \<longrightarrow> my_openErr p \<noteq> None) \<and> (my_ownDB p \<longrightarrow> my_q p \<noteq> None)"

lemma getQueryer_ok: "my_ok p \<Longrightarrow> my_ok (fst (getQueryer getenv parse open_db p))"
  by (auto simp: getQueryer_def my_ok_def Let_def split: option.splits)

lemma getQueryer_remembers:
  assumes "getQueryer getenv parse open_db p = (p', Inl e)" "\<not> my_closed p"
  shows "\<not> my_closed p' \<and> my_q p' = None \<and> my_opened p' \<and> the (my_openErr p') = e"
  using assms by (simp add: getQueryer_def Let_def split: option.splits if_splits) auto

lemma getQueryer_final: "getQueryer getenv parse open_db p = (p', Inl e) \<Longrightarrow> getQueryer getenv' parse' open_db' p' = (p', Inl e)"
  using getQueryer_remembers [of getenv parse open_db p p' e] by (cases "my_closed p") (auto simp: getQueryer_def)

text \<open>A closed provider of either kind reaches no database.\<close>

lemma sql_closed_refuses:
  "\<exists>m. snd (backendFor getenv connect (fst (Close_postgres p))) = Inl (Errorf m [Sentinel ErrUnavailable])"
  "\<exists>m. Resolve_sqlite getenv j open_db ctxErr ref (Close_sqlite q) = Inl (Errorf m [Sentinel ErrUnavailable])"
  "\<exists>m. snd (getQueryer getenv parse opens (fst (Close_mysql r))) = Inl (Errorf m [Sentinel ErrUnavailable])"
  by (simp_all add: backendFor_def Close_postgres_def Resolve_sqlite_def Close_sqlite_def getQueryer_def Close_mysql_def)

subsection \<open>The SQLite watch\<close>

text \<open>
  Events that keep coming closer together than the window put the next read off for as long as they do; once they pause it happens, one window after the last.
\<close>

fun crowded :: "duration \<Rightarrow> instant \<Rightarrow> (instant \<times> fs_event) list \<Rightarrow> bool" where
  "crowded d t0 [] = True"
| "crowded d t0 ((t, ev) # evs) = (t < t0 + d \<and> crowded d t evs)"

lemma sqlite_put_off:
  assumes "crowded d t0 evs" "list_all (\<lambda>(t, ev). \<exists>n. ev = FsEvent n \<and> relevant clean n target) evs"
  shows "sq_watch_loop tie clean target d (Some (t0 + d)) evs = [Reread (last (t0 # map fst evs) + d)]"
  using assms by (induction d t0 evs rule: crowded.induct) (auto simp: sq_fires_def Let_def)

subsection \<open>Instances\<close>

definition demo_sqlite :: sqliteProvider where "demo_sqlite = New_sqlite [sq_WithPath ''app.db'']"

definition demo_hostileRef :: Ref where
  "demo_hostileRef = \<lparr>r_Scheme = ''sqlite'', r_Path = ''config/x; DROP TABLE config'', r_Key = [], r_Opts = [], r_Raw = []\<rparr>"

text \<open>A database that hands back the argument bound to a statement, and one that does so for statements of the known shapes with that one key only.\<close>

definition demo_echo :: sq_queryer where "demo_echo = (\<lambda>(stmt, key). Inr (SText key, SNull))"
definition demo_guarded :: sq_queryer where
  "demo_guarded = (\<lambda>(stmt, key). if sql_shape stmt \<in> sq_shapes \<and> key = ''x; DROP TABLE config'' then Inr (SText key, SNull) else Inl NoRows)"

lemma demo_hostile_key: "path_key (r_Path demo_hostileRef) key \<Longrightarrow> key = ''x; DROP TABLE config''"
proof -
  assume "path_key (r_Path demo_hostileRef) key"
  then obtain table where "CHR ''/'' \<notin> set table" "''config/x; DROP TABLE config'' = table @ CHR ''/'' # key"
    by (auto simp: path_key_def demo_hostileRef_def)
  hence "cut CHR ''/'' ''config/x; DROP TABLE config'' = Some (table, key)" using cut_append [of "CHR ''/''" table key] by simp
  moreover have "cut CHR ''/'' ''config/x; DROP TABLE config'' = Some (''config'', ''x; DROP TABLE config'')" by code_simp
  ultimately show ?thesis by auto
qed

lemma sql_reads_confined_witness:
  "let j = \<lparr>j_object = (\<lambda>b. None), j_array = (\<lambda>b. None), j_string = (\<lambda>b. None)\<rparr> in
   Resolve_sqlite (\<lambda>_. []) j (\<lambda>_. Inr demo_echo) None demo_hostileRef demo_sqlite = Resolve_sqlite (\<lambda>_. []) j (\<lambda>_. Inr demo_guarded) None demo_hostileRef demo_sqlite"
  unfolding Let_def
  by (rule sql_reads_confined [where qp = "\<lambda>_ _. Inl NoRows" and qp' = "\<lambda>_ _. Inl NoRows" and qs = demo_echo and qs' = demo_guarded and qm = "\<lambda>_ _. Inl NoRows" and qm' = "\<lambda>_ _. Inl NoRows",
        THEN conjunct2, THEN conjunct1]) (auto simp: demo_echo_def demo_guarded_def dest: demo_hostile_key)

end
