(* ===== verification/KvSources.thy ===== *)
theory KvSources
  imports SqlSources
begin

text \<open>
  The providers over key-value stores with a watch of their own: \<^verbatim>\<open>providers/etcd\<close>, whose watch forwards the events of a stream, and \<^verbatim>\<open>providers/consul\<close>, whose watch repeats a blocking query. The clients of the
  two stores are arguments.
\<close>

subsection \<open>etcd\<close>

datatype etcd_client = InjectedEtcd | OwnEtcd "string list"

record etcdProvider =
  et_endpoints :: "string list"
  et_cli :: "etcd_client option"
  et_ownClient :: bool
  et_closed :: bool

definition et_WithEndpoints :: "string list \<Rightarrow> etcdProvider \<Rightarrow> etcdProvider" where "et_WithEndpoints eps p = p\<lparr>et_endpoints := eps\<rparr>"
definition et_WithClient :: "bool \<Rightarrow> etcdProvider \<Rightarrow> etcdProvider" where "et_WithClient given p = (if given then p\<lparr>et_cli := Some InjectedEtcd\<rparr> else p)"

definition New_etcd :: "(etcdProvider \<Rightarrow> etcdProvider) list \<Rightarrow> etcdProvider" where
  "New_etcd opts = fold (\<lambda>opt p. opt p) opts \<lparr>et_endpoints = [], et_cli = None, et_ownClient = False, et_closed = False\<rparr>"

definition endpointsFromEnv :: "(string \<Rightarrow> string) \<Rightarrow> string list" where
  "endpointsFromEnv getenv = (let raw = getenv ''ETCD_ENDPOINTS'' in
     if raw = [] then [] else filter (\<lambda>s. s \<noteq> []) (map trim_space (split_on CHR '','' raw)))"

definition et_conn :: "(string \<Rightarrow> string) \<Rightarrow> (string list \<Rightarrow> err option) \<Rightarrow> etcdProvider \<Rightarrow> etcdProvider \<times> (err + etcd_client)" where
  "et_conn getenv dial p =
     (if et_closed p then (p, Inl (Errorf ''etcd: provider is closed'' [Sentinel ErrUnavailable]))
      else (case et_cli p of Some c \<Rightarrow> (p, Inr c)
      | None \<Rightarrow> (let eps = (if et_endpoints p = [] then endpointsFromEnv getenv else et_endpoints p) in
          if eps = [] then (p, Inl (Errorf ''etcd: no endpoints configured'' []))
          else (case dial eps of Some e \<Rightarrow> (p, Inl (Errorf ''etcd: build client'' [e]))
             | None \<Rightarrow> (p\<lparr>et_cli := Some (OwnEtcd eps), et_ownClient := True\<rparr>, Inr (OwnEtcd eps))))))"

text \<open>\<^verbatim>\<open>Close\<close>, with the client it closes; \<open>close_err\<close> is what closing that client reports.\<close>

definition Close_etcd :: "(etcd_client \<Rightarrow> err option) \<Rightarrow> etcdProvider \<Rightarrow> etcdProvider \<times> err option \<times> etcd_client option" where
  "Close_etcd close_err p = (let p1 = p\<lparr>et_closed := True\<rparr> in
     if \<not> et_ownClient p then (p1, None, None)
     else (case et_cli p of None \<Rightarrow> (p1, None, None) | Some c \<Rightarrow> (p1\<lparr>et_cli := None\<rparr>, close_err c, Some c)))"

datatype grpc_code = GUnknown | GPermissionDenied | GUnauthenticated | GUnavailable | GDeadlineExceeded | GResourceExhausted | GInvalidArgument | GOther string

text \<open>An error of the client as \<^verbatim>\<open>status.Code\<close> and \<^verbatim>\<open>errors.As\<close> read it: its status code and the code of an \<^verbatim>\<open>EtcdError\<close> in its chain.\<close>

record etcdErr =
  ee_status :: grpc_code
  ee_etcd :: "grpc_code option"
  ee_err :: err

definition etcd_table :: "grpc_code \<Rightarrow> sentinel option" where
  "etcd_table c = (case c of GPermissionDenied \<Rightarrow> Some ErrPermissionDenied | GUnauthenticated \<Rightarrow> Some ErrUnauthenticated
     | GUnavailable \<Rightarrow> Some ErrUnavailable | GDeadlineExceeded \<Rightarrow> Some ErrUnavailable | GResourceExhausted \<Rightarrow> Some ErrRateLimited | _ \<Rightarrow> None)"

definition classifyEtcd :: "etcdErr \<Rightarrow> err" where
  "classifyEtcd e = (let c = (if ee_status e = GUnknown then (case ee_etcd e of Some c \<Rightarrow> c | None \<Rightarrow> GUnknown) else ee_status e)
     in case etcd_table c of Some s \<Rightarrow> Errorf [] [Sentinel s, ee_err e] | None \<Rightarrow> ee_err e)"

record keyValue =
  kv_Value :: bytes
  kv_ModRevision :: int

definition valueFromKV :: "json_codec \<Rightarrow> keyValue option \<Rightarrow> Ref \<Rightarrow> err + Value" where
  "valueFromKV j kv ref = (case kv of
     None \<Rightarrow> Inl (Errorf ''etcd: key'' [Sentinel ErrNotFound])
   | Some kv \<Rightarrow> row_value j ref (kv_Value kv) (dec_of_int (kv_ModRevision kv)) False [])"

text \<open>A range response: the pairs it holds, \<^const>\<open>None\<close> for a nil one.\<close>

definition etcd_valueFor :: "json_codec \<Rightarrow> keyValue option list \<Rightarrow> Ref \<Rightarrow> err + Value" where
  "etcd_valueFor j kvs ref = (case kvs of [] \<Rightarrow> Inl (Errorf ''etcd: key'' [Sentinel ErrNotFound]) | kv # _ \<Rightarrow> valueFromKV j kv ref)"

definition Resolve_etcd :: "(string \<Rightarrow> string) \<Rightarrow> (string list \<Rightarrow> err option) \<Rightarrow> json_codec \<Rightarrow> (etcd_client \<Rightarrow> string \<Rightarrow> etcdErr + keyValue option list) \<Rightarrow> err option \<Rightarrow> Ref \<Rightarrow> etcdProvider
    \<Rightarrow> etcdProvider \<times> (err + Value)" where
  "Resolve_etcd getenv dial j get ctxErr ref p = (case ctxErr of Some e \<Rightarrow> (p, Inl e)
   | None \<Rightarrow> (case et_conn getenv dial p of
        (p', Inl e) \<Rightarrow> (p', Inl e)
      | (p', Inr cli) \<Rightarrow> (p', case get cli (r_Path ref) of
           Inl e \<Rightarrow> Inl (Errorf ''etcd: get'' [classifyEtcd e])
         | Inr kvs \<Rightarrow> etcd_valueFor j kvs ref)))"

text \<open>A response of the watch stream is an error or events; an event may be nil, a put or a deletion.\<close>

datatype etcd_event = NilEvent | Put "keyValue option" | Delete

definition etcd_event_updates :: "json_codec \<Rightarrow> Ref \<Rightarrow> etcd_event \<Rightarrow> Update list" where
  "etcd_event_updates j ref ev = (case ev of Put (Some kv) \<Rightarrow> [update_of (valueFromKV j (Some kv) ref)] | _ \<Rightarrow> [])"

definition etcd_response_updates :: "json_codec \<Rightarrow> Ref \<Rightarrow> etcdErr + etcd_event list \<Rightarrow> Update list" where
  "etcd_response_updates j ref resp = (case resp of
     Inl e \<Rightarrow> [update_err (Errorf ''etcd: watch'' [classifyEtcd e])]
   | Inr evs \<Rightarrow> concat (map (etcd_event_updates j ref) evs))"

text \<open>What a watch sends while its context lasts, from the responses of its stream up to the end of the stream.\<close>

definition Watch_etcd :: "(string \<Rightarrow> string) \<Rightarrow> (string list \<Rightarrow> err option) \<Rightarrow> json_codec \<Rightarrow> Ref \<Rightarrow> (etcdErr + etcd_event list) list \<Rightarrow> etcdProvider
    \<Rightarrow> etcdProvider \<times> (err + Update list)" where
  "Watch_etcd getenv dial j ref stream p = (case et_conn getenv dial p of
     (p', Inl e) \<Rightarrow> (p', Inl e)
   | (p', Inr _) \<Rightarrow> (p', Inr (concat (map (etcd_response_updates j ref) stream))))"

subsection \<open>Consul\<close>

text \<open>The handle on the store: injected, or built from the address and the token.\<close>

datatype consul_kv = InjectedKV | BuiltKV string string

record consulProvider =
  co_address :: string
  co_token :: string
  co_waitTime :: duration
  co_kv :: "consul_kv option"

definition co_WithAddress :: "string \<Rightarrow> consulProvider \<Rightarrow> consulProvider" where "co_WithAddress a p = p\<lparr>co_address := a\<rparr>"
definition co_WithToken :: "string \<Rightarrow> consulProvider \<Rightarrow> consulProvider" where "co_WithToken t p = p\<lparr>co_token := t\<rparr>"
definition co_WithWaitTime :: "duration \<Rightarrow> consulProvider \<Rightarrow> consulProvider" where "co_WithWaitTime d p = p\<lparr>co_waitTime := d\<rparr>"
definition co_WithClient :: "bool \<Rightarrow> consulProvider \<Rightarrow> consulProvider" where "co_WithClient given p = (if given then p\<lparr>co_kv := Some InjectedKV\<rparr> else p)"

definition New_consul :: "(consulProvider \<Rightarrow> consulProvider) list \<Rightarrow> consulProvider" where
  "New_consul opts = fold (\<lambda>opt p. opt p) opts \<lparr>co_address = [], co_token = [], co_waitTime = 300000000000, co_kv = None\<rparr>"

text \<open>\<open>dflt\<close> is the address and the token of \<^verbatim>\<open>api.DefaultConfig\<close>, \<open>dial\<close> is \<^verbatim>\<open>api.NewClient\<close>.\<close>

definition co_client :: "string \<times> string \<Rightarrow> (string \<Rightarrow> string \<Rightarrow> err option) \<Rightarrow> consulProvider \<Rightarrow> consulProvider \<times> (err + consul_kv)" where
  "co_client dflt dial p = (case co_kv p of Some kv \<Rightarrow> (p, Inr kv)
   | None \<Rightarrow> (let a = or_default (co_address p) (fst dflt); t = or_default (co_token p) (snd dflt) in
       case dial a t of Some e \<Rightarrow> (p, Inl (Errorf ''consul: build client'' [e]))
       | None \<Rightarrow> (p\<lparr>co_kv := Some (BuiltKV a t)\<rparr>, Inr (BuiltKV a t))))"

text \<open>An error of the client: one with an HTTP status in its chain, or another.\<close>

definition consul_table :: "int \<Rightarrow> sentinel option" where
  "consul_table c = (if c = 403 then Some ErrPermissionDenied else if c = 401 then Some ErrUnauthenticated else if c = 429 then Some ErrRateLimited
     else if c \<ge> 500 then Some ErrUnavailable else if c = 400 then Some ErrInvalid else None)"

definition classifyConsul :: "int dbfail \<Rightarrow> err" where "classifyConsul f = classify_code consul_table f"

record KVPair =
  kp_Value :: bytes
  kp_ModifyIndex :: "64 word"

definition consul_valueFor :: "json_codec \<Rightarrow> KVPair option \<Rightarrow> Ref \<Rightarrow> err + Value" where
  "consul_valueFor j pair ref = (case pair of
     None \<Rightarrow> Inl (Errorf ''consul: key'' [Sentinel ErrNotFound])
   | Some kp \<Rightarrow> row_value j ref (kp_Value kp) (dec_of_int (uint (kp_ModifyIndex kp))) False [])"

definition consul_update :: "json_codec \<Rightarrow> KVPair option \<Rightarrow> Ref \<Rightarrow> Update" where
  "consul_update j pair ref = update_of (consul_valueFor j pair ref)"

definition Resolve_consul :: "string \<times> string \<Rightarrow> (string \<Rightarrow> string \<Rightarrow> err option) \<Rightarrow> json_codec \<Rightarrow> (consul_kv \<Rightarrow> string \<Rightarrow> int dbfail + KVPair option) \<Rightarrow> err option \<Rightarrow> Ref \<Rightarrow> consulProvider
    \<Rightarrow> consulProvider \<times> (err + Value)" where
  "Resolve_consul dflt dial j get ctxErr ref p = (case ctxErr of Some e \<Rightarrow> (p, Inl e)
   | None \<Rightarrow> (case co_client dflt dial p of
        (p', Inl e) \<Rightarrow> (p', Inl e)
      | (p', Inr kv) \<Rightarrow> (p', case get kv (r_Path ref) of
           Inl f \<Rightarrow> Inl (Errorf ''consul: get'' [classifyConsul f])
         | Inr pair \<Rightarrow> consul_valueFor j pair ref)))"

text \<open>
  One pass of the loop of the watch, from the answer of the blocking query: an error, or the pair and the index of the query's metadata, \<^const>\<open>None\<close> when there is none. The state is the last index and the updates
  sent.
\<close>

definition consul_round :: "json_codec \<Rightarrow> Ref \<Rightarrow> int dbfail + KVPair option \<times> (64 word) option \<Rightarrow> 64 word \<times> Update list \<Rightarrow> 64 word \<times> Update list" where
  "consul_round j ref ans st = (case st of (lastIndex, out) \<Rightarrow> (case ans of
     Inl f \<Rightarrow> (lastIndex, out @ [update_err (Errorf ''consul: watch'' [classifyConsul f])])
   | Inr (pair, meta) \<Rightarrow>
      let newIndex = (case meta of Some i \<Rightarrow> i | None \<Rightarrow> lastIndex) in
      if newIndex < lastIndex then (0, out)
      else if lastIndex \<noteq> 0 \<and> newIndex = lastIndex then (lastIndex, out)
      else (newIndex, out @ [consul_update j pair ref])))"

text \<open>The watch over the answers its queries get while its context lasts; the query of a pass waits for an index beyond the one passed to \<open>get\<close>.\<close>

fun consul_loop :: "json_codec \<Rightarrow> Ref \<Rightarrow> (64 word \<Rightarrow> int dbfail + KVPair option \<times> (64 word) option) list \<Rightarrow> 64 word \<times> Update list \<Rightarrow> 64 word \<times> Update list" where
  "consul_loop j ref [] st = st"
| "consul_loop j ref (get # gets) st = consul_loop j ref gets (consul_round j ref (get (fst st)) st)"

definition Watch_consul :: "string \<times> string \<Rightarrow> (string \<Rightarrow> string \<Rightarrow> err option) \<Rightarrow> json_codec \<Rightarrow> Ref \<Rightarrow> (64 word \<Rightarrow> int dbfail + KVPair option \<times> (64 word) option) list \<Rightarrow> consulProvider
    \<Rightarrow> consulProvider \<times> (err + Update list)" where
  "Watch_consul dflt dial j ref gets p = (case co_client dflt dial p of
     (p', Inl e) \<Rightarrow> (p', Inl e)
   | (p', Inr _) \<Rightarrow> (p', Inr (snd (consul_loop j ref gets (0, [])))))"

end
