(* ===== verification/WatchGaps.thy ===== *)
theory WatchGaps
  imports KvSources
begin

text \<open>
  Which watches of the providers catch up with their store, whatever is written while they run, and which do not: the contract of a watch that settles, and the watches of PostgreSQL, Consul and etcd against it.
\<close>

subsection \<open>Watches that settle\<close>

text \<open>
  A watch next to a store that changes: what a read would deliver now, what was sent, and how much work the watch still has before it is idle. A step is one of the watch, a change one of the store.
\<close>

locale settling_watch =
  fixes inv :: "'s \<Rightarrow> bool"
    and current :: "'s \<Rightarrow> 'u"
    and sent :: "'s \<Rightarrow> 'u list"
    and pending :: "'s \<Rightarrow> nat"
    and alter :: "'s \<Rightarrow> 's \<Rightarrow> bool"
    and step :: "'s \<Rightarrow> 's \<Rightarrow> bool"
  assumes alter_inv: "inv s \<Longrightarrow> alter s t \<Longrightarrow> inv t"
    and step_inv: "inv s \<Longrightarrow> step s t \<Longrightarrow> inv t"
    and step_current: "inv s \<Longrightarrow> step s t \<Longrightarrow> current t = current s"
    and settled: "inv s \<Longrightarrow> pending s = 0 \<Longrightarrow> sent s \<noteq> [] \<and> last (sent s) = current s"
    and works: "inv s \<Longrightarrow> 0 < pending s \<Longrightarrow> \<exists>t. step s t"
    and shrinks: "inv s \<Longrightarrow> step s t \<Longrightarrow> pending t \<le> pending s - 1"
begin

lemma run_inv: "(\<lambda>s t. alter s t \<or> step s t)\<^sup>*\<^sup>* s t \<Longrightarrow> inv s \<Longrightarrow> inv t"
  by (induction rule: rtranclp_induct) (auto intro: alter_inv step_inv)

lemma steps_keep: "(step ^^ n) s t \<Longrightarrow> inv s \<Longrightarrow> inv t \<and> current t = current s \<and> pending t \<le> pending s - n"
proof (induction n arbitrary: t)
  case (Suc n)
  then obtain u where "(step ^^ n) s u" "step u t" by auto
  thus ?case using Suc.IH [of u] Suc.prems(2) step_inv [of u t] step_current [of u t] shrinks [of u t] by fastforce
qed simp

text \<open>Once it has made as many steps as it had pending, a watch has sent the current value.\<close>

lemma inevitable: "inv s \<Longrightarrow> (step ^^ n) s t \<Longrightarrow> pending s \<le> n \<Longrightarrow> sent t \<noteq> [] \<and> last (sent t) = current s"
  using steps_keep [of n s t] settled [of t] by simp

lemma catches_up: "inv s \<Longrightarrow> \<exists>t. step\<^sup>*\<^sup>* s t \<and> pending t = 0 \<and> sent t \<noteq> [] \<and> last (sent t) = current s"
proof (induction "pending s" arbitrary: s rule: less_induct)
  case less
  show ?case
  proof (cases "pending s = 0")
    case True
    thus ?thesis using settled [OF less(2)] by blast
  next
    case False
    then obtain u where u: "step s u" using works [OF less(2)] by auto
    hence "pending u < pending s" using shrinks [OF less(2) u] False by simp
    thus ?thesis using less(1) [of u] step_inv [OF less(2) u] step_current [OF less(2) u] u by (metis converse_rtranclp_into_rtranclp)
  qed
qed

text \<open>A watch that has come to rest has sent the current value.\<close>

lemma rests_current:
  assumes "inv s" "step\<^sup>*\<^sup>* s t" "\<nexists>u. step t u"
  shows "sent t \<noteq> [] \<and> last (sent t) = current s"
proof -
  obtain n where "(step ^^ n) s t" using assms(2) by (metis rtranclp_imp_relpowp)
  thus ?thesis using steps_keep [of n s t] assms works [of t] settled [of t] by (metis neq0_conv)
qed

end

subsection \<open>PostgreSQL\<close>

text \<open>
  The store changes. A change of what the watch's query is answered comes with the notification that the trigger on the table sends, which is what the provider asks of the database; a change that leaves that answer alone may
  come without one.
\<close>

inductive pg_alter :: "pgWatch \<Rightarrow> pgWatch \<Rightarrow> bool" where
  written: "pg_alter w (w\<lparr>pw_db := db, pw_queue := pw_queue w + 1\<rparr>)"
| elsewhere: "db (pw_be w) (pw_stmt w) = pw_db w (pw_be w) (pw_stmt w) \<Longrightarrow> pg_alter w (w\<lparr>pw_db := db\<rparr>)"

text \<open>The listening connection breaks, at any moment; a connection that is broken stays so, and \<^verbatim>\<open>Wait\<close> on it may return one error now and another later.\<close>

inductive pg_fault :: "pgWatch \<Rightarrow> pgWatch \<Rightarrow> bool" where
  "pg_fault w (w\<lparr>pw_broken := Some e\<rparr>)"

definition pg_inv :: "json_codec \<Rightarrow> Ref \<Rightarrow> pgProvider \<Rightarrow> pgWatch \<Rightarrow> bool" where
  "pg_inv j ref p w \<longleftrightarrow> pw_broken w = None \<and> (pw_phase w = PgWait \<longrightarrow> pw_queue w = 0 \<longrightarrow> pw_out w \<noteq> [] \<and> last (pw_out w) = pg_read j ref p w)"

definition pg_pending :: "pgWatch \<Rightarrow> nat" where
  "pg_pending w = 2 * pw_queue w + (if pw_phase w = PgWait then 0 else 1)"

interpretation pgw: settling_watch "pg_inv j ref p" "pg_read j ref p" pw_out pg_pending pg_alter "\<lambda>s t. pg_watch_step j ref p s = Some t" for j ref p
proof unfold_locales
  show "pg_inv j ref p s \<Longrightarrow> pg_alter s t \<Longrightarrow> pg_inv j ref p t" for s t by (auto simp: pg_inv_def pg_read_def resolveWith_def elim!: pg_alter.cases)
  show "pg_inv j ref p s \<Longrightarrow> pg_watch_step j ref p s = Some t \<Longrightarrow> pg_inv j ref p t" for s t
    by (auto simp: pg_inv_def pg_watch_step_def pg_read_def split: pg_phase.splits option.splits if_splits)
  show "pg_inv j ref p s \<Longrightarrow> pg_watch_step j ref p s = Some t \<Longrightarrow> pg_read j ref p t = pg_read j ref p s" for s t
    by (auto simp: pg_watch_step_def pg_read_def split: pg_phase.splits option.splits if_splits)
  show "pg_inv j ref p s \<Longrightarrow> pg_pending s = 0 \<Longrightarrow> pw_out s \<noteq> [] \<and> last (pw_out s) = pg_read j ref p s" for s
    by (auto simp: pg_inv_def pg_pending_def split: if_splits)
  show "pg_inv j ref p s \<Longrightarrow> 0 < pg_pending s \<Longrightarrow> \<exists>t. pg_watch_step j ref p s = Some t" for s
    by (auto simp: pg_inv_def pg_pending_def pg_watch_step_def split: pg_phase.splits if_splits)
  show "pg_inv j ref p s \<Longrightarrow> pg_watch_step j ref p s = Some t \<Longrightarrow> pg_pending t \<le> pg_pending s - 1" for s t
    by (auto simp: pg_inv_def pg_pending_def pg_watch_step_def split: pg_phase.splits option.splits if_splits)
qed

lemma Watch_postgres_inv: "Watch_postgres getenv connect listen db ref p = (p', Inr w) \<Longrightarrow> pg_inv j ref q w"
  by (auto simp: Watch_postgres_def pg_inv_def split: sum.splits prod.splits option.splits if_splits)

text \<open>A read of the watch is what \<^verbatim>\<open>Resolve\<close> of the provider would give.\<close>

definition reads_ref :: "(string \<Rightarrow> string) \<Rightarrow> (string \<Rightarrow> err option) \<Rightarrow> json_codec \<Rightarrow> Ref \<Rightarrow> pgProvider \<Rightarrow> pgProvider \<Rightarrow> pgWatch \<Rightarrow> bool" where
  "reads_ref getenv connect j ref q p w \<longleftrightarrow> pg_plan q ref = Inr (pw_stmt w) \<and> backendFor getenv connect q = (p, Inr (pw_be w))"

lemma reads_ref_read: "reads_ref getenv connect j ref q p w \<Longrightarrow> pg_read j ref p w = update_of (snd (Resolve_postgres getenv connect j (pw_db w) None ref q))"
  by (simp add: reads_ref_def pg_read_def Resolve_postgres_def)

lemma Watch_reads_ref: "Watch_postgres getenv connect listen db ref q = (p, Inr w) \<Longrightarrow> reads_ref getenv connect j ref q p w"
  by (auto simp: Watch_postgres_def reads_ref_def split: sum.splits prod.splits option.splits if_splits)

lemma pg_frame:
  "pg_alter s t \<or> pg_watch_step j ref p s = Some t \<Longrightarrow> pw_stmt t = pw_stmt s \<and> pw_be t = pw_be s"
  by (auto simp: pg_watch_step_def elim!: pg_alter.cases split: pg_phase.splits option.splits if_splits)

lemma pg_frame_run:
  "(\<lambda>s t. pg_alter s t \<or> pg_watch_step j ref p s = Some t)\<^sup>*\<^sup>* s t \<Longrightarrow> pw_stmt t = pw_stmt s \<and> pw_be t = pw_be s"
proof (induction rule: rtranclp_induct)
  case (step t u)
  thus ?case using pg_frame [of t u j ref p] by simp
qed simp

text \<open>
  C35. A PostgreSQL watch misses no write: from the moment \<^verbatim>\<open>Watch\<close> returns, and however changes of the database fall between the steps of its goroutine, the baseline included, the watch comes to rest in finitely many of
  its own steps once the writes pause, and wherever it comes to rest the last update it sent is what \<^verbatim>\<open>Resolve\<close> of the ref gives then. Changes of what the ref's query is answered come with a
  notification, and the listening connection stays up.
\<close>

theorem postgres_watch_catches_up:
  fixes j ref p
  defines "moves \<equiv> (\<lambda>s t. pg_watch_step j ref p s = Some t)"
  assumes "Watch_postgres getenv connect listen db ref q = (p, Inr w0)" "(\<lambda>s t. pg_alter s t \<or> moves s t)\<^sup>*\<^sup>* w0 w"
  shows "(\<exists>w'. moves\<^sup>*\<^sup>* w w' \<and> pg_watch_step j ref p w' = None) \<and>
    (\<forall>w'. moves\<^sup>*\<^sup>* w w' \<longrightarrow> pg_watch_step j ref p w' = None \<longrightarrow>
       pw_out w' \<noteq> [] \<and> last (pw_out w') = update_of (snd (Resolve_postgres getenv connect j (pw_db w) None ref q)))"
proof -
  have inv: "pg_inv j ref p w" using pgw.run_inv Watch_postgres_inv [OF assms(2)] assms(3) unfolding moves_def by blast
  have "reads_ref getenv connect j ref q p w"
    using Watch_reads_ref [OF assms(2), of j] pg_frame_run [of j ref p w0 w] assms(3) by (simp add: moves_def reads_ref_def)
  note read = reads_ref_read [OF this]
  have "pg_watch_step j ref p w' = None" if "pg_inv j ref p w'" "pg_pending w' = 0" for w'
    using that by (auto simp: pg_inv_def pg_pending_def pg_watch_step_def split: if_splits)
  moreover obtain w' where "moves\<^sup>*\<^sup>* w w'" "pg_pending w' = 0" using pgw.catches_up [OF inv] unfolding moves_def by blast
  moreover have "pg_inv j ref p w'" if "moves\<^sup>*\<^sup>* w w'" for w'
    using that inv unfolding moves_def by (induction rule: rtranclp_induct) (auto intro: pgw.step_inv)
  moreover have "pw_out w' \<noteq> [] \<and> last (pw_out w') = pg_read j ref p w" if "moves\<^sup>*\<^sup>* w w'" "pg_watch_step j ref p w' = None" for w'
    using pgw.rests_current [OF inv, of w'] that by (simp add: moves_def)
  ultimately show ?thesis unfolding read by blast
qed

text \<open>
  The notification is needed also after a read that failed: it is not tried again, so a watch at rest keeps the error of a passing failure, which ended without a notification, as its last update.
\<close>

lemma failed_read_rests:
  assumes "pw_phase w = PgWait" "pw_queue w = 0" "pw_broken w = None"
  shows "pg_watch_step j ref p (w\<lparr>pw_db := db\<rparr>) = None"
  using assms by (simp add: pg_watch_step_def)

definition watch_err :: "err \<Rightarrow> Update" where "watch_err e = update_err (Errorf ''postgres: watch'' [e])"

text \<open>What follows once the connection is broken: a read that was under way at most, then errors.\<close>

definition only_errors :: "pgWatch \<Rightarrow> pgWatch \<Rightarrow> bool" where
  "only_errors w w' \<longleftrightarrow> pw_broken w' \<noteq> None \<and> (\<exists>reads errs. pw_out w' = pw_out w @ reads @ map watch_err errs \<and> length reads \<le> 1
     \<and> (pw_phase w = PgWait \<longrightarrow> reads = []) \<and> (if pw_phase w' = PgWait then True else pw_phase w' = pw_phase w \<and> reads = [] \<and> errs = []))"

lemma only_errorsI:
  assumes "pw_out w' = pw_out w @ reads @ map watch_err errs" "length reads \<le> 1" "pw_phase w = PgWait \<longrightarrow> reads = []" "pw_phase w' = PgWait" "pw_broken w' \<noteq> None"
  shows "only_errors w w'"
  using assms unfolding only_errors_def by auto

lemma only_errors_cong:
  "only_errors w s \<Longrightarrow> pw_out t = pw_out s \<Longrightarrow> pw_phase t = pw_phase s \<Longrightarrow> pw_broken t \<noteq> None \<Longrightarrow> only_errors w t"
  unfolding only_errors_def by (elim conjE, intro conjI, assumption) (simp only:)

lemma only_errors_step:
  assumes "only_errors w s" "pg_alter s t \<or> pg_fault s t \<or> pg_watch_step j ref p s = Some t"
  shows "only_errors w t"
proof -
  from assms(2) consider "pg_alter s t" | "pg_fault s t" | "pg_watch_step j ref p s = Some t" by blast
  thus ?thesis
  proof cases
    case 3
    obtain reads errs where o: "pw_out s = pw_out w @ reads @ map watch_err errs" "length reads \<le> 1" "pw_phase w = PgWait \<longrightarrow> reads = []"
      "if pw_phase s = PgWait then True else pw_phase s = pw_phase w \<and> reads = [] \<and> errs = []" and b: "pw_broken s \<noteq> None"
      using assms(1) by (auto simp: only_errors_def)
    show ?thesis
    proof (cases "pw_phase s = PgWait")
      case True
      obtain e where e: "pw_broken s = Some e" using b by blast
      have "t = s\<lparr>pw_out := pw_out s @ [watch_err e]\<rparr>" using 3 True e by (simp add: pg_watch_step_def watch_err_def)
      thus ?thesis using o b True by (intro only_errorsI [of t w reads "errs @ [e]"]) simp_all
    next
      case False
      hence "t = s\<lparr>pw_out := pw_out s @ [pg_read j ref p s], pw_phase := PgWait\<rparr>" using 3 by (cases "pw_phase s") (simp_all add: pg_watch_step_def)
      thus ?thesis using o b False by (intro only_errorsI [of t w "[pg_read j ref p s]" "[]"]) simp_all
    qed
  next
    case 1
    have "pw_broken s \<noteq> None" using assms(1) by (simp add: only_errors_def)
    thus ?thesis using 1 by (intro only_errors_cong [OF assms(1)]) (auto elim!: pg_alter.cases)
  next
    case 2
    thus ?thesis by (intro only_errors_cong [OF assms(1)]) (auto elim!: pg_fault.cases)
  qed
qed


subsection \<open>Consul\<close>

text \<open>The watch next to the store: the index of the store and the pair of the key. Every change raises the index; a pass of the loop is answered with what the store holds.\<close>

record consulWatch =
  cw_index :: "64 word"
  cw_pair :: "KVPair option"
  cw_last :: "64 word"
  cw_out :: "Update list"

inductive consul_alter :: "consulWatch \<Rightarrow> consulWatch \<Rightarrow> bool" where
  "cw_index w < i \<Longrightarrow> consul_alter w (w\<lparr>cw_index := i, cw_pair := pair\<rparr>)"

definition consul_step :: "json_codec \<Rightarrow> Ref \<Rightarrow> consulWatch \<Rightarrow> consulWatch" where
  "consul_step j ref w = (case consul_round j ref (Inr (cw_pair w, Some (cw_index w))) (cw_last w, cw_out w) of (i, out) \<Rightarrow> w\<lparr>cw_last := i, cw_out := out\<rparr>)"

definition consul_inv :: "json_codec \<Rightarrow> Ref \<Rightarrow> consulWatch \<Rightarrow> bool" where
  "consul_inv j ref w \<longleftrightarrow> 0 < cw_index w \<and> cw_last w \<le> cw_index w \<and> (cw_last w = cw_index w \<longrightarrow> cw_out w \<noteq> [] \<and> last (cw_out w) = consul_update j (cw_pair w) ref)"

definition consul_pending :: "consulWatch \<Rightarrow> nat" where "consul_pending w = (if cw_last w = cw_index w then 0 else 1)"

lemma consul_step_cases:
  assumes "consul_inv j ref w"
  shows "consul_step j ref w = (if cw_last w = cw_index w then w else w\<lparr>cw_last := cw_index w, cw_out := cw_out w @ [consul_update j (cw_pair w) ref]\<rparr>)"
  using assms by (auto simp: consul_step_def consul_round_def consul_inv_def Let_def)

interpretation cw: settling_watch "consul_inv j ref" "\<lambda>w. consul_update j (cw_pair w) ref" cw_out consul_pending consul_alter "\<lambda>s t. t = consul_step j ref s" for j ref
proof unfold_locales
  show "consul_inv j ref s \<Longrightarrow> consul_alter s t \<Longrightarrow> consul_inv j ref t" for s t by (auto simp: consul_inv_def elim!: consul_alter.cases)
  show "consul_inv j ref s \<Longrightarrow> t = consul_step j ref s \<Longrightarrow> consul_inv j ref t" for s t
    using consul_step_cases [of j ref s] by (auto simp: consul_inv_def)
  show "consul_inv j ref s \<Longrightarrow> t = consul_step j ref s \<Longrightarrow> consul_pending t \<le> consul_pending s - 1" for s t
    using consul_step_cases [of j ref s] by (auto simp: consul_pending_def)
  show "consul_inv j ref s \<Longrightarrow> t = consul_step j ref s \<Longrightarrow> consul_update j (cw_pair t) ref = consul_update j (cw_pair s) ref" for s t
    using consul_step_cases [of j ref s] by auto
qed (auto simp: consul_inv_def consul_pending_def split: if_splits)

text \<open>A Consul watch that starts over its key has sent the present pair after two answers, however the key changed before the second.\<close>

lemma consul_first_answer: "0 < cw_index w \<Longrightarrow> cw_last w = 0 \<Longrightarrow> consul_inv j ref w"
  by (auto simp: consul_inv_def)

lemma consul_watch_catches_up:
  assumes "0 < cw_index w0" "cw_last w0 = 0" "(\<lambda>s t. consul_alter s t \<or> t = consul_step j ref s)\<^sup>*\<^sup>* w0 w"
  shows "last (cw_out (consul_step j ref w)) = consul_update j (cw_pair w) ref"
proof -
  have "consul_inv j ref w" using cw.run_inv consul_first_answer [OF assms(1,2)] assms(3) by blast
  thus ?thesis using cw.inevitable [of j ref w 1 "consul_step j ref w"] by (auto simp: consul_pending_def eq_OO)
qed

text \<open>
  An index that falls back is started over from, and the second answer delivers the present pair; a store that fell back and passed the old index again before it answered is taken for one that timed out.
\<close>

lemma consul_fallback: "i < lastIndex \<Longrightarrow> consul_round j ref (Inr (pair, Some i)) (lastIndex, out) = (0, out)"
  "consul_round j ref (Inr (pair, Some i)) (0, out) = (i, out @ [consul_update j pair ref])"
  by (auto simp: consul_round_def Let_def)

lemma consul_overtaken: "lastIndex \<noteq> 0 \<Longrightarrow> consul_round j ref (Inr (pair, Some lastIndex)) (lastIndex, out) = (lastIndex, out)"
  by (simp add: consul_round_def Let_def)

subsection \<open>etcd\<close>

text \<open>
  The watch next to the store: the pair of the key, whether the stream was opened yet, the events that wait on it, and what the holder of the value was given: its first read, then the updates. The stream carries the
  events from its opening on.
\<close>

record etcdWatch =
  ek_kv :: keyValue
  ek_open :: bool
  ek_queue :: "etcd_event list"
  ek_given :: "Update list"

inductive etcd_alter :: "etcdWatch \<Rightarrow> etcdWatch \<Rightarrow> bool" where
  "etcd_alter w (w\<lparr>ek_kv := kv, ek_queue := ek_queue w @ (if ek_open w then [Put (Some kv)] else [])\<rparr>)"

definition etcd_open :: "etcdWatch \<Rightarrow> etcdWatch" where "etcd_open w = w\<lparr>ek_open := True\<rparr>"

inductive etcd_step :: "json_codec \<Rightarrow> Ref \<Rightarrow> etcdWatch \<Rightarrow> etcdWatch \<Rightarrow> bool" for j ref where
  "ek_queue w = ev # evs \<Longrightarrow> etcd_step j ref w (w\<lparr>ek_queue := evs, ek_given := ek_given w @ etcd_response_updates j ref (Inr [ev])\<rparr>)"

inductive_simps etcd_step_iff: "etcd_step j ref w w'"

definition etcd_current :: "json_codec \<Rightarrow> Ref \<Rightarrow> etcdWatch \<Rightarrow> Update" where
  "etcd_current j ref w = update_of (valueFromKV j (Some (ek_kv w)) ref)"

text \<open>The state after the first read of the key.\<close>

definition etcd_resolved :: "json_codec \<Rightarrow> Ref \<Rightarrow> keyValue \<Rightarrow> etcdWatch" where
  "etcd_resolved j ref kv = \<lparr>ek_kv = kv, ek_open = False, ek_queue = [], ek_given = [update_of (etcd_valueFor j [Some kv] ref)]\<rparr>"

definition etcd_inv :: "json_codec \<Rightarrow> Ref \<Rightarrow> etcdWatch \<Rightarrow> bool" where
  "etcd_inv j ref w \<longleftrightarrow> ek_open w \<and> list_all (\<lambda>ev. \<exists>kv. ev = Put (Some kv)) (ek_queue w) \<and>
     (if ek_queue w = [] then ek_given w \<noteq> [] \<and> last (ek_given w) = etcd_current j ref w else last (ek_queue w) = Put (Some (ek_kv w)))"

interpretation ek: settling_watch "etcd_inv j ref" "etcd_current j ref" ek_given "\<lambda>w. length (ek_queue w)" etcd_alter "etcd_step j ref" for j ref
proof unfold_locales
  show "etcd_inv j ref s \<Longrightarrow> etcd_alter s t \<Longrightarrow> etcd_inv j ref t" for s t by (auto simp: etcd_inv_def elim!: etcd_alter.cases)
  show "etcd_inv j ref s \<Longrightarrow> etcd_step j ref s t \<Longrightarrow> etcd_inv j ref t" for s t
    by (auto simp: etcd_inv_def etcd_step_iff etcd_current_def etcd_response_updates_def etcd_event_updates_def split: if_splits)
  show "etcd_inv j ref s \<Longrightarrow> 0 < length (ek_queue s) \<Longrightarrow> \<exists>t. etcd_step j ref s t" for s by (cases "ek_queue s") (auto simp: etcd_step_iff)
qed (auto simp: etcd_inv_def etcd_step_iff etcd_current_def)

text \<open>An etcd watch whose stream was opened before anything was written after the first read misses nothing.\<close>

lemma etcd_watch_catches_up:
  assumes "(\<lambda>s t. etcd_alter s t \<or> etcd_step j ref s t)\<^sup>*\<^sup>* (etcd_open (etcd_resolved j ref kv)) w" "(etcd_step j ref)\<^sup>*\<^sup>* w w'" "ek_queue w' = []"
  shows "last (ek_given w') = etcd_current j ref w"
proof -
  have "etcd_inv j ref (etcd_open (etcd_resolved j ref kv))" by (simp add: etcd_inv_def etcd_open_def etcd_resolved_def etcd_current_def etcd_valueFor_def)
  hence "etcd_inv j ref w" using ek.run_inv assms(1) by blast
  thus ?thesis using ek.rests_current assms(2,3) by (auto simp: etcd_step_iff)
qed

text \<open>
  A put that falls between the first read and the opening of the stream is not delivered: the watch then rests, with nothing pending, and its holder keeps a value the store no longer has.
\<close>

lemma etcd_watch_gap:
  assumes "update_of (valueFromKV j (Some kv1) ref) \<noteq> update_of (valueFromKV j (Some kv0) ref)"
  shows "\<exists>w. etcd_alter (etcd_resolved j ref kv0) w \<and> ek_kv w = kv1 \<and> (\<nexists>u. etcd_step j ref (etcd_open w) u) \<and>
    last (ek_given (etcd_open w)) \<noteq> etcd_current j ref (etcd_open w)"
proof -
  let ?w = "(etcd_resolved j ref kv0)\<lparr>ek_kv := kv1\<rparr>"
  have "etcd_alter (etcd_resolved j ref kv0) ?w" using etcd_alter.intros [of "etcd_resolved j ref kv0" kv1] by (simp add: etcd_resolved_def)
  moreover have "last (ek_given (etcd_open ?w)) \<noteq> etcd_current j ref (etcd_open ?w)"
    using assms by (auto simp: etcd_open_def etcd_resolved_def etcd_current_def etcd_valueFor_def)
  ultimately show ?thesis by (intro exI [of _ ?w]) (auto simp: etcd_open_def etcd_resolved_def etcd_step_iff)
qed

subsection \<open>Instances\<close>

definition demo_codec :: json_codec where "demo_codec = \<lparr>j_object = (\<lambda>b. None), j_array = (\<lambda>b. None), j_string = (\<lambda>b. None)\<rparr>"
definition demo_sqlRef :: Ref where "demo_sqlRef = \<lparr>r_Scheme = ''postgres'', r_Path = ''config/db'', r_Key = [], r_Opts = [], r_Raw = []\<rparr>"
definition demo_pg :: pgProvider where "demo_pg = New_postgres [pg_WithPool True]"
definition demo_rows :: "bytes \<Rightarrow> pg_query" where "demo_rows b = (\<lambda>be (sql, key). if key = ''db'' then Inr (b, []) else Inl NoRows)"

definition demo_pgw :: pgWatch where
  "demo_pgw = \<lparr>pw_db = demo_rows ''a'', pw_be = InjectedPool, pw_stmt = (''SELECT value FROM config WHERE key = $1'', ''db''), pw_queue = 0, pw_broken = None, pw_phase = PgBaseline, pw_out = []\<rparr>"

lemma demo_pg_plan:
  "pg_plan demo_pg demo_sqlRef = Inr (''SELECT value FROM config WHERE key = $1'', ''db'')" "validIdent (pg_channel demo_pg)"
  "\<not> pg_closed demo_pg" "pg_be demo_pg = Some InjectedPool"
  by code_simp+

lemma demo_pgw_start: "Watch_postgres (\<lambda>_. []) (\<lambda>_. None) (\<lambda>_ _. None) (demo_rows ''a'') demo_sqlRef demo_pg = (demo_pg, Inr demo_pgw)"
  using demo_pg_plan by (simp add: Watch_postgres_def demo_pgw_def backendFor_def)

text \<open>A write before the baseline is read.\<close>

lemma postgres_watch_catches_up_witness:
  "\<exists>w'. (\<lambda>s t. pg_watch_step demo_codec demo_sqlRef demo_pg s = Some t)\<^sup>*\<^sup>* (demo_pgw\<lparr>pw_db := demo_rows ''b'', pw_queue := 1\<rparr>) w' \<and>
     pg_watch_step demo_codec demo_sqlRef demo_pg w' = None \<and> v_Bytes (u_Value (last (pw_out w'))) = ''b''"
proof -
  let ?w = "demo_pgw\<lparr>pw_db := demo_rows ''b'', pw_queue := 1\<rparr>"
  have "pg_alter demo_pgw ?w" using pg_alter.written [of demo_pgw "demo_rows ''b''"] by (simp add: demo_pgw_def)
  hence "(\<lambda>s t. pg_alter s t \<or> pg_watch_step demo_codec demo_sqlRef demo_pg s = Some t)\<^sup>*\<^sup>* demo_pgw ?w" by blast
  from postgres_watch_catches_up [OF demo_pgw_start this] obtain w' where w':
    "(\<lambda>s t. pg_watch_step demo_codec demo_sqlRef demo_pg s = Some t)\<^sup>*\<^sup>* ?w w'" "pg_watch_step demo_codec demo_sqlRef demo_pg w' = None"
    "last (pw_out w') = update_of (snd (Resolve_postgres (\<lambda>_. []) (\<lambda>_. None) demo_codec (pw_db ?w) None demo_sqlRef demo_pg))" by blast
  have "v_Bytes (u_Value (update_of (snd (Resolve_postgres (\<lambda>_. []) (\<lambda>_. None) demo_codec (demo_rows ''b'') None demo_sqlRef demo_pg)))) = ''b''"
    using demo_pg_plan by (simp add: Resolve_postgres_def backendFor_def resolveWith_def row_value_def demo_rows_def demo_sqlRef_def update_of_def)
  hence "v_Bytes (u_Value (last (pw_out w'))) = ''b''" using w'(3) by simp
  thus ?thesis using w'(1,2) by blast
qed


lemma etcd_watch_gap_witness:
  "let kv0 = \<lparr>kv_Value = ''a'', kv_ModRevision = 1\<rparr>; kv1 = \<lparr>kv_Value = ''b'', kv_ModRevision = 2\<rparr> in
   \<exists>w. etcd_alter (etcd_resolved demo_codec demo_sqlRef kv0) w \<and> ek_kv w = kv1 \<and>
     last (ek_given (etcd_open w)) \<noteq> etcd_current demo_codec demo_sqlRef (etcd_open w)"
proof -
  have "update_of (valueFromKV demo_codec (Some \<lparr>kv_Value = ''b'', kv_ModRevision = 2\<rparr>) demo_sqlRef)
      \<noteq> update_of (valueFromKV demo_codec (Some \<lparr>kv_Value = ''a'', kv_ModRevision = 1\<rparr>) demo_sqlRef)" by code_simp
  from etcd_watch_gap [OF this] show ?thesis unfolding Let_def by blast
qed

end
