(* ===== verification/Jwt.thy ===== *)
theory Jwt
  imports Admin
begin

text \<open>
  \<^verbatim>\<open>x/authjwt/authjwt.go\<close>: an Authenticator that accepts signed tokens. The token library is an argument: \<open>parse\<close> is its \<^verbatim>\<open>ParseWithClaims\<close>, given the token, the key function and the options, and \<^verbatim>\<open>jwt_lib\<close> below states
  what it documents.
\<close>

subsection \<open>Keys\<close>

datatype signingMethod = MethodHMAC | MethodRSA | MethodRSAPSS | MethodECDSA | MethodEd25519 | MethodOther string

datatype keyMaterial = SecretKey bytes | RSAKey string | ECDSAKey string | EdKey string | OtherKey string

record token =
  tk_alg :: string
  tk_method :: signingMethod
  tk_kid :: string

type_synonym keyfunc = "token \<Rightarrow> err + keyMaterial"

record KeyOption =
  ko_keyfunc :: "keyfunc option"
  ko_algorithms :: "string list"

definition zero_KeyOption :: KeyOption where "zero_KeyOption = \<lparr>ko_keyfunc = None, ko_algorithms = []\<rparr>"

definition key_isZero :: "KeyOption \<Rightarrow> bool" where "key_isZero k \<longleftrightarrow> ko_keyfunc k = None"

definition jwt_HMAC :: "bytes \<Rightarrow> KeyOption" where
  "jwt_HMAC secret = \<lparr>ko_keyfunc = Some (\<lambda>t. if tk_method t = MethodHMAC then Inr (SecretKey secret) else Inl (Opaque ''authjwt: unexpected signing method for an HMAC key'')),
     ko_algorithms = [''HS256'', ''HS384'', ''HS512'']\<rparr>"

definition RSAPublicKey :: "string \<Rightarrow> KeyOption" where
  "RSAPublicKey key = \<lparr>ko_keyfunc = Some (\<lambda>t. if tk_method t \<in> {MethodRSA, MethodRSAPSS} then Inr (RSAKey key) else Inl (Opaque ''authjwt: unexpected signing method for an RSA key'')),
     ko_algorithms = [''RS256'', ''RS384'', ''RS512'', ''PS256'', ''PS384'', ''PS512'']\<rparr>"

definition ECDSAPublicKey :: "string \<Rightarrow> KeyOption" where
  "ECDSAPublicKey key = \<lparr>ko_keyfunc = Some (\<lambda>t. if tk_method t = MethodECDSA then Inr (ECDSAKey key) else Inl (Opaque ''authjwt: unexpected signing method for an ECDSA key'')),
     ko_algorithms = [''ES256'', ''ES384'', ''ES512'']\<rparr>"

definition EdDSAPublicKey :: "string \<Rightarrow> KeyOption" where
  "EdDSAPublicKey key = \<lparr>ko_keyfunc = Some (\<lambda>t. if tk_method t = MethodEd25519 then Inr (EdKey key) else Inl (Opaque ''authjwt: unexpected signing method for an EdDSA key'')),
     ko_algorithms = [''EdDSA'']\<rparr>"

subsection \<open>Construction\<close>

record jwtConfig =
  jc_Key :: KeyOption
  jc_Keyfunc :: "keyfunc option"
  jc_Algorithms :: "string list"
  jc_Issuer :: string
  jc_Audiences :: "string list"
  jc_SubjectClaim :: string
  jc_Claims :: "string list"
  jc_Realm :: string

record jwtAuth =
  ja_keyfunc :: keyfunc
  ja_algorithms :: "string list"
  ja_issuer :: string
  ja_audiences :: "string list"
  ja_subjectClaim :: string
  ja_claims :: "string list"
  ja_realm :: string

definition jwt_fill :: "jwtConfig \<Rightarrow> keyfunc \<Rightarrow> string list \<Rightarrow> jwtAuth" where
  "jwt_fill cfg kf algs = \<lparr>ja_keyfunc = kf, ja_algorithms = algs, ja_issuer = jc_Issuer cfg, ja_audiences = jc_Audiences cfg,
     ja_subjectClaim = (if jc_SubjectClaim cfg = [] then ''sub'' else jc_SubjectClaim cfg), ja_claims = jc_Claims cfg, ja_realm = jc_Realm cfg\<rparr>"

definition New_jwt :: "jwtConfig \<Rightarrow> err + jwtAuth" where
  "New_jwt cfg = (case (ko_keyfunc (jc_Key cfg), jc_Keyfunc cfg) of
     (Some _, Some _) \<Rightarrow> Inl (Opaque ''authjwt: Config must set exactly one of Key or Keyfunc, not both'')
   | (None, None) \<Rightarrow> Inl (Opaque ''authjwt: Config requires a key source'')
   | (Some kf, None) \<Rightarrow>
       if jc_Algorithms cfg \<noteq> [] then Inl (Opaque ''authjwt: Algorithms must not be set together with Key'')
       else Inr (jwt_fill cfg kf (ko_algorithms (jc_Key cfg)))
   | (None, Some kf) \<Rightarrow>
       if jc_Algorithms cfg = [] then Inl (Opaque ''authjwt: Keyfunc requires Algorithms to be set explicitly'')
       else Inr (jwt_fill cfg kf (jc_Algorithms cfg)))"

subsection \<open>Claims\<close>

datatype claim = ClaimString string | ClaimStrings "string list" | ClaimArray "claim list" | ClaimOther

type_synonym claims = "string \<rightharpoonup> claim"

text \<open>\<^verbatim>\<open>strings.Fields\<close>\<close>

function go_fields :: "string \<Rightarrow> string \<Rightarrow> string list" where
  "go_fields cur s = (case strip_any space_runes s of
     Some t \<Rightarrow> (if cur = [] then go_fields [] t else cur # go_fields [] t)
   | None \<Rightarrow> (case s of [] \<Rightarrow> (if cur = [] then [] else [cur]) | c # t \<Rightarrow> go_fields (cur @ [c]) t))"
  by pat_completeness auto
termination
  by (relation "measure (\<lambda>(cur, s). length s)") (auto simp: strip_any_length)

declare go_fields.simps [simp del]

definition claimValues :: "string \<Rightarrow> claim \<Rightarrow> string list" where
  "claimValues name v = (case v of
     ClaimString s \<Rightarrow> if name \<in> {''scope'', ''scp''} then go_fields [] s else [s]
   | ClaimStrings ss \<Rightarrow> ss
   | ClaimArray items \<Rightarrow> concat (map (\<lambda>item. case item of ClaimString s \<Rightarrow> [s] | _ \<Rightarrow> []) items)
   | ClaimOther \<Rightarrow> [])"

definition subjectFromClaims :: "claims \<Rightarrow> string \<Rightarrow> string" where
  "subjectFromClaims cs name = (case cs name of Some (ClaimString s) \<Rightarrow> s | _ \<Rightarrow> [])"

text \<open>A name listed twice is assigned once.\<close>

definition attrsFromClaims :: "claims \<Rightarrow> string list \<Rightarrow> (string \<times> string list) list" where
  "attrsFromClaims cs names = concat (map (\<lambda>name. case cs name of None \<Rightarrow> []
     | Some v \<Rightarrow> if claimValues name v = [] then [] else [(name, claimValues name v)]) (remdups names))"

subsection \<open>Requests\<close>

definition jwt_bearerToken :: "request \<Rightarrow> err + string" where
  "jwt_bearerToken r = (let header = rq_Header r ''Authorization'' in
     if header = [] then Inl (Opaque ''authjwt: missing authorization header'')
     else (case cut CHR '' '' header of
        None \<Rightarrow> Inl (Opaque ''authjwt: authorization header is not a bearer token'')
      | Some (scheme, tok) \<Rightarrow>
         if to_lower scheme \<noteq> ''bearer'' then Inl (Opaque ''authjwt: authorization header is not a bearer token'')
         else if trim_space tok = [] then Inl (Opaque ''authjwt: empty bearer token'')
         else Inr (trim_space tok)))"

record parserOptions =
  po_methods :: "string list"
  po_expiration :: bool
  po_issuer :: "string option"
  po_audience :: "string list option"

type_synonym jwt_parser = "string \<Rightarrow> keyfunc \<Rightarrow> parserOptions \<Rightarrow> err + claims"

definition jwt_options :: "jwtAuth \<Rightarrow> parserOptions" where
  "jwt_options a = \<lparr>po_methods = ja_algorithms a, po_expiration = True, po_issuer = (if ja_issuer a \<noteq> [] then Some (ja_issuer a) else None),
     po_audience = (if ja_audiences a \<noteq> [] then Some (ja_audiences a) else None)\<rparr>"

definition jwt_Authenticate :: "jwt_parser \<Rightarrow> jwtAuth \<Rightarrow> request \<Rightarrow> err + Identity" where
  "jwt_Authenticate parse a r = (case jwt_bearerToken r of Inl e \<Rightarrow> Inl e
   | Inr s \<Rightarrow> (case parse s (ja_keyfunc a) (jwt_options a) of
        Inl e \<Rightarrow> Inl (Errorf ''authjwt: invalid token'' [e])
      | Inr cs \<Rightarrow> Inr \<lparr>id_Subject = subjectFromClaims cs (ja_subjectClaim a), id_Attrs = attrsFromClaims cs (ja_claims a)\<rparr>))"

text \<open>\<open>quote\<close> is \<^verbatim>\<open>%q\<close>.\<close>

definition jwt_Challenge :: "(string \<Rightarrow> string) \<Rightarrow> jwtAuth \<Rightarrow> string" where
  "jwt_Challenge quote a = (if ja_realm a = [] then ''Bearer'' else ''Bearer realm='' @ quote (ja_realm a))"

definition jwt_Authenticator :: "jwt_parser \<Rightarrow> (string \<Rightarrow> string) \<Rightarrow> jwtAuth \<Rightarrow> Authenticator" where
  "jwt_Authenticator parse quote a = \<lparr>au_Authenticate = jwt_Authenticate parse a, au_Challenge = Some (jwt_Challenge quote a)\<rparr>"

subsection \<open>Algorithms and keys\<close>

text \<open>
  What the library documents of an accepted token: its algorithm is among the valid methods, the key function gave the key its signature was checked with, and the validations asked for passed. \<open>decode\<close> reads
  the header of a token, \<open>verify\<close> says that a signature is that of an algorithm under a key, and \<open>live\<close> that the expiry of a set of claims is present and not past.
\<close>

definition jwt_lib :: "jwt_parser \<Rightarrow> (string \<Rightarrow> token) \<Rightarrow> (string \<Rightarrow> keyMaterial \<Rightarrow> string \<Rightarrow> bool) \<Rightarrow> (claims \<Rightarrow> bool) \<Rightarrow> bool" where
  "jwt_lib parse decode verify live \<longleftrightarrow> (\<forall>s kf opts cs. parse s kf opts = Inr cs \<longrightarrow>
     tk_alg (decode s) \<in> set (po_methods opts) \<and> (\<exists>key. kf (decode s) = Inr key \<and> verify (tk_alg (decode s)) key s) \<and> (po_expiration opts \<longrightarrow> live cs) \<and>
     (\<forall>i. po_issuer opts = Some i \<longrightarrow> cs ''iss'' = Some (ClaimString i)) \<and>
     (\<forall>as. po_audience opts = Some as \<longrightarrow> (\<exists>aud v. cs ''aud'' = Some v \<and> aud \<in> set (claimValues ''aud'' v) \<and> aud \<in> set as)))"

text \<open>The algorithms a kind of key is for.\<close>

fun key_algorithms :: "keyMaterial \<Rightarrow> string list" where
  "key_algorithms (SecretKey _) = [''HS256'', ''HS384'', ''HS512'']"
| "key_algorithms (RSAKey _) = [''RS256'', ''RS384'', ''RS512'', ''PS256'', ''PS384'', ''PS512'']"
| "key_algorithms (ECDSAKey _) = [''ES256'', ''ES384'', ''ES512'']"
| "key_algorithms (EdKey _) = [''EdDSA'']"
| "key_algorithms (OtherKey _) = []"

definition key_options :: "(KeyOption \<times> keyMaterial) set" where
  "key_options = {(jwt_HMAC s, SecretKey s) | s. True} \<union> {(RSAPublicKey k, RSAKey k) | k. True} \<union> {(ECDSAPublicKey k, ECDSAKey k) | k. True} \<union> {(EdDSAPublicKey k, EdKey k) | k. True}"

lemma key_option_family:
  assumes "(k, key) \<in> key_options"
  shows "ko_algorithms k = key_algorithms key \<and> (\<exists>kf. ko_keyfunc k = Some kf \<and> (\<forall>t key'. kf t = Inr key' \<longrightarrow> key' = key)) \<and> ''none'' \<notin> set (key_algorithms key)"
  using assms by (auto simp: key_options_def jwt_HMAC_def RSAPublicKey_def ECDSAPublicKey_def EdDSAPublicKey_def split: if_splits)

lemma New_jwt_key: "New_jwt cfg = Inr a \<Longrightarrow> ko_keyfunc (jc_Key cfg) = Some kf \<Longrightarrow> a = jwt_fill cfg kf (ko_algorithms (jc_Key cfg))"
  by (auto simp: New_jwt_def split: option.splits if_splits)

text \<open>
  C40. A token cannot choose how it is checked: whatever a token names as its algorithm, an authenticator built over one of the four kinds of keys accepts it only when its signature is that of an algorithm for that
  kind of key, under that very key, so neither an unsigned token nor one signed with a public key for its secret is accepted; its expiry is present and not past, and its issuer and its audience are those configured.
\<close>

theorem jwt_no_confusion:
  assumes "jwt_lib parse decode verify live" "New_jwt cfg = Inr a" "(jc_Key cfg, key) \<in> key_options" "jwt_Authenticate parse a r = Inr ident"
  shows "\<exists>s cs. jwt_bearerToken r = Inr s \<and> tk_alg (decode s) \<in> set (key_algorithms key) \<and> tk_alg (decode s) \<noteq> ''none'' \<and> verify (tk_alg (decode s)) key s \<and> live cs \<and>
    (jc_Issuer cfg \<noteq> [] \<longrightarrow> cs ''iss'' = Some (ClaimString (jc_Issuer cfg))) \<and>
    (jc_Audiences cfg \<noteq> [] \<longrightarrow> (\<exists>aud v. cs ''aud'' = Some v \<and> aud \<in> set (claimValues ''aud'' v) \<and> aud \<in> set (jc_Audiences cfg))) \<and>
    id_Subject ident = subjectFromClaims cs (ja_subjectClaim a)"
proof -
  obtain kf where k: "ko_algorithms (jc_Key cfg) = key_algorithms key" "ko_keyfunc (jc_Key cfg) = Some kf" "\<And>t key'. kf t = Inr key' \<Longrightarrow> key' = key"
    "''none'' \<notin> set (key_algorithms key)" using key_option_family [OF assms(3)] by blast
  have a: "a = jwt_fill cfg kf (key_algorithms key)" using New_jwt_key [OF assms(2) k(2)] k(1) by simp
  obtain s cs where s: "jwt_bearerToken r = Inr s" "parse s kf (jwt_options a) = Inr cs" "id_Subject ident = subjectFromClaims cs (ja_subjectClaim a)"
    using assms(4) a by (auto simp: jwt_Authenticate_def jwt_fill_def split: sum.splits)
  have law: "tk_alg (decode s) \<in> set (po_methods (jwt_options a))" "\<exists>key. kf (decode s) = Inr key \<and> verify (tk_alg (decode s)) key s" "po_expiration (jwt_options a) \<longrightarrow> live cs"
    "\<forall>i. po_issuer (jwt_options a) = Some i \<longrightarrow> cs ''iss'' = Some (ClaimString i)"
    "\<forall>as. po_audience (jwt_options a) = Some as \<longrightarrow> (\<exists>aud v. cs ''aud'' = Some v \<and> aud \<in> set (claimValues ''aud'' v) \<and> aud \<in> set as)"
    using assms(1) s(2) unfolding jwt_lib_def by blast+
  have opts: "po_methods (jwt_options a) = key_algorithms key" "po_expiration (jwt_options a)" "jc_Issuer cfg \<noteq> [] \<Longrightarrow> po_issuer (jwt_options a) = Some (jc_Issuer cfg)"
    "jc_Audiences cfg \<noteq> [] \<Longrightarrow> po_audience (jwt_options a) = Some (jc_Audiences cfg)" by (simp_all add: a jwt_options_def jwt_fill_def)
  have "tk_alg (decode s) \<in> set (key_algorithms key)" using law(1) opts(1) by simp
  moreover have "verify (tk_alg (decode s)) key s" using law(2) k(3) by blast
  ultimately show ?thesis using s law(3-5) opts(2-4) k(4) by metis
qed

text \<open>A configuration without a key, with both kinds of key, or with a key function and no list of algorithms gives no authenticator.\<close>

lemma New_jwt_algorithms: "New_jwt cfg = Inr a \<Longrightarrow> ko_algorithms (jc_Key cfg) \<noteq> [] \<or> jc_Keyfunc cfg \<noteq> None \<Longrightarrow> ja_algorithms a \<noteq> []"
  by (auto simp: New_jwt_def jwt_fill_def split: option.splits if_splits)

text \<open>No failure is one of authorization: each is answered as a missing or an invalid credential.\<close>

lemma jwt_never_forbidden:
  assumes "\<And>s kf opts e. parse s kf opts = Inl e \<Longrightarrow> \<not> err_is e ErrForbidden" "jwt_Authenticate parse a r = Inl e"
  shows "\<not> err_is e ErrForbidden"
  using assms by (auto simp: jwt_Authenticate_def jwt_bearerToken_def Let_def split: sum.splits option.splits if_splits)

text \<open>An array with elements that are not strings yields the elements that are, where the documentation has it yield none.\<close>

lemma mixed_array_kept: "claimValues ''groups'' (ClaimArray [ClaimString ''admin'', ClaimOther]) = [''admin'']"
  by (simp add: claimValues_def)

lemma go_fields_words: "\<forall>w\<in>set (go_fields cur s). w \<noteq> []"
proof (induction cur s rule: go_fields.induct)
  case (1 cur s)
  show ?case
  proof (cases "strip_any space_runes s")
    case None
    thus ?thesis using 1(1) [OF None] by (auto simp: go_fields.simps [of cur s] split: list.splits)
  next
    case (Some t)
    hence "go_fields cur s = (if cur = [] then go_fields [] t else cur # go_fields [] t)" by (subst go_fields.simps) simp
    thus ?thesis using 1(2,3) [OF Some] by (cases "cur = []") simp_all
  qed
qed

text \<open>A scope is never the empty word, so no grant to the empty scope is matched by spaces.\<close>

lemma scope_values: "name \<in> {''scope'', ''scp''} \<Longrightarrow> [] \<notin> set (claimValues name (ClaimString s))"
  using go_fields_words [of "[]" s] by (auto simp: claimValues_def)

subsection \<open>Instances\<close>

definition demo_jwtParse :: jwt_parser where
  "demo_jwtParse s kf opts = (if ''HS256'' \<in> set (po_methods opts) \<and> po_issuer opts = None \<and> po_audience opts = None
     then (case kf \<lparr>tk_alg = ''HS256'', tk_method = MethodHMAC, tk_kid = []\<rparr> of Inl e \<Rightarrow> Inl e | Inr key \<Rightarrow> Inr [''sub'' \<mapsto> ClaimString ''ops''])
     else Inl (Opaque ''token signature is invalid''))"

definition demo_jwtConfig :: jwtConfig where
  "demo_jwtConfig = \<lparr>jc_Key = jwt_HMAC ''secret'', jc_Keyfunc = None, jc_Algorithms = [], jc_Issuer = [], jc_Audiences = [], jc_SubjectClaim = [], jc_Claims = [''scope''], jc_Realm = []\<rparr>"

definition demo_jwtRequest :: request where
  "demo_jwtRequest = \<lparr>rq_Header = (\<lambda>h. if h = ''Authorization'' then ''Bearer t'' else []), rq_TLS = None, rq_PeerCred = None\<rparr>"

lemma jwt_no_confusion_witness:
  "\<exists>a ident s. New_jwt demo_jwtConfig = Inr a \<and> jwt_Authenticate demo_jwtParse a demo_jwtRequest = Inr ident \<and> id_Subject ident = ''ops'' \<and>
     jwt_bearerToken demo_jwtRequest = Inr s \<and> ''HS256'' \<in> set (key_algorithms (SecretKey ''secret''))"
proof -
  let ?hdr = "\<lparr>tk_alg = ''HS256'', tk_method = MethodHMAC, tk_kid = []\<rparr>"
  have lib: "jwt_lib demo_jwtParse (\<lambda>_. ?hdr) (\<lambda>alg key s. True) (\<lambda>_. True)"
    by (auto simp: jwt_lib_def demo_jwtParse_def split: if_splits sum.splits)
  obtain a where a: "New_jwt demo_jwtConfig = Inr a" by (auto simp: New_jwt_def demo_jwtConfig_def jwt_HMAC_def)
  have fill: "a = jwt_fill demo_jwtConfig (the (ko_keyfunc (jwt_HMAC ''secret''))) (ko_algorithms (jwt_HMAC ''secret''))"
    using a by (auto simp: New_jwt_def demo_jwtConfig_def jwt_HMAC_def)
  have tok: "jwt_bearerToken demo_jwtRequest = Inr ''t''" by code_simp
  obtain ident where ident: "jwt_Authenticate demo_jwtParse a demo_jwtRequest = Inr ident" "id_Subject ident = ''ops''"
    unfolding fill using tok by (auto simp: jwt_Authenticate_def demo_jwtParse_def jwt_fill_def jwt_options_def demo_jwtConfig_def jwt_HMAC_def subjectFromClaims_def)
  have "(jc_Key demo_jwtConfig, SecretKey ''secret'') \<in> key_options" by (auto simp: key_options_def demo_jwtConfig_def)
  from jwt_no_confusion [OF lib a this ident(1)] show ?thesis using a ident by auto
qed

end
