(* ===== verification/LiveCommands.thy ===== *)
theory LiveCommands
  imports Surface Admin Sealing Client
begin

text \<open>
  \<^verbatim>\<open>cmd/mamori\<close>: the commands that ask a running process (\<^verbatim>\<open>client.go\<close>, \<^verbatim>\<open>flags.go\<close>, \<^verbatim>\<open>doctor.go\<close>, \<^verbatim>\<open>status.go\<close>), the arguments of
  \<^verbatim>\<open>explain.go\<close> and \<^verbatim>\<open>vet.go\<close>, and the dispatcher of \<^verbatim>\<open>main.go\<close>. A command is a function from its arguments to its exit code, what it
  writes to standard output and the errors it writes to standard error; texts are the values printed in them.

  What lies outside is a record \<open>cli_env\<close>: \<^verbatim>\<open>url.Parse\<close> (the scheme and path of an address), files and standard input, key pairs, durations, the
  HTTP client, the two JSON decoders of \<^verbatim>\<open>decodeReport\<close> (the keys of the top-level object, and a report) and the loading of Go packages.
\<close>

subsection \<open>Flags\<close>

text \<open>\<^verbatim>\<open>FlagSet.Parse\<close> of the standard library: the arguments left and the values set. \<open>None\<close> is any error, help included.\<close>

datatype 'c flag = BoolFlag "bool \<Rightarrow> 'c \<Rightarrow> 'c" | ValueFlag "string \<Rightarrow> 'c \<Rightarrow> 'c option"

definition split_flag :: "string \<Rightarrow> (string \<times> string option) option" where
  "split_flag s =
     (let name = (if has_prefix ''--'' s then drop 2 s else drop 1 s)
      in if name = [] \<or> hd name = CHR ''-'' \<or> hd name = CHR ''='' then None
         else Some (case cut CHR ''='' name of Some (n, v) \<Rightarrow> (n, Some v) | None \<Rightarrow> (name, None)))"

fun parse_flags :: "(string \<times> 'c flag) list \<Rightarrow> string list \<Rightarrow> 'c \<Rightarrow> (string list \<times> 'c) option" where
  "parse_flags F [] c = Some ([], c)"
| "parse_flags F (s # args) c =
     (if length s < 2 \<or> hd s \<noteq> CHR ''-'' then Some (s # args, c)
      else if s = ''--'' then Some (args, c)
      else (case split_flag s of
         None \<Rightarrow> None
       | Some (name, value) \<Rightarrow> (case map_of F name of
            None \<Rightarrow> None
          | Some (BoolFlag f) \<Rightarrow> (case value of
               None \<Rightarrow> parse_flags F args (f True c)
             | Some v \<Rightarrow> (case ParseBool v of None \<Rightarrow> None | Some b \<Rightarrow> parse_flags F args (f b c)))
          | Some (ValueFlag f) \<Rightarrow> (case value of
               Some v \<Rightarrow> (case f v c of None \<Rightarrow> None | Some c' \<Rightarrow> parse_flags F args c')
             | None \<Rightarrow> (case args of [] \<Rightarrow> None
                | v # rest \<Rightarrow> (case f v c of None \<Rightarrow> None | Some c' \<Rightarrow> parse_flags F rest c'))))))"

record liveFlags =
  lf_endpoint :: string
  lf_insecure :: bool
  lf_bearer :: string
  lf_bearerFile :: string
  lf_basic :: string
  lf_basicFile :: string
  lf_clientCert :: string
  lf_clientKey :: string

definition no_liveFlags :: liveFlags where
  "no_liveFlags = \<lparr>lf_endpoint = [], lf_insecure = False, lf_bearer = [], lf_bearerFile = [], lf_basic = [], lf_basicFile = [],
     lf_clientCert = [], lf_clientKey = []\<rparr>"

text \<open>The flags of both live commands, set through an update of the command's own record.\<close>

definition register :: "((liveFlags \<Rightarrow> liveFlags) \<Rightarrow> 'c \<Rightarrow> 'c) \<Rightarrow> (string \<times> 'c flag) list" where
  "register via =
     [(''endpoint'', ValueFlag (\<lambda>v c. Some (via (lf_endpoint_update (\<lambda>_. v)) c))),
      (''insecure'', BoolFlag (\<lambda>b. via (lf_insecure_update (\<lambda>_. b)))),
      (''bearer'', ValueFlag (\<lambda>v c. Some (via (lf_bearer_update (\<lambda>_. v)) c))),
      (''bearer-file'', ValueFlag (\<lambda>v c. Some (via (lf_bearerFile_update (\<lambda>_. v)) c))),
      (''basic'', ValueFlag (\<lambda>v c. Some (via (lf_basic_update (\<lambda>_. v)) c))),
      (''basic-file'', ValueFlag (\<lambda>v c. Some (via (lf_basicFile_update (\<lambda>_. v)) c))),
      (''client-cert'', ValueFlag (\<lambda>v c. Some (via (lf_clientCert_update (\<lambda>_. v)) c))),
      (''client-key'', ValueFlag (\<lambda>v c. Some (via (lf_clientKey_update (\<lambda>_. v)) c)))]"

subsection \<open>Credentials and endpoints\<close>

record cli_env =
  ce_Parse :: "string \<Rightarrow> (string \<times> string) option"
  ce_Open :: "string \<Rightarrow> err + bytes"
  ce_Stdin :: "err + bytes"
  ce_KeyPair :: "string \<Rightarrow> string \<Rightarrow> err option"
  ce_Duration :: "string \<Rightarrow> duration option"
  ce_Do :: "transport \<Rightarrow> (string \<times> string) option \<Rightarrow> creq \<Rightarrow> err + nat \<times> (err + bytes)"
  ce_object :: "bytes \<Rightarrow> string list option"
  ce_report :: "bytes \<Rightarrow> Report option"
  ce_Extract :: "string list \<Rightarrow> string \<Rightarrow> SchemeSet option \<Rightarrow> err + StructInfo list"

definition trim_credential :: "bytes \<Rightarrow> string" where
  "trim_credential data = rev (dropWhile (\<lambda>c. c \<in> set [CHR '' '', CHR 0x09, CHR 0x0D, CHR 0x0A]) (rev data))"

definition resolveValue :: "cli_env \<Rightarrow> string \<Rightarrow> string \<Rightarrow> err + string" where
  "resolveValue L value file = (if value \<noteq> [] then Inr value
     else map_sum id trim_credential (if file = ''-'' then ce_Stdin L else ce_Open L file))"

text \<open>The header, empty for none, and the certificate and key files of a client certificate.\<close>

definition auth_header :: "cli_env \<Rightarrow> liveFlags \<Rightarrow> err + string" where
  "auth_header L f =
     (let bearerSet = lf_bearer f \<noteq> [] \<or> lf_bearerFile f \<noteq> []; basicSet = lf_basic f \<noteq> [] \<or> lf_basicFile f \<noteq> []
      in if bearerSet \<and> basicSet then Inl (Errorf ''mamori: --bearer/--bearer-file and --basic/--basic-file are mutually exclusive'' [])
         else if bearerSet then (case resolveValue L (lf_bearer f) (lf_bearerFile f) of
             Inl e \<Rightarrow> Inl (Errorf ''mamori: reading bearer token'' [e])
           | Inr token \<Rightarrow> Inr (''Bearer '' @ token))
         else if basicSet then (case resolveValue L (lf_basic f) (lf_basicFile f) of
             Inl e \<Rightarrow> Inl (Errorf ''mamori: reading basic credentials'' [e])
           | Inr userPass \<Rightarrow> Inr (''Basic '' @ b64_encode userPass))
         else Inr [])"

definition client_cert :: "cli_env \<Rightarrow> liveFlags \<Rightarrow> err + (string \<times> string) option" where
  "client_cert L f =
     (let certSet = lf_clientCert f \<noteq> []; keySet = lf_clientKey f \<noteq> []
      in if certSet \<and> keySet then (case ce_KeyPair L (lf_clientCert f) (lf_clientKey f) of
             Some e \<Rightarrow> Inl (Errorf ''mamori: loading client certificate'' [e])
           | None \<Rightarrow> Inr (Some (lf_clientCert f, lf_clientKey f)))
         else if certSet \<noteq> keySet then Inl (Errorf ''mamori: --client-cert and --client-key must both be set'' [])
         else Inr None)"

definition resolveCredential :: "cli_env \<Rightarrow> liveFlags \<Rightarrow> err + string \<times> (string \<times> string) option" where
  "resolveCredential L f = bind_res (auth_header L f) (\<lambda>header. bind_res (client_cert L f) (\<lambda>certs. Inr (header, certs)))"

definition live_endpoint :: "cli_env \<Rightarrow> string \<Rightarrow> bool \<Rightarrow> err + string \<times> transport" where
  "live_endpoint L endpoint insecure =
     (if endpoint = [] then Inl (Errorf ''mamori: empty --endpoint'' [])
      else (case ce_Parse L endpoint of
         None \<Rightarrow> Inl (Errorf ''mamori: parsing --endpoint'' [])
       | Some (scheme, p) \<Rightarrow>
           if scheme = ''unix'' then
             (if p = [] then Inl (Errorf ''mamori: unix endpoint has no socket path'' [])
              else Inr (''http://'' @ dummyUnixHost, UnixSocket p))
           else if scheme = ''https'' then Inr (trim_right_slash endpoint, Tcp)
           else if scheme = ''http'' then
             (if \<not> insecure then Inl (Errorf ''mamori: plaintext --endpoint refused; pass --insecure to allow it'' [])
              else Inr (trim_right_slash endpoint, Tcp))
           else Inl (Errorf ''mamori: unsupported --endpoint scheme'' [])))"

subsection \<open>Fetching a report\<close>

definition exitHealthy :: nat where "exitHealthy = 0"
definition exitUnhealthy :: nat where "exitUnhealthy = 1"
definition exitNotAdminAPI :: nat where "exitNotAdminAPI = 2"
definition exitUnreachable :: nat where "exitUnreachable = 3"
definition exitUnauthorized :: nat where "exitUnauthorized = 4"

lemmas exit_defs = exitHealthy_def exitUnhealthy_def exitNotAdminAPI_def exitUnreachable_def exitUnauthorized_def

definition reportFields :: "string list" where
  "reportFields = [''Fields'', ''Snapshot'', ''Live'', ''Pinned'', ''Healthy'', ''GeneratedAt'']"

definition reportOptionalFields :: "string list" where
  "reportOptionalFields = [''Source'', ''Bootstrap'']"

definition decodeReport :: "cli_env \<Rightarrow> bytes \<Rightarrow> err + Report" where
  "decodeReport L body = (case ce_object L body of
     None \<Rightarrow> Inl (Errorf ''response body is not a JSON object'' [])
   | Some raw \<Rightarrow>
      if \<not> list_all (\<lambda>k. k \<in> set raw) reportFields then Inl (Errorf ''response body is missing a top-level field'' [])
      else if \<not> list_all (\<lambda>k. k \<in> set (reportFields @ reportOptionalFields)) raw
        then Inl (Errorf ''response body has an unexpected top-level field'' [])
      else (case ce_report L body of
         None \<Rightarrow> Inl (Errorf ''decoding response body as mamori.Report'' [])
       | Some rep \<Rightarrow> Inr rep))"

record fetchResult =
  fr_body :: "bytes option"
  fr_rep :: "Report option"
  fr_exit :: nat
  fr_err :: "err option"

definition fetch_failed :: "bytes option \<Rightarrow> nat \<Rightarrow> err \<Rightarrow> fetchResult" where
  "fetch_failed body ex e = \<lparr>fr_body = body, fr_rep = None, fr_exit = ex, fr_err = Some e\<rparr>"

definition classify :: "cli_env \<Rightarrow> nat \<Rightarrow> bytes \<Rightarrow> fetchResult" where
  "classify L status body =
     (if status = 200 then (case decodeReport L body of
         Inl derr \<Rightarrow> fetch_failed (Some body) exitNotAdminAPI (Errorf ''mamori: returned 200 but the body is not a mamori admin Report'' [])
       | Inr rep \<Rightarrow> \<lparr>fr_body = Some body, fr_rep = Some rep, fr_exit = (if rp_Healthy rep then exitHealthy else exitUnhealthy), fr_err = None\<rparr>)
      else if status = 404 then fetch_failed (Some body) exitNotAdminAPI (Errorf ''mamori: returned 404 on GET / -- the admin API is not enabled on the target process'' [])
      else if status = 401 then fetch_failed (Some body) exitUnauthorized (Errorf ''mamori: returned 401 -- reachable mamori admin API, but authentication failed'' [])
      else fetch_failed (Some body) exitNotAdminAPI (Errorf ''mamori: returned unexpected status -- reachable, but not a usable admin Report'' []))"

definition report_request :: "string \<Rightarrow> string \<Rightarrow> creq" where
  "report_request baseURL header =
     (let q = \<lparr>cq_Method = ''GET'', cq_URL = baseURL @ ''/'', cq_Header = [], cq_Body = []\<rparr>
      in if header \<noteq> [] then set_header ''Authorization'' header q else q)"

definition doFetch :: "cli_env \<Rightarrow> liveFlags \<Rightarrow> fetchResult" where
  "doFetch L f = (case live_endpoint L (lf_endpoint f) (lf_insecure f) of
     Inl e \<Rightarrow> fetch_failed None exitUnreachable e
   | Inr (baseURL, transport) \<Rightarrow> (case resolveCredential L f of
      Inl e \<Rightarrow> fetch_failed None exitUnreachable e
    | Inr (header, tlsCerts) \<Rightarrow>
       if ce_Parse L (baseURL @ ''/'') = None then fetch_failed None exitUnreachable (Errorf ''mamori: building request'' [])
       else (case ce_Do L transport tlsCerts (report_request baseURL header) of
          Inl e \<Rightarrow> fetch_failed None exitUnreachable (Errorf ''mamori: connecting'' [e])
        | Inr (status, Inl e) \<Rightarrow> fetch_failed None exitUnreachable (Errorf ''mamori: reading response'' [e])
        | Inr (status, Inr body) \<Rightarrow> classify L status body)))"

definition fetchReport :: "cli_env \<Rightarrow> liveFlags \<Rightarrow> Report option \<times> nat \<times> err option" where
  "fetchReport L f = (let res = doFetch L f in (fr_rep res, fr_exit res, fr_err res))"


subsection \<open>What the live commands write\<close>

text \<open>\<^verbatim>\<open>Duration.Round(time.Second)\<close>, halves away from zero.\<close>

definition round_second :: "duration \<Rightarrow> duration" where
  "round_second d = (let s = 1000000000 in if d < 0 then - ((- d + s div 2) div s * s) else (d + s div 2) div s * s)"

text \<open>The line under the table, with its age and the problem put in brackets.\<close>

datatype bootstrap_line =
    ServingSnapshot duration | NoSnapshot string | DifferentStruct duration string | BootedFromSnapshot duration | SnapshotMatches duration

definition bootstrapProblemSuffix :: "BootstrapStatus \<Rightarrow> string" where
  "bootstrapProblemSuffix bs = (if bs_Problem bs = [] then [] else '' ('' @ bs_Problem bs @ '')'')"

definition writeBootstrapLine :: "Report \<Rightarrow> bootstrap_line option" where
  "writeBootstrapLine rep = (case rp_Bootstrap rep of
     None \<Rightarrow> None
   | Some bs \<Rightarrow> Some (
      if rp_Source rep = SourceBootstrapCache then ServingSnapshot (round_second (bs_Age bs))
      else if \<not> bs_Present bs then NoSnapshot (bootstrapProblemSuffix bs)
      else if \<not> bs_FingerprintMatch bs then DifferentStruct (round_second (bs_Age bs)) (bootstrapProblemSuffix bs)
      else if bs_Restored bs then BootedFromSnapshot (round_second (bs_Age bs))
      else SnapshotMatches (round_second (bs_Age bs))))"

text \<open>The cells of a row that are not the field's own text: the last error is printed, or a dash.\<close>

definition report_row :: "FieldStatus \<Rightarrow> string list \<times> err option" where
  "report_row f = ([fs_Path f, fs_Scheme f, fs_Ref f, fs_Version f, FormatBool (fs_Stale f), (if fs_LastKind f = [] then ''-'' else fs_LastKind f),
     FormatBool (fs_Sensitive f), FormatBool (fs_Derived f)], fs_LastError f)"

datatype cli_out =
    UsageText
  | ReportTable "(string list \<times> err option) list" bool nat nat nat bool instant "bootstrap_line option"
  | RawBody bytes
  | NoDrift
  | Drift "path list" "path list"
  | ExplainJSON "StructInfo list"
  | ExplainTable "(string \<times> string list list \<times> bool) list"
  | VersionText

definition writeReportTable :: "Report \<Rightarrow> cli_out" where
  "writeReportTable rep = ReportTable (map report_row (rp_Fields rep)) (rp_Healthy rep) (length (rp_Fields rep)) (rp_Snapshot rep) (rp_Live rep)
     (rp_Pinned rep) (rp_GeneratedAt rep) (writeBootstrapLine rep)"

definition writeDoctorJSON :: "fetchResult \<Rightarrow> cli_out list" where
  "writeDoctorJSON res = (case fr_body res of
     None \<Rightarrow> []
   | Some b \<Rightarrow> [RawBody (if b = [] \<or> last b \<noteq> CHR 0x0A then b @ [CHR 0x0A] else b)])"

definition source_paths :: "StructInfo list \<Rightarrow> path list" where
  "source_paths structs = concat (map (\<lambda>s. map fd_Path (filter (\<lambda>f. fd_Kind f = KindSource) (si_Fields s))) structs)"

definition live_paths :: "Report option \<Rightarrow> path list" where
  "live_paths rep = (case rep of None \<Rightarrow> [] | Some r \<Rightarrow> map fs_Path (filter (\<lambda>f. \<not> fs_Derived f) (rp_Fields r)))"

definition compare_paths :: "path list \<Rightarrow> path list \<Rightarrow> cli_out" where
  "compare_paths source live =
     (let onlySource = sortedUniqueStrings (filter (\<lambda>p. p \<notin> set live) source);
          onlyLive = sortedUniqueStrings (filter (\<lambda>p. p \<notin> set source) live)
      in if onlySource = [] \<and> onlyLive = [] then NoDrift else Drift onlySource onlyLive)"

text \<open>A command's result: exit code, standard output, standard error.\<close>

type_synonym cli_result = "nat \<times> cli_out list \<times> err list"

definition runCompare :: "cli_env \<Rightarrow> string list \<Rightarrow> Report option \<Rightarrow> SchemeSet option \<Rightarrow> cli_out list \<times> err list" where
  "runCompare L patterns rep schemes = (case ce_Extract L patterns [] schemes of
     Inl e \<Rightarrow> ([], [Errorf ''mamori doctor --compare'' [e]])
   | Inr structs \<Rightarrow> ([compare_paths (source_paths structs) (live_paths rep)], []))"

text \<open>\<^verbatim>\<open>strings.Fields\<close>.\<close>

function split_fields :: "string \<Rightarrow> string \<Rightarrow> string list" where
  "split_fields cur s = (case strip_any space_runes s of
     Some rest \<Rightarrow> (if cur = [] then [] else [cur]) @ split_fields [] rest
   | None \<Rightarrow> (case s of [] \<Rightarrow> (if cur = [] then [] else [cur]) | c # cs \<Rightarrow> split_fields (cur @ [c]) cs))"
  by pat_completeness auto
termination
  by (relation "measure (\<lambda>(cur, s). length s)") (auto simp: strip_any_length)

declare split_fields.simps [simp del]

record doctorFlags =
  df_live :: liveFlags
  df_json :: bool
  df_compare :: string
  df_secretSchemes :: string

definition doctor_flags :: "(string \<times> doctorFlags flag) list" where
  "doctor_flags = register df_live_update @
     [(''json'', BoolFlag (\<lambda>b. df_json_update (\<lambda>_. b))),
      (''compare'', ValueFlag (\<lambda>v c. Some (c\<lparr>df_compare := v\<rparr>))),
      (''secret-schemes'', ValueFlag (\<lambda>v c. Some (c\<lparr>df_secretSchemes := v\<rparr>)))]"

definition no_doctorFlags :: doctorFlags where
  "no_doctorFlags = \<lparr>df_live = no_liveFlags, df_json = False, df_compare = [], df_secretSchemes = []\<rparr>"

definition bad_flags :: err where "bad_flags = Opaque ''flag: bad arguments''"

definition err_list :: "err option \<Rightarrow> err list" where
  "err_list e = (case e of None \<Rightarrow> [] | Some x \<Rightarrow> [x])"

definition table_of :: "fetchResult \<Rightarrow> cli_out list" where
  "table_of res = (case fr_rep res of None \<Rightarrow> [] | Some rep \<Rightarrow> [writeReportTable rep])"

definition doctorCmd :: "cli_env \<Rightarrow> string list \<Rightarrow> cli_result" where
  "doctorCmd L args =
     (if wantsHelp args then (0, [UsageText], [])
      else (case parse_flags doctor_flags args no_doctorFlags of
         None \<Rightarrow> (2, [], [bad_flags])
       | Some (_, df) \<Rightarrow> (case secretSchemeSet (df_secretSchemes df) of
            Inl e \<Rightarrow> (2, [], [e])
          | Inr schemes \<Rightarrow>
             (let res = doFetch L (df_live df);
                  out = (if df_json df then writeDoctorJSON res else table_of res);
                  (cmp, cerr) = (if df_compare df \<noteq> [] then runCompare L (split_fields [] (df_compare df)) (fr_rep res) schemes else ([], []))
              in (fr_exit res, out @ cmp, err_list (fr_err res) @ cerr)))))"

subsection \<open>Watching a status\<close>

record statusFlags =
  sf_live :: liveFlags
  sf_watch :: bool
  sf_interval :: duration

definition defaultStatusInterval :: duration where "defaultStatusInterval = 2 * 1000000000"

definition status_flags :: "(string \<rightharpoonup> duration) \<Rightarrow> (string \<times> statusFlags flag) list" where
  "status_flags dur = register sf_live_update @
     [(''watch'', BoolFlag (\<lambda>b. sf_watch_update (\<lambda>_. b))),
      (''interval'', ValueFlag (\<lambda>v c. map_option (\<lambda>d. c\<lparr>sf_interval := d\<rparr>) (dur v)))]"

definition render :: "liveFlags \<Rightarrow> cli_env \<Rightarrow> cli_out list \<times> err list" where
  "render f L = (let res = doFetch L f in (table_of res, err_list (fr_err res)))"

text \<open>\<open>ticks\<close> are the surroundings at each tick before the interrupt. \<^verbatim>\<open>time.NewTicker\<close> panics (\<open>None\<close>) on an interval that is not positive.\<close>

definition watchStatus :: "cli_env \<Rightarrow> cli_env list \<Rightarrow> liveFlags \<Rightarrow> duration \<Rightarrow> cli_result option" where
  "watchStatus L ticks f interval =
     (if interval \<le> 0 then None
      else (let rs = map (render f) (L # ticks) in Some (0, concat (map fst rs), concat (map snd rs))))"

definition statusCmd :: "cli_env \<Rightarrow> cli_env list \<Rightarrow> string list \<Rightarrow> cli_result option" where
  "statusCmd L ticks args =
     (if wantsHelp args then Some (0, [UsageText], [])
      else (case parse_flags (status_flags (ce_Duration L)) args \<lparr>sf_live = no_liveFlags, sf_watch = False, sf_interval = defaultStatusInterval\<rparr> of
         None \<Rightarrow> Some (2, [], [bad_flags])
       | Some (_, sf) \<Rightarrow>
          if \<not> sf_watch sf then (let res = doFetch L (sf_live sf) in Some (fr_exit res, table_of res, err_list (fr_err res)))
          else watchStatus L ticks (sf_live sf) (sf_interval sf)))"

subsection \<open>Explain, vet and the dispatcher\<close>

record explainArgs =
  xa_patterns :: "string list"
  xa_typeName :: string
  xa_jsonOut :: bool
  xa_extra :: string

function explain_args :: "string list \<Rightarrow> explainArgs \<Rightarrow> err + explainArgs" where
  "explain_args args o' = (case args of [] \<Rightarrow> Inr o'
   | a # rest \<Rightarrow> (case matchSecretSchemes args of
       Inl e \<Rightarrow> Inl e
     | Inr (value, consumed) \<Rightarrow>
        if consumed > 0 then explain_args (drop consumed args) (o'\<lparr>xa_extra := value\<rparr>)
        else if a = ''--json'' \<or> a = ''-json'' then explain_args rest (o'\<lparr>xa_jsonOut := True\<rparr>)
        else if a = ''--type'' \<or> a = ''-type'' then
          (case rest of [] \<Rightarrow> Inl (requires_value a) | v # rest' \<Rightarrow> explain_args rest' (o'\<lparr>xa_typeName := v\<rparr>))
        else if has_prefix ''--type='' a then explain_args rest (o'\<lparr>xa_typeName := trim_prefix ''--type='' a\<rparr>)
        else if has_prefix ''-type='' a then explain_args rest (o'\<lparr>xa_typeName := trim_prefix ''-type='' a\<rparr>)
        else if has_prefix ''-'' a then Inl (unknown_flag a)
        else explain_args rest (o'\<lparr>xa_patterns := xa_patterns o' @ [a]\<rparr>)))"
  by pat_completeness auto
termination
  by (relation "measure (\<lambda>(args, _). length args)") auto

definition parseExplainArgs :: "string list \<Rightarrow> err + explainArgs \<times> SchemeSet option" where
  "parseExplainArgs args = bind_res (explain_args args \<lparr>xa_patterns = [], xa_typeName = [], xa_jsonOut = False, xa_extra = []\<rparr>)
     (\<lambda>o'. bind_res (secretSchemeSet (xa_extra o')) (\<lambda>schemes. Inr (o', schemes)))"

definition explain_row :: "Field \<Rightarrow> string list" where
  "explain_row f = [fd_Path f, fd_GoType f, join_with '', '' (fd_Refs f), (if fd_HasDefault f then fd_Default f else ''-''),
     FormatBool (fd_Optional f), FormatBool (fd_Sensitive f)]"

text \<open>One table per struct; the flag asks for the note on derives that could not be read.\<close>

definition writeExplainTable :: "StructInfo list \<Rightarrow> (string \<times> string list list \<times> bool) list" where
  "writeExplainTable structs = map (\<lambda>s. (si_Package s @ ''.'' @ si_TypeName s, map explain_row (si_Fields s), si_DerivesIncomplete s)) structs"

definition explainCmd :: "cli_env \<Rightarrow> string list \<Rightarrow> cli_result" where
  "explainCmd L args =
     (if wantsHelp args then (0, [UsageText], [])
      else (case parseExplainArgs args of
         Inl e \<Rightarrow> (1, [], [e])
       | Inr (o', schemes) \<Rightarrow> (case ce_Extract L (xa_patterns o') (xa_typeName o') schemes of
            Inl e \<Rightarrow> (1, [], [Errorf ''mamori explain'' [e]])
          | Inr structs \<Rightarrow>
             (let kept = withoutValidateOnly structs
              in (0, [if xa_jsonOut o' then ExplainJSON kept else ExplainTable (writeExplainTable kept)], [])))))"

function vet_args :: "string list \<Rightarrow> string list \<times> string \<Rightarrow> err + string list \<times> string" where
  "vet_args args acc = (case args of [] \<Rightarrow> Inr acc
   | a # rest \<Rightarrow> (case matchSecretSchemes args of
       Inl e \<Rightarrow> Inl e
     | Inr (value, consumed) \<Rightarrow>
        if consumed > 0 then vet_args (drop consumed args) (fst acc, value)
        else if has_prefix ''-'' a then Inl (unknown_flag a)
        else vet_args rest (fst acc @ [a], snd acc)))"
  by pat_completeness auto
termination
  by (relation "measure (\<lambda>(args, _). length args)") auto

declare explain_args.simps [simp del] vet_args.simps [simp del]

definition parseVetArgs :: "string list \<Rightarrow> err + string list \<times> string" where
  "parseVetArgs args = bind_res (vet_args args ([], [])) (\<lambda>(patterns, schemes).
     case ParseSchemeList schemes of Inl e \<Rightarrow> Inl (Errorf ''mamori vet: --secret-schemes'' [e]) | Inr _ \<Rightarrow> Inr (patterns, schemes))"

definition isVetToolInvocation :: "string list \<Rightarrow> bool" where
  "isVetToolInvocation args \<longleftrightarrow> list_ex (\<lambda>a. a = ''-flags'' \<or> a = ''-V'' \<or> has_prefix ''-V='' a) args \<or> (args \<noteq> [] \<and> (let l = last args in 4 \<le> length l \<and> drop (length l - 4) l = ''.cfg''))"

text \<open>The commands by name; \<open>None\<close> for an unknown one.\<close>

definition cli_run :: "(string \<rightharpoonup> string list \<Rightarrow> cli_result) \<Rightarrow> string list \<Rightarrow> cli_result" where
  "cli_run cmds args = (case args of
     [] \<Rightarrow> (2, [], [Opaque ''usage''])
   | a # rest \<Rightarrow>
      if a \<in> {''help'', ''-h'', ''--help''} then (0, [UsageText], [])
      else if a \<in> {''version'', ''--version''} then (0, [VersionText], [])
      else (case cmds a of Some f \<Rightarrow> f rest | None \<Rightarrow> (2, [], [Opaque ''usage''])))"

end
