(* ===== verification/Diagnosis.thy ===== *)
theory Diagnosis
  imports LiveCommands Runs
begin

text \<open>
  The live commands composed with the endpoint they ask: what \<^verbatim>\<open>mamori doctor\<close> prints and exits with when the process at the other end
  serves the admin handler of a watcher.
\<close>

subsection \<open>The exit code is the report's\<close>

text \<open>A report is accepted, and only a report.\<close>

lemma decodeReport_iff:
  "decodeReport L body = Inr rep \<longleftrightarrow>
     (\<exists>raw. ce_object L body = Some raw \<and> set reportFields \<subseteq> set raw \<and> set raw \<subseteq> set reportFields \<union> set reportOptionalFields)
     \<and> ce_report L body = Some rep"
  by (auto simp: decodeReport_def list_all_iff subset_iff split: option.splits)

lemma classify_exit:
  "fr_exit (classify L status body) =
     (if status = 401 then 4
      else (case decodeReport L body of Inr rep \<Rightarrow> if status = 200 then (if rp_Healthy rep then 0 else 1) else 2 | Inl _ \<Rightarrow> 2))"
  "fr_rep (classify L status body) = (if status = 200 then (case decodeReport L body of Inr rep \<Rightarrow> Some rep | Inl _ \<Rightarrow> None) else None)"
  by (auto simp: classify_def fetch_failed_def exit_defs split: sum.splits)

text \<open>
  Without help and with flags and a scheme list that parse, the exit code of \<^verbatim>\<open>doctor\<close> is that of the fetch, whatever \<^verbatim>\<open>--json\<close> and
  \<^verbatim>\<open>--compare\<close> do, and \<^verbatim>\<open>status\<close> agrees with it.
\<close>

lemma doctorCmd_fetch:
  assumes "\<not> wantsHelp args" "parse_flags doctor_flags args no_doctorFlags = Some (rest, df)" "secretSchemeSet (df_secretSchemes df) = Inr schemes"
  shows "fst (doctorCmd L args) = fr_exit (doFetch L (df_live df))"
    "df_compare df \<noteq> [] \<Longrightarrow> set (fst (runCompare L (split_fields [] (df_compare df)) (fr_rep (doFetch L (df_live df))) schemes)) \<subseteq> set (fst (snd (doctorCmd L args)))"
  using assms by (auto simp: doctorCmd_def Let_def split: prod.splits)

subsection \<open>The process at the other end\<close>

text \<open>
  The request as it reaches the handler: its path is that of its URL, and the certificates and peer credentials are those of the connection.
\<close>

definition arriving :: "cli_env \<Rightarrow> cert list option \<Rightarrow> Ucred option \<Rightarrow> creq \<Rightarrow> http_request" where
  "arriving L certs peer q =
     \<lparr>rq_Header = (\<lambda>k. case map_of (cq_Header q) (to_lower k) of Some v \<Rightarrow> v | None \<Rightarrow> []), rq_TLS = certs, rq_PeerCred = peer,
      hr_Method = cq_Method q, hr_Path = (case ce_Parse L (cq_URL q) of Some (_, p) \<Rightarrow> p | None \<Rightarrow> [])\<rparr>"

text \<open>
  What is assumed of \<^verbatim>\<open>encoding/json\<close>: a report's object has the six fields without a tag always and the two with \<^verbatim>\<open>omitempty\<close> when they are not
  zero, and decoding gives back its health and, in order, the path and origin of its fields.
\<close>

definition same_report :: "Report \<Rightarrow> Report \<Rightarrow> bool" where
  "same_report r r' \<longleftrightarrow> rp_Healthy r = rp_Healthy r' \<and> map (\<lambda>f. (fs_Path f, fs_Derived f)) (rp_Fields r) = map (\<lambda>f. (fs_Path f, fs_Derived f)) (rp_Fields r')"

definition json_wire :: "cli_env \<Rightarrow> (body \<Rightarrow> bytes) \<Rightarrow> Report \<Rightarrow> bool" where
  "json_wire L enc r \<longleftrightarrow> (\<exists>keys r'. ce_object L (enc (BodyReport r)) = Some keys
     \<and> set keys = set reportFields \<union> (if rp_Source r = SourceNone then {} else {''Source''}) \<union> (if rp_Bootstrap r = None then {} else {''Bootstrap''})
     \<and> ce_report L (enc (BodyReport r)) = Some r' \<and> same_report r r')"

text \<open>The endpoint reaches a handler mounted where its URL points.\<close>

definition serves :: "cli_env \<Rightarrow> (body \<Rightarrow> bytes) \<Rightarrow> cert list option \<Rightarrow> Ucred option \<Rightarrow> (http_request \<Rightarrow> response) \<Rightarrow> string \<Rightarrow>
    transport \<Rightarrow> (string \<times> string) option \<Rightarrow> bool" where
  "serves L enc certs peer handler base tr kp \<longleftrightarrow> (\<forall>q. cq_URL q = base @ ''/'' \<longrightarrow>
     (let resp = handler (arriving L certs peer q) in ce_Do L tr kp q = Inr (hs_Status resp, Inr (enc (hs_Body resp)))))"

lemma json_wire_decodes:
  assumes "json_wire L enc r"
  obtains r' where "decodeReport L (enc (BodyReport r)) = Inr r'" "same_report r r'"
proof -
  obtain keys r' where k: "ce_object L (enc (BodyReport r)) = Some keys"
      "set keys = set reportFields \<union> (if rp_Source r = SourceNone then {} else {''Source''}) \<union> (if rp_Bootstrap r = None then {} else {''Bootstrap''})"
      "ce_report L (enc (BodyReport r)) = Some r'" "same_report r r'"
    using assms unfolding json_wire_def by blast
  have "set keys \<subseteq> set reportFields \<union> set reportOptionalFields" by (auto simp: k(2) reportOptionalFields_def split: if_splits)
  then have "decodeReport L (enc (BodyReport r)) = Inr r'" unfolding decodeReport_iff using k by blast
  then show thesis using k(4) by (rule that)
qed

lemma report_request_simps [simp]: "cq_URL (report_request base hdr) = base @ ''/''" "cq_Method (report_request base hdr) = ''GET''"
  by (simp_all add: report_request_def Let_def set_header_def)

text \<open>The handler's answer to the request of the live commands.\<close>

definition admitted :: "handlerOptions \<Rightarrow> http_request \<Rightarrow> err option" where
  "admitted h r = (case ho_auth h of None \<Rightarrow> None | Some a \<Rightarrow> (case au_Authenticate a (request.truncate r) of Inr _ \<Rightarrow> None | Inl e \<Rightarrow> Some e))"

lemma Handler_report:
  assumes "ho_middleware h = []" "hr_Path r = ho_prefix h @ ''/''" "hr_Method r = ''GET''"
  shows "hs_Status (Handler S now e h r) = (case admitted h r of None \<Rightarrow> 200 | Some err \<Rightarrow> if err_is err ErrForbidden then 403 else 401)"
    "admitted h r = None \<Longrightarrow> hs_Body (Handler S now e h r) = BodyReport (Status S now e)"
proof -
  define r' where "r' = r\<lparr>hr_Path := ''/''\<rparr>"
  have p: "hr_Path r' = ''/''" "hr_Method r' = ''GET''" using assms(3) by (simp_all add: r'_def)
  have same: "ho_prefix h = [] \<Longrightarrow> r' = r" using assms(2) by (cases r) (simp add: r'_def)
  have "Handler S now e h r = admin_mux S now e h r'"
  proof (cases "ho_prefix h = []")
    case True
    show ?thesis using assms(1) by (simp add: Handler_def True same [OF True])
  next
    case False
    then show ?thesis using assms by (simp add: Handler_def StripPrefix_def has_prefix_iff r'_def Let_def)
  qed
  moreover have t: "request.truncate r = request.truncate r'" by (simp add: r'_def request.truncate_def)
  ultimately show "hs_Status (Handler S now e h r) = (case admitted h r of None \<Rightarrow> 200 | Some err \<Rightarrow> if err_is err ErrForbidden then 403 else 401)"
    "admitted h r = None \<Longrightarrow> hs_Body (Handler S now e h r) = BodyReport (Status S now e)"
    by (auto simp: admin_mux_def authOK_def writeJSON_def admitted_def p Let_def split: option.splits sum.splits)
qed

text \<open>The request a live command sends, and where it comes from.\<close>

record contact =
  co_base :: string
  co_transport :: transport
  co_header :: string
  co_certs :: "(string \<times> string) option"

definition contacts :: "cli_env \<Rightarrow> liveFlags \<Rightarrow> contact \<Rightarrow> bool" where
  "contacts L f c \<longleftrightarrow> live_endpoint L (lf_endpoint f) (lf_insecure f) = Inr (co_base c, co_transport c)
     \<and> resolveCredential L f = Inr (co_header c, co_certs c)"

lemma doFetch_handler:
  assumes "contacts L f c" "ce_Parse L (co_base c @ ''/'') = Some (scheme, ho_prefix h @ ''/'')" "ho_middleware h = []"
    "serves L enc certs peer (Handler S now e h) (co_base c) (co_transport c) (co_certs c)" "json_wire L enc (Status S now e)"
  defines "r \<equiv> arriving L certs peer (report_request (co_base c) (co_header c))"
  shows "fr_exit (doFetch L f) = (case admitted h r of
      None \<Rightarrow> if rp_Healthy (Status S now e) then 0 else 1 | Some err \<Rightarrow> if err_is err ErrForbidden then 2 else 4)"
    "admitted h r = None \<Longrightarrow> \<exists>rep. fr_rep (doFetch L f) = Some rep \<and> same_report (Status S now e) rep"
proof -
  let ?resp = "Handler S now e h r" and ?q = "report_request (co_base c) (co_header c)"
  have "ce_Do L (co_transport c) (co_certs c) ?q = Inr (hs_Status ?resp, Inr (enc (hs_Body ?resp)))"
    using assms(4) by (simp add: serves_def r_def Let_def)
  then have f: "doFetch L f = classify L (hs_Status ?resp) (enc (hs_Body ?resp))"
    using assms(1,2) by (simp add: doFetch_def contacts_def)
  have p: "hr_Path r = ho_prefix h @ ''/''" "hr_Method r = ''GET''" using assms(2) by (simp_all add: r_def arriving_def)
  note H = Handler_report [OF assms(3) p, of S now e]
  obtain rep where rep: "decodeReport L (enc (BodyReport (Status S now e))) = Inr rep" "same_report (Status S now e) rep"
    using json_wire_decodes [OF assms(5)] .
  show "fr_exit (doFetch L f) = (case admitted h r of
      None \<Rightarrow> if rp_Healthy (Status S now e) then 0 else 1 | Some err \<Rightarrow> if err_is err ErrForbidden then 2 else 4)"
    using rep by (cases "admitted h r") (auto simp: f H classify_exit same_report_def split: sum.splits)
  show "\<exists>rep. fr_rep (doFetch L f) = Some rep \<and> same_report (Status S now e) rep" if "admitted h r = None"
    using rep by (simp add: f H that classify_exit)
qed

text \<open>
  C37. The exit code of \<^verbatim>\<open>mamori doctor\<close> is the health of the process it asks. Whenever the command's flags parse and its endpoint reaches the
  admin handler of a watcher, behind any prefix, it exits 0 when no field has a terminal error or is stale and the process is not living on an
  expired bootstrap snapshot, 1 when one has, is or does, 4 when the handler's authentication scheme turns the credential away, and 2 when it
  recognises the caller but forbids it; and \<^verbatim>\<open>--json\<close> and \<^verbatim>\<open>--compare\<close> change none of it.
\<close>

theorem doctor_exit_is_health:
  assumes "started C R T o' en en' d S e0" "reach S e0 t e" "\<forall>s\<in>set (e_specs e). e_lastOK e (sp_Path s) \<noteq> Some 0"
    and "\<not> wantsHelp args" "parse_flags doctor_flags args no_doctorFlags = Some (rest, df)" "secretSchemeSet (df_secretSchemes df) = Inr schemes"
    and "contacts L (df_live df) c" "ce_Parse L (co_base c @ ''/'') = Some (scheme, ho_prefix h @ ''/'')" "ho_middleware h = []"
    and "serves L enc certs peer (Handler S now e h) (co_base c) (co_transport c) (co_certs c)" "json_wire L enc (Status S now e)"
  shows "fst (doctorCmd L args) = (case admitted h (arriving L certs peer (report_request (co_base c) (co_header c))) of
      Some err \<Rightarrow> if err_is err ErrForbidden then 2 else 4
    | None \<Rightarrow> if (\<exists>s\<in>set (e_specs e). failing S now e s) \<or> snapshot_expired S now e then 1 else 0)"
proof -
  have w: "Watch C R T o' en en' d = Inr (S, e0)" using assms(1) by (simp add: started_def)
  have "rp_Healthy (Status S now e) \<longleftrightarrow> \<not> ((\<exists>s\<in>set (e_specs e). failing S now e s) \<or> snapshot_expired S now e)"
    using Health_iff [OF w assms(2,3), of now] by auto
  then show ?thesis
    unfolding doctorCmd_fetch(1) [OF assms(4-6)] doFetch_handler(1) [OF assms(7-11)] by (simp split: option.splits)
qed


text \<open>The demo watcher, served behind a bearer token and asked over a socket.\<close>

definition demo_flags :: "string list" where
  "demo_flags = [''--endpoint'', ''unix:///s'', ''-bearer-file=t'', ''--json'']"

definition demo_contact :: contact where
  "demo_contact = \<lparr>co_base = ''http://unix'', co_transport = UnixSocket ''/s'', co_header = ''Bearer t'', co_certs = None\<rparr>"

definition demo_cli :: "(http_request \<Rightarrow> response) \<Rightarrow> Report \<Rightarrow> cli_env" where
  "demo_cli handler rep =
     (let L0 = \<lparr>ce_Parse = (\<lambda>u. if u = ''unix:///s'' then Some (''unix'', ''/s'') else Some (''http'', ''/'')),
            ce_Open = (\<lambda>_. Inr [CHR ''t'', CHR 0x0A]), ce_Stdin = Inr [], ce_KeyPair = (\<lambda>_ _. None), ce_Duration = (\<lambda>_. None),
            ce_Do = (\<lambda>_ _ _. Inl (Opaque ''down'')), ce_object = (\<lambda>_. Some reportFields), ce_report = (\<lambda>_. Some rep),
            ce_Extract = (\<lambda>_ _ _. Inr [])\<rparr>
      in L0\<lparr>ce_Do := (\<lambda>_ _ q. let resp = handler (arriving L0 None None q) in Inr (hs_Status resp, Inr ''{}''))\<rparr>)"

lemma demo_cli_simps [simp]:
  "ce_Parse (demo_cli handler rep) u = (if u = ''unix:///s'' then Some (''unix'', ''/s'') else Some (''http'', ''/''))"
  "ce_Open (demo_cli handler rep) f = Inr [CHR ''t'', CHR 0x0A]"
  "ce_object (demo_cli handler rep) b = Some reportFields" "ce_report (demo_cli handler rep) b = Some rep"
  by (simp_all add: demo_cli_def Let_def)

lemma demo_cli_serves: "serves (demo_cli handler rep) (\<lambda>_. ''{}'') None None handler base tr kp"
  by (simp add: serves_def demo_cli_def arriving_def Let_def)

lemma demo_flags_parse:
  "\<not> wantsHelp demo_flags"
  "parse_flags doctor_flags demo_flags no_doctorFlags = Some ([], \<lparr>df_live = no_liveFlags\<lparr>lf_endpoint := ''unix:///s'', lf_bearerFile := ''t''\<rparr>,
     df_json = True, df_compare = [], df_secretSchemes = []\<rparr>)"
  by code_simp+

lemma demo_contacts:
  "contacts (demo_cli handler rep) (no_liveFlags\<lparr>lf_endpoint := ''unix:///s'', lf_bearerFile := ''t''\<rparr>) demo_contact"
  "contacts (demo_cli handler rep\<lparr>ce_Extract := x\<rparr>) (no_liveFlags\<lparr>lf_endpoint := ''unix:///s'', lf_bearerFile := ''t''\<rparr>) demo_contact"
  by (simp_all add: contacts_def demo_contact_def live_endpoint_def resolveCredential_def auth_header_def client_cert_def resolveValue_def
      trim_credential_def no_liveFlags_def dummyUnixHost_def Let_def)

theorem doctor_exit_is_health_witness:
  "fst (doctorCmd (demo_cli (Handler app_sys 9 (app_at app_block) demo_admin) (Status app_sys 9 (app_at app_block))) demo_flags) = 0"
proof -
  let ?e = "app_at app_block"
  let ?L = "demo_cli (Handler app_sys 9 ?e demo_admin) (Status app_sys 9 ?e)"
  obtain t where r: "reach app_sys app_engine t ?e" using app_reach [OF app_scripts(3)] by blast
  have l: "\<forall>s\<in>set (e_specs ?e). e_lastOK ?e (sp_Path s) \<noteq> Some 0" by code_simp
  have o: "o_bootstrap (sy_o app_sys) = None" "ho_middleware demo_admin = []" "ho_prefix demo_admin = []" "rp_Source (Status app_sys 9 ?e) = SourceNone"
    "rp_Bootstrap (Status app_sys 9 ?e) = None" by code_simp+
  have s: "secretSchemeSet [] = Inr None" by (simp add: secretSchemeSet_def)
  have j: "json_wire ?L (\<lambda>_. ''{}'') (Status app_sys 9 ?e)" by (simp add: json_wire_def same_report_def o)
  have p: "ce_Parse ?L (co_base demo_contact @ ''/'') = Some (''http'', ho_prefix demo_admin @ ''/'')" by (simp add: demo_contact_def o)
  have a: "admitted demo_admin (arriving ?L None None (report_request (co_base demo_contact) (co_header demo_contact))) = None"
    by (simp add: admitted_def demo_admin_def no_handlerOptions_def arriving_def report_request_def demo_contact_def set_header_def BearerToken_def
        bearerToken_def ConstantTimeCompare_def bearerPrefix_def request.truncate_def to_lower_def) code_simp
  have f: "\<not> (\<exists>s\<in>set (e_specs ?e). failing app_sys 9 ?e s)"
    using Health_iff [OF app_Watch r l, of 9] Health_iff_witness by simp
  show ?thesis
    using doctor_exit_is_health [OF app_started r l demo_flags_parse _ _ p o(2) demo_cli_serves j] s demo_contacts(1) f a
    by (simp add: snapshot_expired_def o)
qed


subsection \<open>Comparing a process with its source\<close>

lemma sortedUniqueStrings_Nil: "sortedUniqueStrings xs = [] \<longleftrightarrow> xs = []"
  by (metis set_empty set_sort sortedUniqueStrings_def remdups_adj_set)

lemma compare_paths_iff: "compare_paths source live = NoDrift \<longleftrightarrow> set source = set live"
  by (auto simp: compare_paths_def sortedUniqueStrings_Nil filter_empty_conv Let_def)

lemma same_report_live:
  assumes "same_report r r'"
  shows "live_paths (Some r') = live_paths (Some r)"
proof -
  have v: "map fs_Path (filter (\<lambda>f. \<not> fs_Derived f) fs) = map fst (filter (\<lambda>p. \<not> snd p) (map (\<lambda>f. (fs_Path f, fs_Derived f)) fs))" for fs
    by (induction fs) auto
  have "map (\<lambda>f. (fs_Path f, fs_Derived f)) (rp_Fields r) = map (\<lambda>f. (fs_Path f, fs_Derived f)) (rp_Fields r')"
    using assms by (simp add: same_report_def)
  then show ?thesis unfolding live_paths_def option.case v by (rule arg_cong [OF sym])
qed

lemma restamp_keeps [simp]: "fs_Path (restamp stale now f) = fs_Path f" "fs_Derived (restamp stale now f) = fs_Derived f"
  by (simp_all add: restamp_def)

text \<open>The fields of a report that are not derived are those of the specifications, in order.\<close>

lemma Status_live_paths:
  assumes "w_report e = buildReport S en e"
  shows "live_paths (Some (Status S now e)) = map sp_Path (e_specs e)"
proof -
  let ?der = "derived_walk (derived_status S e) (e_specs e) [] (concat (map td_writes (sy_derives S)))"
  have "fs_Derived c" if "c \<in> set ?der" for c
    using that by (rule derived_walk_all [rotated]) (auto simp: derived_status_def split: option.splits bool.splits)
  then have d: "filter (\<lambda>f. \<not> fs_Derived f) ?der = []" by (auto simp: filter_empty_conv)
  have o: "fs_Path (field_status S t e i) = sp_Path (e_specs e ! i)" "\<not> fs_Derived (field_status S t e i)" for t i
    by (simp_all add: field_status_def Let_def)
  show ?thesis
    by (simp add: live_paths_def Status_fields assms buildReport_def filter_map comp_def d o Let_def)
      (metis map_nth map_map comp_apply map_eq_conv)
qed

lemma describes_paths: "list_all2 (describes vars) fs specs \<Longrightarrow> map fd_Path fs = map sp_Path specs"
  by (induction rule: list_all2_induct) (auto simp: describes_def)



definition demo_struct :: namedStruct where
  "demo_struct = \<lparr>ns_name = ''App'', ns_fields = struct_fields app_T, ns_file = ''app.go'', ns_pos = 0\<rparr>"

definition demo_compare :: "string list" where
  "demo_compare = demo_flags @ [''--compare=./app'']"

lemma demo_compare_parse:
  "\<not> wantsHelp demo_compare"
  "parse_flags doctor_flags demo_compare no_doctorFlags = Some ([], \<lparr>df_live = no_liveFlags\<lparr>lf_endpoint := ''unix:///s'', lf_bearerFile := ''t''\<rparr>,
     df_json = True, df_compare = ''./app'', df_secretSchemes = []\<rparr>)"
  by code_simp+


text \<open>
  A named struct type of its own counts twice: the walk finds its fields under the struct that nests it and again at the top level, where no
  process ever reports them, so a healthy process drifts from its source for good.
\<close>

definition nested_db :: namedStruct where
  "nested_db = \<lparr>ns_name = ''DB'', ns_fields = [GField ''Pass'' True [(''source'', ''vault://db#pass'')] TSecretString], ns_file = ''db.go'', ns_pos = 0\<rparr>"

definition nested_app :: namedStruct where
  "nested_app = \<lparr>ns_name = ''App'', ns_fields = [GField ''Port'' True [(''source'', ''env:PORT'')] TString,
     GField ''DB'' True [] (TStruct ''DB'' (ns_fields nested_db))], ns_file = ''app.go'', ns_pos = 0\<rparr>"

lemma nested_struct_drifts:
  "compare_paths (source_paths (Extract (\<lambda>_. ''T'') (\<lambda>_. []) (\<lambda>_. False) [(''app'', [nested_app, nested_db])] [] None)) [''Port'', ''DB.Pass''] = Drift [''Pass''] []"
  by code_simp

subsection \<open>Credentials\<close>

text \<open>The schemes of the library accept what the command line makes of a credential file, its final newline included.\<close>

lemma bearer_file_accepted:
  assumes "lf_bearer f = []" "lf_bearerFile f = path" "path \<noteq> []" "path \<noteq> ''-''" "lf_basic f = []" "lf_basicFile f = []"
    and "ce_Open L path = Inr (token @ blanks)" "set blanks \<subseteq> {CHR '' '', CHR 0x09, CHR 0x0D, CHR 0x0A}"
    and "token \<noteq> []" "last token \<notin> {CHR '' '', CHR 0x09, CHR 0x0D, CHR 0x0A}"
  shows "auth_header L f = Inr (''Bearer '' @ token)"
    "rq_Header r ''Authorization'' = ''Bearer '' @ token \<Longrightarrow> bearerToken token r = Inr (subject ''bearer'')"
proof -
  have "dropWhile (\<lambda>c. c \<in> set [CHR '' '', CHR 0x09, CHR 0x0D, CHR 0x0A]) (rev blanks @ rev token) = rev token"
    using assms(8-10) by (cases "rev token") (auto simp: dropWhile_append subset_iff rev_swap)
  then have "trim_credential (token @ blanks) = token" by (simp add: trim_credential_def)
  then show "auth_header L f = Inr (''Bearer '' @ token)" using assms(1-7) by (simp add: auth_header_def resolveValue_def Let_def)
  show "bearerToken token r = Inr (subject ''bearer'')" if "rq_Header r ''Authorization'' = ''Bearer '' @ token"
    using assms(9) that by (simp add: bearerToken_def bearerPrefix_def has_prefix_iff trim_prefix_def ConstantTimeCompare_def)
qed

lemma basic_value_accepted:
  assumes "lf_basic f = user @ '':'' @ pass" "lf_bearer f = []" "lf_bearerFile f = []" "CHR '':'' \<notin> set user" "pass \<noteq> []"
  shows "auth_header L f = Inr (''Basic '' @ b64_encode (user @ '':'' @ pass))"
    "rq_Header r ''Authorization'' = ''Basic '' @ b64_encode (user @ '':'' @ pass) \<Longrightarrow> basicAuth (user, pass) r = Inr (subject user)"
proof -
  show "auth_header L f = Inr (''Basic '' @ b64_encode (user @ '':'' @ pass))" using assms by (simp add: auth_header_def resolveValue_def Let_def)
  have l: "to_lower ''Basic '' = ''basic ''" by code_simp
  show "basicAuth (user, pass) r = Inr (subject user)" if "rq_Header r ''Authorization'' = ''Basic '' @ b64_encode (user @ '':'' @ pass)"
    using assms(4,5) that l cut_append [OF assms(4), of pass] b64_round_trip [of "user @ '':'' @ pass"]
    by (simp add: basicAuth_def BasicAuth_of_def ConstantTimeCompare_def)
qed

text \<open>An address without TLS is refused before anything is sent, unless the operator allows it.\<close>

lemma plaintext_refused:
  assumes "ce_Parse L (lf_endpoint f) = Some (''http'', p)" "\<not> lf_insecure f"
  shows "fr_exit (doFetch L f) = 3 \<and> fr_body (doFetch L f) = None"
  using assms by (auto simp: doFetch_def live_endpoint_def fetch_failed_def exit_defs)

subsection \<open>Watching\<close>

text \<open>
  Watching renders once for the start and once for each tick and exits 0 whatever the polls found; an interval that is not positive,
  which the flag accepts, brings the command down instead.
\<close>

lemma watch_exit:
  assumes "statusCmd L ticks args = Some (code', out, errs)" "\<not> wantsHelp args"
    "parse_flags (status_flags (ce_Duration L)) args \<lparr>sf_live = no_liveFlags, sf_watch = False, sf_interval = defaultStatusInterval\<rparr> = Some (rest, sf)" "sf_watch sf"
  shows "code' = 0 \<and> length errs \<le> Suc (length ticks) \<and> 0 < sf_interval sf"
proof -
  have "length (concat (map (snd \<circ> render f) Ls)) \<le> length Ls" for f Ls
    by (induction Ls) (auto simp: render_def err_list_def Let_def split: option.splits)
  from this [of "sf_live sf" "L # ticks"] show ?thesis
    using assms by (auto simp: statusCmd_def watchStatus_def Let_def comp_def split: if_splits)
qed

lemma zero_interval_panics:
  assumes "ce_Duration L ''0'' = Some 0"
  shows "statusCmd L ticks [''--watch'', ''--interval=0''] = None"
  using assms by (simp add: statusCmd_def wantsHelp_def split_flag_def status_flags_def register_def watchStatus_def)

text \<open>The exit code that says the endpoint is no admin API is also the one of a mistyped flag.\<close>

lemma usage_exit_ambiguous: "fst (doctorCmd L [''--endpont'']) = exitNotAdminAPI \<and> fst (cli_run cmds []) = exitNotAdminAPI"
  by (simp add: doctorCmd_def wantsHelp_def split_flag_def doctor_flags_def register_def exit_defs cli_run_def)

text \<open>A comparison of two files whose names end like a vet unit never reaches the dispatcher.\<close>

lemma cfg_operand_is_vet: "isVetToolInvocation [''diff'', ''a.json'', ''b.cfg'']" "\<not> isVetToolInvocation [''vet'', ''./...'']"
  by code_simp+

end
