(* ===== verification/Vet.thy ===== *)
theory Vet
  imports LiveCommands
begin

text \<open>
  \<^verbatim>\<open>cmd/mamori/internal/vetcheck\<close> and \<^verbatim>\<open>cmd/mamori/vet.go\<close>: the two rules of \<^verbatim>\<open>mamori vet\<close>, a secret-bearing source kept in a plain field and a
  derive hook that writes revealed secret material into one.

  A syntax tree is what \<^verbatim>\<open>ast.Inspect\<close> sees of it: the node kinds the rules look at, and any other node by its children in the order of the
  walk (the selected name of a selector is a child of it; a function literal has the names of its first parameter, the rest of its signature and its body). Type information is a record \<open>pass\<close>. Fields have the types of \<^verbatim>\<open>Specs\<close>, so a named or alias
  type over \<^verbatim>\<open>string\<close> is none of \<open>TString\<close> and \<open>TByteSlice\<close>.
\<close>

subsection \<open>Syntax\<close>

datatype node =
    Ident string
  | Sel node string
  | Paren node
  | Star node
  | CallExpr node "node list"
  | IndexExpr node node
  | AssignStmt string "node list" "node list"
  | FuncLit "string list" "node list" "node list"
  | Other string "node list"

fun inspect :: "node \<Rightarrow> node list" where
  "inspect (Ident x) = [Ident x]"
| "inspect (Sel e f) = Sel e f # inspect e @ [Ident f]"
| "inspect (Paren e) = Paren e # inspect e"
| "inspect (Star e) = Star e # inspect e"
| "inspect (CallExpr f args) = CallExpr f args # inspect f @ concat (map inspect args)"
| "inspect (IndexExpr e i) = IndexExpr e i # inspect e @ inspect i"
| "inspect (AssignStmt tok lhs rhs) = AssignStmt tok lhs rhs # concat (map inspect lhs) @ concat (map inspect rhs)"
| "inspect (FuncLit ps sig body) = FuncLit ps sig body # map Ident ps @ concat (map inspect sig) @ concat (map inspect body)"
| "inspect (Other k cs) = Other k cs # concat (map inspect cs)"

text \<open>A type as far as \<^verbatim>\<open>namedReceiver\<close> takes it apart; a named type with the path of its package.\<close>

datatype rtype = RNamed "string option" string | RPointer rtype | RAlias rtype | ROther

text \<open>
  \<open>ps_uses\<close>: the function the name of a callee refers to, with its package; \<open>ps_inst\<close>: its first type argument when it is a named type of a package;
  \<open>ps_const\<close>: the string constant an argument evaluates to.
\<close>

record pass =
  ps_typeOf :: "node \<Rightarrow> rtype option"
  ps_uses :: "node \<Rightarrow> (string \<times> string option) option"
  ps_inst :: "node \<Rightarrow> gtype option"
  ps_const :: "node \<Rightarrow> string option"

subsection \<open>Plain fields\<close>

definition plainSecretKind :: "gtype \<Rightarrow> string option" where
  "plainSecretKind t = (case t of TString \<Rightarrow> Some ''string'' | TByteSlice \<Rightarrow> Some ''[]byte'' | _ \<Rightarrow> None)"

text \<open>A diagnostic: the field or path, the scheme (empty for a hook) and the kind of its type.\<close>

type_synonym diagnostic = "string \<times> string \<times> string"

definition checkField :: "SchemeSet \<Rightarrow> gfield \<Rightarrow> diagnostic list" where
  "checkField schemes f = (case map_of (f_Tag f) ''source'' of
     None \<Rightarrow> []
   | Some source \<Rightarrow> (case FirstSensitiveScheme schemes source of
      None \<Rightarrow> []
    | Some scheme \<Rightarrow> (case plainSecretKind (f_Type f) of
       None \<Rightarrow> []
     | Some kind \<Rightarrow> [(f_Name f, scheme, kind)])))"

definition secretSchemes :: "string \<Rightarrow> err + SchemeSet" where
  "secretSchemes extraSchemes = (case ParseSchemeList extraSchemes of
     Inl e \<Rightarrow> Inl (Errorf ''-secret-schemes'' [e])
   | Inr extra \<Rightarrow> Inr (SchemeSet_Add extra DefaultSecretSchemes))"

subsection \<open>Derive hooks\<close>

definition mamoriPkgPath :: string where "mamoriPkgPath = ''github.com/xavidop/mamori''"
definition secretPkgPath :: string where "secretPkgPath = ''github.com/xavidop/mamori/secret''"

fun unalias :: "rtype \<Rightarrow> rtype" where
  "unalias (RAlias t) = unalias t"
| "unalias t = t"

definition namedReceiver :: "rtype \<Rightarrow> (string option \<times> string) option" where
  "namedReceiver t = (case (case unalias t of RPointer u \<Rightarrow> unalias u | u \<Rightarrow> u) of RNamed pkg name \<Rightarrow> Some (pkg, name) | _ \<Rightarrow> None)"

definition isRevealCall :: "pass \<Rightarrow> node \<Rightarrow> bool" where
  "isRevealCall P call = (case call of
     CallExpr (Sel e name) _ \<Rightarrow>
       name \<in> {''Reveal'', ''RevealBytes''} \<and> (case ps_typeOf P e of None \<Rightarrow> False
         | Some t \<Rightarrow> (case namedReceiver t of Some (Some pkg, _) \<Rightarrow> pkg = secretPkgPath | _ \<Rightarrow> False))
   | _ \<Rightarrow> False)"

definition reveals_node :: "pass \<Rightarrow> string set \<Rightarrow> node \<Rightarrow> bool" where
  "reveals_node P tainted n = (case n of Ident x \<Rightarrow> x \<in> tainted | _ \<Rightarrow> isRevealCall P n)"

definition revealsAny :: "pass \<Rightarrow> node list \<Rightarrow> string set \<Rightarrow> bool" where
  "revealsAny P exprs tainted = list_ex (\<lambda>e. list_ex (reveals_node P tainted) (inspect e)) exprs"

definition hookParamName :: "string list \<Rightarrow> string option" where
  "hookParamName names = (case names of [] \<Rightarrow> None | x # _ \<Rightarrow> if x = ''_'' then None else Some x)"

fun field_parts :: "string \<Rightarrow> node \<Rightarrow> string list option" where
  "field_parts recv (Sel e f) = map_option (\<lambda>ps. ps @ [f]) (field_parts recv e)"
| "field_parts recv (Paren e) = field_parts recv e"
| "field_parts recv (Star e) = field_parts recv e"
| "field_parts recv (Ident x) = (if x = recv then Some [] else None)"
| "field_parts recv _ = None"

definition fieldPathOf :: "string \<Rightarrow> node \<Rightarrow> path option" where
  "fieldPathOf recv e = (case field_parts recv e of None \<Rightarrow> None | Some ps \<Rightarrow> if ps = [] then None else Some (join_with ''.'' ps))"

text \<open>The right-hand side that feeds the left-hand side at an index.\<close>

definition feeding :: "node list \<Rightarrow> node list \<Rightarrow> nat \<Rightarrow> node list" where
  "feeding lhs rhs i = (if length rhs = length lhs then [rhs ! i] else rhs)"

definition assign_writes :: "string \<Rightarrow> node \<Rightarrow> (path \<times> node list) list" where
  "assign_writes recv n = (case n of
     AssignStmt _ lhs rhs \<Rightarrow> List.map_filter (\<lambda>i. map_option (\<lambda>p. (p, feeding lhs rhs i)) (fieldPathOf recv (lhs ! i))) [0..<length lhs]
   | _ \<Rightarrow> [])"

definition hookWrites :: "string list \<Rightarrow> node list \<Rightarrow> (path \<times> node list) list" where
  "hookWrites params body = (case hookParamName params of
     None \<Rightarrow> []
   | Some recv \<Rightarrow> concat (map (assign_writes recv) (concat (map inspect body))))"

definition taint_lhs :: "pass \<Rightarrow> node list \<Rightarrow> node list \<Rightarrow> nat \<Rightarrow> string set \<Rightarrow> string set" where
  "taint_lhs P lhs rhs i tainted = (case lhs ! i of
     Ident x \<Rightarrow> if x \<noteq> ''_'' \<and> revealsAny P (feeding lhs rhs i) tainted then insert x tainted else tainted
   | _ \<Rightarrow> tainted)"

definition taint_assign :: "pass \<Rightarrow> node \<Rightarrow> string set \<Rightarrow> string set" where
  "taint_assign P n tainted = (case n of
     AssignStmt _ lhs rhs \<Rightarrow> fold (taint_lhs P lhs rhs) [0..<length lhs] tainted
   | _ \<Rightarrow> tainted)"

definition revealedLocals :: "pass \<Rightarrow> node list \<Rightarrow> string set" where
  "revealedLocals P body = fold (taint_assign P) (concat (map inspect body)) {}"

text \<open>\<^verbatim>\<open>constant.Value.String\<close> cuts a quoted string of more than 72 runes, which \<^verbatim>\<open>strconv.Unquote\<close> then rejects.\<close>

definition rune_count :: "string \<Rightarrow> nat" where
  "rune_count s = length (filter (\<lambda>c. \<not> (128 \<le> code c \<and> code c < 192)) s)"

definition const_path :: "pass \<Rightarrow> node \<Rightarrow> path option" where
  "const_path P a = (case ps_const P a of None \<Rightarrow> None | Some p \<Rightarrow> if rune_count p + 2 \<le> 72 then Some p else None)"

definition names_callee :: "node \<Rightarrow> bool" where
  "names_callee fn = (case fn of
     Ident x \<Rightarrow> True
   | Sel _ x \<Rightarrow> True
   | IndexExpr (Ident x) _ \<Rightarrow> True
   | IndexExpr (Sel _ x) _ \<Rightarrow> True
   | _ \<Rightarrow> False)"

definition withDeriveCall :: "pass \<Rightarrow> node \<Rightarrow> (gtype \<times> (string list \<times> node list) \<times> path list) option" where
  "withDeriveCall P call = (case call of
     CallExpr fn args \<Rightarrow>
       (if \<not> names_callee fn then None
        else if ps_uses P fn \<noteq> Some (''WithDerive'', Some mamoriPkgPath) then None
        else (case ps_inst P fn of
          None \<Rightarrow> None
        | Some T \<Rightarrow> (case args of
            FuncLit params _ body # paths \<Rightarrow> Some (T, (params, body), List.map_filter (const_path P) paths)
          | _ \<Rightarrow> None)))
   | _ \<Rightarrow> None)"

definition check_path :: "pass \<Rightarrow> gtype \<Rightarrow> (path \<times> node list) list \<Rightarrow> string set \<Rightarrow> path \<Rightarrow> diagnostic list" where
  "check_path P T writes tainted p = (case fieldTypeByPath T p of
     None \<Rightarrow> []
   | Some t \<Rightarrow> (case plainSecretKind t of
      None \<Rightarrow> []
    | Some kind \<Rightarrow> if list_ex (\<lambda>(q, rhs). q = p \<and> revealsAny P rhs tainted) writes then [(p, [], kind)] else []))"

definition checkDerives :: "pass \<Rightarrow> node \<Rightarrow> diagnostic list" where
  "checkDerives P call = (case withDeriveCall P call of
     None \<Rightarrow> []
   | Some (T, (params, body), paths) \<Rightarrow>
      (let writes = hookWrites params body; tainted = revealedLocals P body
       in if writes = [] then [] else concat (map (check_path P T writes tainted) paths)))"

text \<open>One package: the fields of its struct types and its calls, in the order of the walk.\<close>

definition vet_run :: "pass \<Rightarrow> string \<Rightarrow> (gfield list + node) list \<Rightarrow> err + diagnostic list" where
  "vet_run P extra nodes = (case secretSchemes extra of
     Inl e \<Rightarrow> Inl e
   | Inr schemes \<Rightarrow> Inr (concat (map (\<lambda>n. case n of Inl gs \<Rightarrow> concat (map (checkField schemes) gs) | Inr call \<Rightarrow> checkDerives P call) nodes)))"

text \<open>The standalone command; loading gives the load errors and the packages to analyse.\<close>

definition vetCmd :: "(string list \<Rightarrow> err + err list \<times> (pass \<times> (gfield list + node) list) list) \<Rightarrow> string list \<Rightarrow> nat \<times> (err + diagnostic) list" where
  "vetCmd load args =
     (if wantsHelp args then (0, [])
      else (case parseVetArgs args of
         Inl e \<Rightarrow> (1, [Inl e])
       | Inr (patterns, schemes) \<Rightarrow> (case load (if patterns = [] then [''./...''] else patterns) of
            Inl e \<Rightarrow> (1, [Inl (Errorf ''mamori vet: loading packages'' [e])])
          | Inr (errs, pkgs) \<Rightarrow>
             if errs \<noteq> [] then (1, map Inl errs)
             else (let found = concat (map (\<lambda>(P, nodes). case vet_run P schemes nodes of Inl e \<Rightarrow> [Inl e] | Inr ds \<Rightarrow> map Inr ds) pkgs)
                   in (if found = [] then 0 else 1, found)))))"

end
