(* ===== verification/Laundering.thy ===== *)
theory Laundering
  imports Vet Secrets
begin

text \<open>
  What the rule on derive hooks guarantees: a straight-line hook without a diagnostic keeps secrets out of the fields it writes, shown as noninterference
  against an evaluator of such hooks. The evaluator knows nothing of the rule: what a method called on a secret gives is the model of
  \<^verbatim>\<open>secret/secret.go\<close> in \<^verbatim>\<open>Secrets\<close>, and the two meet only in the type information.
\<close>

subsection \<open>Running a hook\<close>

text \<open>Values of fields and locals, a secret by its content.\<close>

datatype sval = PlainV string | SecretV string

definition seal_as :: "gtype option \<Rightarrow> sval \<Rightarrow> sval" where
  "seal_as t v = (case t of Some t' \<Rightarrow> if is_secret t' then (case v of SecretV s \<Rightarrow> SecretV s | PlainV s \<Rightarrow> SecretV s) else v | None \<Rightarrow> v)"

text \<open>The methods of a secret that give a value, \<open>None\<close> for any other name.\<close>

definition secret_method :: "string \<Rightarrow> string \<Rightarrow> sval option" where
  "secret_method m content =
     (let (s, st) = NewString content \<lparr>st_next = 0, st_mem = (\<lambda>_. [])\<rparr>
      in if m = ''Reveal'' then Some (PlainV (Reveal st s))
         else if m = ''RevealBytes'' then Some (PlainV (RevealBytes st s))
         else if m = ''String'' then Some (PlainV (String_secret s))
         else if m = ''GoString'' then Some (PlainV (GoString s))
         else if m = ''MarshalJSON'' then Some (PlainV (MarshalJSON s))
         else if m = ''LogValue'' then Some (PlainV (LogValue s))
         else if m = ''Sensitive'' then Some (PlainV (FormatBool True))
         else if m = ''IsZero'' then Some (PlainV (FormatBool (IsZero st s)))
         else if m = ''Clone'' then Some (SecretV (case Clone s st of (c, st') \<Rightarrow> Reveal st' c))
         else None)"

definition method_call :: "node \<Rightarrow> sval \<Rightarrow> sval option" where
  "method_call f v = (case (f, v) of (Sel _ m, SecretV s) \<Rightarrow> secret_method m s | _ \<Rightarrow> None)"

text \<open>\<open>F\<close> gives the meaning of every other operator and call: a function of the values of its operands, the receiver of a method among them.\<close>

fun eval :: "(node \<Rightarrow> sval list \<Rightarrow> sval) \<Rightarrow> string \<Rightarrow> (string \<Rightarrow> sval) \<times> (path \<Rightarrow> sval) \<Rightarrow> node \<Rightarrow> sval" where
  "eval F recv \<sigma> (Ident x) = fst \<sigma> x"
| "eval F recv \<sigma> (Sel e f) = (case fieldPathOf recv (Sel e f) of Some p \<Rightarrow> snd \<sigma> p | None \<Rightarrow> F (Sel e f) [eval F recv \<sigma> e])"
| "eval F recv \<sigma> (Paren e) = eval F recv \<sigma> e"
| "eval F recv \<sigma> (Star e) = (case fieldPathOf recv (Star e) of Some p \<Rightarrow> snd \<sigma> p | None \<Rightarrow> F (Star e) [eval F recv \<sigma> e])"
| "eval F recv \<sigma> (CallExpr f args) =
     (let v = (case f of Sel e _ \<Rightarrow> eval F recv \<sigma> e | _ \<Rightarrow> eval F recv \<sigma> f)
      in case method_call f v of Some r \<Rightarrow> r | None \<Rightarrow> F (CallExpr f args) (v # map (eval F recv \<sigma>) args))"
| "eval F recv \<sigma> (IndexExpr e i) = F (IndexExpr e i) [eval F recv \<sigma> e, eval F recv \<sigma> i]"
| "eval F recv \<sigma> (Other k cs) = F (Other k cs) (map (eval F recv \<sigma>) cs)"
| "eval F recv \<sigma> _ = PlainV []"

definition target :: "string \<Rightarrow> (string \<Rightarrow> sval) \<times> (path \<Rightarrow> sval) \<Rightarrow> node \<Rightarrow> sval" where
  "target recv \<sigma> e = (case fieldPathOf recv e of Some p \<Rightarrow> snd \<sigma> p | None \<Rightarrow> (case e of Ident x \<Rightarrow> fst \<sigma> x | _ \<Rightarrow> PlainV []))"

text \<open>What an assignment stores at each left-hand side; a compound one combines it with the old value.\<close>

definition stored :: "(node \<Rightarrow> sval list \<Rightarrow> sval) \<Rightarrow> string \<Rightarrow> (string \<Rightarrow> sval) \<times> (path \<Rightarrow> sval) \<Rightarrow> string \<Rightarrow> node list \<Rightarrow> node list \<Rightarrow> nat \<Rightarrow> sval" where
  "stored F recv \<sigma> tok lhs rhs i =
     (let v = (if length rhs = length lhs then eval F recv \<sigma> (rhs ! i) else F (Other ''assign'' [lhs ! i]) (map (eval F recv \<sigma>) rhs))
      in if tok \<in> {''='', '':=''} then v else F (Other tok []) [target recv \<sigma> (lhs ! i), v])"

definition put :: "gtype \<Rightarrow> string \<Rightarrow> node \<times> sval \<Rightarrow> (string \<Rightarrow> sval) \<times> (path \<Rightarrow> sval) \<Rightarrow> (string \<Rightarrow> sval) \<times> (path \<Rightarrow> sval)" where
  "put T recv ev \<sigma> = (case fieldPathOf recv (fst ev) of
     Some p \<Rightarrow> (fst \<sigma>, (snd \<sigma>)(p := seal_as (fieldTypeByPath T p) (snd ev)))
   | None \<Rightarrow> (case fst ev of Ident x \<Rightarrow> ((fst \<sigma>)(x := snd ev), snd \<sigma>) | _ \<Rightarrow> \<sigma>))"

definition exec :: "(node \<Rightarrow> sval list \<Rightarrow> sval) \<Rightarrow> gtype \<Rightarrow> string \<Rightarrow> node \<Rightarrow> (string \<Rightarrow> sval) \<times> (path \<Rightarrow> sval) \<Rightarrow> (string \<Rightarrow> sval) \<times> (path \<Rightarrow> sval)" where
  "exec F T recv n \<sigma> = (case n of
     AssignStmt tok lhs rhs \<Rightarrow> fold (put T recv) (map (\<lambda>i. (lhs ! i, stored F recv \<sigma> tok lhs rhs i)) [0..<length lhs]) \<sigma>
   | _ \<Rightarrow> \<sigma>)"

definition run_hook :: "(node \<Rightarrow> sval list \<Rightarrow> sval) \<Rightarrow> gtype \<Rightarrow> string \<Rightarrow> node list \<Rightarrow> (string \<Rightarrow> sval) \<Rightarrow> (path \<Rightarrow> sval) \<Rightarrow> path \<Rightarrow> sval" where
  "run_hook F T recv body l c = snd (fold (exec F T recv) body (l, c))"

text \<open>
  The hooks meant: a sequence of assignments to locals and to declared fields that are strings, bytes or secrets, whose right-hand sides read the
  config through leaf fields only and hold no function literal. They never ask whether a secret is empty, and a reveal is called on its receiver where
  it is named: it is not taken as a method value, put in parentheses or written as a method expression.
\<close>

definition looking :: "string list" where
  "looking = [''Reveal'', ''RevealBytes'', ''IsZero'']"

fun confined :: "gtype \<Rightarrow> string \<Rightarrow> node \<Rightarrow> bool" where
  "confined T recv (Ident x) = (x \<noteq> recv)"
| "confined T recv (Sel e f) = (case fieldPathOf recv (Sel e f) of
     Some p \<Rightarrow> (case fieldTypeByPath T p of Some t \<Rightarrow> \<not> is_struct t | None \<Rightarrow> False) | None \<Rightarrow> f \<notin> set looking \<and> confined T recv e)"
| "confined T recv (Paren e) = confined T recv e"
| "confined T recv (Star e) = (case fieldPathOf recv (Star e) of
     Some p \<Rightarrow> (case fieldTypeByPath T p of Some t \<Rightarrow> \<not> is_struct t | None \<Rightarrow> False) | None \<Rightarrow> confined T recv e)"
| "confined T recv (CallExpr f args) = ((case f of Sel e m \<Rightarrow> confined T recv e \<and> (m \<in> set looking \<longrightarrow> m \<noteq> ''IsZero'' \<and> args = []) | _ \<Rightarrow> confined T recv f) \<and> list_all (confined T recv) args)"
| "confined T recv (IndexExpr e i) = (confined T recv e \<and> confined T recv i)"
| "confined T recv (Other k cs) = list_all (confined T recv) cs"
| "confined T recv _ = False"

definition assignable :: "gtype \<Rightarrow> string \<Rightarrow> path list \<Rightarrow> node \<Rightarrow> bool" where
  "assignable T recv paths e = (case fieldPathOf recv e of
     Some p \<Rightarrow> p \<in> set paths \<and> (case fieldTypeByPath T p of Some t \<Rightarrow> is_secret t \<or> plainSecretKind t \<noteq> None | None \<Rightarrow> False)
   | None \<Rightarrow> (case e of Ident x \<Rightarrow> x \<noteq> recv \<and> x \<noteq> ''_'' | _ \<Rightarrow> False))"

definition straight :: "gtype \<Rightarrow> string \<Rightarrow> path list \<Rightarrow> node \<Rightarrow> bool" where
  "straight T recv paths n = (case n of
     AssignStmt tok lhs rhs \<Rightarrow> list_all (assignable T recv paths) lhs \<and> list_all (confined T recv) rhs
   | _ \<Rightarrow> False)"

subsection \<open>Low equality\<close>

definition low_eq :: "sval \<Rightarrow> sval \<Rightarrow> bool" where
  "low_eq v w = (case (v, w) of (PlainV a, PlainV b) \<Rightarrow> a = b | (SecretV a, SecretV b) \<Rightarrow> True | _ \<Rightarrow> False)"

text \<open>
  What else the hook applies does not look into the secrets it is given: no operator, and no function of the program that reveals its argument. Nothing is
  asked of what a name that does look into a secret gives for a receiver that is none.
\<close>

definition looks_inside :: "node \<Rightarrow> bool" where
  "looks_inside n = (case n of CallExpr (Sel _ m) _ \<Rightarrow> m \<in> set looking | Sel _ m \<Rightarrow> m \<in> set looking | _ \<Rightarrow> False)"

definition opaque :: "(node \<Rightarrow> sval list \<Rightarrow> sval) \<Rightarrow> bool" where
  "opaque F \<longleftrightarrow> (\<forall>n vs ws. \<not> looks_inside n \<longrightarrow> list_all2 low_eq vs ws \<longrightarrow> low_eq (F n vs) (F n ws))"

text \<open>
  Type information is right about the receivers of a run: one that holds a secret has a type of the secret package, behind any aliases and at most one
  pointer (rather than an interface it was converted to, or a struct that embeds it).
\<close>

fun secret_type :: "rtype \<Rightarrow> bool" where
  "secret_type (RNamed pkg name) = (pkg = Some secretPkgPath \<and> name \<in> {''String'', ''Bytes''})"
| "secret_type (RAlias t) = secret_type t"
| "secret_type _ = False"

fun secret_receiver :: "rtype \<Rightarrow> bool" where
  "secret_receiver (RAlias t) = secret_receiver t"
| "secret_receiver (RPointer t) = secret_type t"
| "secret_receiver t = secret_type t"

definition typed_call :: "pass \<Rightarrow> (node \<Rightarrow> sval list \<Rightarrow> sval) \<Rightarrow> string \<Rightarrow> (string \<Rightarrow> sval) \<times> (path \<Rightarrow> sval) \<Rightarrow> node \<Rightarrow> bool" where
  "typed_call P F recv \<sigma> n = (case n of
     CallExpr (Sel e _) _ \<Rightarrow> (case eval F recv \<sigma> e of
        SecretV _ \<Rightarrow> (case ps_typeOf P e of Some t \<Rightarrow> secret_receiver t | None \<Rightarrow> False)
      | PlainV _ \<Rightarrow> True)
   | _ \<Rightarrow> True)"

fun typed_run :: "pass \<Rightarrow> (node \<Rightarrow> sval list \<Rightarrow> sval) \<Rightarrow> gtype \<Rightarrow> string \<Rightarrow> node list \<Rightarrow> (string \<Rightarrow> sval) \<times> (path \<Rightarrow> sval) \<Rightarrow> bool" where
  "typed_run P F T recv [] \<sigma> = True"
| "typed_run P F T recv (n # ns) \<sigma> = (list_all (typed_call P F recv \<sigma>) (inspect n) \<and> typed_run P F T recv ns (exec F T recv n \<sigma>))"

definition low_state :: "string set \<Rightarrow> (string \<Rightarrow> sval) \<times> (path \<Rightarrow> sval) \<Rightarrow> (string \<Rightarrow> sval) \<times> (path \<Rightarrow> sval) \<Rightarrow> bool" where
  "low_state tainted \<sigma> \<tau> \<longleftrightarrow> (\<forall>x. x \<notin> tainted \<longrightarrow> low_eq (fst \<sigma> x) (fst \<tau> x)) \<and> (\<forall>p. low_eq (snd \<sigma> p) (snd \<tau> p))"

lemma low_eq_refl [simp]: "low_eq v v"
  by (simp add: low_eq_def split: sval.splits)

lemma opaqueD: "opaque F \<Longrightarrow> \<not> looks_inside n \<Longrightarrow> list_all2 low_eq vs ws \<Longrightarrow> low_eq (F n vs) (F n ws)"
  by (simp add: opaque_def)

lemma revealsAny_simps [simp]:
  "revealsAny P [] tainted = False"
  "revealsAny P (e # es) tainted = (list_ex (reveals_node P tainted) (inspect e) \<or> revealsAny P es tainted)"
  by (simp_all add: revealsAny_def)

lemma reveals_node_mono: "reveals_node P A n \<Longrightarrow> A \<subseteq> B \<Longrightarrow> reveals_node P B n"
  by (auto simp: reveals_node_def split: node.splits)

lemma revealsAny_mono: "revealsAny P es A \<Longrightarrow> A \<subseteq> B \<Longrightarrow> revealsAny P es B"
  by (auto simp: revealsAny_def list_ex_iff intro: reveals_node_mono)

lemma low_map: "(\<And>e. e \<in> set es \<Longrightarrow> low_eq (f e) (g e)) \<Longrightarrow> list_all2 low_eq (map f es) (map g es)"
  by (auto simp: list_all2_map1 list_all2_map2 intro!: list.rel_refl_strong)

lemma looks_inside_simps [simp]:
  "\<not> looks_inside (Star e)" "\<not> looks_inside (IndexExpr e i)" "\<not> looks_inside (Other k cs)" "looks_inside (Sel e m) \<longleftrightarrow> m \<in> set looking"
  "looks_inside (CallExpr (Sel e m) args) \<longleftrightarrow> m \<in> set looking"
  by (simp_all add: looks_inside_def)

lemma secret_type_named: "secret_type t \<Longrightarrow> \<exists>name. unalias t = RNamed (Some secretPkgPath) name"
  by (induction t rule: secret_type.induct) auto

lemma secret_receiver_named: "secret_receiver t \<Longrightarrow> \<exists>name. namedReceiver t = Some (Some secretPkgPath, name)"
proof (induction t rule: secret_receiver.induct)
  case (1 t)
  then show ?case by (simp add: namedReceiver_def)
next
  case (2 t)
  then obtain name where "unalias t = RNamed (Some secretPkgPath) name" using secret_type_named [of t] by auto
  then show ?case by (simp add: namedReceiver_def)
qed (auto simp: namedReceiver_def)

text \<open>A call that shows the content of a secret is one the rule knows.\<close>

lemma content_call:
  assumes "typed_call P F recv \<sigma> (CallExpr (Sel e m) args)" "eval F recv \<sigma> e = SecretV s" "m \<in> {''Reveal'', ''RevealBytes''}"
  shows "isRevealCall P (CallExpr (Sel e m) args)"
proof -
  obtain t where "ps_typeOf P e = Some t" "secret_receiver t" using assms(1,2) by (auto simp: typed_call_def split: option.splits)
  then show ?thesis using assms(3) secret_receiver_named [of t] by (auto simp: isRevealCall_def)
qed

lemma secret_method_low:
  assumes "m \<notin> set looking" "secret_method m s = Some r"
  shows "\<exists>r'. secret_method m s' = Some r' \<and> low_eq r r'"
  using assms by (auto simp: secret_method_def looking_def low_eq_def NewString_def alloc_def String_secret_def GoString_def MarshalJSON_def LogValue_def Let_def
      split: if_splits prod.splits)

lemma secret_method_None: "secret_method m s = None \<longleftrightarrow> secret_method m s' = None"
  by (auto simp: secret_method_def Let_def split: if_splits prod.splits)

lemma call_low:
  assumes o: "opaque F" and v: "low_eq v w" and a: "list_all2 low_eq vs ws"
    and m: "m \<in> set looking \<Longrightarrow> vs = []" "\<And>s. v = SecretV s \<Longrightarrow> m \<notin> set looking"
  shows "low_eq (case method_call (Sel e m) v of Some r \<Rightarrow> r | None \<Rightarrow> F (CallExpr (Sel e m) args) (v # vs))
    (case method_call (Sel e m) w of Some r \<Rightarrow> r | None \<Rightarrow> F (CallExpr (Sel e m) args) (w # ws))"
proof (cases v)
  case (PlainV s)
  then have w: "w = v" using v by (auto simp: low_eq_def split: sval.splits)
  show ?thesis
  proof (cases "m \<in> set looking")
    case True
    then have "vs = [] \<and> ws = []" using m(1) a by auto
    then show ?thesis by (simp add: w method_call_def PlainV)
  next
    case False
    then show ?thesis using a by (simp add: w method_call_def PlainV opaqueD [OF o])
  qed
next
  case (SecretV s)
  then obtain s' where w: "w = SecretV s'" using v by (auto simp: low_eq_def split: sval.splits)
  have k: "m \<notin> set looking" using m(2) SecretV by blast
  show ?thesis
  proof (cases "secret_method m s")
    case None
    then have "secret_method m s' = None" using secret_method_None by blast
    then show ?thesis using None k v a by (simp add: SecretV w method_call_def opaqueD [OF o])
  next
    case (Some r)
    then show ?thesis using secret_method_low [OF k Some, of s'] by (auto simp: SecretV w method_call_def)
  qed
qed

lemma eval_low_parts:
  assumes "opaque F" "low_state tainted \<sigma> \<tau>"
  shows "\<not> list_ex (reveals_node P tainted) (inspect e) \<Longrightarrow> list_all (typed_call P F recv \<sigma>) (inspect e) \<Longrightarrow>
    (confined T recv e \<longrightarrow> low_eq (eval F recv \<sigma> e) (eval F recv \<tau> e))
    \<and> (\<forall>e' f. e = Sel e' f \<longrightarrow> confined T recv e' \<longrightarrow> low_eq (eval F recv \<sigma> e') (eval F recv \<tau> e'))"
proof (induction e)
  case (Ident x)
  then show ?case using assms(2) by (simp add: low_state_def reveals_node_def)
next
  case (CallExpr f args)
  have "low_eq (eval F recv \<sigma> a) (eval F recv \<tau> a)" if "a \<in> set args" "confined T recv a" for a
    using CallExpr.IH(2) [OF that(1)] CallExpr.prems that by (auto simp: list_ex_iff list_all_iff)
  then have args: "list_all2 low_eq (map (eval F recv \<sigma>) args) (map (eval F recv \<tau>) args)" if "list_all (confined T recv) args"
    using that by (intro low_map) (auto simp: list_all_iff)
  have f: "(confined T recv f \<longrightarrow> low_eq (eval F recv \<sigma> f) (eval F recv \<tau> f))
      \<and> (\<forall>e' m. f = Sel e' m \<longrightarrow> confined T recv e' \<longrightarrow> low_eq (eval F recv \<sigma> e') (eval F recv \<tau> e'))"
    using CallExpr.IH(1) CallExpr.prems by simp
  have r: "\<not> isRevealCall P (CallExpr f args)" using CallExpr.prems(1) by (simp add: reveals_node_def)
  have t: "typed_call P F recv \<sigma> (CallExpr f args)" using CallExpr.prems(2) by simp
  show ?case
  proof (intro conjI impI allI)
    assume c: "confined T recv (CallExpr f args)"
    then have args': "list_all2 low_eq (map (eval F recv \<sigma>) args) (map (eval F recv \<tau>) args)" using args by simp
    show "low_eq (eval F recv \<sigma> (CallExpr f args)) (eval F recv \<tau> (CallExpr f args))"
    proof (cases "\<exists>e m. f = Sel e m")
      case True
      then obtain e m where em: "f = Sel e m" by blast
      have "m \<notin> set looking" if "eval F recv \<sigma> e = SecretV s" for s
        using content_call [of P F recv \<sigma> e m args s] r t that c by (auto simp: em looking_def)
      then show ?thesis
        using c f call_low [OF assms(1) _ args', of "eval F recv \<sigma> e" "eval F recv \<tau> e" m] by (auto simp: em Let_def)
    next
      case False
      then have "method_call f v = None" "\<not> looks_inside (CallExpr f args)" for v
        by (auto simp: method_call_def looks_inside_def split: node.splits)
      moreover have "low_eq (eval F recv \<sigma> f) (eval F recv \<tau> f)" using c f False by (cases f) auto
      ultimately show ?thesis using False args' opaqueD [OF assms(1)] by (cases f) (auto simp: Let_def)
    qed
  qed simp
next
  case (Other k cs)
  have "low_eq (eval F recv \<sigma> a) (eval F recv \<tau> a)" if "a \<in> set cs" "confined T recv a" for a
    using Other.IH [OF that(1)] Other.prems that by (auto simp: list_ex_iff list_all_iff)
  then have "confined T recv (Other k cs) \<Longrightarrow> list_all2 low_eq (map (eval F recv \<sigma>) cs) (map (eval F recv \<tau>) cs)"
    by (intro low_map) (auto simp: list_all_iff)
  then show ?case using opaqueD [OF assms(1)] by simp
qed (use assms in \<open>auto simp: low_state_def intro!: opaqueD split: option.splits\<close>)

lemma eval_low:
  assumes "opaque F" "low_state tainted \<sigma> \<tau>" "\<not> list_ex (reveals_node P tainted) (inspect e)" "list_all (typed_call P F recv \<sigma>) (inspect e)" "confined T recv e"
  shows "low_eq (eval F recv \<sigma> e) (eval F recv \<tau> e)"
  using eval_low_parts [OF assms(1-4)] assms(5) by blast

subsection \<open>One assignment\<close>

lemma taint_lhs_mono: "tainted \<subseteq> taint_lhs P lhs rhs i tainted"
  by (auto simp: taint_lhs_def split: node.splits)

lemma taint_fold_mono: "tainted \<subseteq> fold (taint_lhs P lhs rhs) is tainted"
  by (induction "is" arbitrary: tainted) (use taint_lhs_mono in fastforce)+

lemma taint_assign_mono: "tainted \<subseteq> taint_assign P n tainted"
  by (auto simp: taint_assign_def taint_fold_mono [THEN subsetD] split: node.splits)

lemma taint_body_mono: "tainted \<subseteq> fold (taint_assign P) ns tainted"
  by (induction ns arbitrary: tainted) (use taint_assign_mono in fastforce)+

text \<open>A local fed by revealed material is marked.\<close>

lemma taint_fold_marks:
  assumes "i \<in> set is" "lhs ! i = Ident x" "x \<noteq> ''_''" "revealsAny P (feeding lhs rhs i) tainted"
  shows "x \<in> fold (taint_lhs P lhs rhs) is tainted"
  using assms(1,4)
proof (induction "is" arbitrary: tainted)
  case (Cons j js)
  show ?case
  proof (cases "i = j")
    case True
    then have "x \<in> taint_lhs P lhs rhs j tainted" using assms(2,3) Cons.prems by (simp add: taint_lhs_def)
    then show ?thesis using subsetD [OF taint_fold_mono] by simp
  next
    case False
    then show ?thesis using Cons.IH [of "taint_lhs P lhs rhs j tainted"] Cons.prems revealsAny_mono [OF Cons.prems(2) taint_lhs_mono] by auto
  qed
qed simp

lemma put_low:
  assumes "low_state tainted \<sigma> \<tau>" "assignable T recv paths e"
    and "\<And>p. fieldPathOf recv e = Some p \<Longrightarrow> \<not> (\<exists>t. fieldTypeByPath T p = Some t \<and> is_secret t) \<Longrightarrow> low_eq v w"
    and "\<And>x. fieldPathOf recv e = None \<Longrightarrow> e = Ident x \<Longrightarrow> x \<notin> tainted \<Longrightarrow> low_eq v w"
  shows "low_state tainted (put T recv (e, v) \<sigma>) (put T recv (e, w) \<tau>)"
proof (cases "fieldPathOf recv e")
  case None
  then obtain x where x: "e = Ident x" using assms(2) by (auto simp: assignable_def split: node.splits)
  then show ?thesis using assms(1,4) None by (auto simp: put_def low_state_def)
next
  case (Some p)
  then obtain t where t: "fieldTypeByPath T p = Some t" using assms(2) by (auto simp: assignable_def split: option.splits)
  have "low_eq (seal_as (Some t) v) (seal_as (Some t) w)"
    using assms(3) Some t by (cases "is_secret t") (auto simp: seal_as_def low_eq_def split: sval.splits)
  then show ?thesis using assms(1) Some t by (auto simp: put_def low_state_def)
qed

lemma put_fold_low:
  assumes "low_state tainted \<sigma> \<tau>" "\<And>i. i \<in> set is \<Longrightarrow> assignable T recv paths (lhs ! i)"
    and "\<And>i p. i \<in> set is \<Longrightarrow> fieldPathOf recv (lhs ! i) = Some p \<Longrightarrow> \<not> (\<exists>t. fieldTypeByPath T p = Some t \<and> is_secret t) \<Longrightarrow> low_eq (f i) (g i)"
    and "\<And>i x. i \<in> set is \<Longrightarrow> fieldPathOf recv (lhs ! i) = None \<Longrightarrow> lhs ! i = Ident x \<Longrightarrow> x \<notin> tainted \<Longrightarrow> low_eq (f i) (g i)"
  shows "low_state tainted (fold (put T recv) (map (\<lambda>i. (lhs ! i, f i)) is) \<sigma>) (fold (put T recv) (map (\<lambda>i. (lhs ! i, g i)) is) \<tau>)"
  using assms
proof (induction "is" arbitrary: \<sigma> \<tau>)
  case (Cons j js)
  have "low_state tainted (put T recv (lhs ! j, f j) \<sigma>) (put T recv (lhs ! j, g j) \<tau>)"
    using Cons.prems by (intro put_low) auto
  then show ?case using Cons.IH Cons.prems by simp
qed simp

lemma stored_low:
  assumes "opaque F" "low_state tainted \<sigma> \<tau>" "\<not> revealsAny P (feeding lhs rhs i) tainted" "low_eq (target recv \<sigma> (lhs ! i)) (target recv \<tau> (lhs ! i))"
    and "i < length lhs" "list_all (confined T recv) rhs" "list_all (typed_call P F recv \<sigma>) (concat (map inspect rhs))"
  shows "low_eq (stored F recv \<sigma> tok lhs rhs i) (stored F recv \<tau> tok lhs rhs i)"
proof -
  have e: "low_eq (eval F recv \<sigma> e) (eval F recv \<tau> e)" if "\<not> list_ex (reveals_node P tainted) (inspect e)" "e \<in> set rhs" for e
    using eval_low [OF assms(1,2) that(1), of recv T] assms(6,7) that(2) by (auto simp: list_all_iff)
  have "low_eq (if length rhs = length lhs then eval F recv \<sigma> (rhs ! i) else F (Other ''assign'' [lhs ! i]) (map (eval F recv \<sigma>) rhs))
     (if length rhs = length lhs then eval F recv \<tau> (rhs ! i) else F (Other ''assign'' [lhs ! i]) (map (eval F recv \<tau>) rhs))"
    using assms(3,5) e by (auto simp: feeding_def revealsAny_def list_ex_iff intro!: opaqueD [OF assms(1)] low_map)
  then show ?thesis using opaqueD [OF assms(1)] assms(4) by (simp add: stored_def Let_def)
qed

lemma exec_low:
  assumes "opaque F" "low_state tainted \<sigma> \<tau>" "straight T recv paths (AssignStmt tok lhs rhs)"
    "list_all (typed_call P F recv \<sigma>) (inspect (AssignStmt tok lhs rhs))"
    and "\<And>i p t. i < length lhs \<Longrightarrow> fieldPathOf recv (lhs ! i) = Some p \<Longrightarrow> fieldTypeByPath T p = Some t \<Longrightarrow> \<not> is_secret t \<Longrightarrow>
      \<not> revealsAny P (feeding lhs rhs i) (taint_assign P (AssignStmt tok lhs rhs) tainted)"
  shows "low_state (taint_assign P (AssignStmt tok lhs rhs) tainted) (exec F T recv (AssignStmt tok lhs rhs) \<sigma>) (exec F T recv (AssignStmt tok lhs rhs) \<tau>)"
proof -
  let ?S = "AssignStmt tok lhs rhs"
  define tt where "tt = taint_assign P ?S tainted"
  have sub: "tainted \<subseteq> tt" unfolding tt_def by (rule taint_assign_mono)
  then have low: "low_state tt \<sigma> \<tau>" using assms(2) by (auto simp: low_state_def)
  have a: "assignable T recv paths (lhs ! i)" if "i < length lhs" for i using assms(3) that by (simp add: straight_def list_all_length)
  have c: "list_all (confined T recv) rhs" "list_all (typed_call P F recv \<sigma>) (concat (map inspect rhs))" using assms(3,4) by (simp_all add: straight_def)
  have f: "low_eq (stored F recv \<sigma> tok lhs rhs i) (stored F recv \<tau> tok lhs rhs i)"
    if "i < length lhs" "fieldPathOf recv (lhs ! i) = Some p" "\<not> (\<exists>t. fieldTypeByPath T p = Some t \<and> is_secret t)" for i p
  proof (rule stored_low [OF assms(1,2) _ _ that(1) c])
    have "\<not> revealsAny P (feeding lhs rhs i) tt"
      using a [OF that(1)] that assms(5) [folded tt_def] by (auto simp: assignable_def split: option.splits)
    then show "\<not> revealsAny P (feeding lhs rhs i) tainted" using revealsAny_mono [OF _ sub] by blast
    show "low_eq (target recv \<sigma> (lhs ! i)) (target recv \<tau> (lhs ! i))" using that(2) assms(2) by (simp add: target_def low_state_def)
  qed
  have l: "low_eq (stored F recv \<sigma> tok lhs rhs i) (stored F recv \<tau> tok lhs rhs i)"
    if "i < length lhs" "fieldPathOf recv (lhs ! i) = None" "lhs ! i = Ident x" "x \<notin> tt" for i x
  proof (rule stored_low [OF assms(1,2) _ _ that(1) c])
    have "x \<noteq> ''_''" using a [OF that(1)] that(2,3) by (simp add: assignable_def)
    then show "\<not> revealsAny P (feeding lhs rhs i) tainted"
      using that taint_fold_marks [of i "[0..<length lhs]" lhs x P rhs tainted] by (auto simp: tt_def taint_assign_def)
    show "low_eq (target recv \<sigma> (lhs ! i)) (target recv \<tau> (lhs ! i))" using that sub assms(2) by (auto simp: target_def low_state_def)
  qed
  show ?thesis using put_fold_low [of tt \<sigma> \<tau> "[0..<length lhs]" T recv paths lhs] low a f l by (simp add: exec_def tt_def)
qed

subsection \<open>The whole hook\<close>

lemma run_low:
  assumes "opaque F" "low_state tainted \<sigma> \<tau>" "list_all (straight T recv paths) body" "typed_run P F T recv body \<sigma>"
    and "\<And>tok lhs rhs i p t. AssignStmt tok lhs rhs \<in> set body \<Longrightarrow> i < length lhs \<Longrightarrow> fieldPathOf recv (lhs ! i) = Some p \<Longrightarrow>
      fieldTypeByPath T p = Some t \<Longrightarrow> \<not> is_secret t \<Longrightarrow> \<not> revealsAny P (feeding lhs rhs i) (fold (taint_assign P) body tainted)"
  shows "low_state (fold (taint_assign P) body tainted) (fold (exec F T recv) body \<sigma>) (fold (exec F T recv) body \<tau>)"
  using assms(2-5)
proof (induction body arbitrary: tainted \<sigma> \<tau>)
  case (Cons n body)
  obtain tok lhs rhs where n: "n = AssignStmt tok lhs rhs" using Cons.prems(2) by (auto simp: straight_def split: node.splits)
  have sub: "taint_assign P n tainted \<subseteq> fold (taint_assign P) (n # body) tainted" using taint_body_mono [of "taint_assign P n tainted"] by simp
  have "low_state (taint_assign P n tainted) (exec F T recv n \<sigma>) (exec F T recv n \<tau>)"
    unfolding n
  proof (rule exec_low [OF assms(1) Cons.prems(1)])
    show "straight T recv paths (AssignStmt tok lhs rhs)" using Cons.prems(2) n by simp
    show "list_all (typed_call P F recv \<sigma>) (inspect (AssignStmt tok lhs rhs))" using Cons.prems(3) n by simp
    fix i p t assume "i < length lhs" "fieldPathOf recv (lhs ! i) = Some p" "fieldTypeByPath T p = Some t" "\<not> is_secret t"
    then have "\<not> revealsAny P (feeding lhs rhs i) (fold (taint_assign P) (n # body) tainted)" using Cons.prems(4) n by (metis list.set_intros(1))
    then show "\<not> revealsAny P (feeding lhs rhs i) (taint_assign P (AssignStmt tok lhs rhs) tainted)" using revealsAny_mono [OF _ sub] n by blast
  qed
  moreover have "list_all (straight T recv paths) body" "typed_run P F T recv body (exec F T recv n \<sigma>)" using Cons.prems(2,3) by simp_all
  moreover have "\<And>tok lhs rhs i p t. AssignStmt tok lhs rhs \<in> set body \<Longrightarrow> i < length lhs \<Longrightarrow> fieldPathOf recv (lhs ! i) = Some p \<Longrightarrow>
      fieldTypeByPath T p = Some t \<Longrightarrow> \<not> is_secret t \<Longrightarrow> \<not> revealsAny P (feeding lhs rhs i) (fold (taint_assign P) body (taint_assign P n tainted))"
    using Cons.prems(4) by (metis fold_simps(2) list.set_intros(2))
  ultimately show ?case unfolding fold_simps(2) by (rule Cons.IH)
qed simp

text \<open>Walking a straight hook meets its own assignments and no others.\<close>

definition not_assign :: "node \<Rightarrow> bool" where
  "not_assign n = (case n of AssignStmt _ _ _ \<Rightarrow> False | _ \<Rightarrow> True)"

lemma not_assign_simps [simp]:
  "not_assign (Ident x)" "not_assign (Sel e f)" "not_assign (Paren e)" "not_assign (Star e)" "not_assign (CallExpr e es)" "not_assign (IndexExpr e i)"
  "not_assign (Other k cs)" "\<not> not_assign (AssignStmt tok l r)"
  by (simp_all add: not_assign_def)

lemma field_parts_not_assign: "field_parts recv e = Some ps \<Longrightarrow> list_all not_assign (inspect e)"
  by (induction recv e arbitrary: ps rule: field_parts.induct) (auto split: if_splits)

lemma fieldPathOf_not_assign: "fieldPathOf recv e = Some p \<Longrightarrow> list_all not_assign (inspect e)"
  by (auto simp: fieldPathOf_def field_parts_not_assign split: option.splits if_splits)

lemma confined_not_assign_parts:
  "(confined T recv e \<longrightarrow> list_all not_assign (inspect e)) \<and> (\<forall>e' f. e = Sel e' f \<longrightarrow> confined T recv e' \<longrightarrow> list_all not_assign (inspect e'))"
proof (induction e)
  case (Sel e f)
  then show ?case using fieldPathOf_not_assign [of recv "Sel e f"] by (cases "fieldPathOf recv (Sel e f)") auto
next
  case (Star e)
  then show ?case using fieldPathOf_not_assign [of recv "Star e"] by (cases "fieldPathOf recv (Star e)") auto
next
  case (CallExpr f args)
  then show ?case by (cases f) (auto simp: list_all_iff)
qed (auto simp: list_all_iff)

lemma confined_not_assign: "confined T recv e \<Longrightarrow> list_all not_assign (inspect e)"
  using confined_not_assign_parts by blast

lemma assignable_not_assign: "assignable T recv paths e \<Longrightarrow> list_all not_assign (inspect e)"
  by (auto simp: assignable_def fieldPathOf_not_assign split: option.splits node.splits)

lemma taint_skip: "list_all not_assign ns \<Longrightarrow> fold (taint_assign P) ns tainted = tainted"
  by (induction ns arbitrary: tainted) (auto simp: taint_assign_def not_assign_def split: node.splits)

lemma straight_inspect:
  assumes "list_all (straight T recv paths) body"
  shows "fold (taint_assign P) (concat (map inspect body)) tainted = fold (taint_assign P) body tainted"
  using assms
proof (induction body arbitrary: tainted)
  case (Cons n body)
  then obtain tok lhs rhs where n: "n = AssignStmt tok lhs rhs" by (auto simp: straight_def split: node.splits)
  have "list_all not_assign (concat (map inspect lhs) @ concat (map inspect rhs))"
    using Cons.prems n assignable_not_assign confined_not_assign by (fastforce simp: straight_def list_all_iff)
  then have "fold (taint_assign P) (inspect n) tainted = taint_assign P n tainted" unfolding n by (simp add: taint_skip del: fold_append)
  then show ?case using Cons by simp
qed simp



text \<open>A hook that builds a name through a local and a connection string in a secret field.\<close>

definition demo_pass :: pass where
  "demo_pass = \<lparr>ps_typeOf = (\<lambda>e. if e = Sel (Ident ''c'') ''Pass'' then Some (RPointer (RNamed (Some secretPkgPath) ''String'')) else Some ROther),
     ps_uses = (\<lambda>_. Some (''WithDerive'', Some mamoriPkgPath)),
     ps_inst = (\<lambda>_. Some (TStruct ''Config'' [GField ''First'' True [] TString, GField ''Full'' True [] TString, GField ''Pass'' True [] TSecretString, GField ''DSN'' True [] TSecretString])),
     ps_const = (\<lambda>n. case n of Other k [] \<Rightarrow> Some k | _ \<Rightarrow> None)\<rparr>"

definition demo_body :: "node list" where
  "demo_body =
     [AssignStmt '':='' [Ident ''n''] [Other ''+'' [Sel (Ident ''c'') ''First'', Other ''!'' []]],
      AssignStmt ''='' [Sel (Ident ''c'') ''Full'', Sel (Ident ''c'') ''DSN'']
        [Ident ''n'', CallExpr (Sel (Ident ''secret'') ''NewString'') [CallExpr (Sel (Sel (Ident ''c'') ''Pass'') ''Reveal'') []]]]"

definition demo_hook :: "node list \<Rightarrow> node" where
  "demo_hook body = CallExpr (Sel (Ident ''mamori'') ''WithDerive'') [FuncLit [''c''] [] body, Other ''Full'' [], Other ''DSN'' []]"

text \<open>Operators that concatenate what they can see; the functions of the secret package wrap it.\<close>

definition demo_ops :: "node \<Rightarrow> sval list \<Rightarrow> sval" where
  "demo_ops n vs =
     (let seen = (case n of Other k _ \<Rightarrow> k | _ \<Rightarrow> []) @ concat (map (\<lambda>v. case v of PlainV s \<Rightarrow> s | SecretV _ \<Rightarrow> ''***'') vs)
      in case n of CallExpr (Sel (Ident q) _) _ \<Rightarrow> if q = ''secret'' then SecretV seen else PlainV seen | _ \<Rightarrow> PlainV seen)"

lemma demo_ops_opaque: "opaque demo_ops"
proof -
  have "concat (map (\<lambda>v. case v of PlainV s \<Rightarrow> s | SecretV _ \<Rightarrow> ''***'') vs) = concat (map (\<lambda>v. case v of PlainV s \<Rightarrow> s | SecretV _ \<Rightarrow> ''***'') ws)"
    if "list_all2 low_eq vs ws" for vs ws
    using that by (induction rule: list_all2_induct) (auto simp: low_eq_def split: sval.splits)
  then show ?thesis by (simp add: opaque_def demo_ops_def Let_def)
qed

definition demo_config :: "string \<Rightarrow> path \<Rightarrow> sval" where
  "demo_config pass p = (if p = ''Pass'' then SecretV pass else if p = ''DSN'' then SecretV [] else PlainV ''x'')"


text \<open>The hook of the demo reveals: its connection string does depend on the password.\<close>

lemma demo_reveals:
  "run_hook demo_ops (the (ps_inst demo_pass (Ident []))) ''c'' demo_body (\<lambda>_. PlainV []) (demo_config ''a'') ''DSN'' = SecretV ''a''"
  by code_simp

text \<open>The shape the rule is made for: the secret goes through a local, and the write is reported.\<close>

definition laundering_body :: "node list" where
  "laundering_body =
     [AssignStmt '':='' [Ident ''plain''] [CallExpr (Sel (Sel (Ident ''c'') ''Pass'') ''Reveal'') []],
      AssignStmt ''='' [Sel (Ident ''c'') ''Full''] [Other ''+'' [Other ''pg://'' [], Ident ''plain'']]]"

lemma laundering_reported: "checkDerives demo_pass (demo_hook laundering_body) = [(''Full'', [], ''string'')]"
  by code_simp

text \<open>
  What the rule does not look at: whether a secret is empty can be written to a plain field, and so can a secret revealed through parentheses, without a
  diagnostic.
\<close>

lemma unreported_shapes:
  "checkDerives demo_pass (demo_hook [AssignStmt ''='' [Sel (Ident ''c'') ''Full''] [CallExpr (Sel (Sel (Ident ''c'') ''Pass'') ''IsZero'') []]]) = []"
  "checkDerives demo_pass (demo_hook [AssignStmt ''='' [Sel (Ident ''c'') ''Full''] [CallExpr (Paren (Sel (Sel (Ident ''c'') ''Pass'') ''Reveal'')) []]]) = []"
  by code_simp+

text \<open>
  A write path of more than seventy characters is cut when the constant is printed, no longer reads as a quoted string and is dropped: whatever is
  written there goes unreported.
\<close>

lemma long_path_unchecked:
  assumes "\<And>a. a \<in> set args \<Longrightarrow> \<exists>p. ps_const P a = Some p \<and> 70 < rune_count p"
  shows "checkDerives P (CallExpr fn (FuncLit params sig body # args)) = []"
proof -
  have "const_path P a = None" if "a \<in> set args" for a using assms [OF that] by (auto simp: const_path_def)
  then have "List.map_filter (const_path P) args = []" by (simp add: map_filter_Nil)
  then show ?thesis by (auto simp: checkDerives_def withDeriveCall_def Let_def split: option.splits if_splits)
qed

subsection \<open>Fields\<close>

text \<open>
  The first rule agrees with \<^verbatim>\<open>explain\<close>: a field is reported exactly when its own entry would be sensitive by its source alone and its type is plain.
\<close>

lemma checkField_iff:
  "checkField S f \<noteq> [] \<longleftrightarrow> (\<exists>source. map_of (f_Tag f) ''source'' = Some source \<and> FirstSensitiveScheme S source \<noteq> None) \<and> f_Type f \<in> {TString, TByteSlice}"
  by (auto simp: checkField_def plainSecretKind_def split: option.splits gtype.splits)

lemma checkField_sensitive:
  assumes "map_of (f_Tag f) ''source'' = Some source"
  shows "checkField S f \<noteq> [] \<longleftrightarrow> fd_Sensitive (source_field ts (FirstSensitiveScheme S) p f source) \<and> f_Type f \<in> {TString, TByteSlice}"
  using assms by (auto simp: checkField_iff source_field_def is_secret_def)

text \<open>The command's exit code: clean, or anything at all to say.\<close>

lemma vet_exit: "fst (vetCmd load args) = (if snd (vetCmd load args) = [] then 0 else 1)"
  by (simp add: vetCmd_def Let_def split: sum.splits prod.splits)

end
