(* ===== verification/Schema.thy ===== *)
theory Schema
  imports LiveCommands "HOL-Library.Sublist"
begin

text \<open>
  \<^verbatim>\<open>cmd/mamori/schema.go\<close>: the JSON Schema of a config struct, from the fields the static walk finds. A document is the value that is encoded; an ordered object is its
  keys and values in the order first set, and an unset bound is absent. \<^verbatim>\<open>strconv.ParseFloat\<close> is that of the record \<open>rt\<close>.
\<close>

subsection \<open>One field\<close>

datatype jsonDefault = DefaultInt int | DefaultFloat int | DefaultText string

record bounds =
  bo_Enum :: "string list"
  bo_Minimum :: "int option"
  bo_Maximum :: "int option"
  bo_MinLength :: "int option"
  bo_MaxLength :: "int option"
  bo_Default :: "jsonDefault option"

datatype property =
    PLeaf string "property option" bounds
  | PObject "(string \<times> property) list" "string list"

definition no_bounds :: bounds where
  "no_bounds = \<lparr>bo_Enum = [], bo_Minimum = None, bo_Maximum = None, bo_MinLength = None, bo_MaxLength = None, bo_Default = None\<rparr>"

definition mapScalarGoType :: "string \<Rightarrow> string" where
  "mapScalarGoType t =
     (if t \<in> set [''string'', ''secret.String'', ''secret.Bytes'', ''[]byte''] then ''string''
      else if t = ''bool'' then ''boolean''
      else if t \<in> set [''float32'', ''float64''] then ''number''
      else if t \<in> set [''int'', ''int8'', ''int16'', ''int32'', ''int64'', ''uint'', ''uint8'', ''uint16'', ''uint32'', ''uint64'', ''uintptr'', ''byte'', ''rune''] then ''integer''
      else ''string'')"

function goTypeToProperty :: "string \<Rightarrow> string \<times> property option" where
  "goTypeToProperty t = (if t \<noteq> ''[]byte'' \<and> has_prefix ''[]'' t
     then (''array'', Some (case goTypeToProperty (drop 2 t) of (ty, items) \<Rightarrow> PLeaf ty items no_bounds))
     else (mapScalarGoType t, None))"
  by pat_completeness auto
termination
  by (relation "measure length") (auto simp: has_prefix_iff)

declare goTypeToProperty.simps [simp del]

text \<open>The rules of a \<^verbatim>\<open>validate\<close> tag; a repeated rule keeps its last parameter.\<close>

definition parseValidateRules :: "string \<Rightarrow> (string \<rightharpoonup> string)" where
  "parseValidateRules tag = (if tag = [] then Map.empty
     else fold (\<lambda>part rules. case (case cut CHR ''='' part of Some (n, v) \<Rightarrow> (n, v) | None \<Rightarrow> (part, [])) of
         (name, param) \<Rightarrow> rules(trim_space name \<mapsto> param)) (split_on CHR '','' tag) Map.empty)"

definition hasValidateRule :: "string \<Rightarrow> string \<Rightarrow> bool" where
  "hasValidateRule tag name = (parseValidateRules tag name \<noteq> None)"

definition firstRule :: "(string \<rightharpoonup> string) \<Rightarrow> string list \<Rightarrow> string option" where
  "firstRule rules names = (case List.map_filter rules names of [] \<Rightarrow> None | v # _ \<Rightarrow> Some v)"

definition typedDefault :: "rt \<Rightarrow> string \<Rightarrow> string \<Rightarrow> jsonDefault" where
  "typedDefault R raw jsonType =
     (if jsonType = ''integer'' then (case ParseInt64 raw of Some n \<Rightarrow> DefaultInt n | None \<Rightarrow> DefaultText raw)
      else if jsonType = ''number'' then (case rt_ParseFloat R 64 raw of Some n \<Rightarrow> DefaultFloat n | None \<Rightarrow> DefaultText raw)
      else DefaultText raw)"

definition fieldToProperty :: "rt \<Rightarrow> Field \<Rightarrow> property" where
  "fieldToProperty R f =
     (case goTypeToProperty (fd_GoType f) of (ty, items) \<Rightarrow>
       (let rules = parseValidateRules (fd_Validate f);
            enum = (case rules ''oneof'' of Some v \<Rightarrow> split_fields [] v | None \<Rightarrow> []);
            numeric = ty \<in> {''integer'', ''number''};
            num = (\<lambda>names. if numeric then Option.bind (firstRule rules names) (rt_ParseFloat R 64) else None);
            len = (\<lambda>name. if ty = ''string'' then Option.bind (rules name) ParseInt64 else None)
        in PLeaf ty items \<lparr>bo_Enum = enum, bo_Minimum = num [''gte'', ''min''], bo_Maximum = num [''lte'', ''max''],
             bo_MinLength = len ''min'', bo_MaxLength = len ''max'',
             bo_Default = (if fd_HasDefault f then Some (typedDefault R (fd_Default f) ty) else None)\<rparr>))"

definition isRequiredField :: "Field \<Rightarrow> bool" where
  "isRequiredField f = (if hasValidateRule (fd_Validate f) ''required'' then True else \<not> fd_Optional f \<and> \<not> fd_HasDefault f)"

subsection \<open>Nesting\<close>

datatype builderNode = BNode (bn_children: "(string \<times> builderNode) list") (bn_field: "Field option")

definition newBuilderNode :: builderNode where "newBuilderNode = BNode [] None"

text \<open>Setting a child in place, or appending it when its key is new.\<close>

fun set_key :: "string \<Rightarrow> 'v \<Rightarrow> (string \<times> 'v) list \<Rightarrow> (string \<times> 'v) list" where
  "set_key k v [] = [(k, v)]"
| "set_key k v ((k', w) # r) = (if k' = k then (k, v) # r else (k', w) # set_key k v r)"

fun insert_path :: "string list \<Rightarrow> Field \<Rightarrow> builderNode \<Rightarrow> builderNode" where
  "insert_path [] f n = n"
| "insert_path (seg # segs) f (BNode cs fo) =
     (let child = (case map_of cs seg of Some c \<Rightarrow> c | None \<Rightarrow> newBuilderNode);
          child' = (if segs = [] then BNode (bn_children child) (Some f) else insert_path segs f child)
      in BNode (set_key seg child' cs) fo)"

fun toProperty :: "rt \<Rightarrow> builderNode \<Rightarrow> property" where
  "toProperty R (BNode cs (Some f)) = fieldToProperty R f"
| "toProperty R (BNode cs None) =
     PObject (map (\<lambda>(k, c). (k, toProperty R c)) cs)
       (sort (map fst (filter (\<lambda>(k, c). case bn_field c of Some f \<Rightarrow> isRequiredField f | None \<Rightarrow> False) cs)))"

record schemaDoc =
  sd_Title :: string
  sd_Root :: property

definition build_tree :: "Field list \<Rightarrow> builderNode" where
  "build_tree fs = fold (\<lambda>f. insert_path (split_on CHR ''.'' (fd_Path f)) f) fs newBuilderNode"

definition structSchema :: "rt \<Rightarrow> StructInfo \<Rightarrow> schemaDoc" where
  "structSchema R s = \<lparr>sd_Title = si_Package s @ ''.'' @ si_TypeName s, sd_Root = toProperty R (build_tree (si_Fields s))\<rparr>"

subsection \<open>The command\<close>

function schema_args :: "string list \<Rightarrow> explainArgs \<Rightarrow> err + explainArgs" where
  "schema_args args o' = (case args of [] \<Rightarrow> Inr o'
   | a # rest \<Rightarrow> (case matchSecretSchemes args of
       Inl e \<Rightarrow> Inl e
     | Inr (value, consumed) \<Rightarrow>
        if consumed > 0 then schema_args (drop consumed args) (o'\<lparr>xa_extra := value\<rparr>)
        else if a = ''--type'' \<or> a = ''-type'' then
          (case rest of [] \<Rightarrow> Inl (requires_value a) | v # rest' \<Rightarrow> schema_args rest' (o'\<lparr>xa_typeName := v\<rparr>))
        else if has_prefix ''--type='' a then schema_args rest (o'\<lparr>xa_typeName := trim_prefix ''--type='' a\<rparr>)
        else if has_prefix ''-type='' a then schema_args rest (o'\<lparr>xa_typeName := trim_prefix ''-type='' a\<rparr>)
        else if has_prefix ''-'' a then Inl (unknown_flag a)
        else schema_args rest (o'\<lparr>xa_patterns := xa_patterns o' @ [a]\<rparr>)))"
  by pat_completeness auto
termination
  by (relation "measure (\<lambda>(args, _). length args)") auto

declare schema_args.simps [simp del]

definition parseSchemaArgs :: "string list \<Rightarrow> err + explainArgs \<times> SchemeSet option" where
  "parseSchemaArgs args = bind_res (schema_args args \<lparr>xa_patterns = [], xa_typeName = [], xa_jsonOut = False, xa_extra = []\<rparr>)
     (\<lambda>o'. bind_res (secretSchemeSet (xa_extra o')) (\<lambda>schemes. Inr (o', schemes)))"

text \<open>A single document stands alone; any other number of them is an array.\<close>

definition writeSchema :: "rt \<Rightarrow> StructInfo list \<Rightarrow> schemaDoc + schemaDoc list" where
  "writeSchema R structs = (let docs = map (structSchema R) structs in if length docs = 1 then Inl (docs ! 0) else Inr docs)"

definition schemaCmd :: "rt \<Rightarrow> cli_env \<Rightarrow> string list \<Rightarrow> nat \<times> (schemaDoc + schemaDoc list) option \<times> err list" where
  "schemaCmd R L args =
     (if wantsHelp args then (0, None, [])
      else (case parseSchemaArgs args of
         Inl e \<Rightarrow> (1, None, [e])
       | Inr (o', schemes) \<Rightarrow> (case ce_Extract L (xa_patterns o') (xa_typeName o') schemes of
            Inl e \<Rightarrow> (1, None, [Errorf ''mamori schema'' [e]])
          | Inr structs \<Rightarrow> (0, Some (writeSchema R structs), []))))"

subsection \<open>The tree holds the fields\<close>

fun node_at :: "builderNode \<Rightarrow> string list \<Rightarrow> builderNode option" where
  "node_at n [] = Some n"
| "node_at n (k # ks) = (case map_of (bn_children n) k of None \<Rightarrow> None | Some c \<Rightarrow> node_at c ks)"

definition field_at :: "builderNode \<Rightarrow> string list \<Rightarrow> Field option" where
  "field_at n ks = (case node_at n ks of None \<Rightarrow> None | Some m \<Rightarrow> bn_field m)"

lemma field_at_Cons: "field_at n (k # ks) = (case map_of (bn_children n) k of None \<Rightarrow> None | Some c \<Rightarrow> field_at c ks)"
  by (simp add: field_at_def split: option.splits)

lemma field_at_Nil [simp]: "field_at n [] = bn_field n"
  by (simp add: field_at_def)

lemma field_at_new [simp]: "field_at newBuilderNode ks = None"
  by (cases ks) (simp_all add: field_at_Cons newBuilderNode_def)

lemma map_of_set_key: "map_of (set_key k v xs) = (map_of xs)(k \<mapsto> v)"
  by (induction k v xs rule: set_key.induct) auto

lemma set_key_distinct: "distinct (map fst xs) \<Longrightarrow> distinct (map fst (set_key k v xs))"
proof -
  have "fst ` set (set_key k v xs) = insert k (fst ` set xs)" for xs :: "(string \<times> 'a) list"
    by (induction k v xs rule: set_key.induct) auto
  then show "distinct (map fst xs) \<Longrightarrow> distinct (map fst (set_key k v xs))"
    by (induction k v xs rule: set_key.induct) auto
qed

lemma field_at_insert:
  "segs \<noteq> [] \<Longrightarrow> field_at (insert_path segs f n) ks = (if ks = segs then Some f else field_at n ks)"
proof (induction segs f n arbitrary: ks rule: insert_path.induct)
  case (2 seg segs f cs fo)
  let ?c = "case map_of cs seg of Some c \<Rightarrow> c | None \<Rightarrow> newBuilderNode"
  have old: "field_at ?c r = (case map_of cs seg of None \<Rightarrow> None | Some c \<Rightarrow> field_at c r)" for r by (simp split: option.splits)
  have leaf: "field_at (BNode (bn_children ?c) (Some f)) r = (if r = [] then Some f else field_at ?c r)" for r
    by (cases r) (simp_all add: field_at_Cons)
  show ?case
  proof (cases ks)
    case (Cons k r)
    then show ?thesis using "2.IH" [OF refl, of r] leaf [of r] old [of r]
      by (auto simp: field_at_Cons map_of_set_key Let_def)
  qed (simp add: Let_def)
qed simp

lemma find_snoc: "find P (xs @ [x]) = (case find P xs of Some y \<Rightarrow> Some y | None \<Rightarrow> if P x then Some x else None)"
  by (induction xs) auto

lemma field_at_fold:
  "field_at (fold (\<lambda>f. insert_path (split_on CHR ''.'' (fd_Path f)) f) fs n) ks =
     (case find (\<lambda>f. split_on CHR ''.'' (fd_Path f) = ks) (rev fs) of Some f \<Rightarrow> Some f | None \<Rightarrow> field_at n ks)"
  by (induction fs arbitrary: n) (auto simp: find_snoc field_at_insert split: option.splits)

text \<open>The field built in at a path is the last one declared for it.\<close>

lemma field_at_build: "field_at (build_tree fs) ks = find (\<lambda>f. split_on CHR ''.'' (fd_Path f) = ks) (rev fs)"
  by (simp add: build_tree_def field_at_fold split: option.splits)

text \<open>Children have distinct keys.\<close>

fun tree_ok :: "builderNode \<Rightarrow> bool" where
  "tree_ok (BNode cs fo) \<longleftrightarrow> distinct (map fst cs) \<and> list_all (\<lambda>(k, c). tree_ok c) cs"

lemma set_key_set: "set (set_key k v xs) \<subseteq> insert (k, v) (set xs)"
  by (induction k v xs rule: set_key.induct) auto

lemma tree_ok_insert: "tree_ok n \<Longrightarrow> tree_ok (insert_path segs f n)"
proof (induction segs f n rule: insert_path.induct)
  case (2 seg segs f cs fo)
  define c where "c = (case map_of cs seg of Some c \<Rightarrow> c | None \<Rightarrow> newBuilderNode)"
  define c' where "c' = (if segs = [] then BNode (bn_children c) (Some f) else insert_path segs f c)"
  have "tree_ok c"
    using "2.prems" by (auto simp: c_def newBuilderNode_def list_all_iff split: option.splits dest!: map_of_SomeD)
  then have "tree_ok c'" using "2.IH" [OF refl] unfolding c_def [symmetric] by (cases c) (auto simp: c'_def)
  then have "list_all (\<lambda>(k, c). tree_ok c) (set_key seg c' cs)"
    using "2.prems" set_key_set [of seg c' cs] by (auto simp: list_all_iff)
  moreover have "insert_path (seg # segs) f (BNode cs fo) = BNode (set_key seg c' cs) fo" by (simp add: c_def c'_def Let_def)
  ultimately show ?case using "2.prems" set_key_distinct [of cs seg c'] by simp
qed simp

lemma tree_ok_build: "tree_ok (build_tree fs)"
proof -
  have "tree_ok n \<Longrightarrow> tree_ok (fold (\<lambda>f. insert_path (split_on CHR ''.'' (fd_Path f)) f) fs n)" for n
    by (induction fs arbitrary: n) (use tree_ok_insert in auto)
  then show ?thesis by (simp add: build_tree_def newBuilderNode_def)
qed

subsection \<open>The schema describes the fields\<close>

fun schema_at :: "property \<Rightarrow> string list \<Rightarrow> property option" where
  "schema_at p [] = Some p"
| "schema_at (PObject ps req) (k # ks) = (case map_of ps k of None \<Rightarrow> None | Some q \<Rightarrow> schema_at q ks)"
| "schema_at (PLeaf ty items b) (k # ks) = None"

definition required_at :: "property \<Rightarrow> string list \<Rightarrow> string \<Rightarrow> bool" where
  "required_at p ks k = (case schema_at p ks of Some (PObject ps req) \<Rightarrow> k \<in> set req | _ \<Rightarrow> False)"

lemma fieldToProperty_leaf: "\<exists>ty items b. fieldToProperty R f = PLeaf ty items b"
  by (simp add: fieldToProperty_def Let_def split: prod.splits)

lemma toProperty_object: "PObject ps rq = toProperty R m \<Longrightarrow> \<exists>cs. m = BNode cs None"
  using fieldToProperty_leaf [of R] by (cases m; cases "bn_field m") (auto simp: fieldToProperty_def Let_def split: prod.splits)

lemma toProperty_leaf: "PLeaf ty items b = toProperty R m \<Longrightarrow> \<exists>cs f. m = BNode cs (Some f)"
  by (cases m; cases "bn_field m") auto

text \<open>No field on the way down: the schema at a path is the schema of the node there.\<close>

lemma schema_at_node:
  "(\<And>ps. strict_prefix ps ks \<Longrightarrow> field_at n ps = None) \<Longrightarrow> schema_at (toProperty R n) ks = map_option (toProperty R) (node_at n ks)"
proof (induction ks arbitrary: n)
  case (Cons k ks)
  obtain cs where n: "n = BNode cs None" using Cons.prems [of "[]"] by (cases n) auto
  show ?case
  proof (cases "map_of cs k")
    case (Some c)
    have "field_at c ps = None" if "strict_prefix ps ks" for ps using Cons.prems [of "k # ps"] that by (simp add: n field_at_Cons Some)
    then show ?thesis using Cons.IH [of c] by (simp add: n map_of_map Some)
  qed (simp add: n map_of_map)
qed simp

definition segments :: "Field \<Rightarrow> string list" where "segments f = split_on CHR ''.'' (fd_Path f)"

text \<open>No path is another one, or leads to another one.\<close>

definition apart :: "Field list \<Rightarrow> bool" where
  "apart fs \<longleftrightarrow> distinct (map segments fs) \<and> (\<forall>f\<in>set fs. \<forall>g\<in>set fs. \<not> strict_prefix (segments f) (segments g))"

lemma find_mem: "find P xs = Some y \<Longrightarrow> y \<in> set xs \<and> P y"
  by (auto simp: find_Some_iff)

lemma field_at_apart:
  assumes "apart fs"
  shows "field_at (build_tree fs) ks = Some f \<longleftrightarrow> f \<in> set fs \<and> segments f = ks"
proof
  show "field_at (build_tree fs) ks = Some f \<Longrightarrow> f \<in> set fs \<and> segments f = ks" using find_mem by (fastforce simp: field_at_build segments_def)
  assume f: "f \<in> set fs \<and> segments f = ks"
  then obtain g where g: "field_at (build_tree fs) ks = Some g"
    by (cases "find (\<lambda>f. split_on CHR ''.'' (fd_Path f) = ks) (rev fs)") (auto simp: field_at_build find_None_iff segments_def)
  then have "g \<in> set fs" "segments g = ks" using find_mem by (fastforce simp: field_at_build segments_def)+
  moreover have "inj_on segments (set fs)" using assms by (simp add: apart_def distinct_map)
  ultimately show "field_at (build_tree fs) ks = Some f" using f g by (auto dest: inj_onD)
qed

lemma node_at_field: "field_at n ks = Some f \<Longrightarrow> \<exists>cs. node_at n ks = Some (BNode cs (Some f))"
  unfolding field_at_def by (metis builderNode.collapse option.case_eq_if option.distinct(1) option.expand option.sel)

lemma node_at_append: "node_at n (as @ bs) = Option.bind (node_at n as) (\<lambda>m. node_at m bs)"
  by (induction as arbitrary: n) (auto split: option.splits)

lemma node_at_tree_ok: "tree_ok n \<Longrightarrow> node_at n ks = Some m \<Longrightarrow> tree_ok m"
proof (induction ks arbitrary: n)
  case (Cons k ks)
  then show ?case by (cases n) (auto simp: list_all_iff split: option.splits dest: map_of_SomeD)
qed simp

lemma schema_at_append: "schema_at p (as @ bs) = Option.bind (schema_at p as) (\<lambda>q. schema_at q bs)"
  by (induction p as rule: schema_at.induct) (auto split: option.splits)

lemma schema_at_field:
  assumes "apart fs" "f \<in> set fs"
  shows "schema_at (toProperty R (build_tree fs)) (segments f) = Some (fieldToProperty R f)"
proof -
  have "field_at (build_tree fs) ps = None" if "strict_prefix ps (segments f)" for ps
  proof (rule ccontr)
    assume "field_at (build_tree fs) ps \<noteq> None"
    then obtain g where "g \<in> set fs" "segments g = ps" using field_at_apart [OF assms(1)] by blast
    then show False using that assms by (auto simp: apart_def)
  qed
  moreover obtain cs where "node_at (build_tree fs) (segments f) = Some (BNode cs (Some f))"
    using node_at_field [of "build_tree fs" "segments f" f] field_at_apart [OF assms(1)] assms(2) by blast
  ultimately show ?thesis using schema_at_node [of "segments f" "build_tree fs" R] by simp
qed

text \<open>What the schema shows is a node of the tree: nothing lies below a field.\<close>

lemma schema_at_reach:
  assumes "apart fs" "schema_at (toProperty R (build_tree fs)) ks = Some p"
  shows "\<exists>m. node_at (build_tree fs) ks = Some m \<and> p = toProperty R m \<and> tree_ok m"
proof -
  have "field_at (build_tree fs) ps = None" if sp: "strict_prefix ps ks" for ps
  proof (rule ccontr)
    assume "field_at (build_tree fs) ps \<noteq> None"
    then obtain f where "f \<in> set fs" "segments f = ps" using field_at_apart [OF assms(1)] by blast
    moreover obtain k z where "ks = ps @ k # z" using sp by (elim strict_prefixE')
    ultimately show False
      using assms(2) schema_at_field [OF assms(1), of f R] fieldToProperty_leaf [of R f] by (auto simp: schema_at_append)
  qed
  then have "schema_at (toProperty R (build_tree fs)) ks = map_option (toProperty R) (node_at (build_tree fs) ks)" by (rule schema_at_node)
  then show ?thesis using assms(2) node_at_tree_ok [OF tree_ok_build] by (cases "node_at (build_tree fs) ks") auto
qed

text \<open>
  The schema of a struct whose paths are apart describes its fields and nothing else: at the path of a field stands the schema of that field, a leaf stands at
  the path of a field only, and an object requires exactly the keys at which a required field is declared.
\<close>

lemma schema_exact:
  assumes "apart (si_Fields s)"
  shows "f \<in> set (si_Fields s) \<Longrightarrow> schema_at (sd_Root (structSchema R s)) (segments f) = Some (fieldToProperty R f)"
    and "schema_at (sd_Root (structSchema R s)) ks = Some (PLeaf ty items b) \<Longrightarrow> \<exists>f\<in>set (si_Fields s). segments f = ks \<and> fieldToProperty R f = PLeaf ty items b"
    and "required_at (sd_Root (structSchema R s)) ks k \<Longrightarrow> \<exists>f\<in>set (si_Fields s). segments f = ks @ [k] \<and> isRequiredField f"
    and "f \<in> set (si_Fields s) \<Longrightarrow> isRequiredField f \<Longrightarrow> required_at (sd_Root (structSchema R s)) (butlast (segments f)) (last (segments f))"
proof -
  let ?n = "build_tree (si_Fields s)"
  have r: "sd_Root (structSchema R s) = toProperty R ?n" by (simp add: structSchema_def)
  note at = field_at_apart [OF assms]
  show "f \<in> set (si_Fields s) \<Longrightarrow> schema_at (sd_Root (structSchema R s)) (segments f) = Some (fieldToProperty R f)"
    unfolding r by (rule schema_at_field [OF assms])
  show "\<exists>f\<in>set (si_Fields s). segments f = ks \<and> fieldToProperty R f = PLeaf ty items b" if leaf: "schema_at (sd_Root (structSchema R s)) ks = Some (PLeaf ty items b)"
  proof -
    obtain m where m: "node_at ?n ks = Some m" "PLeaf ty items b = toProperty R m" using schema_at_reach [OF assms leaf [unfolded r]] by blast
    then obtain cs f where "m = BNode cs (Some f)" using toProperty_leaf by blast
    then have "field_at ?n ks = Some f" "fieldToProperty R f = PLeaf ty items b" using m by (simp_all add: field_at_def)
    then show ?thesis using at by blast
  qed
  show "\<exists>f\<in>set (si_Fields s). segments f = ks @ [k] \<and> isRequiredField f" if req: "required_at (sd_Root (structSchema R s)) ks k"
  proof -
    obtain ps rq where o: "schema_at (toProperty R ?n) ks = Some (PObject ps rq)" "k \<in> set rq"
      using req by (auto simp: required_at_def r split: option.splits property.splits)
    obtain m where m: "node_at ?n ks = Some m" "PObject ps rq = toProperty R m" "tree_ok m" using schema_at_reach [OF assms o(1)] by blast
    then obtain cs where cs: "m = BNode cs None" using toProperty_object by blast
    obtain c f where c: "(k, c) \<in> set cs" "bn_field c = Some f" "isRequiredField f"
      using o(2) m(2) cs by (auto split: option.splits)
    have "map_of cs k = Some c" using c(1) m(3) cs by simp
    then have "field_at ?n (ks @ [k]) = Some f" using m(1) cs c(2) node_at_append [of ?n ks "[k]"] by (simp add: field_at_def)
    then show ?thesis using at c(3) by blast
  qed
  show "required_at (sd_Root (structSchema R s)) (butlast (segments f)) (last (segments f))" if f: "f \<in> set (si_Fields s)" "isRequiredField f"
  proof -
    let ?ks = "butlast (segments f)" and ?k = "last (segments f)"
    have seg: "segments f = ?ks @ [?k]" by (simp add: segments_def)
    have "schema_at (toProperty R ?n) (?ks @ [?k]) = Some (fieldToProperty R f)" by (subst seg [symmetric]) (rule schema_at_field [OF assms f(1)])
    then obtain p where p: "schema_at (toProperty R ?n) ?ks = Some p" "schema_at p [?k] = Some (fieldToProperty R f)"
      unfolding schema_at_append bind_eq_Some_conv by blast
    obtain m where m: "node_at ?n ?ks = Some m" "p = toProperty R m" "tree_ok m" using schema_at_reach [OF assms p(1)] by blast
    have "field_at ?n (?ks @ [?k]) = Some f" by (subst seg [symmetric]) (use at f(1) in blast)
    then obtain c where c: "map_of (bn_children m) ?k = Some c" "bn_field c = Some f"
      using m(1) node_at_append [of ?n ?ks "[?k]"] by (auto simp: field_at_def split: option.splits)
    obtain ps rq where "p = PObject ps rq" using p(2) by (cases p) auto
    then obtain cs where cs: "m = BNode cs None" using m(2) toProperty_object by blast
    have "?k \<in> fst ` set (filter (\<lambda>(k, c). case bn_field c of Some f \<Rightarrow> isRequiredField f | None \<Rightarrow> False) cs)"
      using map_of_SomeD [OF c(1)] cs c(2) f(2) by force
    then show ?thesis using p(1) m(2) cs by (simp add: required_at_def r)
  qed
qed

subsection \<open>Where it goes wrong\<close>

text \<open>A value of a type, as far as a schema's type and enumeration tell.\<close>

definition has_type :: "string \<Rightarrow> any \<Rightarrow> bool" where
  "has_type ty v = (case v of ABool _ \<Rightarrow> ty = ''boolean'' | ANum _ \<Rightarrow> ty \<in> {''integer'', ''number''} | AString _ \<Rightarrow> ty = ''string'' | AList _ \<Rightarrow> ty = ''array'' | AMap _ \<Rightarrow> ty = ''object'' | ANull \<Rightarrow> False)"

definition admits :: "property \<Rightarrow> any \<Rightarrow> bool" where
  "admits p v = (case p of PLeaf ty _ b \<Rightarrow> has_type ty v \<and> (bo_Enum b = [] \<or> v \<in> AString ` set (bo_Enum b)) | PObject _ _ \<Rightarrow> True)"

text \<open>The choices of a field that is not a string are written as strings, so no value at all has its schema.\<close>

lemma oneof_unsatisfiable:
  assumes "fst (goTypeToProperty (fd_GoType f)) \<noteq> ''string''" "parseValidateRules (fd_Validate f) ''oneof'' = Some v" "split_fields [] v \<noteq> []"
  shows "\<not> admits (fieldToProperty R f) x"
  using assms by (auto simp: fieldToProperty_def admits_def has_type_def Let_def split: prod.splits any.splits)

definition schema_field :: "path \<Rightarrow> FieldKind \<Rightarrow> string \<Rightarrow> string \<Rightarrow> Field" where
  "schema_field p k ty v = \<lparr>fd_Path = p, fd_Kind = k, fd_GoType = ty, fd_Source = [], fd_Refs = [], fd_Default = [], fd_HasDefault = False,
     fd_Optional = False, fd_Sensitive = False, fd_OnFail = [], fd_Validate = v\<rparr>"

lemma oneof_unsatisfiable_witness: "\<not> admits (fieldToProperty R (schema_field ''Replicas'' KindSource ''int'' ''oneof=1 3 5'')) x"
proof -
  have "fst (goTypeToProperty ''int'') \<noteq> ''string''" "parseValidateRules ''oneof=1 3 5'' ''oneof'' = Some ''1 3 5''" "split_fields [] ''1 3 5'' \<noteq> []" by code_simp+
  then show ?thesis by (intro oneof_unsatisfiable) (simp_all add: schema_field_def)
qed

text \<open>A derive path that names a struct puts a field at an inner node, and the fields below it are gone from the schema.\<close>

lemma container_hides_fields:
  "schema_at (toProperty R (build_tree [schema_field ''Redis.Addr'' KindSource ''string'' [], schema_field ''Redis'' KindDerived ''Redis'' []])) [''Redis'', ''Addr''] = None"
proof -
  have "build_tree [schema_field ''Redis.Addr'' KindSource ''string'' [], schema_field ''Redis'' KindDerived ''Redis'' []] =
     BNode [(''Redis'', BNode [(''Addr'', BNode [] (Some (schema_field ''Redis.Addr'' KindSource ''string'' [])))] (Some (schema_field ''Redis'' KindDerived ''Redis'' [])))] None"
    by code_simp
  then show ?thesis using fieldToProperty_leaf [of R "schema_field ''Redis'' KindDerived ''Redis'' []"] by auto
qed

end
